(* ===== verification/Prelude.thy ===== *)
theory Prelude
  imports Main "HOL-Library.Word" "HOL-Library.Monad_Syntax"
begin

text \<open>
  Shared vocabulary of the development: the names of the C integer types at their i386 widths,
  generic lemmas on lists and words, and the ring-buffer view of a fixed-size array that the
  keyboard FIFO, the round-robin ready queue and the wait queue have in common.

  Conventions used by every component theory:
  \<^item> \<open>uint8_t\<close> .. \<open>uint64_t\<close> and \<open>size_t\<close> are words, so arithmetic wraps as the compiled code does;
  \<^item> a C array is a list, and an access outside it has no defined result;
  \<^item> a function whose C body can run into undefined behaviour (a null or out-of-bounds access) or
    may fail to return has an \<open>option\<close> result, and \<open>None\<close> stands for exactly these executions;
  \<^item> error codes are returned as the code returns them (negative \<open>int32_t\<close> values).
\<close>

type_synonym u8 = "8 word"
type_synonym u16 = "16 word"
type_synonym u32 = "32 word"
type_synonym u64 = "64 word"

named_theorems konst "numeric constants of the headers, unfolded to evaluate addresses and sizes"
named_theorems invs "well-formedness predicates of the components"

section \<open>Error numbers of \<open>errno.h\<close>\<close>

definition ENOENT :: int where [konst]: "ENOENT = 2"
definition ESRCH :: int where [konst]: "ESRCH = 3"
definition EIO :: int where [konst]: "EIO = 5"
definition E2BIG :: int where [konst]: "E2BIG = 7"
definition EBADF :: int where [konst]: "EBADF = 9"
definition ENOMEM :: int where [konst]: "ENOMEM = 12"
definition EFAULT :: int where [konst]: "EFAULT = 14"
definition EINVAL :: int where [konst]: "EINVAL = 22"
definition ENOSPC :: int where [konst]: "ENOSPC = 28"

section \<open>Lists\<close>

lemma nth_list_update_if:
  "i < length xs \<Longrightarrow> xs[i := v] ! j = (if i = j then v else xs ! j)"
  by (simp add: nth_list_update)

lemma list_all_update:
  "list_all P xs \<Longrightarrow> P v \<Longrightarrow> list_all P (xs[i := v])"
  by (induction xs arbitrary: i) (auto split: nat.splits)

lemma map_nth_upto: "n \<le> length xs \<Longrightarrow> map ((!) xs) [0..<n] = take n xs"
  by (rule nth_equalityI) auto

lemma take_Suc_snoc: "n < length xs \<Longrightarrow> take (Suc n) xs = take n xs @ [xs ! n]"
  by (rule take_Suc_conv_app_nth)

lemma min_split: "min k a + min (k - a) b = min k (a + (b :: nat))"
  by auto

section \<open>Words\<close>


lemma unat_ucast_wide: "LENGTH('a) \<le> LENGTH('b) \<Longrightarrow> unat (ucast (x :: 'a::len word) :: 'b::len word) = unat x"
  by (simp add: unsigned_ucast_eq take_bit_nat_eq_self_iff less_le_trans [OF unsigned_less])

unbundle bit_operations_syntax

lemma unat_bound: "unat (w :: 'a::len word) < 2 ^ LENGTH('a)"
  by (rule unsigned_less)

lemma unat_drop_bit: "unat (drop_bit k (w :: 'a::len word)) = unat w div 2 ^ k"
proof -
  have "take_bit LENGTH('a) (unat w) = unat w" by (simp add: take_bit_nat_eq_self_iff unat_bound)
  then have "unat (drop_bit k w) = drop_bit k (unat w)" by (simp only: unsigned_drop_bit_eq)
  then show ?thesis by (simp only: drop_bit_eq_div [where 'a = nat])
qed

lemma unat_byte: "unat (ucast (drop_bit k (w :: 'a::len word)) :: u8) = (unat w div 2 ^ k) mod 2 ^ 8"
  by (simp only: unsigned_ucast_eq unat_drop_bit take_bit_eq_mod) simp

lemma ucast_of_nat: "(ucast (x :: 'a::len word) :: 'b::len word) = of_nat (unat x)"
  by simp

lemma unat_and_mask: "unat ((w :: 'a::len word) AND mask n) = unat w mod 2 ^ n"
proof -
  have "w AND mask n = take_bit n w" by (simp add: take_bit_eq_mask)
  then show ?thesis by (simp only: unsigned_take_bit_eq) (simp add: take_bit_eq_mod)
qed

lemma unat_and_not_mask: "unat ((w :: 'a::len word) AND NOT (mask n)) = unat w - unat w mod 2 ^ n"
proof -
  have "w AND NOT (mask n) = push_bit n (drop_bit n w)"
    by (rule bit_word_eqI) (auto simp: bit_simps)
  moreover have "unat w div 2 ^ n * 2 ^ n < 2 ^ LENGTH('a)"
    using unat_bound [of w] div_times_less_eq_dividend [of "unat w" "2 ^ n"] by linarith
  ultimately have "unat (w AND NOT (mask n)) = unat w div 2 ^ n * 2 ^ n"
    by (simp only: unsigned_push_bit_eq unsigned_drop_bit_eq)
      (simp add: push_bit_eq_mult drop_bit_eq_div take_bit_eq_mod)
  then show ?thesis by (simp add: minus_mod_eq_div_mult)
qed

lemma unat_of_nat_small: "n < 2 ^ 32 \<Longrightarrow> unat (of_nat n :: u32) = n"
  by (simp add: unsigned_of_nat take_bit_nat_eq_self_iff)

lemma of_nat_small_inj: "(of_nat a :: u32) = of_nat b \<Longrightarrow> a < 2 ^ 32 \<Longrightarrow> b < 2 ^ 32 \<Longrightarrow> a = b"
  by (metis unat_of_nat_small)

lemma unat_add_small:
  "unat (a :: 'a::len word) + unat b < 2 ^ LENGTH('a) \<Longrightarrow> unat (a + b) = unat a + unat b"
  by (simp add: unat_word_ariths)

section \<open>Ring buffers\<close>

text \<open>
  The \<open>n\<close> elements of an array starting at index \<open>t\<close>, wrapping at the end of the array: the contents
  of a queue whose oldest element is at \<open>t\<close>.
\<close>

definition ring_list :: "'a list \<Rightarrow> nat \<Rightarrow> nat \<Rightarrow> 'a list" where
  "ring_list buf t n = map (\<lambda>i. buf ! ((t + i) mod length buf)) [0..<n]"

lemma length_ring_list [simp]: "length (ring_list buf t n) = n"
  by (simp add: ring_list_def)

lemma ring_list_0 [simp]: "ring_list buf t 0 = []"
  by (simp add: ring_list_def)

lemma ring_list_nth: "i < n \<Longrightarrow> ring_list buf t n ! i = buf ! ((t + i) mod length buf)"
  by (simp add: ring_list_def)

lemma ring_slot_distinct:
  assumes "i < n" "n < L"
  shows "(t + n) mod L \<noteq> (t + i) mod (L::nat)"
proof
  assume "(t + n) mod L = (t + i) mod L"
  then have "L dvd (t + n) - (t + i)"
    using mod_eq_dvd_iff_nat [of "t + i" "t + n" L] assms by simp
  with assms show False by (auto dest: dvd_imp_le)
qed

text \<open>Writing at the slot behind the last element appends.\<close>

lemma ring_list_enq:
  assumes "n < length buf"
  shows "ring_list (buf[(t + n) mod length buf := x]) t (Suc n) = ring_list buf t n @ [x]"
proof (rule nth_equalityI)
  fix i assume i: "i < length (ring_list (buf[(t + n) mod length buf := x]) t (Suc n))"
  have "(t + n) mod length buf < length buf" using assms by (intro mod_less_divisor) auto
  with i assms show "ring_list (buf[(t + n) mod length buf := x]) t (Suc n) ! i
      = (ring_list buf t n @ [x]) ! i"
    using ring_slot_distinct [of i n "length buf" t]
    by (cases "i = n") (auto simp: ring_list_nth nth_append nth_list_update)
qed simp

text \<open>Reading at the first slot and advancing removes the oldest element.\<close>

lemma ring_list_deq:
  assumes "t < length buf"
  shows "ring_list buf t (Suc n) = buf ! t # ring_list buf ((t + 1) mod length buf) n"
proof (rule nth_equalityI)
  fix i assume "i < length (ring_list buf t (Suc n))"
  then show "ring_list buf t (Suc n) ! i = (buf ! t # ring_list buf ((t + 1) mod length buf) n) ! i"
    using assms by (cases i) (auto simp: ring_list_nth mod_simps)
qed simp

text \<open>Overwriting the slot that was just read does not touch the elements behind it.\<close>

lemma ring_list_clear:
  assumes "t < length buf" "n < length buf"
  shows "ring_list (buf[t := y]) ((t + 1) mod length buf) n = ring_list buf ((t + 1) mod length buf) n"
proof (rule nth_equalityI)
  fix i assume "i < length (ring_list (buf[t := y]) ((t + 1) mod length buf) n)"
  then have i: "i < n" by simp
  then have "(t + Suc i) mod length buf \<noteq> (t + 0) mod length buf"
    using assms by (intro ring_slot_distinct) auto
  then have "t \<noteq> ((t + 1) mod length buf + i) mod length buf"
    using assms by (simp add: mod_simps)
  with i show "ring_list (buf[t := y]) ((t + 1) mod length buf) n ! i
      = ring_list buf ((t + 1) mod length buf) n ! i"
    using assms by (simp add: ring_list_nth nth_list_update)
qed simp

lemma ring_list_nonempty: "0 < n \<Longrightarrow> t < length buf \<Longrightarrow> hd (ring_list buf t n) = buf ! t"
  by (cases n) (simp_all add: ring_list_deq)

end
