(* ===== verification/Cstring.thy ===== *)
theory Cstring
  imports Prelude
begin

text \<open>
  The kernel's string and memory routines (\<open>lib/string.c\<close>; \<open>x86_64/klib/string.c\<close> holds the same code). Memory is a
  function from addresses to bytes, so a routine sees whatever its arguments alias. A loop that stops only at a
  terminator is a \<open>partial_function\<close>: without a terminator it does not return. Address arithmetic is not reduced:
  the routines are used on buffers that do not cross the end of the address space.
\<close>

type_synonym mem = "nat \<Rightarrow> u8"

section \<open>\<open>lib/string.c\<close>\<close>

partial_function (option) strcmp :: "mem \<Rightarrow> nat \<Rightarrow> nat \<Rightarrow> int option" where
  "strcmp m str1 str2 =
     (if m str1 \<noteq> 0 \<and> m str1 = m str2 then strcmp m (str1 + 1) (str2 + 1)
      else Some (uint (m str1) - uint (m str2)))"

text \<open>The two loops of \<open>strncpy\<close> share the index \<open>i\<close>.\<close>

function strncpy_pad :: "nat \<Rightarrow> nat \<Rightarrow> nat \<Rightarrow> mem \<Rightarrow> mem" where
  "strncpy_pad dest n i m = (if i < n then strncpy_pad dest n (Suc i) (m(dest + i := 0)) else m)"
  by pat_completeness auto
termination by (relation "measure (\<lambda>(d, n, i, m). n - i)") auto

function strncpy_copy :: "nat \<Rightarrow> nat \<Rightarrow> nat \<Rightarrow> nat \<Rightarrow> mem \<Rightarrow> mem" where
  "strncpy_copy dest src n i m =
     (if i < n \<and> m (src + i) \<noteq> 0 then strncpy_copy dest src n (Suc i) (m(dest + i := m (src + i)))
      else strncpy_pad dest n i m)"
  by pat_completeness auto
termination by (relation "measure (\<lambda>(d, s, n, i, m). n - i)") auto

declare strncpy_pad.simps [simp del] strncpy_copy.simps [simp del]

definition strncpy :: "nat \<Rightarrow> nat \<Rightarrow> nat \<Rightarrow> mem \<Rightarrow> mem" where
  "strncpy dest src n m = strncpy_copy dest src n 0 m"

definition is_alpha :: "u8 \<Rightarrow> bool" where
  "is_alpha c \<longleftrightarrow> (0x61 \<le> c \<and> c \<le> 0x7A) \<or> (0x41 \<le> c \<and> c \<le> 0x5A)"

partial_function (option) strlen_from :: "mem \<Rightarrow> nat \<Rightarrow> nat \<Rightarrow> nat option" where
  "strlen_from m str len = (if m (str + len) \<noteq> 0 then strlen_from m str (len + 1) else Some len)"

definition strlen :: "mem \<Rightarrow> nat \<Rightarrow> nat option" where
  "strlen m str = strlen_from m str 0"

text \<open>\<open>slen\<close> of \<open>lib/stdlib.c\<close> is the same loop.\<close>

definition slen :: "mem \<Rightarrow> nat \<Rightarrow> nat option" where
  "slen m str = strlen_from m str 0"

text \<open>A null result is \<open>Some 0\<close>.\<close>

partial_function (option) sptr :: "mem \<Rightarrow> nat \<Rightarrow> u8 \<Rightarrow> nat option" where
  "sptr m str c = (if m str \<noteq> 0 then (if m str = c then Some str else sptr m (str + 1) c) else Some 0)"

partial_function (option) scmp_loop :: "mem \<Rightarrow> nat \<Rightarrow> nat \<Rightarrow> nat \<Rightarrow> bool option" where
  "scmp_loop m s1 s2 i = (if m (s1 + i) \<noteq> 0 \<and> m (s2 + i) \<noteq> 0
     then (if m (s1 + i) = m (s2 + i) then scmp_loop m s1 s2 (i + 1) else Some False) else Some True)"

definition scmp :: "mem \<Rightarrow> nat \<Rightarrow> nat \<Rightarrow> bool option" where
  "scmp m s1 s2 = do {
     s1_len \<leftarrow> slen m s1;
     s2_len \<leftarrow> slen m s2;
     if s1_len \<noteq> s2_len then Some False else scmp_loop m s1 s2 0 }"

text \<open>\<open>end = length - 1\<close> is computed in \<open>size_t\<close>: for length 0 it is the largest value and the loop swaps bytes of
  memory outside the string.\<close>

function sreverse_loop :: "nat \<Rightarrow> nat \<Rightarrow> nat \<Rightarrow> mem \<Rightarrow> mem" where
  "sreverse_loop str start stop m =
     (if start < stop then sreverse_loop str (start + 1) (stop - 1) (m(str + start := m (str + stop), str + stop := m (str + start)))
      else m)"
  by pat_completeness auto
termination by (relation "measure (\<lambda>(s, a, b, m). b - a)") auto

declare sreverse_loop.simps [simp del]

definition sreverse :: "nat \<Rightarrow> nat \<Rightarrow> mem \<Rightarrow> mem" where
  "sreverse str len m = sreverse_loop str 0 ((len + 2 ^ 32 - 1) mod 2 ^ 32) m"

partial_function (option) scat_copy :: "nat \<Rightarrow> nat \<Rightarrow> mem \<Rightarrow> mem option" where
  "scat_copy dest src m = (if m src \<noteq> 0 then scat_copy (dest + 1) (src + 1) (m(dest := m src)) else Some (m(dest := 0)))"

definition scat :: "nat \<Rightarrow> nat \<Rightarrow> mem \<Rightarrow> mem option" where
  "scat dest src m = do { n \<leftarrow> strlen m dest; scat_copy (dest + n) src m }"

definition memset :: "nat \<Rightarrow> u8 \<Rightarrow> nat \<Rightarrow> mem \<Rightarrow> mem" where
  "memset ptr v num m = fold (\<lambda>i m. m(ptr + i := v)) [0..<num] m"

text \<open>A 16-bit store is two byte stores, low byte first.\<close>

definition memset16 :: "nat \<Rightarrow> u16 \<Rightarrow> nat \<Rightarrow> mem \<Rightarrow> mem" where
  "memset16 ptr v num m = fold (\<lambda>i m. m(ptr + 2 * i := ucast v, ptr + 2 * i + 1 := ucast (drop_bit 8 v))) [0..<num] m"

definition memmove :: "nat \<Rightarrow> nat \<Rightarrow> nat \<Rightarrow> mem \<Rightarrow> mem" where
  "memmove dest src count m =
     (if dest = src \<or> count = 0 then m
      else if dest < src then fold (\<lambda>i m. m(dest + i := m (src + i))) [0..<count] m
      else fold (\<lambda>i m. m(dest + (i - 1) := m (src + (i - 1)))) (rev [1..<Suc count]) m)"

primrec memcpy :: "nat \<Rightarrow> nat \<Rightarrow> nat \<Rightarrow> mem \<Rightarrow> mem" where
  "memcpy dest src 0 m = m"
| "memcpy dest src (Suc n) m = memcpy (dest + 1) (src + 1) n (m(dest := m src))"

primrec memcmp :: "mem \<Rightarrow> nat \<Rightarrow> nat \<Rightarrow> nat \<Rightarrow> int" where
  "memcmp m p1 p2 0 = 0"
| "memcmp m p1 p2 (Suc num) = (if m p1 \<noteq> m p2 then uint (m p1) - uint (m p2) else memcmp m (p1 + 1) (p2 + 1) num)"

section \<open>Strings in memory\<close>

definition cstr :: "mem \<Rightarrow> nat \<Rightarrow> u8 list \<Rightarrow> bool" where
  "cstr m s cs \<longleftrightarrow> (\<forall>i < length cs. m (s + i) = cs ! i) \<and> 0 \<notin> set cs \<and> m (s + length cs) = 0"

definition region :: "mem \<Rightarrow> nat \<Rightarrow> nat \<Rightarrow> u8 list" where
  "region m s n = map (\<lambda>i. m (s + i)) [0..<n]"

lemma region_snoc: "region m s (Suc n) = region m s n @ [m (s + n)]"
  by (simp add: region_def)

lemma region_upd: "x < s \<or> s + n \<le> x \<Longrightarrow> region (m(x := v)) s n = region m s n"
  by (auto simp: region_def)

lemma cstr_Nil [simp]: "cstr m s [] \<longleftrightarrow> m s = 0"
  by (simp add: cstr_def)

lemma cstr_Cons [simp]: "cstr m s (c # cs) \<longleftrightarrow> m s = c \<and> c \<noteq> 0 \<and> cstr m (s + 1) cs"
  unfolding cstr_def by (auto simp: nth_Cons' less_Suc_eq_0_disj)

lemma cstr_unique: "cstr m s cs \<Longrightarrow> cstr m s ds \<Longrightarrow> cs = ds"
proof (induction cs arbitrary: s ds)
  case Nil
  then show ?case by (cases ds) auto
next
  case (Cons c cs)
  then show ?case by (cases ds) auto
qed

lemma strlen_from_cstr: "cstr m (s + k) cs \<Longrightarrow> strlen_from m s k = Some (k + length cs)"
proof (induction cs arbitrary: k)
  case Nil
  then show ?case by (subst strlen_from.simps) simp
next
  case (Cons c cs)
  then have "strlen_from m s (k + 1) = Some (k + 1 + length cs)" by (intro Cons.IH) (simp add: add.assoc)
  with Cons.prems show ?case by (subst strlen_from.simps) simp
qed

lemma strlen_cstr: "cstr m s cs \<Longrightarrow> strlen m s = Some (length cs)" "cstr m s cs \<Longrightarrow> slen m s = Some (length cs)"
  using strlen_from_cstr [of m s 0 cs] by (simp_all add: strlen_def slen_def)

lemma strcmp_cstr:
  "cstr m s cs \<Longrightarrow> cstr m t ds \<Longrightarrow> \<exists>r. strcmp m s t = Some r \<and> (r = 0 \<longleftrightarrow> cs = ds)
     \<and> (r < 0 \<longleftrightarrow> (cs, ds) \<in> lexord {(a, b). a < b})"
proof (induction cs arbitrary: s t ds)
  case Nil
  then show ?case
    by (subst strcmp.simps) (cases ds; auto simp: word_less_def uint_0_iff intro: order.not_eq_order_implies_strict)
next
  case (Cons c cs)
  show ?case
  proof (cases ds)
    case Nil
    then show ?thesis using Cons.prems by (subst strcmp.simps) (auto simp: uint_0_iff)
  next
    case (Cons d ds')
    show ?thesis
    proof (cases "c = d")
      case True
      then show ?thesis
        using Cons.IH [of "s + 1" "t + 1" ds'] Cons.prems \<open>ds = d # ds'\<close> by (subst strcmp.simps) auto
    next
      case False
      then show ?thesis
        using Cons.prems \<open>ds = d # ds'\<close> by (subst strcmp.simps) (auto simp: word_less_def word_uint_eq_iff)
    qed
  qed
qed

lemma scmp_loop_cstr: "cstr m (s + k) cs \<Longrightarrow> cstr m (t + k) ds \<Longrightarrow> length cs = length ds \<Longrightarrow>
    scmp_loop m s t k = Some (cs = ds)"
proof (induction cs arbitrary: k ds)
  case Nil
  then show ?case by (subst scmp_loop.simps) simp
next
  case (Cons c cs)
  then obtain d ds' where d: "ds = d # ds'" by (cases ds) auto
  have "scmp_loop m s t (k + 1) = Some (cs = ds')" using Cons.prems d by (intro Cons.IH) (simp_all add: add.assoc)
  with Cons.prems d show ?case by (subst scmp_loop.simps) auto
qed

lemma scmp_cstr: "cstr m s cs \<Longrightarrow> cstr m t ds \<Longrightarrow> scmp m s t = Some (cs = ds)"
  using scmp_loop_cstr [of m s 0 cs t ds] by (auto simp: scmp_def strlen_cstr)

lemma sptr_cstr: "cstr m s cs \<Longrightarrow> sptr m s c
    = Some (if c \<in> set cs then s + length (takeWhile (\<lambda>x. x \<noteq> c) cs) else 0)"
proof (induction cs arbitrary: s)
  case Nil
  then show ?case by (subst sptr.simps) simp
next
  case (Cons d cs)
  then have "sptr m (s + 1) c = Some (if c \<in> set cs then s + 1 + length (takeWhile (\<lambda>x. x \<noteq> c) cs) else 0)"
    by (intro Cons.IH) simp
  with Cons.prems show ?case by (subst sptr.simps) auto
qed

section \<open>Copying\<close>

lemma memset_at: "memset p v n m x = (if p \<le> x \<and> x < p + n then v else m x)"
  by (induction n) (auto simp: memset_def)

lemma memcpy_at:
  "d \<le> s \<or> s + n \<le> d \<Longrightarrow> memcpy d s n m x = (if d \<le> x \<and> x < d + n then m (s + (x - d)) else m x)"
proof (induction n arbitrary: d s m)
  case (Suc n)
  then have "memcpy (d + 1) (s + 1) n (m(d := m s)) x
      = (if d + 1 \<le> x \<and> x < d + 1 + n then (m(d := m s)) (s + 1 + (x - (d + 1))) else (m(d := m s)) x)"
    by (intro Suc.IH) auto
  then show ?case using Suc.prems by (auto simp: Suc_diff_Suc)
qed auto

lemma move_up: "d < s \<Longrightarrow> fold (\<lambda>i m. m(d + i := m (s + i))) [0..<n] m x
    = (if d \<le> x \<and> x < d + n then m (s + (x - d)) else m x)"
  by (induction n arbitrary: x) auto

lemma move_down: "s < d \<Longrightarrow> fold (\<lambda>i m. m(d + (i - 1) := m (s + (i - 1)))) (rev [1..<Suc n]) m x
    = (if d \<le> x \<and> x < d + n then m (s + (x - d)) else m x)"
  by (induction n arbitrary: m) auto

lemma memcmp_region: "memcmp m p q n = 0 \<longleftrightarrow> region m p n = region m q n"
proof (induction n arbitrary: p q)
  case (Suc n)
  have "region m a (Suc n) = m a # region m (a + 1) n" for a
    by (simp add: region_def upt_conv_Cons map_Suc_upt [symmetric] del: upt_Suc)
  with Suc show ?case by (auto simp: word_uint_eq_iff)
qed (simp add: region_def)

lemma sreverse_loop_at:
  "sreverse_loop s a b m x = (if s + a \<le> x \<and> x \<le> s + b \<and> a < b then m (s + (a + b - (x - s))) else m x)"
proof (induction s a b m arbitrary: x rule: sreverse_loop.induct)
  case (1 s a b m)
  show ?case
  proof (cases "a < b")
    case True
    let ?m = "m(s + a := m (s + b), s + b := m (s + a))"
    have ih: "sreverse_loop s (a + 1) (b - 1) ?m x = (if s + (a + 1) \<le> x \<and> x \<le> s + (b - 1) \<and> a + 1 < b - 1
        then ?m (s + (a + 1 + (b - 1) - (x - s))) else ?m x)" by (rule "1.IH" [OF True])
    have e: "a + 1 + (b - 1) = a + b" using True by simp
    have eq: "sreverse_loop s a b m x = (if s + (a + 1) \<le> x \<and> x \<le> s + (b - 1) \<and> a + 1 < b - 1
        then ?m (s + (a + b - (x - s))) else ?m x)"
      unfolding sreverse_loop.simps [of s a b m] if_P [OF True] ih e ..
    consider "x = s + a" | "x = s + b" | "s + a < x" "x < s + b" | "x < s + a \<or> s + b < x" by linarith
    then show ?thesis
    proof cases
      case 1
      then show ?thesis unfolding eq using True by simp
    next
      case 2
      then have "\<not> x \<le> s + (b - 1)" using True by simp
      with 2 show ?thesis unfolding eq using True by simp
    next
      case 3
      then have x: "s + (a + 1) \<le> x" "x \<le> s + (b - 1)" by auto
      show ?thesis
      proof (cases "a + 1 < b - 1")
        case True
        have "a + b - (x - s) \<noteq> a" "a + b - (x - s) \<noteq> b" using 3 by linarith+
        then have "?m (s + (a + b - (x - s))) = m (s + (a + b - (x - s)))" by simp
        then show ?thesis unfolding eq using x 3 True by simp
      next
        case False
        then have "a + b - (x - s) = x - s" using x by auto
        with False 3 True show ?thesis unfolding eq by simp
      qed
    next
      case 4
      then have n: "\<not> (s + (a + 1) \<le> x \<and> x \<le> s + (b - 1) \<and> a + 1 < b - 1)" and "x \<noteq> s + a" "x \<noteq> s + b"
        using True by auto
      then have "sreverse_loop s a b m x = m x" unfolding eq if_not_P [OF n] by simp
      with 4 show ?thesis by (simp only:) auto
    qed
  next
    case False
    then show ?thesis by (subst sreverse_loop.simps) auto
  qed
qed

lemma sreverse_region:
  assumes "0 < n" "n < 2 ^ 32"
  shows "region (sreverse s n m) s n = rev (region m s n)" "x < s \<or> s + n \<le> x \<Longrightarrow> sreverse s n m x = m x"
proof -
  have e: "(n + 2 ^ 32 - 1) mod 2 ^ 32 = n - 1" using assms by (simp add: mod_if)
  have at: "sreverse s n m y = (if s \<le> y \<and> y < s + n then m (s + (n - 1 - (y - s))) else m y)" for y
    unfolding sreverse_def e sreverse_loop_at using assms(1) by (cases "n = 1"; cases "y = s") auto
  show "x < s \<or> s + n \<le> x \<Longrightarrow> sreverse s n m x = m x" by (auto simp: at)
  show "region (sreverse s n m) s n = rev (region m s n)"
    by (rule nth_equalityI) (auto simp: region_def at rev_nth)
qed

text \<open>\<open>strncpy\<close> on buffers that do not overlap.\<close>

lemma strncpy_pad_at:
  "strncpy_pad d n i m x = (if d + i \<le> x \<and> x < d + n then 0 else m x)"
proof (induction d n i m arbitrary: x rule: strncpy_pad.induct)
  case (1 d n i m)
  show ?case
  proof (cases "i < n")
    case True
    have ih: "strncpy_pad d n (Suc i) (m(d + i := 0)) x
        = (if d + Suc i \<le> x \<and> x < d + n then 0 else (m(d + i := 0)) x)" by (rule "1.IH" [OF True])
    show ?thesis unfolding strncpy_pad.simps [of d n i m] if_P [OF True] ih using True by auto
  next
    case False
    then show ?thesis by (subst strncpy_pad.simps) auto
  qed
qed

lemma strncpy_copy_at:
  assumes "cstr m (s + i) cs" "d + n \<le> s \<or> s + i + length cs < d" "i \<le> n"
  shows "strncpy_copy d s n i m x = (if d + i \<le> x \<and> x < d + n
      then (if x - (d + i) < length cs then cs ! (x - (d + i)) else 0) else m x)"
  using assms
proof (induction cs arbitrary: i m)
  case Nil
  then show ?case by (subst strncpy_copy.simps) (auto simp: strncpy_pad_at)
next
  case (Cons c cs)
  show ?case
  proof (cases "i < n")
    case True
    let ?m = "m(d + i := m (s + i))"
    have dj: "d + n \<le> s \<or> s + Suc i + length cs < d" using Cons.prems(2) by auto
    have "cstr ?m (s + Suc i) cs"
      unfolding cstr_def
    proof (intro conjI allI impI)
      have old: "cstr m (s + Suc i) cs" using Cons.prems(1) by simp
      then show "0 \<notin> set cs" by (simp add: cstr_def)
      have "d + i \<noteq> s + Suc i + length cs" using dj True by auto
      then show "?m (s + Suc i + length cs) = 0" using old by (simp add: cstr_def)
      fix j assume j: "j < length cs"
      then have "d + i \<noteq> s + Suc i + j" using dj True by auto
      then show "?m (s + Suc i + j) = cs ! j" using old j by (simp add: cstr_def)
    qed
    then have ih: "strncpy_copy d s n (Suc i) ?m x = (if d + Suc i \<le> x \<and> x < d + n
        then (if x - (d + Suc i) < length cs then cs ! (x - (d + Suc i)) else 0) else ?m x)"
      by (rule Cons.IH [OF _ dj]) (use True in simp)
    have g: "i < n \<and> m (s + i) \<noteq> 0" using True Cons.prems(1) by simp
    have c: "m (s + i) = c" using Cons.prems(1) by simp
    show ?thesis unfolding strncpy_copy.simps [of d s n i m] if_P [OF g] ih using True
      by (cases "x = d + i") (auto simp: c nth_Cons' Suc_diff_Suc)
  next
    case False
    with Cons.prems show ?thesis by (subst strncpy_copy.simps) (auto simp: strncpy_pad_at)
  qed
qed

lemma strncpy_region:
  assumes "cstr m s cs" "d + n \<le> s \<or> s + length cs < d"
  shows "region (strncpy d s n m) d n = take n (cs @ replicate n 0)"
    "x < d \<or> d + n \<le> x \<Longrightarrow> strncpy d s n m x = m x"
proof -
  have at: "strncpy d s n m y = (if d \<le> y \<and> y < d + n then (if y - d < length cs then cs ! (y - d) else 0) else m y)" for y
    using strncpy_copy_at [of m s 0 cs d n y] assms by (simp add: strncpy_def)
  show "region (strncpy d s n m) d n = take n (cs @ replicate n 0)"
    by (rule nth_equalityI) (auto simp: region_def at nth_append)
  show "x < d \<or> d + n \<le> x \<Longrightarrow> strncpy d s n m x = m x" by (auto simp: at)
qed

lemma cstr_upd: "cstr m s cs \<Longrightarrow> x < s \<or> s + length cs < x \<Longrightarrow> cstr (m(x := v)) s cs"
  by (auto simp: cstr_def)

lemma scat_copy_cstr:
  assumes "cstr m s cs" "d + length cs < s \<or> s + length cs < d"
  shows "\<exists>m'. scat_copy d s m = Some m' \<and> cstr m' d cs \<and> (\<forall>x. x < d \<or> d + length cs < x \<longrightarrow> m' x = m x)"
  using assms
proof (induction cs arbitrary: d s m)
  case Nil
  then show ?case by (subst scat_copy.simps) auto
next
  case (Cons c cs)
  have "cstr (m(d := c)) (s + 1) cs" using Cons.prems by (intro cstr_upd) auto
  moreover have "d + 1 + length cs < s + 1 \<or> s + 1 + length cs < d + 1" using Cons.prems(2) by auto
  ultimately obtain m' where m': "scat_copy (d + 1) (s + 1) (m(d := c)) = Some m'" "cstr m' (d + 1) cs"
      "\<forall>x. x < d + 1 \<or> d + 1 + length cs < x \<longrightarrow> m' x = (m(d := c)) x"
    using Cons.IH by blast
  have step: "scat_copy d s m = Some m'"
    using Cons.prems(1) m'(1) by (subst scat_copy.simps) (simp del: fun_upd_apply)
  have "m' d = c" using m'(3) by simp
  moreover have "\<forall>x. x < d \<or> d + length (c # cs) < x \<longrightarrow> m' x = m x" using m'(3) by auto
  ultimately show ?case using m'(2) Cons.prems(1) step by auto
qed

lemma scat_cstr:
  assumes "cstr m d ds" "cstr m s cs" "d + length ds + length cs < s \<or> s + length cs < d"
  shows "\<exists>m'. scat d s m = Some m' \<and> cstr m' d (ds @ cs) \<and> (\<forall>x. x < d + length ds \<or> d + length ds + length cs < x \<longrightarrow> m' x = m x)"
proof -
  obtain m' where m': "scat_copy (d + length ds) s m = Some m'" "cstr m' (d + length ds) cs"
      "\<forall>x. x < d + length ds \<or> d + length ds + length cs < x \<longrightarrow> m' x = m x"
    using scat_copy_cstr [OF assms(2), of "d + length ds"] assms(3) by auto
  have "cstr m' d (ds @ cs)"
    unfolding cstr_def
  proof (intro conjI allI impI)
    show "0 \<notin> set (ds @ cs)" using assms(1) m'(2) by (auto simp: cstr_def)
    show "m' (d + length (ds @ cs)) = 0" using m'(2) by (simp add: cstr_def add.assoc)
    fix i assume "i < length (ds @ cs)"
    then show "m' (d + i) = (ds @ cs) ! i"
    proof (cases "i < length ds")
      case True
      then show ?thesis using m'(3) assms(1) by (simp add: cstr_def nth_append)
    next
      case False
      with \<open>i < length (ds @ cs)\<close> have "i - length ds < length cs" by auto
      then have "m' (d + length ds + (i - length ds)) = cs ! (i - length ds)"
        using m'(2) unfolding cstr_def by blast
      with False show ?thesis by (simp add: nth_append)
    qed
  qed
  with m' assms(1) show ?thesis by (auto simp: scat_def strlen_cstr)
qed

section \<open>Properties\<close>

text \<open>C11: \<open>memmove\<close> copies correctly for every position of the two areas, overlapping or not: afterwards the
  destination holds the bytes the source held before, and every other byte is unchanged.\<close>

theorem memmove_correct:
  "region (memmove d s n m) d n = region m s n
   \<and> (\<forall>x. x < d \<or> d + n \<le> x \<longrightarrow> memmove d s n m x = m x)"
proof -
  have at: "memmove d s n m x = (if d \<le> x \<and> x < d + n then m (s + (x - d)) else m x)" for x
    using move_up [of d s n m x] move_down [of s d n m x] by (auto simp: memmove_def)
  show ?thesis by (auto simp: region_def at)
qed

theorem memmove_correct_witness:
  "region (memmove 1 0 2 (\<lambda>a. of_nat a)) 1 2 = region (\<lambda>a. of_nat a) 0 2 \<and> memmove 1 0 2 (\<lambda>a. of_nat a) 5 = 5"
proof -
  have "memmove 1 0 2 (\<lambda>a. of_nat a) 5 = 5"
    using conjunct2 [OF memmove_correct [of 1 0 2 "\<lambda>a. of_nat a"], THEN spec, of 5] by simp
  then show ?thesis using memmove_correct [of 1 0 2 "\<lambda>a. of_nat a"] by simp
qed

text \<open>\<open>memcpy\<close> copies upwards one byte at a time, so it is correct when the destination starts at or before the
  source or behind its end. When it starts inside the source, one byte above, it fills the area with the first byte.\<close>

theorem memcpy_correct:
  "(d \<le> s \<or> s + n \<le> d \<longrightarrow> region (memcpy d s n m) d n = region m s n
      \<and> (\<forall>x. x < d \<or> d + n \<le> x \<longrightarrow> memcpy d s n m x = m x))
   \<and> region (memcpy (s + 1) s n m) s (Suc n) = replicate (Suc n) (m s)"
proof -
  have "d \<le> s \<or> s + n \<le> d \<longrightarrow> region (memcpy d s n m) d n = region m s n
      \<and> (\<forall>x. x < d \<or> d + n \<le> x \<longrightarrow> memcpy d s n m x = m x)"
    by (auto simp: region_def memcpy_at)
  moreover have low: "memcpy (s + 1) s n m x = m x" if "x \<le> s" for s n m x
    using that by (induction n arbitrary: s m) auto
  have "memcpy (s + 1) s n m (s + i) = m s" if "i \<le> n" for i
    using that
  proof (induction n arbitrary: s m i)
    case (Suc n)
    show ?case
    proof (cases i)
      case 0
      then show ?thesis using low [of s "s + 1" n "m(s + 1 := m s)"] by simp
    next
      case (Suc j)
      have "memcpy (Suc s + 1) (Suc s) n (m(Suc s := m s)) (Suc s + j) = (m(Suc s := m s)) (Suc s)"
        by (rule Suc.IH) (use Suc.prems Suc in simp)
      with Suc show ?thesis by (simp del: fun_upd_apply) simp
    qed
  qed simp
  then have "region (memcpy (s + 1) s n m) s (Suc n) = replicate (Suc n) (m s)"
    by (intro nth_equalityI) (auto simp: region_def simp del: upt_Suc replicate.simps)
  ultimately show ?thesis by blast
qed

theorem memcpy_correct_witness:
  "region (memcpy 100 0 2 (\<lambda>a. of_nat a)) 100 2 = region (\<lambda>a. of_nat a) 0 2"
  using memcpy_correct [of 100 0 2 "\<lambda>a. of_nat a"] by simp

text \<open>On terminated strings \<open>strlen\<close> returns the length, \<open>strcmp\<close> returns 0 exactly for equal strings and a negative
  number exactly when the first string is lexicographically smaller as a sequence of unsigned bytes, and \<open>scmp\<close>
  decides equality.\<close>

theorem string_comparison:
  assumes "cstr m s cs" "cstr m t ds"
  shows "strlen m s = Some (length cs) \<and> scmp m s t = Some (cs = ds)
    \<and> (\<exists>r. strcmp m s t = Some r \<and> (r = 0 \<longleftrightarrow> cs = ds) \<and> (r < 0 \<longleftrightarrow> (cs, ds) \<in> lexord {(a, b). a < b}))"
  using strlen_cstr [OF assms(1)] scmp_cstr [OF assms] strcmp_cstr [OF assms] by blast

theorem string_comparison_witness:
  "strlen ((\<lambda>_. 0)(1 := 0x41, 5 := 0x42)) 1 = Some 1 \<and> scmp ((\<lambda>_. 0)(1 := 0x41, 5 := 0x42)) 1 5 = Some False"
proof -
  have "cstr ((\<lambda>_. 0)(1 := 0x41, 5 := 0x42)) 1 [0x41]" "cstr ((\<lambda>_. 0)(1 := 0x41, 5 := 0x42)) 5 [0x42]" by simp_all
  from string_comparison [OF this] show ?thesis by simp
qed

text \<open>\<open>strncpy\<close> writes exactly \<open>n\<close> bytes: the string, cut at \<open>n\<close> bytes and padded with zeros. The result is
  terminated inside the \<open>n\<close> bytes exactly when the string is shorter than \<open>n\<close>.\<close>

theorem strncpy_cuts_and_pads:
  assumes "cstr m s cs" "d + n \<le> s \<or> s + length cs < d"
  shows "region (strncpy d s n m) d n = take n (cs @ replicate n 0)
    \<and> (\<forall>x. x < d \<or> d + n \<le> x \<longrightarrow> strncpy d s n m x = m x)
    \<and> (0 \<in> set (region (strncpy d s n m) d n) \<longleftrightarrow> length cs < n)"
proof -
  note r = strncpy_region [OF assms]
  have z: "0 \<notin> set cs" using assms(1) by (simp add: cstr_def)
  have "0 \<in> set (take n (cs @ replicate n 0)) \<longleftrightarrow> length cs < n"
    using z set_take_subset [of n cs] by auto
  then show ?thesis using r by auto
qed

theorem strncpy_cuts_and_pads_witness:
  "region (strncpy 10 1 3 ((\<lambda>_. 7)(1 := 0x41, 2 := 0))) 10 3 = [0x41, 0, 0]"
proof -
  have "cstr ((\<lambda>_. 7)(1 := 0x41, 2 := 0)) 1 [0x41]" by simp
  from strncpy_cuts_and_pads [OF this, of 10 3] show ?thesis by (simp add: eval_nat_numeral)
qed

end
