(* ===== verification/Vbe.thy ===== *)
theory Vbe
  imports Font Cstring
begin

text \<open>
  The framebuffer console, \<open>driver/vbe.c\<close>. Memory is the byte memory of the string routines; a pixel is the four bytes at its
  offset in the framebuffer. All coordinates, offsets and addresses are 32-bit words that wrap as in the code.
\<close>

unbundle bit_operations_syntax

definition BACKBUFFER_VIRT_BASE :: u32 where [konst]: "BACKBUFFER_VIRT_BASE = 0xE0400000"
definition VBE_COLOR_BLACK :: u32 where [konst]: "VBE_COLOR_BLACK = 0x000000"
definition VBE_COLOR_GREEN :: u32 where [konst]: "VBE_COLOR_GREEN = 0x00FF00"

record vbe =
  vaddr :: u32
  backbuffer :: u32
  width :: u32
  height :: u32
  pitch :: u32
  bpp :: u32
  cursor_x :: u32
  cursor_y :: u32

definition vbe_display0 :: vbe where
  "vbe_display0 = \<lparr>vaddr = 0, backbuffer = 0, width = 0, height = 0, pitch = 0, bpp = 0, cursor_x = 0, cursor_y = 0\<rparr>"

definition vbe_init :: "u32 \<Rightarrow> u32 \<Rightarrow> u32 \<Rightarrow> u32 \<Rightarrow> u32 \<Rightarrow> vbe \<Rightarrow> vbe" where
  "vbe_init addr w h p b v = v\<lparr>vaddr := addr, backbuffer := BACKBUFFER_VIRT_BASE, width := w, height := h, pitch := p, bpp := b\<rparr>"

definition calculate_pixel_offset :: "u32 \<Rightarrow> u32 \<Rightarrow> u32 \<Rightarrow> u32 \<Rightarrow> u32" where
  "calculate_pixel_offset x y p bytes_per_pixel = y * p + x * bytes_per_pixel"

text \<open>The bytes of a colour, and a 32-bit store.\<close>

definition color_bytes :: "u32 \<Rightarrow> u8 list" where
  "color_bytes c = [ucast c, ucast (drop_bit 8 c), ucast (drop_bit 16 c), ucast (drop_bit 24 c)]"

definition store32 :: "u32 \<Rightarrow> u32 \<Rightarrow> mem \<Rightarrow> mem" where
  "store32 a c m = m(unat a := ucast c, unat (a + 1) := ucast (drop_bit 8 c), unat (a + 2) := ucast (drop_bit 16 c),
     unat (a + 3) := ucast (drop_bit 24 c))"

definition vbe_put_pixel_at :: "vbe \<Rightarrow> u32 \<Rightarrow> u32 \<Rightarrow> u32 \<Rightarrow> mem \<Rightarrow> mem" where
  "vbe_put_pixel_at v x y color m = (if x \<ge> width v \<or> y \<ge> height v then m
     else let bytes_per_pixel = bpp v div 8; pixel_offset = calculate_pixel_offset x y (pitch v) bytes_per_pixel in
       store32 (vaddr v + pixel_offset) color m)"

definition vbe_clear :: "u32 \<Rightarrow> vbe \<times> mem \<Rightarrow> vbe \<times> mem" where
  "vbe_clear color = (\<lambda>(v, m). if vaddr v = 0 then (v, m)
     else (v\<lparr>cursor_x := 0, cursor_y := 0\<rparr>,
       fold (\<lambda>y. fold (\<lambda>x. vbe_put_pixel_at v (of_nat x) (of_nat y) color) [0..<unat (width v)]) [0..<unat (height v)] m))"

definition vbe_draw_hline :: "vbe \<Rightarrow> u32 \<Rightarrow> u32 \<Rightarrow> mem \<Rightarrow> mem" where
  "vbe_draw_hline v y color m = (if y \<ge> height v then m
     else fold (\<lambda>x. vbe_put_pixel_at v (of_nat x) y color) [0..<unat (width v)] m)"

definition vbe_clear_ch :: "vbe \<Rightarrow> u32 \<Rightarrow> u32 \<Rightarrow> u32 \<Rightarrow> mem \<Rightarrow> mem" where
  "vbe_clear_ch v x y color m =
     fold (\<lambda>row. fold (\<lambda>col. vbe_put_pixel_at v (x + of_nat col) (y + of_nat row) color) [0..<unat FONT_WIDTH]) [0..<unat FONT_HEIGHT] m"

definition vbe_scroll :: "u32 \<Rightarrow> vbe \<times> mem \<Rightarrow> vbe \<times> mem" where
  "vbe_scroll background = (\<lambda>(v, m).
     let scroll_height = FONT_HEIGHT; scroll_bytes = scroll_height * pitch v; total_bytes = (height v - scroll_height) * pitch v;
         m1 = memmove (unat (vaddr v)) (unat (vaddr v + scroll_bytes)) (unat total_bytes) m;
         m2 = fold (\<lambda>y. fold (\<lambda>x. vbe_put_pixel_at v (of_nat x) (of_nat y) background) [0..<unat (width v)])
           [unat (height v - scroll_height)..<unat (height v)] m1
     in (v\<lparr>cursor_y := cursor_y v - scroll_height\<rparr>, m2))"

text \<open>The pixels of a character that are on.\<close>

definition draw_glyph :: "vbe \<Rightarrow> u8 list \<Rightarrow> u32 \<Rightarrow> mem \<Rightarrow> mem" where
  "draw_glyph v bitmap color m = fold (\<lambda>row. fold (\<lambda>col m. if bit (bitmap ! row) col
       then vbe_put_pixel_at v (cursor_x v + of_nat col) (cursor_y v + of_nat row) color m else m) [0..<unat FONT_WIDTH])
     [0..<unat FONT_HEIGHT] m"

text \<open>What the branches of the switch do, before the test for scrolling; a character behind the font returns before it.\<close>

definition scroll_if_below :: "vbe \<times> mem \<Rightarrow> vbe \<times> mem" where
  "scroll_if_below = (\<lambda>(v, m). if cursor_y v + FONT_HEIGHT > height v then vbe_scroll VBE_COLOR_BLACK (v, m) else (v, m))"

definition vbe_draw_ch :: "u8 \<Rightarrow> u32 \<Rightarrow> vbe \<times> mem \<Rightarrow> vbe \<times> mem" where
  "vbe_draw_ch ch color = (\<lambda>(v, m).
     if ch = 0x0A then scroll_if_below (v\<lparr>cursor_x := 0, cursor_y := cursor_y v + FONT_HEIGHT\<rparr>, m)
     else if ch = 0x0D then scroll_if_below (v\<lparr>cursor_x := 0\<rparr>, m)
     else if ch = 0x08 then
       let v1 = (if cursor_x v \<ge> FONT_WIDTH then v\<lparr>cursor_x := cursor_x v - FONT_WIDTH\<rparr>
         else if cursor_y v \<ge> FONT_HEIGHT then v\<lparr>cursor_y := cursor_y v - FONT_HEIGHT, cursor_x := width v - FONT_WIDTH\<rparr>
         else v)
       in scroll_if_below (v1, vbe_clear_ch v1 (cursor_x v1) (cursor_y v1) VBE_COLOR_BLACK m)
     else let m1 = vbe_clear_ch v (cursor_x v) (cursor_y v) VBE_COLOR_BLACK m in
       if ch \<ge> 128 then (v, m1)
       else let m2 = draw_glyph v (ascii_bitmap ! unat ch) color m1; v1 = v\<lparr>cursor_x := cursor_x v + FONT_WIDTH\<rparr>;
                v2 = (if cursor_x v1 + FONT_WIDTH > width v1 then v1\<lparr>cursor_x := 0, cursor_y := cursor_y v1 + FONT_HEIGHT\<rparr> else v1)
            in scroll_if_below (v2, m2))"

primrec vbe_draw_string :: "u8 list \<Rightarrow> u32 \<Rightarrow> vbe \<times> mem \<Rightarrow> vbe \<times> mem" where
  "vbe_draw_string [] color s = s"
| "vbe_draw_string (ch # str) color s = vbe_draw_string str color (vbe_draw_ch ch color s)"

section \<open>Pixels\<close>

text \<open>A mode of 32 bits per pixel whose framebuffer does not wrap around the address space.\<close>

definition mode_ok :: "vbe \<Rightarrow> bool" where [invs]:
  "mode_ok v \<longleftrightarrow> bpp v = 32 \<and> 8 \<le> width v \<and> 8 \<le> height v \<and> unat (width v) * 4 \<le> unat (pitch v)
     \<and> unat (vaddr v) + unat (height v) * unat (pitch v) < 2 ^ 32 \<and> 0 < vaddr v"

definition pixel_at :: "vbe \<Rightarrow> nat \<Rightarrow> nat \<Rightarrow> nat" where
  "pixel_at v x y = unat (vaddr v) + y * unat (pitch v) + x * 4"

definition pixel :: "vbe \<Rightarrow> mem \<Rightarrow> nat \<Rightarrow> nat \<Rightarrow> u8 list" where
  "pixel v m x y = region m (pixel_at v x y) 4"

definition framebuffer :: "vbe \<Rightarrow> nat set" where
  "framebuffer v = {unat (vaddr v) ..< unat (vaddr v) + unat (height v) * unat (pitch v)}"

lemma region4: "region m a 4 = [m a, m (a + 1), m (a + 2), m (a + 3)]"
  by (simp add: region_def upt_rec numeral_3_eq_3)

text \<open>Pixels of four bytes on lines of \<open>stride\<close> bytes do not overlap.\<close>

lemma raster_disjoint:
  assumes "w * 4 \<le> stride" "x < w" "x' < w" "(x, y) \<noteq> (x', y')"
  shows "base + y * stride + x * 4 + 4 \<le> base + y' * stride + x' * (4 :: nat) \<or> base + y' * stride + x' * 4 + 4 \<le> base + y * stride + x * 4"
proof -
  have row: "b * stride + a * 4 + 4 \<le> b' * stride" if "b < b'" "a < w" for a b b'
  proof -
    have "(b + 1) * stride \<le> b' * stride" using that(1) by (intro mult_le_mono1) simp
    then show ?thesis using that(2) assms(1) by simp
  qed
  consider "y < y'" | "y' < y" | "y = y'" "x < x'" | "y = y'" "x' < x" using assms(4) by force
  then show ?thesis
  proof cases
    case 1 then show ?thesis using row [of y y' x] assms(2) by linarith
  next
    case 2 then show ?thesis using row [of y' y x'] assms(3) by linarith
  qed simp_all
qed

lemma raster_inside:
  assumes "w * 4 \<le> stride" "x < w" "y < (h :: nat)"
  shows "y * stride + x * 4 + 4 \<le> h * stride"
proof -
  have "(y + 1) * stride \<le> h * stride" using assms(3) by (intro mult_le_mono1) simp
  then show ?thesis using assms(1,2) by simp
qed

lemma pixel_in_buffer:
  assumes "mode_ok v" "x < unat (width v)" "y < unat (height v)"
  shows "unat (vaddr v) \<le> pixel_at v x y" "pixel_at v x y + 4 \<le> unat (vaddr v) + unat (height v) * unat (pitch v)"
  using raster_inside [OF _ assms(2,3), of "unat (pitch v)"] assms(1) by (auto simp: pixel_at_def mode_ok_def)

lemma pixels_disjoint:
  assumes "mode_ok v" "x < unat (width v)" "x' < unat (width v)" "(x, y) \<noteq> (x', y')"
  shows "pixel_at v x y + 4 \<le> pixel_at v x' y' \<or> pixel_at v x' y' + 4 \<le> pixel_at v x y"
  using raster_disjoint [OF _ assms(2-4)] assms(1) unfolding pixel_at_def mode_ok_def by blast

lemma unat_pixel_address:
  assumes "mode_ok v" "x < width v" "y < height v"
  shows "unat (vaddr v + calculate_pixel_offset x y (pitch v) (bpp v div 8)) = pixel_at v (unat x) (unat y)"
proof -
  have xy: "unat x < unat (width v)" "unat y < unat (height v)" using assms(2,3) by (simp_all add: word_less_nat_alt)
  have b: "pixel_at v (unat x) (unat y) < 2 ^ 32"
    using pixel_in_buffer [OF assms(1) xy] assms(1) unfolding mode_ok_def by linarith
  have "bpp v div 8 = 4" using assms(1) by (simp add: mode_ok_def)
  then have "vaddr v + calculate_pixel_offset x y (pitch v) (bpp v div 8) = of_nat (pixel_at v (unat x) (unat y))"
    by (simp add: calculate_pixel_offset_def pixel_at_def)
  then show ?thesis using b by (simp only: unat_of_nat_small)
qed

lemma unat_plus_small:
  fixes w :: u32
  assumes "unat w + 4 \<le> 2 ^ 32"
  shows "unat (w + 1) = unat w + 1" "unat (w + 2) = unat w + 2" "unat (w + 3) = unat w + 3"
  using assms by (simp_all add: unat_word_ariths)

lemma put_pixel_byte:
  assumes "mode_ok v" "x < width v" "y < height v"
  shows "vbe_put_pixel_at v x y c m a = (if pixel_at v (unat x) (unat y) \<le> a \<and> a < pixel_at v (unat x) (unat y) + 4
    then color_bytes c ! (a - pixel_at v (unat x) (unat y)) else m a)"
proof -
  let ?w = "vaddr v + calculate_pixel_offset x y (pitch v) (bpp v div 8)"
  have w: "unat ?w = pixel_at v (unat x) (unat y)" by (rule unat_pixel_address [OF assms])
  have "unat x < unat (width v)" "unat y < unat (height v)" using assms(2,3) by (simp_all add: word_less_nat_alt)
  then have "unat ?w + 4 \<le> 2 ^ 32" using pixel_in_buffer [OF assms(1)] assms(1) unfolding w mode_ok_def by fastforce
  note n = unat_plus_small [OF this]
  have "a - unat ?w \<in> {0, 1, 2, 3}" if "unat ?w \<le> a" "a < unat ?w + 4" using that by auto
  then show ?thesis using assms(2,3) unfolding vbe_put_pixel_at_def Let_def store32_def n w [symmetric]
    by (auto simp: color_bytes_def numeral_3_eq_3)
qed

lemma put_pixel:
  assumes "mode_ok v" "x < width v" "y < height v" "i < unat (width v)"
  shows "pixel v (vbe_put_pixel_at v x y c m) i j = (if i = unat x \<and> j = unat y then color_bytes c else pixel v m i j)"
proof (cases "i = unat x \<and> j = unat y")
  case True
  then show ?thesis by (simp add: pixel_def region4 put_pixel_byte [OF assms(1,2,3)] color_bytes_def numeral_3_eq_3)
next
  case False
  have "unat x < unat (width v)" using assms(2) by (simp add: word_less_nat_alt)
  then have "pixel_at v i j + 4 \<le> pixel_at v (unat x) (unat y) \<or> pixel_at v (unat x) (unat y) + 4 \<le> pixel_at v i j"
    using pixels_disjoint [OF assms(1,4)] False by blast
  then show ?thesis using False by (auto simp: pixel_def region4 put_pixel_byte [OF assms(1,2,3)])
qed

text \<open>Painting a list of points in one colour; all the loops of the driver are such paintings.\<close>

definition paint :: "vbe \<Rightarrow> u32 \<Rightarrow> (u32 \<times> u32) list \<Rightarrow> mem \<Rightarrow> mem" where
  "paint v c ps m = fold (\<lambda>(x, y). vbe_put_pixel_at v x y c) ps m"

lemma paint_simps [simp]: "paint v c [] m = m" "paint v c ((x, y) # ps) m = paint v c ps (vbe_put_pixel_at v x y c m)"
  by (simp_all add: paint_def)

lemma paint_append: "paint v c (ps @ qs) m = paint v c qs (paint v c ps m)"
  by (simp add: paint_def)

lemma off_screen: "\<not> (x < width v \<and> y < height v) \<Longrightarrow> vbe_put_pixel_at v x y c m = m"
  by (auto simp: vbe_put_pixel_at_def not_less)

lemma paint_pixel:
  assumes "mode_ok v" "i < unat (width v)" "j < unat (height v)"
  shows "pixel v (paint v c ps m) i j = (if (of_nat i, of_nat j) \<in> set ps then color_bytes c else pixel v m i j)"
proof (induction ps arbitrary: m)
  case (Cons p ps)
  obtain x y where p: "p = (x, y)" by (cases p)
  have "i < 2 ^ 32" "j < 2 ^ 32" using assms(2,3) unat_bound [of "width v"] unat_bound [of "height v"] by simp_all
  then have eq: "(of_nat i, of_nat j) = p \<longleftrightarrow> i = unat x \<and> j = unat y" by (auto simp: p unat_of_nat_small)
  show ?case
  proof (cases "x < width v \<and> y < height v")
    case True
    then show ?thesis using eq by (auto simp: p Cons.IH put_pixel [OF assms(1) _ _ assms(2)])
  next
    case False
    then have "(of_nat i, of_nat j) \<noteq> p" using assms(2,3) eq by (auto simp: word_less_nat_alt)
    then show ?thesis using False by (auto simp: p Cons.IH off_screen)
  qed
qed simp

lemma paint_outside:
  assumes "mode_ok v" "a \<notin> framebuffer v"
  shows "paint v c ps m a = m a"
proof (induction ps arbitrary: m)
  case (Cons p ps)
  obtain x y where p: "p = (x, y)" by (cases p)
  have "vbe_put_pixel_at v x y c m a = m a"
  proof (cases "x < width v \<and> y < height v")
    case True
    then have "unat x < unat (width v)" "unat y < unat (height v)" by (simp_all add: word_less_nat_alt)
    from pixel_in_buffer [OF assms(1) this] show ?thesis
      using True assms(2) by (auto simp: put_pixel_byte [OF assms(1)] framebuffer_def)
  qed (simp add: off_screen)
  then show ?case by (simp add: p Cons.IH)
qed simp

text \<open>The loops.\<close>

definition points :: "(nat \<Rightarrow> u32) \<Rightarrow> (nat \<Rightarrow> u32) \<Rightarrow> (nat \<Rightarrow> nat \<Rightarrow> bool) \<Rightarrow> nat list \<Rightarrow> nat list \<Rightarrow> (u32 \<times> u32) list" where
  "points f g P xs ys = concat (map (\<lambda>y. map (\<lambda>x. (f x, g y)) (filter (\<lambda>x. P y x) xs)) ys)"

lemma set_points: "(a, b) \<in> set (points f g P xs ys) \<longleftrightarrow> (\<exists>y \<in> set ys. \<exists>x \<in> set xs. P y x \<and> a = f x \<and> b = g y)"
  by (auto simp: points_def)

lemma fold_row: "fold (\<lambda>x m. if P x then vbe_put_pixel_at v (f x) b c m else m) xs m = paint v c (map (\<lambda>x. (f x, b)) (filter P xs)) m"
  by (induction xs arbitrary: m) simp_all

lemma fold_rows: "fold (\<lambda>y. fold (\<lambda>x m. if P y x then vbe_put_pixel_at v (f x) (g y) c m else m) xs) ys m
    = paint v c (points f g P xs ys) m"
  by (induction ys arbitrary: m) (simp_all add: points_def fold_row paint_append)

lemmas fold_all_rows = fold_rows [where P = "\<lambda>_ _. True", unfolded if_True]

lemma clear_ch_paint: "vbe_clear_ch v x y c m = paint v c (points (\<lambda>i. x + of_nat i) (\<lambda>j. y + of_nat j) (\<lambda>_ _. True) [0..<8] [0..<8]) m"
  by (simp add: vbe_clear_ch_def konst fold_all_rows)

lemma draw_glyph_paint: "draw_glyph v g c m = paint v c (points (\<lambda>i. cursor_x v + of_nat i) (\<lambda>j. cursor_y v + of_nat j)
    (\<lambda>j i. bit (g ! j) i) [0..<8] [0..<8]) m"
  unfolding draw_glyph_def konst fold_rows by simp

lemma bottom_paint: "fold (\<lambda>y. fold (\<lambda>x. vbe_put_pixel_at v (of_nat x) (of_nat y) c) xs) ys m = paint v c (points of_nat of_nat (\<lambda>_ _. True) xs ys) m"
  by (rule fold_all_rows)

text \<open>A cell of 8 by 8 pixels at the text cursor. Its corner lies on the screen.\<close>

definition in_cell :: "u32 \<Rightarrow> u32 \<Rightarrow> nat \<Rightarrow> nat \<Rightarrow> bool" where
  "in_cell x y i j \<longleftrightarrow> unat x \<le> i \<and> i < unat x + 8 \<and> unat y \<le> j \<and> j < unat y + 8"

definition cell_on_screen :: "vbe \<Rightarrow> u32 \<Rightarrow> u32 \<Rightarrow> bool" where
  "cell_on_screen v x y \<longleftrightarrow> unat x + 8 \<le> unat (width v) \<and> unat y + 8 \<le> unat (height v)"

lemma of_nat_offset:
  assumes "i < 2 ^ 32" "k < 8" "unat x + 8 < 2 ^ 32"
  shows "(of_nat i :: u32) = x + of_nat k \<longleftrightarrow> i = unat x + k"
proof -
  have "x + of_nat k = (of_nat (unat x + k) :: u32)" by simp
  moreover have "unat x + k < 2 ^ 32" using assms(2,3) by linarith
  ultimately show ?thesis using assms(1) unat_of_nat_small [of i] unat_of_nat_small [of "unat x + k"] by metis
qed

lemma cell_points:
  assumes "unat x + 8 < 2 ^ 32" "unat y + 8 < 2 ^ 32" "i < 2 ^ 32" "j < 2 ^ 32"
  shows "(of_nat i, of_nat j) \<in> set (points (\<lambda>i. x + of_nat i) (\<lambda>j. y + of_nat j) P [0..<8] [0..<8])
    \<longleftrightarrow> in_cell x y i j \<and> P (j - unat y) (i - unat x)"
proof -
  have "(of_nat i, of_nat j) \<in> set (points (\<lambda>i. x + of_nat i) (\<lambda>j. y + of_nat j) P [0..<8] [0..<8])
      \<longleftrightarrow> (\<exists>b < 8. \<exists>a < 8. P b a \<and> i = unat x + a \<and> j = unat y + b)"
    using of_nat_offset [OF assms(3) _ assms(1)] of_nat_offset [OF assms(4) _ assms(2)] by (auto simp: set_points)
  also have "\<dots> \<longleftrightarrow> in_cell x y i j \<and> P (j - unat y) (i - unat x)" (is "?l \<longleftrightarrow> ?r")
  proof
    assume ?r
    then have "j - unat y < 8" "i - unat x < 8" "i = unat x + (i - unat x)" "j = unat y + (j - unat y)" by (auto simp: in_cell_def)
    with \<open>?r\<close> show ?l by blast
  qed (auto simp: in_cell_def)
  finally show ?thesis .
qed

text \<open>Scrolling moves the picture up by the height of a character.\<close>

lemma mode_bounds:
  assumes "mode_ok v"
  shows "unat (width v) < 2 ^ 30" "unat (height v) < 2 ^ 27" "32 \<le> unat (pitch v)" "unat (vaddr v) + unat (height v) * unat (pitch v) < 2 ^ 32"
proof -
  have w: "8 \<le> unat (width v)" "unat (width v) * 4 \<le> unat (pitch v)" using assms by (simp_all add: mode_ok_def word_le_nat_alt)
  then show p: "32 \<le> unat (pitch v)" by simp
  show "unat (vaddr v) + unat (height v) * unat (pitch v) < 2 ^ 32" using assms by (simp add: mode_ok_def)
  moreover have "unat (height v) * 32 \<le> unat (height v) * unat (pitch v)" using p by (rule mult_le_mono2)
  ultimately have "unat (height v) * 32 < 2 ^ 32" by linarith
  then show "unat (height v) < 2 ^ 27" by simp
  show "unat (width v) < 2 ^ 30" using w unat_bound [of "pitch v"] by simp
qed

lemma memmove_up: "d < s \<Longrightarrow> memmove d s n m x = (if d \<le> x \<and> x < d + n then m (s + (x - d)) else m x)"
  using move_up [of d s n m x] by (simp add: memmove_def)

lemma scroll_copy:
  fixes m :: mem
  assumes "mode_ok v" "8 \<le> unat (height v)"
  defines "m' \<equiv> memmove (unat (vaddr v)) (unat (vaddr v + FONT_HEIGHT * pitch v)) (unat ((height v - FONT_HEIGHT) * pitch v)) m"
  shows "i < unat (width v) \<Longrightarrow> j + 8 < unat (height v) \<Longrightarrow> pixel v m' i j = pixel v m i (j + 8)"
    and "a \<notin> framebuffer v \<Longrightarrow> m' a = m a"
proof -
  have "8 * unat (pitch v) \<le> unat (height v) * unat (pitch v)" using assms(2) by (rule mult_le_mono1)
  then have "unat (vaddr v) + 8 * unat (pitch v) < 2 ^ 32" using mode_bounds(4) [OF assms(1)] by linarith
  then have s: "unat (vaddr v + FONT_HEIGHT * pitch v) = unat (vaddr v) + 8 * unat (pitch v)"
    by (simp add: konst unat_word_ariths)
  have h: "unat (height v - FONT_HEIGHT) = unat (height v) - 8"
    using assms(2) by (simp add: konst unat_sub_if_size word_le_nat_alt)
  have "(unat (height v) - 8) * unat (pitch v) \<le> unat (height v) * unat (pitch v)" by simp
  then have "(unat (height v) - 8) * unat (pitch v) < 2 ^ 32" using mode_bounds(4) [OF assms(1)] by linarith
  then have n: "unat ((height v - FONT_HEIGHT) * pitch v) = (unat (height v) - 8) * unat (pitch v)"
    by (subst unat_word_ariths) (simp add: h)
  have m': "m' x = (if unat (vaddr v) \<le> x \<and> x < unat (vaddr v) + (unat (height v) - 8) * unat (pitch v)
      then m (unat (vaddr v) + 8 * unat (pitch v) + (x - unat (vaddr v))) else m x)" for x
    unfolding m'_def s n using mode_bounds(3) [OF assms(1)] by (intro memmove_up) simp
  show "m' a = m a" if "a \<notin> framebuffer v"
    using that diff_mult_distrib [of "unat (height v)" 8 "unat (pitch v)"] by (auto simp: m' framebuffer_def)
  show "pixel v m' i j = pixel v m i (j + 8)" if ij: "i < unat (width v)" "j + 8 < unat (height v)"
  proof -
    have "(j + 1) * unat (pitch v) \<le> (unat (height v) - 8) * unat (pitch v)" using ij(2) by (intro mult_le_mono1) simp
    moreover have "i * 4 + 4 \<le> unat (pitch v)" using ij(1) assms(1) by (simp add: mode_ok_def)
    ultimately have "pixel_at v i j + 4 \<le> unat (vaddr v) + (unat (height v) - 8) * unat (pitch v)" by (simp add: pixel_at_def)
    moreover have "unat (vaddr v) \<le> pixel_at v i j" by (simp add: pixel_at_def)
    moreover have "pixel_at v i (j + 8) = unat (vaddr v) + 8 * unat (pitch v) + (pixel_at v i j - unat (vaddr v))"
      by (simp add: pixel_at_def algebra_simps)
    ultimately show ?thesis by (simp add: pixel_def region4 m' ac_simps)
  qed
qed

lemma scroll_result:
  assumes "mode_ok v"
  obtains m' where "vbe_scroll c (v, m) = (v\<lparr>cursor_y := cursor_y v - 8\<rparr>, m')"
    "\<And>a. a \<notin> framebuffer v \<Longrightarrow> m' a = m a"
    "\<And>i j. i < unat (width v) \<Longrightarrow> j < unat (height v) \<Longrightarrow>
       pixel v m' i j = (if j + 8 < unat (height v) then pixel v m i (j + 8) else color_bytes c)"
proof -
  let ?m = "memmove (unat (vaddr v)) (unat (vaddr v + FONT_HEIGHT * pitch v)) (unat ((height v - FONT_HEIGHT) * pitch v)) m"
  let ?ps = "points of_nat of_nat (\<lambda>_ _. True) [0..<unat (width v)] [unat (height v - FONT_HEIGHT)..<unat (height v)]"
  have h8: "8 \<le> unat (height v)" using assms by (simp add: mode_ok_def word_le_nat_alt)
  then have h: "unat (height v - FONT_HEIGHT) = unat (height v) - 8"
    by (simp add: konst unat_sub_if_size word_le_nat_alt)
  have "(of_nat i, of_nat j) \<in> set ?ps \<longleftrightarrow> \<not> j + 8 < unat (height v)" if "i < unat (width v)" "j < unat (height v)" for i j
  proof -
    have "j = y" if "of_nat j = (of_nat y :: u32)" "y < unat (height v)" for y
      by (rule of_nat_small_inj [OF that(1)]) (use that(2) \<open>j < unat (height v)\<close> mode_bounds(2) [OF assms] in simp_all)
    then have "(\<exists>y \<in> {unat (height v) - 8..<unat (height v)}. of_nat j = (of_nat y :: u32)) \<longleftrightarrow> \<not> j + 8 < unat (height v)"
      using \<open>j < unat (height v)\<close> by (metis atLeastLessThan_iff le_diff_conv not_less)
    moreover have "i \<in> {0..<unat (width v)}" using \<open>i < unat (width v)\<close> by simp
    ultimately show ?thesis unfolding set_points h set_upt by blast
  qed
  note p = this
  show ?thesis
  proof (rule that [of "paint v c ?ps ?m"])
    show "vbe_scroll c (v, m) = (v\<lparr>cursor_y := cursor_y v - 8\<rparr>, paint v c ?ps ?m)"
      by (simp add: vbe_scroll_def Let_def bottom_paint FONT_HEIGHT_def)
    show "paint v c ?ps ?m a = m a" if "a \<notin> framebuffer v" for a
      using that by (simp only: paint_outside [OF assms] scroll_copy [OF assms h8] simp_thms)
    show "pixel v (paint v c ?ps ?m) i j = (if j + 8 < unat (height v) then pixel v m i (j + 8) else color_bytes c)"
      if "i < unat (width v)" "j < unat (height v)" for i j
      using that by (simp add: paint_pixel [OF assms] p scroll_copy [OF assms h8])
  qed
qed

text \<open>A character in a cell.\<close>

definition cell_pixel :: "u8 list \<Rightarrow> u32 \<Rightarrow> nat \<Rightarrow> nat \<Rightarrow> u8 list" where
  "cell_pixel g c i j = color_bytes (if bit (g ! j) i then c else VBE_COLOR_BLACK)"

definition blank :: "u8 list" where
  "blank = replicate 8 0"

lemma cell_points_on_screen:
  assumes "mode_ok v" "cell_on_screen v x y" "i < unat (width v)" "j < unat (height v)"
  shows "(of_nat i, of_nat j) \<in> set (points (\<lambda>i. x + of_nat i) (\<lambda>j. y + of_nat j) P [0..<8] [0..<8])
    \<longleftrightarrow> in_cell x y i j \<and> P (j - unat y) (i - unat x)"
  using assms(2-) mode_bounds(1,2) [OF assms(1)] by (intro cell_points) (auto simp: cell_on_screen_def)

lemma clear_cell:
  assumes "mode_ok v" "cell_on_screen v x y"
  shows "a \<notin> framebuffer v \<Longrightarrow> vbe_clear_ch v x y VBE_COLOR_BLACK m a = m a"
    and "i < unat (width v) \<Longrightarrow> j < unat (height v) \<Longrightarrow> pixel v (vbe_clear_ch v x y VBE_COLOR_BLACK m) i j
      = (if in_cell x y i j then cell_pixel blank c (i - unat x) (j - unat y) else pixel v m i j)"
proof -
  show "a \<notin> framebuffer v \<Longrightarrow> vbe_clear_ch v x y VBE_COLOR_BLACK m a = m a"
    by (simp add: clear_ch_paint paint_outside [OF assms(1)])
  have "blank ! (j - unat y) = 0" if "in_cell x y i j" using that by (simp add: blank_def in_cell_def less_diff_conv2)
  then show "i < unat (width v) \<Longrightarrow> j < unat (height v) \<Longrightarrow> pixel v (vbe_clear_ch v x y VBE_COLOR_BLACK m) i j
      = (if in_cell x y i j then cell_pixel blank c (i - unat x) (j - unat y) else pixel v m i j)"
    by (simp add: clear_ch_paint paint_pixel [OF assms(1)] cell_points_on_screen [OF assms] cell_pixel_def)
qed

lemma glyph_cell:
  fixes m :: mem and c :: u32 and g :: "u8 list"
  assumes "mode_ok v" "cell_on_screen v (cursor_x v) (cursor_y v)"
  defines "m' \<equiv> draw_glyph v g c (vbe_clear_ch v (cursor_x v) (cursor_y v) VBE_COLOR_BLACK m)"
  shows "a \<notin> framebuffer v \<Longrightarrow> m' a = m a"
    and "i < unat (width v) \<Longrightarrow> j < unat (height v) \<Longrightarrow> pixel v m' i j
      = (if in_cell (cursor_x v) (cursor_y v) i j then cell_pixel g c (i - unat (cursor_x v)) (j - unat (cursor_y v)) else pixel v m i j)"
proof -
  show "a \<notin> framebuffer v \<Longrightarrow> m' a = m a"
    by (simp add: m'_def draw_glyph_paint clear_ch_paint paint_outside [OF assms(1)])
  show "i < unat (width v) \<Longrightarrow> j < unat (height v) \<Longrightarrow> pixel v m' i j
      = (if in_cell (cursor_x v) (cursor_y v) i j then cell_pixel g c (i - unat (cursor_x v)) (j - unat (cursor_y v)) else pixel v m i j)"
    by (auto simp: m'_def draw_glyph_paint clear_ch_paint paint_pixel [OF assms(1)] cell_points_on_screen [OF assms(1,2)] cell_pixel_def)
qed

section \<open>The text cursor\<close>

lemma cursor_moves [simp]:
  "mode_ok (v\<lparr>cursor_x := a\<rparr>) = mode_ok v" "mode_ok (v\<lparr>cursor_y := b\<rparr>) = mode_ok v"
  "framebuffer (v\<lparr>cursor_x := a\<rparr>) = framebuffer v" "framebuffer (v\<lparr>cursor_y := b\<rparr>) = framebuffer v"
  "pixel (v\<lparr>cursor_x := a\<rparr>) = pixel v" "pixel (v\<lparr>cursor_y := b\<rparr>) = pixel v"
  "cell_on_screen (v\<lparr>cursor_x := a\<rparr>) = cell_on_screen v" "cell_on_screen (v\<lparr>cursor_y := b\<rparr>) = cell_on_screen v"
  by (simp_all add: fun_eq_iff mode_ok_def framebuffer_def pixel_def pixel_at_def cell_on_screen_def)

definition cursor_ok :: "vbe \<Rightarrow> bool" where [invs]:
  "cursor_ok v \<longleftrightarrow> cell_on_screen v (cursor_x v) (cursor_y v)"

text \<open>Two displays that differ in the position of the cursor only.\<close>

definition same_mode :: "vbe \<Rightarrow> vbe \<Rightarrow> bool" where
  "same_mode v v' \<longleftrightarrow> v'\<lparr>cursor_x := cursor_x v, cursor_y := cursor_y v\<rparr> = v"

lemma same_mode_simps [simp]: "same_mode v v" "same_mode v (v\<lparr>cursor_x := a\<rparr>)" "same_mode v (v\<lparr>cursor_y := b\<rparr>)"
  "same_mode v (v\<lparr>cursor_x := a, cursor_y := b\<rparr>)" "same_mode v (v\<lparr>cursor_y := b, cursor_x := a\<rparr>)"
  by (simp_all add: same_mode_def)

lemma same_modeD:
  assumes "same_mode v v'"
  shows "mode_ok v' = mode_ok v" "framebuffer v' = framebuffer v" "pixel v' = pixel v" "width v' = width v" "height v' = height v"
    "pitch v' = pitch v" "bpp v' = bpp v" "vaddr v' = vaddr v"
proof -
  have "v = v'\<lparr>cursor_x := cursor_x v, cursor_y := cursor_y v\<rparr>" using assms by (simp add: same_mode_def)
  from arg_cong [OF this, of mode_ok] arg_cong [OF this, of framebuffer] arg_cong [OF this, of pixel] arg_cong [OF this, of width]
    arg_cong [OF this, of height] arg_cong [OF this, of pitch] arg_cong [OF this, of bpp] arg_cong [OF this, of vaddr]
  show "mode_ok v' = mode_ok v" "framebuffer v' = framebuffer v" "pixel v' = pixel v" "width v' = width v" "height v' = height v"
    "pitch v' = pitch v" "bpp v' = bpp v" "vaddr v' = vaddr v" by simp_all
qed

lemma same_mode_trans: "same_mode u v \<Longrightarrow> same_mode v w \<Longrightarrow> same_mode u w"
  by (cases u; cases v; cases w) (simp add: same_mode_def)

text \<open>Where a character moves the cursor, and whether the picture scrolls.\<close>

lemma scroll_if_below_cases:
  assumes "mode_ok v" "unat (cursor_x v) + 8 \<le> unat (width v)" "unat (cursor_y v) \<le> unat (height v)"
  shows "unat (cursor_y v) + 8 \<le> unat (height v) \<Longrightarrow> scroll_if_below (v, m) = (v, m)"
    and "unat (height v) < unat (cursor_y v) + 8 \<Longrightarrow> scroll_if_below (v, m) = vbe_scroll VBE_COLOR_BLACK (v, m)"
proof -
  have "unat (cursor_y v + FONT_HEIGHT) = unat (cursor_y v) + 8"
    using assms(3) mode_bounds(2) [OF assms(1)] by (simp add: konst unat_word_ariths)
  then have "cursor_y v + FONT_HEIGHT > height v \<longleftrightarrow> unat (height v) < unat (cursor_y v) + 8" by (simp add: word_less_nat_alt)
  then show "unat (cursor_y v) + 8 \<le> unat (height v) \<Longrightarrow> scroll_if_below (v, m) = (v, m)"
      "unat (height v) < unat (cursor_y v) + 8 \<Longrightarrow> scroll_if_below (v, m) = vbe_scroll VBE_COLOR_BLACK (v, m)"
    by (simp_all add: scroll_if_below_def)
qed

definition inside :: "vbe \<times> mem \<Rightarrow> vbe \<times> mem \<Rightarrow> bool" where
  "inside s s' \<longleftrightarrow> same_mode (fst s) (fst s') \<and> cursor_ok (fst s') \<and> (\<forall>a. a \<notin> framebuffer (fst s) \<longrightarrow> snd s' a = snd s a)"

lemma scroll_if_below_inside:
  assumes "mode_ok v" "unat (cursor_x v) + 8 \<le> unat (width v)"
    "unat (cursor_y v) + 8 \<le> unat (height v) \<or> 8 \<le> unat (cursor_y v) \<and> unat (cursor_y v) \<le> unat (height v)"
  shows "inside (v, m) (scroll_if_below (v, m))"
proof (cases "unat (cursor_y v) + 8 \<le> unat (height v)")
  case True
  then show ?thesis using assms by (simp add: scroll_if_below_cases inside_def cursor_ok_def cell_on_screen_def)
next
  case False
  then have y: "8 \<le> unat (cursor_y v)" "unat (cursor_y v) \<le> unat (height v)" using assms(3) by auto
  then have "unat (cursor_y v - 8) = unat (cursor_y v) - 8" by (simp add: unat_sub_if_size word_le_nat_alt)
  moreover obtain m' where "vbe_scroll VBE_COLOR_BLACK (v, m) = (v\<lparr>cursor_y := cursor_y v - 8\<rparr>, m')"
      "\<And>a. a \<notin> framebuffer v \<Longrightarrow> m' a = m a" using scroll_result [OF assms(1)] by metis
  ultimately show ?thesis using False y assms(2)
    by (simp add: scroll_if_below_cases [OF assms(1,2) y(2)] inside_def cursor_ok_def cell_on_screen_def)
qed

lemma inside_trans:
  assumes "same_mode v v1" "\<And>a. a \<notin> framebuffer v \<Longrightarrow> m1 a = m a" "inside (v1, m1) s'"
  shows "inside (v, m) s'"
  using assms(2,3) same_mode_trans [OF assms(1), of "fst s'"] by (auto simp: inside_def same_modeD(2) [OF assms(1)])

lemma unat_plus8:
  assumes "mode_ok v"
  shows "unat x \<le> unat (width v) \<Longrightarrow> unat (x + FONT_WIDTH) = unat x + 8"
    and "unat y \<le> unat (height v) \<Longrightarrow> unat (y + FONT_HEIGHT) = unat y + 8"
  using mode_bounds(1,2) [OF assms] by (simp_all add: konst unat_word_ariths)

lemma unat_minus8: "8 \<le> unat (x :: u32) \<Longrightarrow> unat (x - 8) = unat x - 8"
  by (simp add: unat_sub_if_size word_le_nat_alt)

lemma cursor_bounds:
  assumes "mode_ok v" "cursor_ok v"
  shows "unat (cursor_x v) + 8 \<le> unat (width v)" "unat (cursor_y v) + 8 \<le> unat (height v)" "8 \<le> unat (width v)" "8 \<le> unat (height v)"
  using assms by (simp_all add: cursor_ok_def cell_on_screen_def)

text \<open>The states before the test for scrolling.\<close>

definition newline :: "vbe \<Rightarrow> vbe" where
  "newline v = v\<lparr>cursor_x := 0, cursor_y := cursor_y v + FONT_HEIGHT\<rparr>"

definition backspace :: "vbe \<Rightarrow> vbe" where
  "backspace v = (if cursor_x v \<ge> FONT_WIDTH then v\<lparr>cursor_x := cursor_x v - FONT_WIDTH\<rparr>
     else if cursor_y v \<ge> FONT_HEIGHT then v\<lparr>cursor_y := cursor_y v - FONT_HEIGHT, cursor_x := width v - FONT_WIDTH\<rparr> else v)"

definition advance :: "vbe \<Rightarrow> vbe" where
  "advance v = (if cursor_x v + FONT_WIDTH + FONT_WIDTH > width v then newline v else v\<lparr>cursor_x := cursor_x v + FONT_WIDTH\<rparr>)"

lemma draw_ch_cases:
  "vbe_draw_ch ch c (v, m) =
     (if ch = 0x0A then scroll_if_below (newline v, m)
      else if ch = 0x0D then scroll_if_below (v\<lparr>cursor_x := 0\<rparr>, m)
      else if ch = 0x08 then scroll_if_below (backspace v,
        vbe_clear_ch (backspace v) (cursor_x (backspace v)) (cursor_y (backspace v)) VBE_COLOR_BLACK m)
      else if ch \<ge> 128 then (v, vbe_clear_ch v (cursor_x v) (cursor_y v) VBE_COLOR_BLACK m)
      else scroll_if_below (advance v,
        draw_glyph v (ascii_bitmap ! unat ch) c (vbe_clear_ch v (cursor_x v) (cursor_y v) VBE_COLOR_BLACK m)))"
  by (simp add: vbe_draw_ch_def newline_def backspace_def advance_def Let_def)

lemma backspace_ok:
  assumes "mode_ok v" "cursor_ok v"
  shows "same_mode v (backspace v)" "cursor_ok (backspace v)"
  using cursor_bounds [OF assms]
  by (auto simp: backspace_def cursor_ok_def cell_on_screen_def konst word_le_nat_alt unat_minus8)

lemma newline_ok:
  assumes "mode_ok v" "cursor_ok v"
  shows "same_mode v (newline v)" "cursor_x (newline v) = 0" "unat (cursor_y (newline v)) = unat (cursor_y v) + 8"
  using cursor_bounds [OF assms] unat_plus8 [OF assms(1)] by (simp_all add: newline_def)

lemma advance_ok:
  assumes "mode_ok v" "cursor_ok v"
  shows "same_mode v (advance v)"
    "advance v = (if unat (cursor_x v) + 16 > unat (width v) then newline v else v\<lparr>cursor_x := cursor_x v + FONT_WIDTH\<rparr>)"
    "unat (cursor_x v + FONT_WIDTH) = unat (cursor_x v) + 8"
proof -
  show x: "unat (cursor_x v + FONT_WIDTH) = unat (cursor_x v) + 8"
    using cursor_bounds [OF assms] unat_plus8 [OF assms(1)] by simp
  have "unat (cursor_x v + FONT_WIDTH + FONT_WIDTH) = unat (cursor_x v) + 16"
    using unat_plus8(1) [OF assms(1), of "cursor_x v + FONT_WIDTH"] cursor_bounds [OF assms] by (simp add: x)
  then show "advance v = (if unat (cursor_x v) + 16 > unat (width v) then newline v else v\<lparr>cursor_x := cursor_x v + FONT_WIDTH\<rparr>)"
    by (simp add: advance_def word_less_nat_alt)
  show "same_mode v (advance v)" by (simp add: advance_def newline_def)
qed

lemma draw_ch_inside:
  assumes "mode_ok v" "cursor_ok v"
  shows "inside (v, m) (vbe_draw_ch ch c (v, m))"
proof -
  note b = cursor_bounds [OF assms]
  have nl: "inside (newline v, m') (scroll_if_below (newline v, m'))" for m'
    using b newline_ok [OF assms] assms(1) same_modeD [OF newline_ok(1) [OF assms]] by (intro scroll_if_below_inside) simp_all
  consider "ch = 0x0A" | "ch = 0x0D" | "ch = 0x08" | "ch \<notin> {0x0A, 0x0D, 0x08}" "ch \<ge> 128"
    | "ch \<notin> {0x0A, 0x0D, 0x08}" "ch < 128" by fastforce
  then show ?thesis
  proof cases
    case 1
    then show ?thesis using inside_trans [OF newline_ok(1) [OF assms] _ nl] by (simp add: draw_ch_cases)
  next
    case 2
    have "inside (v\<lparr>cursor_x := 0\<rparr>, m) (scroll_if_below (v\<lparr>cursor_x := 0\<rparr>, m))"
      using b assms(1) by (intro scroll_if_below_inside) simp_all
    then show ?thesis using 2 inside_trans [of v "v\<lparr>cursor_x := 0\<rparr>" m m] by (simp add: draw_ch_cases)
  next
    case 3
    let ?b = "backspace v"
    have ok: "mode_ok ?b" using assms(1) same_modeD(1) [OF backspace_ok(1) [OF assms]] by simp
    let ?m = "vbe_clear_ch ?b (cursor_x ?b) (cursor_y ?b) VBE_COLOR_BLACK m"
    have i: "inside (?b, ?m) (scroll_if_below (?b, ?m))"
      using cursor_bounds [OF ok backspace_ok(2) [OF assms]] by (intro scroll_if_below_inside [OF ok]) simp_all
    have o: "?m a = m a" if "a \<notin> framebuffer v" for a
      using that backspace_ok [OF assms] by (intro clear_cell(1) [OF ok]) (simp_all add: cursor_ok_def same_modeD)
    show ?thesis using 3 inside_trans [OF backspace_ok(1) [OF assms] o i] by (simp add: draw_ch_cases)
  next
    case 4
    then show ?thesis using assms clear_cell(1) [OF assms(1)] by (simp add: draw_ch_cases inside_def cursor_ok_def)
  next
    case 5
    let ?m = "draw_glyph v (ascii_bitmap ! unat ch) c (vbe_clear_ch v (cursor_x v) (cursor_y v) VBE_COLOR_BLACK m)"
    have i: "inside (advance v, ?m) (scroll_if_below (advance v, ?m))"
    proof (cases "unat (cursor_x v) + 16 > unat (width v)")
      case True
      then show ?thesis using nl by (simp add: advance_ok(2) [OF assms])
    next
      case False
      then show ?thesis using b advance_ok(3) [OF assms] assms(1)
        by (simp only: advance_ok(2) [OF assms] if_False) (intro scroll_if_below_inside; simp)
    qed
    have o: "?m a = m a" if "a \<notin> framebuffer v" for a
      using that assms by (intro glyph_cell(1)) (simp_all add: cursor_ok_def)
    have "\<not> 128 \<le> ch" using 5 by simp
    then show ?thesis using 5 inside_trans [OF advance_ok(1) [OF assms] o i] by (simp add: draw_ch_cases)
  qed
qed

lemma draw_string_inside:
  assumes "mode_ok (fst s)" "cursor_ok (fst s)"
  shows "inside s (vbe_draw_string str c s)"
  using assms
proof (induction str arbitrary: s)
  case (Cons ch str)
  let ?t = "vbe_draw_ch ch c s"
  have t: "inside s ?t" using draw_ch_inside [of "fst s" "snd s"] Cons.prems by simp
  then have "mode_ok (fst ?t)" "cursor_ok (fst ?t)" using Cons.prems same_modeD(1) [of "fst s" "fst ?t"] by (auto simp: inside_def)
  from Cons.IH [OF this] have "inside (fst ?t, snd ?t) (vbe_draw_string str c ?t)" by simp
  then have "inside (fst s, snd s) (vbe_draw_string str c ?t)"
    by (rule inside_trans [rotated 2]) (use t [unfolded inside_def] in blast)+
  then show ?case by simp
qed (simp add: inside_def)

end
