(* ===== verification/Stdlib.thy ===== *)
theory Stdlib
  imports Cstring
begin

text \<open>
  \<open>lib/stdlib.c\<close> and \<open>lib/ctype.c\<close>: numbers to strings and back. \<open>int\<close> arguments are integers in the 32-bit range;
  the loops over \<open>unsigned int\<close> values use natural numbers below \<open>2 ^ 32\<close>. \<open>dtoa\<close> is in \<open>Dtoa\<close>.
\<close>

definition reverse_string :: "nat \<Rightarrow> nat \<Rightarrow> mem \<Rightarrow> mem" where
  "reverse_string str len m = sreverse_loop str 0 ((len + 2 ^ 32 - 1) mod 2 ^ 32) m"

definition digit_char :: "nat \<Rightarrow> u8" where
  "digit_char rem = (if rem > 9 then of_nat (rem - 10) + 0x61 else of_nat rem + 0x30)"

text \<open>The digit loop of \<open>itoa\<close> and \<open>utoa\<close>: it does not return for base 1 and divides by zero for base 0.\<close>

partial_function (option) digits_loop :: "nat \<Rightarrow> nat \<Rightarrow> nat \<Rightarrow> nat \<Rightarrow> mem \<Rightarrow> (nat \<times> mem) option" where
  "digits_loop str base i v m = (if v \<noteq> 0 then (if base = 0 then None
     else digits_loop str base (i + 1) (v div base) (m(str + i := digit_char (v mod base)))) else Some (i, m))"

definition itoa :: "int \<Rightarrow> nat \<Rightarrow> int \<Rightarrow> mem \<Rightarrow> mem option" where
  "itoa value str base m =
     (if base < 2 \<or> base > 36 then Some (m(str := 0))
      else if value = 0 then Some (m(str := 0x30, str + 1 := 0))
      else (let is_negative = (value < 0 \<and> base = 10);
                uvalue = (if is_negative then nat (- (value + 1)) + 1 else nat (value mod 2 ^ 32))
            in do {
              (i, m1) \<leftarrow> digits_loop str (nat base) 0 uvalue m;
              let (i2, m2) = (if is_negative then (i + 1, m1(str + i := 0x2D)) else (i, m1));
              Some (reverse_string str i2 (m2(str + i2 := 0))) }))"

definition utoa :: "nat \<Rightarrow> nat \<Rightarrow> int \<Rightarrow> mem \<Rightarrow> mem option" where
  "utoa num str base m =
     (if num = 0 then Some (m(str := 0x30, str + 1 := 0))
      else do {
        (i, m1) \<leftarrow> digits_loop str (nat (base mod 2 ^ 32)) 0 num m;
        Some (reverse_string str i (m1(str + i := 0))) })"

text \<open>Signed overflow in \<open>atoi\<close> is undefined.\<close>

partial_function (option) atoi_loop :: "mem \<Rightarrow> nat \<Rightarrow> nat \<Rightarrow> nat option" where
  "atoi_loop m str res = (if 0x30 \<le> m str \<and> m str \<le> 0x39
     then (if res * 10 + (unat (m str) - 0x30) < 2 ^ 31 then atoi_loop m (str + 1) (res * 10 + (unat (m str) - 0x30)) else None)
     else Some res)"

definition atoi :: "mem \<Rightarrow> nat \<Rightarrow> nat option" where
  "atoi m str = atoi_loop m str 0"

definition isalpha :: "int \<Rightarrow> int" where
  "isalpha c = (if 0x41 \<le> c \<and> c \<le> 0x5A then 1 else if 0x61 \<le> c \<and> c \<le> 0x7A then 1 else 0)"

section \<open>Numerals\<close>

text \<open>The digits of a number, least significant first; no digit for 0.\<close>

function digits :: "nat \<Rightarrow> nat \<Rightarrow> nat list" where
  "digits base v = (if v = 0 \<or> base < 2 then [] else v mod base # digits base (v div base))"
  by pat_completeness auto
termination by (relation "measure snd") (auto intro: div_less_dividend)

declare digits.simps [simp del]

lemma digits_0 [simp]: "digits base 0 = []"
  by (simp add: digits.simps)

lemma digits_step: "0 < v \<Longrightarrow> 2 \<le> base \<Longrightarrow> digits base v = v mod base # digits base (v div base)"
  by (simp add: digits.simps [of base v])

lemma digits_bound: "2 \<le> base \<Longrightarrow> d \<in> set (digits base v) \<Longrightarrow> d < base"
proof (induction base v rule: digits.induct)
  case (1 base v)
  then show ?case by (cases "v = 0") (auto simp: digits_step)
qed

lemma digits_length: "2 \<le> base \<Longrightarrow> v < 2 ^ k \<Longrightarrow> length (digits base v) \<le> k"
proof (induction k arbitrary: v)
  case (Suc k)
  show ?case
  proof (cases "v = 0")
    case False
    have "v div base \<le> v div 2" using Suc.prems by (intro div_le_mono2) auto
    then have "v div base < 2 ^ k" using Suc.prems by simp
    with Suc.IH [of "v div base"] Suc.prems False show ?thesis by (simp add: digits_step)
  qed simp
qed simp

lemma digits_nonempty: "0 < v \<Longrightarrow> 2 \<le> base \<Longrightarrow> digits base v \<noteq> []"
  by (simp add: digits_step)

lemma foldr_digits: "2 \<le> base \<Longrightarrow> foldr (\<lambda>d r. r * base + d) (digits base v) 0 = v"
proof (induction base v rule: digits.induct)
  case (1 base v)
  then show ?case by (cases "v = 0") (auto simp: digits_step)
qed

text \<open>What the digit loop writes.\<close>

lemma digits_loop_at:
  assumes "2 \<le> base"
  shows "\<exists>m'. digits_loop str base i v m = Some (i + length (digits base v), m')
    \<and> (\<forall>x. m' x = (if str + i \<le> x \<and> x < str + i + length (digits base v)
          then digit_char (digits base v ! (x - (str + i))) else m x))"
  using assms
proof (induction base v arbitrary: i m rule: digits.induct)
  case (1 base v)
  show ?case
  proof (cases "v = 0")
    case True
    then show ?thesis by (subst digits_loop.simps) auto
  next
    case False
    let ?m = "m(str + i := digit_char (v mod base))"
    have ds: "digits base v = v mod base # digits base (v div base)" using False "1.prems" by (simp add: digits_step)
    have g: "\<not> (v = 0 \<or> base < 2)" using False "1.prems" by auto
    obtain m' where m': "digits_loop str base (i + 1) (v div base) ?m = Some (i + 1 + length (digits base (v div base)), m')"
        "\<forall>x. m' x = (if str + (i + 1) \<le> x \<and> x < str + (i + 1) + length (digits base (v div base))
          then digit_char (digits base (v div base) ! (x - (str + (i + 1)))) else ?m x)"
      using "1.IH" [OF g "1.prems", of "i + 1" ?m] by blast
    have "digits_loop str base i v m = Some (i + length (digits base v), m')"
      using False "1.prems" m'(1) by (subst digits_loop.simps) (simp add: ds del: fun_upd_apply)
    moreover have "m' x = (if str + i \<le> x \<and> x < str + i + length (digits base v)
          then digit_char (digits base v ! (x - (str + i))) else m x)" for x
      using m'(2) by (cases "x = str + i") (auto simp: ds nth_Cons' Suc_diff_Suc)
    ultimately show ?thesis by blast
  qed
qed

lemma digit_char_nonzero: "d < 36 \<Longrightarrow> digit_char d \<noteq> 0"
proof -
  assume d: "d < 36"
  have "unat (digit_char d) = (if d > 9 then d - 10 + 0x61 else d + 0x30)"
    using d by (auto simp: digit_char_def unat_word_ariths unat_of_nat)
  then show ?thesis using unat_0 by (auto split: if_splits)
qed

text \<open>Terminating and reversing a buffer of \<open>k\<close> non-zero bytes gives their string.\<close>

lemma reverse_string_cstr:
  assumes "region m str k = ds" "0 \<notin> set ds" "0 < k" "k < 2 ^ 32"
  shows "cstr (reverse_string str k (m(str + k := 0))) str (rev ds)"
    "x < str \<or> str + k < x \<Longrightarrow> reverse_string str k (m(str + k := 0)) x = m x"
proof -
  let ?m = "m(str + k := 0)"
  have e: "reverse_string str k ?m = sreverse str k ?m" by (simp add: reverse_string_def sreverse_def)
  have "region ?m str k = ds" using assms(1) by (auto simp: region_def)
  then have r: "region (sreverse str k ?m) str k = rev ds" using sreverse_region(1) [OF assms(3,4)] by simp
  have z: "sreverse str k ?m (str + k) = 0" using sreverse_region(2) [OF assms(3,4)] by simp
  have l: "length ds = k" using assms(1) by (auto simp: region_def)
  have "sreverse str k ?m (str + i) = rev ds ! i" if "i < k" for i
    using arg_cong [OF r, of "\<lambda>xs. xs ! i"] that by (simp add: region_def)
  then show "cstr (reverse_string str k ?m) str (rev ds)"
    using z l assms(2) by (simp add: cstr_def e)
  show "x < str \<or> str + k < x \<Longrightarrow> reverse_string str k ?m x = m x"
    using sreverse_region(2) [OF assms(3,4)] by (auto simp: e)
qed

definition numeral_bytes :: "nat \<Rightarrow> nat \<Rightarrow> u8 list" where
  "numeral_bytes base v = (if v = 0 then [0x30] else map digit_char (rev (digits base v)))"

lemma digits_region:
  assumes "\<forall>x. m' x = (if str + 0 \<le> x \<and> x < str + 0 + length ds then digit_char (ds ! (x - (str + 0))) else m x)"
  shows "region m' str (length ds) = map digit_char ds"
  using assms by (auto simp: region_def intro!: nth_equalityI)

lemma utoa_bytes:
  assumes "v < 2 ^ 32" "2 \<le> base" "base \<le> 36"
  shows "\<exists>m'. utoa v str base m = Some m' \<and> cstr m' str (numeral_bytes (nat base) v)"
proof (cases "v = 0")
  case True
  then show ?thesis by (simp add: utoa_def numeral_bytes_def)
next
  case False
  let ?ds = "digits (nat base) v"
  have b: "2 \<le> nat base" "nat (base mod 2 ^ 32) = nat base" using assms(2,3) by auto
  obtain m1 where m1: "digits_loop str (nat base) 0 v m = Some (length ?ds, m1)"
      "\<forall>x. m1 x = (if str + 0 \<le> x \<and> x < str + 0 + length ?ds then digit_char (?ds ! (x - (str + 0))) else m x)"
    using digits_loop_at [OF b(1), of str 0 v m] by auto
  have z: "0 \<notin> set (map digit_char ?ds)"
    using digits_bound [OF b(1)] digit_char_nonzero assms(3) by fastforce
  have "0 < length ?ds" "length ?ds < 2 ^ 32"
    using digits_nonempty [of v "nat base"] digits_length [OF b(1) assms(1)] False b(1) by auto
  from reverse_string_cstr(1) [OF digits_region [OF m1(2)] z this] m1(1) b(2) False show ?thesis
    by (simp add: utoa_def numeral_bytes_def rev_map)
qed

lemma itoa_bytes:
  assumes "- (2 ^ 31) \<le> value" "value < 2 ^ 31" "2 \<le> base" "base \<le> 36"
  shows "\<exists>m'. itoa value str base m = Some m' \<and> cstr m' str (if value < 0 \<and> base = 10
      then 0x2D # numeral_bytes 10 (nat (- value)) else numeral_bytes (nat base) (nat (value mod 2 ^ 32)))"
proof (cases "value = 0")
  case True
  then show ?thesis using assms by (simp add: itoa_def numeral_bytes_def)
next
  case False
  let ?neg = "value < 0 \<and> base = 10"
  define uv where "uv = (if ?neg then nat (- (value + 1)) + 1 else nat (value mod 2 ^ 32))"
  have uv: "uv = (if ?neg then nat (- value) else nat (value mod 2 ^ 32))" by (auto simp: uv_def)
  have "value mod 2 ^ 32 = (if value < 0 then value + 2 ^ 32 else value)"
  proof (cases "value < 0")
    case True
    have "(value + 2 ^ 32) mod 2 ^ 32 = value + 2 ^ 32" using True assms(1) by (intro mod_pos_pos_trivial) auto
    with True show ?thesis by simp
  qed (use assms(2) in \<open>simp add: mod_pos_pos_trivial\<close>)
  then have range: "0 < uv" "uv < 2 ^ 32" using assms(1,2) False unfolding uv by auto
  let ?ds = "digits (nat base) uv"
  have b: "2 \<le> nat base" using assms(3) by auto
  obtain m1 where m1: "digits_loop str (nat base) 0 uv m = Some (length ?ds, m1)"
      "\<forall>x. m1 x = (if str + 0 \<le> x \<and> x < str + 0 + length ?ds then digit_char (?ds ! (x - (str + 0))) else m x)"
    using digits_loop_at [OF b, of str 0 uv m] by auto
  have z: "0 \<notin> set (map digit_char ?ds)"
    using digits_bound [OF b] digit_char_nonzero assms(4) by fastforce
  have l: "0 < length ?ds" "length ?ds < 2 ^ 32" "length ?ds + 1 < 2 ^ 32"
    using digits_nonempty [OF range(1) b] digits_length [OF b range(2)] by auto
  note r = digits_region [OF m1(2)]
  show ?thesis
  proof (cases ?neg)
    case True
    let ?k = "length ?ds" and ?m2 = "m1(str + length ?ds := 0x2D)"
    have "region ?m2 str (?k + 1) = map digit_char ?ds @ [0x2D]"
      using r by (simp add: region_snoc region_upd)
    from reverse_string_cstr(1) [OF this] z l have "cstr (reverse_string str (?k + 1) (?m2(str + (?k + 1) := 0))) str
        (0x2D # map digit_char (rev ?ds))" by (simp add: rev_map)
    moreover have "itoa value str base m = Some (reverse_string str (?k + 1) (?m2(str + (?k + 1) := 0)))"
      unfolding itoa_def Let_def uv_def [symmetric] using m1(1) False True assms(3,4) by simp
    moreover have "numeral_bytes 10 (nat (- value)) = map digit_char (rev ?ds)"
      using True range(1) uv by (simp add: numeral_bytes_def)
    ultimately show ?thesis using True by auto
  next
    case False
    from reverse_string_cstr(1) [OF r z l(1,2)] have "cstr (reverse_string str (length ?ds) (m1(str + length ?ds := 0))) str
        (map digit_char (rev ?ds))" by (simp add: rev_map)
    moreover have "itoa value str base m = Some (reverse_string str (length ?ds) (m1(str + length ?ds := 0)))"
      unfolding itoa_def Let_def uv_def [symmetric] using m1(1) False \<open>value \<noteq> 0\<close> assms(3,4) by auto
    moreover have "numeral_bytes (nat base) (nat (value mod 2 ^ 32)) = map digit_char (rev ?ds)"
      using False range(1) uv by (auto simp: numeral_bytes_def)
    ultimately show ?thesis using False by auto
  qed
qed

lemma foldl_digits_ge: "r \<le> foldl (\<lambda>r d. r * 10 + d) r (ds :: nat list)"
proof (induction ds arbitrary: r)
  case (Cons d ds)
  have "r \<le> r * 10 + d" by simp
  also have "\<dots> \<le> foldl (\<lambda>r d. r * 10 + d) (r * 10 + d) ds" by (rule Cons.IH)
  finally show ?case by simp
qed simp

lemma digit_char_10: "d < 10 \<Longrightarrow> unat (digit_char d) = d + 0x30 \<and> 0x30 \<le> digit_char d \<and> digit_char d \<le> 0x39"
proof -
  assume d: "d < 10"
  then have u: "unat (digit_char d) = d + 0x30" by (simp add: digit_char_def unat_word_ariths unat_of_nat)
  then show ?thesis using d by (simp add: word_le_nat_alt)
qed

lemma atoi_loop_digits:
  assumes "cstr m s (map digit_char ds)" "list_all (\<lambda>d. d < 10) ds" "foldl (\<lambda>r d. r * 10 + d) r ds < 2 ^ 31"
  shows "atoi_loop m s r = Some (foldl (\<lambda>r d. r * 10 + d) r ds)"
  using assms
proof (induction ds arbitrary: s r)
  case Nil
  then show ?case by (subst atoi_loop.simps) simp
next
  case (Cons d ds)
  have d: "unat (m s) = d + 0x30" "0x30 \<le> m s" "m s \<le> 0x39"
    using Cons.prems(1,2) digit_char_10 [of d] by auto
  have "r * 10 + d < 2 ^ 31" using Cons.prems(3) foldl_digits_ge [of "r * 10 + d" ds] by simp
  moreover have "atoi_loop m (s + 1) (r * 10 + d) = Some (foldl (\<lambda>r d. r * 10 + d) (r * 10 + d) ds)"
    using Cons.prems by (intro Cons.IH) auto
  ultimately show ?case using d by (subst atoi_loop.simps) simp
qed

lemma atoi_numeral:
  assumes "cstr m s (numeral_bytes 10 v)" "v < 2 ^ 31"
  shows "atoi m s = Some v"
proof -
  define ds where "ds = (if v = 0 then [0] else rev (digits 10 v))"
  have n: "numeral_bytes 10 v = map digit_char ds" by (simp add: numeral_bytes_def ds_def digit_char_def)
  have f: "foldl (\<lambda>r d. r * 10 + d) 0 ds = v"
    using foldr_digits [of 10 v] by (auto simp: ds_def foldl_conv_foldr)
  have "list_all (\<lambda>d. d < 10) ds" using digits_bound [of 10 _ v] by (auto simp: ds_def list_all_iff)
  with atoi_loop_digits [of m s ds 0] assms show ?thesis by (simp add: atoi_def n f)
qed

section \<open>Properties\<close>

text \<open>\<open>itoa\<close> writes the numeral of every 32-bit integer, the most negative one included: in base 10 with a minus sign
  for negative numbers, in every other base the digits of the value read as unsigned; any base outside 2 to 36 gives
  the empty string.\<close>

theorem itoa_numerals:
  assumes "- (2 ^ 31) \<le> value" "value < 2 ^ 31"
  shows "\<exists>m'. itoa value str base m = Some m' \<and> cstr m' str
      (if base < 2 \<or> base > 36 then []
       else if value < 0 \<and> base = 10 then 0x2D # numeral_bytes 10 (nat (- value))
       else numeral_bytes (nat base) (nat (value mod 2 ^ 32)))"
proof (cases "base < 2 \<or> base > 36")
  case True
  then show ?thesis by (simp add: itoa_def)
next
  case False
  then show ?thesis using itoa_bytes [OF assms(1,2), of base str m] by simp
qed

theorem itoa_numerals_witness:
  "\<exists>m'. itoa (-12) 0 10 (\<lambda>_. 7) = Some m' \<and> cstr m' 0 [0x2D, 0x31, 0x32]"
proof -
  have "numeral_bytes 10 12 = [0x31, 0x32]" by (simp add: numeral_bytes_def digits.simps digit_char_def)
  with itoa_numerals [of "-12" 0 10 "\<lambda>_. 7"] show ?thesis by simp
qed

text \<open>\<open>atoi\<close> inverts \<open>itoa\<close> in base 10 on every non-negative \<open>int\<close>.\<close>

theorem atoi_itoa_roundtrip:
  assumes "0 \<le> value" "value < 2 ^ 31"
  shows "\<exists>m'. itoa value str 10 m = Some m' \<and> atoi m' str = Some (nat value)"
proof -
  have v: "nat (value mod 2 ^ 32) = nat value" "nat value < 2 ^ 31" using assms by auto
  obtain m' where "itoa value str 10 m = Some m'" "cstr m' str (numeral_bytes 10 (nat value))"
    using itoa_bytes [of "value" 10 str m] assms v by auto
  with atoi_numeral v(2) show ?thesis by blast
qed

theorem atoi_itoa_roundtrip_witness:
  "\<exists>m'. itoa 4711 0 10 (\<lambda>_. 0) = Some m' \<and> atoi m' 0 = Some 4711"
  using atoi_itoa_roundtrip [of 4711 0 "\<lambda>_. 0"] by simp

end
