(* ===== verification/Console.thy ===== *)
theory Console
  imports Vbe Stdlib
begin

text \<open>
  The text console: formatted output of the kernel, \<open>lib/stdio.c\<close>, on the framebuffer of \<open>driver/vbe.c\<close>, and a terminal of
  characters that it implements when the resolution is a multiple of the font.
\<close>

unbundle bit_operations_syntax

section \<open>\<open>lib/stdio.c\<close>\<close>

text \<open>Arguments of a format: a number, the text of a string, and for a \<open>double\<close> the text \<open>dtoa\<close> produces for it.\<close>

datatype karg = KNum u32 | KStr "u8 list" | KDouble "u8 list"

text \<open>The string that a conversion leaves in the local buffer.\<close>

definition buffer_text :: "(mem \<Rightarrow> mem option) \<Rightarrow> u8 list option" where
  "buffer_text conv = do { m \<leftarrow> conv (\<lambda>_. 0); n \<leftarrow> strlen m 0; Some (region m 0 n) }"

text \<open>One conversion: the display afterwards and the arguments that are left. An argument of the wrong kind or a missing one is
  undefined.\<close>

definition kconvert :: "u8 \<Rightarrow> karg list \<Rightarrow> vbe \<times> mem \<Rightarrow> ((vbe \<times> mem) \<times> karg list) option" where
  "kconvert d args s =
     (if d = 0x63 then (case args of KNum n # args' \<Rightarrow> Some (vbe_draw_ch (ucast n) VBE_COLOR_GREEN s, args') | _ \<Rightarrow> None)
      else if d = 0x73 then (case args of KStr t # args' \<Rightarrow> Some (vbe_draw_string t VBE_COLOR_GREEN s, args') | _ \<Rightarrow> None)
      else if d = 0x64 then (case args of KNum n # args' \<Rightarrow> do {
        t \<leftarrow> buffer_text (itoa (sint n) 0 10); Some (vbe_draw_string t VBE_COLOR_GREEN s, args') } | _ \<Rightarrow> None)
      else if d = 0x78 then (case args of KNum n # args' \<Rightarrow> do {
        t \<leftarrow> buffer_text (utoa (unat n) 0 16); Some (vbe_draw_string t VBE_COLOR_GREEN s, args') } | _ \<Rightarrow> None)
      else if d = 0x66 then (case args of KDouble t # args' \<Rightarrow> Some (vbe_draw_string t VBE_COLOR_GREEN s, args') | _ \<Rightarrow> None)
      else Some (s, args))"

text \<open>A format that ends with a percent sign is read behind its terminator.\<close>

fun vkprintf :: "u8 list \<Rightarrow> karg list \<Rightarrow> vbe \<times> mem \<Rightarrow> (vbe \<times> mem) option" where
  "vkprintf [] args s = Some s"
| "vkprintf (ch # fmt) args s =
     (if ch = 0x25 then (case fmt of [] \<Rightarrow> None
        | d # fmt' \<Rightarrow> if d = 0x25 then vkprintf fmt' args (vbe_draw_ch 0x25 VBE_COLOR_GREEN s)
            else (case kconvert d args s of None \<Rightarrow> None | Some (s', args') \<Rightarrow> vkprintf fmt' args' s'))
      else vkprintf fmt args (vbe_draw_ch ch VBE_COLOR_GREEN s))"

definition kprintf :: "u8 list \<Rightarrow> karg list \<Rightarrow> vbe \<times> mem \<Rightarrow> (vbe \<times> mem) option" where
  "kprintf fmt args s = vkprintf fmt args s"

section \<open>The text of a format\<close>

text \<open>Decimal and hexadecimal numbers, and the text a format stands for.\<close>

definition decimal :: "u32 \<Rightarrow> u8 list" where
  "decimal n = (if sint n < 0 then 0x2D # numeral_bytes 10 (nat (- sint n)) else numeral_bytes 10 (unat n))"

fun conversion :: "u8 \<Rightarrow> karg \<Rightarrow> u8 list option" where
  "conversion d (KNum n) = (if d = 0x63 then Some [ucast n] else if d = 0x64 then Some (decimal n)
     else if d = 0x78 then Some (numeral_bytes 16 (unat n)) else None)"
| "conversion d (KStr t) = (if d = 0x73 then Some t else None)"
| "conversion d (KDouble t) = (if d = 0x66 then Some t else None)"

fun ktext :: "u8 list \<Rightarrow> karg list \<Rightarrow> u8 list option" where
  "ktext [] args = Some []"
| "ktext (ch # fmt) args =
     (if ch \<noteq> 0x25 then map_option ((#) ch) (ktext fmt args)
      else case fmt of [] \<Rightarrow> None
      | d # fmt' \<Rightarrow> if d = 0x25 then map_option ((#) d) (ktext fmt' args)
          else if d \<in> {0x63, 0x73, 0x64, 0x78, 0x66} then (case args of [] \<Rightarrow> None
            | a # args' \<Rightarrow> do { t \<leftarrow> conversion d a; r \<leftarrow> ktext fmt' args'; Some (t @ r) })
          else ktext fmt' args)"

lemma region_cstr: "cstr m s cs \<Longrightarrow> region m s (length cs) = cs"
  by (auto simp: cstr_def region_def intro: nth_equalityI)

lemma buffer_text_cstr: "\<exists>m'. conv (\<lambda>_. 0) = Some m' \<and> cstr m' 0 t \<Longrightarrow> buffer_text conv = Some t"
  using region_cstr by (auto simp: buffer_text_def strlen_cstr)

lemma int_range: "- (2 ^ 31) \<le> sint (n :: u32)" "sint n < 2 ^ 31"
  using sint_range_size [of n] by (simp_all add: word_size)

lemma nat_sint: "nat (sint (n :: u32) mod 2 ^ 32) = unat n"
proof -
  have "uint n = sint n mod 2 ^ 32" using uint_word_of_int [of "sint n", where 'a = 32] by simp
  then show ?thesis by (simp only: unat_eq_nat_uint)
qed

lemma itoa_decimal: "buffer_text (itoa (sint n) 0 10) = Some (decimal n)"
proof (rule buffer_text_cstr)
  have "(if sint n < 0 \<and> (10 :: int) = 10 then 0x2D # numeral_bytes 10 (nat (- sint n))
      else numeral_bytes (nat 10) (nat (sint n mod 2 ^ 32))) = decimal n"
    using nat_sint [of n] by (auto simp: decimal_def)
  then show "\<exists>m'. itoa (sint n) 0 10 (\<lambda>_. 0) = Some m' \<and> cstr m' 0 (decimal n)"
    using itoa_bytes [OF int_range [of n], of 10 0 "\<lambda>_. 0"] by simp
qed

lemma utoa_hex: "buffer_text (utoa (unat n) 0 16) = Some (numeral_bytes 16 (unat (n :: u32)))"
  using utoa_bytes [of "unat n" 16 0 "\<lambda>_. 0"] unat_bound [of n] by (intro buffer_text_cstr) simp

lemma draw_string_append: "vbe_draw_string (t @ u) c s = vbe_draw_string u c (vbe_draw_string t c s)"
  by (induction t arbitrary: s) simp_all

lemma kconvert_text:
  "kconvert d args s = (if d \<in> {0x63, 0x73, 0x64, 0x78, 0x66} then (case args of [] \<Rightarrow> None
     | a # args' \<Rightarrow> map_option (\<lambda>t. (vbe_draw_string t VBE_COLOR_GREEN s, args')) (conversion d a)) else Some (s, args))"
  by (auto simp: kconvert_def itoa_decimal utoa_hex split: list.splits karg.splits)

lemma vkprintf_text: "vkprintf fmt args s = map_option (\<lambda>t. vbe_draw_string t VBE_COLOR_GREEN s) (ktext fmt args)"
proof (induction fmt args arbitrary: s rule: ktext.induct)
  case (2 ch fmt args)
  show ?case
  proof (cases "ch = 0x25")
    case False
    then show ?thesis using "2.IH"(1) by (simp add: option.map_comp o_def)
  next
    case True
    then show ?thesis using "2.IH"(2-)
      by (auto simp: kconvert_text option.map_comp o_def draw_string_append bind_eq_None_conv map_option_bind
          split: list.splits option.splits Option.bind_splits)
  qed
qed simp

section \<open>A terminal\<close>

text \<open>Rows of cells, each the bitmap it shows, and the position of the cursor.\<close>

record screen =
  trows :: "u8 list list list"
  tx :: nat
  ty :: nat

definition set_cell :: "nat \<Rightarrow> nat \<Rightarrow> u8 list \<Rightarrow> screen \<Rightarrow> screen" where
  "set_cell x y g T = T\<lparr>trows := (trows T)[y := (trows T ! y)[x := g]]\<rparr>"

text \<open>A cursor below the last row moves the rows up.\<close>

definition term_scroll :: "nat \<Rightarrow> screen \<Rightarrow> screen" where
  "term_scroll cols T = (if ty T < length (trows T) then T
     else T\<lparr>trows := tl (trows T) @ [replicate cols blank], ty := ty T - 1\<rparr>)"

definition term_newline :: "nat \<Rightarrow> screen \<Rightarrow> screen" where
  "term_newline cols T = term_scroll cols (T\<lparr>tx := 0, ty := ty T + 1\<rparr>)"

definition term_back :: "nat \<Rightarrow> screen \<Rightarrow> screen" where
  "term_back cols T = (if tx T > 0 then T\<lparr>tx := tx T - 1\<rparr> else if ty T > 0 then T\<lparr>tx := cols - 1, ty := ty T - 1\<rparr> else T)"

definition term_put :: "nat \<Rightarrow> u8 \<Rightarrow> screen \<Rightarrow> screen" where
  "term_put cols ch T =
     (if ch = 0x0A then term_newline cols T
      else if ch = 0x0D then T\<lparr>tx := 0\<rparr>
      else if ch = 0x08 then (let T1 = term_back cols T in set_cell (tx T1) (ty T1) blank T1)
      else if ch \<ge> 128 then set_cell (tx T) (ty T) blank T
      else (let T1 = set_cell (tx T) (ty T) (ascii_bitmap ! unat ch) T in
        if tx T + 1 = cols then term_newline cols T1 else T1\<lparr>tx := tx T + 1\<rparr>))"

definition term_write :: "nat \<Rightarrow> u8 list \<Rightarrow> screen \<Rightarrow> screen" where
  "term_write cols = fold (term_put cols)"

text \<open>The picture in memory shows the cells of a terminal in a colour, and the cursors agree.\<close>

definition picture :: "nat \<Rightarrow> u32 \<Rightarrow> vbe \<Rightarrow> mem \<Rightarrow> u8 list list list \<Rightarrow> bool" where
  "picture cols c v m rws \<longleftrightarrow> unat (width v) = 8 * cols \<and> unat (height v) = 8 * length rws \<and> list_all (\<lambda>r. length r = cols) rws
     \<and> (\<forall>i < 8 * cols. \<forall>j < 8 * length rws. pixel v m i j = cell_pixel (rws ! (j div 8) ! (i div 8)) c (i mod 8) (j mod 8))"

definition shows_term :: "nat \<Rightarrow> u32 \<Rightarrow> vbe \<times> mem \<Rightarrow> screen \<Rightarrow> bool" where
  "shows_term cols c s T \<longleftrightarrow> mode_ok (fst s) \<and> picture cols c (fst s) (snd s) (trows T)
     \<and> tx T < cols \<and> ty T < length (trows T) \<and> unat (cursor_x (fst s)) = 8 * tx T \<and> unat (cursor_y (fst s)) = 8 * ty T"

lemma in_cell_div:
  assumes "unat x = 8 * a" "unat y = 8 * b"
  shows "in_cell x y i j \<longleftrightarrow> i div 8 = a \<and> j div 8 = b"
    "in_cell x y i j \<Longrightarrow> i - unat x = i mod 8 \<and> j - unat y = j mod 8"
proof -
  show c: "in_cell x y i j \<longleftrightarrow> i div 8 = a \<and> j div 8 = b" using assms by (auto simp: in_cell_def)
  show "i - unat x = i mod 8 \<and> j - unat y = j mod 8" if "in_cell x y i j"
    using that c mult_div_mod_eq [of 8 i] mult_div_mod_eq [of 8 j] assms by (metis add_diff_cancel_left')
qed

lemma picture_set:
  assumes "picture cols c v m rws" "unat x = 8 * a" "unat y = 8 * b" "a < cols" "b < length rws"
    and new: "\<And>i j. i < unat (width v) \<Longrightarrow> j < unat (height v) \<Longrightarrow>
      pixel v m' i j = (if in_cell x y i j then cell_pixel g c (i - unat x) (j - unat y) else pixel v m i j)"
  shows "picture cols c v m' (rws[b := (rws ! b)[a := g]])"
proof -
  have r: "length (rws ! j) = cols" if "j < length rws" for j using assms(1) that by (simp add: picture_def list_all_length)
  have "pixel v m' i j = cell_pixel (rws[b := (rws ! b)[a := g]] ! (j div 8) ! (i div 8)) c (i mod 8) (j mod 8)"
    if ij: "i < 8 * cols" "j < 8 * length rws" for i j
  proof -
    have d: "i div 8 < cols" "j div 8 < length rws" using ij by auto
    have p: "pixel v m' i j = (if in_cell x y i j then cell_pixel g c (i - unat x) (j - unat y) else pixel v m i j)"
      using ij assms(1) by (intro new) (simp_all add: picture_def)
    show ?thesis
    proof (cases "in_cell x y i j")
      case True
      then show ?thesis using p d in_cell_div [OF assms(2,3), of i j] r [OF assms(5)] assms(4,5) by simp
    next
      case False
      then have "rws[b := (rws ! b)[a := g]] ! (j div 8) ! (i div 8) = rws ! (j div 8) ! (i div 8)"
        using in_cell_div(1) [OF assms(2,3), of i j] d by (cases "j div 8 = b") auto
      then show ?thesis using p False ij assms(1) by (simp add: picture_def)
    qed
  qed
  then show ?thesis using assms(1) r [OF assms(5)] by (simp add: picture_def list_all_update)
qed

lemma picture_scroll:
  assumes "picture cols c v m rws" "rws \<noteq> []"
    and new: "\<And>i j. i < unat (width v) \<Longrightarrow> j < unat (height v) \<Longrightarrow>
      pixel v m' i j = (if j + 8 < unat (height v) then pixel v m i (j + 8) else color_bytes VBE_COLOR_BLACK)"
  shows "picture cols c v m' (tl rws @ [replicate cols blank])"
proof -
  obtain r0 rs where rws: "rws = r0 # rs" using assms(2) by (cases rws) auto
  have "pixel v m' i j = cell_pixel ((rs @ [replicate cols blank]) ! (j div 8) ! (i div 8)) c (i mod 8) (j mod 8)"
    if ij: "i < 8 * cols" "j < 8 * length rws" for i j
  proof (cases "j < 8 * length rs")
    case True
    have "pixel v m i (j + 8) = cell_pixel (rws ! ((j + 8) div 8) ! (i div 8)) c (i mod 8) ((j + 8) mod 8)"
      using assms(1) ij(1) True by (simp add: picture_def rws)
    moreover have "(j + 8) div 8 - Suc 0 = j div 8" by simp
    ultimately show ?thesis using True ij new [of i j] assms(1) by (simp add: picture_def rws nth_append less_mult_imp_div_less mult.commute)
  next
    case False
    have e: "j div 8 = length rs" using False ij(2) by (simp add: rws)
    have "i div 8 < cols" using ij by auto
    then show ?thesis using False ij new [of i j] assms(1)
      by (simp add: picture_def rws nth_append e cell_pixel_def blank_def)
  qed
  then show ?thesis using assms(1) by (simp add: picture_def rws)
qed

lemma picture_mode: "same_mode v v' \<Longrightarrow> picture cols c v' m rws = picture cols c v m rws"
  by (simp add: picture_def same_modeD)

lemma scroll_shows:
  assumes "mode_ok v" "picture cols c v m (trows T)" "tx T < cols" "ty T \<le> length (trows T)"
    "unat (cursor_x v) = 8 * tx T" "unat (cursor_y v) = 8 * ty T"
  shows "shows_term cols c (scroll_if_below (v, m)) (term_scroll cols T)"
proof -
  have wh: "unat (width v) = 8 * cols" "unat (height v) = 8 * length (trows T)" using assms(2) by (simp_all add: picture_def)
  then have b: "unat (cursor_x v) + 8 \<le> unat (width v)" "unat (cursor_y v) \<le> unat (height v)" using assms by simp_all
  show ?thesis
  proof (cases "ty T < length (trows T)")
    case True
    then have "scroll_if_below (v, m) = (v, m)" using wh assms(6) by (intro scroll_if_below_cases(1) [OF assms(1) b]) simp
    then show ?thesis using True assms by (simp add: shows_term_def term_scroll_def)
  next
    case False
    then have e: "ty T = length (trows T)" using assms(4) by simp
    have ne: "trows T \<noteq> []" "0 < ty T" using assms(1) wh(2) e by (auto simp: mode_ok_def word_le_nat_alt)
    obtain m' where m': "vbe_scroll VBE_COLOR_BLACK (v, m) = (v\<lparr>cursor_y := cursor_y v - 8\<rparr>, m')"
        "\<And>i j. i < unat (width v) \<Longrightarrow> j < unat (height v) \<Longrightarrow>
          pixel v m' i j = (if j + 8 < unat (height v) then pixel v m i (j + 8) else color_bytes VBE_COLOR_BLACK)"
      using scroll_result [OF assms(1)] by metis
    have "scroll_if_below (v, m) = (v\<lparr>cursor_y := cursor_y v - 8\<rparr>, m')"
      using scroll_if_below_cases(2) [OF assms(1) b, of m] e wh(2) assms(6) m'(1) by simp
    moreover have "unat (cursor_y v - 8) = 8 * (ty T - 1)" using unat_minus8 [of "cursor_y v"] assms(6) ne(2) by simp
    moreover have "picture cols c (v\<lparr>cursor_y := cursor_y v - 8\<rparr>) m' (tl (trows T) @ [replicate cols blank])"
      using picture_scroll [OF assms(2) ne(1) m'(2)] picture_mode [of v "v\<lparr>cursor_y := cursor_y v - 8\<rparr>"] by simp
    ultimately show ?thesis using assms(1,3,5) False e ne by (simp add: shows_term_def term_scroll_def)
  qed
qed

lemma newline_shows:
  assumes "mode_ok v" "picture cols c v m (trows T)" "cursor_ok v" "0 < cols" "ty T < length (trows T)" "unat (cursor_y v) = 8 * ty T"
  shows "shows_term cols c (scroll_if_below (newline v, m)) (term_newline cols T)"
proof -
  note n = newline_ok [OF assms(1,3)]
  have "mode_ok (newline v)" "picture cols c (newline v) m (trows (T\<lparr>tx := 0, ty := ty T + 1\<rparr>))"
    using assms(1,2) same_modeD(1) [OF n(1)] picture_mode [OF n(1)] by simp_all
  then show ?thesis unfolding term_newline_def
    by (rule scroll_shows) (use assms n in simp_all)
qed

lemma shows_termD:
  assumes "shows_term cols c (v, m) T"
  shows "mode_ok v" "picture cols c v m (trows T)" "tx T < cols" "ty T < length (trows T)"
    "unat (cursor_x v) = 8 * tx T" "unat (cursor_y v) = 8 * ty T"
    "unat (width v) = 8 * cols" "unat (height v) = 8 * length (trows T)" "cursor_ok v"
  using assms by (simp_all add: shows_term_def picture_def cursor_ok_def cell_on_screen_def)

lemma backspace_shows:
  assumes "shows_term cols c (v, m) T"
  shows "shows_term cols c (scroll_if_below (backspace v,
      vbe_clear_ch (backspace v) (cursor_x (backspace v)) (cursor_y (backspace v)) VBE_COLOR_BLACK m))
    (set_cell (tx (term_back cols T)) (ty (term_back cols T)) blank (term_back cols T))"
proof -
  note a = shows_termD [OF assms]
  let ?b = "backspace v" and ?T = "term_back cols T"
  note bs = backspace_ok [OF a(1,9)]
  have pos: "tx ?T < cols" "ty ?T < length (trows T)" "unat (cursor_x ?b) = 8 * tx ?T" "unat (cursor_y ?b) = 8 * ty ?T"
      "trows ?T = trows T"
    using a by (auto simp: backspace_def term_back_def konst word_le_nat_alt unat_minus8)
  have mb: "mode_ok ?b" using a(1) same_modeD(1) [OF bs(1)] by simp
  let ?m = "vbe_clear_ch ?b (cursor_x ?b) (cursor_y ?b) VBE_COLOR_BLACK m"
  have "picture cols c ?b ?m (trows (set_cell (tx ?T) (ty ?T) blank ?T))"
    using picture_set [OF _ pos(3,4,1), of c ?b m "trows T" ?m blank] clear_cell(2) [OF mb bs(2) [unfolded cursor_ok_def]]
      picture_mode [OF bs(1)] a(2) pos(2,5) by (simp add: set_cell_def)
  then have "shows_term cols c (scroll_if_below (?b, ?m)) (term_scroll cols (set_cell (tx ?T) (ty ?T) blank ?T))"
    by (rule scroll_shows [OF mb]) (use pos in \<open>simp_all add: set_cell_def\<close>)
  then show ?thesis using pos by (simp add: term_scroll_def set_cell_def)
qed

lemma glyph_shows:
  fixes g :: "u8 list" and T :: screen
  assumes "shows_term cols c (v, m) T"
  defines "T' \<equiv> set_cell (tx T) (ty T) g T"
  shows "shows_term cols c (scroll_if_below (advance v, draw_glyph v g c (vbe_clear_ch v (cursor_x v) (cursor_y v) VBE_COLOR_BLACK m)))
    (if tx T + 1 = cols then term_newline cols T' else T'\<lparr>tx := tx T + 1\<rparr>)"
proof -
  note a = shows_termD [OF assms(1)]
  let ?m = "draw_glyph v g c (vbe_clear_ch v (cursor_x v) (cursor_y v) VBE_COLOR_BLACK m)"
  have p: "picture cols c v ?m (trows T')"
    using picture_set [OF a(2,5,6,3,4), of ?m g] glyph_cell(2) [OF a(1) a(9) [unfolded cursor_ok_def]] by (simp add: T'_def set_cell_def)
  show ?thesis
  proof (cases "tx T + 1 = cols")
    case True
    then have "advance v = newline v" using advance_ok(2) [OF a(1,9)] a(5,7) by simp
    then show ?thesis using True newline_shows [OF a(1) p a(9)] a by (simp add: T'_def set_cell_def)
  next
    case False
    then have "advance v = v\<lparr>cursor_x := cursor_x v + FONT_WIDTH\<rparr>" using advance_ok(2) [OF a(1,9)] a(3,5,7) by simp
    moreover have "shows_term cols c (scroll_if_below (v\<lparr>cursor_x := cursor_x v + FONT_WIDTH\<rparr>, ?m)) (term_scroll cols (T'\<lparr>tx := tx T + 1\<rparr>))"
      using p a False advance_ok(3) [OF a(1,9)] picture_mode [of v "v\<lparr>cursor_x := cursor_x v + FONT_WIDTH\<rparr>"]
      by (intro scroll_shows) (simp_all add: T'_def set_cell_def)
    moreover have "term_scroll cols (T'\<lparr>tx := tx T + 1\<rparr>) = T'\<lparr>tx := tx T + 1\<rparr>"
      using a(4) by (simp add: term_scroll_def T'_def set_cell_def)
    ultimately show ?thesis using False by simp
  qed
qed

lemma put_shows:
  assumes "shows_term cols c (v, m) T"
  shows "shows_term cols c (vbe_draw_ch ch c (v, m)) (term_put cols ch T)"
proof -
  note a = shows_termD [OF assms]
  consider "ch = 0x0A" | "ch = 0x0D" | "ch = 0x08" | "ch \<notin> {0x0A, 0x0D, 0x08}" "ch \<ge> 128"
    | "ch \<notin> {0x0A, 0x0D, 0x08}" "\<not> ch \<ge> 128" by blast
  then show ?thesis
  proof cases
    case 1
    then show ?thesis using newline_shows [OF a(1,2,9) _ a(4,6)] a(3) by (simp add: draw_ch_cases term_put_def)
  next
    case 2
    have "shows_term cols c (scroll_if_below (v\<lparr>cursor_x := 0\<rparr>, m)) (term_scroll cols (T\<lparr>tx := 0\<rparr>))"
      using a picture_mode [of v "v\<lparr>cursor_x := 0\<rparr>"] by (intro scroll_shows) simp_all
    then show ?thesis using 2 a(4) by (simp add: draw_ch_cases term_put_def term_scroll_def)
  next
    case 3
    then show ?thesis using backspace_shows [OF assms] by (simp add: draw_ch_cases term_put_def Let_def)
  next
    case 4
    let ?m = "vbe_clear_ch v (cursor_x v) (cursor_y v) VBE_COLOR_BLACK m"
    have "picture cols c v ?m (trows (set_cell (tx T) (ty T) blank T))"
      using picture_set [OF a(2,5,6,3,4), of ?m blank] clear_cell(2) [OF a(1) a(9) [unfolded cursor_ok_def]] by (simp add: set_cell_def)
    then show ?thesis using 4 a by (simp add: draw_ch_cases term_put_def shows_term_def set_cell_def)
  next
    case 5
    then show ?thesis using glyph_shows [OF assms] by (simp add: draw_ch_cases term_put_def Let_def)
  qed
qed

lemma write_shows: "shows_term cols c s T \<Longrightarrow> shows_term cols c (vbe_draw_string t c s) (term_write cols t T)"
proof (induction t arbitrary: s T)
  case (Cons ch t)
  then have "shows_term cols c (vbe_draw_ch ch c s) (term_put cols ch T)" using put_shows [of cols c "fst s" "snd s"] by simp
  then show ?case using Cons.IH by (simp add: term_write_def)
qed (simp add: term_write_def)

section \<open>Properties\<close>

definition empty_screen :: "nat \<Rightarrow> nat \<Rightarrow> screen" where
  "empty_screen cols rws = \<lparr>trows = replicate rws (replicate cols blank), tx = 0, ty = 0\<rparr>"

lemma clear_shows:
  assumes "mode_ok v" "unat (width v) = 8 * cols" "unat (height v) = 8 * rws"
  shows "shows_term cols c (vbe_clear VBE_COLOR_BLACK (v, m)) (empty_screen cols rws)"
proof -
  let ?v = "v\<lparr>cursor_x := 0, cursor_y := 0\<rparr>"
  let ?m = "paint v VBE_COLOR_BLACK (points of_nat of_nat (\<lambda>_ _. True) [0..<unat (width v)] [0..<unat (height v)]) m"
  have "vaddr v \<noteq> 0" using assms(1) by (auto simp: mode_ok_def)
  then have e: "vbe_clear VBE_COLOR_BLACK (v, m) = (?v, ?m)" by (simp add: vbe_clear_def bottom_paint)
  have "pixel v ?m i j = color_bytes VBE_COLOR_BLACK" if "i < unat (width v)" "j < unat (height v)" for i j
    using that by (auto simp: paint_pixel [OF assms(1)] set_points)
  then have "picture cols c ?v ?m (replicate rws (replicate cols blank))"
    using assms(2,3) by (auto simp: picture_def list_all_length cell_pixel_def blank_def less_mult_imp_div_less mult.commute)
  moreover have "0 < cols" "0 < rws" using assms by (auto simp: mode_ok_def word_le_nat_alt)
  ultimately show ?thesis using assms(1) by (simp add: e shows_term_def empty_screen_def)
qed

text \<open>C30: on a display of 32 bits per pixel whose resolution is a multiple of the font, the framebuffer console implements a terminal:
  when the picture shows a terminal, \<open>kprintf\<close> of a format with matching arguments leaves the picture of the terminal to which the
  text of the format was written. Line feed, carriage return and backspace move the cursor, a character fills the cell of the
  cursor, a full row continues in the next one and below the last row the rows move up.\<close>

theorem kprintf_on_terminal:
  assumes "shows_term cols VBE_COLOR_GREEN s T" "ktext fmt args = Some t"
  shows "\<exists>s'. kprintf fmt args s = Some s' \<and> shows_term cols VBE_COLOR_GREEN s' (term_write cols t T)"
  using write_shows [OF assms(1)] assms(2) by (simp add: kprintf_def vkprintf_text)

definition display800 :: vbe where
  "display800 = vbe_init 0xE0000000 800 600 3200 32 vbe_display0"

lemma display800_ok: "mode_ok display800" "unat (width display800) = 8 * 100" "unat (height display800) = 8 * 75"
  by (simp_all add: display800_def vbe_init_def vbe_display0_def mode_ok_def)

theorem kprintf_on_terminal_witness:
  "\<exists>s'. kprintf [0x25, 0x64, 0x0A] [KNum 42] (vbe_clear VBE_COLOR_BLACK (display800, \<lambda>_. 7)) = Some s'
    \<and> shows_term 100 VBE_COLOR_GREEN s' (term_write 100 [0x34, 0x32, 0x0A] (empty_screen 100 75))"
  by (rule kprintf_on_terminal [OF clear_shows [OF display800_ok]])
    (simp add: decimal_def numeral_bytes_def digits_step digit_char_def)

text \<open>C31: memory safety of the console. In every mode of 32 bits per pixel with at least the size of one character, whatever its
  resolution, drawing a string keeps the cell of the cursor on the screen and changes no byte outside the framebuffer.\<close>

theorem drawing_stays_inside:
  assumes "mode_ok v" "cursor_ok v" "vbe_draw_string str c (v, m) = (v', m')"
  shows "mode_ok v' \<and> cursor_ok v' \<and> framebuffer v' = framebuffer v \<and> (\<forall>a. a \<notin> framebuffer v \<longrightarrow> m' a = m a)"
  using draw_string_inside [of "(v, m)" str c] assms same_modeD [of v v'] by (auto simp: inside_def)

lemma mode_10: "mode_ok (vbe_init 0x1000 10 10 40 32 vbe_display0)" "cursor_ok (vbe_init 0x1000 10 10 40 32 vbe_display0)"
  by (simp_all add: vbe_init_def vbe_display0_def mode_ok_def cursor_ok_def cell_on_screen_def)

theorem drawing_stays_inside_witness:
  "cursor_ok (fst (vbe_draw_string [0x41, 0x0A, 0x08] 0xFF (vbe_init 0x1000 10 10 40 32 vbe_display0, \<lambda>_. 7)))"
  using drawing_stays_inside [OF mode_10, where str = "[0x41, 0x0A, 0x08]" and c = "0xFF" and m = "\<lambda>_. 7"] by (metis prod.collapse)

end
