(* ===== verification/Port_Io.thy ===== *)
theory Port_Io
  imports Prelude
begin

text \<open>
  Port input and output. \<open>inb\<close> .. \<open>outl\<close> of \<open>io.h\<close> are single machine instructions; what answers them is the
  hardware, which is a parameter of the drivers: a \<open>bus\<close> says for a hardware state \<open>'d\<close> what a port read returns
  and how reads and writes change that state. Also the little-endian view of bytes as 16- and 32-bit values that every
  structure on disk and every word transfer uses, and the error numbers.
\<close>

unbundle bit_operations_syntax

record 'd bus =
  inb :: "u16 \<Rightarrow> 'd \<Rightarrow> u8 \<times> 'd"
  inw :: "u16 \<Rightarrow> 'd \<Rightarrow> u16 \<times> 'd"
  inl :: "u16 \<Rightarrow> 'd \<Rightarrow> u32 \<times> 'd"
  outb :: "u16 \<Rightarrow> u8 \<Rightarrow> 'd \<Rightarrow> 'd"
  outw :: "u16 \<Rightarrow> u16 \<Rightarrow> 'd \<Rightarrow> 'd"
  outl :: "u16 \<Rightarrow> u32 \<Rightarrow> 'd \<Rightarrow> 'd"

text \<open>A sequence of byte writes, the shape of every command the drivers send.\<close>

definition outs :: "'d bus \<Rightarrow> (u16 \<times> u8) list \<Rightarrow> 'd \<Rightarrow> 'd" where
  "outs b ws d = fold (\<lambda>(p, v). outb b p v) ws d"

lemma outs_simps [simp]: "outs b [] d = d" "outs b ((p, v) # ws) d = outs b ws (outb b p v d)"
  by (simp_all add: outs_def)

section \<open>Little-endian values\<close>

definition le16 :: "u16 \<Rightarrow> u8 list" where
  "le16 w = [ucast w, ucast (drop_bit 8 w)]"

definition word16 :: "u8 \<Rightarrow> u8 \<Rightarrow> u16" where
  "word16 lo hi = ucast lo OR push_bit 8 (ucast hi)"

definition le32 :: "u32 \<Rightarrow> u8 list" where
  "le32 w = [ucast w, ucast (drop_bit 8 w), ucast (drop_bit 16 w), ucast (drop_bit 24 w)]"

definition word32 :: "u8 \<Rightarrow> u8 \<Rightarrow> u8 \<Rightarrow> u8 \<Rightarrow> u32" where
  "word32 a b c d = ucast a OR push_bit 8 (ucast b) OR push_bit 16 (ucast c) OR push_bit 24 (ucast d)"

lemma length_le [simp]: "length (le16 w) = 2" "length (le32 v) = 4"
  by (simp_all add: le16_def le32_def)

lemma word16_le16 [simp]: "word16 (ucast w) (ucast (drop_bit 8 w)) = w"
  by (rule bit_word_eqI) (auto simp: word16_def bit_simps)

lemma word16_bytes [simp]:
  "ucast (word16 lo hi) = lo" "ucast (drop_bit 8 (word16 lo hi)) = hi"
  by (rule bit_word_eqI; auto simp: word16_def bit_simps dest: bit_imp_le_length)+

lemma word32_le32 [simp]:
  "word32 (ucast w) (ucast (drop_bit 8 w)) (ucast (drop_bit 16 w)) (ucast (drop_bit 24 w)) = w"
proof (rule bit_word_eqI)
  fix n assume "n < LENGTH(32)"
  then consider "n < 8" | "8 \<le> n" "n < 16" | "16 \<le> n" "n < 24" | "24 \<le> n" "n < 32" by fastforce
  then show "bit (word32 (ucast w) (ucast (drop_bit 8 w)) (ucast (drop_bit 16 w)) (ucast (drop_bit 24 w))) n = bit w n"
    by cases (auto simp: word32_def bit_simps)
qed

text \<open>A byte array read and written as an array of 16-bit words.\<close>

fun words_of :: "u8 list \<Rightarrow> u16 list" where
  "words_of (a # b # xs) = word16 a b # words_of xs"
| "words_of _ = []"

definition bytes_of :: "u16 list \<Rightarrow> u8 list" where
  "bytes_of ws = concat (map le16 ws)"

lemma bytes_of_simps [simp]: "bytes_of [] = []" "bytes_of (w # ws) = le16 w @ bytes_of ws"
  by (simp_all add: bytes_of_def)

lemma length_bytes_of [simp]: "length (bytes_of ws) = 2 * length ws"
  by (induction ws) auto

lemma length_words_of [simp]: "length (words_of xs) = length xs div 2"
  by (induction xs rule: words_of.induct) auto

lemma words_of_bytes_of [simp]: "words_of (bytes_of ws) = ws"
  by (induction ws) (auto simp: le16_def)

lemma bytes_of_words_of: "even (length xs) \<Longrightarrow> bytes_of (words_of xs) = xs"
  by (induction xs rule: words_of.induct) (auto simp: le16_def)

end
