(* ===== verification/Vga.thy ===== *)
theory Vga
  imports Port_Io Cstring
begin

text \<open>
  The text mode console, \<open>driver/vga.c\<close> and \<open>driver/cursor.c\<close>, which the kernel keeps beside the framebuffer console. The cells
  are 16-bit values in memory; a small screen of cells says what a character does. \<open>busy_wait\<close> has no effect on the state.
\<close>

unbundle bit_operations_syntax

definition VGA_CTRL :: u16 where [konst]: "VGA_CTRL = 0x3D4"
definition VGA_DATA :: u16 where [konst]: "VGA_DATA = 0x3D5"
definition VGA_LOW_OFFSET :: u8 where [konst]: "VGA_LOW_OFFSET = 0x0F"
definition VGA_HIGH_OFFSET :: u8 where [konst]: "VGA_HIGH_OFFSET = 0x0E"
definition VGA_COLOR_BLACK :: u8 where [konst]: "VGA_COLOR_BLACK = 0"
definition VGA_COLOR_WHITE :: u8 where [konst]: "VGA_COLOR_WHITE = 15"

record vga =
  vga_fb :: nat
  vga_x :: u16
  vga_y :: u16
  vga_width :: u8
  vga_height :: u8

definition vga_display0 :: vga where
  "vga_display0 = \<lparr>vga_fb = 0, vga_x = 0, vga_y = 0, vga_width = 0, vga_height = 0\<rparr>"

definition make_ch :: "u8 \<Rightarrow> u8 \<Rightarrow> u16" where
  "make_ch ch color = ucast ch OR push_bit 8 (ucast color)"

definition store16 :: "nat \<Rightarrow> u16 \<Rightarrow> mem \<Rightarrow> mem" where
  "store16 a w m = m(a := ucast w, a + 1 := ucast (drop_bit 8 w))"

definition vga_display_put_ch_at :: "vga \<Rightarrow> u8 \<Rightarrow> u8 \<Rightarrow> u8 \<Rightarrow> u8 \<Rightarrow> mem \<Rightarrow> mem" where
  "vga_display_put_ch_at v y x ch color m =
     (let linear_address = ucast y * ucast (vga_width v) + ucast x :: u16 in
        store16 (vga_fb v + 2 * unat linear_address) (make_ch ch color) m)"

definition vga_blank :: u16 where
  "vga_blank = make_ch 0x20 (VGA_COLOR_WHITE OR push_bit 4 VGA_COLOR_BLACK)"

definition vga_clear_last_line :: "vga \<Rightarrow> mem \<Rightarrow> mem" where
  "vga_clear_last_line v m =
     memset16 (nat (int (vga_fb v) + 2 * ((uint (vga_height v) - 1) * uint (vga_width v)))) vga_blank (unat (vga_width v)) m"

definition vga_scroll_up :: "vga \<Rightarrow> u32 \<Rightarrow> mem \<Rightarrow> mem" where
  "vga_scroll_up v ls m =
     (let start_second_line = vga_fb v + 2 * unat (ls * ucast (vga_width v));
          bytes = ucast (vga_width v) * (ucast (vga_height v) - ls) * 2 :: u32
      in memcpy (vga_fb v) start_second_line (unat bytes) m)"

definition vga_scroll :: "vga \<times> mem \<Rightarrow> vga \<times> mem" where
  "vga_scroll = (\<lambda>(v, m). if vga_y v \<ge> ucast (vga_height v)
     then (v\<lparr>vga_y := ucast (vga_height v) - 1\<rparr>, vga_clear_last_line v (vga_scroll_up v 1 m)) else (v, m))"

definition vga_display_init :: "nat \<Rightarrow> u8 \<Rightarrow> u8 \<Rightarrow> vga \<Rightarrow> vga" where
  "vga_display_init fb w h v = v\<lparr>vga_fb := fb, vga_x := 0, vga_y := 0, vga_width := w, vga_height := h\<rparr>"

definition vga_display_write :: "u8 \<Rightarrow> u8 \<Rightarrow> vga \<times> mem \<Rightarrow> vga \<times> mem" where
  "vga_display_write ch color = (\<lambda>(v, m).
     let (v1, m1) =
       (if ch = 0x0A \<or> ch = 0x0D then (v\<lparr>vga_x := 0, vga_y := vga_y v + 1\<rparr>, m)
        else if ch = 0x08 then
          let u = (if vga_x v > 0 then v\<lparr>vga_x := vga_x v - 1\<rparr>
            else if vga_y v > 0 then v\<lparr>vga_x := ucast (vga_width v) - 1, vga_y := vga_y v - 1\<rparr> else v)
          in (u, vga_display_put_ch_at u (ucast (vga_y u)) (ucast (vga_x u)) 0x20 color m)
        else (v\<lparr>vga_x := vga_x v + 1\<rparr>, vga_display_put_ch_at v (ucast (vga_y v)) (ucast (vga_x v)) ch color m));
       v2 = (if vga_x v1 \<ge> ucast (vga_width v1) then v1\<lparr>vga_x := 0, vga_y := vga_y v1 + 1\<rparr> else v1)
     in vga_scroll (v2, m1))"

definition vga_display_set_cursor :: "u8 \<Rightarrow> u8 \<Rightarrow> vga \<Rightarrow> vga" where
  "vga_display_set_cursor y x v = v\<lparr>vga_x := ucast x, vga_y := ucast y\<rparr>"

definition vga_display_clear :: "vga \<Rightarrow> mem \<Rightarrow> mem" where
  "vga_display_clear v m = fold (\<lambda>y. fold (\<lambda>x. vga_display_put_ch_at v (of_nat y) (of_nat x) 0x20
     (VGA_COLOR_WHITE OR push_bit 4 VGA_COLOR_BLACK)) [0..<unat (vga_width v)]) [0..<unat (vga_height v)] m"

section \<open>\<open>driver/cursor.c\<close>\<close>

definition cursor_set_vga :: "'d bus \<Rightarrow> u8 \<Rightarrow> u8 \<Rightarrow> 'd \<Rightarrow> 'd" where
  "cursor_set_vga b y x d = (let linear_position = ucast y * 80 + ucast x :: u16 in
     if linear_position < 80 * 25
     then outs b [(VGA_CTRL, VGA_LOW_OFFSET), (VGA_DATA, ucast (linear_position AND 0xFF)),
       (VGA_CTRL, VGA_HIGH_OFFSET), (VGA_DATA, ucast (drop_bit 8 linear_position AND 0xFF))] d
     else d)"

definition vga_print :: "'d bus \<Rightarrow> u8 list \<Rightarrow> u8 \<Rightarrow> (vga \<times> mem) \<times> 'd \<Rightarrow> (vga \<times> mem) \<times> 'd" where
  "vga_print b str color = (\<lambda>(s, d). let s1 = fold (\<lambda>ch. vga_display_write ch color) str s in
     (s1, cursor_set_vga b (ucast (vga_y (fst s1))) (ucast (vga_x (fst s1))) d))"

definition vga_print_ch :: "'d bus \<Rightarrow> u8 \<Rightarrow> u8 \<Rightarrow> (vga \<times> mem) \<times> 'd \<Rightarrow> (vga \<times> mem) \<times> 'd" where
  "vga_print_ch b ch color = (\<lambda>(s, d). let s1 = vga_display_write ch color s in
     (s1, cursor_set_vga b (ucast (vga_y (fst s1))) (ucast (vga_x (fst s1))) d))"

section \<open>The screen of cells\<close>

definition cell :: "vga \<Rightarrow> mem \<Rightarrow> nat \<Rightarrow> u16" where
  "cell v m i = word16 (m (vga_fb v + 2 * i)) (m (vga_fb v + 2 * i + 1))"

definition cells :: "vga \<Rightarrow> mem \<Rightarrow> u16 list" where
  "cells v m = map (cell v m) [0..<unat (vga_width v) * unat (vga_height v)]"

type_synonym text_screen = "u16 list \<times> nat \<times> nat"

text \<open>A full row goes on in the next one; below the last row the screen moves up.\<close>

definition screen_settle :: "nat \<Rightarrow> nat \<Rightarrow> text_screen \<Rightarrow> text_screen" where
  "screen_settle w h = (\<lambda>(cs, x, y). let (x, y) = (if x \<ge> w then (0, y + 1) else (x, y)) in
     if y \<ge> h then (drop w cs @ replicate w vga_blank, x, h - 1) else (cs, x, y))"

definition screen_write :: "nat \<Rightarrow> nat \<Rightarrow> u8 \<Rightarrow> u8 \<Rightarrow> text_screen \<Rightarrow> text_screen" where
  "screen_write w h ch color = (\<lambda>(cs, x, y). screen_settle w h
     (if ch = 0x0A \<or> ch = 0x0D then (cs, 0, y + 1)
      else if ch = 0x08 then
        let (x, y) = (if x > 0 then (x - 1, y) else if y > 0 then (w - 1, y - 1) else (x, y)) in (cs[y * w + x := make_ch 0x20 color], x, y)
      else (cs[y * w + x := make_ch ch color], x + 1, y)))"

definition vga_screen :: "vga \<times> mem \<Rightarrow> text_screen" where
  "vga_screen = (\<lambda>(v, m). (cells v m, unat (vga_x v), unat (vga_y v)))"

lemma vga_screen_pair: "vga_screen (v, m) = (cells v m, unat (vga_x v), unat (vga_y v))"
  by (simp add: vga_screen_def)

definition vga_ok :: "vga \<Rightarrow> bool" where [invs]:
  "vga_ok v \<longleftrightarrow> vga_x v < ucast (vga_width v) \<and> vga_y v < ucast (vga_height v)"

lemma cell_store: "cell v (store16 (vga_fb v + 2 * k) w m) i = (if i = k then w else cell v m i)"
proof -
  have "2 * i \<noteq> 2 * k + 1" "2 * i + 1 \<noteq> 2 * k" for i k :: nat by presburger+
  note odd = this
  show ?thesis using odd [of i k] by (auto simp: cell_def store16_def)
qed

lemma cells_store: "cells v (store16 (vga_fb v + 2 * k) w m) = (cells v m)[k := w]"
  by (rule nth_equalityI) (auto simp: cells_def cell_store nth_list_update)

lemma unat_width: "unat (ucast (w :: u8) :: u16) = unat w" "unat (ucast (w :: u8) :: u32) = unat w"
  by (simp_all add: unat_ucast_wide)

lemma put_ch_cells: "cells v (vga_display_put_ch_at v y x ch color m)
    = (cells v m)[unat y * unat (vga_width v) + unat x := make_ch ch color]"
proof -
  have "unat y * unat (vga_width v) \<le> 255 * 255" using unat_bound [of y] unat_bound [of "vga_width v"] by (intro mult_le_mono) auto
  then have "unat (ucast y * ucast (vga_width v) + ucast x :: u16) = unat y * unat (vga_width v) + unat x"
    using unat_bound [of x] by (simp add: unat_word_ariths unat_width)
  then show ?thesis by (simp only: vga_display_put_ch_at_def Let_def cells_store)
qed

lemma memset16_store: "memset16 a w n m = fold (\<lambda>i. store16 (a + 2 * i) w) [0..<n] m"
  by (simp only: memset16_def store16_def [abs_def])

lemma memset16_cell: "cell v (memset16 (vga_fb v + 2 * k) w n m) i = (if k \<le> i \<and> i < k + n then w else cell v m i)"
proof (induction n)
  case (Suc n)
  have "memset16 (vga_fb v + 2 * k) w (Suc n) m = store16 (vga_fb v + 2 * (k + n)) w (memset16 (vga_fb v + 2 * k) w n m)"
    by (simp add: memset16_store add.assoc)
  then show ?case by (simp only: cell_store Suc) auto
qed (auto simp: memset16_def)

lemma scroll_cells:
  assumes "0 < vga_width v" "0 < vga_height v"
  shows "cells v (vga_clear_last_line v (vga_scroll_up v 1 m))
    = drop (unat (vga_width v)) (cells v m) @ replicate (unat (vga_width v)) vga_blank"
proof -
  let ?w = "unat (vga_width v)" and ?h = "unat (vga_height v)"
  have wh: "0 < ?w" "0 < ?h" "?w < 256" "?h < 256"
    using assms unat_bound [of "vga_width v"] unat_bound [of "vga_height v"] by (simp_all add: word_less_nat_alt)
  have "?w * (?h - 1) \<le> 255 * 255" using wh by (intro mult_le_mono) auto
  moreover have "(ucast (vga_width v) * (ucast (vga_height v) - 1) * 2 :: u32) = of_nat (?w * (?h - 1) * 2)"
    using wh(2) by (simp add: of_nat_diff)
  moreover have "unat (of_nat (?w * (?h - 1) * 2) :: u32) = ?w * (?h - 1) * 2"
    using calculation(1) by (intro unat_of_nat_small) simp
  ultimately have "unat (ucast (vga_width v) * (ucast (vga_height v) - 1) * 2 :: u32) = ?w * (?h - 1) * 2"
    by (simp only:)
  then have "vga_scroll_up v 1 m = memcpy (vga_fb v) (vga_fb v + 2 * ?w) (?w * (?h - 1) * 2) m"
    by (simp only: vga_scroll_up_def Let_def unat_width mult_1)
  then have up: "vga_scroll_up v 1 m x = (if vga_fb v \<le> x \<and> x < vga_fb v + ?w * (?h - 1) * 2
      then m (vga_fb v + 2 * ?w + (x - vga_fb v)) else m x)" for x
    by (simp only:) (rule memcpy_at, simp)
  have u: "uint (vga_width v) = int ?w" "uint (vga_height v) - 1 = int (?h - 1)" using wh(2) by (simp_all add: of_nat_diff)
  have "int (vga_fb v) + 2 * (int (?h - 1) * int ?w) = int (vga_fb v + 2 * ((?h - 1) * ?w))" by simp
  then have "nat (int (vga_fb v) + 2 * ((uint (vga_height v) - 1) * uint (vga_width v))) = vga_fb v + 2 * ((?h - 1) * ?w)"
    by (simp only: u nat_int)
  then have l: "vga_clear_last_line v m' = memset16 (vga_fb v + 2 * ((?h - 1) * ?w)) vga_blank ?w m'" for m'
    by (simp only: vga_clear_last_line_def)
  have h: "?w * ?h = ?w * (?h - 1) + ?w" using wh(2) by (cases ?h) auto
  have "cell v (vga_clear_last_line v (vga_scroll_up v 1 m)) i = (if i < ?w * (?h - 1) then cell v m (?w + i) else vga_blank)"
    if i: "i < ?w * ?h" for i
  proof (cases "i < ?w * (?h - 1)")
    case True
    obtain N where N: "?w * (?h - 1) = N" by simp
    have "cell v (vga_scroll_up v 1 m) i = cell v m (?w + i)"
      using True [unfolded N] by (simp add: cell_def up [unfolded N] ac_simps)
    with True show ?thesis by (simp add: l memset16_cell mult.commute)
  next
    case False
    then show ?thesis using i h by (simp add: l memset16_cell mult.commute)
  qed
  then show ?thesis using h by (intro nth_equalityI) (auto simp: cells_def nth_append)
qed

lemma vga_okD:
  assumes "vga_ok v"
  shows "unat (vga_x v) < unat (vga_width v)" "unat (vga_y v) < unat (vga_height v)" "0 < vga_width v" "0 < vga_height v"
    "unat (vga_width v) < 256" "unat (vga_height v) < 256"
proof -
  show b: "unat (vga_x v) < unat (vga_width v)" "unat (vga_y v) < unat (vga_height v)"
    using assms unfolding vga_ok_def word_less_nat_alt unat_width by simp_all
  then show "0 < vga_width v" "0 < vga_height v" by (simp_all add: word_less_nat_alt)
  show "unat (vga_width v) < 256" "unat (vga_height v) < 256"
    using unat_bound [of "vga_width v"] unat_bound [of "vga_height v"] by simp_all
qed

lemma unat_next16: "unat (x :: u16) < 256 \<Longrightarrow> unat (x + 1) = unat x + 1"
  by (simp add: unat_word_ariths)

lemma unat_prev16: "0 < (x :: u16) \<Longrightarrow> unat (x - 1) = unat x - 1"
  by (simp add: unat_sub_if_size word_le_nat_alt word_less_nat_alt)

lemma unat_low8: "unat (x :: u16) < 256 \<Longrightarrow> unat (ucast x :: u8) = unat x"
  by (simp add: unsigned_ucast_eq take_bit_nat_eq_self_iff)

lemma moves [simp]: "cells (v\<lparr>vga_x := a\<rparr>) = cells v" "cells (v\<lparr>vga_y := b\<rparr>) = cells v"
  "vga_display_put_ch_at (v\<lparr>vga_x := a\<rparr>) = vga_display_put_ch_at v" "vga_display_put_ch_at (v\<lparr>vga_y := b\<rparr>) = vga_display_put_ch_at v"
  by (simp_all add: fun_eq_iff cells_def cell_def vga_display_put_ch_at_def)

text \<open>The end of a row and of the screen.\<close>

definition row_end :: "vga \<Rightarrow> vga" where
  "row_end v = (if vga_x v \<ge> ucast (vga_width v) then v\<lparr>vga_x := 0, vga_y := vga_y v + 1\<rparr> else v)"

definition same_size :: "vga \<Rightarrow> vga \<Rightarrow> bool" where
  "same_size v u \<longleftrightarrow> vga_width u = vga_width v \<and> vga_height u = vga_height v \<and> vga_fb u = vga_fb v"

lemma scroll_screen:
  assumes "0 < vga_width v" "0 < vga_height v" "unat (vga_x v) < unat (vga_width v)" "unat (vga_y v) \<le> unat (vga_height v)"
  shows "vga_screen (vga_scroll (v, m)) = (if unat (vga_y v) \<ge> unat (vga_height v)
      then (drop (unat (vga_width v)) (cells v m) @ replicate (unat (vga_width v)) vga_blank, unat (vga_x v), unat (vga_height v) - 1)
      else vga_screen (v, m))" "vga_ok (fst (vga_scroll (v, m)))" "same_size v (fst (vga_scroll (v, m)))"
proof -
  have p: "unat (ucast (vga_height v) - 1 :: u16) = unat (vga_height v) - 1"
    using unat_prev16 [of "ucast (vga_height v)"] assms(2) by (simp add: word_less_nat_alt unat_width)
  show "vga_screen (vga_scroll (v, m)) = (if unat (vga_y v) \<ge> unat (vga_height v)
      then (drop (unat (vga_width v)) (cells v m) @ replicate (unat (vga_width v)) vga_blank, unat (vga_x v), unat (vga_height v) - 1)
      else vga_screen (v, m))"
    using scroll_cells [OF assms(1,2)] p by (simp add: vga_scroll_def vga_screen_def word_le_nat_alt unat_width)
  show "vga_ok (fst (vga_scroll (v, m)))"
    using assms p by (auto simp: vga_scroll_def vga_ok_def word_le_nat_alt word_less_nat_alt unat_width)
  show "same_size v (fst (vga_scroll (v, m)))" by (simp add: vga_scroll_def same_size_def)
qed

lemma settle_screen:
  assumes "0 < vga_width v" "0 < vga_height v" "unat (vga_x v) < unat (vga_width v) \<and> unat (vga_y v) \<le> unat (vga_height v)
    \<or> unat (vga_x v) = unat (vga_width v) \<and> unat (vga_y v) < unat (vga_height v)"
  shows "vga_screen (vga_scroll (row_end v, m)) = screen_settle (unat (vga_width v)) (unat (vga_height v)) (vga_screen (v, m))"
    "vga_ok (fst (vga_scroll (row_end v, m)))" "same_size v (fst (vga_scroll (row_end v, m)))"
proof -
  let ?u = "row_end v"
  have y: "unat (vga_y v) < unat (vga_height v) \<Longrightarrow> unat (vga_y v + 1) = unat (vga_y v) + 1"
    using unat_bound [of "vga_height v"] by (intro unat_next16) simp
  have u: "0 < vga_width ?u" "0 < vga_height ?u" "unat (vga_x ?u) < unat (vga_width ?u)" "unat (vga_y ?u) \<le> unat (vga_height ?u)"
      "same_size v ?u" "cells ?u = cells v"
    using assms y by (auto simp: row_end_def same_size_def word_le_nat_alt unat_width word_less_nat_alt)
  have xy: "(unat (vga_x ?u), unat (vga_y ?u)) = (if unat (vga_x v) \<ge> unat (vga_width v) then (0, unat (vga_y v) + 1)
      else (unat (vga_x v), unat (vga_y v)))"
    using assms(3) y by (auto simp: row_end_def word_le_nat_alt unat_width)
  show "vga_screen (vga_scroll (?u, m)) = screen_settle (unat (vga_width v)) (unat (vga_height v)) (vga_screen (v, m))"
    unfolding scroll_screen(1) [OF u(1-4)] using xy u(5,6)
    by (auto simp: screen_settle_def vga_screen_pair same_size_def split: if_splits)
  show "vga_ok (fst (vga_scroll (?u, m)))" by (rule scroll_screen(2) [OF u(1-4)])
  show "same_size v (fst (vga_scroll (?u, m)))" using scroll_screen(3) [OF u(1-4)] u(5) by (simp add: same_size_def)
qed

lemma display_write_row_end: "vga_display_write ch color (v, m) =
    (let (v1, m1) = (if ch = 0x0A \<or> ch = 0x0D then (v\<lparr>vga_x := 0, vga_y := vga_y v + 1\<rparr>, m)
        else if ch = 0x08 then
          let u = (if vga_x v > 0 then v\<lparr>vga_x := vga_x v - 1\<rparr>
            else if vga_y v > 0 then v\<lparr>vga_x := ucast (vga_width v) - 1, vga_y := vga_y v - 1\<rparr> else v)
          in (u, vga_display_put_ch_at u (ucast (vga_y u)) (ucast (vga_x u)) 0x20 color m)
        else (v\<lparr>vga_x := vga_x v + 1\<rparr>, vga_display_put_ch_at v (ucast (vga_y v)) (ucast (vga_x v)) ch color m))
     in vga_scroll (row_end v1, m1))"
  by (simp add: vga_display_write_def row_end_def)

text \<open>A character has the effect on the cells and the cursor that the screen prescribes, and the cursor stays on the screen.\<close>

theorem vga_write_refines:
  assumes "vga_ok v"
  shows "vga_screen (vga_display_write ch color (v, m)) = screen_write (unat (vga_width v)) (unat (vga_height v)) ch color (vga_screen (v, m))
    \<and> vga_ok (fst (vga_display_write ch color (v, m)))"
proof -
  note o = vga_okD [OF assms]
  have xy: "unat (vga_x v) < 256" "unat (vga_y v) < 256" using o by simp_all
  have w: "unat (ucast (vga_width v) - 1 :: u16) = unat (vga_width v) - 1"
    using unat_prev16 [of "ucast (vga_width v)"] o(3) by (simp add: word_less_nat_alt unat_width)
  consider "ch = 0x0A \<or> ch = 0x0D" | "ch = 0x08" | "ch \<notin> {0x0A, 0x0D, 0x08}" by blast
  then show ?thesis
  proof cases
    case 1
    let ?u = "v\<lparr>vga_x := 0, vga_y := vga_y v + 1\<rparr>"
    note s = settle_screen [of ?u m]
    show ?thesis using 1 s o(1-4) unat_next16 [OF xy(2)]
      by (auto simp: display_write_row_end screen_write_def vga_screen_pair Let_def word_less_nat_alt)
  next
    case 2
    let ?u = "if vga_x v > 0 then v\<lparr>vga_x := vga_x v - 1\<rparr>
      else if vga_y v > 0 then v\<lparr>vga_x := ucast (vga_width v) - 1, vga_y := vga_y v - 1\<rparr> else v"
    have size: "vga_width ?u = vga_width v" "vga_height ?u = vga_height v" "\<And>a. cells ?u a = cells v a" by simp_all
    have pos: "(unat (vga_x ?u), unat (vga_y ?u)) = (if 0 < unat (vga_x v) then (unat (vga_x v) - 1, unat (vga_y v))
        else if 0 < unat (vga_y v) then (unat (vga_width v) - 1, unat (vga_y v) - 1) else (unat (vga_x v), unat (vga_y v)))"
      using w unat_prev16 [of "vga_x v"] unat_prev16 [of "vga_y v"] by (auto simp: word_less_nat_alt)
    then have b: "unat (vga_x ?u) < unat (vga_width v)" "unat (vga_y ?u) < unat (vga_height v)" using o by (auto split: if_splits)
    let ?m = "vga_display_put_ch_at ?u (ucast (vga_y ?u)) (ucast (vga_x ?u)) 0x20 color m"
    have c: "cells ?u ?m = (cells v m)[unat (vga_y ?u) * unat (vga_width v) + unat (vga_x ?u) := make_ch 0x20 color]"
      using b o(5,6) by (simp only: size put_ch_cells) (simp add: unat_low8)
    have s: "vga_screen (vga_scroll (row_end ?u, ?m)) = screen_settle (unat (vga_width v)) (unat (vga_height v)) (vga_screen (?u, ?m))"
        "vga_ok (fst (vga_scroll (row_end ?u, ?m)))"
      using settle_screen [of ?u ?m] b o(3,4) size by simp_all
    have e: "vga_display_write ch color (v, m) = vga_scroll (row_end ?u, ?m)"
      using 2 by (simp only: display_write_row_end Let_def) simp
    have "screen_write (unat (vga_width v)) (unat (vga_height v)) ch color (vga_screen (v, m))
        = screen_settle (unat (vga_width v)) (unat (vga_height v)) (vga_screen (?u, ?m))"
      using 2 pos c by (simp only: vga_screen_pair c) (auto simp: screen_write_def Let_def)
    then show ?thesis unfolding e using s by simp
  next
    case 3
    let ?m = "vga_display_put_ch_at v (ucast (vga_y v)) (ucast (vga_x v)) ch color m"
    note s = settle_screen [of "v\<lparr>vga_x := vga_x v + 1\<rparr>" ?m]
    have "unat (vga_x v) + 1 < unat (vga_width v) \<or> unat (vga_x v) + 1 = unat (vga_width v)" using o(1) by auto
    then show ?thesis using 3 s o(1-4) unat_next16 [OF xy(1)] xy
      by (auto simp: display_write_row_end screen_write_def vga_screen_pair Let_def put_ch_cells unat_low8)
  qed
qed

lemma vga_80_25: "vga_ok (vga_display_init 0xB8000 80 25 vga_display0)"
  by (simp add: vga_ok_def vga_display_init_def vga_display0_def)

theorem vga_write_refines_witness:
  "vga_screen (vga_display_write 0x0A 2 (vga_display_init 0xB8000 80 25 vga_display0, m))
    = (cells (vga_display_init 0xB8000 80 25 vga_display0) m, 0, 1)"
  using vga_write_refines [OF vga_80_25, where ch = "0x0A" and color = 2 and m = m]
  by (simp add: vga_screen_pair screen_write_def screen_settle_def vga_display_init_def vga_display0_def)

end
