(* ===== verification/Cmos.thy ===== *)
theory Cmos
  imports Port_Io
begin

text \<open>
  \<open>driver/cmos.c\<close>: the real-time clock, read through an index port and a data port. Every query reads all 128 bytes of
  the CMOS memory first. The pauses between the reads have no effect on the state. The fields of \<open>date_t\<close> have 16 bits, enough
  for every value computed here.
\<close>

unbundle bit_operations_syntax

definition CMOS_PORT_INDEX :: u16 where [konst]: "CMOS_PORT_INDEX = 0x70"
definition CMOS_PORT_DATA :: u16 where [konst]: "CMOS_PORT_DATA = 0x71"

record rtime =
  rt_hour :: int
  rt_minute :: int
  rt_second :: int

record rdate =
  rd_weekday :: int
  rd_day :: int
  rd_month :: int
  rd_year :: int

definition bcd_to_decimal :: "int \<Rightarrow> int" where
  "bcd_to_decimal bcd = (drop_bit 4 (bcd AND 0xF0)) * 10 + (bcd AND 0x0F)"

text \<open>\<open>_dump_cmos\<close>: the values and the hardware after reading the bytes \<open>i\<close>, \<open>i + 1\<close>, ...\<close>

primrec dump_cmos_from :: "'d bus \<Rightarrow> nat \<Rightarrow> nat \<Rightarrow> 'd \<Rightarrow> u16 list \<times> 'd" where
  "dump_cmos_from b 0 i d = ([], d)"
| "dump_cmos_from b (Suc n) i d = (let (v, d1) = inb b CMOS_PORT_DATA (outb b CMOS_PORT_INDEX (of_nat i) d);
     (vs, d2) = dump_cmos_from b n (i + 1) d1 in (ucast v # vs, d2))"

definition dump_cmos :: "'d bus \<Rightarrow> 'd \<Rightarrow> u16 list \<times> 'd" where
  "dump_cmos b d = dump_cmos_from b 128 0 d"

definition cmos_time :: "'d bus \<Rightarrow> 'd \<Rightarrow> rtime \<times> u16 list \<times> 'd" where
  "cmos_time b d = (let (v, d') = dump_cmos b d in
     (\<lparr>rt_hour = bcd_to_decimal (uint (v ! 4)), rt_minute = bcd_to_decimal (uint (v ! 2)),
       rt_second = bcd_to_decimal (uint (v ! 0))\<rparr>, v, d'))"

definition cmos_date :: "'d bus \<Rightarrow> 'd \<Rightarrow> rdate \<times> u16 list \<times> 'd" where
  "cmos_date b d = (let (v, d') = dump_cmos b d in
     (\<lparr>rd_weekday = bcd_to_decimal (uint (v ! 6)), rd_day = bcd_to_decimal (uint (v ! 7)),
       rd_month = bcd_to_decimal (uint (v ! 8)), rd_year = uint (v ! 32) * 10 + bcd_to_decimal (uint (v ! 9))\<rparr>, v, d'))"

section \<open>What the clock holds\<close>

text \<open>A clock on the bus: selecting a register and reading the data port returns the register, and neither access
  changes what the registers hold.\<close>

locale cmos_clock =
  fixes b :: "'d bus" and clock :: "'d \<Rightarrow> nat \<Rightarrow> u8"
  assumes select_read: "i < 128 \<Longrightarrow> inb b CMOS_PORT_DATA (outb b CMOS_PORT_INDEX (of_nat i) d) = (v, d') \<Longrightarrow>
    v = clock d i \<and> clock d' = clock d"
begin

lemma dump_cmos_from_clock:
  "i + n \<le> 128 \<Longrightarrow> \<exists>d'. dump_cmos_from b n i d = (map (\<lambda>k. ucast (clock d k)) [i..<i + n], d') \<and> clock d' = clock d"
proof (induction n arbitrary: i d)
  case (Suc n)
  obtain v d1 where r: "inb b CMOS_PORT_DATA (outb b CMOS_PORT_INDEX (of_nat i) d) = (v, d1)" by fastforce
  from select_read [OF _ r] Suc.prems have "v = clock d i" "clock d1 = clock d" by simp_all
  moreover have "[i..<i + Suc n] = i # [i + 1..<i + 1 + n]" by (simp add: upt_conv_Cons)
  ultimately show ?case using Suc.IH [of "i + 1" d1] Suc.prems r by (auto simp del: upt_Suc)
qed simp

lemma dump_cmos_clock: "\<exists>d'. dump_cmos b d = (map (\<lambda>k. ucast (clock d k)) [0..<128], d') \<and> clock d' = clock d"
  using dump_cmos_from_clock [of 0 128 d] by (simp add: dump_cmos_def)

end

text \<open>A number below 100 as the clock stores it, in binary-coded decimal.\<close>

definition bcd :: "nat \<Rightarrow> u8" where
  "bcd n = of_nat (16 * (n div 10) + n mod 10)"

lemma bcd_decode: "n < 100 \<Longrightarrow> bcd_to_decimal (uint (ucast (bcd n) :: u16)) = int n"
proof -
  assume "n < 100"
  then have "n div 10 < 10" "n mod 10 < 10" by auto
  then have "16 * (n div 10) + n mod 10 < 2 ^ 8" by simp
  then have "unat (bcd n) = 16 * (n div 10) + n mod 10" unfolding bcd_def unat_of_nat by simp
  then have b: "uint (ucast (bcd n) :: u16) = int (16 * (n div 10) + n mod 10)"
    by (simp only: uint_nat unat_ucast_wide) (simp add: unat_ucast_wide)
  have "x AND 0x0F = x mod 16" "drop_bit 4 (x AND 0xF0) = (x div 16) mod 16" for x :: int
  proof -
    have m: "(0x0F :: int) = mask 4" "(0xF0 :: int) = push_bit 4 (mask 4)" by (simp_all add: mask_eq_exp_minus_1 push_bit_eq_mult)
    show "x AND 0x0F = x mod 16" unfolding m by (simp flip: take_bit_eq_mask add: take_bit_eq_mod)
    have "drop_bit 4 (x AND push_bit 4 (mask 4)) = take_bit 4 (drop_bit 4 x)" by (rule bit_eqI) (auto simp: bit_simps)
    then show "drop_bit 4 (x AND 0xF0) = (x div 16) mod 16" unfolding m by (simp add: take_bit_eq_mod drop_bit_eq_div)
  qed
  moreover have "int (n div 10) * 10 + int (n mod 10) = int n" by presburger
  ultimately show ?thesis unfolding bcd_to_decimal_def b using \<open>n div 10 < 10\<close> \<open>n mod 10 < 10\<close> by simp
qed

text \<open>The clock used by the witnesses: a selected register and fixed contents.\<close>

definition clock_bus :: "(nat \<times> (nat \<Rightarrow> u8)) bus" where
  "clock_bus = \<lparr>inb = (\<lambda>p d. (if p = 0x71 then snd d (fst d) else 0, d)), inw = (\<lambda>p d. (0, d)), inl = (\<lambda>p d. (0, d)),
     outb = (\<lambda>p v d. if p = 0x70 then (unat v, snd d) else d), outw = (\<lambda>p v d. d), outl = (\<lambda>p v d. d)\<rparr>"

interpretation clk: cmos_clock clock_bus snd
  by unfold_locales (auto simp: clock_bus_def konst unat_of_nat)

text \<open>With a clock that holds a date and a time in binary-coded decimal, \<open>cmos_time\<close> returns the time and \<open>cmos_date\<close>
  the weekday, day and month. The year is wrong: the century byte is not decoded and is scaled by 10 instead of 100, so in the
  20th BCD century the year returned is \<open>320 + yy\<close>.\<close>

theorem cmos_decodes:
  assumes "cmos_clock b clock" "h < 100" "m < 100" "sec < 100" "wd < 100" "dy < 100" "mon < 100" "yy < 100"
    and "clock d 4 = bcd h" "clock d 2 = bcd m" "clock d 0 = bcd sec" "clock d 6 = bcd wd" "clock d 7 = bcd dy"
    and "clock d 8 = bcd mon" "clock d 9 = bcd yy" "clock d 32 = bcd 20"
  shows "fst (cmos_time b d) = \<lparr>rt_hour = int h, rt_minute = int m, rt_second = int sec\<rparr>
    \<and> fst (cmos_date b d) = \<lparr>rd_weekday = int wd, rd_day = int dy, rd_month = int mon, rd_year = 320 + int yy\<rparr>"
proof -
  from cmos_clock.dump_cmos_clock [OF assms(1), of d] obtain d' where
    "dump_cmos b d = (map (\<lambda>k. ucast (clock d k)) [0..<128], d')" by blast
  moreover have "uint (ucast (bcd 20) :: u16) = 32" by (simp add: bcd_def)
  ultimately show ?thesis using assms(2-) by (simp add: cmos_time_def cmos_date_def bcd_decode numeral_2_eq_2)
qed

theorem cmos_decodes_witness:
  "fst (cmos_date clock_bus (0, (\<lambda>_. 0)(9 := bcd 24, 32 := bcd 20, 8 := bcd 2, 7 := bcd 29)))
     = \<lparr>rd_weekday = 0, rd_day = 29, rd_month = 2, rd_year = 344\<rparr>"
proof -
  have "bcd 0 = 0" by (simp add: bcd_def)
  then show ?thesis
    using cmos_decodes [OF clk.cmos_clock_axioms, of 0 0 0 0 29 2 24
        "(0, (\<lambda>_. 0)(9 := bcd 24, 32 := bcd 20, 8 := bcd 2, 7 := bcd 29))"] by simp
qed

end
