(* ===== verification/Path.thy ===== *)
theory Path
  imports Stdlib
begin

text \<open>
  \<open>fs/pathlexer.c\<close> and \<open>fs/pathparser.c\<close>: from a path string to the linked list of its components. The string is the
  list \<open>p\<close> of its bytes before the terminator; lexer pointers are positions in it. An identifier is the 11-byte array
  of the node; a copy that does not fit is an out-of-bounds write, i.e. \<open>None\<close>, and so is reading the first node of a
  path that has none. The nodes are modelled for calls of \<open>kzalloc\<close> that succeed.
\<close>

datatype pathtype = PT_IDENTIFIER | PT_LETTER | PT_COLON | PT_SLASH | PT_DOT | PT_END | PT_ERR

record pathtoken =
  ptype :: pathtype
  tstart :: nat
  tlen :: nat

record pathlexer =
  lstart :: nat
  lcurr :: nat

record pathparser =
  pcurr :: pathtoken
  pprev :: pathtoken
  has_error :: bool

section \<open>\<open>fs/pathlexer.c\<close>\<close>

definition char_at :: "u8 list \<Rightarrow> nat \<Rightarrow> u8" where
  "char_at p i = (if i < length p then p ! i else 0)"

definition alpha :: "u8 \<Rightarrow> bool" where
  "alpha c \<longleftrightarrow> isalpha (sint c) \<noteq> 0"

definition path_lexer_is_eof :: "u8 list \<Rightarrow> pathlexer \<Rightarrow> bool" where
  "path_lexer_is_eof p self \<longleftrightarrow> char_at p (lcurr self) = 0"

definition path_lexer_advance :: "u8 list \<Rightarrow> pathlexer \<Rightarrow> u8 \<times> pathlexer" where
  "path_lexer_advance p self = (char_at p (lcurr self), self\<lparr>lcurr := lcurr self + 1\<rparr>)"

definition path_lexer_create_token :: "pathlexer \<Rightarrow> pathtype \<Rightarrow> pathtoken" where
  "path_lexer_create_token self ty = \<lparr>ptype = ty, tstart = lstart self, tlen = lcurr self - lstart self\<rparr>"

definition path_lexer_init :: pathlexer where
  "path_lexer_init = \<lparr>lstart = 0, lcurr = 0\<rparr>"

definition path_lexer_peek :: "u8 list \<Rightarrow> pathlexer \<Rightarrow> u8" where
  "path_lexer_peek p self = char_at p (lcurr self)"

definition path_lexer_peek_next :: "u8 list \<Rightarrow> pathlexer \<Rightarrow> u8" where
  "path_lexer_peek_next p self = (if path_lexer_is_eof p self then 0 else char_at p (lcurr self + 1))"

lemma alpha_0 [simp]: "\<not> alpha 0"
  by (simp add: alpha_def isalpha_def)

function lex_identifier_loop :: "u8 list \<Rightarrow> pathlexer \<Rightarrow> pathlexer" where
  "lex_identifier_loop p self = (if alpha (path_lexer_peek p self)
     then lex_identifier_loop p (snd (path_lexer_advance p self)) else self)"
  by pat_completeness auto
termination
  by (relation "measure (\<lambda>(p, l). length p - lcurr l)")
    (auto simp: path_lexer_peek_def path_lexer_advance_def char_at_def split: if_splits)

declare lex_identifier_loop.simps [simp del]

definition path_lexer_lex_identifier :: "u8 list \<Rightarrow> pathlexer \<Rightarrow> pathtoken \<times> pathlexer" where
  "path_lexer_lex_identifier p self = (let l = lex_identifier_loop p self in (path_lexer_create_token l PT_IDENTIFIER, l))"

definition path_lexer_lex :: "u8 list \<Rightarrow> pathlexer \<Rightarrow> pathtoken \<times> pathlexer" where
  "path_lexer_lex p self0 = (let self = self0\<lparr>lstart := lcurr self0\<rparr> in
     if path_lexer_is_eof p self then (path_lexer_create_token self PT_END, self)
     else if alpha (path_lexer_peek p self) \<and> path_lexer_peek_next p self = 0x3A
     then (let (c, l) = path_lexer_advance p self in (path_lexer_create_token l PT_LETTER, l))
     else (let (ch, l) = path_lexer_advance p self in
       if ch = 0x2F then (path_lexer_create_token l PT_SLASH, l)
       else if ch = 0x3A then (path_lexer_create_token l PT_COLON, l)
       else if ch = 0x2E then (path_lexer_create_token l PT_DOT, l)
       else if alpha ch then path_lexer_lex_identifier p l
       else (path_lexer_create_token l PT_ERR, l)))"

section \<open>\<open>fs/pathparser.c\<close>\<close>

type_synonym pstate = "pathparser \<times> pathlexer"

record pathnode =
  ident :: "u8 list"

record pathroot =
  drive :: "u8 list"
  path :: "pathnode list"

definition path_parser_report_error :: "pathparser \<Rightarrow> pathparser" where
  "path_parser_report_error self = self\<lparr>has_error := True\<rparr>"

definition path_parser_check :: "pathparser \<Rightarrow> pathtype \<Rightarrow> bool" where
  "path_parser_check self expected \<longleftrightarrow> ptype (pcurr self) = expected"

lemma lex_identifier_loop_curr: "lcurr l \<le> lcurr (lex_identifier_loop p l)"
  by (induction p l rule: lex_identifier_loop.induct)
    (subst lex_identifier_loop.simps, auto simp: path_lexer_advance_def)

lemma lex_progress: "ptype (fst (path_lexer_lex p l)) \<noteq> PT_END \<Longrightarrow>
    lcurr l < length p \<and> lcurr l < lcurr (snd (path_lexer_lex p l))"
  using lex_identifier_loop_curr [of "l\<lparr>lstart := lcurr l, lcurr := Suc (lcurr l)\<rparr>" p]
  by (auto simp: path_lexer_lex_def Let_def path_lexer_create_token_def path_lexer_is_eof_def path_lexer_advance_def
      path_lexer_lex_identifier_def char_at_def split: if_splits)

text \<open>The loop that skips erroneous tokens; each of them consumes a byte.\<close>

function path_parser_skip :: "u8 list \<Rightarrow> pathparser \<Rightarrow> pathlexer \<Rightarrow> pstate" where
  "path_parser_skip p self lexer = (let (t, l) = path_lexer_lex p lexer in
     if ptype t \<noteq> PT_ERR then (self\<lparr>pcurr := t\<rparr>, l)
     else path_parser_skip p (path_parser_report_error (self\<lparr>pcurr := t\<rparr>)) l)"
  by pat_completeness auto
termination
proof (relation "measure (\<lambda>(p, s, l). length p - lcurr l)", goal_cases)
  case (2 p self lexer x t l)
  then have "ptype (fst (path_lexer_lex p lexer)) \<noteq> PT_END" "snd (path_lexer_lex p lexer) = l"
    by (metis fst_conv pathtype.distinct(41), metis snd_conv)
  with lex_progress [of p lexer] show ?case by auto
qed simp

declare path_parser_skip.simps [simp del]

definition path_parser_advance :: "u8 list \<Rightarrow> pstate \<Rightarrow> pstate" where
  "path_parser_advance p = (\<lambda>(self, lexer). path_parser_skip p (self\<lparr>pprev := pcurr self\<rparr>) lexer)"

definition path_parser_match :: "u8 list \<Rightarrow> pathtype \<Rightarrow> pstate \<Rightarrow> bool \<times> pstate" where
  "path_parser_match p expected s = (if path_parser_check (fst s) expected then (True, path_parser_advance p s) else (False, s))"

definition path_parser_eat :: "u8 list \<Rightarrow> pathtype \<Rightarrow> pstate \<Rightarrow> pstate" where
  "path_parser_eat p expected s = (if path_parser_check (fst s) expected then path_parser_advance p s
     else (path_parser_report_error (fst s), snd s))"

text \<open>\<open>memcpy\<close> into a fixed-size array, from the bytes of the path (the terminator included).\<close>

definition put_array :: "u8 list \<Rightarrow> nat \<Rightarrow> u8 list \<Rightarrow> u8 list option" where
  "put_array arr off bs = (if off + length bs \<le> length arr then Some (take off arr @ bs @ drop (off + length bs) arr) else None)"

definition path_bytes :: "u8 list \<Rightarrow> nat \<Rightarrow> nat \<Rightarrow> u8 list" where
  "path_bytes p start len = map (\<lambda>i. char_at p (start + i)) [0..<len]"

definition path_parser_parse_dir :: "u8 list \<Rightarrow> pstate \<Rightarrow> pathnode \<Rightarrow> pathnode option" where
  "path_parser_parse_dir p s node = map_option (\<lambda>a. node\<lparr>ident := a\<rparr>)
     (put_array (ident node) 0 (path_bytes p (tstart (pprev (fst s))) (tlen (pprev (fst s)))))"

definition path_parser_parse_filename :: "u8 list \<Rightarrow> pstate \<Rightarrow> pathnode \<Rightarrow> (pathnode \<times> pstate) option" where
  "path_parser_parse_filename p s node =
     (let namelen = (if tlen (pprev (fst s)) < 8 then tlen (pprev (fst s)) else 8) in do {
        a1 \<leftarrow> put_array (ident node) 0 (path_bytes p (tstart (pprev (fst s))) namelen);
        let s1 = path_parser_eat p PT_DOT s;
        let s2 = path_parser_eat p PT_IDENTIFIER s1;
        let extlen = (if tlen (pprev (fst s2)) < 3 then tlen (pprev (fst s2)) else 3);
        a2 \<leftarrow> put_array a1 namelen [0x2E];
        a3 \<leftarrow> put_array a2 (namelen + 1) (path_bytes p (tstart (pprev (fst s2))) (extlen + 1));
        a4 \<leftarrow> put_array a3 (namelen + 1 + extlen) [0];
        Some (node\<lparr>ident := a4\<rparr>, s2) })"

definition path_parser_parse_entry :: "u8 list \<Rightarrow> pstate \<Rightarrow> pathnode \<Rightarrow> (pathnode \<times> pstate) option" where
  "path_parser_parse_entry p s node = (let (ok, s1) = path_parser_match p PT_IDENTIFIER s in
     if ok then do {
       n1 \<leftarrow> path_parser_parse_dir p s1 node;
       if path_parser_check (fst s1) PT_DOT then path_parser_parse_filename p s1 n1 else Some (n1, s1) }
     else Some (node, s1))"

partial_function (option) path_parser_parse_entries :: "u8 list \<Rightarrow> pstate \<Rightarrow> (pathnode list \<times> pstate) option" where
  "path_parser_parse_entries p s = (let (ok, s1) = path_parser_match p PT_SLASH s in
     if ok then do {
       (n, s2) \<leftarrow> path_parser_parse_entry p s1 \<lparr>ident = replicate 11 0\<rparr>;
       (ns, s3) \<leftarrow> path_parser_parse_entries p s2;
       Some (n # ns, s3) }
     else Some ([], s1))"

definition path_parser_parse_drive :: "u8 list \<Rightarrow> pstate \<Rightarrow> u8 list \<times> pstate" where
  "path_parser_parse_drive p s = (let (ok, s1) = path_parser_match p PT_LETTER s in
     if ok then ([char_at p (tstart (pprev (fst s1))), 0], path_parser_eat p PT_COLON s1)
     else ([0, 0], s1))"

definition path_parser_parse_path :: "u8 list \<Rightarrow> pstate \<Rightarrow> (pathroot \<times> pstate) option" where
  "path_parser_parse_path p s = (let (d, s1) = path_parser_parse_drive p s in do {
     (ns, s2) \<leftarrow> path_parser_parse_entries p s1;
     case ns of [] \<Rightarrow> None
     | n # rest \<Rightarrow> (let n' = (if ident n ! 0 = 0 \<and> rest = [] then n\<lparr>ident := 0x2F # replicate 10 0\<rparr> else n)
         in Some (\<lparr>drive = d, path = n' # rest\<rparr>, s2)) })"

definition path_parser_parse :: "pathparser \<Rightarrow> u8 list \<Rightarrow> (pathroot \<times> pstate) option" where
  "path_parser_parse self p = path_parser_parse_path p (path_parser_advance p (self, path_lexer_init))"

section \<open>Well-formed paths\<close>

datatype entry = Dir "u8 list" | File "u8 list" "u8 list"

definition name_ok :: "u8 list \<Rightarrow> bool" where
  "name_ok xs \<longleftrightarrow> xs \<noteq> [] \<and> list_all alpha xs"

text \<open>Directory names of up to 11 letters, file names of up to 8 and extensions of up to 3 letters that fit into the
  11 bytes of a node together with the dot and the terminator.\<close>

fun entry_ok :: "entry \<Rightarrow> bool" where
  "entry_ok (Dir n) \<longleftrightarrow> name_ok n \<and> length n \<le> 11"
| "entry_ok (File n e) \<longleftrightarrow> name_ok n \<and> name_ok e \<and> length n \<le> 8 \<and> length e \<le> 3 \<and> length n + length e \<le> 9"

fun entry_bytes :: "entry \<Rightarrow> u8 list" where
  "entry_bytes (Dir n) = n"
| "entry_bytes (File n e) = n @ 0x2E # e"

definition print_entries :: "entry list \<Rightarrow> u8 list" where
  "print_entries es = concat (map (\<lambda>e. 0x2F # entry_bytes e) es)"

definition print_path :: "u8 \<Rightarrow> entry list \<Rightarrow> u8 list" where
  "print_path d es = d # 0x3A # print_entries es"

definition ident_of :: "entry \<Rightarrow> u8 list" where
  "ident_of e = entry_bytes e @ replicate (11 - length (entry_bytes e)) 0"

section \<open>Lexing\<close>

definition tok :: "pathtype \<Rightarrow> nat \<Rightarrow> nat \<Rightarrow> pathtoken" where
  "tok ty a n = \<lparr>ptype = ty, tstart = a, tlen = n\<rparr>"

lemma tok_simps [simp]: "ptype (tok ty a n) = ty" "tstart (tok ty a n) = a" "tlen (tok ty a n) = n"
  by (simp_all add: tok_def)

text \<open>\<open>xs\<close> is what is left of the path at position \<open>pos\<close>.\<close>

definition left_at :: "u8 list \<Rightarrow> nat \<Rightarrow> u8 list \<Rightarrow> bool" where
  "left_at p pos xs \<longleftrightarrow> pos + length xs = length p \<and> drop pos p = xs"

lemma left_at_char: "left_at p pos xs \<Longrightarrow> char_at p (pos + i) = (if i < length xs then xs ! i else 0)"
  by (auto simp: left_at_def char_at_def)

lemma left_at_char0: "left_at p pos xs \<Longrightarrow> char_at p pos = (case xs of [] \<Rightarrow> 0 | x # _ \<Rightarrow> x)"
  using left_at_char [of p pos xs 0] by (auto split: list.splits)

lemma left_at_append: "left_at p pos (xs @ ys) \<Longrightarrow> left_at p (pos + length xs) ys"
proof -
  assume a: "left_at p pos (xs @ ys)"
  have "drop (pos + length xs) p = drop (length xs) (drop pos p)" by (simp add: add.commute)
  with a show ?thesis by (simp add: left_at_def)
qed

lemma left_at_Cons: "left_at p pos (x # ys) \<Longrightarrow> left_at p (pos + 1) ys"
  using left_at_append [of p pos "[x]" ys] by simp

lemma left_at_bytes: "left_at p pos (xs @ ys) \<Longrightarrow> path_bytes p pos (length xs) = xs"
  by (rule nth_equalityI) (auto simp: path_bytes_def left_at_char nth_append)

lemma not_alpha_sep [simp]: "\<not> alpha 0x2F" "\<not> alpha 0x3A" "\<not> alpha 0x2E"
  by (simp_all add: alpha_def isalpha_def)

lemma alpha_nonzero: "alpha c \<Longrightarrow> c \<noteq> 0 \<and> c \<noteq> 0x2F \<and> c \<noteq> 0x3A \<and> c \<noteq> 0x2E"
  by auto

lemma lex_end: "left_at p (lcurr l) [] \<Longrightarrow> path_lexer_lex p l = (tok PT_END (lcurr l) 0, l\<lparr>lstart := lcurr l\<rparr>)"
  using left_at_char0 [of p "lcurr l" "[]"]
  by (simp add: path_lexer_lex_def path_lexer_is_eof_def path_lexer_create_token_def tok_def)

lemma lex_single:
  assumes "left_at p (lcurr l) (c # xs)" "(c, ty) \<in> {(0x2F, PT_SLASH), (0x3A, PT_COLON), (0x2E, PT_DOT)}"
  shows "path_lexer_lex p l = (tok ty (lcurr l) 1, l\<lparr>lstart := lcurr l, lcurr := lcurr l + 1\<rparr>)"
  using assms left_at_char0 [OF assms(1)]
  by (auto simp: path_lexer_lex_def path_lexer_is_eof_def path_lexer_peek_def path_lexer_advance_def
      path_lexer_create_token_def tok_def)

lemma lex_letter:
  assumes "left_at p (lcurr l) (d # 0x3A # xs)" "alpha d"
  shows "path_lexer_lex p l = (tok PT_LETTER (lcurr l) 1, l\<lparr>lstart := lcurr l, lcurr := lcurr l + 1\<rparr>)"
  using assms left_at_char0 [OF assms(1)] left_at_char [OF assms(1), of 1] alpha_nonzero [OF assms(2)]
  by (auto simp: path_lexer_lex_def path_lexer_is_eof_def path_lexer_peek_def path_lexer_peek_next_def
      path_lexer_advance_def path_lexer_create_token_def tok_def)

lemma lex_identifier_loop_run:
  assumes "left_at p (lcurr l) (xs @ ys)" "list_all alpha xs" "case ys of [] \<Rightarrow> True | y # _ \<Rightarrow> \<not> alpha y"
  shows "lex_identifier_loop p l = l\<lparr>lcurr := lcurr l + length xs\<rparr>"
  using assms
proof (induction xs arbitrary: l)
  case Nil
  then have "\<not> alpha (path_lexer_peek p l)"
    using left_at_char0 [of p "lcurr l" ys] by (auto simp: path_lexer_peek_def split: list.splits)
  then show ?case by (subst lex_identifier_loop.simps) simp
next
  case (Cons x xs)
  let ?l = "snd (path_lexer_advance p l)"
  have "alpha (path_lexer_peek p l)"
    using left_at_char0 [OF Cons.prems(1)] Cons.prems(2) by (simp add: path_lexer_peek_def)
  then have "lex_identifier_loop p l = lex_identifier_loop p ?l" by (subst lex_identifier_loop.simps) simp
  also have "\<dots> = ?l\<lparr>lcurr := lcurr ?l + length xs\<rparr>"
    using Cons.prems left_at_Cons [of p "lcurr l" x "xs @ ys"]
    by (intro Cons.IH) (auto simp: path_lexer_advance_def)
  finally show ?case by (simp add: path_lexer_advance_def)
qed

lemma lex_name:
  assumes "left_at p (lcurr l) (n @ ys)" "name_ok n" "case ys of [] \<Rightarrow> True | y # _ \<Rightarrow> \<not> alpha y \<and> y \<noteq> 0x3A"
  shows "path_lexer_lex p l = (tok PT_IDENTIFIER (lcurr l) (length n), l\<lparr>lstart := lcurr l, lcurr := lcurr l + length n\<rparr>)"
proof -
  obtain c cs where n: "n = c # cs" "alpha c" "list_all alpha cs" using assms(2) by (cases n) (auto simp: name_ok_def)
  have c0: "char_at p (lcurr l) = c" using left_at_char0 [OF assms(1)] n(1) by simp
  have c1: "char_at p (lcurr l + 1) \<noteq> 0x3A"
    using left_at_char [OF assms(1), of 1] n assms(3) alpha_nonzero
    by (cases cs; cases ys) (auto split: if_splits)
  have "lex_identifier_loop p (l\<lparr>lstart := lcurr l, lcurr := lcurr l + 1\<rparr>)
      = l\<lparr>lstart := lcurr l, lcurr := lcurr l + 1 + length cs\<rparr>"
  proof (subst lex_identifier_loop_run [where xs = cs and ys = ys])
    show "left_at p (lcurr (l\<lparr>lstart := lcurr l, lcurr := lcurr l + 1\<rparr>)) (cs @ ys)"
      using left_at_Cons assms(1) n(1) by simp
    show "case ys of [] \<Rightarrow> True | y # _ \<Rightarrow> \<not> alpha y" using assms(3) by (auto split: list.splits)
  qed (use n in auto)
  with n c0 c1 alpha_nonzero [OF n(2)] show ?thesis
    by (simp add: path_lexer_lex_def path_lexer_is_eof_def path_lexer_peek_def path_lexer_peek_next_def
        path_lexer_advance_def path_lexer_lex_identifier_def path_lexer_create_token_def tok_def Let_def)
qed

lemma advance_lex:
  "path_lexer_lex p l = (t, l') \<Longrightarrow> ptype t \<noteq> PT_ERR \<Longrightarrow>
   path_parser_advance p (self, l) = (self\<lparr>pprev := pcurr self, pcurr := t\<rparr>, l')"
  by (simp add: path_parser_advance_def path_parser_skip.simps [of p "self\<lparr>pprev := pcurr self\<rparr>" l])

section \<open>Parsing a printed path\<close>

lemma print_entries_Cons: "print_entries (e # es) = 0x2F # entry_bytes e @ print_entries es"
  by (simp add: print_entries_def)

lemma print_entries_sep: "case print_entries es of [] \<Rightarrow> True | y # _ \<Rightarrow> y = 0x2F"
  by (cases es) (simp_all add: print_entries_def)

text \<open>The parser stands before the printed entries: its current token is the slash of the first or the end.\<close>

definition before :: "u8 list \<Rightarrow> nat \<Rightarrow> entry list \<Rightarrow> pstate \<Rightarrow> bool" where
  "before p pos es s \<longleftrightarrow> left_at p pos (print_entries es)
     \<and> pcurr (fst s) = (if es = [] then tok PT_END pos 0 else tok PT_SLASH pos 1)
     \<and> lcurr (snd s) = (if es = [] then pos else pos + 1)"

lemma lex_before:
  assumes "left_at p (lcurr l) (print_entries es)"
  shows "before p (lcurr l) es (path_parser_advance p (self, l))"
    "pprev (fst (path_parser_advance p (self, l))) = pcurr self"
    "has_error (fst (path_parser_advance p (self, l))) = has_error self"
proof -
  have "\<exists>t l'. path_lexer_lex p l = (t, l') \<and> t = (if es = [] then tok PT_END (lcurr l) 0 else tok PT_SLASH (lcurr l) 1)
      \<and> lcurr l' = (if es = [] then lcurr l else lcurr l + 1)"
  proof (cases es)
    case Nil
    then show ?thesis using lex_end [of p l] assms by (simp add: print_entries_def)
  next
    case (Cons e es')
    then show ?thesis using lex_single [of p l "0x2F" _ PT_SLASH] assms by (simp add: print_entries_Cons)
  qed
  then obtain t l' where t: "path_lexer_lex p l = (t, l')"
      "t = (if es = [] then tok PT_END (lcurr l) 0 else tok PT_SLASH (lcurr l) 1)"
      "lcurr l' = (if es = [] then lcurr l else lcurr l + 1)" by blast
  have "ptype t \<noteq> PT_ERR" using t(2) by simp
  note a = advance_lex [OF t(1) this, of self]
  show "before p (lcurr l) es (path_parser_advance p (self, l))"
    "pprev (fst (path_parser_advance p (self, l))) = pcurr self"
    "has_error (fst (path_parser_advance p (self, l))) = has_error self"
    using assms t(2,3) by (simp_all add: before_def a)
qed

lemma put_array_zeros:
  "length pre + length bs \<le> 11 \<Longrightarrow> put_array (pre @ replicate (11 - length pre) 0) (length pre) bs
     = Some (pre @ bs @ replicate (11 - length (pre @ bs)) 0)"
  by (simp add: put_array_def)

text \<open>An entry behind its slash: the current token is its first identifier.\<close>

lemma parse_entry_print:
  assumes "left_at p pos (entry_bytes e @ print_entries es)" "entry_ok e"
    and "pcurr self = tok PT_IDENTIFIER pos (length (case e of Dir n \<Rightarrow> n | File n x \<Rightarrow> n))"
    and "lcurr l = pos + length (case e of Dir n \<Rightarrow> n | File n x \<Rightarrow> n)"
  shows "\<exists>s'. path_parser_parse_entry p (self, l) \<lparr>ident = replicate 11 0\<rparr> = Some (\<lparr>ident = ident_of e\<rparr>, s')
    \<and> before p (pos + length (entry_bytes e)) es s' \<and> has_error (fst s') = has_error self"
proof (cases e)
  case (Dir n)
  then have left: "left_at p (lcurr l) (print_entries es)" using left_at_append [OF assms(1)] assms(4) by simp
  note b = lex_before [OF left, of self]
  let ?s1 = "path_parser_advance p (self, l)"
  have m: "path_parser_match p PT_IDENTIFIER (self, l) = (True, ?s1)"
    using assms(3) by (simp add: path_parser_match_def path_parser_check_def)
  have pb: "path_bytes p pos (length n) = n" using left_at_bytes assms(1) Dir by simp
  have d: "path_parser_parse_dir p ?s1 \<lparr>ident = replicate 11 0\<rparr> = Some \<lparr>ident = ident_of e\<rparr>"
    using put_array_zeros [of "[]" n] assms(2,3) Dir b(2) pb by (simp add: path_parser_parse_dir_def ident_of_def)
  have "\<not> path_parser_check (fst ?s1) PT_DOT" using b(1) by (simp add: path_parser_check_def before_def)
  with m d b Dir assms(4) show ?thesis
    by (intro exI [of _ ?s1]) (simp add: path_parser_parse_entry_def)
next
  case (File n x)
  have ln: "length n \<le> 8" "length x \<le> 3" "length n + length x \<le> 9" "name_ok x" using assms(2) File by auto
  have left: "left_at p (lcurr l) (0x2E # x @ print_entries es)"
    using left_at_append [of p pos n] assms(1,4) File by simp
  let ?l1 = "l\<lparr>lstart := lcurr l, lcurr := lcurr l + 1\<rparr>"
  let ?s1 = "(self\<lparr>pprev := pcurr self, pcurr := tok PT_DOT (lcurr l) 1\<rparr>, ?l1)"
  have a1: "path_parser_advance p (self, l) = ?s1"
    using lex_single [OF left, of PT_DOT] by (intro advance_lex) auto
  have m: "path_parser_match p PT_IDENTIFIER (self, l) = (True, ?s1)"
    using assms(3) by (simp add: path_parser_match_def path_parser_check_def a1)
  have left1: "left_at p (lcurr ?l1) (x @ print_entries es)" using left_at_Cons [OF left] by simp
  have sep: "case print_entries es of [] \<Rightarrow> True | y # _ \<Rightarrow> \<not> alpha y \<and> y \<noteq> 0x3A"
    using print_entries_sep [of es] by (auto split: list.splits)
  let ?l2 = "?l1\<lparr>lstart := lcurr ?l1, lcurr := lcurr ?l1 + length x\<rparr>"
  let ?p2 = "(fst ?s1)\<lparr>pprev := pcurr (fst ?s1), pcurr := tok PT_IDENTIFIER (lcurr l + 1) (length x)\<rparr>"
  have a2: "path_parser_advance p ?s1 = (?p2, ?l2)"
    using advance_lex [OF lex_name [OF left1 ln(4) sep], of "fst ?s1"] by simp
  have left2: "left_at p (lcurr ?l2) (print_entries es)" using left_at_append [OF left1] by simp
  note b = lex_before [OF left2, of ?p2]
  let ?s3 = "path_parser_advance p (?p2, ?l2)"
  have e1: "path_parser_eat p PT_DOT ?s1 = (?p2, ?l2)" "path_parser_eat p PT_IDENTIFIER (?p2, ?l2) = ?s3"
    using a2 by (simp_all add: path_parser_eat_def path_parser_check_def)
  have pb: "path_bytes p pos (length n) = n" using left_at_bytes [of p pos n] assms(1) File by simp
  have px: "path_bytes p (lcurr l + 1) (length x + 1) = x @ [char_at p (lcurr l + 1 + length x)]"
    using left_at_bytes [of p "lcurr l + 1" x] left1 by (simp add: path_bytes_def)
  have d: "path_parser_parse_dir p ?s1 \<lparr>ident = replicate 11 0\<rparr> = Some \<lparr>ident = n @ replicate (11 - length n) 0\<rparr>"
    using put_array_zeros [of "[]" n] ln assms(3) File pb by (simp add: path_parser_parse_dir_def)
  have f1: "put_array (n @ replicate (11 - length n) 0) 0 n = Some (n @ replicate (11 - length n) 0)"
    by (simp add: put_array_def)
  have f2: "put_array (n @ replicate (11 - length n) 0) (length n) [0x2E]
      = Some ((n @ [0x2E]) @ replicate (11 - length (n @ [0x2E])) 0)"
    using put_array_zeros [of n "[0x2E]"] ln by simp
  have f3: "put_array ((n @ [0x2E]) @ replicate (11 - length (n @ [0x2E])) 0) (length n + 1) (x @ [c])
      = Some (((n @ [0x2E]) @ x @ [c]) @ replicate (11 - length ((n @ [0x2E]) @ x @ [c])) 0)" for c
    using put_array_zeros [of "n @ [0x2E]" "x @ [c]"] ln by simp
  have f4: "put_array (((n @ [0x2E]) @ x @ [c]) @ replicate (11 - length ((n @ [0x2E]) @ x @ [c])) 0)
      (length n + 1 + length x) [0] = Some (ident_of e)" for c
  proof -
    have "10 - (length n + length x) = Suc (9 - (length n + length x))" using ln by simp
    then have "replicate (10 - (length n + length x)) 0 = 0 # replicate (9 - (length n + length x)) (0 :: u8)"
      by (simp only: replicate.simps)
    then show ?thesis using ln File by (simp add: put_array_def ident_of_def)
  qed
  have nl: "(if length n < 8 then length n else 8) = length n" "(if length x < 3 then length x else 3) = length x"
    using ln by auto
  have pf: "path_parser_parse_filename p ?s1 \<lparr>ident = n @ replicate (11 - length n) 0\<rparr> = Some (\<lparr>ident = ident_of e\<rparr>, ?s3)"
  proof -
    have v: "pprev (fst ?s1) = tok PT_IDENTIFIER pos (length n)" using assms(3) File by simp
    have w: "pprev (fst ?s3) = tok PT_IDENTIFIER (lcurr l + 1) (length x)" using b(2) by simp
    show ?thesis
      unfolding path_parser_parse_filename_def Let_def v e1 w tok_simps nl pb px
      by (simp only: pathnode.select_convs pathnode.update_convs bind.simps f1 f2 f3 f4)
  qed
  have "path_parser_check (fst ?s1) PT_DOT" by (simp add: path_parser_check_def)
  with m d pf have "path_parser_parse_entry p (self, l) \<lparr>ident = replicate 11 0\<rparr> = Some (\<lparr>ident = ident_of e\<rparr>, ?s3)"
    by (simp add: path_parser_parse_entry_def del: replicate.simps)
  moreover have "lcurr ?l2 = pos + length (entry_bytes e)" using assms(4) File by simp
  ultimately show ?thesis using b by (intro exI [of _ ?s3]) simp
qed

text \<open>Behind the slash of an entry with a name \<open>n\<close>.\<close>

lemma match_slash:
  assumes "before p pos (e # es) s" "entry_bytes e = n @ ys" "name_ok n"
    and "case ys @ print_entries es of [] \<Rightarrow> True | y # _ \<Rightarrow> \<not> alpha y \<and> y \<noteq> 0x3A"
  shows "\<exists>self l. path_parser_match p PT_SLASH s = (True, (self, l)) \<and> pcurr self = tok PT_IDENTIFIER (pos + 1) (length n)
    \<and> lcurr l = pos + 1 + length n \<and> has_error self = has_error (fst s) \<and> left_at p (pos + 1) (entry_bytes e @ print_entries es)"
proof -
  obtain self0 l0 where s: "s = (self0, l0)" by (cases s)
  have left: "left_at p (lcurr l0) (n @ ys @ print_entries es)"
    using assms(1,2) left_at_Cons [of p pos "0x2F"] by (simp add: before_def s print_entries_Cons)
  from advance_lex [OF lex_name [OF left assms(3,4)], of self0]
  have "path_parser_advance p (self0, l0) = (self0\<lparr>pprev := pcurr self0, pcurr := tok PT_IDENTIFIER (lcurr l0) (length n)\<rparr>,
      l0\<lparr>lstart := lcurr l0, lcurr := lcurr l0 + length n\<rparr>)" by simp
  then show ?thesis
    using assms(1,2) left by (simp add: path_parser_match_def path_parser_check_def before_def s)
qed

lemma parse_entries_print:
  assumes "before p pos es s" "list_all entry_ok es"
  shows "\<exists>s'. path_parser_parse_entries p s = Some (map (\<lambda>e. \<lparr>ident = ident_of e\<rparr>) es, s') \<and> has_error (fst s') = has_error (fst s)"
  using assms
proof (induction es arbitrary: pos s)
  case Nil
  then have "path_parser_match p PT_SLASH s = (False, s)"
    by (simp add: path_parser_match_def path_parser_check_def before_def)
  then show ?case by (subst path_parser_parse_entries.simps) simp
next
  case (Cons e es)
  define n where "n = (case e of Dir n \<Rightarrow> n | File n x \<Rightarrow> n)"
  obtain ys where ys: "entry_bytes e = n @ ys" "case ys of [] \<Rightarrow> True | y # _ \<Rightarrow> y = 0x2E" "name_ok n"
    using Cons.prems(2) by (cases e) (auto simp: n_def)
  have "case ys @ print_entries es of [] \<Rightarrow> True | y # _ \<Rightarrow> \<not> alpha y \<and> y \<noteq> 0x3A"
    using ys(2) print_entries_sep [of es] by (auto split: list.splits)
  then obtain self l where m: "path_parser_match p PT_SLASH s = (True, (self, l))"
      "pcurr self = tok PT_IDENTIFIER (pos + 1) (length n)" "lcurr l = pos + 1 + length n"
      "has_error self = has_error (fst s)" "left_at p (pos + 1) (entry_bytes e @ print_entries es)"
    using match_slash [OF Cons.prems(1) ys(1,3)] by blast
  obtain s2 where s2: "path_parser_parse_entry p (self, l) \<lparr>ident = replicate 11 0\<rparr> = Some (\<lparr>ident = ident_of e\<rparr>, s2)"
      "before p (pos + 1 + length (entry_bytes e)) es s2" "has_error (fst s2) = has_error self"
    using parse_entry_print [OF m(5), of self l] Cons.prems(2) m(2,3) by (auto simp: n_def)
  obtain s3 where "path_parser_parse_entries p s2 = Some (map (\<lambda>e. \<lparr>ident = ident_of e\<rparr>) es, s3)"
      "has_error (fst s3) = has_error (fst s2)"
    using Cons.IH [OF s2(2)] Cons.prems(2) by auto
  with m(1,4) s2(1,3) show ?case by (subst path_parser_parse_entries.simps) (simp del: replicate.simps)
qed

text \<open>The drive letter and the colon.\<close>

lemma parse_drive_print:
  assumes "alpha d"
  shows "\<exists>s. path_parser_parse_drive (print_path d es) (path_parser_advance (print_path d es) (self, path_lexer_init))
      = ([d, 0], s) \<and> before (print_path d es) 2 es s \<and> has_error (fst s) = has_error self"
proof -
  let ?p = "print_path d es"
  let ?l0 = path_lexer_init
  have l0: "left_at ?p (lcurr ?l0) (d # 0x3A # print_entries es)"
    by (simp add: left_at_def path_lexer_init_def print_path_def)
  let ?s1 = "self\<lparr>pprev := pcurr self, pcurr := tok PT_LETTER 0 1\<rparr>"
  let ?l1 = "\<lparr>lstart = 0, lcurr = 1\<rparr>"
  have a0: "path_parser_advance ?p (self, ?l0) = (?s1, ?l1)"
    using advance_lex [OF lex_letter [OF l0 assms], of self] by (simp add: path_lexer_init_def)
  have l1: "left_at ?p (lcurr ?l1) (0x3A # print_entries es)" by (simp add: left_at_def print_path_def)
  let ?s2 = "?s1\<lparr>pprev := pcurr ?s1, pcurr := tok PT_COLON 1 1\<rparr>"
  let ?l2 = "\<lparr>lstart = 1, lcurr = 2\<rparr>"
  have a1: "path_parser_advance ?p (?s1, ?l1) = (?s2, ?l2)"
    using advance_lex [OF lex_single [OF l1, of PT_COLON], of ?s1] by simp
  have l2: "left_at ?p (lcurr ?l2) (print_entries es)" by (simp add: left_at_def print_path_def)
  note b = lex_before [OF l2, of ?s2]
  have "path_parser_parse_drive ?p (?s1, ?l1) = ([d, 0], path_parser_advance ?p (?s2, ?l2))"
  proof -
    have "char_at ?p 0 = d" by (simp add: char_at_def print_path_def)
    then show ?thesis
      using a1 by (simp add: path_parser_parse_drive_def path_parser_match_def path_parser_check_def path_parser_eat_def)
  qed
  with b a0 show ?thesis by simp
qed

section \<open>Properties\<close>

text \<open>C10: parsing inverts printing. For every drive letter and every non-empty list of well-formed entries, the parser
  accepts the printed path without reporting an error and returns the drive and one node per entry, in order, whose
  11 bytes are the entry padded with zeros.\<close>

theorem path_parse_print:
  assumes "alpha d" "es \<noteq> []" "list_all entry_ok es"
  shows "\<exists>s. path_parser_parse self (print_path d es)
      = Some (\<lparr>drive = [d, 0], path = map (\<lambda>e. \<lparr>ident = ident_of e\<rparr>) es\<rparr>, s) \<and> has_error (fst s) = has_error self"
proof -
  let ?p = "print_path d es"
  obtain s1 where s1: "path_parser_parse_drive ?p (path_parser_advance ?p (self, path_lexer_init)) = ([d, 0], s1)"
      "before ?p 2 es s1" "has_error (fst s1) = has_error self"
    using parse_drive_print [OF assms(1)] by blast
  obtain s2 where s2: "path_parser_parse_entries ?p s1 = Some (map (\<lambda>e. \<lparr>ident = ident_of e\<rparr>) es, s2)"
      "has_error (fst s2) = has_error (fst s1)"
    using parse_entries_print [OF s1(2) assms(3)] by blast
  obtain e es' where es: "es = e # es'" using assms(2) by (cases es) auto
  have "entry_bytes e \<noteq> [] \<and> entry_bytes e ! 0 \<noteq> 0"
    using assms(3) es alpha_nonzero by (cases e; cases "entry_bytes e") (auto simp: name_ok_def neq_Nil_conv)
  then have "ident_of e ! 0 \<noteq> 0" by (simp add: ident_of_def nth_append)
  with s1 s2 es show ?thesis by (simp add: path_parser_parse_def path_parser_parse_path_def)
qed

theorem path_parse_print_witness:
  "\<exists>s. path_parser_parse \<lparr>pcurr = tok PT_END 0 0, pprev = tok PT_END 0 0, has_error = False\<rparr>
      (print_path 0x41 [Dir [0x42], File [0x43] [0x44]])
    = Some (\<lparr>drive = [0x41, 0], path = [\<lparr>ident = ident_of (Dir [0x42])\<rparr>, \<lparr>ident = ident_of (File [0x43] [0x44])\<rparr>]\<rparr>, s)
    \<and> \<not> has_error (fst s)"
  using path_parse_print [of "0x41" "[Dir [0x42], File [0x43] [0x44]]"
      "\<lparr>pcurr = tok PT_END 0 0, pprev = tok PT_END 0 0, has_error = False\<rparr>"]
  by (simp add: name_ok_def alpha_def isalpha_def)

text \<open>two inputs the parser does not survive. A path without a slash has no node, and the parser reads the first one
  through a null pointer; a directory name of more than 11 letters is copied beyond the identifier of its node.\<close>

theorem path_parse_undefined:
  assumes "alpha d" "name_ok n" "11 < length n"
  shows "path_parser_parse self [d, 0x3A] = None \<and> path_parser_parse self (print_path d (Dir n # es)) = None"
proof
  obtain s1 where s1: "path_parser_parse_drive (print_path d []) (path_parser_advance (print_path d []) (self, path_lexer_init))
      = ([d, 0], s1)" "before (print_path d []) 2 [] s1"
    using parse_drive_print [OF assms(1)] by blast
  have "path_parser_parse self (print_path d []) = None"
    using s1 parse_entries_print [OF s1(2)] by (auto simp: path_parser_parse_def path_parser_parse_path_def)
  then show "path_parser_parse self [d, 0x3A] = None" by (simp add: print_path_def print_entries_def)
next
  let ?p = "print_path d (Dir n # es)"
  obtain s1 where s1: "path_parser_parse_drive ?p (path_parser_advance ?p (self, path_lexer_init)) = ([d, 0], s1)"
      "before ?p 2 (Dir n # es) s1"
    using parse_drive_print [OF assms(1)] by blast
  have sep: "case [] @ print_entries es of [] \<Rightarrow> True | y # _ \<Rightarrow> \<not> alpha y \<and> y \<noteq> 0x3A"
    using print_entries_sep [of es] by (auto split: list.splits)
  obtain self' l where m: "path_parser_match ?p PT_SLASH s1 = (True, (self', l))"
      "pcurr self' = tok PT_IDENTIFIER 3 (length n)" "lcurr l = 3 + length n" "left_at ?p 3 (n @ print_entries es)"
    using match_slash [OF s1(2) _ assms(2) sep] by auto
  have left: "left_at ?p (lcurr l) (print_entries es)" using left_at_append [OF m(4)] m(3) by simp
  have pv: "pprev (fst (path_parser_advance ?p (self', l))) = tok PT_IDENTIFIER 3 (length n)"
    using lex_before(2) [OF left] m(2) by simp
  have "path_parser_parse_dir ?p (path_parser_advance ?p (self', l)) \<lparr>ident = replicate 11 0\<rparr> = None"
    using assms(3) by (simp add: path_parser_parse_dir_def pv put_array_def path_bytes_def)
  then have "path_parser_parse_entry ?p (self', l) \<lparr>ident = replicate 11 0\<rparr> = None"
    using m(2) by (simp add: path_parser_parse_entry_def path_parser_match_def path_parser_check_def del: replicate.simps)
  then have "path_parser_parse_entries ?p s1 = None"
    using m(1) by (subst path_parser_parse_entries.simps) (simp del: replicate.simps)
  then show "path_parser_parse self ?p = None" using s1(1) by (simp add: path_parser_parse_def path_parser_parse_path_def)
qed

theorem path_parse_undefined_witness:
  "path_parser_parse \<lparr>pcurr = tok PT_END 0 0, pprev = tok PT_END 0 0, has_error = False\<rparr>
     (print_path 0x41 [Dir (replicate 12 0x42)]) = None"
  using path_parse_undefined [of "0x41" "replicate 12 0x42"] by (simp add: name_ok_def alpha_def isalpha_def list_all_iff)

end
