(* ===== verification/Fat16_Codec.thy ===== *)
theory Fat16_Codec
  imports Path Port_Io
begin

text \<open>
  The pure part of \<open>driver/fat16/fat16.c\<close> and \<open>fat16.h\<close>: the boot sector and directory entry structures with the bytes
  they occupy on disk, 8.3 file names, packed dates and times, the arithmetic of the volume layout and the check of the
  boot sector.
\<close>

unbundle bit_operations_syntax

section \<open>Structures\<close>

record bpb =
  jmp :: "u8 list"
  oem :: "u8 list"
  byts_per_sec :: u16
  sec_per_clus :: u8
  rsvd_sec :: u16
  num_fats :: u8
  root_ent_cnt :: u16
  tot_sec_16 :: u16
  media :: u8
  fatsz16 :: u16
  sec_per_trk :: u16
  num_heads :: u16
  hidd_sec :: u32
  tot_sec_32 :: u32

record ebpb =
  drv_num :: u8
  reserved1 :: u8
  boot_sig :: u8
  vol_id :: u32
  vol_lab :: "u8 list"
  fil_sys_type :: "u8 list"

record fat16_internal_header =
  hbpb :: bpb
  hebpb :: ebpb

record fat16_dir_entry =
  file_name :: "u8 list"
  attributes :: u8
  ereserved :: u8
  creation_time_ms :: u8
  create_time :: u16
  create_date :: u16
  last_access_date :: u16
  high_cluster :: u16
  modification_time :: u16
  modification_date :: u16
  low_cluster :: u16
  file_size :: u32

record fat16_time =
  hour :: int
  minute :: int
  second :: int

record fat16_date =
  day :: int
  month :: int
  year :: int

text \<open>The structures are packed, so reading one from the disk is decoding its bytes in order.\<close>

definition get16 :: "u8 list \<Rightarrow> nat \<Rightarrow> u16" where
  "get16 bs i = word16 (bs ! i) (bs ! (i + 1))"

definition get32 :: "u8 list \<Rightarrow> nat \<Rightarrow> u32" where
  "get32 bs i = word32 (bs ! i) (bs ! (i + 1)) (bs ! (i + 2)) (bs ! (i + 3))"

definition header_of_bytes :: "u8 list \<Rightarrow> fat16_internal_header" where
  "header_of_bytes bs = \<lparr>hbpb = \<lparr>jmp = take 3 bs, oem = take 8 (drop 3 bs), byts_per_sec = get16 bs 11,
       sec_per_clus = bs ! 13, rsvd_sec = get16 bs 14, num_fats = bs ! 16, root_ent_cnt = get16 bs 17,
       tot_sec_16 = get16 bs 19, media = bs ! 21, fatsz16 = get16 bs 22, sec_per_trk = get16 bs 24,
       num_heads = get16 bs 26, hidd_sec = get32 bs 28, tot_sec_32 = get32 bs 32\<rparr>,
     hebpb = \<lparr>drv_num = bs ! 36, reserved1 = bs ! 37, boot_sig = bs ! 38, vol_id = get32 bs 39,
       vol_lab = take 11 (drop 43 bs), fil_sys_type = take 8 (drop 54 bs)\<rparr>\<rparr>"

definition sizeof_header :: nat where [konst]: "sizeof_header = 62"

definition sizeof_dir_entry :: nat where [konst]: "sizeof_dir_entry = 32"

definition entry_of_bytes :: "u8 list \<Rightarrow> fat16_dir_entry" where
  "entry_of_bytes bs = \<lparr>file_name = take 11 bs, attributes = bs ! 11, ereserved = bs ! 12, creation_time_ms = bs ! 13,
     create_time = get16 bs 14, create_date = get16 bs 16, last_access_date = get16 bs 18, high_cluster = get16 bs 20,
     modification_time = get16 bs 22, modification_date = get16 bs 24, low_cluster = get16 bs 26, file_size = get32 bs 28\<rparr>"

definition bytes_of_entry :: "fat16_dir_entry \<Rightarrow> u8 list" where
  "bytes_of_entry e = file_name e @ [attributes e, ereserved e, creation_time_ms e] @ le16 (create_time e)
     @ le16 (create_date e) @ le16 (last_access_date e) @ le16 (high_cluster e) @ le16 (modification_time e)
     @ le16 (modification_date e) @ le16 (low_cluster e) @ le32 (file_size e)"

lemma length_bytes_of_entry: "length (file_name e) = 11 \<Longrightarrow> length (bytes_of_entry e) = 32"
  by (simp add: bytes_of_entry_def)

lemma entry_round_trip:
  assumes "length (file_name e) = 11"
  shows "entry_of_bytes (bytes_of_entry e) = e"
proof -
  have "file_name e = map ((!) (file_name e)) [0..<11]" using map_nth_upto [of 11 "file_name e"] assms by simp
  then obtain a0 a1 a2 a3 a4 a5 a6 a7 a8 a9 a10 where f: "file_name e = [a0, a1, a2, a3, a4, a5, a6, a7, a8, a9, a10]"
    by (simp add: upt_rec)
  show ?thesis
    by (rule fat16_dir_entry.equality)
      (simp_all add: entry_of_bytes_def bytes_of_entry_def f le16_def le32_def get16_def get32_def)
qed

section \<open>Constants\<close>

definition FAT16_VALUE_FREE :: u16 where [konst]: "FAT16_VALUE_FREE = 0"
definition FAT16_VALUE_BAD_CLUSTER :: u16 where [konst]: "FAT16_VALUE_BAD_CLUSTER = 0xFFF7"
definition FAT16_VALUE_END_OF_CHAIN :: u16 where [konst]: "FAT16_VALUE_END_OF_CHAIN = 0xFFF8"
definition FAT16_MIN_CLUSTERS :: nat where [konst]: "FAT16_MIN_CLUSTERS = 4085"
definition FAT16_MAX_CLUSTERS :: nat where [konst]: "FAT16_MAX_CLUSTERS = 65525"
definition FREE :: u8 where [konst]: "FREE = 0"
definition DELETED :: u8 where [konst]: "DELETED = 0xE5"
definition DIRECTORY :: u8 where [konst]: "DIRECTORY = 0x10"
definition ARCHIVE :: u8 where [konst]: "ARCHIVE = 0x20"
definition LFN :: u8 where [konst]: "LFN = 0x0F"

section \<open>File names\<close>

text \<open>
  A path identifier and a result name are the bytes before their terminator. The first loop copies up to eight
  characters and the second, if a dot follows, up to three more.
\<close>

definition native_base :: "u8 list \<Rightarrow> u8 list" where
  "native_base u = takeWhile (\<lambda>c. c \<noteq> 0x2E) (take 8 u)"

definition native_ext :: "u8 list \<Rightarrow> u8 list" where
  "native_ext u = (let i = length (native_base u) in if char_at u i = 0x2E then take 3 (drop (i + 1) u) else [])"

definition pad :: "nat \<Rightarrow> u8 list \<Rightarrow> u8 list" where
  "pad n xs = xs @ replicate (n - length xs) 0x20"

definition fat16_get_native_filename_from_userland :: "u8 list \<Rightarrow> u8 list" where
  "fat16_get_native_filename_from_userland u = pad 8 (native_base u) @ pad 3 (native_ext u)"

definition fat16_get_userland_filename_from_native :: "u8 list \<Rightarrow> u8 list" where
  "fat16_get_userland_filename_from_native n = takeWhile (\<lambda>c. c \<noteq> 0x20) (take 8 n)
     @ (if n ! 8 \<noteq> 0x20 then 0x2E # takeWhile (\<lambda>c. c \<noteq> 0x20) (take 3 (drop 8 n)) else [])"

section \<open>Dates and times\<close>

definition fat16_get_unpacked_time :: "u16 \<Rightarrow> fat16_time" where
  "fat16_get_unpacked_time t = \<lparr>hour = uint (drop_bit 11 t AND 0x1F), minute = uint (drop_bit 5 t AND 0x3F),
     second = uint (t AND 0x1F) * 2\<rparr>"

definition fat16_get_unpacked_date :: "u16 \<Rightarrow> fat16_date" where
  "fat16_get_unpacked_date d = (let original_year = drop_bit 9 d AND 0x7F in
     \<lparr>day = uint (d AND 0x1F), month = uint (drop_bit 5 d AND 0x0F),
      year = (if original_year = 0 then 0 else uint original_year + 1980)\<rparr>)"

definition fat16_get_packed_date :: "fat16_date \<Rightarrow> u16" where
  "fat16_get_packed_date d = of_int (push_bit 9 ((year d - 1980) AND 0x7F)) OR of_int (push_bit 5 (month d AND 0x0F))
     OR of_int (day d AND 0x1F)"

text \<open>C divides towards zero.\<close>

definition cdiv2 :: "int \<Rightarrow> int" where
  "cdiv2 x = (if x < 0 then - ((- x) div 2) else x div 2)"

definition fat16_get_packed_time :: "fat16_time \<Rightarrow> u16" where
  "fat16_get_packed_time t = of_int (push_bit 11 (hour t AND 0x1F) OR push_bit 5 (minute t AND 0x3F) OR (cdiv2 (second t) AND 0x1F))"

section \<open>Volume layout\<close>

text \<open>
  The products are computed in 32 bits. The divisions by \<open>byts_per_sec\<close> are reached only after the boot sector has been
  accepted, when it is 512.
\<close>

definition PARTITION_OFFSET :: u32 where [konst]: "PARTITION_OFFSET = 0x100000"

definition fat16_get_root_dir_offset :: "bpb \<Rightarrow> u32" where
  "fat16_get_root_dir_offset p = ucast (byts_per_sec p) * (ucast (rsvd_sec p) + ucast (num_fats p) * ucast (fatsz16 p))"

definition fat16_get_root_dir_absolute :: "bpb \<Rightarrow> u32 \<Rightarrow> u32" where
  "fat16_get_root_dir_absolute p partition_offset = partition_offset + fat16_get_root_dir_offset p"

definition fat16_get_fat_table_offset :: "bpb \<Rightarrow> u32" where
  "fat16_get_fat_table_offset p = ucast (rsvd_sec p) * ucast (byts_per_sec p)"

definition fat16_get_fat_table_absolute :: "bpb \<Rightarrow> u32 \<Rightarrow> u32" where
  "fat16_get_fat_table_absolute p partition_offset = partition_offset + fat16_get_fat_table_offset p"

definition fat16_get_combined_cluster :: "u16 \<Rightarrow> u16 \<Rightarrow> u32" where
  "fat16_get_combined_cluster high low = push_bit 16 (ucast high) OR ucast low"

definition root_dir_sectors :: "bpb \<Rightarrow> u32" where
  "root_dir_sectors p = (ucast (root_ent_cnt p) * 32 + ucast (byts_per_sec p) - 1) div ucast (byts_per_sec p)"

definition first_data_sector :: "bpb \<Rightarrow> u32" where
  "first_data_sector p = ucast (rsvd_sec p) + ucast (num_fats p) * ucast (fatsz16 p) + root_dir_sectors p"

definition fat16_get_sector_from_cluster :: "bpb \<Rightarrow> u32 \<Rightarrow> u32" where
  "fat16_get_sector_from_cluster p cluster = first_data_sector p + (cluster - 2) * ucast (sec_per_clus p)"

text \<open>The cluster size is kept in a 16-bit variable.\<close>

definition max_cluster_size_bytes :: "bpb \<Rightarrow> u16" where
  "max_cluster_size_bytes p = ucast (sec_per_clus p) * byts_per_sec p"

definition is_valid_fat16_header :: "fat16_internal_header \<Rightarrow> bool" where
  "is_valid_fat16_header h =
     (let p = hbpb h; e = hebpb h;
          has_signature = (jmp p ! 0 = 0xEB \<and> jmp p ! 2 = 0x90);
          has_header = (has_signature \<and> byts_per_sec p = 512 \<and> sec_per_clus p \<ge> 1 \<and> num_fats p = 2 \<and> media p \<noteq> 0)
      in if \<not> has_header then False
         else if boot_sig e = 0x29 \<and> drv_num e = 0x80
         then (let total_sectors = (if tot_sec_32 p \<noteq> 0 then tot_sec_32 p else ucast (tot_sec_16 p));
                   disk_size = total_sectors * ucast (byts_per_sec p)
               in \<not> (disk_size = 0 \<or> total_sectors = 0))
         else True)"

section \<open>File names: properties\<close>

definition name_char :: "u8 \<Rightarrow> bool" where
  "name_char c \<longleftrightarrow> c \<noteq> 0 \<and> c \<noteq> 0x20 \<and> c \<noteq> 0x2E"

definition valid_83 :: "u8 list \<Rightarrow> u8 list \<Rightarrow> bool" where
  "valid_83 base ext \<longleftrightarrow> base \<noteq> [] \<and> length base \<le> 8 \<and> length ext \<le> 3 \<and> list_all name_char base \<and> list_all name_char ext"

definition print_83 :: "u8 list \<Rightarrow> u8 list \<Rightarrow> u8 list" where
  "print_83 base ext = base @ (if ext = [] then [] else 0x2E # ext)"

lemma length_pad [simp]: "length xs \<le> n \<Longrightarrow> length (pad n xs) = n"
  by (simp add: pad_def)

lemma takeWhile_pad: "list_all name_char xs \<Longrightarrow> takeWhile (\<lambda>c. c \<noteq> 0x20) (pad n xs) = xs"
proof -
  assume a: "list_all name_char xs"
  have "takeWhile (\<lambda>c. c \<noteq> 0x20) (xs @ replicate k 0x20) = xs" for k :: nat
    using a by (cases k) (auto simp: list_all_iff name_char_def takeWhile_append)
  then show ?thesis by (simp add: pad_def)
qed

lemma native_parts:
  assumes "valid_83 base ext"
  shows "native_base (print_83 base ext) = base" "native_ext (print_83 base ext) = ext"
proof -
  have nd: "\<forall>c \<in> set base. c \<noteq> 0x2E" using assms by (auto simp: valid_83_def list_all_iff name_char_def)
  show b: "native_base (print_83 base ext) = base"
  proof (cases "length base = 8 \<or> ext = []")
    case True
    then have "take 8 (print_83 base ext) = base" using assms by (auto simp: print_83_def valid_83_def)
    then show ?thesis using nd by (simp add: native_base_def takeWhile_eq_all_conv)
  next
    case False
    then obtain k where "8 - length base = Suc k" using assms by (cases "8 - length base") (auto simp: valid_83_def)
    then have "take 8 (print_83 base ext) = base @ 0x2E # take k ext"
      using False assms by (auto simp: print_83_def valid_83_def)
    then show ?thesis using nd by (simp add: native_base_def takeWhile_append)
  qed
  show "native_ext (print_83 base ext) = ext"
    using assms unfolding native_ext_def b Let_def
    by (auto simp: print_83_def char_at_def nth_append valid_83_def)
qed

lemma native_length: "length (fat16_get_native_filename_from_userland u) = 11"
proof -
  have "length (native_base u) \<le> 8"
    unfolding native_base_def using length_takeWhile_le [of "\<lambda>c. c \<noteq> 0x2E" "take 8 u"] by auto
  then show ?thesis by (simp add: fat16_get_native_filename_from_userland_def native_ext_def Let_def)
qed

text \<open>8.3 file names survive the translation: for every base of one to eight characters and every extension of at most
  three, without spaces, dots and zeros, the native form is 11 bytes and translates back to the name written with a dot. So
  distinct names have distinct directory entries.\<close>

theorem filename_round_trip:
  assumes "valid_83 base ext"
  shows "length (fat16_get_native_filename_from_userland (print_83 base ext)) = 11
    \<and> fat16_get_userland_filename_from_native (fat16_get_native_filename_from_userland (print_83 base ext)) = print_83 base ext"
proof -
  have v: "length base \<le> 8" "length ext \<le> 3" "list_all name_char base" "list_all name_char ext"
    using assms by (auto simp: valid_83_def)
  let ?n = "pad 8 base @ pad 3 ext"
  have "take 8 ?n = pad 8 base" "take 3 (drop 8 ?n) = pad 3 ext" using v by simp_all
  moreover have "?n ! 8 \<noteq> 0x20 \<longleftrightarrow> ext \<noteq> []"
  proof -
    have "?n ! 8 = pad 3 ext ! 0" using v by (simp add: nth_append)
    then show ?thesis using v(4) by (cases ext) (auto simp: pad_def name_char_def)
  qed
  ultimately show ?thesis
    using native_length v unfolding fat16_get_userland_filename_from_native_def
    by (simp add: fat16_get_native_filename_from_userland_def native_parts [OF assms] takeWhile_pad)
      (simp add: print_83_def)
qed

theorem filename_round_trip_witness:
  "valid_83 [0x41, 0x42] [0x43] \<and> fat16_get_userland_filename_from_native (fat16_get_native_filename_from_userland
     [0x41, 0x42, 0x2E, 0x43]) = [0x41, 0x42, 0x2E, 0x43]"
  using filename_round_trip [of "[0x41, 0x42]" "[0x43]"] by (simp add: valid_83_def name_char_def print_83_def)

section \<open>Dates and times: properties\<close>

lemma mask_lits:
  "(0x1F :: int) = mask 5" "(0x3F :: int) = mask 6" "(0x0F :: int) = mask 4" "(0x7F :: int) = mask 7"
  "(0x1F :: u16) = mask 5" "(0x3F :: u16) = mask 6" "(0x0F :: u16) = mask 4" "(0x7F :: u16) = mask 7"
  by (simp_all add: mask_eq_exp_minus_1)

lemma uint_field: "uint (drop_bit k (w :: u16) AND mask n) = take_bit n (drop_bit k (uint w))"
proof -
  have "drop_bit k w AND mask n = take_bit n (drop_bit k w)" by (simp only: take_bit_eq_mask)
  moreover have "take_bit 16 (uint w) = uint w" using uint_bounded [of w] by (simp add: take_bit_int_eq_self_iff)
  ultimately show ?thesis by (simp only: unsigned_take_bit_eq unsigned_drop_bit_eq) simp
qed

lemma packed_time_fields:
  "uint (fat16_get_packed_time t) = push_bit 11 (take_bit 5 (hour t)) OR push_bit 5 (take_bit 6 (minute t)) OR take_bit 5 (cdiv2 (second t))"
  unfolding fat16_get_packed_time_def mask_lits take_bit_eq_mask [symmetric]
  by (simp add: uint_word_of_int_eq, rule bit_eqI) (auto simp: bit_simps)

lemma packed_date_fields:
  "uint (fat16_get_packed_date d) = push_bit 9 (take_bit 7 (year d - 1980)) OR push_bit 5 (take_bit 4 (month d)) OR take_bit 5 (day d)"
  unfolding fat16_get_packed_date_def mask_lits take_bit_eq_mask [symmetric]
  by (simp add: uint_word_of_int_eq unsigned_or_eq, rule bit_eqI) (auto simp: bit_simps)

lemma take_fields:
  "take_bit 5 (drop_bit 0 (push_bit 11 (take_bit 5 h) OR push_bit 5 (take_bit 6 m) OR take_bit 5 (s :: int))) = take_bit 5 s"
  "take_bit 6 (drop_bit 5 (push_bit 11 (take_bit 5 h) OR push_bit 5 (take_bit 6 m) OR take_bit 5 s)) = take_bit 6 (m :: int)"
  "take_bit 5 (drop_bit 11 (push_bit 11 (take_bit 5 h) OR push_bit 5 (take_bit 6 m) OR take_bit 5 s)) = take_bit 5 (h :: int)"
  "take_bit 5 (drop_bit 0 (push_bit 9 (take_bit 7 y) OR push_bit 5 (take_bit 4 m) OR take_bit 5 s)) = take_bit 5 s"
  "take_bit 4 (drop_bit 5 (push_bit 9 (take_bit 7 y) OR push_bit 5 (take_bit 4 m) OR take_bit 5 s)) = take_bit 4 (m :: int)"
  "take_bit 7 (drop_bit 9 (push_bit 9 (take_bit 7 y) OR push_bit 5 (take_bit 4 m) OR take_bit 5 s)) = take_bit 7 (y :: int)"
  by (rule bit_eqI; auto simp: bit_simps)+

text \<open>Dates from 1981 to 2107 and times of day survive packing into the 16-bit directory fields, seconds rounded down to
  even ones. A date of 1980 does not: its year field is zero, which unpacking turns into the year 0.\<close>

theorem date_time_round_trip:
  assumes "0 \<le> hour t" "hour t < 24" "0 \<le> minute t" "minute t < 60" "0 \<le> second t" "second t < 60"
    and "1 \<le> day d" "day d \<le> 31" "1 \<le> month d" "month d \<le> 12" "1980 \<le> year d" "year d \<le> 2107"
  shows "fat16_get_unpacked_time (fat16_get_packed_time t) = t\<lparr>second := second t - second t mod 2\<rparr>
    \<and> fat16_get_unpacked_date (fat16_get_packed_date d) = (if year d = 1980 then d\<lparr>year := 0\<rparr> else d)"
proof
  let ?t = "fat16_get_packed_time t" and ?d = "fat16_get_packed_date d"
  have f: "uint (?t AND mask 5) = take_bit 5 (drop_bit 0 (uint ?t))" "uint (?d AND mask 5) = take_bit 5 (drop_bit 0 (uint ?d))"
    using uint_field [of 0 ?t 5] uint_field [of 0 ?d 5] by simp_all
  have "take_bit 5 (hour t) = hour t" "take_bit 6 (minute t) = minute t" "take_bit 5 (cdiv2 (second t)) = second t div 2"
    using assms by (simp_all add: take_bit_int_eq_self_iff cdiv2_def)
  moreover have "(second t div 2) * 2 = second t - second t mod 2" by (simp add: minus_mod_eq_div_mult)
  ultimately show "fat16_get_unpacked_time ?t = t\<lparr>second := second t - second t mod 2\<rparr>"
    unfolding fat16_get_unpacked_time_def mask_lits uint_field f packed_time_fields take_fields by simp
  have y: "take_bit 5 (day d) = day d" "take_bit 4 (month d) = month d" "take_bit 7 (year d - 1980) = year d - 1980"
    using assms by (simp_all add: take_bit_int_eq_self_iff)
  have u: "uint (drop_bit 9 ?d AND mask 7) = year d - 1980"
    unfolding uint_field packed_date_fields take_fields using y by simp
  then have "drop_bit 9 ?d AND mask 7 = 0 \<longleftrightarrow> year d = 1980" by (simp add: word_uint_eq_iff)
  then show "fat16_get_unpacked_date ?d = (if year d = 1980 then d\<lparr>year := 0\<rparr> else d)"
    unfolding fat16_get_unpacked_date_def mask_lits Let_def u
    unfolding uint_field f packed_date_fields take_fields using y by simp
qed

theorem date_time_round_trip_witness:
  "fat16_get_unpacked_time (fat16_get_packed_time \<lparr>hour = 23, minute = 59, second = 59\<rparr>) = \<lparr>hour = 23, minute = 59, second = 58\<rparr>
   \<and> fat16_get_unpacked_date (fat16_get_packed_date \<lparr>day = 29, month = 2, year = 2024\<rparr>) = \<lparr>day = 29, month = 2, year = 2024\<rparr>
   \<and> fat16_get_unpacked_date (fat16_get_packed_date \<lparr>day = 1, month = 1, year = 1980\<rparr>) = \<lparr>day = 1, month = 1, year = 0\<rparr>"
  using date_time_round_trip [of "\<lparr>hour = 23, minute = 59, second = 59\<rparr>" "\<lparr>day = 29, month = 2, year = 2024\<rparr>"]
    date_time_round_trip [of "\<lparr>hour = 23, minute = 59, second = 59\<rparr>" "\<lparr>day = 1, month = 1, year = 1980\<rparr>"]
  by simp

end
