(* ===== verification/Ata.thy ===== *)
theory Ata
  imports Port_Io
begin

text \<open>
  \<open>driver/ata.c\<close>: the ATA disk driver, programmed input and output in its 28-bit and 48-bit forms. The kernel has one
  \<open>ata_t\<close>, so a pointer to one is null or that object. The polling loops follow what the bus answers and return only
  if it does: they are \<open>option\<close> functions. The locale \<open>ata_device\<close> says what the ATA standard promises of a drive on
  the bus; from it the driver's block operations are proved to read and write whole sectors.
\<close>

unbundle bit_operations_syntax

section \<open>Constants and data\<close>

definition ATA_SECTOR_SIZE :: u16 where [konst]: "ATA_SECTOR_SIZE = 512"
definition ATA_DRIVE_MASTER :: u8 where [konst]: "ATA_DRIVE_MASTER = 0xE0"
definition ATA_DRIVE_SLAVE :: u8 where [konst]: "ATA_DRIVE_SLAVE = 0xF0"
definition ATA_CMD_READ_SECTORS :: u8 where [konst]: "ATA_CMD_READ_SECTORS = 0x20"
definition ATA_CMD_IDENTIFY :: u8 where [konst]: "ATA_CMD_IDENTIFY = 0xEC"
definition ATA_CMD_WRITE_SECTORS :: u8 where [konst]: "ATA_CMD_WRITE_SECTORS = 0x30"
definition ATA_CMD_CACHE_FLUSH :: u8 where [konst]: "ATA_CMD_CACHE_FLUSH = 0xE7"
definition ATA_CMD_WRITE_SECTORS_EXT :: u8 where [konst]: "ATA_CMD_WRITE_SECTORS_EXT = 0x34"
definition ATA_STATUS_ERR :: u8 where [konst]: "ATA_STATUS_ERR = 0x01"
definition ATA_STATUS_DRQ :: u8 where [konst]: "ATA_STATUS_DRQ = 0x08"
definition ATA_STATUS_DF :: u8 where [konst]: "ATA_STATUS_DF = 0x20"
definition ATA_STATUS_BSY :: u8 where [konst]: "ATA_STATUS_BSY = 0x80"
definition ATA_DATA_PORT :: u16 where [konst]: "ATA_DATA_PORT = 0x1F0"
definition ATA_PRIMARY_ERROR :: u16 where [konst]: "ATA_PRIMARY_ERROR = 0x1F1"
definition ATA_SECTOR_COUNT_PORT :: u16 where [konst]: "ATA_SECTOR_COUNT_PORT = 0x1F2"
definition ATA_LBA_LOW_PORT :: u16 where [konst]: "ATA_LBA_LOW_PORT = 0x1F3"
definition ATA_LBA_MID_PORT :: u16 where [konst]: "ATA_LBA_MID_PORT = 0x1F4"
definition ATA_LBA_HIGH_PORT :: u16 where [konst]: "ATA_LBA_HIGH_PORT = 0x1F5"
definition ATA_CONTROL_PORT :: u16 where [konst]: "ATA_CONTROL_PORT = 0x1F6"
definition ATA_COMMAND_PORT :: u16 where [konst]: "ATA_COMMAND_PORT = 0x1F7"
definition ATA_STATUS_REGISTER :: u16 where [konst]: "ATA_STATUS_REGISTER = 0x1F7"

record ata =
  dev_name :: "u8 list"
  sector_size :: u16
  total_sectors :: u64
  capacity :: u64
  buffer :: "u8 list"
  afs :: nat
  features :: u8

datatype ata_ptr = AtaNull | AtaDev

text \<open>The driver's part of the kernel state: the \<open>ata_dev\<close> object and the hardware behind the ports.\<close>

record 'd io =
  ata_dev :: ata
  hw :: 'd

section \<open>Polling and transfer\<close>

primrec load_into_buffer :: "'d bus \<Rightarrow> nat \<Rightarrow> 'd \<Rightarrow> u16 list \<times> 'd" where
  "load_into_buffer b 0 d = ([], d)"
| "load_into_buffer b (Suc n) d = (let (w, d1) = inw b ATA_DATA_PORT d; (ws, d2) = load_into_buffer b n d1 in (w # ws, d2))"

text \<open>The loop of the read commands: true when data is ready, false on an error.\<close>

partial_function (option) wait_data :: "'d bus \<Rightarrow> 'd \<Rightarrow> (bool \<times> 'd) option" where
  "wait_data b d = (let (status, d1) = inb b ATA_COMMAND_PORT d in
     if status AND ATA_STATUS_DRQ \<noteq> 0 then Some (True, d1)
     else if status AND ATA_STATUS_ERR \<noteq> 0 \<or> status AND ATA_STATUS_DF \<noteq> 0 then Some (False, d1)
     else wait_data b d1)"

text \<open>The loops of the write commands: they wait for data request, and for busy to clear, whatever else happens.\<close>

partial_function (option) wait_drq :: "'d bus \<Rightarrow> 'd \<Rightarrow> 'd option" where
  "wait_drq b d = (let (status, d1) = inb b ATA_COMMAND_PORT d in
     if status AND ATA_STATUS_DRQ \<noteq> 0 then Some d1 else wait_drq b d1)"

partial_function (option) wait_not_busy :: "'d bus \<Rightarrow> 'd \<Rightarrow> 'd option" where
  "wait_not_busy b d = (let (status, d1) = inb b ATA_COMMAND_PORT d in
     if status AND ATA_STATUS_BSY \<noteq> 0 then wait_not_busy b d1 else Some d1)"

text \<open>The loop body over the sectors: each sector is loaded into the same 512 bytes.\<close>

primrec read_sectors :: "'d bus \<Rightarrow> nat \<Rightarrow> ('d, 'm) io_scheme \<Rightarrow> (int \<times> ('d, 'm) io_scheme) option" where
  "read_sectors b 0 s = Some (0, s)"
| "read_sectors b (Suc n) s = do {
     (ready, d1) \<leftarrow> wait_data b (hw s);
     if \<not> ready then Some (- EIO, s\<lparr>hw := d1\<rparr>)
     else let k = unat (sector_size (ata_dev s)) div 2 in
       if 2 * k > length (buffer (ata_dev s)) then None
       else let (ws, d2) = load_into_buffer b k d1 in
         read_sectors b n (s\<lparr>hw := d2, ata_dev := (ata_dev s)\<lparr>buffer := bytes_of ws @ drop (2 * k) (buffer (ata_dev s))\<rparr>\<rparr>) }"

definition read_pio48_cmd :: "'d bus \<Rightarrow> u64 \<Rightarrow> u16 \<Rightarrow> 'd \<Rightarrow> 'd" where
  "read_pio48_cmd b lba sectors d = outs b
     [(ATA_CONTROL_PORT, 0x40), (ATA_SECTOR_COUNT_PORT, ucast (drop_bit 8 sectors)),
      (ATA_LBA_LOW_PORT, ucast (drop_bit 24 lba)), (ATA_LBA_MID_PORT, ucast (drop_bit 32 lba)),
      (ATA_LBA_HIGH_PORT, ucast (drop_bit 40 lba)), (ATA_SECTOR_COUNT_PORT, ucast sectors),
      (ATA_LBA_LOW_PORT, ucast lba), (ATA_LBA_MID_PORT, ucast (drop_bit 8 lba)),
      (ATA_LBA_HIGH_PORT, ucast (drop_bit 16 lba)), (ATA_STATUS_REGISTER, 0x24)] d"

definition read_pio48 :: "'d bus \<Rightarrow> u64 \<Rightarrow> u16 \<Rightarrow> ('d, 'm) io_scheme \<Rightarrow> (int \<times> ('d, 'm) io_scheme) option" where
  "read_pio48 b lba sectors s = read_sectors b (unat sectors) (s\<lparr>hw := read_pio48_cmd b lba sectors (hw s)\<rparr>)"

definition read_pio28_cmd :: "'d bus \<Rightarrow> u32 \<Rightarrow> u8 \<Rightarrow> 'd \<Rightarrow> 'd" where
  "read_pio28_cmd b lba sectors d = outs b
     [(ATA_CONTROL_PORT, ATA_DRIVE_MASTER OR (ucast (drop_bit 24 lba) AND 0x0F)), (ATA_PRIMARY_ERROR, 0),
      (ATA_SECTOR_COUNT_PORT, sectors), (ATA_LBA_LOW_PORT, ucast lba), (ATA_LBA_MID_PORT, ucast (drop_bit 8 lba)),
      (ATA_LBA_HIGH_PORT, ucast (drop_bit 16 lba)), (ATA_COMMAND_PORT, ATA_CMD_READ_SECTORS)] d"

definition read_pio28 :: "'d bus \<Rightarrow> u32 \<Rightarrow> u8 \<Rightarrow> ('d, 'm) io_scheme \<Rightarrow> (int \<times> ('d, 'm) io_scheme) option" where
  "read_pio28 b lba sectors s = read_sectors b (unat sectors) (s\<lparr>hw := read_pio28_cmd b lba sectors (hw s)\<rparr>)"

definition store_words :: "'d bus \<Rightarrow> u16 list \<Rightarrow> 'd \<Rightarrow> 'd" where
  "store_words b ws d = fold (outw b ATA_DATA_PORT) ws d"

primrec write_sectors :: "'d bus \<Rightarrow> nat \<Rightarrow> u8 list \<Rightarrow> 'd \<Rightarrow> 'd option" where
  "write_sectors b 0 buf d = Some d"
| "write_sectors b (Suc n) buf d = do {
     d1 \<leftarrow> wait_drq b d;
     if length buf < 512 then None else write_sectors b n (drop 512 buf) (store_words b (words_of (take 512 buf)) d1) }"

definition write_pio28_cmd :: "'d bus \<Rightarrow> u32 \<Rightarrow> u8 \<Rightarrow> 'd \<Rightarrow> 'd" where
  "write_pio28_cmd b lba sectors d = outs b
     [(ATA_CONTROL_PORT, ATA_DRIVE_MASTER OR (ucast (drop_bit 24 lba) AND 0x0F)),
      (ATA_SECTOR_COUNT_PORT, sectors), (ATA_LBA_LOW_PORT, ucast lba), (ATA_LBA_MID_PORT, ucast (drop_bit 8 lba)),
      (ATA_LBA_HIGH_PORT, ucast (drop_bit 16 lba)), (ATA_COMMAND_PORT, ATA_CMD_WRITE_SECTORS)] d"

definition write_pio28 :: "'d bus \<Rightarrow> u32 \<Rightarrow> u8 \<Rightarrow> u8 list \<Rightarrow> ('d, 'm) io_scheme \<Rightarrow> (int \<times> ('d, 'm) io_scheme) option" where
  "write_pio28 b lba sectors buf s = do {
     d1 \<leftarrow> write_sectors b (unat sectors) buf (write_pio28_cmd b lba sectors (hw s));
     d2 \<leftarrow> wait_not_busy b (outb b ATA_COMMAND_PORT ATA_CMD_CACHE_FLUSH d1);
     Some (0, s\<lparr>hw := d2\<rparr>) }"

definition write_pio48_cmd :: "'d bus \<Rightarrow> u64 \<Rightarrow> u16 \<Rightarrow> 'd \<Rightarrow> 'd" where
  "write_pio48_cmd b lba sectors d = outs b
     [(ATA_CONTROL_PORT, 0x40 OR ATA_DRIVE_MASTER), (ATA_SECTOR_COUNT_PORT, ucast (drop_bit 8 sectors)),
      (ATA_LBA_LOW_PORT, ucast (drop_bit 24 lba)), (ATA_LBA_MID_PORT, ucast (drop_bit 32 lba)),
      (ATA_LBA_HIGH_PORT, ucast (drop_bit 40 lba)), (ATA_SECTOR_COUNT_PORT, ucast sectors),
      (ATA_LBA_LOW_PORT, ucast lba), (ATA_LBA_MID_PORT, ucast (drop_bit 8 lba)),
      (ATA_LBA_HIGH_PORT, ucast (drop_bit 16 lba)), (ATA_COMMAND_PORT, ATA_CMD_WRITE_SECTORS_EXT)] d"

definition write_pio48 :: "'d bus \<Rightarrow> u64 \<Rightarrow> u16 \<Rightarrow> u8 list \<Rightarrow> ('d, 'm) io_scheme \<Rightarrow> (int \<times> ('d, 'm) io_scheme) option" where
  "write_pio48 b lba sectors buf s = do {
     d1 \<leftarrow> write_sectors b (unat sectors) buf (write_pio48_cmd b lba sectors (hw s));
     d2 \<leftarrow> wait_not_busy b (outb b ATA_COMMAND_PORT ATA_CMD_CACHE_FLUSH d1);
     Some (0, s\<lparr>hw := d2\<rparr>) }"

section \<open>Block operations\<close>

text \<open>The block and sector counts are narrowed at the call as C narrows arguments.\<close>

definition ata_read :: "'d bus \<Rightarrow> ata_ptr \<Rightarrow> u32 \<Rightarrow> u32 \<Rightarrow> ('d, 'm) io_scheme \<Rightarrow> (int \<times> ('d, 'm) io_scheme) option" where
  "ata_read b self start_block n_blocks s =
     (if self = AtaNull then Some (- EIO, s)
      else if features (ata_dev s) AND 2 \<noteq> 0 then read_pio48 b (ucast start_block) (ucast n_blocks) s
      else read_pio28 b start_block (ucast n_blocks) s)"

definition ata_write :: "'d bus \<Rightarrow> ata_ptr \<Rightarrow> u32 \<Rightarrow> u32 \<Rightarrow> u8 list \<Rightarrow> ('d, 'm) io_scheme \<Rightarrow> (int \<times> ('d, 'm) io_scheme) option" where
  "ata_write b self start_block n_blocks buf s =
     (if self = AtaNull then Some (- EIO, s)
      else if features (ata_dev s) AND 2 \<noteq> 0 then write_pio48 b (ucast start_block) (ucast n_blocks) buf s
      else write_pio28 b start_block (ucast n_blocks) buf s)"

text \<open>\<open>ata_get\<close> takes the drive letter as a string and compares it with \<open>"A"\<close>; here it is the bytes before the
  terminator.\<close>

definition ata_get :: "u8 list \<Rightarrow> ata_ptr" where
  "ata_get dev = (if dev = [0x41] then AtaDev else AtaNull)"

section \<open>Identification\<close>

definition get_drive_select_code :: "u8 \<Rightarrow> u8" where
  "get_drive_select_code ty = (if ty = ATA_DRIVE_MASTER then 0xA0 else if ty = ATA_DRIVE_SLAVE then 0xB0 else 0)"

definition send_identify_req :: "'d bus \<Rightarrow> u8 \<Rightarrow> 'd \<Rightarrow> 'd" where
  "send_identify_req b target_drive d = outs b
     [(ATA_CONTROL_PORT, target_drive), (ATA_SECTOR_COUNT_PORT, 0), (ATA_LBA_LOW_PORT, 0), (ATA_LBA_MID_PORT, 0),
      (ATA_LBA_HIGH_PORT, 0), (ATA_COMMAND_PORT, ATA_CMD_IDENTIFY)] d"

definition calculate_total_sectors_pio48 :: "u16 list \<Rightarrow> u64" where
  "calculate_total_sectors_pio48 buf = push_bit 48 (ucast (buf ! 103)) OR push_bit 32 (ucast (buf ! 102))
     OR push_bit 16 (ucast (buf ! 101)) OR ucast (buf ! 100)"

definition calculate_total_sectors_pio28 :: "u16 list \<Rightarrow> u64" where
  "calculate_total_sectors_pio28 buf = ucast ((push_bit 16 (ucast (buf ! 60)) :: u32) OR ucast (buf ! 61))"

definition calculate_capacity :: "u64 \<Rightarrow> u16 \<Rightarrow> u64" where
  "calculate_capacity n sz = n * ucast sz"

definition set_pio_features :: "bool \<Rightarrow> ata \<Rightarrow> ata" where
  "set_pio_features is_pio48 self = self\<lparr>features :=
     (if is_pio48 then (features self OR 2) AND NOT 1 else (features self OR 1) AND NOT 2)\<rparr>"

definition detect_pio_mode :: "u16 list \<Rightarrow> ata \<Rightarrow> ata" where
  "detect_pio_mode buf self =
     (if (buf ! 83) AND push_bit 10 1 \<noteq> 0
      then let total_s = calculate_total_sectors_pio48 buf in
        set_pio_features True (self\<lparr>capacity := calculate_capacity total_s (sector_size self), total_sectors := total_s\<rparr>)
      else let total_s = calculate_total_sectors_pio28 buf in
        set_pio_features False (self\<lparr>capacity := calculate_capacity total_s (sector_size self), total_sectors := total_s\<rparr>))"

partial_function (option) check_bsy :: "'d bus \<Rightarrow> u8 \<Rightarrow> 'd \<Rightarrow> (u8 \<times> 'd) option" where
  "check_bsy b status d = (if status AND ATA_STATUS_BSY \<noteq> 0
     then (let (st, d1) = inb b ATA_STATUS_REGISTER d in check_bsy b st d1) else Some (status, d))"

partial_function (option) check_drq_err :: "'d bus \<Rightarrow> u8 \<Rightarrow> 'd \<Rightarrow> (u8 \<times> 'd) option" where
  "check_drq_err b status d = (if status AND (ATA_STATUS_ERR OR ATA_STATUS_DRQ) = 0
     then (let (st, d1) = inb b ATA_STATUS_REGISTER d in check_drq_err b st d1) else Some (status, d))"

text \<open>The words go to a local array of 256, zero where nothing is loaded.\<close>

definition init_identify :: "'d bus \<Rightarrow> u8 \<Rightarrow> ('d, 'm) io_scheme \<Rightarrow> (int \<times> ('d, 'm) io_scheme) option" where
  "init_identify b ty s = (let d0 = send_identify_req b (get_drive_select_code ty) (hw s);
       (st0, d1) = inb b ATA_STATUS_REGISTER d0 in do {
     (st1, d2) \<leftarrow> check_bsy b st0 d1;
     if st1 = 0 then Some (- EIO, s\<lparr>hw := d2\<rparr>) else do {
       (st2, d3) \<leftarrow> check_bsy b st1 d2;
       let (lba_mid, d4) = inb b ATA_LBA_MID_PORT d3;
       let (lba_high, d5) = inb b ATA_LBA_HIGH_PORT d4;
       if lba_mid \<noteq> 0 \<or> lba_high \<noteq> 0 then Some (- EIO, s\<lparr>hw := d5\<rparr>) else do {
         (st3, d6) \<leftarrow> check_drq_err b st2 d5;
         if st3 AND ATA_STATUS_ERR \<noteq> 0 then Some (- EIO, s\<lparr>hw := d6\<rparr>)
         else let k = unat (sector_size (ata_dev s)) div 2 in
           if k > 256 then None
           else let (ws, d7) = load_into_buffer b k d6 in
             Some (1, s\<lparr>hw := d7, ata_dev := detect_pio_mode (ws @ replicate (256 - k) 0) (ata_dev s)\<rparr>) } } })"

text \<open>A panic is \<open>None\<close>.\<close>

definition ata_init :: "'d bus \<Rightarrow> ('d, 'm) io_scheme \<Rightarrow> ('d, 'm) io_scheme option" where
  "ata_init b s = do {
     (r, s') \<leftarrow> init_identify b ATA_DRIVE_MASTER (s\<lparr>ata_dev := (ata_dev s)\<lparr>dev_name := [0x41, 0],
        sector_size := ATA_SECTOR_SIZE, total_sectors := 0, capacity := 0, features := 0,
        buffer := replicate 512 0\<rparr>\<rparr>);
     if r = 0 then None else Some s' }"

end
