(* ===== verification/Ata_Device.thy ===== *)
theory Ata_Device
  imports Ata
begin

text \<open>
  What the driver relies on: a drive that follows the ATA protocol. The locale names the observable phases of a command
  (idle, data to be read, data to be written, written, flushing), how many more status reads the drive stays unready,
  and what every port access does in each phase. Inside it the driver's loops are proved to end and its block operations to move exactly one
  sector. The interpretation is a drive written out as a state machine.
\<close>

unbundle bit_operations_syntax

text \<open>A device object as \<open>ata_init\<close> leaves it, with the drive idle; the content of the disk, byte by byte; and
  \<open>dev_quiet\<close>: the only changes from \<open>s\<close> to \<open>s'\<close> are in the transfer buffer and the drive's registers. The
  parameters are those of the locale below.\<close>

definition dev_ready :: "('d \<Rightarrow> bool) \<Rightarrow> ('d, 'm) io_scheme \<Rightarrow> bool" where
  "dev_ready idle s \<longleftrightarrow> idle (hw s) \<and> sector_size (ata_dev s) = 512 \<and> length (buffer (ata_dev s)) = 512"

definition disk_of :: "('d \<Rightarrow> nat \<Rightarrow> u8 list) \<Rightarrow> ('d, 'm) io_scheme \<Rightarrow> nat \<Rightarrow> u8" where
  "disk_of sector s a = sector (hw s) (a div 512) ! (a mod 512)"

definition dev_quiet :: "('d \<Rightarrow> bool) \<Rightarrow> ('d \<Rightarrow> nat \<Rightarrow> u8 list) \<Rightarrow> ('d, 'm) io_scheme \<Rightarrow> ('d, 'm) io_scheme \<Rightarrow> bool" where
  "dev_quiet idle sector s s' \<longleftrightarrow> dev_ready idle s' \<and> sector (hw s') = sector (hw s) \<and>
     s' = s\<lparr>hw := hw s', ata_dev := (ata_dev s)\<lparr>buffer := buffer (ata_dev s')\<rparr>\<rparr>"

text \<open>The same without the promise that the disk keeps its content.\<close>

definition dev_framed :: "('d \<Rightarrow> bool) \<Rightarrow> ('d, 'm) io_scheme \<Rightarrow> ('d, 'm) io_scheme \<Rightarrow> bool" where
  "dev_framed idle s s' \<longleftrightarrow> dev_ready idle s' \<and>
     s' = s\<lparr>hw := hw s', ata_dev := (ata_dev s)\<lparr>buffer := buffer (ata_dev s')\<rparr>\<rparr>"

locale ata_device =
  fixes b :: "'d bus"
    and sector :: "'d \<Rightarrow> nat \<Rightarrow> u8 list"
    and idle :: "'d \<Rightarrow> bool"
    and reading :: "'d \<Rightarrow> u16 list \<Rightarrow> bool"
    and writing :: "'d \<Rightarrow> nat \<Rightarrow> u16 list \<Rightarrow> bool"
    and written :: "'d \<Rightarrow> bool"
    and flushing :: "'d \<Rightarrow> bool"
    and delay :: "'d \<Rightarrow> nat"
  assumes sector_length: "length (sector d l) = 512"
    and read28: "idle d \<Longrightarrow> lba < 2 ^ 28 \<Longrightarrow>
      reading (read_pio28_cmd b lba 1 d) (words_of (sector d (unat lba))) \<and> sector (read_pio28_cmd b lba 1 d) = sector d"
    and read48: "idle d \<Longrightarrow> lba48 < 2 ^ 48 \<Longrightarrow>
      reading (read_pio48_cmd b lba48 1 d) (words_of (sector d (unat lba48))) \<and> sector (read_pio48_cmd b lba48 1 d) = sector d"
    and write28: "idle d \<Longrightarrow> lba < 2 ^ 28 \<Longrightarrow>
      writing (write_pio28_cmd b lba 1 d) (unat lba) [] \<and> sector (write_pio28_cmd b lba 1 d) = sector d"
    and write48: "idle d \<Longrightarrow> lba48 < 2 ^ 48 \<Longrightarrow>
      writing (write_pio48_cmd b lba48 1 d) (unat lba48) [] \<and> sector (write_pio48_cmd b lba48 1 d) = sector d"
    and poll_read: "reading d ws \<Longrightarrow> inb b ATA_COMMAND_PORT d = (st, d') \<Longrightarrow> reading d' ws \<and> sector d' = sector d
      \<and> (if delay d = 0 then st AND ATA_STATUS_DRQ \<noteq> 0
         else delay d' < delay d \<and> st AND ATA_STATUS_DRQ = 0 \<and> st AND ATA_STATUS_ERR = 0 \<and> st AND ATA_STATUS_DF = 0)"
    and data_read: "reading d (w # ws) \<Longrightarrow> inw b ATA_DATA_PORT d = (v, d') \<Longrightarrow> v = w \<and> sector d' = sector d
      \<and> (if ws = [] then idle d' else reading d' ws)"
    and poll_write: "writing d l ws \<Longrightarrow> inb b ATA_COMMAND_PORT d = (st, d') \<Longrightarrow> writing d' l ws \<and> sector d' = sector d
      \<and> (if delay d = 0 then st AND ATA_STATUS_DRQ \<noteq> 0 else delay d' < delay d \<and> st AND ATA_STATUS_DRQ = 0)"
    and data_write: "writing d l ws \<Longrightarrow> length ws < 255 \<Longrightarrow>
      writing (outw b ATA_DATA_PORT w d) l (ws @ [w]) \<and> sector (outw b ATA_DATA_PORT w d) = sector d"
    and data_written: "writing d l ws \<Longrightarrow> length ws = 255 \<Longrightarrow>
      written (outw b ATA_DATA_PORT w d) \<and> sector (outw b ATA_DATA_PORT w d) = (sector d)(l := bytes_of (ws @ [w]))"
    and flush: "written d \<or> idle d \<Longrightarrow> flushing (outb b ATA_COMMAND_PORT ATA_CMD_CACHE_FLUSH d)
      \<and> sector (outb b ATA_COMMAND_PORT ATA_CMD_CACHE_FLUSH d) = sector d"
    and poll_flush: "flushing d \<Longrightarrow> inb b ATA_COMMAND_PORT d = (st, d') \<Longrightarrow> sector d' = sector d
      \<and> (if delay d = 0 then st AND ATA_STATUS_BSY = 0 \<and> idle d' else delay d' < delay d \<and> flushing d' \<and> st AND ATA_STATUS_BSY \<noteq> 0)"
begin

lemma wait_data_ready: "reading d ws \<Longrightarrow> \<exists>d'. wait_data b d = Some (True, d') \<and> reading d' ws \<and> sector d' = sector d"
proof (induction "delay d" arbitrary: d rule: less_induct)
  case less
  obtain st d' where i: "inb b ATA_COMMAND_PORT d = (st, d')" by fastforce
  note p = poll_read [OF less.prems i]
  show ?case
  proof (cases "delay d = 0")
    case True
    with p i show ?thesis by (subst wait_data.simps) simp
  next
    case False
    with p i less.hyps [of d'] show ?thesis by (subst wait_data.simps) simp
  qed
qed

lemma wait_drq_ready: "writing d l ws \<Longrightarrow> \<exists>d'. wait_drq b d = Some d' \<and> writing d' l ws \<and> sector d' = sector d"
proof (induction "delay d" arbitrary: d rule: less_induct)
  case less
  obtain st d' where i: "inb b ATA_COMMAND_PORT d = (st, d')" by fastforce
  show ?case
    using poll_write [OF less.prems i] i less.hyps [of d'] by (cases "delay d = 0"; subst wait_drq.simps) auto
qed

lemma wait_not_busy_idle: "flushing d \<Longrightarrow> \<exists>d'. wait_not_busy b d = Some d' \<and> idle d' \<and> sector d' = sector d"
proof (induction "delay d" arbitrary: d rule: less_induct)
  case less
  obtain st d' where i: "inb b ATA_COMMAND_PORT d = (st, d')" by fastforce
  show ?case
    using poll_flush [OF less.prems i] i less.hyps [of d'] by (cases "delay d = 0"; subst wait_not_busy.simps) auto
qed

lemma load_sector:
  "reading d ws \<Longrightarrow> ws \<noteq> [] \<Longrightarrow> \<exists>d'. load_into_buffer b (length ws) d = (ws, d') \<and> idle d' \<and> sector d' = sector d"
proof (induction ws arbitrary: d)
  case (Cons w ws)
  obtain v d' where i: "inw b ATA_DATA_PORT d = (v, d')" by fastforce
  note r = data_read [OF Cons.prems(1) i]
  show ?case
  proof (cases "ws = []")
    case True
    with r i show ?thesis by simp
  next
    case False
    with r have "reading d' ws" by simp
    from Cons.IH [OF this False] r i show ?thesis by auto
  qed
qed simp

lemma store_words_writing:
  "writing d l ws \<Longrightarrow> length ws + length vs = 256 \<Longrightarrow> vs \<noteq> [] \<Longrightarrow>
     written (store_words b vs d) \<and> sector (store_words b vs d) = (sector d)(l := bytes_of (ws @ vs))"
proof (induction vs arbitrary: d ws)
  case (Cons v vs)
  show ?case
  proof (cases "vs = []")
    case True
    with data_written [OF Cons.prems(1), of v] Cons.prems(2) show ?thesis by (simp add: store_words_def)
  next
    case False
    then have "length ws < 255" using Cons.prems(2) by (cases vs) auto
    note w = data_write [OF Cons.prems(1) this, of v]
    with Cons.IH [of "outw b ATA_DATA_PORT v d" "ws @ [v]"] Cons.prems(2) False
    show ?thesis by (simp add: store_words_def)
  qed
qed simp

abbreviation ready :: "('d, 'm) io_scheme \<Rightarrow> bool" where "ready \<equiv> dev_ready idle"

abbreviation disk :: "('d, 'm) io_scheme \<Rightarrow> nat \<Rightarrow> u8" where "disk \<equiv> disk_of sector"

abbreviation quiet :: "('d, 'm) io_scheme \<Rightarrow> ('d, 'm) io_scheme \<Rightarrow> bool" where "quiet \<equiv> dev_quiet idle sector"

abbreviation framed :: "('d, 'm) io_scheme \<Rightarrow> ('d, 'm) io_scheme \<Rightarrow> bool" where "framed \<equiv> dev_framed idle"

lemma framed_refl: "ready s \<Longrightarrow> framed s s" by (simp add: dev_framed_def)

lemma framed_trans: "framed s s' \<Longrightarrow> framed s' s'' \<Longrightarrow> framed s s''"
  by (cases s; cases s'; cases s''; cases "ata_dev s"; cases "ata_dev s'"; cases "ata_dev s''") (simp add: dev_framed_def)

lemma framed_ready: "framed s s' \<Longrightarrow> ready s'" by (simp add: dev_framed_def)

lemma quiet_framed: "quiet s s' \<Longrightarrow> framed s s'" by (simp add: dev_framed_def dev_quiet_def)

lemma quiet_refl: "ready s \<Longrightarrow> quiet s s" by (simp add: dev_quiet_def)

lemma quiet_trans: "quiet s s' \<Longrightarrow> quiet s' s'' \<Longrightarrow> quiet s s''"
  by (cases s; cases s'; cases s''; cases "ata_dev s"; cases "ata_dev s'"; cases "ata_dev s''") (simp add: dev_quiet_def)

lemma quiet_disk: "quiet s s' \<Longrightarrow> disk s' = disk s"
  by (rule ext) (simp add: dev_quiet_def disk_of_def)

lemma quiet_ready: "quiet s s' \<Longrightarrow> ready s'" by (simp add: dev_quiet_def)

lemma read_one_sector:
  assumes "reading (hw s) (words_of (sector d l))" "sector (hw s) = sector d"
    and "sector_size (ata_dev s) = 512" "length (buffer (ata_dev s)) = 512"
  shows "\<exists>d'. read_sectors b 1 s = Some (0, s\<lparr>hw := d', ata_dev := (ata_dev s)\<lparr>buffer := sector d l\<rparr>\<rparr>)
    \<and> idle d' \<and> sector d' = sector d"
proof -
  let ?ws = "words_of (sector d l)"
  from wait_data_ready [OF assms(1)] assms(2)
  obtain d1 where d1: "wait_data b (hw s) = Some (True, d1)" "reading d1 ?ws" "sector d1 = sector d" by auto
  have n: "length ?ws = 256" by (simp add: sector_length)
  then have "?ws \<noteq> []" by (metis length_0_conv zero_neq_numeral)
  from load_sector [OF d1(2) this] d1(3) n
  obtain d2 where d2: "load_into_buffer b 256 d1 = (?ws, d2)" "idle d2" "sector d2 = sector d" by auto
  have "bytes_of ?ws = sector d l" by (simp add: bytes_of_words_of sector_length)
  with d1 d2 assms(3,4) show ?thesis by (intro exI [of _ d2]) simp
qed

lemma ata_read_sector:
  assumes "ready s" "lba < 2 ^ 28"
  shows "\<exists>s'. ata_read b AtaDev lba 1 s = Some (0, s') \<and> quiet s s' \<and> buffer (ata_dev s') = sector (hw s) (unat lba)"
proof (cases "features (ata_dev s) AND 2 = 0")
  case True
  let ?s = "s\<lparr>hw := read_pio28_cmd b lba 1 (hw s)\<rparr>"
  have "reading (hw ?s) (words_of (sector (hw s) (unat lba)))" "sector (hw ?s) = sector (hw s)"
    using read28 [of "hw s" lba] assms by (simp_all add: dev_ready_def)
  from read_one_sector [OF this] assms show ?thesis
    by (auto simp: ata_read_def read_pio28_def True dev_ready_def dev_quiet_def sector_length)
next
  case False
  let ?s = "s\<lparr>hw := read_pio48_cmd b (ucast lba) 1 (hw s)\<rparr>"
  have u: "unat (ucast lba :: u64) = unat lba" by (rule unat_ucast_wide) simp
  have "(ucast lba :: u64) < 2 ^ 48" using unat_bound [of lba] by (simp add: word_less_nat_alt u)
  then have "reading (hw ?s) (words_of (sector (hw s) (unat lba)))" "sector (hw ?s) = sector (hw s)"
    using read48 [of "hw s" "ucast lba"] assms(1) by (simp_all add: dev_ready_def u)
  from read_one_sector [OF this] assms show ?thesis
    by (auto simp: ata_read_def read_pio48_def False dev_ready_def dev_quiet_def sector_length)
qed

lemma write_one_sector:
  assumes "writing d l []" "length buf = 512"
  shows "\<exists>d1 d2. write_sectors b 1 buf d = Some d1
    \<and> wait_not_busy b (outb b ATA_COMMAND_PORT ATA_CMD_CACHE_FLUSH d1) = Some d2 \<and> idle d2 \<and> sector d2 = (sector d)(l := buf)"
proof -
  from wait_drq_ready [OF assms(1)] obtain d0 where
    d0: "wait_drq b d = Some d0" "writing d0 l []" "sector d0 = sector d" by blast
  let ?d1 = "store_words b (words_of buf) d0"
  have n: "length ([] :: u16 list) + length (words_of buf) = 256" "words_of buf \<noteq> []"
    using assms(2) length_words_of [of buf] by (auto simp del: length_words_of)
  have "written ?d1" "sector ?d1 = (sector d)(l := buf)"
    using store_words_writing [OF d0(2) n] assms(2) d0(3) by (simp_all add: bytes_of_words_of)
  with wait_not_busy_idle [of "outb b ATA_COMMAND_PORT ATA_CMD_CACHE_FLUSH ?d1"] flush [of ?d1]
  show ?thesis using assms(2) d0 by auto
qed

lemma ata_write_sector:
  assumes "ready s" "lba < 2 ^ 28" "length buf = 512"
  shows "\<exists>d'. ata_write b AtaDev lba 1 buf s = Some (0, s\<lparr>hw := d'\<rparr>) \<and> idle d'
    \<and> sector d' = (sector (hw s))(unat lba := buf)"
proof (cases "features (ata_dev s) AND 2 = 0")
  case True
  have "writing (write_pio28_cmd b lba 1 (hw s)) (unat lba) []"
    "sector (write_pio28_cmd b lba 1 (hw s)) = sector (hw s)"
    using write28 [of "hw s" lba] assms by (simp_all add: dev_ready_def)
  with write_one_sector [OF this(1) assms(3)] show ?thesis
    by (auto simp: ata_write_def write_pio28_def True simp del: write_sectors.simps)
next
  case False
  have u: "unat (ucast lba :: u64) = unat lba" by (rule unat_ucast_wide) simp
  have "(ucast lba :: u64) < 2 ^ 48" using unat_bound [of lba] by (simp add: word_less_nat_alt u)
  then have "writing (write_pio48_cmd b (ucast lba) 1 (hw s)) (unat lba) []"
    "sector (write_pio48_cmd b (ucast lba) 1 (hw s)) = sector (hw s)"
    using write48 [of "hw s" "ucast lba"] assms by (simp_all add: dev_ready_def u)
  with write_one_sector [OF this(1) assms(3)] show ?thesis
    by (auto simp: ata_write_def write_pio48_def False simp del: write_sectors.simps)
qed

end

section \<open>A drive\<close>

text \<open>
  A drive as a state machine on the ports above: the task-file registers with the value written before the current
  one (the 48-bit commands use both), the bytes it stores, the phase of the current command and how many more status
  reads it stays busy. Every command keeps it busy for two reads.
\<close>

datatype phase = Idle | Reading "u16 list" | Writing nat "u16 list" | Written | Flushing

record drive =
  reg :: "u16 \<Rightarrow> u8"
  old :: "u16 \<Rightarrow> u8"
  store :: "nat \<Rightarrow> u8"
  phase_of :: phase
  wait_for :: nat

definition drive_sector :: "drive \<Rightarrow> nat \<Rightarrow> u8 list" where
  "drive_sector d l = map (\<lambda>i. store d (512 * l + i)) [0..<512]"

definition drive_lba28 :: "drive \<Rightarrow> nat" where
  "drive_lba28 d = unat (reg d 0x1F3) + 2 ^ 8 * unat (reg d 0x1F4) + 2 ^ 16 * unat (reg d 0x1F5)
     + 2 ^ 24 * (unat (reg d 0x1F6) mod 16)"

definition drive_lba48 :: "drive \<Rightarrow> nat" where
  "drive_lba48 d = unat (reg d 0x1F3) + 2 ^ 8 * unat (reg d 0x1F4) + 2 ^ 16 * unat (reg d 0x1F5)
     + 2 ^ 24 * unat (old d 0x1F3) + 2 ^ 32 * unat (old d 0x1F4) + 2 ^ 40 * unat (old d 0x1F5)"

definition drive_outb :: "u16 \<Rightarrow> u8 \<Rightarrow> drive \<Rightarrow> drive" where
  "drive_outb p v d =
     (if p = 0x1F7 then
        (let d1 = d\<lparr>wait_for := 2\<rparr> in
         if v = 0x20 then d1\<lparr>phase_of := Reading (words_of (drive_sector d (drive_lba28 d)))\<rparr>
         else if v = 0x24 then d1\<lparr>phase_of := Reading (words_of (drive_sector d (drive_lba48 d)))\<rparr>
         else if v = 0x30 then d1\<lparr>phase_of := Writing (drive_lba28 d) []\<rparr>
         else if v = 0x34 then d1\<lparr>phase_of := Writing (drive_lba48 d) []\<rparr>
         else if v = 0xE7 then d1\<lparr>phase_of := Flushing\<rparr>
         else d1)
      else d\<lparr>old := (old d)(p := reg d p), reg := (reg d)(p := v)\<rparr>)"

definition drive_inb :: "u16 \<Rightarrow> drive \<Rightarrow> u8 \<times> drive" where
  "drive_inb p d = (if p = 0x1F7 then
     (if wait_for d \<noteq> 0 then (0x80, d\<lparr>wait_for := wait_for d - 1\<rparr>)
      else (case phase_of d of Reading ws \<Rightarrow> (0x48, d) | Writing l ws \<Rightarrow> (0x48, d)
            | _ \<Rightarrow> (0x40, d\<lparr>phase_of := Idle\<rparr>)))
     else (reg d p, d))"

definition drive_inw :: "u16 \<Rightarrow> drive \<Rightarrow> u16 \<times> drive" where
  "drive_inw p d = (case phase_of d of
     Reading (w # ws) \<Rightarrow> (w, d\<lparr>phase_of := (if ws = [] then Idle else Reading ws)\<rparr>) | _ \<Rightarrow> (0, d))"

definition put_sector :: "nat \<Rightarrow> u8 list \<Rightarrow> (nat \<Rightarrow> u8) \<Rightarrow> nat \<Rightarrow> u8" where
  "put_sector l bs m a = (if a div 512 = l then bs ! (a mod 512) else m a)"

definition drive_outw :: "u16 \<Rightarrow> u16 \<Rightarrow> drive \<Rightarrow> drive" where
  "drive_outw p w d = (case phase_of d of
     Writing l ws \<Rightarrow>
       (if length ws < 255 then d\<lparr>phase_of := Writing l (ws @ [w])\<rparr>
        else d\<lparr>phase_of := Written, store := put_sector l (bytes_of (ws @ [w])) (store d)\<rparr>)
     | _ \<Rightarrow> d)"

definition drive_bus :: "drive bus" where
  "drive_bus = \<lparr>inb = drive_inb, inw = drive_inw, inl = (\<lambda>p d. (0, d)), outb = drive_outb, outw = drive_outw,
     outl = (\<lambda>p v d. d)\<rparr>"

lemma drive_sector_put:
  assumes "length bs = 512"
  shows "drive_sector (d\<lparr>phase_of := x, store := put_sector l bs (store d)\<rparr>) = (drive_sector d)(l := bs)"
proof
  fix k
  have "(512 * k + i) div 512 = k" "(512 * k + i) mod 512 = i" if "i < 512" for i :: nat using that by simp_all
  then show "drive_sector (d\<lparr>phase_of := x, store := put_sector l bs (store d)\<rparr>) k = ((drive_sector d)(l := bs)) k"
    using assms by (auto simp: drive_sector_def put_sector_def intro!: nth_equalityI)
qed

lemma drive_sector_frame [simp]:
  "drive_sector (d\<lparr>phase_of := x\<rparr>) = drive_sector d" "drive_sector (d\<lparr>wait_for := n\<rparr>) = drive_sector d"
  "drive_sector (d\<lparr>old := f, reg := g\<rparr>) = drive_sector d"
  by (rule ext; simp add: drive_sector_def)+

lemma byte_digits: "n mod 2 ^ 8 + 2 ^ 8 * ((n div 2 ^ 8) mod 2 ^ 8) + 2 ^ 16 * ((n div 2 ^ 16) mod 2 ^ 8)
    + 2 ^ 24 * (n div 2 ^ 24) = (n :: nat)"
  using mod_mult2_eq [of n "2 ^ 8" "2 ^ 8"] mod_mult2_eq [of n "2 ^ 16" "2 ^ 8"] div_mult_mod_eq [of n "2 ^ 24"] by simp

lemma lba28_bytes:
  assumes "lba < (2 ^ 28 :: u32)"
  shows "unat (ucast lba :: u8) + 2 ^ 8 * unat (ucast (drop_bit 8 lba) :: u8) + 2 ^ 16 * unat (ucast (drop_bit 16 lba) :: u8)
    + 2 ^ 24 * (unat (0xE0 OR (ucast (drop_bit 24 lba) AND 0x0F) :: u8) mod 16) = unat lba"
proof -
  have m: "unat (0xE0 OR (x AND 0x0F) :: u8) mod 16 = unat x mod 16" for x :: u8
  proof -
    have f: "(0x0F :: u8) = mask 4" by (simp add: mask_eq_exp_minus_1)
    have "take_bit 4 (0xE0 OR (x AND 0x0F)) = take_bit 4 x"
      unfolding f take_bit_eq_mask [symmetric] take_bit_or by simp
    then have "unat (take_bit 4 (0xE0 OR (x AND 0x0F))) = unat (take_bit 4 x)" by simp
    then show ?thesis by (simp only: unsigned_take_bit_eq) (simp add: take_bit_eq_mod)
  qed
  have b: "unat lba < 2 ^ 28" using assms by (simp add: word_less_nat_alt)
  let ?n = "unat lba"
  have "unat (ucast (drop_bit k lba) :: u8) = (?n div 2 ^ k) mod 2 ^ 8" for k
    by (rule unat_byte)
  note u = this this [of 0, simplified]
  have "(?n div 2 ^ 24) mod 2 ^ 8 mod 16 = ?n div 2 ^ 24" using b by (simp add: less_mult_imp_div_less mod_mod_cancel)
  then show ?thesis using byte_digits [of ?n] unfolding m u by simp
qed

lemma lba48_bytes:
  assumes "lba < (2 ^ 48 :: u64)"
  shows "unat (ucast lba :: u8) + 2 ^ 8 * unat (ucast (drop_bit 8 lba) :: u8) + 2 ^ 16 * unat (ucast (drop_bit 16 lba) :: u8)
    + 2 ^ 24 * unat (ucast (drop_bit 24 lba) :: u8) + 2 ^ 32 * unat (ucast (drop_bit 32 lba) :: u8)
    + 2 ^ 40 * unat (ucast (drop_bit 40 lba) :: u8) = unat lba"
proof -
  let ?n = "unat lba"
  have b: "?n < 2 ^ 48" using assms by (simp add: word_less_nat_alt)
  note u = unat_byte [of _ lba] unat_byte [of 0 lba, simplified]
  have "?n div 2 ^ 24 div 2 ^ 16 < 2 ^ 8" using b by (simp add: less_mult_imp_div_less)
  then have "?n div 2 ^ 24 div 2 ^ 16 mod 2 ^ 8 = ?n div 2 ^ 24 div 2 ^ 16" by simp
  moreover have "?n div 2 ^ 24 div 2 ^ 8 = ?n div 2 ^ 32" "?n div 2 ^ 24 div 2 ^ 16 = ?n div 2 ^ 40"
    by (simp_all add: div_mult2_eq [symmetric])
  moreover have "?n div 2 ^ 24 div 2 ^ 24 = 0" using b by (simp add: less_mult_imp_div_less)
  ultimately have "?n div 2 ^ 24 = (?n div 2 ^ 24) mod 2 ^ 8 + 2 ^ 8 * ((?n div 2 ^ 32) mod 2 ^ 8)
      + 2 ^ 16 * ((?n div 2 ^ 40) mod 2 ^ 8)"
    using byte_digits [of "?n div 2 ^ 24"] by simp
  then show ?thesis using byte_digits [of ?n] unfolding u by simp
qed

lemma drive_commands:
  "lba < 2 ^ 28 \<Longrightarrow> phase_of (read_pio28_cmd drive_bus lba 1 d) = Reading (words_of (drive_sector d (unat lba)))
     \<and> store (read_pio28_cmd drive_bus lba 1 d) = store d"
  "lba < 2 ^ 28 \<Longrightarrow> phase_of (write_pio28_cmd drive_bus lba 1 d) = Writing (unat lba) []
     \<and> store (write_pio28_cmd drive_bus lba 1 d) = store d"
  "lba48 < 2 ^ 48 \<Longrightarrow> phase_of (read_pio48_cmd drive_bus lba48 1 d) = Reading (words_of (drive_sector d (unat lba48)))
     \<and> store (read_pio48_cmd drive_bus lba48 1 d) = store d"
  "lba48 < 2 ^ 48 \<Longrightarrow> phase_of (write_pio48_cmd drive_bus lba48 1 d) = Writing (unat lba48) []
     \<and> store (write_pio48_cmd drive_bus lba48 1 d) = store d"
  using lba28_bytes [of lba] lba48_bytes [of lba48]
  by (simp_all add: read_pio28_cmd_def write_pio28_cmd_def read_pio48_cmd_def write_pio48_cmd_def drive_bus_def
      drive_outb_def drive_lba28_def drive_lba48_def drive_sector_def konst)

lemma drive_sector_store: "store d' = store d \<Longrightarrow> drive_sector d' = drive_sector d"
  by (rule ext) (simp add: drive_sector_def)

interpretation dr: ata_device drive_bus drive_sector "\<lambda>d. phase_of d = Idle" "\<lambda>d ws. phase_of d = Reading ws"
  "\<lambda>d l ws. phase_of d = Writing l ws \<and> length ws < 256" "\<lambda>d. phase_of d = Written" "\<lambda>d. phase_of d = Flushing" wait_for
proof (unfold_locales, goal_cases)
  case (1 d l)
  show ?case by (simp add: drive_sector_def)
next
  case (2 d lba)
  then show ?case using drive_commands(1) [of lba d] drive_sector_store by blast
next
  case (3 d lba)
  then show ?case using drive_commands(3) [of lba d] drive_sector_store by blast
next
  case (4 d lba)
  then show ?case using drive_commands(2) [of lba d] drive_sector_store [of "write_pio28_cmd drive_bus lba 1 d" d] by simp
next
  case (5 d lba)
  then show ?case using drive_commands(4) [of lba d] drive_sector_store [of "write_pio48_cmd drive_bus lba 1 d" d] by simp
next
  case (10 d l ws w)
  then show ?case using drive_sector_put [where bs = "bytes_of (ws @ [w])" and d = d and x = Written and l = l] by (simp add: drive_bus_def drive_outw_def)
qed (auto simp: drive_bus_def drive_inb_def drive_inw_def drive_outw_def drive_outb_def konst split: if_splits)

end
