(* ===== verification/Stream.thy ===== *)
theory Stream
  imports Ata_Device
begin

text \<open>
  \<open>fs/stream.c\<close>: byte streams over the disk. A stream transfers through the one-sector buffer of the device; a read or
  write that starts inside a sector and crosses its end indexes past that buffer, which is \<open>None\<close> here. For all other
  positions a stream is proved to be the disk's bytes at its position.
\<close>

record stream =
  spos :: u32
  sdev :: ata_ptr

definition stream_init :: "ata_ptr \<Rightarrow> stream" where
  "stream_init dev = \<lparr>spos = 0, sdev = dev\<rparr>"

definition stream_seek :: "stream \<Rightarrow> u32 \<Rightarrow> stream" where
  "stream_seek self pos = self\<lparr>spos := pos\<rparr>"

text \<open>The bytes stored through \<open>buffer\<close> are returned; the flag says whether \<open>buffer\<close> is non-null.\<close>

function stream_read_loop :: "'d bus \<Rightarrow> nat \<Rightarrow> nat \<Rightarrow> stream \<Rightarrow> ('d, 'm) io_scheme
    \<Rightarrow> (int \<times> u8 list \<times> stream \<times> ('d, 'm) io_scheme) option" where
  "stream_read_loop b block_size remaining self s = (if remaining = 0 then Some (0, [], self, s)
     else if block_size = 0 then None
     else let lba_block = spos self div of_nat block_size; offset = unat (spos self) mod block_size in do {
       (r, s1) \<leftarrow> ata_read b (sdev self) lba_block 1 s;
       if r < 0 then Some (- EIO, [], self, s1)
       else let read_size = (if remaining > block_size then block_size else remaining) in
         if offset + read_size > length (buffer (ata_dev s1)) then None
         else do {
           (r', bs, self', s') \<leftarrow> stream_read_loop b block_size (remaining - read_size)
               (self\<lparr>spos := spos self + of_nat read_size\<rparr>) s1;
           Some (r', take read_size (drop offset (buffer (ata_dev s1))) @ bs, self', s') } })"
  by pat_completeness auto
termination by (relation "measure (\<lambda>(b, n, r, st, s). r)") auto

declare stream_read_loop.simps [simp del]

definition stream_read :: "'d bus \<Rightarrow> bool \<Rightarrow> u32 \<Rightarrow> stream \<Rightarrow> ('d, 'm) io_scheme
    \<Rightarrow> (int \<times> u8 list \<times> stream \<times> ('d, 'm) io_scheme) option" where
  "stream_read b nonnull n_bytes self s = (if \<not> nonnull then Some (- EINVAL, [], self, s)
     else if sdev self = AtaNull then None
     else stream_read_loop b (unat (sector_size (ata_dev s))) (unat n_bytes) self s)"

function stream_write_loop :: "'d bus \<Rightarrow> nat \<Rightarrow> u8 list \<Rightarrow> nat \<Rightarrow> stream \<Rightarrow> ('d, 'm) io_scheme
    \<Rightarrow> (int \<times> stream \<times> ('d, 'm) io_scheme) option" where
  "stream_write_loop b block_size buf remaining self s = (if remaining = 0 then Some (0, self, s)
     else if block_size = 0 then None
     else let lba_block = spos self div of_nat block_size; offset = unat (spos self) mod block_size in do {
       (r, s1) \<leftarrow> ata_read b (sdev self) lba_block 1 s;
       if r < 0 then Some (- EIO, self, s1)
       else let write_size = (if remaining > block_size then block_size else remaining); db = buffer (ata_dev s1) in
         if offset + write_size > length db \<or> length buf < write_size then None
         else let db' = take offset db @ take write_size buf @ drop (offset + write_size) db;
                  s2 = s1\<lparr>ata_dev := (ata_dev s1)\<lparr>buffer := db'\<rparr>\<rparr> in do {
           (r2, s3) \<leftarrow> ata_write b (sdev self) lba_block 1 db' s2;
           if r2 < 0 then Some (- EIO, self, s3)
           else stream_write_loop b block_size (drop write_size buf) (remaining - write_size)
               (self\<lparr>spos := spos self + of_nat write_size\<rparr>) s3 } })"
  by pat_completeness auto
termination by (relation "measure (\<lambda>(b, n, bs, r, st, s). r)") auto

declare stream_write_loop.simps [simp del]

definition stream_write :: "'d bus \<Rightarrow> u8 list option \<Rightarrow> u32 \<Rightarrow> stream \<Rightarrow> ('d, 'm) io_scheme
    \<Rightarrow> (int \<times> stream \<times> ('d, 'm) io_scheme) option" where
  "stream_write b buf n_bytes self s = (case buf of None \<Rightarrow> Some (- EINVAL, self, s)
     | Some bs \<Rightarrow> if sdev self = AtaNull then None
         else stream_write_loop b (unat (sector_size (ata_dev s))) bs (unat n_bytes) self s)"

section \<open>Streams as the disk's bytes\<close>

text \<open>The positions from which \<open>n\<close> bytes can be transferred.\<close>

definition fits :: "nat \<Rightarrow> nat \<Rightarrow> bool" where
  "fits pos n \<longleftrightarrow> pos mod 512 = 0 \<or> pos mod 512 + n \<le> 512"

definition bytes_at :: "(nat \<Rightarrow> u8) \<Rightarrow> nat \<Rightarrow> nat \<Rightarrow> u8 list" where
  "bytes_at f a n = map (\<lambda>i. f (a + i)) [0..<n]"

definition put_bytes :: "nat \<Rightarrow> u8 list \<Rightarrow> (nat \<Rightarrow> u8) \<Rightarrow> nat \<Rightarrow> u8" where
  "put_bytes a bs f x = (if a \<le> x \<and> x < a + length bs then bs ! (x - a) else f x)"

lemma length_bytes_at [simp]: "length (bytes_at f a n) = n" by (simp add: bytes_at_def)

lemma nth_bytes_at [simp]: "i < n \<Longrightarrow> bytes_at f a n ! i = f (a + i)" by (simp add: bytes_at_def)

lemma bytes_at_0 [simp]: "bytes_at f a 0 = []" by (simp add: bytes_at_def)

lemma bytes_at_append: "bytes_at f a m @ bytes_at f (a + m) n = bytes_at f a (m + n)"
  by (rule nth_equalityI) (auto simp: nth_append)

lemma put_bytes_Nil [simp]: "put_bytes a [] f = f" by (rule ext) (auto simp: put_bytes_def)

lemma put_bytes_append: "put_bytes (a + length bs) cs (put_bytes a bs f) = put_bytes a (bs @ cs) f"
proof
  fix x
  have "x - a - length bs = x - (a + length bs)" by simp
  then show "put_bytes (a + length bs) cs (put_bytes a bs f) x = put_bytes a (bs @ cs) f x"
    by (auto simp: put_bytes_def nth_append)
qed

lemma bytes_at_put_same: "bytes_at (put_bytes a bs f) a (length bs) = bs"
  by (rule nth_equalityI) (auto simp: put_bytes_def)

lemma bytes_at_put_other: "b + n \<le> a \<or> a + length bs \<le> b \<Longrightarrow> bytes_at (put_bytes a bs f) b n = bytes_at f b n"
  by (rule nth_equalityI) (auto simp: put_bytes_def)

context ata_device
begin

lemma sector_disk: "sector (hw s) l = bytes_at (disk s) (512 * l) 512"
proof (rule nth_equalityI)
  show "length (sector (hw s) l) = length (bytes_at (disk s) (512 * l) 512)" by (simp add: sector_length)
  fix i assume "i < length (sector (hw s) l)"
  then show "sector (hw s) l ! i = bytes_at (disk s) (512 * l) 512 ! i" by (simp add: sector_length disk_of_def)
qed

lemma block_of_pos:
  "unat ((p :: u32) div 512) = unat p div 512" "p div 512 < 2 ^ 28"
  "512 * (unat p div 512) + unat p mod 512 = unat p"
proof -
  show u: "unat (p div 512) = unat p div 512" by (simp add: unat_div)
  have "unat p div 512 < 2 ^ 28" using unat_bound [of p] by (simp add: less_mult_imp_div_less)
  then show "p div 512 < 2 ^ 28" by (simp add: word_less_nat_alt u)
qed simp

text \<open>Every block transfer of a stream, for use by the two loops.\<close>

lemma stream_block_read:
  assumes "ready s"
  obtains s1 where "ata_read b AtaDev (p div 512) 1 s = Some (0, s1)" "quiet s s1"
    and "buffer (ata_dev s1) = bytes_at (disk s) (512 * (unat p div 512)) 512"
  using ata_read_sector [OF assms block_of_pos(2) [of p]] that by (auto simp: sector_disk block_of_pos(1))

lemma pos_advance: "unat p + n < 2 ^ 32 \<Longrightarrow> unat ((p :: u32) + of_nat n) = unat p + n"
  by (simp add: unat_word_ariths unat_of_nat)

lemma fits_step: "fits p n \<Longrightarrow> 512 < n \<Longrightarrow> p mod 512 = 0 \<and> fits (p + 512) (n - 512)"
  by (auto simp: fits_def)

lemma take_drop_bytes_at: "k + m \<le> n \<Longrightarrow> take m (drop k (bytes_at f a n)) = bytes_at f (a + k) m"
  by (rule nth_equalityI) (auto simp: add.assoc)

lemma stream_read_loop_ok:
  "ready s \<Longrightarrow> sdev st = AtaDev \<Longrightarrow> fits (unat (spos st)) n \<Longrightarrow> unat (spos st) + n < 2 ^ 32 \<Longrightarrow>
   \<exists>s'. stream_read_loop b 512 n st s =
     Some (0, bytes_at (disk s) (unat (spos st)) n, st\<lparr>spos := spos st + of_nat n\<rparr>, s') \<and> quiet s s'"
proof (induction n arbitrary: st s rule: less_induct)
  case (less n)
  let ?p = "spos st"
  let ?m = "if 512 < n then 512 else n"
  show ?case
  proof (cases "n = 0")
    case True
    then show ?thesis using less.prems(1) by (subst stream_read_loop.simps) (simp add: quiet_refl)
  next
    case False
    from stream_block_read [OF less.prems(1)] obtain s1 where
      s1: "ata_read b AtaDev (?p div 512) 1 s = Some (0, s1)" "quiet s s1"
        "buffer (ata_dev s1) = bytes_at (disk s) (512 * (unat ?p div 512)) 512" by blast
    have o: "unat ?p mod 512 + ?m \<le> 512"
      using fits_step [OF less.prems(3)] less.prems(3) mod_less_divisor [of 512 "unat ?p"] by (auto simp: fits_def)
    have d: "take ?m (drop (unat ?p mod 512) (buffer (ata_dev s1))) = bytes_at (disk s) (unat ?p) ?m"
      unfolding s1(3) using take_drop_bytes_at [OF o, of "disk s" "512 * (unat ?p div 512)"] by (simp add: block_of_pos(3))
    let ?st = "st\<lparr>spos := ?p + of_nat ?m\<rparr>"
    have pm: "unat (spos ?st) = unat ?p + ?m" using pos_advance [of ?p ?m] less.prems(4) by simp
    have f: "fits (unat (spos ?st)) (n - ?m)"
      unfolding pm using fits_step [OF less.prems(3)] by (auto simp: fits_def)
    have "ready s1" "unat (spos ?st) + (n - ?m) < 2 ^ 32" "n - ?m < n"
      using s1(2) pm less.prems(4) False by (auto simp: quiet_ready)
    with less.IH [of "n - ?m" s1 ?st] less.prems(2) f obtain s2 where
      s2: "stream_read_loop b 512 (n - ?m) ?st s1 = Some (0, bytes_at (disk s1) (unat (spos ?st)) (n - ?m),
         ?st\<lparr>spos := spos ?st + of_nat (n - ?m)\<rparr>, s2)" "quiet s1 s2" by auto
    have e: "?st\<lparr>spos := spos ?st + of_nat (n - ?m)\<rparr> = st\<lparr>spos := ?p + of_nat n\<rparr>"
      by (simp add: add.assoc flip: of_nat_add)
    have c: "bytes_at (disk s) (unat ?p) ?m @ bytes_at (disk s1) (unat (spos ?st)) (n - ?m) = bytes_at (disk s) (unat ?p) n"
      unfolding pm quiet_disk [OF s1(2)] bytes_at_append by simp
    have "stream_read_loop b 512 n st s = Some (0, bytes_at (disk s) (unat ?p) n, st\<lparr>spos := ?p + of_nat n\<rparr>, s2)"
      using s1(1) s2(1) o d e c False less.prems(2) s1(3)
      by (subst stream_read_loop.simps) (simp add: Let_def)
    with quiet_trans [OF s1(2) s2(2)] show ?thesis by blast
  qed
qed

lemma disk_after_write:
  assumes "sector d' = (sector (hw s))(l := bs)" "length bs = 512"
  shows "disk (s\<lparr>hw := d'\<rparr>) = put_bytes (512 * l) bs (disk s)"
proof
  fix x
  have "512 * l \<le> x \<and> x < 512 * l + 512 \<longleftrightarrow> x div 512 = l" by auto
  moreover have "x - 512 * l = x mod 512" if "x div 512 = l" using that by (auto simp: minus_mult_div_eq_mod)
  ultimately show "disk (s\<lparr>hw := d'\<rparr>) x = put_bytes (512 * l) bs (disk s) x"
    using assms by (auto simp: disk_of_def put_bytes_def)
qed

text \<open>Rewriting part of a sector through the buffer changes just that part of the disk.\<close>

lemma splice_sector:
  assumes "k + length bs \<le> 512"
  shows "put_bytes a (take k (bytes_at f a 512) @ bs @ drop (k + length bs) (bytes_at f a 512)) f = put_bytes (a + k) bs f"
  using assms by (auto simp: put_bytes_def nth_append fun_eq_iff)

lemma stream_block_write:
  assumes "ready s" "unat p mod 512 + length bs \<le> 512"
    and db: "buffer (ata_dev s) = bytes_at (disk s) (512 * (unat p div 512)) 512"
    and "db' = take (unat p mod 512) (buffer (ata_dev s)) @ bs @ drop (unat p mod 512 + length bs) (buffer (ata_dev s))"
  shows "\<exists>s'. ata_write b AtaDev (p div 512) 1 db' (s\<lparr>ata_dev := (ata_dev s)\<lparr>buffer := db'\<rparr>\<rparr>) = Some (0, s')
    \<and> framed s s' \<and> disk s' = put_bytes (unat p) bs (disk s)"
proof -
  let ?s = "s\<lparr>ata_dev := (ata_dev s)\<lparr>buffer := db'\<rparr>\<rparr>"
  have l: "length db' = 512" using assms(2,3,4) by simp
  then have "ready ?s" using assms(1) by (simp add: dev_ready_def)
  from ata_write_sector [OF this block_of_pos(2) l, of p] obtain d' where
    w: "ata_write b AtaDev (p div 512) 1 db' ?s = Some (0, ?s\<lparr>hw := d'\<rparr>)" "idle d'"
      "sector d' = (sector (hw s))(unat p div 512 := db')" by (auto simp: block_of_pos(1))
  have "disk (?s\<lparr>hw := d'\<rparr>) = disk (s\<lparr>hw := d'\<rparr>)" by (rule ext) (simp add: disk_of_def)
  also have "\<dots> = put_bytes (512 * (unat p div 512)) db' (disk s)" using disk_after_write [OF w(3) l] .
  also have "\<dots> = put_bytes (unat p) bs (disk s)"
    using splice_sector [OF assms(2), of "512 * (unat p div 512)" "disk s"] by (simp add: assms(3,4) block_of_pos(3))
  finally have "disk (?s\<lparr>hw := d'\<rparr>) = put_bytes (unat p) bs (disk s)" .
  moreover have "framed s (?s\<lparr>hw := d'\<rparr>)" using assms(1) w(2) l by (simp add: dev_framed_def dev_ready_def)
  ultimately show ?thesis using w(1) by blast
qed

lemma stream_write_loop_ok:
  "ready s \<Longrightarrow> sdev st = AtaDev \<Longrightarrow> fits (unat (spos st)) (length bs) \<Longrightarrow> unat (spos st) + length bs < 2 ^ 32 \<Longrightarrow>
   \<exists>s'. stream_write_loop b 512 (bs @ cs) (length bs) st s = Some (0, st\<lparr>spos := spos st + of_nat (length bs)\<rparr>, s')
     \<and> framed s s' \<and> disk s' = put_bytes (unat (spos st)) bs (disk s)"
proof (induction "length bs" arbitrary: bs st s rule: less_induct)
  case less
  let ?p = "spos st"
  let ?n = "length bs"
  let ?m = "if 512 < ?n then 512 else ?n"
  show ?case
  proof (cases "bs = []")
    case True
    then show ?thesis using less.prems(1) by (subst stream_write_loop.simps) (simp add: framed_refl)
  next
    case False
    from stream_block_read [OF less.prems(1)] obtain s1 where
      s1: "ata_read b AtaDev (?p div 512) 1 s = Some (0, s1)" "quiet s s1"
        "buffer (ata_dev s1) = bytes_at (disk s1) (512 * (unat ?p div 512)) 512" by (metis quiet_disk)
    have o: "unat ?p mod 512 + ?m \<le> 512"
      using fits_step [OF less.prems(3)] less.prems(3) mod_less_divisor [of 512 "unat ?p"] by (auto simp: fits_def)
    have lm: "length (take ?m bs) = ?m" by simp
    define db' where "db' = take (unat ?p mod 512) (buffer (ata_dev s1)) @ take ?m bs
      @ drop (unat ?p mod 512 + ?m) (buffer (ata_dev s1))"
    from stream_block_write [of s1 ?p "take ?m bs" db'] s1(2,3) o obtain s2 where
      s2: "ata_write b AtaDev (?p div 512) 1 db' (s1\<lparr>ata_dev := (ata_dev s1)\<lparr>buffer := db'\<rparr>\<rparr>) = Some (0, s2)"
        "framed s1 s2" "disk s2 = put_bytes (unat ?p) (take ?m bs) (disk s1)"
      unfolding lm db'_def by (auto simp: quiet_ready)
    let ?st = "st\<lparr>spos := ?p + of_nat ?m\<rparr>"
    have pm: "unat (spos ?st) = unat ?p + ?m" using pos_advance [of ?p ?m] less.prems(4) by simp
    have f: "fits (unat (spos ?st)) (length (drop ?m bs))"
      unfolding pm using fits_step [OF less.prems(3)] by (auto simp: fits_def)
    have "ready s2" "unat (spos ?st) + length (drop ?m bs) < 2 ^ 32" "length (drop ?m bs) < ?n"
      using s2(2) pm less.prems(4) False by (auto simp: dev_framed_def)
    with less.hyps [of "drop ?m bs" s2 ?st] less.prems(2) f obtain s3 where
      s3: "stream_write_loop b 512 (drop ?m bs @ cs) (length (drop ?m bs)) ?st s2
        = Some (0, ?st\<lparr>spos := spos ?st + of_nat (length (drop ?m bs))\<rparr>, s3)" "framed s2 s3"
        "disk s3 = put_bytes (unat (spos ?st)) (drop ?m bs) (disk s2)" by auto
    have e: "?st\<lparr>spos := spos ?st + of_nat (length (drop ?m bs))\<rparr> = st\<lparr>spos := ?p + of_nat ?n\<rparr>"
      by (simp add: add.assoc flip: of_nat_add)
    have "disk s3 = put_bytes (unat ?p) bs (disk s)"
      unfolding s3(3) pm s2(3) quiet_disk [OF s1(2)]
      using put_bytes_append [of "unat ?p" "take ?m bs" "drop ?m bs" "disk s"] by (simp only: lm append_take_drop_id)
    moreover have "framed s s3"
      using framed_trans [OF quiet_framed [OF s1(2)] framed_trans [OF s2(2) s3(2)]] .
    moreover have "stream_write_loop b 512 (bs @ cs) ?n st s = Some (0, st\<lparr>spos := ?p + of_nat ?n\<rparr>, s3)"
      using s1(1) s2(1) s3(1) o e False less.prems(2) s1(3)
      by (subst stream_write_loop.simps) (simp add: Let_def db'_def)
    ultimately show ?thesis by blast
  qed
qed

lemma stream_read_ok:
  assumes "ready s" "sdev st = AtaDev" "fits (unat (spos st)) (unat n)" "unat (spos st) + unat n < 2 ^ 32"
  shows "\<exists>s'. stream_read b True n st s =
     Some (0, bytes_at (disk s) (unat (spos st)) (unat n), st\<lparr>spos := spos st + n\<rparr>, s') \<and> quiet s s'"
  using stream_read_loop_ok [OF assms] assms(1,2) by (simp add: stream_read_def dev_ready_def)

lemma stream_write_ok:
  assumes "ready s" "sdev st = AtaDev" "fits (unat (spos st)) (unat n)" "unat (spos st) + unat n < 2 ^ 32" "unat n \<le> length bs"
  shows "\<exists>s'. stream_write b (Some bs) n st s = Some (0, st\<lparr>spos := spos st + n\<rparr>, s')
    \<and> framed s s' \<and> disk s' = put_bytes (unat (spos st)) (take (unat n) bs) (disk s)"
proof -
  let ?c = "take (unat n) bs"
  have "length ?c = unat n" using assms(5) by simp
  with stream_write_loop_ok [OF assms(1,2), of ?c "drop (unat n) bs"] assms show ?thesis
    by (simp add: stream_write_def dev_ready_def)
qed

lemma stream_read_crosses:
  assumes "ready s" "sdev st = AtaDev" "\<not> fits (unat (spos st)) (unat n)"
  shows "stream_read b True n st s = None"
proof -
  let ?p = "spos st"
  from stream_block_read [OF assms(1)] obtain s1 where
    s1: "ata_read b AtaDev (?p div 512) 1 s = Some (0, s1)" "buffer (ata_dev s1) = bytes_at (disk s) (512 * (unat ?p div 512)) 512"
    by blast
  moreover have "unat n \<noteq> 0" "512 < unat ?p mod 512 + (if 512 < unat n then 512 else unat n)"
    using assms(3) mod_less_divisor [of 512 "unat ?p"] by (auto simp: fits_def)
  ultimately show ?thesis using assms(1,2)
    by (simp add: stream_read_def dev_ready_def) (subst stream_read_loop.simps, simp)
qed

end

section \<open>Properties\<close>

text \<open>The drive used by the witnesses: byte \<open>a\<close> of the disk is \<open>a mod 256\<close>.\<close>

definition drive0 :: drive where
  "drive0 = \<lparr>reg = (\<lambda>_. 0), old = (\<lambda>_. 0), store = (\<lambda>a. of_nat (a mod 256)), phase_of = Idle, wait_for = 0\<rparr>"

definition io0 :: "drive io" where
  "io0 = \<lparr>ata_dev = \<lparr>dev_name = [0x41, 0], sector_size = 512, total_sectors = 0, capacity = 0, buffer = replicate 512 0,
     afs = 0, features = 0\<rparr>, hw = drive0\<rparr>"

lemma io0_ready: "dev_ready (\<lambda>d. phase_of d = Idle) io0"
  by (simp add: dev_ready_def io0_def drive0_def)

lemma io0_disk: "disk_of drive_sector io0 a = of_nat (a mod 256)"
  by (simp add: disk_of_def io0_def drive0_def drive_sector_def)

text \<open>C12: On a drive that follows the ATA protocol, \<open>stream_read\<close> returns 0 and exactly the disk's bytes at the stream's
  position, advances the position and leaves the disk alone, whenever the transfer starts on a sector boundary or stays inside
  one sector; in every other case it indexes the 512-byte transfer buffer out of bounds.\<close>

theorem stream_reads_disk:
  assumes "ata_device b sector idle reading writing written flushing delay" "dev_ready idle s" "sdev st = AtaDev"
    and "unat (spos st) + unat n < 2 ^ 32"
  shows "if fits (unat (spos st)) (unat n)
    then \<exists>s'. stream_read b True n st s
        = Some (0, bytes_at (disk_of sector s) (unat (spos st)) (unat n), st\<lparr>spos := spos st + n\<rparr>, s')
      \<and> dev_quiet idle sector s s'
    else stream_read b True n st s = None"
  using ata_device.stream_read_ok [OF assms(1-3) _ assms(4)] ata_device.stream_read_crosses [OF assms(1-3)] by simp

theorem stream_reads_disk_witness:
  "(\<exists>s'. stream_read drive_bus True 4 \<lparr>spos = 0x100010, sdev = AtaDev\<rparr> io0
      = Some (0, [16, 17, 18, 19], \<lparr>spos = 0x100014, sdev = AtaDev\<rparr>, s'))
   \<and> stream_read drive_bus True 4 \<lparr>spos = 510, sdev = AtaDev\<rparr> io0 = None"
proof -
  have i: "unat (510 :: u32) mod 512 = 510" "unat (0x100010 :: u32) mod 512 = 16" by simp_all
  show ?thesis
    using stream_reads_disk [OF dr.ata_device_axioms io0_ready, of "\<lparr>spos = 0x100010, sdev = AtaDev\<rparr>" 4]
      stream_reads_disk [OF dr.ata_device_axioms io0_ready, of "\<lparr>spos = 510, sdev = AtaDev\<rparr>" 4] i
    by (simp add: fits_def bytes_at_def upt_rec io0_disk) blast
qed

text \<open>C13: \<open>stream_write\<close> replaces exactly the bytes at the stream's position: a read at any position afterwards returns
  the new bytes where it overlaps the write and the old ones elsewhere. Nothing else of the kernel state changes.\<close>

theorem stream_write_then_read:
  assumes "ata_device b sector idle reading writing written flushing delay" "dev_ready idle s" "sdev st = AtaDev" "sdev st' = AtaDev"
    and "fits (unat (spos st)) (unat n)" "unat (spos st) + unat n < 2 ^ 32" "length bs = unat n"
    and "fits (unat (spos st')) (unat k)" "unat (spos st') + unat k < 2 ^ 32"
  shows "\<exists>s1 s2 st2. stream_write b (Some bs) n st s = Some (0, st\<lparr>spos := spos st + n\<rparr>, s1) \<and> dev_framed idle s s1
    \<and> stream_read b True k st' s1
        = Some (0, bytes_at (put_bytes (unat (spos st)) bs (disk_of sector s)) (unat (spos st')) (unat k), st2, s2)"
proof -
  from ata_device.stream_write_ok [OF assms(1-3,5,6), of bs] assms(7) obtain s1 where
    s1: "stream_write b (Some bs) n st s = Some (0, st\<lparr>spos := spos st + n\<rparr>, s1)" "dev_framed idle s s1"
      "disk_of sector s1 = put_bytes (unat (spos st)) bs (disk_of sector s)" by auto
  then have "dev_ready idle s1" by (simp add: dev_framed_def)
  from ata_device.stream_read_ok [OF assms(1) this assms(4,8,9)] s1 show ?thesis by metis
qed

theorem stream_write_then_read_witness:
  "\<exists>s1 s2 st1 st2. stream_write drive_bus (Some [7, 8]) 2 \<lparr>spos = 1024, sdev = AtaDev\<rparr> io0 = Some (0, st1, s1)
    \<and> stream_read drive_bus True 4 \<lparr>spos = 1023, sdev = AtaDev\<rparr> s1 = None
    \<and> stream_read drive_bus True 3 \<lparr>spos = 1024, sdev = AtaDev\<rparr> s1 = Some (0, [7, 8, 2], st2, s2)"
proof -
  have f: "fits (unat (spos \<lparr>spos = 1024, sdev = AtaDev\<rparr>)) k" for k by (simp add: fits_def)
  from stream_write_then_read [OF dr.ata_device_axioms io0_ready _ _ f _ _ f, of 2 "[7, 8]" 3]
  obtain s1 st1 st2 s2 where s: "stream_write drive_bus (Some [7, 8]) 2 \<lparr>spos = 1024, sdev = AtaDev\<rparr> io0 = Some (0, st1, s1)"
    "dev_framed (\<lambda>d. phase_of d = Idle) io0 s1"
    "stream_read drive_bus True 3 \<lparr>spos = 1024, sdev = AtaDev\<rparr> s1
      = Some (0, bytes_at (put_bytes 1024 [7, 8] (disk_of drive_sector io0)) 1024 3, st2, s2)" by auto
  have "unat (1023 :: u32) mod 512 = 511" by simp
  then have "stream_read drive_bus True 4 \<lparr>spos = 1023, sdev = AtaDev\<rparr> s1 = None"
    using s(2) by (intro dr.stream_read_crosses) (auto simp: dev_framed_def fits_def)
  moreover have "bytes_at (put_bytes 1024 [7, 8] (disk_of drive_sector io0)) 1024 3 = [7, 8, 2]"
    by (simp add: bytes_at_def upt_rec put_bytes_def io0_disk)
  ultimately show ?thesis using s by metis
qed

end
