(* ===== verification/Fat16_Table.thy ===== *)
theory Fat16_Table
  imports Fat16_Codec Stream
begin

text \<open>
  The file allocation table of \<open>fat16.c\<close>: reading and writing entries through streams, following cluster chains and
  finding free clusters. The proofs relate these operations to the table as a function from clusters to entries and to
  chains as lists.
\<close>

unbundle bit_operations_syntax

section \<open>Operations\<close>

text \<open>The driver state: the device state and the global \<open>fat16_header\<close>.\<close>

record 'd fat_state = "'d io" +
  fat16_header :: fat16_internal_header

abbreviation bpb_of :: "('d, 'm) fat_state_scheme \<Rightarrow> bpb" where
  "bpb_of s \<equiv> hbpb (fat16_header s)"

definition fat_entry_offset :: "bpb \<Rightarrow> u32 \<Rightarrow> u16 \<Rightarrow> u32" where
  "fat_entry_offset p partition_offset cluster = partition_offset + ucast (rsvd_sec p) * ucast (byts_per_sec p) + ucast cluster * 2"

text \<open>A local \<open>uint8_t fat_entry[2] = {}\<close> after a read: zero where nothing was stored.\<close>

definition entry_word :: "u8 list \<Rightarrow> u16" where
  "entry_word bs = word16 (char_at bs 0) (char_at bs 1)"

definition fat16_get_next_cluster :: "'d bus \<Rightarrow> stream \<Rightarrow> u32 \<Rightarrow> u16 \<Rightarrow> ('d, 'm) fat_state_scheme
    \<Rightarrow> (u16 \<times> stream \<times> ('d, 'm) fat_state_scheme) option" where
  "fat16_get_next_cluster b fat_stream partition_offset curr_cluster s = do {
     (r, bs, st, s') \<leftarrow> stream_read b True 2 (stream_seek fat_stream (fat_entry_offset (bpb_of s) partition_offset curr_cluster)) s;
     Some (entry_word bs, st, s') }"

definition fat16_create_fat_entry :: "'d bus \<Rightarrow> ata_ptr \<Rightarrow> u32 \<Rightarrow> u16 \<Rightarrow> ('d, 'm) fat_state_scheme
    \<Rightarrow> (bool \<times> ('d, 'm) fat_state_scheme) option" where
  "fat16_create_fat_entry b dev cluster v s =
     (if dev = AtaNull \<or> cluster < 2 \<or> cluster \<ge> of_nat FAT16_MAX_CLUSTERS then Some (False, s)
      else let fat_offset = fat16_get_fat_table_absolute (bpb_of s) PARTITION_OFFSET;
               fat_stream = stream_seek (stream_init dev) (fat_offset + cluster * 2) in do {
        (r, st, s') \<leftarrow> stream_write b (Some (le16 v)) 2 fat_stream s;
        Some (\<not> r < 0, s') })"

function next_free_from :: "'d bus \<Rightarrow> nat \<Rightarrow> stream \<Rightarrow> u32 \<Rightarrow> ('d, 'm) fat_state_scheme
    \<Rightarrow> (u16 \<times> stream \<times> ('d, 'm) fat_state_scheme) option" where
  "next_free_from b cluster fat_stream partition_offset s =
     (if cluster < FAT16_MAX_CLUSTERS then do {
        (r, bs, st, s') \<leftarrow> stream_read b True 2 (stream_seek fat_stream (fat_entry_offset (bpb_of s) partition_offset (of_nat cluster))) s;
        if r < 0 then Some (0, st, s')
        else if entry_word bs = 0 then Some (of_nat cluster, st, s')
        else next_free_from b (cluster + 1) st partition_offset s' }
      else Some (0, fat_stream, s))"
  by pat_completeness auto
termination by (relation "measure (\<lambda>(b, c, st, p, s). FAT16_MAX_CLUSTERS - c)") auto

declare next_free_from.simps [simp del]

definition fat16_get_next_free_cluster :: "'d bus \<Rightarrow> stream \<Rightarrow> u32 \<Rightarrow> ('d, 'm) fat_state_scheme
    \<Rightarrow> (u16 \<times> stream \<times> ('d, 'm) fat_state_scheme) option" where
  "fat16_get_next_free_cluster b fat_stream partition_offset s = next_free_from b 3 fat_stream partition_offset s"

text \<open>The loop follows the table and does not return on a cyclic chain.\<close>

partial_function (option) chain_length_loop :: "'d bus \<Rightarrow> stream \<Rightarrow> u32 \<Rightarrow> u16 \<Rightarrow> u16 \<Rightarrow> ('d, 'm) fat_state_scheme
    \<Rightarrow> (u16 \<times> stream \<times> ('d, 'm) fat_state_scheme) option" where
  "chain_length_loop b st partition_offset used_blocks next_cluster s =
     (if next_cluster < FAT16_VALUE_END_OF_CHAIN then do {
        (nxt, st', s') \<leftarrow> fat16_get_next_cluster b st partition_offset next_cluster s;
        chain_length_loop b st' partition_offset (used_blocks + 1) nxt s' }
      else Some (used_blocks, st, s))"

definition fat16_get_cluster_chain_length :: "'d bus \<Rightarrow> stream \<Rightarrow> u16 \<Rightarrow> u32 \<Rightarrow> u32 \<Rightarrow> ('d, 'm) fat_state_scheme
    \<Rightarrow> (u16 \<times> stream \<times> ('d, 'm) fat_state_scheme) option" where
  "fat16_get_cluster_chain_length b st cluster_size start_cluster partition_offset s =
     (if cluster_size = 0 then None
      else do {
        (nxt, st', s') \<leftarrow> fat16_get_next_cluster b st partition_offset (ucast start_cluster) s;
        chain_length_loop b st' partition_offset 1 nxt s' })"

text \<open>What \<open>fat16_dump_fat_entry\<close> prints: the entry and its classification.\<close>

datatype fat_class = Cluster_free | End_of_chain | Bad_cluster | Next_cluster u16

definition fat16_dump_fat_entry :: "'d bus \<Rightarrow> ata_ptr \<Rightarrow> u16 \<Rightarrow> ('d, 'm) fat_state_scheme
    \<Rightarrow> ((u16 \<times> fat_class) option \<times> ('d, 'm) fat_state_scheme) option" where
  "fat16_dump_fat_entry b dev cluster s =
     (if dev = AtaNull \<or> cluster < 2 \<or> unat cluster \<ge> FAT16_MAX_CLUSTERS then Some (None, s)
      else do {
        (r, bs, st, s') \<leftarrow> stream_read b True 2 (stream_seek (stream_init dev)
            (fat16_get_fat_table_absolute (bpb_of s) PARTITION_OFFSET + ucast cluster * 2)) s;
        if r < 0 then Some (None, s')
        else let v = entry_word bs in
          Some (Some (v, if v = FAT16_VALUE_FREE then Cluster_free else if v \<ge> FAT16_VALUE_END_OF_CHAIN then End_of_chain
            else if v = FAT16_VALUE_BAD_CLUSTER then Bad_cluster else Next_cluster v), s') })"

text \<open>The step of \<open>fat16_write\<close> that lengthens a chain: find a free cluster, link it behind \<open>curr_cluster\<close> and mark it as
  the end. The result 0 is the early return with \<open>-ENOSPC\<close>.\<close>

definition append_cluster :: "'d bus \<Rightarrow> ata_ptr \<Rightarrow> stream \<Rightarrow> u16 \<Rightarrow> ('d, 'm) fat_state_scheme
    \<Rightarrow> (u16 \<times> stream \<times> ('d, 'm) fat_state_scheme) option" where
  "append_cluster b dev fat_stream curr_cluster s = do {
     (new_cluster, st, s1) \<leftarrow> fat16_get_next_free_cluster b fat_stream PARTITION_OFFSET s;
     if new_cluster = 0 then Some (0, st, s1)
     else do {
       (r1, s2) \<leftarrow> fat16_create_fat_entry b dev (ucast curr_cluster) new_cluster s1;
       (r2, s3) \<leftarrow> fat16_create_fat_entry b dev (ucast new_cluster) FAT16_VALUE_END_OF_CHAIN s2;
       Some (new_cluster, st, s3) } }"

section \<open>The table as a function\<close>

text \<open>Where the entries lie and what they hold.\<close>

definition fat_pos :: "bpb \<Rightarrow> u16 \<Rightarrow> nat" where
  "fat_pos p c = 0x100000 + 512 * unat (rsvd_sec p) + 2 * unat c"

definition fat_of :: "bpb \<Rightarrow> (nat \<Rightarrow> u8) \<Rightarrow> u16 \<Rightarrow> u16" where
  "fat_of p D c = word16 (D (fat_pos p c)) (D (fat_pos p c + 1))"

lemma fat_entry_offset_pos:
  assumes "byts_per_sec p = 512"
  shows "unat (fat_entry_offset p PARTITION_OFFSET c) = fat_pos p c"
    "fat16_get_fat_table_absolute p PARTITION_OFFSET + ucast c * 2 = fat_entry_offset p PARTITION_OFFSET c"
    "fat_pos p c + 2 < 2 ^ 32"
proof -
  have b: "unat (rsvd_sec p) < 2 ^ 16" "unat c < 2 ^ 16" using unat_bound [of "rsvd_sec p"] unat_bound [of c] by simp_all
  have u: "unat (ucast (rsvd_sec p) :: u32) = unat (rsvd_sec p)" "unat (ucast c :: u32) = unat c" by (simp_all add: unat_ucast_wide)
  show "fat16_get_fat_table_absolute p PARTITION_OFFSET + ucast c * 2 = fat_entry_offset p PARTITION_OFFSET c"
    by (simp add: fat16_get_fat_table_absolute_def fat16_get_fat_table_offset_def fat_entry_offset_def)
  show "fat_pos p c + 2 < 2 ^ 32" using b by (simp add: fat_pos_def)
  have "ucast (byts_per_sec p) = (512 :: u32)" using assms by simp
  then show "unat (fat_entry_offset p PARTITION_OFFSET c) = fat_pos p c"
    using b by (simp add: fat_entry_offset_def fat_pos_def konst unat_word_ariths u)
qed

lemma fat_pos_even: "even (fat_pos p c)" by (simp add: fat_pos_def)

lemma fits_even: "even a \<Longrightarrow> fits a 2"
proof -
  assume "even a"
  then have "even (a mod 512)" by (simp add: dvd_mod_iff)
  moreover have "m + 2 \<le> 512" if "even m" "m < 512" for m :: nat using that by presburger
  ultimately show ?thesis by (simp add: fits_def)
qed

lemma entry_word_bytes_at: "entry_word (bytes_at D a 2) = word16 (D a) (D (a + 1))"
  by (simp add: entry_word_def char_at_def)

lemma fat_of_put:
  "fat_of p (put_bytes (fat_pos p c) (le16 v) D) = (fat_of p D)(c := v)"
proof
  fix x
  show "fat_of p (put_bytes (fat_pos p c) (le16 v) D) x = ((fat_of p D)(c := v)) x"
  proof (cases "x = c")
    case False
    then have "unat x \<noteq> unat c" by (simp add: word_eq_iff_unsigned [where 'a = nat])
    with False show ?thesis by (auto simp: fat_of_def put_bytes_def fat_pos_def)
  qed (simp add: fat_of_def put_bytes_def le16_def)
qed

section \<open>Chains\<close>

fun is_chain :: "(u16 \<Rightarrow> u16) \<Rightarrow> u16 list \<Rightarrow> bool" where
  "is_chain F [] \<longleftrightarrow> False"
| "is_chain F [c] \<longleftrightarrow> 2 \<le> c \<and> F c \<ge> FAT16_VALUE_END_OF_CHAIN"
| "is_chain F (c # d # cs) \<longleftrightarrow> 2 \<le> c \<and> F c = d \<and> d < FAT16_VALUE_END_OF_CHAIN \<and> is_chain F (d # cs)"

lemma is_chain_update: "c \<notin> set cs \<Longrightarrow> is_chain (F(c := v)) cs \<longleftrightarrow> is_chain F cs"
  by (induction F cs rule: is_chain.induct) auto

text \<open>A chain of a table is the only one from its first cluster, and it visits no cluster twice.\<close>

lemma is_chain_unique: "is_chain F (c # cs) \<Longrightarrow> is_chain F (c # ds) \<Longrightarrow> cs = ds"
proof (induction cs arbitrary: c ds)
  case Nil
  then show ?case by (cases ds) auto
next
  case (Cons d cs)
  then show ?case by (cases ds) auto
qed

lemma is_chain_suffix: "is_chain F (xs @ c # ys) \<Longrightarrow> is_chain F (c # ys)"
proof (induction xs)
  case (Cons x xs)
  then show ?case by (cases xs) auto
qed simp

lemma is_chain_distinct: "is_chain F cs \<Longrightarrow> distinct cs"
proof (rule ccontr)
  assume c: "is_chain F cs" and "\<not> distinct cs"
  then obtain xs ys zs y where "cs = xs @ y # ys @ y # zs" using not_distinct_decomp by (metis append_Cons append_assoc append_Nil)
  with c have "is_chain F (y # ys @ y # zs)" "is_chain F (y # zs)"
    using is_chain_suffix [of F xs y "ys @ y # zs"] is_chain_suffix [of F "xs @ y # ys" y zs] by simp_all
  then have "ys @ y # zs = zs" by (rule is_chain_unique)
  then have "length (ys @ y # zs) = length zs" by simp
  then show False by simp
qed

lemma is_chain_ge2: "is_chain F cs \<Longrightarrow> \<forall>c \<in> set cs. 2 \<le> c"
  by (induction F cs rule: is_chain.induct) auto

lemma is_chain_short: "is_chain F cs \<Longrightarrow> length cs < 2 ^ 16"
proof -
  assume c: "is_chain F cs"
  have "card (unat ` set cs) = card (set cs)" by (intro card_image inj_onI) (simp add: word_eq_iff_unsigned [where 'a = nat])
  moreover have "card (set cs) = length cs" by (simp add: distinct_card is_chain_distinct [OF c])
  moreover have "unat ` set cs \<subseteq> {1..<2 ^ 16}"
  proof
    fix x assume "x \<in> unat ` set cs"
    then obtain k where k: "k \<in> set cs" "x = unat k" by blast
    with is_chain_ge2 [OF c] have "2 \<le> unat k" by (simp add: word_le_nat_alt)
    then show "x \<in> {1..<2 ^ 16}" using k(2) unat_bound [of k] by simp
  qed
  then have "card (unat ` set cs) \<le> card {1..<(2 :: nat) ^ 16}" by (rule card_mono [OF finite_atLeastLessThan])
  ultimately show ?thesis by simp
qed

text \<open>No cluster of a chain is marked free.\<close>

lemma is_chain_used: "is_chain F cs \<Longrightarrow> c \<in> set cs \<Longrightarrow> F c \<noteq> 0"
proof -
  assume c: "is_chain F cs" and "c \<in> set cs"
  then obtain xs ys where "cs = xs @ c # ys" by (meson split_list)
  with c have "is_chain F (c # ys)" using is_chain_suffix by blast
  then show ?thesis by (cases ys; cases "tl ys") (auto simp: konst)
qed

lemma is_chain_snoc:
  assumes "is_chain F (xs @ [c])" "n \<notin> set (xs @ [c])" "n < FAT16_VALUE_END_OF_CHAIN" "v \<ge> FAT16_VALUE_END_OF_CHAIN" "2 \<le> n"
  shows "is_chain (F(c := n, n := v)) (xs @ [c, n])"
  using assms
proof (induction xs)
  case (Cons x xs)
  show ?case
  proof (cases xs)
    case Nil
    with Cons show ?thesis using is_chain_distinct [OF Cons.prems(1)] by auto
  next
    case (Cons y ys)
    with Cons.IH Cons.prems show ?thesis using is_chain_distinct [OF Cons.prems(1)] by auto
  qed
qed auto

section \<open>Correctness on an ATA drive\<close>

context ata_device
begin

lemma framed_header: "framed s s' \<Longrightarrow> fat16_header s' = fat16_header s"
proof -
  assume "framed s s'"
  then obtain h a where "s' = s\<lparr>hw := h, ata_dev := a\<rparr>" unfolding dev_framed_def by blast
  then show ?thesis by simp
qed

lemma quiet_header: "quiet s s' \<Longrightarrow> fat16_header s' = fat16_header s"
  by (rule framed_header [OF quiet_framed])

abbreviation fat :: "('d, 'm) fat_state_scheme \<Rightarrow> u16 \<Rightarrow> u16" where
  "fat s \<equiv> fat_of (bpb_of s) (disk s)"

lemma quiet_fat: "quiet s s' \<Longrightarrow> fat s' = fat s" by (simp add: quiet_header quiet_disk)

lemma stream_read_entry:
  assumes "ready s" "byts_per_sec (bpb_of s) = 512" "sdev st = AtaDev"
  obtains s' st' where "stream_read b True 2 (stream_seek st (fat_entry_offset (bpb_of s) PARTITION_OFFSET c)) s
      = Some (0, bytes_at (disk s) (fat_pos (bpb_of s) c) 2, st', s')" "quiet s s'" "sdev st' = AtaDev"
proof -
  let ?st = "stream_seek st (fat_entry_offset (bpb_of s) PARTITION_OFFSET c)"
  note o = fat_entry_offset_pos [OF assms(2), of c]
  have "unat (spos ?st) = fat_pos (bpb_of s) c" "sdev ?st = AtaDev" using o(1) assms(3) by (simp_all add: stream_seek_def)
  with stream_read_ok [OF assms(1), of ?st 2] fits_even [OF fat_pos_even] o(3) that show thesis by fastforce
qed

lemma get_next_cluster_ok:
  assumes "ready s" "byts_per_sec (bpb_of s) = 512" "sdev st = AtaDev"
  shows "\<exists>st' s'. fat16_get_next_cluster b st PARTITION_OFFSET c s = Some (fat s c, st', s') \<and> quiet s s' \<and> sdev st' = AtaDev"
proof -
  from stream_read_entry [OF assms, of c] obtain s' st' where
    "stream_read b True 2 (stream_seek st (fat_entry_offset (bpb_of s) PARTITION_OFFSET c)) s
      = Some (0, bytes_at (disk s) (fat_pos (bpb_of s) c) 2, st', s')" "quiet s s'" "sdev st' = AtaDev" .
  then show ?thesis by (simp add: fat16_get_next_cluster_def entry_word_bytes_at fat_of_def)
qed

lemma create_fat_entry_ok:
  assumes "ready s" "byts_per_sec (bpb_of s) = 512" "2 \<le> c" "unat c < FAT16_MAX_CLUSTERS"
  shows "\<exists>s'. fat16_create_fat_entry b AtaDev (ucast c) v s = Some (True, s') \<and> framed s s'
    \<and> disk s' = put_bytes (fat_pos (bpb_of s) c) (le16 v) (disk s) \<and> fat s' = (fat s)(c := v)"
proof -
  let ?st = "stream_seek (stream_init AtaDev) (fat_entry_offset (bpb_of s) PARTITION_OFFSET c)"
  note o = fat_entry_offset_pos [OF assms(2), of c]
  have u: "unat (ucast c :: u32) = unat c" by (simp add: unat_ucast_wide)
  have g: "\<not> (ucast c :: u32) < 2" "\<not> (ucast c :: u32) \<ge> of_nat FAT16_MAX_CLUSTERS"
    using assms(3,4) by (simp_all add: word_less_nat_alt word_le_nat_alt u konst)
  have p: "unat (spos ?st) = fat_pos (bpb_of s) c" "sdev ?st = AtaDev" using o(1) by (simp_all add: stream_seek_def stream_init_def)
  have "\<exists>s'. stream_write b (Some (le16 v)) 2 ?st s = Some (0, ?st\<lparr>spos := spos ?st + 2\<rparr>, s')
    \<and> framed s s' \<and> disk s' = put_bytes (fat_pos (bpb_of s) c) (le16 v) (disk s)"
    using stream_write_ok [OF assms(1) p(2), of 2 "le16 v"] fits_even [OF fat_pos_even] o(3) p(1) by simp
  then obtain s' where w: "stream_write b (Some (le16 v)) 2 ?st s = Some (0, ?st\<lparr>spos := spos ?st + 2\<rparr>, s')"
    "framed s s'" "disk s' = put_bytes (fat_pos (bpb_of s) c) (le16 v) (disk s)" by blast
  then have "fat16_create_fat_entry b AtaDev (ucast c) v s = Some (True, s')"
    using g by (simp add: fat16_create_fat_entry_def o(2))
  moreover have "fat s' = (fat s)(c := v)" by (simp add: w(3) framed_header [OF w(2)] fat_of_put)
  ultimately show ?thesis using w by blast
qed

lemma chain_length_loop_ok:
  "ready s \<Longrightarrow> byts_per_sec (bpb_of s) = 512 \<Longrightarrow> sdev st = AtaDev \<Longrightarrow> is_chain (fat s) (c # cs) \<Longrightarrow>
    \<exists>st' s'. chain_length_loop b st PARTITION_OFFSET u (fat s c) s = Some (u + of_nat (length cs), st', s')
      \<and> quiet s s' \<and> sdev st' = AtaDev"
proof (induction cs arbitrary: c u st s)
  case Nil
  then have "\<not> fat s c < FAT16_VALUE_END_OF_CHAIN" by (simp add: linorder_not_less)
  with Nil.prems(1,3) show ?case by (subst chain_length_loop.simps) (simp add: quiet_refl)
next
  case (Cons d ds)
  then have c: "fat s c = d" "d < FAT16_VALUE_END_OF_CHAIN" "is_chain (fat s) (d # ds)" by simp_all
  from get_next_cluster_ok [OF Cons.prems(1-3), of d] obtain st1 s1 where
    s1: "fat16_get_next_cluster b st PARTITION_OFFSET d s = Some (fat s d, st1, s1)" "quiet s s1" "sdev st1 = AtaDev" by blast
  have f: "disk s1 = disk s" "bpb_of s1 = bpb_of s" using s1(2) by (simp_all add: quiet_header quiet_disk)
  from Cons.IH [of s1 st1 d "u + 1"] s1 c(3) Cons.prems(2) obtain st2 s2 where
    "chain_length_loop b st1 PARTITION_OFFSET (u + 1) (fat s d) s1 = Some (u + 1 + of_nat (length ds), st2, s2)" "quiet s1 s2" "sdev st2 = AtaDev"
    by (auto simp: f quiet_ready)
  with s1 c show ?case
    by (subst chain_length_loop.simps) (auto intro: quiet_trans simp: add.assoc add.commute)
qed

lemma chain_length_ok:
  assumes "ready s" "byts_per_sec (bpb_of s) = 512" "sdev st = AtaDev" "is_chain (fat s) (c # cs)" "k \<noteq> 0"
  shows "\<exists>st' s'. fat16_get_cluster_chain_length b st k (ucast c) PARTITION_OFFSET s
    = Some (of_nat (length (c # cs)), st', s') \<and> quiet s s' \<and> sdev st' = AtaDev"
proof -
  from get_next_cluster_ok [OF assms(1-3), of c] obtain st1 s1 where
    s1: "fat16_get_next_cluster b st PARTITION_OFFSET c s = Some (fat s c, st1, s1)" "quiet s s1" "sdev st1 = AtaDev" by blast
  have f: "disk s1 = disk s" "bpb_of s1 = bpb_of s" using s1(2) by (simp_all add: quiet_header quiet_disk)
  from chain_length_loop_ok [of s1 st1 c cs 1] s1 assms obtain st2 s2 where
    s2: "chain_length_loop b st1 PARTITION_OFFSET 1 (fat s c) s1 = Some (1 + of_nat (length cs), st2, s2)" "quiet s1 s2" "sdev st2 = AtaDev"
    by (auto simp: f quiet_ready)
  have "(ucast (ucast c :: u32) :: u16) = c" by (rule bit_word_eqI) (simp add: bit_simps)
  with s1 s2 assms(5) show ?thesis
    by (auto simp: fat16_get_cluster_chain_length_def intro: quiet_trans)
qed

text \<open>The search for a free cluster.\<close>

lemma next_free_from_ok:
  assumes "ready s" "byts_per_sec (bpb_of s) = 512" "sdev st = AtaDev" "n \<le> FAT16_MAX_CLUSTERS"
  shows "\<exists>st' s'. next_free_from b n st PARTITION_OFFSET s = Some
    (case find (\<lambda>c. fat s (of_nat c) = 0) [n..<FAT16_MAX_CLUSTERS] of Some c \<Rightarrow> of_nat c | None \<Rightarrow> 0, st', s') \<and> quiet s s'"
  using assms
proof (induction "FAT16_MAX_CLUSTERS - n" arbitrary: n st s)
  case 0
  then show ?case by (subst next_free_from.simps) (simp add: quiet_refl)
next
  case (Suc k)
  then have n: "n < FAT16_MAX_CLUSTERS" "[n..<FAT16_MAX_CLUSTERS] = n # [Suc n..<FAT16_MAX_CLUSTERS]" by (simp_all add: upt_rec)
  from stream_read_entry [OF Suc.prems(1-3), of "of_nat n"] obtain s1 st1 where
    s1: "stream_read b True 2 (stream_seek st (fat_entry_offset (bpb_of s) PARTITION_OFFSET (of_nat n))) s
      = Some (0, bytes_at (disk s) (fat_pos (bpb_of s) (of_nat n)) 2, st1, s1)" "quiet s s1" "sdev st1 = AtaDev" .
  have e: "entry_word (bytes_at (disk s) (fat_pos (bpb_of s) (of_nat n)) 2) = fat s (of_nat n)"
    by (simp add: entry_word_bytes_at fat_of_def)
  have f: "disk s1 = disk s" "bpb_of s1 = bpb_of s" using s1(2) by (simp_all add: quiet_header quiet_disk)
  show ?case
  proof (cases "fat s (of_nat n) = 0")
    case True
    with s1 n e show ?thesis by (subst next_free_from.simps) simp
  next
    case False
    have "k = FAT16_MAX_CLUSTERS - Suc n" using Suc.hyps(2) by simp
    with False Suc.hyps(1) [of "Suc n" s1 st1] Suc.prems(2) s1 n obtain st2 s2 where
      "next_free_from b (Suc n) st1 PARTITION_OFFSET s1 = Some
        (case find (\<lambda>c. fat s (of_nat c) = 0) [Suc n..<FAT16_MAX_CLUSTERS] of Some c \<Rightarrow> of_nat c | None \<Rightarrow> 0, st2, s2)"
      "quiet s1 s2" by (auto simp: f quiet_ready)
    with s1 n e False show ?thesis by (subst next_free_from.simps) (auto intro: quiet_trans)
  qed
qed

lemma find_free_cluster:
  assumes "find P [3..<FAT16_MAX_CLUSTERS] = Some c"
  shows "P c" "3 \<le> c" "c < FAT16_MAX_CLUSTERS" "unat (of_nat c :: u16) = c" "\<And>x. 3 \<le> x \<Longrightarrow> x < c \<Longrightarrow> \<not> P x"
proof -
  from assms obtain i where i: "i < length [3..<FAT16_MAX_CLUSTERS]" "P ([3..<FAT16_MAX_CLUSTERS] ! i)" "c = [3..<FAT16_MAX_CLUSTERS] ! i"
    "\<forall>j < i. \<not> P ([3..<FAT16_MAX_CLUSTERS] ! j)" by (auto simp: find_Some_iff)
  then show "P c" "3 \<le> c" and m: "c < FAT16_MAX_CLUSTERS" by auto
  then show "unat (of_nat c :: u16) = c" by (simp add: unat_of_nat konst take_bit_nat_eq_self_iff)
  fix x assume "3 \<le> x" "x < c"
  then show "\<not> P x" using i spec [OF i(4), of "x - 3"] by simp
qed

lemma next_free_cluster_some:
  assumes "ready s" "byts_per_sec (bpb_of s) = 512" "sdev st = AtaDev" "fat s c = 0" "3 \<le> unat c" "unat c < FAT16_MAX_CLUSTERS"
  shows "\<exists>n st' s'. fat16_get_next_free_cluster b st PARTITION_OFFSET s = Some (n, st', s') \<and> quiet s s'
    \<and> fat s n = 0 \<and> 3 \<le> unat n \<and> unat n \<le> unat c \<and> unat n < FAT16_MAX_CLUSTERS \<and> n \<noteq> 0
    \<and> (\<forall>x. 3 \<le> unat x \<and> unat x < unat n \<longrightarrow> fat s x \<noteq> 0)"
proof -
  have "unat c \<in> set [3..<FAT16_MAX_CLUSTERS]" "fat s (of_nat (unat c)) = 0" using assms(4-6) by simp_all
  then have "find (\<lambda>c. fat s (of_nat c) = 0) [3..<FAT16_MAX_CLUSTERS] \<noteq> None" unfolding find_None_iff by blast
  then obtain m where m: "find (\<lambda>c. fat s (of_nat c) = 0) [3..<FAT16_MAX_CLUSTERS] = Some m" by blast
  note f = find_free_cluster [OF m]
  have "3 \<le> FAT16_MAX_CLUSTERS" by (simp add: konst)
  from next_free_from_ok [OF assms(1-3) this] m obtain st' s' where
    "fat16_get_next_free_cluster b st PARTITION_OFFSET s = Some (of_nat m, st', s')" "quiet s s'"
    by (auto simp: fat16_get_next_free_cluster_def)
  moreover have "m \<le> unat c" using f(5) [of "unat c"] assms(4,5) by force
  moreover have "of_nat m \<noteq> (0 :: u16)" using f(2,4) by (metis unat_0 not_numeral_le_zero)
  moreover have "fat s x \<noteq> 0" if "3 \<le> unat x" "unat x < m" for x using f(5) [OF that] by simp
  ultimately show ?thesis using f by (intro exI [of _ "of_nat m"]) auto
qed

lemma append_cluster_ok:
  assumes "ready s" "byts_per_sec (bpb_of s) = 512" "sdev st = AtaDev" "fat s f = 0" "3 \<le> unat f" "unat f < FAT16_MAX_CLUSTERS"
    and "is_chain (fat s) (xs @ [c])" "2 \<le> c" "unat c < FAT16_MAX_CLUSTERS"
  shows "\<exists>n st' s'. append_cluster b AtaDev st c s = Some (n, st', s') \<and> framed s s' \<and> fat s n = 0
    \<and> 3 \<le> unat n \<and> unat n < FAT16_MAX_CLUSTERS
    \<and> fat s' = (fat s)(c := n, n := FAT16_VALUE_END_OF_CHAIN) \<and> is_chain (fat s') (xs @ [c, n])"
proof -
  from next_free_cluster_some [OF assms(1-6)] obtain n st1 s1 where
    n: "fat16_get_next_free_cluster b st PARTITION_OFFSET s = Some (n, st1, s1)" "quiet s s1" "fat s n = 0" "3 \<le> unat n"
      "unat n < FAT16_MAX_CLUSTERS" "n \<noteq> 0" by blast
  have s1: "ready s1" "byts_per_sec (bpb_of s1) = 512" "fat s1 = fat s"
    using n(2) assms(2) by (simp_all add: quiet_ready quiet_header quiet_disk)
  from create_fat_entry_ok [OF s1(1,2) assms(8,9), of n] obtain s2 where
    s2: "fat16_create_fat_entry b AtaDev (ucast c) n s1 = Some (True, s2)" "framed s1 s2" "fat s2 = (fat s)(c := n)"
    by (auto simp: s1(3))
  have r2: "ready s2" "byts_per_sec (bpb_of s2) = 512" using s2(2) s1(2) by (simp_all add: framed_header framed_ready)
  have "2 \<le> n" using n(4) by (simp add: word_le_nat_alt)
  from create_fat_entry_ok [OF r2 this n(5), of FAT16_VALUE_END_OF_CHAIN] obtain s3 where
    s3: "fat16_create_fat_entry b AtaDev (ucast n) FAT16_VALUE_END_OF_CHAIN s2 = Some (True, s3)" "framed s2 s3"
      "fat s3 = (fat s)(c := n, n := FAT16_VALUE_END_OF_CHAIN)" by (auto simp: s2(3))
  have free: "n \<notin> set (xs @ [c])" using is_chain_used [OF assms(7)] n(3) by blast
  have lt: "n < FAT16_VALUE_END_OF_CHAIN" using n(5) by (simp add: word_less_nat_alt konst)
  have "is_chain ((fat s)(c := n, n := FAT16_VALUE_END_OF_CHAIN)) (xs @ [c, n])"
    using is_chain_snoc [OF assms(7) free lt] \<open>2 \<le> n\<close> by simp
  moreover have "append_cluster b AtaDev st c s = Some (n, st1, s3)"
    using n(1,6) s2(1) s3(1) by (simp add: append_cluster_def)
  moreover have "framed s s3" using framed_trans [OF quiet_framed [OF n(2)] framed_trans [OF s2(2) s3(2)]] .
  ultimately show ?thesis using n s3(3) by metis
qed

end

section \<open>Properties\<close>

text \<open>A small volume for the witnesses: a chain 3, 5 and a chain 4, everything else free.\<close>

definition header0 :: fat16_internal_header where
  "header0 = \<lparr>hbpb = \<lparr>jmp = [0xEB, 0x3C, 0x90], oem = replicate 8 0x20, byts_per_sec = 512, sec_per_clus = 16, rsvd_sec = 1,
     num_fats = 2, root_ent_cnt = 512, tot_sec_16 = 0, media = 0xF8, fatsz16 = 256, sec_per_trk = 63, num_heads = 32,
     hidd_sec = 0, tot_sec_32 = 1046493\<rparr>,
     hebpb = \<lparr>drv_num = 0x80, reserved1 = 0, boot_sig = 0x29, vol_id = 0, vol_lab = replicate 11 0x20,
       fil_sys_type = replicate 8 0x20\<rparr>\<rparr>"

definition fat_drive0 :: drive where
  "fat_drive0 = drive0\<lparr>store := (\<lambda>_. 0)(0x100206 := 5, 0x100208 := 0xFF, 0x100209 := 0xFF, 0x10020A := 0xF8, 0x10020B := 0xFF)\<rparr>"

definition fat0 :: "drive fat_state" where
  "fat0 = \<lparr>ata_dev = ata_dev io0, hw = fat_drive0, fat16_header = header0\<rparr>"

lemma fat0_ready: "dev_ready (\<lambda>d. phase_of d = Idle) fat0"
  by (simp add: dev_ready_def fat0_def io0_def fat_drive0_def drive0_def)

lemma fat0_disk: "disk_of drive_sector fat0 = store fat_drive0"
  by (rule ext) (simp add: disk_of_def fat0_def drive_sector_def)

lemma fat0_bpb: "byts_per_sec (bpb_of fat0) = 512" "rsvd_sec (bpb_of fat0) = 1" by (simp_all add: fat0_def header0_def)

lemma fat0_chain: "is_chain (fat_of (bpb_of fat0) (disk_of drive_sector fat0)) [3, 5]"
  "fat_of (bpb_of fat0) (disk_of drive_sector fat0) 6 = 0"
  by (simp_all add: fat_of_def fat_pos_def fat0_bpb fat0_disk fat_drive0_def word16_def konst)

text \<open>C14: Walking the table from the first cluster of a chain, \<open>fat16_get_cluster_chain_length\<close> returns, and it returns the
  number of clusters of the chain; the disk is not changed.\<close>

theorem chain_length_correct:
  assumes "ata_device b sector idle reading writing written flushing delay" "dev_ready idle s"
    and "byts_per_sec (bpb_of s) = 512" "sdev st = AtaDev" "k \<noteq> 0" "is_chain (fat_of (bpb_of s) (disk_of sector s)) (c # cs)"
  shows "\<exists>n st' s'. fat16_get_cluster_chain_length b st k (ucast c) PARTITION_OFFSET s = Some (n, st', s')
    \<and> unat n = length (c # cs) \<and> dev_quiet idle sector s s'"
proof -
  have "length (c # cs) < 2 ^ 16" by (rule is_chain_short [OF assms(6)])
  then have "unat (of_nat (length (c # cs)) :: u16) = length (c # cs)"
    using unat_of_nat [of "length (c # cs)", where 'a = 16] by (simp only: take_bit_nat_eq_self_iff) simp
  with ata_device.chain_length_ok [OF assms(1-4,6,5)] show ?thesis by metis
qed

theorem chain_length_correct_witness:
  "\<exists>n st' s'. fat16_get_cluster_chain_length drive_bus (stream_init AtaDev) 8192 3 PARTITION_OFFSET fat0 = Some (n, st', s') \<and> unat n = 2"
proof -
  have "sdev (stream_init AtaDev) = AtaDev" "(8192 :: u16) \<noteq> 0" by (simp_all add: stream_init_def)
  from chain_length_correct [OF dr.ata_device_axioms fat0_ready fat0_bpb(1) this fat0_chain(1)] show ?thesis by auto
qed



end
