(* ===== verification/Fat16_Dir.thy ===== *)
theory Fat16_Dir
  imports Fat16_Table
begin

text \<open>
  The directories of \<open>fat16.c\<close>: scanning the root directory and the cluster chain of a directory, finding free slots,
  and \<open>fat16_resolve\<close>, which reads and checks the boot sector. Paths are the node lists of the path parser.
\<close>

unbundle bit_operations_syntax

section \<open>Scanning entries\<close>

definition entries_in :: "u8 list \<Rightarrow> nat \<Rightarrow> fat16_dir_entry list" where
  "entries_in bs n = map (\<lambda>i. entry_of_bytes (take 32 (drop (32 * i) bs))) [0..<n]"

text \<open>The loops over a buffer of entries stop at the first that satisfies a condition, with its index.\<close>

fun find_entry :: "(fat16_dir_entry \<Rightarrow> bool) \<Rightarrow> nat \<Rightarrow> fat16_dir_entry list \<Rightarrow> (nat \<times> fat16_dir_entry) option" where
  "find_entry P i [] = None"
| "find_entry P i (e # es) = (if P e then Some (i, e) else find_entry P (i + 1) es)"

definition free_slot :: "fat16_dir_entry \<Rightarrow> bool" where
  "free_slot e \<longleftrightarrow> file_name e ! 0 = FREE \<or> file_name e ! 0 = DELETED"

text \<open>The byte position of a cluster.\<close>

definition cluster_pos :: "bpb \<Rightarrow> u32 \<Rightarrow> u32" where
  "cluster_pos p c = PARTITION_OFFSET + fat16_get_sector_from_cluster p c * ucast (byts_per_sec p)"

definition read_cluster :: "'d bus \<Rightarrow> stream \<Rightarrow> u32 \<Rightarrow> ('d, 'm) fat_state_scheme
    \<Rightarrow> (int \<times> u8 list \<times> stream \<times> ('d, 'm) fat_state_scheme) option" where
  "read_cluster b data_stream c s = stream_read b True (ucast (max_cluster_size_bytes (bpb_of s)))
     (stream_seek data_stream (cluster_pos (bpb_of s) c)) s"

definition entries_per_cluster :: "bpb \<Rightarrow> nat" where
  "entries_per_cluster p = unat (max_cluster_size_bytes p) div sizeof_dir_entry"

definition node_name :: "pathnode \<Rightarrow> u8 list" where
  "node_name n = takeWhile (\<lambda>c. c \<noteq> 0) (ident n)"

section \<open>The root directory\<close>

definition root_dir_size :: "bpb \<Rightarrow> u32" where
  "root_dir_size p = ucast (root_ent_cnt p) * 32"

definition read_root_dir :: "'d bus \<Rightarrow> ata_ptr \<Rightarrow> ('d, 'm) fat_state_scheme
    \<Rightarrow> (int \<times> u8 list \<times> stream \<times> ('d, 'm) fat_state_scheme) option" where
  "read_root_dir b dev s = stream_read b True (root_dir_size (bpb_of s))
     (stream_seek (stream_init dev) (fat16_get_root_dir_absolute (bpb_of s) PARTITION_OFFSET)) s"

definition fat16_get_free_root_dir_entry :: "'d bus \<Rightarrow> ata_ptr \<Rightarrow> ('d, 'm) fat_state_scheme
    \<Rightarrow> (u32 \<times> ('d, 'm) fat_state_scheme) option" where
  "fat16_get_free_root_dir_entry b dev s = (if dev = AtaNull then Some (0, s) else do {
     (r, bs, st, s1) \<leftarrow> read_root_dir b dev s;
     if r < 0 then Some (0, s1)
     else case find_entry free_slot 0 (entries_in bs (unat (root_dir_size (bpb_of s) div 32))) of
       Some (i, e) \<Rightarrow> Some (fat16_get_root_dir_absolute (bpb_of s) PARTITION_OFFSET + of_nat i * 32, s1)
     | None \<Rightarrow> Some (0, s1) })"

record fat16_folder =
  fentry :: nat
  ftotal :: u32
  start_sector :: u32
  end_sector :: u32

definition zero_entry :: fat16_dir_entry where
  "zero_entry = entry_of_bytes (replicate 32 0)"

definition zero_folder :: fat16_folder where
  "zero_folder = \<lparr>fentry = 0, ftotal = 0, start_sector = 0, end_sector = 0\<rparr>"

text \<open>
  The entry and folder are passed by reference and initialised by the caller; the result is what they hold afterwards.
  Without a path, or for the path \<open>/\<close>, the folder describes the whole root directory.
\<close>

definition fat16_get_root_dir_entry :: "'d bus \<Rightarrow> ata_ptr \<Rightarrow> pathnode list \<Rightarrow> fat16_dir_entry \<Rightarrow> fat16_folder
    \<Rightarrow> ('d, 'm) fat_state_scheme \<Rightarrow> (fat16_dir_entry \<times> fat16_folder \<times> ('d, 'm) fat_state_scheme) option" where
  "fat16_get_root_dir_entry b dev pth entry folder s = (let p = bpb_of s;
       first_root_dir_sector = first_data_sector p - root_dir_sectors p;
       last_root_dir_sector = first_root_dir_sector + root_dir_sectors p in do {
     (r, bs, st, s1) \<leftarrow> read_root_dir b dev s;
     if r < 0 then Some (entry, folder, s1)
     else if pth = [] \<or> node_name (hd pth) = [0x2F]
     then Some (entry, folder\<lparr>start_sector := first_root_dir_sector, end_sector := last_root_dir_sector,
            ftotal := ucast (root_ent_cnt p), fentry := 0\<rparr>, s1)
     else case find_entry (\<lambda>e. file_name e ! 0 \<noteq> 0
              \<and> file_name e = fat16_get_native_filename_from_userland (node_name (hd pth))) 0
            (entries_in bs (unat (root_ent_cnt p))) of
       Some (i, e) \<Rightarrow>
         (let start = first_root_dir_sector + (of_nat i * 32) div ucast (byts_per_sec p) in
          Some (e, folder\<lparr>start_sector := start, end_sector := start + (of_nat (i + 1) * 32) div ucast (byts_per_sec p),
            ftotal := ucast (root_ent_cnt p)\<rparr>, s1))
     | None \<Rightarrow> Some (entry, folder, s1) })"

section \<open>Directories in cluster chains\<close>

text \<open>
  The search of a name: the folder and entry of the match, or \<open>None\<close> with the number of entries seen (or after a read
  error). The condition of the loop is \<open><=\<close>.
\<close>

partial_function (option) find_name_loop :: "'d bus \<Rightarrow> stream \<Rightarrow> stream \<Rightarrow> u16 \<Rightarrow> u16 \<Rightarrow> u8 list \<Rightarrow> u32
    \<Rightarrow> ('d, 'm) fat_state_scheme
    \<Rightarrow> ((fat16_dir_entry \<times> u32 \<times> u32) option \<times> u32 option \<times> ('d, 'm) fat_state_scheme) option" where
  "find_name_loop b data_stream fat_stream start cur name tot s =
     (if cur \<le> FAT16_VALUE_END_OF_CHAIN then do {
        (r, bs, ds, s1) \<leftarrow> read_cluster b data_stream (ucast cur) s;
        if r < 0 then Some (None, None, s1)
        else let n = entries_per_cluster (bpb_of s) in
          case find_entry (\<lambda>e. file_name e = name) 0 (entries_in bs n) of
            Some (i, e) \<Rightarrow> Some (Some (e, ucast cur, tot + of_nat i), None, s1)
          | None \<Rightarrow> do {
              (nxt, fs, s2) \<leftarrow> fat16_get_next_cluster b fat_stream PARTITION_OFFSET cur s1;
              find_name_loop b ds fs start nxt name (tot + of_nat n) s2 } }
      else Some (None, Some tot, s))"

definition fat16_get_node_from_path_in_cluster_chain :: "'d bus \<Rightarrow> ata_ptr \<Rightarrow> u16 \<Rightarrow> u8 list \<Rightarrow> fat16_folder \<Rightarrow> fat16_dir_entry
    \<Rightarrow> ('d, 'm) fat_state_scheme
    \<Rightarrow> (bool \<times> fat16_folder \<times> fat16_dir_entry \<times> ('d, 'm) fat_state_scheme) option" where
  "fat16_get_node_from_path_in_cluster_chain b dev start name folder entry s = do {
     (found, tot, s1) \<leftarrow> find_name_loop b (stream_init dev) (stream_init dev) start start name 0 s;
     case found of
       Some (e, cur, t) \<Rightarrow> Some (True, folder\<lparr>start_sector := fat16_get_sector_from_cluster (bpb_of s) (ucast start),
          end_sector := fat16_get_sector_from_cluster (bpb_of s) cur, ftotal := t\<rparr>, e, s1)
     | None \<Rightarrow> Some (False, (case tot of Some t \<Rightarrow> folder\<lparr>ftotal := t\<rparr> | None \<Rightarrow> folder), entry, s1) }"

text \<open>The first loop of \<open>fat16_find_free_entry_in_dir\<close>: the position of a free slot, or the cluster value that ended
  the chain.\<close>

partial_function (option) find_free_loop :: "'d bus \<Rightarrow> stream \<Rightarrow> stream \<Rightarrow> u16 \<Rightarrow> ('d, 'm) fat_state_scheme
    \<Rightarrow> (u32 option \<times> u16 \<times> stream \<times> stream \<times> ('d, 'm) fat_state_scheme) option" where
  "find_free_loop b data_stream fat_stream cur s =
     (if cur < FAT16_VALUE_END_OF_CHAIN then do {
        (r, bs, ds, s1) \<leftarrow> read_cluster b data_stream (ucast cur) s;
        if r < 0 then Some (Some 0, cur, ds, fat_stream, s1)
        else case find_entry free_slot 0 (entries_in bs (entries_per_cluster (bpb_of s))) of
            Some (i, e) \<Rightarrow> Some (Some (cluster_pos (bpb_of s) (ucast cur) + of_nat i * 32), cur, ds, fat_stream, s1)
          | None \<Rightarrow> do {
              (nxt, fs, s2) \<leftarrow> fat16_get_next_cluster b fat_stream PARTITION_OFFSET cur s1;
              find_free_loop b ds fs nxt s2 } }
      else Some (None, cur, data_stream, fat_stream, s))"

definition fat16_find_free_entry_in_dir :: "'d bus \<Rightarrow> ata_ptr \<Rightarrow> u16 \<Rightarrow> ('d, 'm) fat_state_scheme
    \<Rightarrow> (u32 \<times> ('d, 'm) fat_state_scheme) option" where
  "fat16_find_free_entry_in_dir b dev start_cluster s =
     (if dev = AtaNull \<or> start_cluster < 2 \<or> unat start_cluster \<ge> FAT16_MAX_CLUSTERS then Some (0, s)
      else do {
        (found, cur, ds, fs, s1) \<leftarrow> find_free_loop b (stream_init dev) (stream_init dev) start_cluster s;
        case found of Some pos \<Rightarrow> Some (pos, s1)
        | None \<Rightarrow> do {
            (new_cluster, fs', s2) \<leftarrow> fat16_get_next_free_cluster b fs PARTITION_OFFSET s1;
            if new_cluster = 0 then Some (0, s2)
            else do {
              (r1, s3) \<leftarrow> fat16_create_fat_entry b dev (ucast cur) new_cluster s2;
              (r2, s4) \<leftarrow> fat16_create_fat_entry b dev (ucast new_cluster) FAT16_VALUE_END_OF_CHAIN s3;
              let pos = cluster_pos (bpb_of s) (ucast new_cluster);
              let n = max_cluster_size_bytes (bpb_of s);
              (r3, ds', s5) \<leftarrow> stream_write b (Some (replicate (unat n) 0)) (ucast n) (stream_seek ds pos) s4;
              if r3 < 0 then Some (of_int (- EIO), s5) else Some (pos, s5) } } })"

text \<open>The searches that \<open>fat16_write\<close> uses to find the entry it updates: the cluster with a name, the first directory of
  the root that contains it, and the position of the entry.\<close>

partial_function (option) scan_dir_loop :: "'d bus \<Rightarrow> stream \<Rightarrow> stream \<Rightarrow> u16 \<Rightarrow> u8 list \<Rightarrow> ('d, 'm) fat_state_scheme
    \<Rightarrow> ((u16 \<times> nat) option \<times> ('d, 'm) fat_state_scheme) option" where
  "scan_dir_loop b data_stream fat_stream cur name s =
     (if cur < FAT16_VALUE_END_OF_CHAIN then do {
        (r, bs, ds, s1) \<leftarrow> read_cluster b data_stream (ucast cur) s;
        if r < 0 then Some (None, s1)
        else case find_entry (\<lambda>e. file_name e = name) 0 (entries_in bs (entries_per_cluster (bpb_of s))) of
            Some (i, e) \<Rightarrow> Some (Some (cur, i), s1)
          | None \<Rightarrow> do {
              (nxt, fs, s2) \<leftarrow> fat16_get_next_cluster b fat_stream PARTITION_OFFSET cur s1;
              scan_dir_loop b ds fs nxt name s2 } }
      else Some (None, s))"

definition fat16_scan_dir :: "'d bus \<Rightarrow> ata_ptr \<Rightarrow> u32 \<Rightarrow> u8 list \<Rightarrow> ('d, 'm) fat_state_scheme
    \<Rightarrow> (u32 \<times> ('d, 'm) fat_state_scheme) option" where
  "fat16_scan_dir b dev dir_cluster name s = do {
     (found, s1) \<leftarrow> scan_dir_loop b (stream_init dev) (stream_init dev) (ucast dir_cluster) name s;
     Some (case found of Some (c, i) \<Rightarrow> ucast c | None \<Rightarrow> 0, s1) }"

fun parent_loop :: "'d bus \<Rightarrow> ata_ptr \<Rightarrow> u8 list \<Rightarrow> fat16_dir_entry list \<Rightarrow> ('d, 'm) fat_state_scheme
    \<Rightarrow> (u32 \<times> ('d, 'm) fat_state_scheme) option" where
  "parent_loop b dev name [] s = Some (0, s)"
| "parent_loop b dev name (e # es) s =
     (let folder_cluster = fat16_get_combined_cluster (high_cluster e) (low_cluster e) in
      if attributes e AND DIRECTORY \<noteq> 0 \<and> folder_cluster \<ge> 2 then do {
        (parent, s1) \<leftarrow> fat16_scan_dir b dev folder_cluster name s;
        if parent \<noteq> 0 then Some (folder_cluster, s1) else parent_loop b dev name es s1 }
      else parent_loop b dev name es s)"

definition fat16_get_parent_cluster :: "'d bus \<Rightarrow> ata_ptr \<Rightarrow> u8 list \<Rightarrow> ('d, 'm) fat_state_scheme
    \<Rightarrow> (u32 \<times> ('d, 'm) fat_state_scheme) option" where
  "fat16_get_parent_cluster b dev name s = do {
     (r, bs, st, s1) \<leftarrow> read_root_dir b dev s;
     if r < 0 then Some (0, s1) else parent_loop b dev name (entries_in bs (unat (root_ent_cnt (bpb_of s)))) s1 }"

definition fat16_find_entry_offset :: "'d bus \<Rightarrow> ata_ptr \<Rightarrow> u32 \<Rightarrow> u8 list \<Rightarrow> ('d, 'm) fat_state_scheme
    \<Rightarrow> (u32 \<times> ('d, 'm) fat_state_scheme) option" where
  "fat16_find_entry_offset b dev folder_cluster name s = do {
     (found, s1) \<leftarrow> scan_dir_loop b (stream_init dev) (stream_init dev) (ucast folder_cluster) name s;
     Some (case found of Some (c, i) \<Rightarrow> cluster_pos (bpb_of s) (ucast c) + of_nat i * 32 | None \<Rightarrow> 0, s1) }"

text \<open>\<open>fat16_get_cluster_from_path\<close> starts from the byte address of the root directory, taken as a cluster number.\<close>

fun cluster_from_path_loop :: "'d bus \<Rightarrow> ata_ptr \<Rightarrow> u32 \<Rightarrow> pathnode list \<Rightarrow> ('d, 'm) fat_state_scheme
    \<Rightarrow> (u32 \<times> ('d, 'm) fat_state_scheme) option" where
  "cluster_from_path_loop b dev curr_cluster [] s = Some (curr_cluster, s)"
| "cluster_from_path_loop b dev curr_cluster (n # ns) s = do {
     (found, folder, e, s1) \<leftarrow>
       fat16_get_node_from_path_in_cluster_chain b dev (ucast curr_cluster) (ident n) zero_folder zero_entry s;
     if \<not> found then Some (0, s1)
     else let c = fat16_get_combined_cluster (high_cluster e) (low_cluster e) in
       if c = 0 then Some (0, s1) else cluster_from_path_loop b dev c ns s1 }"

definition fat16_get_cluster_from_path :: "'d bus \<Rightarrow> ata_ptr \<Rightarrow> pathnode list \<Rightarrow> ('d, 'm) fat_state_scheme
    \<Rightarrow> (u32 \<times> ('d, 'm) fat_state_scheme) option" where
  "fat16_get_cluster_from_path b dev pth s = (if dev = AtaNull \<or> pth = [] then Some (0, s)
     else cluster_from_path_loop b dev (fat16_get_root_dir_absolute (bpb_of s) PARTITION_OFFSET) pth s)"

definition fat16_create_root_dir_entry :: "'d bus \<Rightarrow> ata_ptr \<Rightarrow> u32 \<Rightarrow> fat16_dir_entry \<Rightarrow> ('d, 'm) fat_state_scheme
    \<Rightarrow> (bool \<times> ('d, 'm) fat_state_scheme) option" where
  "fat16_create_root_dir_entry b dev entry_sector new_entry s = (if dev = AtaNull then Some (False, s) else do {
     (r, st, s1) \<leftarrow> stream_write b (Some (bytes_of_entry new_entry)) 32 (stream_seek (stream_init dev) entry_sector) s;
     Some (\<not> r < 0, s1) })"

section \<open>Mounting\<close>

text \<open>A short read leaves the rest of the global header as it was; only its success is used, so the header is decoded from
  the bytes of a complete read.\<close>

definition fat16_resolve :: "'d bus \<Rightarrow> ata_ptr \<Rightarrow> ('d, 'm) fat_state_scheme \<Rightarrow> (int \<times> ('d, 'm) fat_state_scheme) option" where
  "fat16_resolve b dev s = do {
     (r, bs, st, s1) \<leftarrow> stream_read b True (of_nat sizeof_header) (stream_seek (stream_init dev) PARTITION_OFFSET) s;
     if r \<noteq> 0 then Some (- EIO, s1)
     else let s2 = s1\<lparr>fat16_header := header_of_bytes bs\<rparr>; p = bpb_of s2 in
       if \<not> is_valid_fat16_header (fat16_header s2) then Some (- EIO, s2)
       else let total_sectors = (if tot_sec_16 p = 0 then tot_sec_32 p else ucast (tot_sec_16 p));
                data_sectors = total_sectors - first_data_sector p;
                total_clusters = data_sectors div ucast (sec_per_clus p) in
         if unat total_clusters > FAT16_MAX_CLUSTERS \<or> unat total_clusters < FAT16_MIN_CLUSTERS then Some (- EIO, s2)
         else Some (0, s2) }"

end
