(* ===== verification/Frame_Alloc.thy ===== *)
theory Frame_Alloc
  imports Prelude
begin

text \<open>
  The contract between the page frame allocator (\<open>memory/pfa.c\<close>) and the paging code and kernel heap
  that draw frames from it: an allocation hands out the least free frame and returns its physical
  address (0 when there is none), a release makes one frame free again.
\<close>

lemma sorted_list_of_set_Min:
  assumes "finite A" "A \<noteq> {}"
  shows "sorted_list_of_set A = Min A # sorted_list_of_set (A - {Min A})"
  using assms by (rule sorted_list_of_set_nonempty)

locale frame_allocator =
  fixes inv :: "'p \<Rightarrow> bool"
    and free :: "'p \<Rightarrow> nat set"
    and alloc :: "'p \<Rightarrow> (u64 \<times> 'p) option"
    and release :: "'p \<Rightarrow> u64 \<Rightarrow> 'p option"
    and frame_bytes :: nat
    and limit :: nat
  assumes free_bound: "inv p \<Longrightarrow> free p \<subseteq> {..<limit}"
    and alloc_none: "inv p \<Longrightarrow> free p = {} \<Longrightarrow> alloc p = Some (0, p)"
    and alloc_some: "inv p \<Longrightarrow> free p \<noteq> {} \<Longrightarrow>
          \<exists>p'. alloc p = Some (of_nat (Min (free p) * frame_bytes), p') \<and> inv p'
             \<and> free p' = free p - {Min (free p)}"
    and release_ok: "inv p \<Longrightarrow> f < limit \<Longrightarrow>
          \<exists>p'. release p (of_nat f) = Some p' \<and> inv p' \<and> free p' = insert f (free p)"
begin

lemma free_finite: "inv p \<Longrightarrow> finite (free p)"
  using free_bound finite_subset by blast

text \<open>\<open>n\<close> allocations in a row.\<close>

primrec alloc_seq :: "nat \<Rightarrow> 'p \<Rightarrow> (u64 list \<times> 'p) option" where
  "alloc_seq 0 p = Some ([], p)"
| "alloc_seq (Suc n) p = (case alloc p of None \<Rightarrow> None
     | Some (a, p1) \<Rightarrow> (case alloc_seq n p1 of None \<Rightarrow> None | Some (as, p2) \<Rightarrow> Some (a # as, p2)))"

lemma alloc_seq_least:
  "inv p \<Longrightarrow> n \<le> card (free p) \<Longrightarrow>
   \<exists>p'. alloc_seq n p = Some (map (\<lambda>f. of_nat (f * frame_bytes)) (take n (sorted_list_of_set (free p))), p')
      \<and> inv p' \<and> free p' = free p - set (take n (sorted_list_of_set (free p)))"
proof (induction n arbitrary: p)
  case 0
  then show ?case by simp
next
  case (Suc n)
  then have ne: "free p \<noteq> {}" and fin: "finite (free p)" using free_finite by auto
  obtain p1 where p1: "alloc p = Some (of_nat (Min (free p) * frame_bytes), p1)" "inv p1"
      "free p1 = free p - {Min (free p)}"
    using alloc_some [OF Suc.prems(1) ne] by blast
  have "n \<le> card (free p1)" using Suc.prems(2) ne fin by (simp add: p1(3))
  with Suc.IH [OF p1(2)] p1 show ?case
    by (auto simp: sorted_list_of_set_Min [OF fin ne])
qed

text \<open>A frame that was handed out is handed out again only after it has been released.\<close>

lemma alloc_seq_distinct:
  assumes "inv p" "n \<le> card (free p)" "alloc_seq n p = Some (as, p')"
  shows "distinct (take n (sorted_list_of_set (free p)))
    \<and> as = map (\<lambda>f. of_nat (f * frame_bytes)) (take n (sorted_list_of_set (free p)))
    \<and> set (take n (sorted_list_of_set (free p))) \<inter> free p' = {}"
  using alloc_seq_least [OF assms(1,2)] assms(3) by auto

lemma alloc_release:
  assumes "inv p" "free p \<noteq> {}"
  shows "\<exists>p1 p2. alloc p = Some (of_nat (Min (free p) * frame_bytes), p1)
    \<and> release p1 (of_nat (Min (free p))) = Some p2 \<and> inv p2 \<and> free p2 = free p"
proof -
  obtain p1 where p1: "alloc p = Some (of_nat (Min (free p) * frame_bytes), p1)" "inv p1"
      "free p1 = free p - {Min (free p)}"
    using alloc_some [OF assms] by blast
  have m: "Min (free p) \<in> free p" using assms free_finite by simp
  then have "Min (free p) < limit" using free_bound [OF assms(1)] by auto
  from release_ok [OF p1(2) this] p1 m show ?thesis by (auto simp: insert_absorb)
qed

end

end
