(* ===== verification/Pfa.thy ===== *)
theory Pfa
  imports Frame_Alloc
begin

text \<open>
  \<open>memory/pfa.c\<close>: the bitmap allocator of 4 MiB page frames, and its initialisation from the boot
  loader's memory map in \<open>kernel.c\<close>. One bit of \<open>frames_bitmap\<close> per frame, set when the frame is in use.
  An access outside the 32-word bitmap is undefined behaviour and gives \<open>None\<close>.
\<close>

unbundle bit_operations_syntax

definition PAGE_SIZE :: u32 where [konst]: "PAGE_SIZE = 1024 * 4 * 1024"
definition MAX_FRAMES :: nat where [konst]: "MAX_FRAMES = 1024"
definition BITMAP_SIZE :: nat where [konst]: "BITMAP_SIZE = 32"

record pfa =
  frames_bitmap :: "u32 list"

definition index_from_bit :: "u64 \<Rightarrow> u32" where
  "index_from_bit frame = ucast (frame div 32)"

definition offset_from_bit :: "u64 \<Rightarrow> u32" where
  "offset_from_bit frame = ucast (frame mod 32)"

definition pfa_init :: "pfa \<Rightarrow> pfa" where
  "pfa_init p = p\<lparr>frames_bitmap :=
     fold (\<lambda>i bm. bm[i := 0xFFFFFFFF]) [0..<MAX_FRAMES div 32] (frames_bitmap p)\<rparr>"

definition pfa_set :: "pfa \<Rightarrow> u64 \<Rightarrow> pfa option" where
  "pfa_set p frame = (let index = unat (frame div 32); offset = unat (frame mod 32) in
     if index < length (frames_bitmap p)
     then Some (p\<lparr>frames_bitmap :=
       (frames_bitmap p)[index := (frames_bitmap p ! index) OR push_bit offset 1]\<rparr>)
     else None)"

definition pfa_clear :: "pfa \<Rightarrow> u64 \<Rightarrow> pfa option" where
  "pfa_clear p frame = (let index = unat (frame div 32); offset = unat (frame mod 32) in
     if index < length (frames_bitmap p)
     then Some (p\<lparr>frames_bitmap :=
       (frames_bitmap p)[index := (frames_bitmap p ! index) AND NOT (push_bit offset 1)]\<rparr>)
     else None)"

definition pfa_test :: "pfa \<Rightarrow> u64 \<Rightarrow> bool option" where
  "pfa_test p frame = (let index = unat (index_from_bit frame); offset = unat (offset_from_bit frame) in
     if index < length (frames_bitmap p)
     then Some ((frames_bitmap p ! index) AND push_bit offset 1 \<noteq> 0)
     else None)"

text \<open>The loop of \<open>pfa_alloc\<close> from a given frame on; the result \<open>0\<close> is the code's failure value.\<close>

function pfa_alloc_from :: "pfa \<Rightarrow> nat \<Rightarrow> (u64 \<times> pfa) option" where
  "pfa_alloc_from p frame =
     (if frame < MAX_FRAMES then
        (case pfa_test p (of_nat frame) of
           None \<Rightarrow> None
         | Some True \<Rightarrow> pfa_alloc_from p (Suc frame)
         | Some False \<Rightarrow> (case pfa_set p (of_nat frame) of
               None \<Rightarrow> None
             | Some p' \<Rightarrow> Some (ucast ((of_nat frame :: u32) * PAGE_SIZE), p')))
      else Some (0, p))"
  by pat_completeness auto
termination
  by (relation "measure (\<lambda>(p, frame). MAX_FRAMES - frame)") auto

declare pfa_alloc_from.simps [simp del]

definition pfa_alloc :: "pfa \<Rightarrow> (u64 \<times> pfa) option" where
  "pfa_alloc p = pfa_alloc_from p 0"

text \<open>The counters \<open>pfa_dump\<close> prints: for each word, for each bit, used or free.\<close>

definition pfa_dump :: "pfa \<Rightarrow> nat \<times> nat" where
  "pfa_dump p = fold (\<lambda>block_index. fold (\<lambda>frame (used, free).
        if ((ucast (frames_bitmap p ! block_index) :: u64) AND push_bit frame 1) \<noteq> 0
        then (Suc used, free) else (used, Suc free)) [0..<32])
     [0..<BITMAP_SIZE] (0, 0)"

section \<open>Boot-time initialisation (\<open>kernel.c\<close>)\<close>

datatype mmap_type = MULTIBOOT_MEMORY_AVAILABLE | MULTIBOOT_MEMORY_RESERVED
  | MULTIBOOT_MEMORY_ACPI_RECLAIMABLE | MULTIBOOT_MEMORY_NVS | MULTIBOOT_MEMORY_BADRAM
  | MULTIBOOT_MEMORY_OTHER

record multiboot_memory_map =
  addr_low :: u32
  addr_high :: u32
  len_low :: u32
  len_high :: u32
  mtype :: mmap_type

text \<open>\<open>for (frame = first; frame < last && frame < MAX_FRAMES; frame++) op(frame)\<close>\<close>

function for_frames :: "(pfa \<Rightarrow> u64 \<Rightarrow> pfa option) \<Rightarrow> nat \<Rightarrow> nat \<Rightarrow> pfa \<Rightarrow> pfa option" where
  "for_frames upd frame stop p =
     (if frame < stop \<and> frame < MAX_FRAMES
      then (case upd p (of_nat frame) of None \<Rightarrow> None | Some p' \<Rightarrow> for_frames upd (Suc frame) stop p')
      else Some p)"
  by pat_completeness auto
termination
  by (relation "measure (\<lambda>(upd, frame, stop, p). MAX_FRAMES - frame)") auto

declare for_frames.simps [simp del]

definition mark_kernel :: "pfa \<Rightarrow> pfa option" where
  "mark_kernel = for_frames pfa_set (0x00000000 div 0x400000) (0x02FFFFFF div 0x400000 + 1)"

definition mark_fb :: "pfa \<Rightarrow> pfa option" where
  "mark_fb = for_frames pfa_set (0xFD000000 div 0x400000) ((0xFD000000 + 800 * 600 * 4 - 1) div 0x400000 + 1)"

definition init_mmap_entry :: "multiboot_memory_map \<Rightarrow> pfa \<Rightarrow> pfa option" where
  "init_mmap_entry m p =
     (let base_addr = (push_bit 32 (ucast (addr_high m)) :: u64) OR ucast (addr_low m);
          len = (push_bit 32 (ucast (len_high m)) :: u64) OR ucast (len_low m);
          end_addr = base_addr + len;
          first_frame = unat (base_addr div 0x400000);
          last_frame = unat (end_addr div 0x400000)
      in case mtype m of
           MULTIBOOT_MEMORY_AVAILABLE \<Rightarrow> for_frames pfa_clear first_frame last_frame p
         | MULTIBOOT_MEMORY_OTHER \<Rightarrow> Some p
         | _ \<Rightarrow> for_frames pfa_set first_frame last_frame p)"

fun init_mmap_entries :: "multiboot_memory_map list \<Rightarrow> pfa \<Rightarrow> pfa option" where
  "init_mmap_entries [] p = Some p"
| "init_mmap_entries (m # ms) p =
     (case init_mmap_entry m p of None \<Rightarrow> None | Some p' \<Rightarrow> init_mmap_entries ms p')"

definition init_mmap :: "multiboot_memory_map list \<Rightarrow> pfa \<Rightarrow> pfa option" where
  "init_mmap entries p = (case init_mmap_entries entries p of None \<Rightarrow> None
     | Some p1 \<Rightarrow> (case mark_kernel p1 of None \<Rightarrow> None | Some p2 \<Rightarrow> mark_fb p2))"

section \<open>The abstraction to a set of used frames\<close>

definition pfa_inv :: "pfa \<Rightarrow> bool" where [invs]:
  "pfa_inv p \<longleftrightarrow> length (frames_bitmap p) = BITMAP_SIZE"

definition used_frames :: "pfa \<Rightarrow> nat set" where
  "used_frames p = {f. f < MAX_FRAMES \<and> pfa_test p (of_nat f) = Some True}"

definition free_frames :: "pfa \<Rightarrow> nat set" where
  "free_frames p = {f. f < MAX_FRAMES \<and> pfa_test p (of_nat f) = Some False}"

lemma frame_index:
  assumes "f < MAX_FRAMES"
  shows "unat ((of_nat f :: u64) div 32) = f div 32" "unat ((of_nat f :: u64) mod 32) = f mod 32"
    "unat (index_from_bit (of_nat f)) = f div 32" "unat (offset_from_bit (of_nat f)) = f mod 32"
proof -
  have f: "unat (of_nat f :: u64) = f"
    using assms by (simp add: unat_of_nat konst)
  show a: "unat ((of_nat f :: u64) div 32) = f div 32" and b: "unat ((of_nat f :: u64) mod 32) = f mod 32"
    by (simp_all add: unat_div unat_mod f)
  show "unat (index_from_bit (of_nat f)) = f div 32" "unat (offset_from_bit (of_nat f)) = f mod 32"
    using a b assms by (simp_all add: index_from_bit_def offset_from_bit_def unsigned_ucast_eq take_bit_eq_mod konst)
qed

lemma bit_test: "k < 32 \<Longrightarrow> ((w :: u32) AND push_bit k 1 \<noteq> 0) = bit w k"
  by (simp add: and_exp_eq_0_iff_not_bit push_bit_of_1)

lemma bit_set_bit: "n < 32 \<Longrightarrow> bit ((w :: u32) OR push_bit k 1) n \<longleftrightarrow> bit w n \<or> n = k"
  by (auto simp: bit_or_iff push_bit_eq_mult bit_exp_iff)

lemma bit_clear_bit: "n < 32 \<Longrightarrow> bit ((w :: u32) AND NOT (push_bit k 1)) n \<longleftrightarrow> bit w n \<and> n \<noteq> k"
  by (auto simp: bit_and_iff bit_not_iff push_bit_eq_mult bit_exp_iff)

lemma pfa_test_word:
  "f < MAX_FRAMES \<Longrightarrow> pfa_test p (of_nat f) =
     (if f div 32 < length (frames_bitmap p) then Some (bit (frames_bitmap p ! (f div 32)) (f mod 32)) else None)"
  using bit_test [of "f mod 32"] by (simp add: pfa_test_def frame_index Let_def)

lemma pfa_test_bit:
  assumes "pfa_inv p" "f < MAX_FRAMES"
  shows "pfa_test p (of_nat f) = Some (bit (frames_bitmap p ! (f div 32)) (f mod 32))"
  using assms by (simp add: pfa_test_word pfa_inv_def konst)

lemma finite_frames [simp]: "finite (used_frames p)" "finite (free_frames p)"
  by (simp_all add: used_frames_def free_frames_def)

lemma free_frames_less: "f \<in> free_frames p \<Longrightarrow> f < MAX_FRAMES"
  by (simp add: free_frames_def)

lemma Min_free_frames:
  assumes "free_frames p \<noteq> {}"
  shows "Min (free_frames p) \<in> free_frames p" "Min (free_frames p) < MAX_FRAMES"
  using Min_in [OF finite_frames(2) assms] by (auto intro: free_frames_less)

lemma frames_partition:
  assumes "pfa_inv p"
  shows "used_frames p \<union> free_frames p = {..<MAX_FRAMES}" "used_frames p \<inter> free_frames p = {}"
  using assms by (auto simp: used_frames_def free_frames_def pfa_test_bit)

lemma free_frames_compl: "pfa_inv p \<Longrightarrow> free_frames p = {..<MAX_FRAMES} - used_frames p"
  using frames_partition [of p] by auto

text \<open>Two distinct frames below the limit differ in their word or in their bit.\<close>

lemma pfa_set_test:
  assumes "pfa_set p (of_nat f) = Some p'" "f < MAX_FRAMES" "g < MAX_FRAMES"
  shows "pfa_test p' (of_nat g) = (if g = f then Some True else pfa_test p (of_nat g))"
proof -
  have d: "f div 32 < length (frames_bitmap p)"
    and p': "frames_bitmap p' = (frames_bitmap p)[f div 32 := (frames_bitmap p ! (f div 32)) OR push_bit (f mod 32) 1]"
    using assms by (auto simp: pfa_set_def frame_index Let_def split: if_splits)
  have "g = f" if "g div 32 = f div 32" "g mod 32 = f mod 32"
    using that by (metis div_mult_mod_eq)
  with assms d show ?thesis
    by (auto simp: pfa_test_word p' nth_list_update bit_set_bit simp del: push_bit_of_1)
qed

lemma pfa_clear_test:
  assumes "pfa_clear p (of_nat f) = Some p'" "f < MAX_FRAMES" "g < MAX_FRAMES"
  shows "pfa_test p' (of_nat g) = (if g = f then Some False else pfa_test p (of_nat g))"
proof -
  have d: "f div 32 < length (frames_bitmap p)"
    and p': "frames_bitmap p' = (frames_bitmap p)[f div 32 := (frames_bitmap p ! (f div 32)) AND NOT (push_bit (f mod 32) 1)]"
    using assms by (auto simp: pfa_clear_def frame_index Let_def split: if_splits)
  have "g = f" if "g div 32 = f div 32" "g mod 32 = f mod 32"
    using that by (metis div_mult_mod_eq)
  with assms d show ?thesis
    by (auto simp: pfa_test_word p' nth_list_update bit_clear_bit simp del: push_bit_of_1)
qed

lemma pfa_set_ok:
  assumes "pfa_inv p" "f < MAX_FRAMES"
  obtains p' where "pfa_set p (of_nat f) = Some p'" "pfa_inv p'" "used_frames p' = insert f (used_frames p)"
proof -
  have "f div 32 < length (frames_bitmap p)" using assms by (simp add: pfa_inv_def konst)
  then obtain p' where p': "pfa_set p (of_nat f) = Some p'" "length (frames_bitmap p') = length (frames_bitmap p)"
    using assms(2) by (auto simp: pfa_set_def frame_index Let_def)
  moreover have "used_frames p' = insert f (used_frames p)"
    using assms pfa_set_test [OF p'(1)] by (auto simp: used_frames_def split: if_splits)
  ultimately show ?thesis using assms that by (simp add: pfa_inv_def)
qed

lemma pfa_clear_ok:
  assumes "pfa_inv p" "f < MAX_FRAMES"
  obtains p' where "pfa_clear p (of_nat f) = Some p'" "pfa_inv p'" "used_frames p' = used_frames p - {f}"
proof -
  have "f div 32 < length (frames_bitmap p)" using assms by (simp add: pfa_inv_def konst)
  then obtain p' where p': "pfa_clear p (of_nat f) = Some p'" "length (frames_bitmap p') = length (frames_bitmap p)"
    using assms(2) by (auto simp: pfa_clear_def frame_index Let_def)
  moreover have "used_frames p' = used_frames p - {f}"
    using assms pfa_clear_test [OF p'(1)] by (auto simp: used_frames_def split: if_splits)
  ultimately show ?thesis using assms that by (simp add: pfa_inv_def)
qed

lemma frame_addr: "f < MAX_FRAMES \<Longrightarrow> unat (ucast ((of_nat f :: u32) * PAGE_SIZE) :: u64) = f * 0x400000"
  by (simp add: konst unsigned_ucast_eq unat_word_ariths unat_of_nat take_bit_eq_mod)

text \<open>The scan returns the least free frame at or above its start.\<close>

lemma pfa_alloc_from_cases:
  assumes "pfa_inv p" "f \<le> MAX_FRAMES"
  shows "(\<forall>g \<in> free_frames p. g < f) \<and> pfa_alloc_from p f = Some (0, p)
    \<or> (\<exists>g p'. f \<le> g \<and> g \<in> free_frames p \<and> (\<forall>h \<in> free_frames p. f \<le> h \<longrightarrow> g \<le> h)
          \<and> pfa_alloc_from p f = Some (ucast ((of_nat g :: u32) * PAGE_SIZE), p')
          \<and> pfa_inv p' \<and> used_frames p' = insert g (used_frames p))"
  using assms
proof (induction "MAX_FRAMES - f" arbitrary: f)
  case 0
  then show ?case by (subst (1) pfa_alloc_from.simps) (auto simp: free_frames_def)
next
  case (Suc n)
  then have f: "f < MAX_FRAMES" by simp
  show ?case
  proof (cases "f \<in> free_frames p")
    case True
    then have "pfa_test p (of_nat f) = Some False" by (simp add: free_frames_def)
    moreover obtain p' where "pfa_set p (of_nat f) = Some p'" "pfa_inv p'"
        "used_frames p' = insert f (used_frames p)"
      using pfa_set_ok [OF Suc.prems(1) f] .
    ultimately show ?thesis
      using f True by (intro disjI2 exI [of _ f] exI [of _ p']) (simp add: pfa_alloc_from.simps [of p f])
  next
    case False
    with f Suc.prems(1) have "pfa_test p (of_nat f) = Some True"
      by (simp add: free_frames_def pfa_test_bit)
    with f have eq: "pfa_alloc_from p f = pfa_alloc_from p (Suc f)"
      by (simp add: pfa_alloc_from.simps [of p f])
    have "n = MAX_FRAMES - Suc f" "Suc f \<le> MAX_FRAMES" using Suc.hyps(2) f by auto
    note IH = Suc.hyps(1) [OF this(1) Suc.prems(1) this(2)]
    have le: "f \<le> h \<longleftrightarrow> Suc f \<le> h" "h < Suc f \<longleftrightarrow> h < f" if "h \<in> free_frames p" for h
      using that False by (auto simp: Suc_le_eq less_Suc_eq order.order_iff_strict)
    show ?thesis
      unfolding eq using IH le by (meson Suc_leD)
  qed
qed

lemma pfa_alloc_None:
  "pfa_inv p \<Longrightarrow> free_frames p = {} \<Longrightarrow> pfa_alloc p = Some (0, p)"
  using pfa_alloc_from_cases [of p 0] by (auto simp: pfa_alloc_def)

lemma pfa_alloc_Some:
  assumes "pfa_inv p" "free_frames p \<noteq> {}"
  obtains p' where "pfa_alloc p = Some (ucast ((of_nat (Min (free_frames p)) :: u32) * PAGE_SIZE), p')"
    "pfa_inv p'" "used_frames p' = insert (Min (free_frames p)) (used_frames p)"
proof -
  from assms pfa_alloc_from_cases [of p 0] obtain g p' where g: "g \<in> free_frames p"
      "\<forall>h \<in> free_frames p. g \<le> h" "pfa_alloc p = Some (ucast ((of_nat g :: u32) * PAGE_SIZE), p')"
      "pfa_inv p'" "used_frames p' = insert g (used_frames p)"
    by (auto simp: pfa_alloc_def)
  then have "Min (free_frames p) = g" by (intro Min_eqI) auto
  with g that show ?thesis by simp
qed

text \<open>Every successful allocation takes a frame away, whatever the state of the bitmap.\<close>

lemma pfa_alloc_from_shrinks:
  "pfa_alloc_from p f = Some (a, p') \<Longrightarrow> a \<noteq> 0 \<Longrightarrow> card (free_frames p') < card (free_frames p)"
proof (induction p f rule: pfa_alloc_from.induct)
  case (1 p f)
  from "1.prems" have f: "f < MAX_FRAMES" by (auto simp: pfa_alloc_from.simps [of p f] split: if_splits)
  consider "pfa_test p (of_nat f) = Some True" | "pfa_test p (of_nat f) = Some False"
    using "1.prems" f by (cases "pfa_test p (of_nat f)") (auto simp: pfa_alloc_from.simps [of p f])
  then show ?case
  proof cases
    case 1
    with f "1.prems" "1.IH" show ?thesis by (simp add: pfa_alloc_from.simps [of p f])
  next
    case 2
    with f "1.prems" have "pfa_set p (of_nat f) = Some p'"
      by (auto simp: pfa_alloc_from.simps [of p f] split: option.splits)
    then have "free_frames p' = free_frames p - {f}" "f \<in> free_frames p"
      using f 2 pfa_set_test [of p f p'] by (auto simp: free_frames_def split: if_splits)
    then show ?thesis by (metis card_Diff1_less finite_frames(2))
  qed
qed

lemma pfa_alloc_shrinks:
  "pfa_alloc p = Some (a, p') \<Longrightarrow> a \<noteq> 0 \<Longrightarrow> card (free_frames p') < card (free_frames p)"
  unfolding pfa_alloc_def by (rule pfa_alloc_from_shrinks)

lemma frame_addr_of_nat:
  "f < MAX_FRAMES \<Longrightarrow> (ucast ((of_nat f :: u32) * PAGE_SIZE) :: u64) = of_nat (f * 0x400000)"
  by (rule word_unat_eq_iff [THEN iffD2]) (simp add: frame_addr unat_word_ariths unat_of_nat MAX_FRAMES_def)

interpretation frames: frame_allocator pfa_inv free_frames pfa_alloc pfa_clear "0x400000" MAX_FRAMES
proof unfold_locales
  fix p assume p: "pfa_inv p"
  show "free_frames p \<subseteq> {..<MAX_FRAMES}" by (auto simp: free_frames_def)
  show "pfa_alloc p = Some (0, p)" if "free_frames p = {}" using p that by (rule pfa_alloc_None)
  show "\<exists>p'. pfa_alloc p = Some (of_nat (Min (free_frames p) * 0x400000), p') \<and> pfa_inv p'
      \<and> free_frames p' = free_frames p - {Min (free_frames p)}" if ne: "free_frames p \<noteq> {}"
  proof -
    note Min_free_frames(2) [OF ne]
    moreover obtain p' where "pfa_alloc p = Some (ucast ((of_nat (Min (free_frames p)) :: u32) * PAGE_SIZE), p')"
        "pfa_inv p'" "used_frames p' = insert (Min (free_frames p)) (used_frames p)"
      using pfa_alloc_Some [OF p ne] .
    ultimately show ?thesis
      using p by (intro exI [of _ p']) (auto simp: frame_addr_of_nat free_frames_compl)
  qed
  show "\<exists>p'. pfa_clear p (of_nat f) = Some p' \<and> pfa_inv p' \<and> free_frames p' = insert f (free_frames p)"
    if f: "f < MAX_FRAMES" for f
  proof -
    obtain p' where "pfa_clear p (of_nat f) = Some p'" "pfa_inv p'" "used_frames p' = used_frames p - {f}"
      using pfa_clear_ok [OF p f] .
    then show ?thesis using p f by (auto simp: free_frames_compl)
  qed
qed

section \<open>Initialisation\<close>

lemma fold_fill: "n \<le> length xs \<Longrightarrow> fold (\<lambda>i xs. xs[i := v]) [0..<n] xs = replicate n v @ drop n xs"
proof (induction n)
  case 0
  then show ?case by simp
next
  case (Suc n)
  then show ?case
    by (simp add: list_update_append Cons_nth_drop_Suc [symmetric] replicate_append_same)
qed

lemma pfa_init_used:
  assumes "pfa_inv p"
  shows "pfa_inv (pfa_init p)" "used_frames (pfa_init p) = {..<MAX_FRAMES}"
proof -
  have bm: "frames_bitmap (pfa_init p) = replicate BITMAP_SIZE 0xFFFFFFFF"
    using assms fold_fill [of BITMAP_SIZE "frames_bitmap p" "0xFFFFFFFF"]
    by (simp add: pfa_init_def pfa_inv_def konst)
  then show "pfa_inv (pfa_init p)" by (simp add: pfa_inv_def)
  moreover have "bit (0xFFFFFFFF :: u32) n" if "n < 32" for n
  proof -
    have "(0xFFFFFFFF :: u32) = mask 32" by (simp add: mask_eq_exp_minus_1)
    with that show ?thesis by (simp only: bit_mask_iff) simp
  qed
  ultimately show "used_frames (pfa_init p) = {..<MAX_FRAMES}"
    using bm by (auto simp: used_frames_def pfa_test_bit konst)
qed

lemma for_frames_set:
  assumes "pfa_inv p"
  shows "\<exists>p'. for_frames pfa_set a b p = Some p' \<and> pfa_inv p'
    \<and> used_frames p' = used_frames p \<union> {f. a \<le> f \<and> f < b \<and> f < MAX_FRAMES}"
  using assms
proof (induction pfa_set a b p rule: for_frames.induct)
  case (1 a b p)
  show ?case
  proof (cases "a < b \<and> a < MAX_FRAMES")
    case True
    obtain p1 where p1: "pfa_set p (of_nat a) = Some p1" "pfa_inv p1"
        "used_frames p1 = insert a (used_frames p)"
      using pfa_set_ok "1.prems" True by blast
    with "1.hyps" [OF True p1(1,2)] True show ?thesis
      by (auto simp: for_frames.simps [of _ a b p])
  next
    case False
    with "1.prems" show ?thesis by (auto simp: for_frames.simps [of _ a b p])
  qed
qed

lemma for_frames_clear:
  assumes "pfa_inv p"
  shows "\<exists>p'. for_frames pfa_clear a b p = Some p' \<and> pfa_inv p'
    \<and> used_frames p' = used_frames p - {f. a \<le> f \<and> f < b}"
  using assms
proof (induction pfa_clear a b p rule: for_frames.induct)
  case (1 a b p)
  show ?case
  proof (cases "a < b \<and> a < MAX_FRAMES")
    case True
    obtain p1 where p1: "pfa_clear p (of_nat a) = Some p1" "pfa_inv p1"
        "used_frames p1 = used_frames p - {a}"
      using pfa_clear_ok "1.prems" True by blast
    with "1.hyps" [OF True p1(1,2)] True show ?thesis
      by (auto simp: for_frames.simps [of _ a b p])
  next
    case False
    with "1.prems" show ?thesis
      by (auto simp: for_frames.simps [of _ a b p] used_frames_def)
  qed
qed

lemma init_mmap_entry_inv:
  assumes "pfa_inv p"
  shows "\<exists>p'. init_mmap_entry m p = Some p' \<and> pfa_inv p'"
  unfolding init_mmap_entry_def Let_def using assms
  by (cases "mtype m") (auto dest: for_frames_set for_frames_clear)

lemma init_mmap_entries_inv:
  "pfa_inv p \<Longrightarrow> \<exists>p'. init_mmap_entries ms p = Some p' \<and> pfa_inv p'"
proof (induction ms arbitrary: p)
  case Nil
  then show ?case by simp
next
  case (Cons m ms)
  obtain p1 where "init_mmap_entry m p = Some p1" "pfa_inv p1"
    using init_mmap_entry_inv [OF Cons.prems] by blast
  with Cons.IH show ?case by simp
qed

text \<open>A bitmap with frame 12 free and every other frame in use, as a concrete state.\<close>

definition pfa_one_free :: pfa where
  "pfa_one_free = \<lparr>frames_bitmap = 0xFFFFEFFF # replicate 31 0xFFFFFFFF\<rparr>"

lemma pfa_one_free_inv: "pfa_inv pfa_one_free"
  by (simp add: pfa_inv_def pfa_one_free_def konst)

lemma pfa_one_free_frames: "free_frames pfa_one_free = {12}"
proof -
  let ?full = "\<lparr>frames_bitmap = replicate 32 0xFFFFFFFF\<rparr>"
  have i: "pfa_inv ?full" by (simp add: pfa_inv_def konst)
  have "pfa_init ?full = ?full"
    using fold_fill [of 32 "replicate 32 0xFFFFFFFF" "0xFFFFFFFF"] by (simp add: pfa_init_def konst)
  then have u: "free_frames ?full = {}"
    using pfa_init_used(2) [OF i] frames_partition [OF i] by auto
  obtain p' where p': "pfa_clear ?full (of_nat 12) = Some p'" "free_frames p' = insert 12 (free_frames ?full)"
    using frames.release_ok [OF i, of 12] by (auto simp: MAX_FRAMES_def)
  have replicate_Suc_32: "replicate 32 (0xFFFFFFFF :: u32) = 0xFFFFFFFF # replicate 31 0xFFFFFFFF"
    by (subst replicate_Suc [symmetric]) simp
  have "pfa_clear ?full (of_nat 12) = Some pfa_one_free"
    using frame_index [of 12] by (simp add: pfa_clear_def pfa_one_free_def Let_def MAX_FRAMES_def replicate_Suc_32)
  with p' u show ?thesis by simp
qed

section \<open>The statistics of \<open>pfa_dump\<close>\<close>

lemma fold_count:
  "fold (\<lambda>x (u, f). if P x then (Suc u, f) else (u, Suc f)) xs (a, b)
   = (a + length (filter P xs), b + length (filter (\<lambda>x. \<not> P x) xs))"
  by (induction xs arbitrary: a b) auto

lemma upt_block: "[0..<32 * Suc n] = [0..<32 * n] @ map (\<lambda>k. 32 * n + k) [0..<32]"
proof -
  have "[0..<32 * n + 32] = [0..<32 * n] @ [32 * n..<32 * n + 32]" by (rule upt_add_eq_append) simp
  moreover have "[32 * n..<32 * n + 32] = map (\<lambda>k. k + 32 * n) [0..<32]"
    by (simp only: map_add_upt add.commute)
  ultimately show ?thesis by (simp only: mult_Suc_right add.commute)
qed

lemma fold_count_blocks:
  "fold (\<lambda>i. fold (\<lambda>k (u, f). if Q (32 * i + k) then (Suc u, f) else (u, Suc f)) [0..<32]) [0..<n] (0, 0)
   = (length (filter Q [0..<32 * n]), length (filter (\<lambda>x. \<not> Q x) [0..<32 * n]))"
proof (induction n)
  case 0
  then show ?case by simp
next
  case (Suc n)
  then show ?case
    by (simp only: upt_block) (simp add: fold_count filter_map comp_def)
qed

lemma dump_bit: "k < 32 \<Longrightarrow> ((ucast (w :: u32) :: u64) AND push_bit k 1 \<noteq> 0) = bit w k"
  by (simp add: and_exp_eq_0_iff_not_bit push_bit_of_1 bit_ucast_iff)

lemma card_filter_upt: "length (filter P [0..<n]) = card {i. i < n \<and> P i}"
  by (simp add: length_filter_conv_card conj_commute cong: conj_cong)

lemma pfa_dump_card:
  assumes "pfa_inv p"
  shows "pfa_dump p = (card (used_frames p), card (free_frames p))"
proof -
  define Q where "Q f = bit (frames_bitmap p ! (f div 32)) (f mod 32)" for f
  have inner: "fold (\<lambda>frame (used, free). if ((ucast (frames_bitmap p ! i) :: u64) AND push_bit frame 1) \<noteq> 0
        then (Suc used, free) else (used, Suc free)) [0..<32]
      = fold (\<lambda>k (u, f). if Q (32 * i + k) then (Suc u, f) else (u, Suc f)) [0..<32]" for i
    by (rule ext, rule fold_cong) (auto simp: Q_def dump_bit fun_eq_iff simp del: push_bit_of_1)
  have "pfa_dump p = (length (filter Q [0..<1024]), length (filter (\<lambda>x. \<not> Q x) [0..<1024]))"
    unfolding pfa_dump_def inner BITMAP_SIZE_def fold_count_blocks by simp
  then show ?thesis
    using assms by (simp add: card_filter_upt used_frames_def free_frames_def pfa_test_bit Q_def MAX_FRAMES_def
        cong: conj_cong)
qed

section \<open>Properties\<close>

text \<open>C1: \<open>pfa_alloc\<close> hands out the least free frame, marks exactly that frame as used and returns its
  physical address; when every frame is used it returns 0 and changes nothing.\<close>

theorem pfa_alloc_least_free:
  assumes "pfa_inv p"
  shows "(free_frames p = {} \<longrightarrow> pfa_alloc p = Some (0, p))
    \<and> (free_frames p \<noteq> {} \<longrightarrow>
        (\<exists>p'. pfa_alloc p = Some (of_nat (Min (free_frames p) * 0x400000), p') \<and> pfa_inv p'
           \<and> used_frames p' = insert (Min (free_frames p)) (used_frames p)))"
proof -
  have "\<exists>p'. pfa_alloc p = Some (of_nat (Min (free_frames p) * 0x400000), p') \<and> pfa_inv p'
      \<and> used_frames p' = insert (Min (free_frames p)) (used_frames p)" if ne: "free_frames p \<noteq> {}"
  proof -
    obtain p' where "pfa_alloc p = Some (ucast ((of_nat (Min (free_frames p)) :: u32) * PAGE_SIZE), p')"
        "pfa_inv p'" "used_frames p' = insert (Min (free_frames p)) (used_frames p)"
      using pfa_alloc_Some [OF assms ne] .
    moreover note Min_free_frames(2) [OF ne]
    ultimately show ?thesis by (auto simp: frame_addr_of_nat simp del: of_nat_mult)
  qed
  then show ?thesis using pfa_alloc_None [OF assms] by blast
qed

theorem pfa_alloc_least_free_witness:
  "\<exists>p'. pfa_alloc pfa_one_free = Some (0x3000000, p') \<and> used_frames p' = insert 12 (used_frames pfa_one_free)"
  using pfa_alloc_least_free [OF pfa_one_free_inv] by (auto simp: pfa_one_free_frames)

text \<open>Reading a memory map keeps the bitmap well-formed and leaves the frames of the kernel and the framebuffer in use.\<close>

lemma init_mmap_reserves:
  assumes "pfa_inv p"
  shows "\<exists>q. init_mmap entries p = Some q \<and> pfa_inv q \<and> {0..11} \<union> {1012} \<subseteq> used_frames q"
proof -
  obtain p1 where p1: "init_mmap_entries entries p = Some p1" "pfa_inv p1"
    using init_mmap_entries_inv [OF assms] by blast
  obtain p2 where p2: "mark_kernel p1 = Some p2" "pfa_inv p2"
      "used_frames p2 = used_frames p1 \<union> {f. f < 12 \<and> f < MAX_FRAMES}"
    using for_frames_set [OF p1(2), of 0 12] by (auto simp: mark_kernel_def)
  obtain q where q: "mark_fb p2 = Some q" "pfa_inv q"
      "used_frames q = used_frames p2 \<union> {f. 1012 \<le> f \<and> f < 1013 \<and> f < MAX_FRAMES}"
    using for_frames_set [OF p2(2), of 1012 1013] by (auto simp: mark_fb_def)
  have "{0..11} \<union> {1012} \<subseteq> used_frames q" by (auto simp: q(3) p2(3) MAX_FRAMES_def)
  with p1(1) p2(1) q(1,2) show ?thesis by (auto simp: init_mmap_def)
qed

text \<open>C2: whatever memory map the boot loader passes, after \<open>pfa_init\<close> and \<open>_init_mmap\<close> the frames of the
  kernel image (0 to 11) and of the framebuffer (1012) are in use. In particular frame 0 is never free, so
  the address 0 that \<open>pfa_alloc\<close> returns means "out of memory" and nothing else.\<close>

theorem boot_reserves_kernel_and_framebuffer:
  assumes "pfa_inv p"
  shows "\<exists>q. init_mmap entries (pfa_init p) = Some q \<and> pfa_inv q
    \<and> {0..11} \<union> {1012} \<subseteq> used_frames q
    \<and> (\<exists>a q'. pfa_alloc q = Some (a, q') \<and> (a = 0 \<longleftrightarrow> free_frames q = {}))"
proof -
  obtain q where q: "init_mmap entries (pfa_init p) = Some q" "pfa_inv q" and u: "{0..11} \<union> {1012} \<subseteq> used_frames q"
    using init_mmap_reserves [OF pfa_init_used(1) [OF assms]] by blast
  have "\<exists>a q'. pfa_alloc q = Some (a, q') \<and> (a = 0 \<longleftrightarrow> free_frames q = {})"
  proof (cases "free_frames q = {}")
    case True
    then show ?thesis using pfa_alloc_None [OF q(2)] by auto
  next
    case False
    then obtain q' where a: "pfa_alloc q = Some (ucast ((of_nat (Min (free_frames q)) :: u32) * PAGE_SIZE), q')"
      using pfa_alloc_Some [OF q(2)] by metis
    have "0 \<notin> free_frames q" using u frames_partition(2) [OF q(2)] by auto
    then have "Min (free_frames q) \<noteq> 0" "Min (free_frames q) < MAX_FRAMES"
      using Min_free_frames [OF False] by metis+
    then have "(ucast ((of_nat (Min (free_frames q)) :: u32) * PAGE_SIZE) :: u64) \<noteq> 0"
      using frame_addr [of "Min (free_frames q)"] by auto
    with a False show ?thesis by auto
  qed
  with q u show ?thesis by auto
qed

theorem boot_reserves_kernel_and_framebuffer_witness:
  "\<exists>q. init_mmap [\<lparr>addr_low = 0, addr_high = 0, len_low = 0x8000000, len_high = 0, mtype = MULTIBOOT_MEMORY_AVAILABLE\<rparr>]
      (pfa_init pfa_one_free) = Some q \<and> {0..11} \<union> {1012} \<subseteq> used_frames q"
  using boot_reserves_kernel_and_framebuffer [OF pfa_one_free_inv] by blast

text \<open>The counters of \<open>pfa_dump\<close> are the numbers of used and of free frames, and add up to all 1024 frames.\<close>

theorem pfa_dump_counts:
  assumes "pfa_inv p"
  shows "pfa_dump p = (card (used_frames p), card (free_frames p))
    \<and> fst (pfa_dump p) + snd (pfa_dump p) = MAX_FRAMES"
proof -
  have "card (used_frames p) + card (free_frames p) = card (used_frames p \<union> free_frames p)"
    using frames_partition [OF assms] by (intro card_Un_disjoint [symmetric]) auto
  then show ?thesis using assms frames_partition(1) [OF assms] by (simp add: pfa_dump_card)
qed

theorem pfa_dump_counts_witness: "snd (pfa_dump pfa_one_free) = 1"
  using pfa_dump_counts [OF pfa_one_free_inv] by (simp add: pfa_one_free_frames)

text \<open>Successive allocations hand out pairwise different frames, in ascending order, none of which was in use,
  until the allocator runs dry.\<close>

theorem pfa_allocs_distinct:
  assumes "pfa_inv p" "n \<le> card (free_frames p)"
  shows "\<exists>as p'. frames.alloc_seq n p = Some (as, p') \<and> length as = n \<and> distinct as
    \<and> (\<forall>a \<in> set as. \<exists>f \<in> free_frames p - free_frames p'. unat a = f * 0x400000)"
proof -
  let ?fs = "take n (sorted_list_of_set (free_frames p))"
  obtain p' where p': "frames.alloc_seq n p = Some (map (\<lambda>f. of_nat (f * 0x400000)) ?fs, p')"
      "free_frames p' = free_frames p - set ?fs"
    using frames.alloc_seq_least [OF assms] by blast
  have fs: "f \<in> free_frames p" "f < MAX_FRAMES" if "f \<in> set ?fs" for f
    using that set_take_subset [of n "sorted_list_of_set (free_frames p)"] frames.free_bound [OF assms(1)] by auto
  have u: "unat (of_nat (f * 0x400000) :: u64) = f * 0x400000" if "f \<in> set ?fs" for f
    using fs(2) [OF that] by (simp add: unat_of_nat MAX_FRAMES_def del: of_nat_mult)
  have "distinct (map (\<lambda>f. of_nat (f * 0x400000) :: u64) ?fs)"
    by (rule distinct_map [THEN iffD2]) (auto intro!: inj_onI dest!: arg_cong [of _ _ unat] simp: u simp del: of_nat_mult)
  moreover have "\<forall>a \<in> set (map (\<lambda>f. of_nat (f * 0x400000) :: u64) ?fs).
      \<exists>f \<in> free_frames p - free_frames p'. unat a = f * 0x400000"
    using fs u by (auto simp: p'(2) simp del: of_nat_mult)
  moreover have "length ?fs = n" using assms(2) by simp
  ultimately show ?thesis using p'(1) by auto
qed

theorem pfa_allocs_distinct_witness:
  "\<exists>as p'. frames.alloc_seq 1 pfa_one_free = Some (as, p') \<and> length as = 1"
  using pfa_allocs_distinct [OF pfa_one_free_inv, of 1] by (auto simp: pfa_one_free_frames)

end
