(* ===== verification/Paging.thy ===== *)
theory Paging
  imports Pfa
begin

text \<open>
  \<open>memory/page.c\<close>: page directories of 1024 entries that map 4 MiB pages. A directory is the list of its
  1024 entries; the pointer tests \<open>!dir\<close> of the code are an \<open>option\<close>. \<open>invlpg\<close> and the moves to and from
  CR3 have no effect on this state: the directory that \<open>page_get_dir\<close> reads from CR3 is an argument.
\<close>

unbundle bit_operations_syntax

definition PAGE_PRESENT :: u32 where [konst]: "PAGE_PRESENT = 0x1"
definition PAGE_WRITABLE :: u32 where [konst]: "PAGE_WRITABLE = 0x2"
definition PAGE_USER :: u32 where [konst]: "PAGE_USER = 0x4"
definition PAGE_PS :: u32 where [konst]: "PAGE_PS = 0x80"
definition KERNEL_VIRTUAL_START :: u32 where [konst]: "KERNEL_VIRTUAL_START = 0xC0000000"

type_synonym pdir = "u32 list"

definition p2v :: "u32 \<Rightarrow> u32" where "p2v addr = addr + KERNEL_VIRTUAL_START"
definition v2p :: "u32 \<Rightarrow> u32" where "v2p addr = addr - KERNEL_VIRTUAL_START"

definition pd_index :: "u32 \<Rightarrow> nat" where
  "pd_index virt_addr = unat (drop_bit 22 virt_addr)"

definition page_map_dir :: "pdir \<Rightarrow> u32 \<Rightarrow> u32 \<Rightarrow> u32 \<Rightarrow> pdir" where
  "page_map_dir dir virt_addr phys_addr flags =
     dir[pd_index virt_addr := (phys_addr AND 0xFFC00000) OR (flags AND 0xFFF)]"

text \<open>\<open>page_map\<close> is \<open>page_map_dir\<close> on the directory CR3 points to.\<close>

definition page_map :: "pdir \<Rightarrow> u32 \<Rightarrow> u32 \<Rightarrow> u32 \<Rightarrow> pdir" where
  "page_map cr3_dir virt_addr phys_addr flags =
     cr3_dir[pd_index virt_addr := (phys_addr AND 0xFFC00000) OR (flags AND 0xFFF)]"

definition page_unmap_dir :: "pdir \<Rightarrow> u32 \<Rightarrow> pdir" where
  "page_unmap_dir dir virt_addr = dir[pd_index virt_addr := 0]"

definition page_get_phys_addr :: "pdir \<Rightarrow> u32 \<Rightarrow> u32" where
  "page_get_phys_addr dir virt_addr =
     (if dir ! pd_index virt_addr AND PAGE_PRESENT = 0 then 0
      else (dir ! pd_index virt_addr AND 0xFFC00000) + (virt_addr AND 0x3FFFFF))"

text \<open>
  The loop of \<open>page_map_between\<close>. Every iteration takes a frame from the allocator, so it ends even if
  \<open>virt_curr_addr\<close> wraps around: at the latest when the allocator is exhausted.
\<close>

function page_map_loop :: "pdir \<Rightarrow> u32 \<Rightarrow> u32 \<Rightarrow> u32 \<Rightarrow> pfa \<Rightarrow> (pdir \<times> pfa) option" where
  "page_map_loop dir virt_curr_addr virt_end_addr flags p =
     (if virt_curr_addr < virt_end_addr then
        (case pfa_alloc p of None \<Rightarrow> None
         | Some (a, p') \<Rightarrow>
             if (ucast a :: u32) = 0 then Some (dir, p')
             else page_map_loop (page_map_dir dir virt_curr_addr (ucast a) flags)
                    (virt_curr_addr + PAGE_SIZE) virt_end_addr flags p')
      else Some (dir, p))"
  by pat_completeness auto
termination
  by (relation "measure (\<lambda>(dir, v, e, flags, p). card (free_frames p))")
    (auto intro: pfa_alloc_shrinks)

declare page_map_loop.simps [simp del]

definition page_map_between :: "pdir option \<Rightarrow> u32 \<Rightarrow> u32 \<Rightarrow> u32 \<Rightarrow> pfa \<Rightarrow> (pdir option \<times> pfa) option" where
  "page_map_between dir virt_start_addr virt_end_addr flags p = (case dir of None \<Rightarrow> Some (None, p)
     | Some d \<Rightarrow> map_option (\<lambda>(d', p'). (Some d', p'))
         (page_map_loop d (virt_start_addr AND 0xFFFFF000) ((virt_end_addr + 0xFFF) AND 0xFFFFF000) flags p))"

text \<open>
  The loop of \<open>page_unmap_between\<close> has no such bound: with an end address in the last page
  \<open>virt_curr_addr\<close> wraps and the loop never ends. \<open>None\<close> is that behaviour.
\<close>

partial_function (option) page_unmap_loop :: "pdir \<Rightarrow> u32 \<Rightarrow> u32 \<Rightarrow> pfa \<Rightarrow> (pdir \<times> pfa) option" where
  "page_unmap_loop dir virt_curr_addr virt_end_addr p =
     (if virt_curr_addr < virt_end_addr then
        (let phys_addr = page_get_phys_addr dir virt_curr_addr in
         if phys_addr \<noteq> 0 then
           (case pfa_clear p (ucast (phys_addr div PAGE_SIZE)) of None \<Rightarrow> None
            | Some p' \<Rightarrow> page_unmap_loop (page_unmap_dir dir virt_curr_addr)
                          (virt_curr_addr + PAGE_SIZE) virt_end_addr p')
         else page_unmap_loop dir (virt_curr_addr + PAGE_SIZE) virt_end_addr p)
      else Some (dir, p))"

definition page_unmap_between :: "pdir option \<Rightarrow> u32 \<Rightarrow> u32 \<Rightarrow> pfa \<Rightarrow> (pdir option \<times> pfa) option" where
  "page_unmap_between dir virt_start_addr virt_end_addr p = (case dir of None \<Rightarrow> Some (None, p)
     | Some d \<Rightarrow> map_option (\<lambda>(d', p'). (Some d', p'))
         (page_unmap_loop d (virt_start_addr AND 0xFFFFF000) virt_end_addr p))"

definition remove_identity_mapping :: "pdir \<Rightarrow> pfa \<Rightarrow> (pdir option \<times> pfa) option" where
  "remove_identity_mapping cr3_dir p = page_unmap_between (Some cr3_dir) 0x00000000 0x00400000 p"

text \<open>
  \<open>page_create_dir\<close> returns the virtual address of the new directory with its contents; it also maps the
  frame of the directory into the current one, before it copies the kernel's entries. The first argument is the kernel's
  directory if another one is current, and \<open>None\<close> if the kernel's is itself current. The result \<open>None\<close> of the
  pointer is a null return.
\<close>

definition copy_kernel_entries :: "pdir \<Rightarrow> pdir \<Rightarrow> pdir" where
  "copy_kernel_entries kernel_directory dir =
     fold (\<lambda>i d. if kernel_directory ! i AND push_bit 0 1 \<noteq> 0
              then d[i := (kernel_directory ! i AND 0xFFFFF000) OR (PAGE_PS OR PAGE_PRESENT OR PAGE_WRITABLE)]
              else d) [768..<1024] dir"

definition page_create_dir ::
  "pdir option \<Rightarrow> pdir \<Rightarrow> pfa \<Rightarrow> u32 \<Rightarrow> ((u32 \<times> pdir) option \<times> pdir \<times> pfa) option" where
  "page_create_dir kernel_directory cr3_dir p flags =
     (case pfa_alloc p of None \<Rightarrow> None
      | Some (phys_addr, p') \<Rightarrow>
          if phys_addr = 0 then Some (None, cr3_dir, p')
          else if phys_addr AND 0x3FFFFF \<noteq> 0 then Some (None, cr3_dir, p')
          else (let virt_addr = p2v (ucast phys_addr);
                    cr3_dir' = page_map_dir cr3_dir virt_addr (ucast phys_addr) flags;
                    dir = copy_kernel_entries (case kernel_directory of None \<Rightarrow> cr3_dir' | Some kd \<Rightarrow> kd) (replicate 1024 0)
                in Some (Some (virt_addr, dir), cr3_dir', p')))"

section \<open>Lemmas\<close>

definition pdir_wf :: "pdir \<Rightarrow> bool" where [invs]: "pdir_wf dir \<longleftrightarrow> length dir = 1024"

lemma pd_index_div: "pd_index v = unat v div 0x400000"
  by (simp add: pd_index_def drop_bit_eq_div unat_div)

lemma pd_index_bound [simp]: "pd_index v < 1024"
  using unat_bound [of v] by (simp add: pd_index_div)

text \<open>The masks of the code as bit masks.\<close>

lemma page_masks:
  "(0xFFC00000 :: u32) = NOT (mask 22)" "(0x3FFFFF :: u32) = mask 22"
  "(0xFFF :: u32) = mask 12" "(0xFFFFF000 :: u32) = NOT (mask 12)"
  by (simp_all add: mask_eq_exp_minus_1)

lemma entry_addr: "((a AND 0xFFC00000) OR (flags AND 0xFFF)) AND 0xFFC00000 = (a :: u32) AND 0xFFC00000"
  unfolding page_masks by (rule bit_word_eqI) (auto simp: bit_simps)

lemma entry_present: "((a AND 0xFFC00000) OR (flags AND 0xFFF)) AND PAGE_PRESENT = (flags :: u32) AND PAGE_PRESENT"
proof -
  have "PAGE_PRESENT = mask 1" by (simp add: konst mask_eq_exp_minus_1)
  then show ?thesis unfolding page_masks by (auto intro!: bit_word_eqI simp: bit_simps)
qed

lemma unat_offset: "unat ((v :: u32) AND 0x3FFFFF) = unat v mod 0x400000"
  unfolding page_masks unat_and_mask by simp

lemma unat_page: "unat ((v :: u32) AND 0xFFC00000) = unat v - unat v mod 0x400000"
  unfolding page_masks unat_and_not_mask by simp

lemma frame_word: "f < MAX_FRAMES \<Longrightarrow> unat ((of_nat f :: u32) * PAGE_SIZE) = f * 0x400000"
  by (simp add: konst unat_word_ariths unat_of_nat)

lemma ucast_frame:
  "f < MAX_FRAMES \<Longrightarrow> (ucast (of_nat (f * 0x400000) :: u64) :: u32) = of_nat f * PAGE_SIZE"
  by (rule word_unat_eq_iff [THEN iffD2])
    (simp add: konst unsigned_ucast_eq unat_word_ariths unat_of_nat take_bit_eq_mod)

text \<open>The entry \<open>page_map_dir\<close> writes for a frame.\<close>

definition pde :: "nat \<Rightarrow> u32 \<Rightarrow> u32" where
  "pde f flags = ((of_nat f * PAGE_SIZE) AND 0xFFC00000) OR (flags AND 0xFFF)"

lemma pde_frame: "f < MAX_FRAMES \<Longrightarrow> pde f flags AND 0xFFC00000 = of_nat f * PAGE_SIZE"
  unfolding pde_def entry_addr by (rule word_unat_eq_iff [THEN iffD2]) (simp add: unat_page frame_word)

lemma page_get_phys_addr_pde:
  assumes "f < MAX_FRAMES" "flags AND PAGE_PRESENT \<noteq> 0" "dir ! pd_index v = pde f flags"
  shows "unat (page_get_phys_addr dir v) = f * 0x400000 + unat v mod 0x400000"
proof -
  have "page_get_phys_addr dir v = of_nat f * PAGE_SIZE + (v AND 0x3FFFFF)"
    using assms by (simp add: page_get_phys_addr_def pde_frame) (simp add: pde_def entry_present)
  moreover have "unat (of_nat f * PAGE_SIZE :: u32) + unat (v AND 0x3FFFFF) < 2 ^ 32"
    using assms(1) mod_less_divisor [of "0x400000" "unat v"] by (simp add: frame_word unat_offset MAX_FRAMES_def)
  ultimately show ?thesis
    using assms(1) by (simp add: unat_add_small frame_word unat_offset)
qed

lemma page_map_dir_wf [simp]: "pdir_wf dir \<Longrightarrow> pdir_wf (page_map_dir dir v a flags)"
  by (simp add: pdir_wf_def page_map_dir_def)

lemma page_unmap_dir_wf [simp]: "pdir_wf dir \<Longrightarrow> pdir_wf (page_unmap_dir dir v)"
  by (simp add: pdir_wf_def page_unmap_dir_def)

text \<open>Advancing by one page moves to the next entry as long as the address does not wrap.\<close>

lemma next_page:
  assumes "unat (v :: u32) + 0x400000 < 2 ^ 32"
  shows "unat (v + PAGE_SIZE) = unat v + 0x400000" "pd_index (v + PAGE_SIZE) = Suc (pd_index v)"
proof -
  show "unat (v + PAGE_SIZE) = unat v + 0x400000"
    using assms by (subst unat_add_small) (simp_all add: konst)
  then show "pd_index (v + PAGE_SIZE) = Suc (pd_index v)" by (simp add: pd_index_div)
qed

lemma page_map_loop_maps:
  assumes "pfa_inv p" "0 \<notin> free_frames p" "n \<le> card (free_frames p)" "pdir_wf dir"
    and "\<forall>i < n. unat v + i * 0x400000 < unat e" "unat e \<le> unat v + n * 0x400000"
    and "unat v + n * 0x400000 < 2 ^ 32"
  shows "\<exists>dir' p'. page_map_loop dir v e flags p = Some (dir', p') \<and> pfa_inv p' \<and> pdir_wf dir'
    \<and> free_frames p' = free_frames p - set (take n (sorted_list_of_set (free_frames p)))
    \<and> (\<forall>j < 1024. dir' ! j = (if pd_index v \<le> j \<and> j < pd_index v + n
          then pde (sorted_list_of_set (free_frames p) ! (j - pd_index v)) flags else dir ! j))"
  using assms
proof (induction n arbitrary: dir v p)
  case 0
  then have "\<not> v < e" by (simp add: word_less_nat_alt)
  with 0 show ?case by (auto simp: page_map_loop.simps [of dir v e flags p])
next
  case (Suc n)
  then have ne: "free_frames p \<noteq> {}" by auto
  let ?f = "Min (free_frames p)"
  have f: "?f < MAX_FRAMES" "?f \<noteq> 0" using Suc.prems(2) Min_free_frames [OF ne] by metis+
  obtain p1 where p1: "pfa_alloc p = Some (of_nat (?f * 0x400000), p1)" "pfa_inv p1"
      "free_frames p1 = free_frames p - {?f}"
    using frames.alloc_some [OF Suc.prems(1) ne] by blast
  have a: "(ucast (of_nat (?f * 0x400000) :: u64) :: u32) = of_nat ?f * PAGE_SIZE"
    using f(1) by (rule ucast_frame)
  have nz: "(of_nat ?f * PAGE_SIZE :: u32) \<noteq> 0" using f frame_word [of ?f] by auto
  have lt: "v < e" using Suc.prems(5) by (auto simp: word_less_nat_alt dest: spec [of _ 0])
  have w: "unat v + 0x400000 < 2 ^ 32" using Suc.prems(7) by simp
  define dir1 where "dir1 = page_map_dir dir v (of_nat ?f * PAGE_SIZE) flags"
  have step: "page_map_loop dir v e flags p = page_map_loop dir1 (v + PAGE_SIZE) e flags p1"
    using lt p1(1) nz by (simp add: page_map_loop.simps [of dir v e flags p] a dir1_def del: of_nat_mult)
  have sl: "sorted_list_of_set (free_frames p) = ?f # sorted_list_of_set (free_frames p1)"
    by (simp add: p1(3) sorted_list_of_set_Min [OF finite_frames(2) ne])
  have wf: "pdir_wf dir1" using Suc.prems(4) by (simp add: dir1_def)
  have nth: "dir1 ! j = (if j = pd_index v then pde ?f flags else dir ! j)" if "j < 1024" for j
    using that Suc.prems(4) by (auto simp: dir1_def page_map_dir_def pdir_wf_def pde_def nth_list_update)
  have "n \<le> card (free_frames p1)" "0 \<notin> free_frames p1"
    using Suc.prems(2,3) ne by (simp_all add: p1(3))
  moreover have "\<forall>i < n. unat (v + PAGE_SIZE) + i * 0x400000 < unat e"
    using Suc.prems(5) by (auto simp: next_page [OF w] dest: spec [of _ "Suc _"])
  moreover have "unat e \<le> unat (v + PAGE_SIZE) + n * 0x400000" "unat (v + PAGE_SIZE) + n * 0x400000 < 2 ^ 32"
    using Suc.prems(6,7) by (simp_all add: next_page [OF w])
  ultimately obtain dir' p' where r: "page_map_loop dir1 (v + PAGE_SIZE) e flags p1 = Some (dir', p')"
      "pfa_inv p'" "pdir_wf dir'"
      "free_frames p' = free_frames p1 - set (take n (sorted_list_of_set (free_frames p1)))"
      "\<forall>j < 1024. dir' ! j = (if Suc (pd_index v) \<le> j \<and> j < Suc (pd_index v) + n
          then pde (sorted_list_of_set (free_frames p1) ! (j - Suc (pd_index v))) flags else dir1 ! j)"
    using Suc.IH [OF p1(2) _ _ wf, of "v + PAGE_SIZE"] by (auto simp: next_page [OF w])
  have "\<forall>j < 1024. dir' ! j = (if pd_index v \<le> j \<and> j < pd_index v + Suc n
          then pde (sorted_list_of_set (free_frames p) ! (j - pd_index v)) flags else dir ! j)"
    using r(5) by (auto simp: sl nth nth_Cons' Suc_diff_le)
  with r(1-4) step show ?case by (auto simp: sl p1(3))
qed

lemma phys_frame:
  assumes "unat (a :: u32) = f * 0x400000 + r" "r < 0x400000" "f < MAX_FRAMES"
  shows "(ucast (a div PAGE_SIZE) :: u64) = of_nat f"
proof -
  have "unat (a div PAGE_SIZE) = f" using assms(1,2) by (simp add: unat_div konst)
  then have "unat (ucast (a div PAGE_SIZE) :: u64) = f"
    using assms(3) by (simp add: unsigned_ucast_eq take_bit_eq_mod MAX_FRAMES_def)
  then show ?thesis by (metis of_nat_unat ucast_id)
qed

lemma page_unmap_loop_unmaps:
  assumes "pfa_inv p" "pdir_wf dir" "flags AND PAGE_PRESENT \<noteq> 0"
    and "\<forall>f \<in> set fs. 0 < f \<and> f < MAX_FRAMES"
    and "\<forall>i < length fs. dir ! (pd_index v + i) = pde (fs ! i) flags"
    and "\<forall>i < length fs. unat v + i * 0x400000 < unat e" "unat e \<le> unat v + length fs * 0x400000"
    and "unat v + length fs * 0x400000 < 2 ^ 32"
  shows "\<exists>dir' p'. page_unmap_loop dir v e p = Some (dir', p') \<and> pfa_inv p' \<and> pdir_wf dir'
    \<and> free_frames p' = free_frames p \<union> set fs
    \<and> (\<forall>j < 1024. dir' ! j = (if pd_index v \<le> j \<and> j < pd_index v + length fs then 0 else dir ! j))"
  using assms
proof (induction fs arbitrary: dir v p)
  case Nil
  then have "\<not> v < e" by (simp add: word_less_nat_alt)
  with Nil show ?case by (auto simp: page_unmap_loop.simps [of dir v e p])
next
  case (Cons f fs)
  have f: "0 < f" "f < MAX_FRAMES" using Cons.prems(4) by auto
  have lt: "v < e" using Cons.prems(6) by (auto simp: word_less_nat_alt dest: spec [of _ 0])
  have w: "unat v + 0x400000 < 2 ^ 32" using Cons.prems(8) by simp
  have "dir ! pd_index v = pde f flags" using Cons.prems(5) by (auto dest: spec [of _ 0])
  note phys = page_get_phys_addr_pde [OF f(2) Cons.prems(3) this]
  then have nz: "page_get_phys_addr dir v \<noteq> 0" using f(1) by auto
  obtain p1 where p1: "pfa_clear p (of_nat f) = Some p1" "pfa_inv p1" "free_frames p1 = insert f (free_frames p)"
    using frames.release_ok [OF Cons.prems(1) f(2)] by blast
  define dir1 where "dir1 = page_unmap_dir dir v"
  have fr: "(ucast (page_get_phys_addr dir v div PAGE_SIZE) :: u64) = of_nat f"
    using phys f(2) by (intro phys_frame) auto
  have step: "page_unmap_loop dir v e p = page_unmap_loop dir1 (v + PAGE_SIZE) e p1"
    by (subst page_unmap_loop.simps) (use lt nz p1(1) fr in \<open>simp add: Let_def dir1_def\<close>)
  have nth: "dir1 ! j = (if j = pd_index v then 0 else dir ! j)" if "j < 1024" for j
    using that Cons.prems(2) by (auto simp: dir1_def page_unmap_dir_def pdir_wf_def nth_list_update)
  have bound: "pd_index v + length (f # fs) < 1024" if "fs \<noteq> []"
    using Cons.prems(8) by (auto simp: pd_index_div)
  have "dir1 ! (pd_index (v + PAGE_SIZE) + i) = pde (fs ! i) flags" if "i < length fs" for i
  proof -
    have "Suc (pd_index v + i) < 1024" using bound that by (cases fs) auto
    with that Cons.prems(5) show ?thesis by (auto simp: next_page [OF w] nth dest: spec [of _ "Suc i"])
  qed
  then have "\<forall>i < length fs. dir1 ! (pd_index (v + PAGE_SIZE) + i) = pde (fs ! i) flags" by blast
  moreover have "\<forall>i < length fs. unat (v + PAGE_SIZE) + i * 0x400000 < unat e"
    using Cons.prems(6) by (auto simp: next_page [OF w] dest: spec [of _ "Suc _"])
  moreover have "unat e \<le> unat (v + PAGE_SIZE) + length fs * 0x400000"
      "unat (v + PAGE_SIZE) + length fs * 0x400000 < 2 ^ 32"
    using Cons.prems(7,8) by (simp_all add: next_page [OF w])
  ultimately obtain dir' p' where r: "page_unmap_loop dir1 (v + PAGE_SIZE) e p1 = Some (dir', p')"
      "pfa_inv p'" "pdir_wf dir'" "free_frames p' = free_frames p1 \<union> set fs"
      "\<forall>j < 1024. dir' ! j = (if Suc (pd_index v) \<le> j \<and> j < Suc (pd_index v) + length fs then 0 else dir1 ! j)"
    using Cons.IH [OF p1(2) _ Cons.prems(3), of dir1 "v + PAGE_SIZE"] Cons.prems(2,4)
    by (auto simp: next_page [OF w] dir1_def)
  have "\<forall>j < 1024. dir' ! j = (if pd_index v \<le> j \<and> j < pd_index v + length (f # fs) then 0 else dir ! j)"
    using r(5) by (auto simp: nth)
  with r(1-4) step show ?case by (auto simp: p1(3))
qed

lemma copy_kernel_entries_nth:
  assumes "length d = 1024" "n \<le> 1024" "768 \<le> n"
  shows "length (fold (\<lambda>i d. if kd ! i AND push_bit 0 1 \<noteq> 0 then d[i := g i] else d) [768..<n] d) = 1024
    \<and> (\<forall>j < 1024. fold (\<lambda>i d. if kd ! i AND push_bit 0 1 \<noteq> 0 then d[i := g i] else d) [768..<n] d ! j
        = (if 768 \<le> j \<and> j < n \<and> kd ! j AND push_bit 0 1 \<noteq> 0 then g j else d ! j))"
  using assms(2,3)
proof (induction n)
  case 0
  then show ?case by simp
next
  case (Suc n)
  show ?case
  proof (cases "768 \<le> n")
    case True
    with Suc show ?thesis by (auto simp: nth_list_update less_Suc_eq)
  next
    case False
    with Suc.prems have "n = 767" by simp
    then show ?thesis using assms(1) by auto
  qed
qed

text \<open>The flags of a copied kernel entry: present, writable, 4 MiB, and not accessible from user mode.\<close>

lemma kernel_entry_bits:
  fixes x :: u32
  shows "((x AND 0xFFFFF000) OR 0x83) AND 4 = 0"
    "((x AND 0xFFFFF000) OR 0x83) AND 1 = 1"
    "((x AND 0xFFFFF000) OR 0x83) AND 0xFFFFF000 = x AND 0xFFFFF000"
proof -
  have m: "(0xFFFFF000 :: u32) AND 4 = 0" "(0x83 :: u32) AND 4 = 0" "(0xFFFFF000 :: u32) AND 1 = 0"
      "(0x83 :: u32) AND 1 = 1" "(0x83 :: u32) AND 0xFFFFF000 = 0" "(0xFFFFF000 :: u32) AND 0xFFFFF000 = 0xFFFFF000"
    by simp_all
  show "((x AND 0xFFFFF000) OR 0x83) AND 4 = 0" "((x AND 0xFFFFF000) OR 0x83) AND 1 = 1"
    "((x AND 0xFFFFF000) OR 0x83) AND 0xFFFFF000 = x AND 0xFFFFF000"
    by (simp_all only: bit.conj_disj_distrib2 and.assoc m and_zero_eq or.left_neutral or.right_neutral)
qed

lemma copy_kernel_entries_spec:
  "pdir_wf (copy_kernel_entries kd (replicate 1024 0))"
  "j < 1024 \<Longrightarrow> copy_kernel_entries kd (replicate 1024 0) ! j =
     (if 768 \<le> j \<and> kd ! j AND 1 \<noteq> 0 then (kd ! j AND 0xFFFFF000) OR 0x83 else 0)"
proof -
  have k: "PAGE_PS OR PAGE_PRESENT OR PAGE_WRITABLE = (0x83 :: u32)" by (simp add: konst)
  have p: "push_bit 0 1 = (1 :: u32)" by simp
  let ?g = "\<lambda>i. (kd ! i AND 0xFFFFF000) OR 0x83"
  define r where "r = copy_kernel_entries kd (replicate 1024 0)"
  have r: "length r = 1024 \<and>
    (\<forall>j < 1024. r ! j = (if 768 \<le> j \<and> j < 1024 \<and> kd ! j AND push_bit 0 1 \<noteq> 0 then ?g j else replicate 1024 0 ! j))"
    unfolding r_def copy_kernel_entries_def k by (rule copy_kernel_entries_nth) simp_all
  show "pdir_wf (copy_kernel_entries kd (replicate 1024 0))"
    using r by (simp add: pdir_wf_def r_def)
  show "copy_kernel_entries kd (replicate 1024 0) ! j =
     (if 768 \<le> j \<and> kd ! j AND 1 \<noteq> 0 then (kd ! j AND 0xFFFFF000) OR 0x83 else 0)" if "j < 1024"
    using r that unfolding p r_def [symmetric] by (metis nth_replicate)
qed

section \<open>Properties\<close>



text \<open>Unmapping a range whose pages were mapped to frames \<open>fs\<close> clears exactly their entries and gives
  exactly these frames back to the allocator.\<close>

theorem page_unmap_between_frees:
  fixes s e flags :: u32
  defines "v \<equiv> s AND 0xFFFFF000"
  assumes "pfa_inv p" "pdir_wf dir" "flags AND PAGE_PRESENT \<noteq> 0"
    and "\<forall>f \<in> set fs. 0 < f \<and> f < MAX_FRAMES"
    and "\<forall>i < length fs. dir ! (pd_index v + i) = pde (fs ! i) flags"
    and "length fs = (unat e - unat v + 0x3FFFFF) div 0x400000"
    and "unat v + length fs * 0x400000 < 2 ^ 32"
  shows "\<exists>dir' p'. page_unmap_between (Some dir) s e p = Some (Some dir', p') \<and> pfa_inv p' \<and> pdir_wf dir'
    \<and> free_frames p' = free_frames p \<union> set fs
    \<and> (\<forall>j < 1024. dir' ! j = (if pd_index v \<le> j \<and> j < pd_index v + length fs then 0 else dir ! j))"
proof -
  have "\<forall>i < length fs. unat v + i * 0x400000 < unat e" "unat e \<le> unat v + length fs * 0x400000"
    unfolding assms(7) by auto
  from page_unmap_loop_unmaps [OF assms(2-6) this assms(8)] show ?thesis
    by (auto simp: page_unmap_between_def v_def)
qed

theorem page_unmap_between_frees_witness:
  "\<exists>dir' p'. page_unmap_between (Some ((replicate 1024 0)[2 := pde 5 0x87])) 0x800000 0xBFFFFF pfa_one_free
       = Some (Some dir', p') \<and> free_frames p' = {5, 12} \<and> dir' ! 2 = 0"
proof -
  have wf: "pdir_wf ((replicate 1024 0)[2 := pde 5 0x87])" by (simp add: pdir_wf_def)
  have i: "pd_index 0x800000 = 2" by (simp add: pd_index_div)
  have fl: "(0x87 :: u32) AND PAGE_PRESENT \<noteq> 0" by (simp add: konst)
  have fs: "\<forall>f \<in> set [5]. 0 < f \<and> f < MAX_FRAMES" by (simp add: konst)
  show ?thesis
    using page_unmap_between_frees [OF pfa_one_free_inv wf fl fs, where s = "0x800000" and e = "0xBFFFFF"]
    by (auto simp: pfa_one_free_frames i)
qed

text \<open>C4: a directory made by \<open>page_create_dir\<close> maps nothing below the kernel half, and its kernel half repeats
  the present kernel mappings without the user bit, so user code reaches no kernel page through it.\<close>

theorem page_create_dir_isolates:
  assumes "page_create_dir kernel_directory cr3_dir p flags = Some (Some (a, dir), cr3_dir', p')"
    and "kd = (case kernel_directory of None \<Rightarrow> cr3_dir' | Some d \<Rightarrow> d)"
  shows "pdir_wf dir
    \<and> (\<forall>j < 768. dir ! j = 0)
    \<and> (\<forall>j. 768 \<le> j \<and> j < 1024 \<longrightarrow> dir ! j AND PAGE_USER = 0
        \<and> (dir ! j AND PAGE_PRESENT \<noteq> 0 \<longleftrightarrow> kd ! j AND PAGE_PRESENT \<noteq> 0)
        \<and> (kd ! j AND PAGE_PRESENT \<noteq> 0 \<longrightarrow>
             dir ! j AND 0xFFFFF000 = kd ! j AND 0xFFFFF000))"
proof -
  have d: "dir = copy_kernel_entries kd (replicate 1024 0)"
    using assms by (auto simp: page_create_dir_def Let_def split: option.splits if_splits prod.splits)
  have wf: "pdir_wf dir" unfolding d by (rule copy_kernel_entries_spec(1))
  have low: "dir ! j = 0" if "j < 768" for j
    using that unfolding d by (simp add: copy_kernel_entries_spec(2))
  have high: "dir ! j = (if kd ! j AND 1 \<noteq> 0 then (kd ! j AND 0xFFFFF000) OR 0x83 else 0)"
    if "768 \<le> j" "j < 1024" for j
    using that unfolding d by (simp only: copy_kernel_entries_spec(2)) simp
  have "dir ! j AND 4 = 0 \<and> (dir ! j AND 1 \<noteq> 0 \<longleftrightarrow> kd ! j AND 1 \<noteq> 0)
      \<and> (kd ! j AND 1 \<noteq> 0 \<longrightarrow> dir ! j AND 0xFFFFF000 = kd ! j AND 0xFFFFF000)"
    if "768 \<le> j" "j < 1024" for j
    unfolding high [OF that] by (cases "kd ! j AND 1 = 0") (simp_all add: kernel_entry_bits)
  then show ?thesis using wf low unfolding PAGE_USER_def PAGE_PRESENT_def by blast
qed

theorem page_create_dir_isolates_witness:
  "\<exists>a dir cr3' p'. page_create_dir (Some ((replicate 1024 0)[768 := 0x83])) (replicate 1024 0) pfa_one_free 0x83
      = Some (Some (a, dir), cr3', p') \<and> dir ! 2 = 0 \<and> dir ! 768 AND PAGE_PRESENT \<noteq> 0 \<and> dir ! 768 AND PAGE_USER = 0"
proof -
  obtain p' where "pfa_alloc pfa_one_free = Some (0x3000000, p')"
    using frames.alloc_some [OF pfa_one_free_inv] by (auto simp: pfa_one_free_frames)
  then obtain a dir cr3' where r: "page_create_dir (Some ((replicate 1024 0)[768 := 0x83])) (replicate 1024 0) pfa_one_free 0x83
      = Some (Some (a, dir), cr3', p')"
    by (simp add: page_create_dir_def Let_def)
  note page_create_dir_isolates [OF r refl]
  then have "dir ! 2 = 0" "dir ! 768 AND PAGE_USER = 0" "dir ! 768 AND PAGE_PRESENT \<noteq> 0"
    by (auto simp: konst)
  with r show ?thesis by blast
qed

text \<open>the identity mapping of the first 4 MiB survives \<open>_remove_identity_mapping\<close>: its entry maps physical
  address 0, which \<open>page_get_phys_addr\<close> does not tell apart from a page that is not present.\<close>

theorem identity_mapping_not_removed:
  assumes "dir ! 0 AND 0xFFC00000 = 0"
  shows "remove_identity_mapping dir p = Some (Some dir, p)"
proof -
  have i: "pd_index 0 = 0" by (simp add: pd_index_div)
  have "page_get_phys_addr dir 0 = 0" using assms by (simp add: page_get_phys_addr_def i)
  then have "page_unmap_loop dir 0 0x400000 p = Some (dir, p)"
    by (subst page_unmap_loop.simps, subst page_unmap_loop.simps) (simp add: konst Let_def)
  then show ?thesis by (simp add: remove_identity_mapping_def page_unmap_between_def)
qed

theorem identity_mapping_not_removed_witness:
  "remove_identity_mapping (0x83 # replicate 1023 0) \<lparr>frames_bitmap = replicate 32 0xFFFFFFFF\<rparr>
   = Some (Some (0x83 # replicate 1023 0), \<lparr>frames_bitmap = replicate 32 0xFFFFFFFF\<rparr>)"
proof -
  have h: "(0x83 # replicate 1023 (0 :: u32)) ! 0 AND 0xFFC00000 = 0" by simp
  show ?thesis by (rule identity_mapping_not_removed [OF h])
qed

end
