(* ===== verification/Kheap.thy ===== *)
theory Kheap
  imports Paging
begin

text \<open>
  \<open>memory/heap.c\<close>: the kernel heap, a doubly linked list of block headers at 4 KiB chunks that grows by one
  4 MiB page at a time. Headers live in the heap memory itself: \<open>blocks\<close> is the memory seen as headers, a
  partial map from addresses. Addresses and sizes are numbers below \<open>2 ^ 32\<close>; the two sums of a client-chosen
  size are reduced as the 32-bit code reduces them. A \<open>panic\<close> does not return and is \<open>None\<close>, as is an access to
  memory that holds no header.
\<close>

unbundle bit_operations_syntax

definition KERNEL_HEAP_START :: nat where [konst]: "KERNEL_HEAP_START = 0xC1000000"
definition KERNEL_HEAP_MAX :: nat where [konst]: "KERNEL_HEAP_MAX = 0xC2BFFFFF"
definition KERNEL_HEAP_CHUNK_SIZE :: nat where [konst]: "KERNEL_HEAP_CHUNK_SIZE = 4096"

record heap_block =
  bsize :: nat
  is_free :: bool
  chunk_span :: nat
  bprev :: nat
  bnext :: nat

definition sizeof_heap_block :: nat where [konst]: "sizeof_heap_block = 20"

text \<open>The \<open>heap_t\<close> struct with the memory it manages, the frame allocator and the page directory it draws on.\<close>

record kheap =
  start_addr :: nat
  next_addr :: nat
  end_addr :: nat
  last_block :: nat
  used_chunks :: u32
  free_chunks :: u32
  blocks :: "nat \<rightharpoonup> heap_block"
  kdata :: "nat \<Rightarrow> u8"
  kpfa :: pfa
  kdir :: pdir

definition block_at :: "kheap \<Rightarrow> nat \<Rightarrow> heap_block option" where
  "block_at h a = (if a = 0 then None else blocks h a)"

definition upd_block :: "nat \<Rightarrow> (heap_block \<Rightarrow> heap_block) \<Rightarrow> kheap \<Rightarrow> kheap option" where
  "upd_block a f h = (case block_at h a of None \<Rightarrow> None | Some b \<Rightarrow> Some (h\<lparr>blocks := (blocks h)(a \<mapsto> f b)\<rparr>))"

definition init_heap_block :: "nat \<Rightarrow> nat \<Rightarrow> nat \<Rightarrow> kheap \<Rightarrow> kheap" where
  "init_heap_block a sz prv h = h\<lparr>blocks := (blocks h)(a \<mapsto>
     \<lparr>bsize = sz, is_free = True, chunk_span = 1, bprev = prv, bnext = 0\<rparr>)\<rparr>"

definition heap_init :: "kheap \<Rightarrow> kheap" where
  "heap_init h = h\<lparr>start_addr := KERNEL_HEAP_START, next_addr := KERNEL_HEAP_START,
     end_addr := KERNEL_HEAP_MAX, last_block := 0\<rparr>"

text \<open>The loop of \<open>_heap_grow\<close> that turns the new page into chunks.\<close>

primrec grow_loop :: "nat \<Rightarrow> nat \<Rightarrow> nat \<Rightarrow> kheap \<Rightarrow> (nat \<times> nat \<times> kheap) option" where
  "grow_loop 0 virt prv h = Some (virt, prv, h)"
| "grow_loop (Suc n) virt prv h =
     (let h1 = init_heap_block virt KERNEL_HEAP_CHUNK_SIZE prv h in
      case (if prv \<noteq> 0 then upd_block prv (\<lambda>b. b\<lparr>bnext := virt\<rparr>) h1 else Some h1) of None \<Rightarrow> None
      | Some h2 \<Rightarrow> grow_loop n (virt + KERNEL_HEAP_CHUNK_SIZE) virt h2)"

definition heap_grow :: "kheap \<Rightarrow> kheap option" where
  "heap_grow h = (case pfa_alloc (kpfa h) of None \<Rightarrow> None
     | Some (a, p') \<Rightarrow>
        if (ucast a :: u32) = 0 then None
        else (let h1 = h\<lparr>kpfa := p',
                       kdir := page_map (kdir h) (of_nat (next_addr h)) (ucast a) (PAGE_PS OR PAGE_WRITABLE OR PAGE_PRESENT)\<rparr>;
                  chunks = 0x400000 div KERNEL_HEAP_CHUNK_SIZE
              in case (if last_block h1 \<noteq> 0
                       then map_option (\<lambda>h'. h'\<lparr>blocks := (blocks h')(next_addr h1 :=
                              map_option (\<lambda>b. b\<lparr>bprev := last_block h1\<rparr>) (blocks h' (next_addr h1)))\<rparr>)
                            (upd_block (last_block h1) (\<lambda>b. b\<lparr>bnext := next_addr h1\<rparr>) h1)
                       else Some h1) of None \<Rightarrow> None
                 | Some h2 \<Rightarrow> (case grow_loop chunks (next_addr h2) (last_block h2) h2 of None \<Rightarrow> None
                     | Some (virt, prv, h3) \<Rightarrow>
                         Some (h3\<lparr>last_block := prv, next_addr := virt, free_chunks := free_chunks h3 + of_nat chunks\<rparr>))))"

text \<open>
  The search of \<open>_malloc\<close>: \<open>count_run\<close> is the innermost loop, \<open>heap_scan\<close> the walk along the list. The walk
  follows whatever pointers it finds, so on a cyclic list it does not return.
\<close>

primrec count_run :: "kheap \<Rightarrow> nat \<Rightarrow> nat \<Rightarrow> nat option" where
  "count_run h 0 cur = Some 0"
| "count_run h (Suc k) cur = (if cur = 0 then Some 0 else
     (case block_at h cur of None \<Rightarrow> None
      | Some b \<Rightarrow> if is_free b then map_option Suc (count_run h k (bnext b)) else Some 0))"

partial_function (option) heap_scan :: "kheap \<Rightarrow> nat \<Rightarrow> nat \<Rightarrow> nat option option" where
  "heap_scan h needed cur = (if cur = 0 then Some None else
     (case block_at h cur of None \<Rightarrow> None
      | Some b \<Rightarrow> if is_free b
          then (case count_run h needed cur of None \<Rightarrow> None
                | Some n \<Rightarrow> if n = needed then Some (Some cur) else heap_scan h needed (bnext b))
          else heap_scan h needed (bnext b)))"

text \<open>Taking \<open>needed\<close> chunks from \<open>start\<close> on; the heap grows when the span reaches its end.\<close>

primrec span_loop :: "nat \<Rightarrow> nat \<Rightarrow> kheap \<Rightarrow> (nat \<times> kheap) option" where
  "span_loop 0 block h = Some (block, h)"
| "span_loop (Suc i) block h =
     (case upd_block block (\<lambda>b. b\<lparr>is_free := False\<rparr>) h of None \<Rightarrow> None
      | Some h1 \<Rightarrow>
        (case block_at h1 block of None \<Rightarrow> None
         | Some b \<Rightarrow>
           (case (if bnext b = 0 then heap_grow h1 else Some h1) of None \<Rightarrow> None
            | Some h2 \<Rightarrow> (case block_at h2 block of None \<Rightarrow> None | Some b' \<Rightarrow> span_loop i (bnext b') h2))))"

definition take_span :: "nat \<Rightarrow> nat \<Rightarrow> kheap \<Rightarrow> (nat \<times> kheap) option" where
  "take_span start needed h =
     (case upd_block start (\<lambda>b. b\<lparr>is_free := False, chunk_span := needed\<rparr>) h of None \<Rightarrow> None
      | Some h1 \<Rightarrow>
        (case block_at h1 start of None \<Rightarrow> None
         | Some b \<Rightarrow>
           (case span_loop (needed - 1) (bnext b) h1 of None \<Rightarrow> None
            | Some (next_free, h2) \<Rightarrow>
              (case (if next_free \<noteq> 0 then upd_block next_free (\<lambda>b. b\<lparr>bprev := start\<rparr>) h2 else Some h2) of None \<Rightarrow> None
               | Some h3 \<Rightarrow>
                 (case upd_block start (\<lambda>b. b\<lparr>bnext := next_free\<rparr>) h3 of None \<Rightarrow> None
                  | Some h4 \<Rightarrow>
                    (case (if next_free = 0 then heap_grow h4 else Some h4) of None \<Rightarrow> None
                     | Some h5 \<Rightarrow> Some (start + sizeof_heap_block,
                         h5\<lparr>free_chunks := free_chunks h5 - of_nat needed,
                            used_chunks := used_chunks h5 + of_nat needed\<rparr>)))))))"

lemma upd_block_kpfa: "upd_block a f h = Some h' \<Longrightarrow> kpfa h' = kpfa h"
  by (auto simp: upd_block_def split: option.splits)

lemma grow_loop_kpfa: "grow_loop n virt prv h = Some (v, p, h') \<Longrightarrow> kpfa h' = kpfa h"
  by (induction n arbitrary: virt prv h)
    (auto simp: Let_def init_heap_block_def dest: upd_block_kpfa split: option.splits if_splits)

lemma heap_grow_takes_frame:
  assumes "heap_grow h = Some h'"
  shows "card (free_frames (kpfa h')) < card (free_frames (kpfa h))"
proof -
  from assms obtain a p' where a: "pfa_alloc (kpfa h) = Some (a, p')" "(ucast a :: u32) \<noteq> 0" "kpfa h' = p'"
    by (auto simp: heap_grow_def Let_def upd_block_def split: option.splits if_splits prod.splits dest!: grow_loop_kpfa)
  then have "a \<noteq> 0" by auto
  with a show ?thesis using pfa_alloc_shrinks by metis
qed

text \<open>The outer loop of \<open>_malloc\<close>: it ends because every turn takes a frame.\<close>

function malloc_loop :: "nat \<Rightarrow> kheap \<Rightarrow> (nat \<times> kheap) option" where
  "malloc_loop needed h = (case heap_scan h needed (start_addr h) of None \<Rightarrow> None
     | Some (Some start) \<Rightarrow> take_span start needed h
     | Some None \<Rightarrow> (case heap_grow h of None \<Rightarrow> None | Some h' \<Rightarrow> malloc_loop needed h'))"
  by pat_completeness auto
termination
  by (relation "measure (\<lambda>(n, h). card (free_frames (kpfa h)))") (auto simp: heap_grow_takes_frame)

declare malloc_loop.simps [simp del]

definition heap_malloc :: "nat \<Rightarrow> kheap \<Rightarrow> (nat \<times> kheap) option" where
  "heap_malloc sz h =
     (let total_size_with_header = (sz + sizeof_heap_block) mod 2 ^ 32 in
      if (next_addr h + total_size_with_header) mod 2 ^ 32 > KERNEL_HEAP_MAX then Some (0, h)
      else (let chunks_needed = ((total_size_with_header + KERNEL_HEAP_CHUNK_SIZE - 1) mod 2 ^ 32) div KERNEL_HEAP_CHUNK_SIZE;
                total_chunks = free_chunks h + used_chunks h
            in case (if total_chunks = 0 then heap_grow h
                     else if (free_chunks h * 100) div total_chunks < 20 then heap_grow h
                     else Some h) of None \<Rightarrow> None
               | Some h1 \<Rightarrow> malloc_loop chunks_needed h1))"

definition kmalloc :: "nat \<Rightarrow> kheap \<Rightarrow> (nat \<times> kheap) option" where
  "kmalloc sz h = heap_malloc sz h"

text \<open>
  Data stored through a pointer into the heap: bytes of \<open>kdata\<close>. A header that overlaps the bytes written is
  gone from \<open>blocks\<close>.
\<close>

definition write_data :: "nat \<Rightarrow> u8 list \<Rightarrow> kheap \<Rightarrow> kheap" where
  "write_data p bs h = h\<lparr>kdata := (\<lambda>a. if p \<le> a \<and> a < p + length bs then bs ! (a - p) else kdata h a),
     blocks := (\<lambda>a. if p < a + sizeof_heap_block \<and> a < p + length bs then None else blocks h a)\<rparr>"

definition kzalloc :: "nat \<Rightarrow> kheap \<Rightarrow> (nat \<times> kheap) option" where
  "kzalloc sz h = (case heap_malloc sz h of None \<Rightarrow> None
     | Some (p, h') \<Rightarrow> if p = 0 then Some (0, h') else Some (p, write_data p (replicate sz 0) h'))"

primrec split_loop :: "nat \<Rightarrow> nat \<Rightarrow> kheap \<Rightarrow> (nat \<times> kheap) option" where
  "split_loop 0 iter h = Some (iter, h)"
| "split_loop (Suc n) iter h =
     (case upd_block iter (\<lambda>b. b\<lparr>bnext := iter + 4096\<rparr>) (init_heap_block (iter + 4096) 4096 iter h) of None \<Rightarrow> None
      | Some h1 \<Rightarrow> split_loop n (iter + 4096) h1)"

definition heap_free :: "nat \<Rightarrow> kheap \<Rightarrow> kheap option" where
  "heap_free p h = (if p = 0 then Some h else
     (let cur = p - sizeof_heap_block in
      case block_at h cur of None \<Rightarrow> None
      | Some b \<Rightarrow>
        (case upd_block cur (\<lambda>b. b\<lparr>is_free := True, chunk_span := 1\<rparr>) h of None \<Rightarrow> None
         | Some h1 \<Rightarrow>
           (case split_loop (chunk_span b - 1) cur h1 of None \<Rightarrow> None
            | Some (iter, h2) \<Rightarrow>
              (case upd_block iter (\<lambda>x. x\<lparr>bnext := bnext b\<rparr>) h2 of None \<Rightarrow> None
               | Some h3 \<Rightarrow>
                 (case (if bnext b \<noteq> 0 then upd_block (bnext b) (\<lambda>x. x\<lparr>bprev := iter\<rparr>) h3 else Some h3) of None \<Rightarrow> None
                  | Some h4 \<Rightarrow> Some (h4\<lparr>free_chunks := free_chunks h4 + of_nat (chunk_span b),
                                     used_chunks := used_chunks h4 - of_nat (chunk_span b)\<rparr>)))))))"

definition kfree :: "nat \<Rightarrow> kheap \<Rightarrow> kheap option" where
  "kfree p h = (if p = 0 then Some h else heap_free p h)"

text \<open>The allocations \<open>heap_dump\<close> lists, and \<open>heap_trace\<close>'s walk: address and size of every block.\<close>

partial_function (option) heap_walk :: "kheap \<Rightarrow> nat \<Rightarrow> (nat \<times> heap_block) list option" where
  "heap_walk h cur = (if cur = 0 then Some [] else do {
     b \<leftarrow> block_at h cur;
     bs \<leftarrow> heap_walk h (bnext b);
     Some ((cur, b) # bs) })"

definition heap_dump :: "kheap \<Rightarrow> (nat \<times> nat) option" where
  "heap_dump h = map_option (\<lambda>bs. let used = filter (\<lambda>(a, b). \<not> is_free b \<and> chunk_span b > 0) bs in
       (length used, sum_list (map (\<lambda>(a, b). chunk_span b * 4096) used))) (heap_walk h (start_addr h))"

definition heap_trace :: "kheap \<Rightarrow> (nat \<times> nat \<times> nat \<times> nat) list option" where
  "heap_trace h = map_option (map (\<lambda>(a, b). (bprev b, a, bnext b, chunk_span b * 4096))) (heap_walk h (start_addr h))"

end
