(* ===== verification/Fat16.thy ===== *)
theory Fat16
  imports Fat16_Dir Cmos Kheap
begin

text \<open>
  The file operations of \<open>fat16.c\<close>. Nodes, folders, directory entries and descriptors are objects on the kernel heap: their
  pointers come from \<open>kzalloc\<close>, their contents are kept per type, and following a pointer to an object of another type or
  to a freed object has no defined result. That covers the union in \<open>fat16_node_t\<close>, whose members are pointers to different
  types.
\<close>

unbundle bit_operations_syntax

section \<open>Objects\<close>

datatype fat16_entry = FAT16_ENTRY_TYPE_FILE | FAT16_ENTRY_TYPE_DIRECTORY

record fat16_node =
  nptr :: nat
  ntype :: fat16_entry

record fat16_fd =
  fd_entry :: nat
  fpos :: u32

record 'd fs_state = "'d fat_state" +
  kh :: kheap
  entries :: "nat \<rightharpoonup> fat16_dir_entry"
  folders :: "nat \<rightharpoonup> fat16_folder"
  nodes :: "nat \<rightharpoonup> fat16_node"
  ffds :: "nat \<rightharpoonup> fat16_fd"
  cmos_values :: "u16 list"

definition READ :: u8 where [konst]: "READ = 0"
definition WRITE :: u8 where [konst]: "WRITE = 1"

definition fs_kzalloc :: "nat \<Rightarrow> ('d, 'm) fs_state_scheme \<Rightarrow> (nat \<times> ('d, 'm) fs_state_scheme) option" where
  "fs_kzalloc n s = do { (p, h) \<leftarrow> kzalloc n (kh s); Some (p, s\<lparr>kh := h\<rparr>) }"

definition fs_kfree :: "nat \<Rightarrow> ('d, 'm) fs_state_scheme \<Rightarrow> ('d, 'm) fs_state_scheme option" where
  "fs_kfree p s = do { h \<leftarrow> kfree p (kh s);
     Some (s\<lparr>kh := h, entries := (entries s)(p := None), folders := (folders s)(p := None),
       nodes := (nodes s)(p := None), ffds := (ffds s)(p := None)\<rparr>) }"

section \<open>Nodes\<close>

definition fat16_create_node_from_entry :: "fat16_dir_entry \<Rightarrow> ('d, 'm) fs_state_scheme
    \<Rightarrow> (nat \<times> ('d, 'm) fs_state_scheme) option" where
  "fat16_create_node_from_entry entry s = do {
     (node, s1) \<leftarrow> fs_kzalloc 8 s;
     if node = 0 then Some (0, s1)
     else do {
       (file, s2) \<leftarrow> fs_kzalloc 32 s1;
       if file = 0 then do { s3 \<leftarrow> fs_kfree node s2; Some (0, s3) }
       else Some (node, s2\<lparr>nodes := (nodes s2)(node \<mapsto> \<lparr>nptr = file, ntype = FAT16_ENTRY_TYPE_FILE\<rparr>),
         entries := (entries s2)(file \<mapsto> entry)\<rparr>) } }"

definition fat16_create_node_from_dir :: "fat16_folder \<Rightarrow> fat16_dir_entry \<Rightarrow> ('d, 'm) fs_state_scheme
    \<Rightarrow> (nat \<times> ('d, 'm) fs_state_scheme) option" where
  "fat16_create_node_from_dir folder entry s = do {
     (node, s1) \<leftarrow> fs_kzalloc 8 s;
     if node = 0 then Some (0, s1)
     else do {
       (dir, s2) \<leftarrow> fs_kzalloc 16 s1;
       if dir = 0 then do { s3 \<leftarrow> fs_kfree node s2; Some (0, s3) }
       else do {
         (ent, s3) \<leftarrow> fs_kzalloc 32 s2;
         if ent = 0 then do { s4 \<leftarrow> fs_kfree dir s3; s5 \<leftarrow> fs_kfree node s4; Some (0, s5) }
         else Some (node, s3\<lparr>nodes := (nodes s3)(node \<mapsto> \<lparr>nptr = dir, ntype = FAT16_ENTRY_TYPE_DIRECTORY\<rparr>),
           folders := (folders s3)(dir \<mapsto> folder\<lparr>fentry := ent\<rparr>), entries := (entries s3)(ent \<mapsto> entry)\<rparr>) } } }"

text \<open>The pointer \<open>folder.entry\<close> that the search in a directory sets to a local object is replaced in the node and is
  not kept here.\<close>

definition fat16_get_node_from_path :: "'d bus \<Rightarrow> ata_ptr \<Rightarrow> pathnode list \<Rightarrow> ('d, 'm) fs_state_scheme
    \<Rightarrow> (nat \<times> ('d, 'm) fs_state_scheme) option" where
  "fat16_get_node_from_path b dev pth s = (if dev = AtaNull \<or> pth = [] then Some (0, s) else do {
     let native = fat16_get_native_filename_from_userland (node_name (last pth));
     (entry, folder, s1) \<leftarrow> fat16_get_root_dir_entry b dev pth zero_entry zero_folder s;
     if fentry folder = 0 \<and> end_sector folder - start_sector folder = 32 then fat16_create_node_from_dir folder entry s1
     else if tl pth = [] \<and> file_name entry ! 0 \<noteq> 0 \<and> attributes entry AND DIRECTORY \<noteq> 0
     then fat16_create_node_from_dir folder entry s1
     else if tl pth = [] \<and> file_name entry ! 0 \<noteq> 0 \<and> attributes entry AND ARCHIVE \<noteq> 0
     then fat16_create_node_from_entry entry s1
     else do {
       (found, folder2, entry2, s2) \<leftarrow> fat16_get_node_from_path_in_cluster_chain b dev
          (ucast (fat16_get_combined_cluster (high_cluster entry) (low_cluster entry))) native folder entry s1;
       if \<not> found then Some (0, s2)
       else if file_name entry2 ! 0 \<noteq> 0 \<and> attributes entry2 AND DIRECTORY \<noteq> 0
       then fat16_create_node_from_dir folder2 entry2 s2
       else if file_name entry2 ! 0 \<noteq> 0 \<and> attributes entry2 AND ARCHIVE \<noteq> 0
       then fat16_create_node_from_entry entry2 s2
       else Some (0, s2) } })"

section \<open>Creating files\<close>

text \<open>
  \<open>fat16_create_file\<close> up to its second success message: the entry built and the state after the slot and the data cluster
  are taken; a null result is \<open>Inl\<close>. The last write is called with the truth value \<open>sizeof(fat16_dir_entry_t) < 0\<close>, which is
  0, as its length.
\<close>

definition create_entry :: "'d bus \<Rightarrow> ata_ptr \<Rightarrow> pathnode list \<Rightarrow> nat \<Rightarrow> ('d, 'm) fs_state_scheme
    \<Rightarrow> (fat16_dir_entry option \<times> ('d, 'm) fs_state_scheme) option" where
  "create_entry b dev pth node s = do {
     (free_entry_offset, s1) \<leftarrow> (if tl pth = [] then fat16_get_free_root_dir_entry b dev s
       else do {
         nd \<leftarrow> nodes s node;
         fo \<leftarrow> folders s (nptr nd);
         e \<leftarrow> entries s (fentry fo);
         fat16_find_free_entry_in_dir b dev (ucast (fat16_get_combined_cluster (high_cluster e) (low_cluster e))) s });
     if tl pth = [] \<and> free_entry_offset = 0 then Some (None, s1)
     else do {
       (free_cluster, st, s2) \<leftarrow> fat16_get_next_free_cluster b (stream_seek (stream_init dev)
           (fat16_get_fat_table_absolute (bpb_of s1) PARTITION_OFFSET)) PARTITION_OFFSET s1;
       if free_cluster = 0 then Some (None, s2)
       else let new_entry = zero_entry\<lparr>file_name := fat16_get_native_filename_from_userland (node_name (last pth)),
                  attributes := ARCHIVE, high_cluster := 0, low_cluster := free_cluster, file_size := 0\<rparr> in do {
         (r1, s3) \<leftarrow> fat16_create_fat_entry b dev (ucast free_cluster) FAT16_VALUE_END_OF_CHAIN s2;
         (r2, st2, s4) \<leftarrow> stream_write b (Some (bytes_of_entry new_entry)) 0
            (stream_seek (stream_init dev) free_entry_offset) s3;
         if r2 \<noteq> 0 then Some (None, s4) else Some (Some new_entry, s4) } } }"

text \<open>The rest allocates the node and prints the name, through an 11-byte array that
  \<open>fat16_get_userland_filename_from_native\<close> clears with a length of 13.\<close>

definition sizeof_userland :: nat where [konst]: "sizeof_userland = 11"

definition fat16_create_file :: "'d bus \<Rightarrow> ata_ptr \<Rightarrow> pathnode list \<Rightarrow> nat \<Rightarrow> ('d, 'm) fs_state_scheme
    \<Rightarrow> (nat \<times> ('d, 'm) fs_state_scheme) option" where
  "fat16_create_file b dev pth node s = (if dev = AtaNull \<or> pth = [] then Some (0, s) else do {
     (new_entry, s1) \<leftarrow> create_entry b dev pth node s;
     case new_entry of None \<Rightarrow> Some (0, s1)
     | Some e \<Rightarrow> do {
         (nd, s2) \<leftarrow> fs_kzalloc 8 s1;
         if nd = 0 then None
         else do {
           (file, s3) \<leftarrow> fs_kzalloc 32 s2;
           if file = 0 \<or> sizeof_userland < 13 then None
           else Some (nd, s3\<lparr>nodes := (nodes s3)(nd \<mapsto> \<lparr>nptr = file, ntype = FAT16_ENTRY_TYPE_FILE\<rparr>),
             entries := (entries s3)(file \<mapsto> e)\<rparr>) } } })"

section \<open>Opening and closing\<close>

text \<open>The type of a null node is read when the file was not found for writing.\<close>

definition fat16_open :: "'d bus \<Rightarrow> ata_ptr \<Rightarrow> pathnode list \<Rightarrow> u8 \<Rightarrow> ('d, 'm) fs_state_scheme
    \<Rightarrow> (nat \<times> ('d, 'm) fs_state_scheme) option" where
  "fat16_open b dev pth mode s =
     (if mode \<noteq> READ \<and> mode \<noteq> WRITE then Some (0, s)
      else if dev = AtaNull \<or> afs (ata_dev s) = 0 \<or> pth = [] then Some (0, s)
      else do {
        (entry, s1) \<leftarrow> fat16_get_node_from_path b dev pth s;
        if entry = 0 \<and> mode = READ then Some (0, s1)
        else if entry = 0 then None
        else do {
          nd \<leftarrow> nodes s1 entry;
          (entry2, s2) \<leftarrow> (if ntype nd = FAT16_ENTRY_TYPE_DIRECTORY
             then do {
               fo \<leftarrow> folders s1 (nptr nd);
               if fentry fo \<noteq> 0 \<and> mode = WRITE then fat16_create_file b dev pth entry s1 else Some (entry, s1) }
             else Some (entry, s1));
          if entry2 = 0 then Some (0, s2)
          else do {
            (fd, s3) \<leftarrow> fs_kzalloc 8 s2;
            if fd = 0 then Some (0, s3)
            else Some (fd, s3\<lparr>ffds := (ffds s3)(fd \<mapsto> \<lparr>fd_entry = entry2, fpos = 0\<rparr>)\<rparr>) } } })"

definition fat16_close :: "nat \<Rightarrow> ('d, 'm) fs_state_scheme \<Rightarrow> (int \<times> ('d, 'm) fs_state_scheme) option" where
  "fat16_close internal s = (if internal = 0 then Some (- EINVAL, s) else do {
     fd \<leftarrow> ffds s internal;
     if fd_entry fd = 0 then do { s1 \<leftarrow> fs_kfree internal s; Some (0, s1) }
     else do {
       nd \<leftarrow> nodes s (fd_entry fd);
       s1 \<leftarrow> (case ntype nd of
           FAT16_ENTRY_TYPE_DIRECTORY \<Rightarrow> if nptr nd = 0 then Some s
             else do {
               fo \<leftarrow> folders s (nptr nd);
               s' \<leftarrow> (if fentry fo \<noteq> 0 then fs_kfree (fentry fo) s else Some s);
               fs_kfree (nptr nd) s' }
         | FAT16_ENTRY_TYPE_FILE \<Rightarrow> if nptr nd \<noteq> 0 then fs_kfree (nptr nd) s else Some s);
       s2 \<leftarrow> fs_kfree (fd_entry fd) s1;
       s3 \<leftarrow> fs_kfree internal s2;
       Some (0, s3) } })"

section \<open>Reading\<close>

definition fat16_get_cluster_from_descriptor :: "nat \<Rightarrow> ('d, 'm) fs_state_scheme \<Rightarrow> u32 option" where
  "fat16_get_cluster_from_descriptor fdp s = do {
     fd \<leftarrow> ffds s fdp;
     nd \<leftarrow> nodes s (fd_entry fd);
     case ntype nd of
       FAT16_ENTRY_TYPE_DIRECTORY \<Rightarrow> do { fo \<leftarrow> folders s (nptr nd); e \<leftarrow> entries s (fentry fo);
         Some (fat16_get_combined_cluster (high_cluster e) (low_cluster e)) }
     | FAT16_ENTRY_TYPE_FILE \<Rightarrow> do { e \<leftarrow> entries s (nptr nd);
         Some (fat16_get_combined_cluster (high_cluster e) (low_cluster e)) } }"

text \<open>The loop: the number of bytes read so far and the bytes stored. The offset in the first cluster is added in every
  turn.\<close>

partial_function (option) fat_read_loop :: "'d bus \<Rightarrow> bool \<Rightarrow> stream \<Rightarrow> stream \<Rightarrow> u16 \<Rightarrow> u16 \<Rightarrow> u32 \<Rightarrow> u32
    \<Rightarrow> ('d, 'm) fat_state_scheme \<Rightarrow> (u32 \<times> u8 list \<times> ('d, 'm) fat_state_scheme) option" where
  "fat_read_loop b nonnull ds fs cur off remaining_bytes bytes_read s =
     (if remaining_bytes = 0 then Some (bytes_read, [], s)
      else let mx = ucast (max_cluster_size_bytes (bpb_of s));
               read_size = (if remaining_bytes < mx then remaining_bytes else mx) in do {
        (r, bs, ds1, s1) \<leftarrow> stream_read b nonnull read_size
            (stream_seek ds (cluster_pos (bpb_of s) (ucast cur) + ucast off)) s;
        if r < 0 then Some (bytes_read, bs, s1)
        else do {
          (nxt, fs1, s2) \<leftarrow> fat16_get_next_cluster b fs PARTITION_OFFSET cur s1;
          if nxt \<ge> FAT16_VALUE_END_OF_CHAIN then Some (bytes_read + read_size, bs, s2)
          else do {
            (n, bs', s3) \<leftarrow> fat_read_loop b nonnull ds1 fs1 nxt off (remaining_bytes - read_size) (bytes_read + read_size) s2;
            Some (n, bs @ bs', s3) } } })"

definition set_fpos :: "nat \<Rightarrow> (u32 \<Rightarrow> u32) \<Rightarrow> ('d, 'm) fs_state_scheme \<Rightarrow> ('d, 'm) fs_state_scheme" where
  "set_fpos fdp f s = s\<lparr>ffds := (ffds s)(fdp := map_option (\<lambda>fd. fd\<lparr>fpos := f (fpos fd)\<rparr>) (ffds s fdp))\<rparr>"

definition fat16_read :: "'d bus \<Rightarrow> ata_ptr \<Rightarrow> nat \<Rightarrow> bool \<Rightarrow> u32 \<Rightarrow> u32 \<Rightarrow> ('d, 'm) fs_state_scheme
    \<Rightarrow> (u32 \<times> u8 list \<times> ('d, 'm) fs_state_scheme) option" where
  "fat16_read b dev fdp nonnull n_bytes n_blocks s = do {
     fd \<leftarrow> ffds s fdp;
     nd \<leftarrow> nodes s (fd_entry fd);
     at_end \<leftarrow> (if ntype nd = FAT16_ENTRY_TYPE_FILE
       then do { e \<leftarrow> entries s (nptr nd); Some (fpos fd \<ge> file_size e) } else Some False);
     if at_end then Some (0, [], s)
     else do {
       start_cluster \<leftarrow> fat16_get_cluster_from_descriptor fdp s;
       let mx = max_cluster_size_bytes (bpb_of s);
       if mx = 0 then None
       else do {
         let cur = ucast (fpos fd div ucast mx + start_cluster);
         let off = ucast (fpos fd mod ucast mx);
         (n, bs, s1) \<leftarrow> fat_read_loop b nonnull (stream_init dev) (stream_init dev) cur off (n_bytes * n_blocks) 0 s;
         Some (n, bs, set_fpos fdp (\<lambda>p. p + n) s1) } } }"

section \<open>Status and position\<close>

record vstat =
  st_dev :: "u8 list"
  st_mode :: u8
  st_size :: u32
  st_blksize :: u32
  st_blocks :: u16
  st_atime :: u32
  st_mtime :: u32
  st_ctime :: u32

definition fat16_create_file_stat :: "nat \<Rightarrow> u32 \<Rightarrow> u32 \<Rightarrow> ('d, 'm) fs_state_scheme \<Rightarrow> vstat option" where
  "fat16_create_file_stat fdp cluster_size used_blocks s = do {
     fd \<leftarrow> ffds s fdp;
     nd \<leftarrow> nodes s (fd_entry fd);
     e \<leftarrow> (case ntype nd of FAT16_ENTRY_TYPE_DIRECTORY \<Rightarrow> do { fo \<leftarrow> folders s (nptr nd); entries s (fentry fo) }
            | FAT16_ENTRY_TYPE_FILE \<Rightarrow> entries s (nptr nd));
     if sector_size (ata_dev s) = 0 then None
     else Some \<lparr>st_dev = dev_name (ata_dev s), st_mode = READ, st_size = file_size e, st_blksize = cluster_size,
       st_blocks = ucast ((used_blocks * cluster_size) div ucast (sector_size (ata_dev s))),
       st_atime = ucast (last_access_date e), st_mtime = ucast (modification_date e), st_ctime = ucast (creation_time_ms e)\<rparr> }"

definition fat16_stat :: "'d bus \<Rightarrow> ata_ptr \<Rightarrow> nat \<Rightarrow> bool \<Rightarrow> ('d, 'm) fs_state_scheme
    \<Rightarrow> (int \<times> vstat option \<times> ('d, 'm) fs_state_scheme) option" where
  "fat16_stat b dev fdp vstat_nonnull s = (if dev = AtaNull \<or> fdp = 0 \<or> \<not> vstat_nonnull then Some (- EINVAL, None, s) else do {
     start_cluster \<leftarrow> fat16_get_cluster_from_descriptor fdp s;
     let mx = max_cluster_size_bytes (bpb_of s);
     (used_blocks, st, s1) \<leftarrow> fat16_get_cluster_chain_length b (stream_init dev) mx start_cluster PARTITION_OFFSET s;
     v \<leftarrow> fat16_create_file_stat fdp (ucast mx) (ucast used_blocks) s1;
     Some (0, Some v, s1) })"

definition fat16_seek :: "nat \<Rightarrow> u32 \<Rightarrow> u8 \<Rightarrow> ('d, 'm) fs_state_scheme \<Rightarrow> (int \<times> ('d, 'm) fs_state_scheme) option" where
  "fat16_seek fdp offset origin s = do {
     fd \<leftarrow> ffds s fdp;
     nd \<leftarrow> nodes s (fd_entry fd);
     fo \<leftarrow> folders s (nptr nd);
     e \<leftarrow> entries s (fentry fo);
     if offset \<ge> file_size e then Some (- EIO, s)
     else if origin = 0 then Some (0, set_fpos fdp (\<lambda>_. offset) s)
     else if origin = 2 then Some (ENOENT, s)
     else if origin = 1 then Some (0, set_fpos fdp (\<lambda>p. p + offset) s)
     else Some (- EINVAL, s) }"

section \<open>Writing\<close>

definition fat16_get_curr_time :: "'d bus \<Rightarrow> ('d, 'm) fs_state_scheme \<Rightarrow> fat16_time \<times> ('d, 'm) fs_state_scheme" where
  "fat16_get_curr_time b s = (let (t, v, d) = cmos_time b (hw s) in
     (\<lparr>hour = rt_hour t, minute = rt_minute t, second = rt_second t\<rparr>, s\<lparr>hw := d, cmos_values := v\<rparr>))"

definition fat16_get_curr_date :: "'d bus \<Rightarrow> ('d, 'm) fs_state_scheme \<Rightarrow> fat16_date \<times> ('d, 'm) fs_state_scheme" where
  "fat16_get_curr_date b s = (let (t, v, d) = cmos_date b (hw s) in
     (\<lparr>day = rd_day t, month = rd_month t, year = rd_year t\<rparr>, s\<lparr>hw := d, cmos_values := v\<rparr>))"

text \<open>The loops of \<open>fat16_free_unused_clusters\<close>. The first passes the current cluster as the partition offset and the
  table offset as the cluster; the second passes the table offset as the partition offset.\<close>

primrec skip_clusters :: "'d bus \<Rightarrow> nat \<Rightarrow> stream \<Rightarrow> u16 \<Rightarrow> u16 \<Rightarrow> u32 \<Rightarrow> ('d, 'm) fat_state_scheme
    \<Rightarrow> (u16 \<times> u16 \<times> stream \<times> ('d, 'm) fat_state_scheme) option" where
  "skip_clusters b 0 fs prev cur fat_table_offset s = Some (prev, cur, fs, s)"
| "skip_clusters b (Suc n) fs prev cur fat_table_offset s =
     (if cur < FAT16_VALUE_END_OF_CHAIN then do {
        (nxt, fs1, s1) \<leftarrow> fat16_get_next_cluster b fs (ucast cur) (ucast fat_table_offset) s;
        skip_clusters b n fs1 cur nxt fat_table_offset s1 }
      else Some (prev, cur, fs, s))"

partial_function (option) free_clusters_loop :: "'d bus \<Rightarrow> ata_ptr \<Rightarrow> stream \<Rightarrow> u16 \<Rightarrow> u32 \<Rightarrow> ('d, 'm) fat_state_scheme
    \<Rightarrow> (stream \<times> ('d, 'm) fat_state_scheme) option" where
  "free_clusters_loop b dev fs cur fat_table_offset s =
     (if cur \<ge> 2 \<and> cur < FAT16_VALUE_END_OF_CHAIN then do {
        (nxt, fs1, s1) \<leftarrow> fat16_get_next_cluster b fs fat_table_offset cur s;
        (r, s2) \<leftarrow> fat16_create_fat_entry b dev (ucast cur) FAT16_VALUE_FREE s1;
        free_clusters_loop b dev fs1 nxt fat_table_offset s2 }
      else Some (fs, s))"

definition fat16_free_unused_clusters :: "'d bus \<Rightarrow> ata_ptr \<Rightarrow> stream \<Rightarrow> u16 \<Rightarrow> u32 \<Rightarrow> u32 \<Rightarrow> u32 \<Rightarrow> ('d, 'm) fat_state_scheme
    \<Rightarrow> (stream \<times> ('d, 'm) fat_state_scheme) option" where
  "fat16_free_unused_clusters b dev fs start_cluster required_clusters existing_clusters fat_table_offset s =
     (if dev = AtaNull \<or> required_clusters \<ge> existing_clusters \<or> start_cluster < 2 then Some (fs, s)
      else do {
        (prev, cur, fs1, s1) \<leftarrow> skip_clusters b (unat required_clusters) fs 0 start_cluster fat_table_offset s;
        if cur \<ge> FAT16_VALUE_END_OF_CHAIN then Some (fs1, s1)
        else do {
          (r, s2) \<leftarrow> fat16_create_fat_entry b dev (ucast prev) FAT16_VALUE_END_OF_CHAIN s1;
          free_clusters_loop b dev fs1 cur fat_table_offset s2 } })"

text \<open>The main loop of \<open>fat16_write\<close>: an error code, or the cluster written last and the number of bytes written.\<close>

partial_function (option) fat_write_loop :: "'d bus \<Rightarrow> ata_ptr \<Rightarrow> bool \<Rightarrow> stream \<Rightarrow> stream \<Rightarrow> u16 \<Rightarrow> u32 \<Rightarrow> u8 list \<Rightarrow> u32 \<Rightarrow> u32
    \<Rightarrow> ('d, 'm) fat_state_scheme \<Rightarrow> ((int + u16 \<times> u32 \<times> stream) \<times> ('d, 'm) fat_state_scheme) option" where
  "fat_write_loop b dev grow ds fs cur off buf remaining_bytes bytes_written s =
     (if remaining_bytes = 0 then Some (Inr (cur, bytes_written, fs), s)
      else let mx = ucast (max_cluster_size_bytes (bpb_of s));
               free_space = mx - off;
               write_size = (if remaining_bytes > free_space then free_space else remaining_bytes) in do {
        (r, ds1, s1) \<leftarrow> stream_write b (Some buf) write_size (stream_seek ds (cluster_pos (bpb_of s) (ucast cur) + off)) s;
        if r < 0 then Some (Inl (- EIO), s1)
        else if off + write_size \<ge> mx \<and> remaining_bytes - write_size > 0 then do {
          (nxt, fs1, s2) \<leftarrow> fat16_get_next_cluster b fs PARTITION_OFFSET cur s1;
          if nxt \<ge> FAT16_VALUE_END_OF_CHAIN then
            (if \<not> grow then Some (Inl (- ENOSPC), s2)
             else do {
               (new, fs2, s3) \<leftarrow> append_cluster b dev fs1 cur s2;
               if new = 0 then Some (Inl (- ENOSPC), s3)
               else fat_write_loop b dev grow ds1 fs2 new 0 (drop (unat write_size) buf)
                 (remaining_bytes - write_size) (bytes_written + write_size) s3 })
          else fat_write_loop b dev grow ds1 fs1 nxt 0 (drop (unat write_size) buf)
            (remaining_bytes - write_size) (bytes_written + write_size) s2 }
        else fat_write_loop b dev grow ds1 fs cur (off + write_size) (drop (unat write_size) buf)
          (remaining_bytes - write_size) (bytes_written + write_size) s1 })"

text \<open>The update of the directory entry at the end of \<open>fat16_write\<close>; false is the early return with \<open>-EIO\<close>.\<close>

definition update_entry :: "'d bus \<Rightarrow> ata_ptr \<Rightarrow> nat \<Rightarrow> u32 \<Rightarrow> ('d, 'm) fs_state_scheme
    \<Rightarrow> (bool \<times> ('d, 'm) fs_state_scheme) option" where
  "update_entry b dev file bytes_written s = do {
     e \<leftarrow> entries s file;
     let s1 = s\<lparr>entries := (entries s)(file \<mapsto> e\<lparr>file_size := bytes_written\<rparr>)\<rparr>;
     (parent_cluster, s2) \<leftarrow> fat16_get_parent_cluster b dev (file_name e) s1;
     (entry_offset, s3) \<leftarrow> fat16_find_entry_offset b dev parent_cluster (file_name e) s2;
     if entry_offset = 0 then Some (False, s3)
     else let (t, s4) = fat16_get_curr_time b s3; (d, s5) = fat16_get_curr_date b s4;
              e' = e\<lparr>file_size := bytes_written, modification_time := fat16_get_packed_time t,
                 modification_date := fat16_get_packed_date d\<rparr>;
              s6 = s5\<lparr>entries := (entries s5)(file \<mapsto> e')\<rparr> in do {
       (r, st, s7) \<leftarrow> stream_write b (Some (bytes_of_entry e')) 32 (stream_seek (stream_init dev) entry_offset) s6;
       Some (\<not> r < 0, s7) } }"

definition fat16_write :: "'d bus \<Rightarrow> ata_ptr \<Rightarrow> nat \<Rightarrow> u8 list option \<Rightarrow> u32 \<Rightarrow> u32 \<Rightarrow> ('d, 'm) fs_state_scheme
    \<Rightarrow> (u32 \<times> ('d, 'm) fs_state_scheme) option" where
  "fat16_write b dev fdp buf n_bytes n_blocks s =
     (case buf of None \<Rightarrow> Some (of_int (- EINVAL), s) | Some bs \<Rightarrow>
      if dev = AtaNull \<or> fdp = 0 \<or> n_bytes = 0 \<or> n_blocks = 0 then Some (of_int (- EINVAL), s)
      else do {
        fd \<leftarrow> ffds s fdp;
        nd \<leftarrow> nodes s (fd_entry fd);
        e \<leftarrow> entries s (nptr nd);
        let start_cluster = ucast (fat16_get_combined_cluster (high_cluster e) (low_cluster e));
        let mx = max_cluster_size_bytes (bpb_of s);
        let fat_table_offset = fat16_get_fat_table_absolute (bpb_of s) PARTITION_OFFSET;
        (existing, fs, s1) \<leftarrow> fat16_get_cluster_chain_length b (stream_seek (stream_init dev) fat_table_offset) mx
            (ucast (start_cluster :: u16)) PARTITION_OFFSET s;
        let required = (n_bytes + ucast mx - 1) div ucast mx;
        (res, s2) \<leftarrow> fat_write_loop b dev (required > ucast existing) (stream_init dev) (stream_seek fs fat_table_offset)
            start_cluster 0 bs (n_bytes * n_blocks) 0 s1;
        case res of Inl err \<Rightarrow> Some (of_int err, s2)
        | Inr (cur, bytes_written, fs2) \<Rightarrow> do {
            (fs3, s3) \<leftarrow> (if required < ucast existing
               then fat16_free_unused_clusters b dev fs2 cur required (ucast existing) fat_table_offset s2
               else Some (fs2, s2));
            if bytes_written > file_size e then do {
              (ok, s4) \<leftarrow> update_entry b dev (nptr nd) bytes_written s3;
              if ok then Some (bytes_written, s4) else Some (of_int (- EIO), s4) }
            else Some (bytes_written, s3) } })"

section \<open>Listing directories\<close>

record vfs_dirent =
  dname :: "u8 list"
  dtype :: u8
  dsize :: u32
  dmodified :: u32

definition dirent_of :: "bool \<Rightarrow> fat16_dir_entry \<Rightarrow> vfs_dirent" where
  "dirent_of in_root e = (let t = (if attributes e AND DIRECTORY \<noteq> 0 then 1 else 0) in
     \<lparr>dname = fat16_get_userland_filename_from_native (file_name e), dtype = t,
      dsize = (if t = 1 then 0 else if in_root \<and> - file_size e \<noteq> 0 then 0 else file_size e),
      dmodified = ucast (modification_time e)\<rparr>)"

text \<open>The entry of the root directory at \<open>dir_offset\<close> or behind: a free slot that also carries the long-name attribute ends
  the search, because the inner loop advances without reading.\<close>

function readdir_root :: "'d bus \<Rightarrow> nat \<Rightarrow> u32 \<Rightarrow> stream \<Rightarrow> nat \<Rightarrow> ('d, 'm) fat_state_scheme
    \<Rightarrow> (fat16_dir_entry option \<times> ('d, 'm) fat_state_scheme) option" where
  "readdir_root b cnt root_dir_abs st dir_offset s =
     (if dir_offset \<ge> cnt then Some (None, s)
      else do {
        (r, bs, st1, s1) \<leftarrow> stream_read b True 32 (stream_seek st (root_dir_abs + of_nat dir_offset * 32)) s;
        if r < 0 then Some (None, s1)
        else let e = entry_of_bytes bs in
          if free_slot e then (if attributes e = LFN then Some (None, s1)
            else readdir_root b cnt root_dir_abs st1 (dir_offset + 1) s1)
          else Some (Some e, s1) })"
  by pat_completeness auto
termination by (relation "measure (\<lambda>(b, cnt, a, st, k, s). cnt - k)") auto

declare readdir_root.simps [simp del]

text \<open>In a cluster: the first entry from \<open>dir_offset\<close> on that is in use and no long name, if \<open>dir_offset\<close> is in the
  cluster at all.\<close>

definition readdir_cluster :: "nat \<Rightarrow> fat16_dir_entry list \<Rightarrow> fat16_dir_entry option option" where
  "readdir_cluster k es = (if k < length es
     then Some (find (\<lambda>e. \<not> (free_slot e \<or> attributes e = LFN)) (drop k es)) else None)"

partial_function (option) readdir_chain :: "'d bus \<Rightarrow> stream \<Rightarrow> stream \<Rightarrow> u16 \<Rightarrow> nat \<Rightarrow> ('d, 'm) fat_state_scheme
    \<Rightarrow> (fat16_dir_entry option \<times> ('d, 'm) fat_state_scheme) option" where
  "readdir_chain b ds fs cur dir_offset s =
     (if cur = FAT16_VALUE_END_OF_CHAIN then Some (None, s)
      else do {
        (r, bs, ds1, s1) \<leftarrow> read_cluster b ds (ucast cur) s;
        if r < 0 then Some (None, s1)
        else case readdir_cluster dir_offset (entries_in bs (entries_per_cluster (bpb_of s))) of
          Some res \<Rightarrow> Some (res, s1)
        | None \<Rightarrow> do {
            (nxt, fs1, s2) \<leftarrow> fat16_get_next_cluster b fs PARTITION_OFFSET cur s1;
            readdir_chain b ds1 fs1 nxt dir_offset s2 } })"

definition fat16_readdir :: "'d bus \<Rightarrow> ata_ptr \<Rightarrow> nat \<Rightarrow> u32 \<Rightarrow> ('d, 'm) fs_state_scheme
    \<Rightarrow> (int \<times> vfs_dirent option \<times> ('d, 'm) fs_state_scheme) option" where
  "fat16_readdir b dev fdp dir_offset s = do {
     fd \<leftarrow> ffds s fdp;
     nd \<leftarrow> nodes s (fd_entry fd);
     if ntype nd \<noteq> FAT16_ENTRY_TYPE_DIRECTORY then Some (- EINVAL, None, s)
     else do {
       fo \<leftarrow> folders s (nptr nd);
       e \<leftarrow> entries s (fentry fo);
       let p = bpb_of s;
       let root_start = fat16_get_root_dir_offset p;
       let start16 = (ucast (start_sector fo) :: u16);
       let end16 = (ucast (end_sector fo) :: u16);
       let is_root = (ucast start16 * ucast (byts_per_sec p) = root_start
          \<and> ucast end16 * ucast (byts_per_sec p) = root_start + root_dir_size p);
       (found, s1) \<leftarrow> (if is_root \<and> file_name e ! 0 = 0
          then readdir_root b (unat (root_ent_cnt p)) (fat16_get_root_dir_absolute p PARTITION_OFFSET) (stream_init dev)
             (unat dir_offset) s
          else readdir_chain b (stream_init dev)
             (stream_seek (stream_init dev) (fat16_get_fat_table_absolute p PARTITION_OFFSET))
             (ucast (fat16_get_combined_cluster (high_cluster e) (low_cluster e))) (unat dir_offset) s);
       case found of None \<Rightarrow> Some (0, None, s1)
       | Some x \<Rightarrow> Some (1, Some (dirent_of (is_root \<and> file_name e ! 0 = 0) x), s1) } }"

end
