(* ===== verification/Kheap_Inv.thy ===== *)
theory Kheap_Inv
  imports Kheap
begin

text \<open>
  The kernel heap as a list of segments that tile the memory from \<open>KERNEL_HEAP_START\<close> to \<open>next_addr\<close>: a pair of a
  number of chunks and a flag, true for a free chunk. The theory shows that \<open>kmalloc\<close> and \<open>kfree\<close> are the
  first-fit allocation and the release on such lists, and that every allocation is served while frames last.
\<close>

section \<open>Segments\<close>

type_synonym seg = "nat \<times> bool"

definition spans :: "seg list \<Rightarrow> nat" where "spans xs = sum_list (map fst xs)"

lemma spans_simps [simp]:
  "spans [] = 0" "spans ((k, f) # xs) = k + spans xs" "spans (xs @ ys) = spans xs + spans ys"
  "spans (replicate n (k, f)) = n * k"
  by (simp_all add: spans_def sum_list_replicate)

fun tiles :: "(nat \<rightharpoonup> heap_block) \<Rightarrow> nat \<Rightarrow> nat \<Rightarrow> seg list \<Rightarrow> nat \<Rightarrow> bool" where
  "tiles bl p a [] e \<longleftrightarrow> True"
| "tiles bl p a ((k, f) # xs) e \<longleftrightarrow>
     (\<exists>b. bl a = Some b \<and> is_free b = f \<and> chunk_span b = k \<and> bprev b = p
        \<and> bnext b = (if xs = [] then e else a + 4096 * k))
     \<and> 0 < k \<and> (f \<longrightarrow> k = 1) \<and> tiles bl a (a + 4096 * k) xs e"

text \<open>The address of the last block of a list of segments, \<open>p\<close> for the empty list.\<close>

fun last_addr :: "nat \<Rightarrow> nat \<Rightarrow> seg list \<Rightarrow> nat" where
  "last_addr p a [] = p"
| "last_addr p a ((k, f) # xs) = last_addr a (a + 4096 * k) xs"

lemma tiles_append:
  "ys \<noteq> [] \<Longrightarrow> tiles bl p a (xs @ ys) e \<longleftrightarrow>
     tiles bl p a xs (a + 4096 * spans xs) \<and> tiles bl (last_addr p a xs) (a + 4096 * spans xs) ys e"
  by (induction bl p a xs e rule: tiles.induct) (auto simp: algebra_simps)

lemma tiles_cong:
  assumes "\<And>x. a \<le> x \<Longrightarrow> x < a + 4096 * spans xs \<Longrightarrow> bl' x = bl x"
  shows "tiles bl' p a xs e = tiles bl p a xs e"
  using assms
proof (induction bl p a xs e rule: tiles.induct)
  case (2 bl p a k f xs e)
  have rest: "tiles bl' a (a + 4096 * k) xs e = tiles bl a (a + 4096 * k) xs e"
    by (rule "2.IH") (use "2.prems" in auto)
  have "0 < k \<Longrightarrow> bl' a = bl a" using "2.prems" [of a] by simp
  then show ?case unfolding tiles.simps rest by (cases "0 < k") simp_all
qed simp

lemma tiles_replicate:
  assumes "\<And>i. i < n \<Longrightarrow> \<exists>b. bl (a + 4096 * i) = Some b \<and> is_free b \<and> chunk_span b = 1
      \<and> bprev b = (if i = 0 then p else a + 4096 * (i - 1)) \<and> bnext b = (if Suc i = n then e else a + 4096 * Suc i)"
  shows "tiles bl p a (replicate n (1, True)) e"
  using assms
proof (induction n arbitrary: p a)
  case (Suc n)
  have "tiles bl a (a + 4096) (replicate n (1, True)) e"
  proof (rule Suc.IH)
    fix i assume "i < n"
    then show "\<exists>b. bl (a + 4096 + 4096 * i) = Some b \<and> is_free b \<and> chunk_span b = 1
        \<and> bprev b = (if i = 0 then a else a + 4096 + 4096 * (i - 1))
        \<and> bnext b = (if Suc i = n then e else a + 4096 + 4096 * Suc i)"
      using Suc.prems [of "Suc i"] by (cases i) (auto simp: algebra_simps)
  qed
  then show ?case using Suc.prems [of 0] by auto
qed simp

lemma tiles_replicateD:
  assumes "tiles bl p a (replicate n (1, True)) e" "i < n"
  shows "\<exists>b. bl (a + 4096 * i) = Some b \<and> is_free b \<and> chunk_span b = 1
      \<and> bprev b = (if i = 0 then p else a + 4096 * (i - 1)) \<and> bnext b = (if Suc i = n then e else a + 4096 * Suc i)"
  using assms
proof (induction n arbitrary: p a i)
  case (Suc n)
  show ?case
  proof (cases i)
    case 0
    then show ?thesis using Suc.prems by auto
  next
    case (Suc j)
    then show ?thesis using Suc.IH [of a "a + 4096" j] Suc.prems by (cases j) (auto simp: algebra_simps)
  qed
qed simp

lemma tiles_set_prev:
  assumes "tiles bl p a xs e" "xs \<noteq> []"
  shows "\<exists>b. bl a = Some b \<and> tiles (bl(a \<mapsto> b\<lparr>bprev := q\<rparr>)) q a xs e"
proof -
  obtain k f ys where xs: "xs = (k, f) # ys" using assms(2) by (cases xs) auto
  then obtain b where b: "bl a = Some b" using assms(1) by auto
  have "tiles (bl(a \<mapsto> b\<lparr>bprev := q\<rparr>)) a (a + 4096 * k) ys e = tiles bl a (a + 4096 * k) ys e"
    using assms(1) xs by (intro tiles_cong) auto
  then show ?thesis using assms(1) xs b by auto
qed

lemma tiles_set_next:
  assumes "tiles bl p a xs e" "xs \<noteq> []" "snd (last xs)"
  shows "\<exists>b. bl (a + 4096 * spans xs - 4096) = Some b
    \<and> tiles (bl(a + 4096 * spans xs - 4096 \<mapsto> b\<lparr>bnext := e'\<rparr>)) p a xs e'"
proof -
  obtain ys f k where "xs = ys @ [(k, f)]" using assms(2) by (metis rev_exhaust surj_pair)
  then have xs: "xs = ys @ [(1, True)]" using assms(1,3) by (auto simp: tiles_append)
  let ?x = "a + 4096 * spans ys"
  obtain b where b: "bl ?x = Some b" "is_free b" "chunk_span b = 1" "bprev b = last_addr p a ys"
    using assms(1) unfolding xs by (auto simp: tiles_append)
  have "tiles (bl(?x \<mapsto> b\<lparr>bnext := e'\<rparr>)) p a ys (a + 4096 * spans ys) = tiles bl p a ys (a + 4096 * spans ys)"
    by (rule tiles_cong) auto
  then show ?thesis using assms(1) b unfolding xs by (auto simp: tiles_append)
qed

section \<open>Growing\<close>

definition grown :: "nat \<Rightarrow> nat \<Rightarrow> nat \<Rightarrow> (nat \<rightharpoonup> heap_block) \<Rightarrow> (nat \<rightharpoonup> heap_block)" where
  "grown n v l bl = (\<lambda>x. if \<exists>i < n. x = v + 4096 * i
     then Some \<lparr>bsize = 4096, is_free = True, chunk_span = 1, bprev = (if x = v then l else x - 4096),
                bnext = (if x = v + 4096 * (n - 1) then 0 else x + 4096)\<rparr>
     else if x = l \<and> l \<noteq> 0 \<and> 0 < n then map_option (\<lambda>b. b\<lparr>bnext := v\<rparr>) (bl x) else bl x)"

lemma grow_loop_blocks:
  assumes "0 < v" "l \<noteq> 0 \<Longrightarrow> l < v \<and> blocks h l \<noteq> None"
  shows "grow_loop n v l h = Some (v + 4096 * n, if n = 0 then l else v + 4096 * (n - 1),
      h\<lparr>blocks := grown n v l (blocks h)\<rparr>)"
  using assms
proof (induction n arbitrary: v l h)
  case 0
  then show ?case by (simp add: grown_def)
next
  case (Suc n)
  let ?h1 = "init_heap_block v 4096 l h"
  let ?b = "\<lparr>bsize = 4096, is_free = True, chunk_span = 1, bprev = l, bnext = 0\<rparr>"
  define bl where "bl = (if l \<noteq> 0 then (blocks h)(v \<mapsto> ?b, l := map_option (\<lambda>b. b\<lparr>bnext := v\<rparr>) (blocks h l))
      else (blocks h)(v \<mapsto> ?b))"
  have step: "grow_loop (Suc n) v l h = grow_loop n (v + 4096) v (h\<lparr>blocks := bl\<rparr>)"
  proof (cases "l = 0")
    case True
    then show ?thesis by (simp add: Let_def init_heap_block_def bl_def konst)
  next
    case False
    with Suc.prems(2) obtain b where "blocks h l = Some b" "l < v" by auto
    with False show ?thesis by (simp add: Let_def init_heap_block_def upd_block_def block_at_def bl_def konst)
  qed
  have "bl v = Some ?b" using Suc.prems by (auto simp: bl_def)
  then have ih: "grow_loop n (v + 4096) v (h\<lparr>blocks := bl\<rparr>) = Some (v + 4096 + 4096 * n,
      if n = 0 then v else v + 4096 + 4096 * (n - 1), h\<lparr>blocks := grown n (v + 4096) v bl\<rparr>)"
    using Suc.IH [of "v + 4096" v "h\<lparr>blocks := bl\<rparr>"] Suc.prems(1) by simp
  have "grown n (v + 4096) v bl = grown (Suc n) v l (blocks h)"
  proof
    fix x
    consider "x = v" | i where "i < n" "x = v + 4096 + 4096 * i" | "x \<noteq> v" "\<And>i. i < n \<Longrightarrow> x \<noteq> v + 4096 + 4096 * i"
      by blast
    then show "grown n (v + 4096) v bl x = grown (Suc n) v l (blocks h) x"
    proof cases
      case 1
      then show ?thesis using Suc.prems by (cases n) (auto simp: grown_def bl_def)
    next
      case 2
      then have e: "\<exists>i < Suc n. x = v + 4096 * i" by (intro exI [of _ "Suc i"]) simp
      from 2 have "\<exists>i < n. x = v + 4096 + 4096 * i" by blast
      with e 2 show ?thesis by (cases n) (auto simp: grown_def)
    next
      case 3
      then have ne: "\<not> (\<exists>i < Suc n. x = v + 4096 * i)" "\<not> (\<exists>i < n. x = v + 4096 + 4096 * i)"
        using 3(1) 3(2) [of "_ - 1"] by (auto simp: less_Suc_eq_0_disj) blast
      show ?thesis unfolding grown_def if_not_P [OF ne(1)] if_not_P [OF ne(2)] using 3(1) by (auto simp: bl_def)
    qed
  qed
  then show ?case unfolding step ih by (cases n) auto
qed

definition grown_heap :: "kheap \<Rightarrow> kheap" where
  "grown_heap h = (case pfa_alloc (kpfa h) of Some (a, p') \<Rightarrow> h\<lparr>kpfa := p',
       kdir := page_map (kdir h) (of_nat (next_addr h)) (ucast a) (PAGE_PS OR PAGE_WRITABLE OR PAGE_PRESENT),
       blocks := grown 1024 (next_addr h) (last_block h) (blocks h),
       last_block := next_addr h + 0x3FF000, next_addr := next_addr h + 0x400000,
       free_chunks := free_chunks h + 1024\<rparr>
     | None \<Rightarrow> h)"

text \<open>The state in which the heap can grow: a frame is free, and the last block, if any, lies below \<open>next_addr\<close>.\<close>

definition growable :: "kheap \<Rightarrow> bool" where
  "growable h \<longleftrightarrow> pfa_inv (kpfa h) \<and> 0 \<notin> free_frames (kpfa h) \<and> free_frames (kpfa h) \<noteq> {} \<and> 0 < next_addr h
     \<and> (last_block h \<noteq> 0 \<longrightarrow> last_block h < next_addr h \<and> blocks h (last_block h) \<noteq> None)"

lemma grown_absorb:
  "0 < n \<Longrightarrow> 0 < l \<Longrightarrow> l < v \<Longrightarrow> grown n v l ((bl(l := map_option (\<lambda>b. b\<lparr>bnext := v\<rparr>) (bl l)))(v := y)) = grown n v l bl"
  by (rule ext) (auto simp: grown_def option.map_comp comp_def)

lemma heap_grow_exact:
  assumes "growable h"
  shows "heap_grow h = Some (grown_heap h)"
    "pfa_inv (kpfa (grown_heap h))" "0 \<notin> free_frames (kpfa (grown_heap h))"
    "card (free_frames (kpfa (grown_heap h))) = card (free_frames (kpfa h)) - 1"
proof -
  note g = assms [unfolded growable_def]
  let ?F = "free_frames (kpfa h)"
  let ?f = "Min ?F"
  have ne: "?F \<noteq> {}" using g by simp
  have f: "?f < MAX_FRAMES" "?f \<noteq> 0" using g Min_free_frames [OF ne] by metis+
  obtain p1 where p1: "pfa_alloc (kpfa h) = Some (of_nat (?f * 0x400000), p1)" "pfa_inv p1"
      "free_frames p1 = ?F - {?f}"
    using frames.alloc_some [of "kpfa h"] g by blast
  have "(ucast (of_nat (?f * 0x400000) :: u64) :: u32) = of_nat ?f * PAGE_SIZE" using f(1) by (rule ucast_frame)
  then have nz: "(ucast (of_nat (?f * 0x400000) :: u64) :: u32) \<noteq> 0" using f frame_word [of ?f] by auto
  have k: "kpfa (grown_heap h) = p1" using p1(1) by (simp add: grown_heap_def)
  show "heap_grow h = Some (grown_heap h)"
  proof (cases "last_block h = 0")
    case True
    then show ?thesis
      using p1(1) nz g by (simp add: heap_grow_def grown_heap_def Let_def konst grow_loop_blocks del: of_nat_mult)
  next
    case False
    with g obtain b where b: "blocks h (last_block h) = Some b" "last_block h < next_addr h" by auto
    let ?bl = "((blocks h)(last_block h \<mapsto> b\<lparr>bnext := next_addr h\<rparr>))(next_addr h :=
        map_option (bprev_update (\<lambda>_. last_block h)) (blocks h (next_addr h)))"
    have "grown 1024 (next_addr h) (last_block h) ?bl = grown 1024 (next_addr h) (last_block h) (blocks h)"
      using grown_absorb [of 1024 "last_block h" "next_addr h" "blocks h"] b False by simp
    then show ?thesis
      using p1(1) nz g b False
      by (simp add: heap_grow_def grown_heap_def Let_def konst upd_block_def block_at_def grow_loop_blocks del: of_nat_mult)
  qed
  show "pfa_inv (kpfa (grown_heap h))" "0 \<notin> free_frames (kpfa (grown_heap h))"
    "card (free_frames (kpfa (grown_heap h))) = card ?F - 1"
    using g p1(2,3) ne by (simp_all add: k)
qed

lemma grown_heap_fields [simp]:
  "growable h \<Longrightarrow> next_addr (grown_heap h) = next_addr h + 0x400000"
  "growable h \<Longrightarrow> last_block (grown_heap h) = next_addr h + 0x3FF000"
  "growable h \<Longrightarrow> blocks (grown_heap h) = grown 1024 (next_addr h) (last_block h) (blocks h)"
  "growable h \<Longrightarrow> free_chunks (grown_heap h) = free_chunks h + 1024"
  "start_addr (grown_heap h) = start_addr h" "used_chunks (grown_heap h) = used_chunks h"
proof -
  assume "growable h"
  then obtain a p' where "pfa_alloc (kpfa h) = Some (a, p')"
    using frames.alloc_some [of "kpfa h"] unfolding growable_def by blast
  then show "next_addr (grown_heap h) = next_addr h + 0x400000" "last_block (grown_heap h) = next_addr h + 0x3FF000"
    "blocks (grown_heap h) = grown 1024 (next_addr h) (last_block h) (blocks h)"
    "free_chunks (grown_heap h) = free_chunks h + 1024" by (simp_all add: grown_heap_def)
next
  show "start_addr (grown_heap h) = start_addr h" "used_chunks (grown_heap h) = used_chunks h"
    by (cases "pfa_alloc (kpfa h)"; simp add: grown_heap_def split_beta)+
qed

section \<open>The invariant\<close>

definition heap_inv :: "kheap \<Rightarrow> seg list \<Rightarrow> bool" where [invs]:
  "heap_inv h xs \<longleftrightarrow> start_addr h = KERNEL_HEAP_START \<and> tiles (blocks h) 0 KERNEL_HEAP_START xs 0
     \<and> next_addr h = KERNEL_HEAP_START + 4096 * spans xs \<and> next_addr h < 2 ^ 32
     \<and> (if xs = [] then last_block h = 0 else last xs = (1, True) \<and> last_block h = next_addr h - 4096)
     \<and> unat (free_chunks h) = length (filter snd xs) \<and> unat (used_chunks h) = spans (filter (Not \<circ> snd) xs)
     \<and> pfa_inv (kpfa h) \<and> 0 \<notin> free_frames (kpfa h)"

lemma spans_split: "list_all (\<lambda>(k, f). f \<longrightarrow> k = 1) xs \<Longrightarrow> length (filter snd xs) + spans (filter (Not \<circ> snd) xs) = spans xs"
  by (induction xs) auto

lemma tiles_free1: "tiles bl p a xs e \<Longrightarrow> list_all (\<lambda>(k, f). f \<longrightarrow> k = 1) xs"
  by (induction bl p a xs e rule: tiles.induct) auto

lemma tiles_pos: "tiles bl p a xs e \<Longrightarrow> xs \<noteq> [] \<Longrightarrow> 0 < spans xs"
  by (cases xs) auto

lemma heap_inv_growable:
  assumes "heap_inv h xs" "free_frames (kpfa h) \<noteq> {}"
  shows "growable h"
proof -
  have "last_block h < next_addr h \<and> blocks h (last_block h) \<noteq> None" if "last_block h \<noteq> 0"
  proof -
    have ne: "xs \<noteq> []" using assms(1) that by (auto simp: heap_inv_def)
    then have l: "last_block h = KERNEL_HEAP_START + 4096 * spans xs - 4096" "snd (last xs)"
        "tiles (blocks h) 0 KERNEL_HEAP_START xs 0"
      using assms(1) by (auto simp: heap_inv_def)
    from tiles_set_next [OF l(3) ne l(2)] show ?thesis
      using assms(1) l(1) by (auto simp: heap_inv_def konst)
  qed
  then show ?thesis using assms by (auto simp: growable_def heap_inv_def konst)
qed

lemma tiles_grown:
  assumes "tiles bl 0 a xs 0" "0 < a" "v = a + 4096 * spans xs" "0 < n"
    and "if xs = [] then l = 0 else snd (last xs) \<and> l = v - 4096"
  shows "tiles (grown n v l bl) 0 a (xs @ replicate n (1, True)) 0"
proof -
  have new: "tiles (grown n v l bl) l v (replicate n (1, True)) 0"
  proof (rule tiles_replicate)
    fix i assume i: "i < n"
    then have "\<exists>j < n. v + 4096 * i = v + 4096 * j" by blast
    with i show "\<exists>b. grown n v l bl (v + 4096 * i) = Some b \<and> is_free b \<and> chunk_span b = 1
      \<and> bprev b = (if i = 0 then l else v + 4096 * (i - 1)) \<and> bnext b = (if Suc i = n then 0 else v + 4096 * Suc i)"
      unfolding grown_def by (cases i) auto
  qed
  show ?thesis
  proof (cases "xs = []")
    case True
    then show ?thesis using new assms by simp
  next
    case False
    then have l: "l = v - 4096" "snd (last xs)" using assms(5) by auto
    obtain b where b: "bl l = Some b" "tiles (bl(l \<mapsto> b\<lparr>bnext := v\<rparr>)) 0 a xs v"
      using tiles_set_next [OF assms(1) False l(2), of v] l(1) assms(3) by auto
    have v: "4096 \<le> v" "0 < l" using tiles_pos [OF assms(1) False] assms(2,3) l(1) by auto
    have "tiles (grown n v l bl) 0 a xs v = tiles (bl(l \<mapsto> b\<lparr>bnext := v\<rparr>)) 0 a xs v"
      by (rule tiles_cong) (use b(1) v assms(3,4) in \<open>auto simp: grown_def\<close>)
    moreover have "last_addr 0 a xs = l"
    proof -
      obtain ys k f where ys: "xs = ys @ [(k, f)]" using False by (metis rev_exhaust surj_pair)
      have "last_addr p c (ys @ [(k, f)]) = c + 4096 * spans ys" for p c
        by (induction p c ys rule: last_addr.induct) (auto simp: algebra_simps)
      moreover have "k = 1" using assms(1) l(2) unfolding ys by (auto simp: tiles_append)
      ultimately show ?thesis unfolding ys using l(1) assms(3) by (simp add: ys)
    qed
    ultimately show ?thesis using new b(2) assms(3,4) by (simp add: tiles_append)
  qed
qed

lemma heap_inv_grow:
  assumes "heap_inv h xs" "free_frames (kpfa h) \<noteq> {}" "next_addr h + 0x400000 < 2 ^ 32"
  shows "heap_grow h = Some (grown_heap h)" "heap_inv (grown_heap h) (xs @ replicate 1024 (1, True))"
    "card (free_frames (kpfa (grown_heap h))) = card (free_frames (kpfa h)) - 1"
proof -
  note g = heap_inv_growable [OF assms(1,2)]
  show "heap_grow h = Some (grown_heap h)" "card (free_frames (kpfa (grown_heap h))) = card (free_frames (kpfa h)) - 1"
    using heap_grow_exact [OF g] by auto
  have t: "tiles (blocks h) 0 KERNEL_HEAP_START xs 0" using assms(1) by (simp add: heap_inv_def)
  have "tiles (grown 1024 (next_addr h) (last_block h) (blocks h)) 0 KERNEL_HEAP_START (xs @ replicate 1024 (1, True)) 0"
    using assms(1) by (intro tiles_grown) (auto simp: heap_inv_def konst)
  moreover have "unat (free_chunks h + 1024) = unat (free_chunks h) + 1024"
    using assms(1,3) spans_split [OF tiles_free1 [OF t]] by (subst unat_add_small) (auto simp: heap_inv_def konst)
  ultimately show "heap_inv (grown_heap h) (xs @ replicate 1024 (1, True))"
    using assms(1,3) heap_grow_exact(2,3) [OF g] by (auto simp: heap_inv_def g filter_replicate)
qed

section \<open>Searching\<close>

text \<open>The address of the first run of at least \<open>n\<close> free chunks.\<close>

fun first_run :: "nat \<Rightarrow> nat \<Rightarrow> seg list \<Rightarrow> nat option" where
  "first_run n a [] = None"
| "first_run n a ((k, f) # xs) =
     (if f \<and> n \<le> length (takeWhile snd ((k, f) # xs)) then Some a else first_run n (a + 4096 * k) xs)"

lemma count_run_tiles:
  "tiles (blocks h) p a xs 0 \<Longrightarrow> 0 < a \<Longrightarrow>
   count_run h n (if xs = [] then 0 else a) = Some (min n (length (takeWhile snd xs)))"
proof (induction n arbitrary: p a xs)
  case (Suc n)
  show ?case
  proof (cases xs)
    case (Cons x ys)
    obtain k f where x: "x = (k, f)" by (cases x)
    have "count_run h n (if ys = [] then 0 else a + 4096 * k) = Some (min n (length (takeWhile snd ys)))"
      using Suc.prems Cons x by (intro Suc.IH) auto
    with Suc.prems Cons x show ?thesis by (auto simp: block_at_def)
  qed simp
qed simp

lemma heap_scan_tiles:
  "tiles (blocks h) p a xs 0 \<Longrightarrow> 0 < a \<Longrightarrow>
   heap_scan h n (if xs = [] then 0 else a) = Some (first_run n a xs)"
proof (induction n a xs arbitrary: p rule: first_run.induct)
  case (1 n a)
  then show ?case by (simp add: heap_scan.simps)
next
  case (2 n a k f xs)
  then obtain b where b: "blocks h a = Some b" "is_free b = f" "bnext b = (if xs = [] then 0 else a + 4096 * k)"
      "tiles (blocks h) a (a + 4096 * k) xs 0" by auto
  have c: "count_run h n a = Some (min n (length (takeWhile snd ((k, f) # xs))))"
    using count_run_tiles [OF 2(2,3)] by simp
  show ?case
  proof (cases "f \<and> n \<le> length (takeWhile snd ((k, f) # xs))")
    case True
    then show ?thesis
      using b c 2(3) by (subst heap_scan.simps) (auto simp: block_at_def split: if_splits)
  next
    case False
    then have "heap_scan h n (if xs = [] then 0 else a + 4096 * k) = Some (first_run n (a + 4096 * k) xs)"
      using 2(1) [OF False b(4)] 2(3) by simp
    then show ?thesis
      using False b c 2(3) by (subst heap_scan.simps) (auto simp: block_at_def)
  qed
qed

lemma takeWhile_free:
  assumes "list_all (\<lambda>(k, f). f \<longrightarrow> k = 1) xs" "n \<le> length (takeWhile snd xs)"
  shows "\<exists>vs. xs = replicate n (1, True) @ vs"
  using assms
proof (induction n arbitrary: xs)
  case (Suc n)
  then obtain k f ys where "xs = (k, f) # ys" by (cases xs) auto
  with Suc.prems Suc.IH [of ys] show ?case by (auto split: if_splits)
qed simp

lemma first_run_Some:
  assumes "first_run n a xs = Some s" "list_all (\<lambda>(k, f). f \<longrightarrow> k = 1) xs"
  shows "\<exists>us vs. xs = us @ replicate n (1, True) @ vs \<and> s = a + 4096 * spans us"
  using assms
proof (induction n a xs rule: first_run.induct)
  case (2 n a k f xs)
  show ?case
  proof (cases "f \<and> n \<le> length (takeWhile snd ((k, f) # xs))")
    case True
    then have "s = a" using 2(2) by (auto split: if_splits)
    moreover obtain vs where "(k, f) # xs = replicate n (1, True) @ vs" using True takeWhile_free [OF 2(3)] by blast
    ultimately show ?thesis by (intro exI [of _ "[]"] exI [of _ vs]) simp
  next
    case False
    then have "first_run n (a + 4096 * k) xs = Some s" using 2(2) by (simp split: if_splits)
    with 2(1) [OF False] 2(3) obtain us vs where "xs = us @ replicate n (1, True) @ vs"
        "s = a + 4096 * k + 4096 * spans us" by auto
    then show ?thesis by (intro exI [of _ "(k, f) # us"] exI [of _ vs]) simp
  qed
qed simp

lemma first_run_suffix:
  assumes "0 < n" "n \<le> length zs" "list_all snd zs"
  shows "first_run n a (ys @ zs) \<noteq> None"
proof (induction ys arbitrary: a)
  case Nil
  obtain k zs' where z: "zs = (k, True) # zs'" using assms by (cases zs) auto
  have "length (takeWhile snd zs') = length zs'"
    by (rule arg_cong [of _ _ length]) (use assms(3) z in \<open>simp add: list_all_iff\<close>)
  then show ?case using assms(2) z by simp
next
  case (Cons y ys)
  then show ?case by (cases y) auto
qed

section \<open>Taking a span\<close>

definition marked :: "nat \<Rightarrow> nat \<Rightarrow> (nat \<rightharpoonup> heap_block) \<Rightarrow> (nat \<rightharpoonup> heap_block)" where
  "marked k a bl = (\<lambda>x. if \<exists>i < k. x = a + 4096 * i then map_option (\<lambda>b. b\<lparr>is_free := False\<rparr>) (bl x) else bl x)"

lemma span_loop_marked:
  assumes "0 < a" "\<And>i. i < k \<Longrightarrow> \<exists>b. blocks h (a + 4096 * i) = Some b \<and> bnext b = a + 4096 * Suc i"
  shows "span_loop k a h = Some (a + 4096 * k, h\<lparr>blocks := marked k a (blocks h)\<rparr>)"
  using assms
proof (induction k arbitrary: a h)
  case 0
  then show ?case by (simp add: marked_def)
next
  case (Suc k)
  obtain b where b: "blocks h a = Some b" "bnext b = a + 4096" using Suc.prems(2) [of 0] by auto
  let ?h1 = "h\<lparr>blocks := (blocks h)(a \<mapsto> b\<lparr>is_free := False\<rparr>)\<rparr>"
  have "span_loop (Suc k) a h = span_loop k (a + 4096) ?h1"
    using b Suc.prems(1) by (simp add: upd_block_def block_at_def)
  also have "\<dots> = Some (a + 4096 + 4096 * k, ?h1\<lparr>blocks := marked k (a + 4096) (blocks ?h1)\<rparr>)"
  proof (rule Suc.IH)
    fix i assume "i < k"
    then show "\<exists>b. blocks ?h1 (a + 4096 + 4096 * i) = Some b \<and> bnext b = a + 4096 + 4096 * Suc i"
      using Suc.prems(2) [of "Suc i"] by (auto simp: algebra_simps)
  qed simp
  also have "marked k (a + 4096) (blocks ?h1) = marked (Suc k) a (blocks h)"
  proof
    fix x
    have "(\<exists>i < Suc k. x = a + 4096 * i) \<longleftrightarrow> x = a \<or> (\<exists>i < k. x = a + 4096 + 4096 * i)"
      by (auto simp: less_Suc_eq_0_disj)
    then show "marked k (a + 4096) (blocks ?h1) x = marked (Suc k) a (blocks h) x"
      using b by (auto simp: marked_def)
  qed
  finally show ?case by simp
qed

text \<open>The span is followed by another block.\<close>

lemma take_span_tiles:
  assumes t: "tiles (blocks h) 0 a (us @ replicate n (1, True) @ vs) 0" and "0 < a" "0 < n" "vs \<noteq> []"
    and s: "s = a + 4096 * spans us"
  shows "\<exists>bl. take_span s n h = Some (s + sizeof_heap_block, h\<lparr>blocks := bl,
      free_chunks := free_chunks h - of_nat n, used_chunks := used_chunks h + of_nat n\<rparr>)
    \<and> tiles bl 0 a (us @ (n, False) # vs) 0"
proof -
  let ?pu = "last_addr 0 a us" and ?e = "s + 4096 * n"
  have tu: "tiles (blocks h) 0 a us s" and tr: "tiles (blocks h) ?pu s (replicate n (1, True)) ?e"
    and tv: "tiles (blocks h) (last_addr ?pu s (replicate n (1, True))) ?e vs 0"
    using t assms(3,4) by (simp_all add: tiles_append s)
  have s0: "0 < s" using assms(2) s by simp
  obtain b where b: "blocks h s = Some b" "bprev b = ?pu" "bnext b = s + 4096"
    using tiles_replicateD [OF tr assms(3)] assms(3) by (auto split: if_splits)
  define h1 where "h1 = h\<lparr>blocks := (blocks h)(s \<mapsto> b\<lparr>is_free := False, chunk_span := n\<rparr>)\<rparr>"
  have u1: "upd_block s (\<lambda>b. b\<lparr>is_free := False, chunk_span := n\<rparr>) h = Some h1"
    using b s0 by (simp add: upd_block_def block_at_def h1_def)
  have nx: "block_at h1 s = Some (b\<lparr>is_free := False, chunk_span := n\<rparr>)" using s0 by (simp add: block_at_def h1_def)
  have "span_loop (n - 1) (s + 4096) h1 = Some (s + 4096 + 4096 * (n - 1), h1\<lparr>blocks := marked (n - 1) (s + 4096) (blocks h1)\<rparr>)"
  proof (rule span_loop_marked)
    fix i assume i: "i < n - 1"
    then have e: "s + 4096 + 4096 * i = s + 4096 * Suc i" "Suc i < n" "s + 4096 + 4096 * i \<noteq> s" by auto
    show "\<exists>b. blocks h1 (s + 4096 + 4096 * i) = Some b \<and> bnext b = s + 4096 + 4096 * Suc i"
      using tiles_replicateD [OF tr e(2)] unfolding e(1) [symmetric] using e(3)
      by (cases "Suc (Suc i) = n") (auto simp: h1_def)
  qed simp
  moreover have "s + 4096 + 4096 * (n - 1) = ?e" using assms(3) by (cases n) auto
  ultimately have sl: "span_loop (n - 1) (s + 4096) h1 = Some (?e, h1\<lparr>blocks := marked (n - 1) (s + 4096) (blocks h1)\<rparr>)"
    by simp
  let ?m = "marked (n - 1) (s + 4096) (blocks h1)"
  have m_out: "?m x = blocks h1 x" if "x < s + 4096 \<or> ?e \<le> x" for x
    using that assms(3) by (auto simp: marked_def)
  have "tiles ?m (last_addr ?pu s (replicate n (1, True))) ?e vs 0"
    using tv by (subst tiles_cong [where bl = "blocks h"]) (use m_out assms(3) in \<open>auto simp: h1_def\<close>)
  then obtain c where c: "?m ?e = Some c" "tiles (?m(?e \<mapsto> c\<lparr>bprev := s\<rparr>)) s ?e vs 0"
    using tiles_set_prev assms(4) by blast
  define bl where "bl = ?m(?e \<mapsto> c\<lparr>bprev := s\<rparr>, s \<mapsto> b\<lparr>is_free := False, chunk_span := n, bnext := ?e\<rparr>)"
  have ms: "?m s = Some (b\<lparr>is_free := False, chunk_span := n\<rparr>)" using m_out [of s] by (simp add: h1_def)
  have "take_span s n h = Some (s + sizeof_heap_block, h\<lparr>blocks := bl,
      free_chunks := free_chunks h - of_nat n, used_chunks := used_chunks h + of_nat n\<rparr>)"
    using u1 nx b(3) sl c(1) ms s0 assms(3)
    by (simp add: take_span_def upd_block_def block_at_def bl_def) (simp add: h1_def)
  moreover have "tiles bl 0 a us s"
    using tu by (subst tiles_cong [where bl = "blocks h"]) (use m_out s assms(3) in \<open>auto simp: bl_def h1_def\<close>)
  moreover have "tiles bl s ?e vs 0"
    using c(2) by (subst tiles_cong [where bl = "?m(?e \<mapsto> c\<lparr>bprev := s\<rparr>)"]) (use assms(3) in \<open>auto simp: bl_def\<close>)
  moreover have "bl s = Some (b\<lparr>is_free := False, chunk_span := n, bnext := ?e\<rparr>)" by (simp add: bl_def)
  ultimately show ?thesis using assms(3,4) b(2) by (intro exI [of _ bl]) (simp add: tiles_append s)
qed

text \<open>
  When the span reaches the end of the heap, the code grows the heap in the middle of taking the span. The result is
  that of growing first and taking the span afterwards.
\<close>

definition modb :: "nat \<Rightarrow> (heap_block \<Rightarrow> heap_block) \<Rightarrow> kheap \<Rightarrow> kheap" where
  "modb x f h = h\<lparr>blocks := (blocks h)(x := map_option f (blocks h x))\<rparr>"

lemma upd_block_modb: "x \<noteq> 0 \<Longrightarrow> blocks h x \<noteq> None \<Longrightarrow> upd_block x f h = Some (modb x f h)"
  by (auto simp: upd_block_def block_at_def modb_def)

lemma modb_fields [simp]:
  "next_addr (modb x f h) = next_addr h" "last_block (modb x f h) = last_block h" "kpfa (modb x f h) = kpfa h"
  "free_chunks (modb x f h) = free_chunks h" "used_chunks (modb x f h) = used_chunks h"
  "blocks (modb x f h) y = (if y = x then map_option f (blocks h x) else blocks h y)"
  by (simp_all add: modb_def)

lemma growable_modb [simp]: "growable (modb x f h) = growable h"
  by (auto simp: growable_def)

lemma modb_id: "(\<And>b. blocks h x = Some b \<Longrightarrow> f b = b) \<Longrightarrow> modb x f h = h"
  by (cases "blocks h x") (auto simp: modb_def fun_upd_idem)

lemma grown_upd:
  assumes "x < v" "\<And>b w. f (b\<lparr>bnext := w\<rparr>) = (f b)\<lparr>bnext := w\<rparr>"
  shows "grown n v l (bl(x := map_option f (bl x))) = (grown n v l bl)(x := map_option f (grown n v l bl x))"
  using assms(1) by (intro ext) (auto simp: grown_def option.map_comp comp_def assms(2))

lemma grown_last_next:
  "l < v \<Longrightarrow> 0 < l \<Longrightarrow> 0 < n \<Longrightarrow> grown n v l (bl(l := map_option (\<lambda>b. b\<lparr>bnext := w\<rparr>) (bl l))) = grown n v l bl"
  by (intro ext) (auto simp: grown_def option.map_comp comp_def)

lemma grown_heap_last_next:
  assumes "growable h" "last_block h = s" "0 < s"
  shows "grown_heap (modb s (\<lambda>b. b\<lparr>bnext := w\<rparr>) h) = grown_heap h"
proof -
  have "s < next_addr h" using assms by (auto simp: growable_def)
  then have "grown 1024 (next_addr h) s ((blocks h)(s := map_option (\<lambda>b. b\<lparr>bnext := w\<rparr>) (blocks h s)))
      = grown 1024 (next_addr h) s (blocks h)"
    using assms(3) by (intro grown_last_next) auto
  moreover obtain a p' where "pfa_alloc (kpfa h) = Some (a, p')"
    using assms(1) frames.alloc_some [of "kpfa h"] unfolding growable_def by blast
  ultimately show ?thesis using assms(2) by (simp add: grown_heap_def modb_def)
qed

lemma grown_heap_modb:
  assumes "growable h" "x < next_addr h" "\<And>b v. f (b\<lparr>bnext := v\<rparr>) = (f b)\<lparr>bnext := v\<rparr>"
  shows "grown_heap (modb x f h) = modb x f (grown_heap h)"
proof -
  have "grown 1024 (next_addr h) (last_block h) ((blocks h)(x := map_option f (blocks h x)))
      = (grown 1024 (next_addr h) (last_block h) (blocks h))(x :=
          map_option f (grown 1024 (next_addr h) (last_block h) (blocks h) x))"
    using assms(2,3) by (rule grown_upd)
  moreover obtain a p' where "pfa_alloc (kpfa h) = Some (a, p')"
    using assms(1) frames.alloc_some [of "kpfa h"] unfolding growable_def by blast
  ultimately show ?thesis by (simp add: grown_heap_def modb_def)
qed

lemma span_loop_step:
  assumes "0 < a" "blocks h a = Some b" "0 < bnext b"
  shows "span_loop (Suc i) a h = span_loop i (bnext b) (modb a (\<lambda>b. b\<lparr>is_free := False\<rparr>) h)"
  using assms by (simp add: upd_block_modb block_at_def)

lemma span_loop_grows:
  assumes "growable h" "0 < a" "a + 4096 * k = last_block h" "last_block h < next_addr h"
    and "\<And>i. i \<le> k \<Longrightarrow> \<exists>b. blocks h (a + 4096 * i) = Some b \<and> bnext b = (if i = k then 0 else a + 4096 * Suc i)"
  shows "span_loop (Suc k) a h = span_loop (Suc k) a (grown_heap h)"
  using assms
proof (induction k arbitrary: a h)
  case 0
  let ?f = "\<lambda>b. b\<lparr>is_free := False\<rparr>"
  obtain b where b: "blocks h a = Some b" "bnext b = 0" using "0.prems"(5) [of 0] by auto
  have a: "a = last_block h" "a < next_addr h" using "0.prems" by auto
  have g: "heap_grow (modb a ?f h) = Some (modb a ?f (grown_heap h))"
    using heap_grow_exact(1) [of "modb a ?f h"] "0.prems"(1) a(2) by (simp add: grown_heap_modb)
  have gb: "blocks (grown_heap h) a = Some (b\<lparr>bnext := next_addr h\<rparr>)"
    using "0.prems"(1,2) b a by (auto simp: grown_def)
  show ?case
    using "0.prems"(2,4) b g gb by (simp add: upd_block_modb block_at_def)
next
  case (Suc k)
  let ?f = "\<lambda>b. b\<lparr>is_free := False\<rparr>"
  obtain b where b: "blocks h a = Some b" "bnext b = a + 4096" using Suc.prems(5) [of 0] by auto
  have a: "a \<noteq> last_block h" "a < next_addr h" using Suc.prems(3,4) by auto
  have gb: "blocks (grown_heap h) a = Some b" using Suc.prems(1) b a by (auto simp: grown_def)
  have "span_loop (Suc k) (a + 4096) (modb a ?f h) = span_loop (Suc k) (a + 4096) (grown_heap (modb a ?f h))"
  proof (rule Suc.IH)
    fix i assume "i \<le> k"
    then have "\<exists>b. blocks h (a + 4096 * Suc i) = Some b \<and> bnext b = (if Suc i = Suc k then 0 else a + 4096 * Suc (Suc i))"
      by (intro Suc.prems(5)) simp
    then show "\<exists>b. blocks (modb a ?f h) (a + 4096 + 4096 * i) = Some b
        \<and> bnext b = (if i = k then 0 else a + 4096 + 4096 * Suc i)" by (cases "i = k") (auto simp: add.assoc)
  qed (use Suc.prems in auto)
  also have "grown_heap (modb a ?f h) = modb a ?f (grown_heap h)"
    using Suc.prems(1) a(2) by (intro grown_heap_modb) auto
  finally show ?case
    using Suc.prems(2) b gb span_loop_step [of a h b "Suc k"] span_loop_step [of a "grown_heap h" b "Suc k"]
    by (simp del: span_loop.simps)
qed

lemma take_span_grows:
  assumes "growable h" and t: "tiles (blocks h) p s (replicate n (1, True)) 0" and "0 < s" "0 < n"
    and "next_addr h = s + 4096 * n" "last_block h = s + 4096 * (n - 1)"
  shows "take_span s n h = take_span s n (grown_heap h)"
proof -
  let ?f = "\<lambda>b. b\<lparr>is_free := False, chunk_span := n\<rparr>"
  obtain b where b: "blocks h s = Some b" "bnext b = (if n = 1 then 0 else s + 4096)"
    using tiles_replicateD [OF t assms(4)] by auto
  have s: "s < next_addr h" using assms(4,5) by simp
  have gm: "grown_heap (modb s ?f h) = modb s ?f (grown_heap h)"
    using assms(1) s by (intro grown_heap_modb) auto
  show ?thesis
  proof (cases "n = 1")
    case False
    then obtain k where k: "n = Suc (Suc k)" using assms(4) by (metis One_nat_def Suc_pred old.nat.exhaust)
    have "span_loop (Suc k) (s + 4096) (modb s ?f h) = span_loop (Suc k) (s + 4096) (grown_heap (modb s ?f h))"
    proof (rule span_loop_grows)
      fix i assume "i \<le> k"
      then show "\<exists>b. blocks (modb s ?f h) (s + 4096 + 4096 * i) = Some b
          \<and> bnext b = (if i = k then 0 else s + 4096 + 4096 * Suc i)"
        using tiles_replicateD [OF t, of "Suc i"] k by (auto simp: add.assoc)
    qed (use assms k in auto)
    moreover have "blocks (grown_heap h) s = Some b" using assms(1,3,5,6) b k by (auto simp: grown_def)
    ultimately show ?thesis
      using b assms(3) False k gm by (simp add: take_span_def upd_block_modb block_at_def del: span_loop.simps)
  next
    case True
    let ?g = "\<lambda>b. b\<lparr>bnext := 0\<rparr>"
    have l: "last_block h = s" "next_addr h = s + 4096" using assms(5,6) True by auto
    have gb: "blocks (grown_heap h) s = Some (b\<lparr>bnext := s + 4096\<rparr>)"
        "blocks (grown_heap h) (s + 4096) = Some \<lparr>bsize = 4096, is_free = True, chunk_span = 1, bprev = s, bnext = s + 8192\<rparr>"
      using assms(1,3) b l by (auto simp: grown_def intro: exI [of _ 0])
    have "grown_heap (modb s ?g (modb s ?f h))
        = modb s (\<lambda>b. b\<lparr>bnext := s + 4096\<rparr>) (modb (s + 4096) (\<lambda>b. b\<lparr>bprev := s\<rparr>) (modb s ?f (grown_heap h)))"
      (is "_ = modb s ?nx (modb (s + 4096) ?pv ?X)")
    proof -
      have "modb (s + 4096) ?pv ?X = ?X" by (rule modb_id) (use gb(2) in auto)
      moreover have "modb s ?nx ?X = ?X" by (rule modb_id) (use gb(1) in auto)
      ultimately show ?thesis using assms(1,3) l by (simp add: grown_heap_last_next gm)
    qed
    moreover have "heap_grow (modb s ?g (modb s ?f h)) = Some (grown_heap (modb s ?g (modb s ?f h)))"
      using assms(1) by (intro heap_grow_exact) simp
    ultimately show ?thesis
      using b gb assms(3) True by (simp add: take_span_def upd_block_modb block_at_def)
  qed
qed

section \<open>Allocation\<close>

lemma take_span_inv_next:
  assumes "heap_inv h (us @ replicate n (1, True) @ vs)" "0 < n" "vs \<noteq> []"
  shows "\<exists>h'. take_span (KERNEL_HEAP_START + 4096 * spans us) n h
      = Some (KERNEL_HEAP_START + 4096 * spans us + sizeof_heap_block, h') \<and> heap_inv h' (us @ (n, False) # vs)"
proof -
  let ?s = "KERNEL_HEAP_START + 4096 * spans us"
  have t: "tiles (blocks h) 0 KERNEL_HEAP_START (us @ replicate n (1, True) @ vs) 0"
    using assms(1) by (simp add: heap_inv_def)
  obtain bl where bl: "take_span ?s n h = Some (?s + sizeof_heap_block, h\<lparr>blocks := bl,
      free_chunks := free_chunks h - of_nat n, used_chunks := used_chunks h + of_nat n\<rparr>)"
      "tiles bl 0 KERNEL_HEAP_START (us @ (n, False) # vs) 0"
    using take_span_tiles [OF t _ assms(2,3) refl] by (auto simp: konst)
  have sp: "length (filter snd (us @ replicate n (1, True) @ vs))
      + spans (filter (Not \<circ> snd) (us @ replicate n (1, True) @ vs)) = spans (us @ replicate n (1, True) @ vs)"
    by (rule spans_split [OF tiles_free1 [OF t]])
  have n: "unat (of_nat n :: u32) = n"
    using assms(1) by (simp add: heap_inv_def unat_of_nat konst)
  have "n \<le> unat (free_chunks h)" using assms(1) by (simp add: heap_inv_def filter_replicate)
  then have f: "unat (free_chunks h - of_nat n) = unat (free_chunks h) - n"
    by (subst unat_sub) (simp_all add: word_le_nat_alt n)
  have u: "unat (used_chunks h + of_nat n) = unat (used_chunks h) + n"
    using assms(1) sp by (subst unat_add_small) (auto simp: heap_inv_def n konst filter_replicate)
  show ?thesis
    using bl assms f u by (auto simp: heap_inv_def filter_replicate)
qed

lemma take_span_inv:
  assumes "heap_inv h (us @ replicate n (1, True) @ vs)" "0 < n"
    and "vs = [] \<Longrightarrow> free_frames (kpfa h) \<noteq> {} \<and> next_addr h + 0x400000 < 2 ^ 32"
  shows "\<exists>h'. take_span (KERNEL_HEAP_START + 4096 * spans us) n h
      = Some (KERNEL_HEAP_START + 4096 * spans us + sizeof_heap_block, h')
    \<and> heap_inv h' (us @ (n, False) # (if vs = [] then replicate 1024 (1, True) else vs))"
proof (cases "vs = []")
  case True
  let ?s = "KERNEL_HEAP_START + 4096 * spans us"
  have i: "heap_inv h (us @ replicate n (1, True))" using assms(1) True by simp
  have g: "free_frames (kpfa h) \<noteq> {}" "next_addr h + 0x400000 < 2 ^ 32" using assms(3) True by auto
  have ig: "heap_inv (grown_heap h) (us @ replicate n (1, True) @ replicate 1024 (1, True))"
    using heap_inv_grow(2) [OF i g] by simp
  have "take_span ?s n h = take_span ?s n (grown_heap h)"
  proof (rule take_span_grows [OF heap_inv_growable [OF i g(1)]])
    show "tiles (blocks h) (last_addr 0 KERNEL_HEAP_START us) ?s (replicate n (1, True)) 0"
      using i assms(2) by (simp add: heap_inv_def tiles_append)
  qed (use i assms(2) in \<open>auto simp: heap_inv_def konst diff_mult_distrib2\<close>)
  with take_span_inv_next [OF ig assms(2)] True show ?thesis by simp
next
  case False
  then show ?thesis using take_span_inv_next [OF assms(1,2)] by simp
qed

lemma heap_inv_scan:
  assumes "heap_inv h xs" "xs \<noteq> []"
  shows "heap_scan h n (start_addr h) = Some (first_run n KERNEL_HEAP_START xs)"
proof -
  have "tiles (blocks h) 0 KERNEL_HEAP_START xs 0" "0 < KERNEL_HEAP_START" "start_addr h = KERNEL_HEAP_START"
    using assms(1) by (auto simp: heap_inv_def konst)
  with heap_scan_tiles [of h 0 KERNEL_HEAP_START xs n] assms(2) show ?thesis by simp
qed

lemma malloc_loop_fits:
  assumes "heap_inv h xs" "xs \<noteq> []" "first_run n KERNEL_HEAP_START xs = Some s" "0 < n"
    and "free_frames (kpfa h) \<noteq> {}" "next_addr h + 0x400000 < 2 ^ 32"
  shows "\<exists>us vs j h'. malloc_loop n h = Some (KERNEL_HEAP_START + 4096 * spans us + sizeof_heap_block, h')
    \<and> xs @ replicate (1024 * j) (1, True) = us @ replicate n (1, True) @ vs \<and> heap_inv h' (us @ (n, False) # vs)"
proof -
  have t: "tiles (blocks h) 0 KERNEL_HEAP_START xs 0" using assms(1) by (simp add: heap_inv_def)
  obtain us vs where us: "xs = us @ replicate n (1, True) @ vs" "s = KERNEL_HEAP_START + 4096 * spans us"
    using first_run_Some [OF assms(3) tiles_free1 [OF t]] by blast
  let ?vs = "if vs = [] then replicate 1024 (1, True) else vs"
  obtain h' where h': "take_span s n h = Some (s + sizeof_heap_block, h')" "heap_inv h' (us @ (n, False) # ?vs)"
    using take_span_inv [of h us n vs] assms(1,4-6) unfolding us by auto
  have "xs @ replicate (1024 * (if vs = [] then 1 else 0)) (1, True) = us @ replicate n (1, True) @ ?vs"
    using us(1) by simp
  moreover have "malloc_loop n h = Some (s + sizeof_heap_block, h')"
    using heap_inv_scan [OF assms(1,2), of n] assms(3) h'(1) by (subst malloc_loop.simps) simp
  ultimately show ?thesis using h'(2) us(2) by blast
qed

text \<open>\<open>r\<close> free chunks at the end of the heap and \<open>g\<close> growths are enough for \<open>n\<close> chunks.\<close>

lemma malloc_loop_ok:
  assumes "heap_inv h xs" "xs = ys @ replicate r (1, True)" "0 < n" "n \<le> r + 1024 * g" "xs \<noteq> []"
    and "g < card (free_frames (kpfa h))" "next_addr h + 0x400000 * Suc g < 2 ^ 32"
  shows "\<exists>us vs j h'. malloc_loop n h = Some (KERNEL_HEAP_START + 4096 * spans us + sizeof_heap_block, h')
    \<and> xs @ replicate (1024 * j) (1, True) = us @ replicate n (1, True) @ vs \<and> heap_inv h' (us @ (n, False) # vs)"
  using assms
proof (induction g arbitrary: h r xs)
  case 0
  have "first_run n KERNEL_HEAP_START xs \<noteq> None"
    unfolding "0.prems"(2) using "0.prems"(3,4) by (intro first_run_suffix) (auto simp: list_all_iff)
  then obtain s where "first_run n KERNEL_HEAP_START xs = Some s" by blast
  moreover have "free_frames (kpfa h) \<noteq> {}" "next_addr h + 0x400000 < 2 ^ 32" using "0.prems"(6,7) by auto
  ultimately show ?case by (intro malloc_loop_fits [OF "0.prems"(1,5) _ "0.prems"(3)])
next
  case (Suc g)
  have ne: "free_frames (kpfa h) \<noteq> {}" using Suc.prems(6) by auto
  have nb: "next_addr h + 0x400000 < 2 ^ 32" using Suc.prems(7) by simp
  show ?case
  proof (cases "first_run n KERNEL_HEAP_START xs")
    case None
    note gr = heap_inv_grow [OF Suc.prems(1) ne nb]
    have "\<exists>us vs j h'. malloc_loop n (grown_heap h) = Some (KERNEL_HEAP_START + 4096 * spans us + sizeof_heap_block, h')
        \<and> (xs @ replicate 1024 (1, True)) @ replicate (1024 * j) (1, True) = us @ replicate n (1, True) @ vs
        \<and> heap_inv h' (us @ (n, False) # vs)"
    proof (rule Suc.IH [OF gr(2)])
      show "xs @ replicate 1024 (1, True) = ys @ replicate (r + 1024) (1, True)"
        by (simp add: Suc.prems(2) replicate_add)
      show "next_addr (grown_heap h) + 0x400000 * Suc g < 2 ^ 32"
        using Suc.prems(7) heap_inv_growable [OF Suc.prems(1) ne] by simp
    qed (use Suc.prems gr(3) in auto)
    moreover have "(xs @ replicate 1024 (1, True)) @ replicate (1024 * j) (1, True) = xs @ replicate (1024 * Suc j) (1, True)" for j
      by (simp add: replicate_add)
    moreover have "malloc_loop n h = malloc_loop n (grown_heap h)"
      using heap_inv_scan [OF Suc.prems(1,5), of n] None gr(1) by (subst malloc_loop.simps) simp
    ultimately show ?thesis by metis
  next
    case (Some s)
    from malloc_loop_fits [OF Suc.prems(1,5) Some Suc.prems(3) ne nb] show ?thesis .
  qed
qed

text \<open>Seven growths cover every size that passes the first test of \<open>_malloc\<close>, and one more each is needed before
  the search (less than a fifth free) and at the end of the span.\<close>

lemma heap_malloc_ok:
  assumes "heap_inv h xs" "9 \<le> card (free_frames (kpfa h))"
    and t: "t = (sz + sizeof_heap_block) mod 2 ^ 32" "0 < t" "next_addr h + t \<le> KERNEL_HEAP_MAX"
    and n: "n = (t + 4095) div 4096"
  shows "\<exists>us vs j h'. heap_malloc sz h = Some (KERNEL_HEAP_START + 4096 * spans us + sizeof_heap_block, h')
    \<and> xs @ replicate (1024 * j) (1, True) = us @ replicate n (1, True) @ vs \<and> heap_inv h' (us @ (n, False) # vs)"
proof -
  have b: "next_addr h + t < 2 ^ 32" "t + 4095 < 2 ^ 32" "n \<le> 7168" "0 < n" "KERNEL_HEAP_START \<le> next_addr h"
    using t(2,3) n assms(1) by (auto simp: konst heap_inv_def)
  have ne: "free_frames (kpfa h) \<noteq> {}" using assms(2) by auto
  have nb: "next_addr h + 0x400000 < 2 ^ 32" using t(3) by (simp add: konst)
  note gr = heap_inv_grow [OF assms(1) ne nb]
  define grow where "grow = (if free_chunks h + used_chunks h = 0 then True
      else free_chunks h * 100 div (free_chunks h + used_chunks h) < 20)"
  define h1 where "h1 = (if grow then grown_heap h else h)"
  define xs1 where "xs1 = (if grow then xs @ replicate 1024 (1, True) else xs)"
  have m: "heap_malloc sz h = malloc_loop n h1"
    unfolding heap_malloc_def Let_def t(1) [symmetric] using b(1,2) t(3) gr(1) n
    by (auto simp: h1_def grow_def konst add.commute)
  have i1: "heap_inv h1 xs1" using assms(1) gr(2) by (simp add: h1_def xs1_def)
  have c1: "7 < card (free_frames (kpfa h1))" using assms(2) gr(3) by (auto simp: h1_def)
  have n1: "next_addr h1 + 0x400000 * Suc 7 < 2 ^ 32"
    using t(3) heap_inv_growable [OF assms(1) ne] by (auto simp: h1_def konst)
  have x1: "xs1 \<noteq> []"
  proof
    assume e: "xs1 = []"
    then have ng: "\<not> grow" "xs = []" by (auto simp: xs1_def split: if_splits)
    then have "free_chunks h = 0" "used_chunks h = 0" using assms(1) by (auto simp: heap_inv_def unat_eq_0)
    with ng(1) show False by (simp add: grow_def)
  qed
  from malloc_loop_ok [OF i1, of xs1 0 n 7] b(3,4) x1 c1 n1 obtain us vs j h' where
      r: "malloc_loop n h1 = Some (KERNEL_HEAP_START + 4096 * spans us + sizeof_heap_block, h')"
      "xs1 @ replicate (1024 * j) (1, True) = us @ replicate n (1, True) @ vs" "heap_inv h' (us @ (n, False) # vs)"
    by auto
  have "xs @ replicate (1024 * (if grow then Suc j else j)) (1, True) = us @ replicate n (1, True) @ vs"
    using r(2) by (auto simp: xs1_def replicate_add)
  with r(1,3) m show ?thesis by metis
qed

section \<open>Release\<close>

definition split_blocks :: "nat \<Rightarrow> nat \<Rightarrow> (nat \<rightharpoonup> heap_block) \<Rightarrow> (nat \<rightharpoonup> heap_block)" where
  "split_blocks n a bl = (\<lambda>x. if \<exists>i. 0 < i \<and> i \<le> n \<and> x = a + 4096 * i
     then Some \<lparr>bsize = 4096, is_free = True, chunk_span = 1, bprev = x - 4096,
                bnext = (if x = a + 4096 * n then 0 else x + 4096)\<rparr>
     else if x = a \<and> 0 < n then map_option (\<lambda>b. b\<lparr>bnext := a + 4096\<rparr>) (bl x) else bl x)"

lemma split_loop_blocks:
  assumes "0 < a" "blocks h a \<noteq> None"
  shows "split_loop n a h = Some (a + 4096 * n, h\<lparr>blocks := split_blocks n a (blocks h)\<rparr>)"
  using assms
proof (induction n arbitrary: a h)
  case 0
  have "split_blocks 0 a (blocks h) = blocks h" by (auto simp: split_blocks_def)
  then show ?case by simp
next
  case (Suc n)
  obtain b where b: "blocks h a = Some b" using Suc.prems(2) by auto
  let ?c = "\<lparr>bsize = 4096, is_free = True, chunk_span = 1, bprev = a, bnext = 0\<rparr>"
  let ?h1 = "h\<lparr>blocks := (blocks h)(a + 4096 \<mapsto> ?c, a \<mapsto> b\<lparr>bnext := a + 4096\<rparr>)\<rparr>"
  have "split_loop (Suc n) a h = split_loop n (a + 4096) ?h1"
    using b Suc.prems(1) by (simp add: upd_block_def block_at_def init_heap_block_def)
  also have "\<dots> = Some (a + 4096 + 4096 * n, ?h1\<lparr>blocks := split_blocks n (a + 4096) (blocks ?h1)\<rparr>)"
    by (rule Suc.IH) simp_all
  also have "split_blocks n (a + 4096) (blocks ?h1) = split_blocks (Suc n) a (blocks h)"
  proof
    fix x
    have e: "(\<exists>i. 0 < i \<and> i \<le> Suc n \<and> x = a + 4096 * i)
        \<longleftrightarrow> x = a + 4096 \<or> (\<exists>i. 0 < i \<and> i \<le> n \<and> x = a + 4096 + 4096 * i)"
    proof
      assume "\<exists>i. 0 < i \<and> i \<le> Suc n \<and> x = a + 4096 * i"
      then obtain i where "0 < i" "i \<le> Suc n" "x = a + 4096 * i" by blast
      then show "x = a + 4096 \<or> (\<exists>i. 0 < i \<and> i \<le> n \<and> x = a + 4096 + 4096 * i)"
        by (cases "i = 1") (auto intro!: exI [of _ "i - 1"])
    next
      assume "x = a + 4096 \<or> (\<exists>i. 0 < i \<and> i \<le> n \<and> x = a + 4096 + 4096 * i)"
      then show "\<exists>i. 0 < i \<and> i \<le> Suc n \<and> x = a + 4096 * i"
      proof
        assume "x = a + 4096"
        then show ?thesis by (intro exI [of _ 1]) simp
      next
        assume "\<exists>i. 0 < i \<and> i \<le> n \<and> x = a + 4096 + 4096 * i"
        then obtain i where "0 < i" "i \<le> n" "x = a + 4096 + 4096 * i" by blast
        then show ?thesis by (intro exI [of _ "Suc i"]) simp
      qed
    qed
    show "split_blocks n (a + 4096) (blocks ?h1) x = split_blocks (Suc n) a (blocks h) x"
    proof (cases "\<exists>i. 0 < i \<and> i \<le> n \<and> x = a + 4096 + 4096 * i")
      case True
      then show ?thesis using e unfolding split_blocks_def by auto
    next
      case False
      then show ?thesis using e b unfolding split_blocks_def by (cases n) auto
    qed
  qed
  finally show ?case by simp
qed

lemma split_tiles:
  assumes "bl a = Some b" "is_free b" "chunk_span b = 1" "bprev b = p"
  shows "\<exists>c. split_blocks n a bl (a + 4096 * n) = Some c
    \<and> tiles ((split_blocks n a bl)(a + 4096 * n \<mapsto> c\<lparr>bnext := e\<rparr>)) p a (replicate (Suc n) (1, True)) e"
proof -
  let ?bl = "split_blocks n a bl"
  have new: "?bl (a + 4096 * i) = Some \<lparr>bsize = 4096, is_free = True, chunk_span = 1, bprev = a + 4096 * (i - 1),
      bnext = (if i = n then 0 else a + 4096 * Suc i)\<rparr>" if "0 < i" "i \<le> n" for i
  proof -
    have "\<exists>j. 0 < j \<and> j \<le> n \<and> a + 4096 * i = a + 4096 * j" using that by blast
    then show ?thesis using that unfolding split_blocks_def by (cases i) auto
  qed
  have first: "?bl a = Some (if n = 0 then b else b\<lparr>bnext := a + 4096\<rparr>)"
    using assms(1) by (auto simp: split_blocks_def)
  obtain c where c: "?bl (a + 4096 * n) = Some c" using new [of n] first by (cases n) auto
  have "tiles (?bl(a + 4096 * n \<mapsto> c\<lparr>bnext := e\<rparr>)) p a (replicate (Suc n) (1, True)) e"
  proof (rule tiles_replicate)
    fix i assume i: "i < Suc n"
    show "\<exists>b. (?bl(a + 4096 * n \<mapsto> c\<lparr>bnext := e\<rparr>)) (a + 4096 * i) = Some b \<and> is_free b \<and> chunk_span b = 1
        \<and> bprev b = (if i = 0 then p else a + 4096 * (i - 1)) \<and> bnext b = (if Suc i = Suc n then e else a + 4096 * Suc i)"
      using i new [of i] first c assms by (cases "i = 0"; cases "i = n") auto
  qed
  with c show ?thesis by blast
qed

lemma heap_free_steps:
  assumes "0 < s" "0 < e" "0 < i" "blocks h s = Some b" "chunk_span b = n" "bnext b = e"
    and "split_loop (n - 1) s (modb s (\<lambda>b. b\<lparr>is_free := True, chunk_span := 1\<rparr>) h) = Some (i, h\<lparr>blocks := m\<rparr>)"
    and "m i = Some c" "m e = Some d" "e \<noteq> i"
  shows "heap_free (s + sizeof_heap_block) h = Some (h\<lparr>blocks := m(i \<mapsto> c\<lparr>bnext := e\<rparr>, e \<mapsto> d\<lparr>bprev := i\<rparr>),
      free_chunks := free_chunks h + of_nat n, used_chunks := used_chunks h - of_nat n\<rparr>)"
  using assms by (simp add: heap_free_def block_at_def Let_def upd_block_modb) (simp add: modb_def)

lemma heap_free_inv:
  assumes "heap_inv h (us @ (n, False) # vs)"
  shows "\<exists>h'. heap_free (KERNEL_HEAP_START + 4096 * spans us + sizeof_heap_block) h = Some h'
    \<and> heap_inv h' (us @ replicate n (1, True) @ vs)"
proof -
  let ?s = "KERNEL_HEAP_START + 4096 * spans us" and ?pu = "last_addr 0 KERNEL_HEAP_START us"
  let ?e = "?s + 4096 * n"
  have t: "tiles (blocks h) 0 KERNEL_HEAP_START (us @ (n, False) # vs) 0" using assms by (simp add: heap_inv_def)
  have vs: "vs \<noteq> []" using assms by (auto simp: heap_inv_def split: if_splits)
  have tu: "tiles (blocks h) 0 KERNEL_HEAP_START us ?s" and tv: "tiles (blocks h) ?s ?e vs 0" and n: "0 < n"
    and "\<exists>b. blocks h ?s = Some b \<and> \<not> is_free b \<and> chunk_span b = n \<and> bprev b = ?pu \<and> bnext b = ?e"
    using t vs by (auto simp: tiles_append)
  then obtain b where b: "blocks h ?s = Some b" "chunk_span b = n" "bprev b = ?pu" "bnext b = ?e" by blast
  have s0: "0 < ?s" "0 < ?e" by (simp_all add: konst)
  define h1 where "h1 = modb ?s (\<lambda>b. b\<lparr>is_free := True, chunk_span := 1\<rparr>) h"
  define m where "m = split_blocks (n - 1) ?s (blocks h1)"
  have h1s: "blocks h1 ?s = Some (b\<lparr>is_free := True, chunk_span := 1\<rparr>)" using b by (simp add: h1_def)
  let ?i = "?s + 4096 * (n - 1)"
  have sl: "split_loop (n - 1) ?s h1 = Some (?i, h1\<lparr>blocks := m\<rparr>)"
    using split_loop_blocks [OF s0(1), of h1 "n - 1"] h1s by (simp add: m_def)
  obtain c where c: "m ?i = Some c"
      "tiles (m(?i \<mapsto> c\<lparr>bnext := ?e\<rparr>)) ?pu ?s (replicate (Suc (n - 1)) (1, True)) ?e"
    using split_tiles [where bl = "blocks h1" and a = ?s and p = ?pu and n = "n - 1" and e = ?e, OF h1s] b(3) by (auto simp: m_def)
  let ?m2 = "m(?i \<mapsto> c\<lparr>bnext := ?e\<rparr>)"
  have out: "?m2 x = blocks h x" if "x < ?s \<or> ?e \<le> x" for x
    using that n by (auto simp: m_def split_blocks_def h1_def)
  have "tiles ?m2 ?s ?e vs 0" using tv by (subst tiles_cong [where bl = "blocks h"]) (use out in auto)
  then obtain d where d: "?m2 ?e = Some d" "tiles (?m2(?e \<mapsto> d\<lparr>bprev := ?i\<rparr>)) ?i ?e vs 0"
    using tiles_set_prev vs by blast
  define bl where "bl = ?m2(?e \<mapsto> d\<lparr>bprev := ?i\<rparr>)"
  have ei: "?e \<noteq> ?i" using n by auto
  have m_e: "m ?e = Some d" using d(1) ei by simp
  let ?h' = "h\<lparr>blocks := bl, free_chunks := free_chunks h + of_nat n, used_chunks := used_chunks h - of_nat n\<rparr>"
  have "heap_free (?s + sizeof_heap_block) h = Some ?h'"
  proof -
    have "split_loop (n - 1) ?s (modb ?s (\<lambda>b. b\<lparr>is_free := True, chunk_span := 1\<rparr>) h) = Some (?i, h\<lparr>blocks := m\<rparr>)"
      using sl by (simp add: h1_def modb_def)
    note sp = this
    have i0: "0 < ?i" by (simp add: konst)
    show ?thesis unfolding bl_def by (rule heap_free_steps [OF s0 i0 b(1,2,4) sp c(1) m_e ei])
  qed
  moreover have la: "last_addr ?pu ?s (replicate n (1, True)) = ?i"
  proof -
    have "last_addr q a (replicate k (1, True)) = (if k = 0 then q else a + 4096 * (k - 1))" for q a k
    proof (induction k arbitrary: q a)
      case (Suc k)
      show ?case using Suc.IH [of a "a + 4096"] by (cases "k = 0") (auto simp: algebra_simps)
    qed simp
    with n show ?thesis by simp
  qed
  have "tiles bl 0 KERNEL_HEAP_START us ?s"
  proof -
    have "bl x = blocks h x" if "x < ?s" for x using out [of x] that by (auto simp: bl_def)
    then show ?thesis using tu by (subst tiles_cong [where bl = "blocks h"]) auto
  qed
  moreover have "tiles bl ?pu ?s (replicate n (1, True)) ?e"
    using c(2) n by (subst tiles_cong [where bl = ?m2]) (auto simp: bl_def)
  moreover have "tiles bl ?i ?e vs 0" using d(2) by (simp add: bl_def)
  ultimately have tl: "tiles bl 0 KERNEL_HEAP_START (us @ replicate n (1, True) @ vs) 0"
    using n vs la by (simp add: tiles_append)
  have sp: "length (filter snd (us @ (n, False) # vs)) + spans (filter (Not \<circ> snd) (us @ (n, False) # vs))
      = spans (us @ (n, False) # vs)" by (rule spans_split [OF tiles_free1 [OF t]])
  have nn: "unat (of_nat n :: u32) = n" using assms by (simp add: heap_inv_def unat_of_nat konst)
  have "n \<le> unat (used_chunks h)" using assms by (simp add: heap_inv_def)
  then have u: "unat (used_chunks h - of_nat n) = unat (used_chunks h) - n"
    by (subst unat_sub) (simp_all add: word_le_nat_alt nn)
  have f: "unat (free_chunks h + of_nat n) = unat (free_chunks h) + n"
    using assms sp by (subst unat_add_small) (auto simp: heap_inv_def nn konst)
  have "heap_inv ?h' (us @ replicate n (1, True) @ vs)"
    using assms tl u f vs by (auto simp: heap_inv_def filter_replicate)
  with \<open>heap_free (?s + sizeof_heap_block) h = Some ?h'\<close> show ?thesis by blast
qed

section \<open>Live allocations\<close>

text \<open>Address and length of every allocated span, in ascending order.\<close>

fun live_from :: "nat \<Rightarrow> seg list \<Rightarrow> (nat \<times> nat) list" where
  "live_from a [] = []"
| "live_from a ((k, f) # xs) = (if f then [] else [(a, 4096 * k)]) @ live_from (a + 4096 * k) xs"

abbreviation live :: "seg list \<Rightarrow> (nat \<times> nat) list" where "live \<equiv> live_from KERNEL_HEAP_START"

lemma live_append [simp]: "live_from a (xs @ ys) = live_from a xs @ live_from (a + 4096 * spans xs) ys"
  by (induction a xs rule: live_from.induct) (auto simp: algebra_simps)

lemma live_replicate [simp]: "live_from a (replicate n (k, True)) = []"
  by (induction n arbitrary: a) auto

lemma live_bounds: "(b, m) \<in> set (live_from a xs) \<Longrightarrow> a \<le> b \<and> b + m \<le> a + 4096 * spans xs"
  by (induction a xs rule: live_from.induct) (auto split: if_splits)

lemma live_disjoint: "sorted_wrt (\<lambda>(a, m) (b, n). a + m \<le> b) (live_from a xs)"
  by (induction a xs rule: live_from.induct) (auto dest: live_bounds)

lemma live_replicate_eq:
  "xs @ replicate k (1, True) = us @ replicate n (1, True) @ vs \<Longrightarrow>
   live xs = live us @ live_from (KERNEL_HEAP_START + 4096 * (spans us + n)) vs"
proof -
  assume e: "xs @ replicate k (1, True) = us @ replicate n (1, True) @ vs"
  have "live xs = live (xs @ replicate k (1, True))" by simp
  also have "\<dots> = live us @ live_from (KERNEL_HEAP_START + 4096 * (spans us + n)) vs"
    unfolding e by (simp add: algebra_simps)
  finally show ?thesis .
qed

text \<open>Data written inside an allocated span destroys no header of the list.\<close>

lemma write_data_inv:
  assumes "heap_inv h (us @ (n, False) # vs)" "p = KERNEL_HEAP_START + 4096 * spans us + sizeof_heap_block"
    and "length bs + sizeof_heap_block \<le> 4096 * n"
  shows "heap_inv (write_data p bs h) (us @ (n, False) # vs)"
proof -
  let ?s = "KERNEL_HEAP_START + 4096 * spans us" and ?bl = "blocks (write_data p bs h)"
  have vs: "vs \<noteq> []" using assms(1) by (auto simp: heap_inv_def split: if_splits)
  have t: "tiles (blocks h) 0 KERNEL_HEAP_START (us @ (n, False) # vs) 0" using assms(1) by (simp add: heap_inv_def)
  have same: "?bl x = blocks h x" if "x \<le> ?s \<or> ?s + 4096 * n \<le> x" for x
    using that assms(2,3) by (auto simp: write_data_def)
  have "tiles ?bl 0 KERNEL_HEAP_START us ?s = tiles (blocks h) 0 KERNEL_HEAP_START us ?s"
    by (rule tiles_cong) (use same in auto)
  moreover have "tiles ?bl ?s (?s + 4096 * n) vs 0 = tiles (blocks h) ?s (?s + 4096 * n) vs 0"
    by (rule tiles_cong) (use same in auto)
  moreover have "?bl ?s = blocks h ?s" by (rule same) simp
  ultimately have "tiles ?bl 0 KERNEL_HEAP_START (us @ (n, False) # vs) 0" using t vs by (simp add: tiles_append)
  moreover have "start_addr (write_data p bs h) = start_addr h" "next_addr (write_data p bs h) = next_addr h"
    "last_block (write_data p bs h) = last_block h" "free_chunks (write_data p bs h) = free_chunks h"
    "used_chunks (write_data p bs h) = used_chunks h" "kpfa (write_data p bs h) = kpfa h"
    by (simp_all add: write_data_def)
  ultimately show ?thesis using assms(1) unfolding heap_inv_def by simp
qed

section \<open>Concrete states\<close>

text \<open>The heap after \<open>heap_init\<close>, with every frame but frame 0 free, and after it has grown.\<close>

definition kheap0 :: kheap where
  "kheap0 = heap_init \<lparr>start_addr = 0, next_addr = 0, end_addr = 0, last_block = 0, used_chunks = 0, free_chunks = 0,
     blocks = Map.empty, kdata = (\<lambda>_. 0), kpfa = \<lparr>frames_bitmap = 1 # replicate 31 0\<rparr>, kdir = replicate 1024 0\<rparr>"

lemma kheap0_frames: "pfa_inv (kpfa kheap0)" "0 \<notin> free_frames (kpfa kheap0)" "9 \<le> card (free_frames (kpfa kheap0))"
proof -
  show i: "pfa_inv (kpfa kheap0)" by (simp add: kheap0_def heap_init_def pfa_inv_def konst)
  have b: "frames_bitmap (kpfa kheap0) = 1 # replicate 31 0" by (simp add: kheap0_def heap_init_def)
  show "0 \<notin> free_frames (kpfa kheap0)"
    using pfa_test_bit [OF i, of 0] by (simp add: free_frames_def b konst)
  have "pfa_test (kpfa kheap0) (of_nat f) = Some False" if "f \<in> {1..9}" for f
    using that pfa_test_bit [OF i, of f] by (simp add: b konst bit_1_iff)
  then have "{1..9} \<subseteq> free_frames (kpfa kheap0)" by (auto simp: free_frames_def konst)
  from card_mono [OF finite_frames(2) this] show "9 \<le> card (free_frames (kpfa kheap0))" by simp
qed

lemma kheap0_inv: "heap_inv kheap0 []"
  using kheap0_frames by (simp add: heap_inv_def) (simp add: kheap0_def heap_init_def konst)

lemma kheap0_grown:
  "n \<le> 7 \<Longrightarrow> heap_inv ((grown_heap ^^ n) kheap0) (replicate (1024 * n) (1, True))
     \<and> 9 - n \<le> card (free_frames (kpfa ((grown_heap ^^ n) kheap0)))"
proof (induction n)
  case 0
  then show ?case using kheap0_inv kheap0_frames by simp
next
  case (Suc n)
  let ?h = "(grown_heap ^^ n) kheap0"
  have i: "heap_inv ?h (replicate (1024 * n) (1, True))" and c: "9 - n \<le> card (free_frames (kpfa ?h))"
    using Suc by auto
  then have "free_frames (kpfa ?h) \<noteq> {}" "next_addr ?h + 0x400000 < 2 ^ 32"
    using Suc.prems by (auto simp: heap_inv_def konst)
  note gr = heap_inv_grow [OF i this]
  have "replicate (1024 * n) (1 :: nat, True) @ replicate 1024 (1, True) = replicate (1024 * Suc n) (1, True)"
    by (simp add: replicate_add [symmetric] add.commute)
  with gr(2) have "heap_inv ((grown_heap ^^ Suc n) kheap0) (replicate (1024 * Suc n) (1, True))" by (simp only: funpow.simps comp_apply)
  moreover have "9 - Suc n \<le> card (free_frames (kpfa ((grown_heap ^^ Suc n) kheap0)))" using gr(3) c by simp
  ultimately show ?case by blast
qed

section \<open>Properties\<close>

text \<open>C6: \<open>kmalloc\<close>. A request that passes the size test is served by the first run of enough 4 KiB chunks, growing
  the heap by whole pages when there is none (nine free frames always suffice): the result points behind the header
  of a new span that holds the requested bytes, all spans are pairwise disjoint, and the earlier spans are untouched.\<close>

theorem kmalloc_allocates:
  assumes "heap_inv h xs" "9 \<le> card (free_frames (kpfa h))" "next_addr h + sz + sizeof_heap_block \<le> KERNEL_HEAP_MAX"
  shows "\<exists>s h' ys as bs len. kmalloc sz h = Some (s + sizeof_heap_block, h') \<and> heap_inv h' ys
    \<and> live xs = as @ bs \<and> live ys = as @ (s, len) # bs \<and> sizeof_heap_block + sz \<le> len
    \<and> sorted_wrt (\<lambda>(a, m) (b, n). a + m \<le> b) (live ys)
    \<and> (\<forall>(a, m) \<in> set (live ys). KERNEL_HEAP_START \<le> a \<and> a + m \<le> next_addr h')"
proof -
  define t where "t = (sz + sizeof_heap_block) mod 2 ^ 32"
  have t: "t = sz + sizeof_heap_block" "0 < t" "next_addr h + t \<le> KERNEL_HEAP_MAX"
    using assms(3) by (simp_all add: t_def konst)
  define n where "n = (t + 4095) div 4096"
  obtain us vs j h' where r: "heap_malloc sz h = Some (KERNEL_HEAP_START + 4096 * spans us + sizeof_heap_block, h')"
      "xs @ replicate (1024 * j) (1, True) = us @ replicate n (1, True) @ vs" "heap_inv h' (us @ (n, False) # vs)"
    using heap_malloc_ok [OF assms(1,2) t_def t(2,3) n_def] by blast
  let ?ys = "us @ (n, False) # vs" and ?s = "KERNEL_HEAP_START + 4096 * spans us"
  have "sizeof_heap_block + sz \<le> 4096 * n" unfolding n_def t(1) by simp
  moreover have "live ?ys = live us @ (?s, 4096 * n) # live_from (KERNEL_HEAP_START + 4096 * (spans us + n)) vs"
    by (simp add: algebra_simps)
  moreover have "next_addr h' = KERNEL_HEAP_START + 4096 * spans ?ys" using r(3) by (simp add: heap_inv_def)
  then have "\<forall>(a, m) \<in> set (live ?ys). KERNEL_HEAP_START \<le> a \<and> a + m \<le> next_addr h'"
    using live_bounds [of _ _ KERNEL_HEAP_START ?ys] by auto
  ultimately show ?thesis
    using r(1,3) live_replicate_eq [OF r(2)] live_disjoint unfolding kmalloc_def by blast
qed

theorem kmalloc_allocates_witness:
  "\<exists>s h' ys. kmalloc 100 kheap0 = Some (s + sizeof_heap_block, h') \<and> heap_inv h' ys \<and> length (live ys) = 1"
proof -
  have b: "next_addr kheap0 + 100 + sizeof_heap_block \<le> KERNEL_HEAP_MAX" by (simp add: kheap0_def heap_init_def konst)
  have "\<exists>s h' ys as bs len. kmalloc 100 kheap0 = Some (s + sizeof_heap_block, h') \<and> heap_inv h' ys
      \<and> live [] = as @ bs \<and> live ys = as @ (s, len) # bs"
    using kmalloc_allocates [OF kheap0_inv kheap0_frames(3) b] by blast
  then obtain s h' ys len where "kmalloc 100 kheap0 = Some (s + sizeof_heap_block, h')" "heap_inv h' ys" "live ys = [(s, len)]"
    by auto
  moreover from this(3) have "length (live ys) = 1" by simp
  ultimately show ?thesis by blast
qed

text \<open>C7: \<open>kfree\<close> of what \<open>kmalloc\<close> returned gives back exactly the chunks of that allocation: the list of segments is the
  one before the allocation, followed by the free chunks of the pages the heap grew by, whatever the client wrote
  into its bytes in between.\<close>

theorem kmalloc_kfree_roundtrip:
  assumes "heap_inv h xs" "9 \<le> card (free_frames (kpfa h))" "next_addr h + length bs + sizeof_heap_block \<le> KERNEL_HEAP_MAX"
  shows "\<exists>p h1 h2 j. kmalloc (length bs) h = Some (p, h1) \<and> kfree p (write_data p bs h1) = Some h2
    \<and> heap_inv h2 (xs @ replicate (1024 * j) (1, True))"
proof -
  define t where "t = (length bs + sizeof_heap_block) mod 2 ^ 32"
  have t: "t = length bs + sizeof_heap_block" "0 < t" "next_addr h + t \<le> KERNEL_HEAP_MAX"
    using assms(3) by (simp_all add: t_def konst)
  define n where "n = (t + 4095) div 4096"
  obtain us vs j h1 where r: "heap_malloc (length bs) h = Some (KERNEL_HEAP_START + 4096 * spans us + sizeof_heap_block, h1)"
      "xs @ replicate (1024 * j) (1, True) = us @ replicate n (1, True) @ vs" "heap_inv h1 (us @ (n, False) # vs)"
    using heap_malloc_ok [OF assms(1,2) t_def t(2,3) n_def] by blast
  let ?p = "KERNEL_HEAP_START + 4096 * spans us + sizeof_heap_block"
  have "length bs + sizeof_heap_block \<le> 4096 * n" unfolding n_def t(1) by simp
  from heap_free_inv [OF write_data_inv [OF r(3) refl this]] obtain h2 where
      "heap_free ?p (write_data ?p bs h1) = Some h2" "heap_inv h2 (us @ replicate n (1, True) @ vs)" by blast
  moreover have "kfree ?p (write_data ?p bs h1) = heap_free ?p (write_data ?p bs h1)"
    by (simp add: kfree_def konst)
  ultimately show ?thesis using r(1,2) unfolding kmalloc_def by metis
qed

theorem kmalloc_kfree_roundtrip_witness:
  "\<exists>p h1 h2 j. kmalloc 3 kheap0 = Some (p, h1) \<and> kfree p (write_data p [1, 2, 3] h1) = Some h2
     \<and> heap_inv h2 (replicate (1024 * j) (1, True))"
proof -
  have b: "next_addr kheap0 + length [1, 2, 3 :: u8] + sizeof_heap_block \<le> KERNEL_HEAP_MAX"
    by (simp add: kheap0_def heap_init_def konst)
  have "length [1, 2, 3 :: u8] = 3" by simp
  with kmalloc_kfree_roundtrip [OF kheap0_inv kheap0_frames(3) b] show ?thesis by (metis append_Nil)
qed

text \<open>the size test of \<open>_malloc\<close> looks at the end of the heap and not at the free chunks. Once seven pages are mapped
  every request fails, even when all chunks are free.\<close>

theorem kmalloc_fails_at_limit:
  assumes "heap_inv h xs" "7168 \<le> spans xs" "next_addr h + sz + sizeof_heap_block < 2 ^ 32"
  shows "kmalloc sz h = Some (0, h)"
  using assms by (auto simp: kmalloc_def heap_malloc_def Let_def heap_inv_def konst)

theorem kmalloc_fails_at_limit_witness:
  "kmalloc 100 ((grown_heap ^^ 7) kheap0) = Some (0, (grown_heap ^^ 7) kheap0)
   \<and> unat (free_chunks ((grown_heap ^^ 7) kheap0)) = 7168"
proof -
  have i: "heap_inv ((grown_heap ^^ 7) kheap0) (replicate 7168 (1, True))" using kheap0_grown [of 7] by simp
  have s: "7168 \<le> spans (replicate 7168 (1, True))" by (simp only: spans_simps)
  have b: "next_addr ((grown_heap ^^ 7) kheap0) + 100 + sizeof_heap_block < 2 ^ 32"
    using i unfolding heap_inv_def spans_simps by (simp add: konst)
  have "length (filter snd (replicate 7168 (1, True))) = 7168" by (simp only: filter_replicate) simp
  then have "unat (free_chunks ((grown_heap ^^ 7) kheap0)) = 7168" using i unfolding heap_inv_def by simp
  with kmalloc_fails_at_limit [OF i s b] show ?thesis by simp
qed

text \<open>The sum of the size and the header wraps. A request for almost 4 GiB is granted a single chunk of 4 KiB.\<close>

theorem kmalloc_size_wraps:
  assumes "heap_inv h xs" "9 \<le> card (free_frames (kpfa h))" "next_addr h + 20 \<le> KERNEL_HEAP_MAX"
    and "2 ^ 32 - 20 < sz" "sz < 2 ^ 32"
  shows "\<exists>s h' ys. kmalloc sz h = Some (s + sizeof_heap_block, h') \<and> heap_inv h' ys \<and> (s, 4096) \<in> set (live ys)"
proof -
  define t where "t = (sz + sizeof_heap_block) mod 2 ^ 32"
  have "t = sz + 20 - 2 ^ 32" using assms(4,5) unfolding t_def by (simp add: konst mod_if)
  then have t: "0 < t" "t < 20" "next_addr h + t \<le> KERNEL_HEAP_MAX" using assms(3-5) by auto
  have n: "1 = (t + 4095) div 4096" using t by auto
  obtain us vs j h' where "heap_malloc sz h = Some (KERNEL_HEAP_START + 4096 * spans us + sizeof_heap_block, h')"
      "heap_inv h' (us @ (1, False) # vs)"
    using heap_malloc_ok [OF assms(1,2) t_def t(1,3) n] by blast
  moreover have "(KERNEL_HEAP_START + 4096 * spans us, 4096) \<in> set (live (us @ (1, False) # vs))" by simp
  ultimately show ?thesis unfolding kmalloc_def by blast
qed

theorem kmalloc_size_wraps_witness:
  "\<exists>s h' ys. kmalloc 0xFFFFFFFF kheap0 = Some (s + sizeof_heap_block, h') \<and> (s, 4096) \<in> set (live ys)"
proof -
  have b: "next_addr kheap0 + 20 \<le> KERNEL_HEAP_MAX" by (simp add: kheap0_def heap_init_def konst)
  show ?thesis using kmalloc_size_wraps [OF kheap0_inv kheap0_frames(3) b, of "0xFFFFFFFF"] by auto
qed

end
