(* ===== verification/Fat16_File.thy ===== *)
theory Fat16_File
  imports Fat16 Kheap_Inv
begin

text \<open>
  Correctness of the FAT16 file operations: where the parts of a volume lie, what a file's bytes are, and that reading and
  overwriting a file through its cluster chain returns and changes exactly those bytes.
\<close>

section \<open>Layout of a volume\<close>

text \<open>The first data sector, the position and the size of a cluster, as numbers.\<close>

definition fds :: "bpb \<Rightarrow> nat" where
  "fds p = unat (rsvd_sec p) + 2 * unat (fatsz16 p) + (unat (root_ent_cnt p) * 32 + 511) div 512"

definition csize :: "bpb \<Rightarrow> nat" where
  "csize p = 512 * unat (sec_per_clus p)"

definition cpos :: "bpb \<Rightarrow> u16 \<Rightarrow> nat" where
  "cpos p c = 0x100000 + 512 * fds p + (unat c - 2) * csize p"

text \<open>A volume of \<open>n\<close> clusters: a boot sector as \<open>fat16_resolve\<close> accepts it, with a table that has an entry for every
  cluster, clusters of less than 64 KiB, and an end below 4 GiB.\<close>

definition volume :: "bpb \<Rightarrow> nat \<Rightarrow> bool" where [invs]:
  "volume p n \<longleftrightarrow> byts_per_sec p = 512 \<and> num_fats p = 2 \<and> 1 \<le> unat (sec_per_clus p) \<and> unat (sec_per_clus p) < 128
     \<and> 2 * (n + 2) \<le> 512 * unat (fatsz16 p) \<and> 0x100000 + 512 * fds p + n * csize p < 2 ^ 32"

definition valid_cluster :: "nat \<Rightarrow> u16 \<Rightarrow> bool" where
  "valid_cluster n c \<longleftrightarrow> 2 \<le> unat c \<and> unat c < n + 2"

lemma first_data_sector_nat:
  assumes "volume p n"
  shows "unat (first_data_sector p) = fds p" "fds p < 2 ^ 23"
proof -
  have b: "unat (rsvd_sec p) < 2 ^ 16" "unat (fatsz16 p) < 2 ^ 16" "unat (root_ent_cnt p) < 2 ^ 16"
    using unat_bound [of "rsvd_sec p"] unat_bound [of "fatsz16 p"] unat_bound [of "root_ent_cnt p"] by simp_all
  have m: "ucast (byts_per_sec p) = (512 :: u32)" "ucast (num_fats p) = (2 :: u32)" using assms by (simp_all add: volume_def)
  have "unat (ucast (root_ent_cnt p) * 32 + 512 - 1 :: u32) = unat (root_ent_cnt p) * 32 + 511"
  proof -
    have "ucast (root_ent_cnt p) * 32 + 512 - 1 = (of_nat (unat (root_ent_cnt p) * 32 + 511) :: u32)"
      by (simp add: ucast_of_nat del: of_nat_unat)
    then show ?thesis using b(3) by (simp only: unat_of_nat) simp
  qed
  then have r: "unat (root_dir_sectors p) = (unat (root_ent_cnt p) * 32 + 511) div 512"
    by (simp add: root_dir_sectors_def m unat_div)
  have "(unat (root_ent_cnt p) * 32 + 511) div 512 < 2 ^ 13" using b(3) by (simp add: less_mult_imp_div_less)
  then show "unat (first_data_sector p) = fds p" "fds p < 2 ^ 23"
    using b unfolding first_data_sector_def fds_def m
    by (simp_all add: unat_word_ariths r unat_ucast_wide)
qed

lemma cluster_size_nat:
  assumes "volume p n"
  shows "unat (max_cluster_size_bytes p) = csize p" "0 < csize p" "csize p < 2 ^ 16" "csize p mod 512 = 0"
proof -
  have "unat (ucast (sec_per_clus p) :: u16) = unat (sec_per_clus p)" by (simp add: unat_ucast_wide)
  then show "unat (max_cluster_size_bytes p) = csize p" "0 < csize p" "csize p < 2 ^ 16" "csize p mod 512 = 0"
    using assms by (simp_all add: max_cluster_size_bytes_def csize_def volume_def unat_word_ariths)
qed

lemma cluster_pos_nat:
  assumes v: "volume p n" and c: "valid_cluster n c"
  shows "unat (cluster_pos p (ucast c)) = cpos p c" "cpos p c + csize p < 2 ^ 32" "cpos p c mod 512 = 0"
proof -
  have "unat c - 1 \<le> n" using c by (auto simp: valid_cluster_def)
  then have "(unat c - 1) * csize p \<le> n * csize p" by (rule mult_le_mono1)
  moreover have "(unat c - 1) * csize p = (unat c - 2) * csize p + csize p"
  proof -
    have "2 \<le> unat c" using c by (simp add: valid_cluster_def)
    then have "unat c - 1 = Suc (unat c - 2)" by arith
    then show ?thesis by simp
  qed
  moreover have "0x100000 + 512 * fds p + n * csize p < 2 ^ 32" using v by (simp add: volume_def)
  ultimately show b: "cpos p c + csize p < 2 ^ 32" unfolding cpos_def by linarith
  show "cpos p c mod 512 = 0" by (simp add: cpos_def csize_def mod_add_eq [symmetric] mod_mult_left_eq)
  have m: "ucast (byts_per_sec p) = (512 :: u32)" using v by (simp add: volume_def)
  have s: "ucast c - 2 = (of_nat (unat c - 2) :: u32)" using c by (simp add: valid_cluster_def of_nat_diff)
  have a: "PARTITION_OFFSET + (of_nat F + of_nat x * ucast w) * 512 = (of_nat (0x100000 + 512 * F + x * (512 * unat w)) :: u32)"
    for F x and w :: u8 by (simp add: konst algebra_simps)
  have f: "first_data_sector p = of_nat (fds p)" using first_data_sector_nat(1) [OF v] by (metis of_nat_unat ucast_id)
  have "cluster_pos p (ucast c) = of_nat (cpos p c)"
    unfolding cluster_pos_def fat16_get_sector_from_cluster_def m s f cpos_def csize_def by (rule a)
  moreover have "cpos p c < 2 ^ 32" using b by simp
  ultimately show "unat (cluster_pos p (ucast c)) = cpos p c" by (simp only: unat_of_nat) simp
qed

text \<open>The clusters do not overlap each other or the table.\<close>

lemma cpos_apart: "unat c < unat d \<Longrightarrow> 2 \<le> unat c \<Longrightarrow> cpos p c + csize p \<le> cpos p d"
proof -
  assume "unat c < unat d" "2 \<le> unat c"
  then have "Suc (unat c - 2) \<le> unat d - 2" by arith
  then have "Suc (unat c - 2) * csize p \<le> (unat d - 2) * csize p" by (rule mult_le_mono1)
  then show ?thesis by (simp add: cpos_def)
qed

lemma clusters_disjoint:
  assumes "valid_cluster n c" "valid_cluster n d" "c \<noteq> d"
  shows "cpos p c + csize p \<le> cpos p d \<or> cpos p d + csize p \<le> cpos p c"
proof -
  have "unat c \<noteq> unat d" using assms(3) by (simp add: word_eq_iff_unsigned [where 'a = nat])
  then consider "unat c < unat d" | "unat d < unat c" by linarith
  then show ?thesis using cpos_apart [of c d p] cpos_apart [of d c p] assms(1,2) by cases (auto simp: valid_cluster_def)
qed

lemma table_before_data:
  assumes "volume p n" "valid_cluster n c"
  shows "fat_pos p c + 2 \<le> 0x100000 + 512 * (unat (rsvd_sec p) + unat (fatsz16 p))"
    "0x100000 + 512 * fds p \<le> cpos p d" "fat_pos p c + 2 \<le> cpos p d"
  using assms by (auto simp: volume_def valid_cluster_def fat_pos_def fds_def cpos_def)

section \<open>The bytes of a chain\<close>

definition cluster_bytes :: "bpb \<Rightarrow> (nat \<Rightarrow> u8) \<Rightarrow> u16 \<Rightarrow> u8 list" where
  "cluster_bytes p D c = bytes_at D (cpos p c) (csize p)"

definition chain_bytes :: "bpb \<Rightarrow> (nat \<Rightarrow> u8) \<Rightarrow> u16 list \<Rightarrow> u8 list" where
  "chain_bytes p D cs = concat (map (cluster_bytes p D) cs)"

lemma chain_bytes_simps [simp]:
  "chain_bytes p D [] = []" "chain_bytes p D (c # cs) = cluster_bytes p D c @ chain_bytes p D cs"
  by (simp_all add: chain_bytes_def)

lemma length_cluster_bytes [simp]: "length (cluster_bytes p D c) = csize p"
  by (simp add: cluster_bytes_def)

lemma length_chain_bytes: "length (chain_bytes p D cs) = length cs * csize p"
  by (induction cs) auto

lemma is_chain_cong: "(\<And>c. c \<in> set cs \<Longrightarrow> F c = G c) \<Longrightarrow> is_chain F cs = is_chain G cs"
  by (induction F cs rule: is_chain.induct) auto

text \<open>Writing inside one cluster changes neither the other clusters nor the table.\<close>

lemma put_in_cluster:
  assumes "volume p n" "valid_cluster n c" "length bs \<le> csize p"
  shows "valid_cluster n d \<Longrightarrow> d \<noteq> c \<Longrightarrow> cluster_bytes p (put_bytes (cpos p c) bs D) d = cluster_bytes p D d"
    "valid_cluster n d \<Longrightarrow> fat_of p (put_bytes (cpos p c) bs D) d = fat_of p D d"
    "cluster_bytes p (put_bytes (cpos p c) bs D) c = bs @ drop (length bs) (cluster_bytes p D c)"
proof -
  show "valid_cluster n d \<Longrightarrow> d \<noteq> c \<Longrightarrow> cluster_bytes p (put_bytes (cpos p c) bs D) d = cluster_bytes p D d"
    unfolding cluster_bytes_def using clusters_disjoint [of n d c p] assms by (intro bytes_at_put_other) auto
  show "valid_cluster n d \<Longrightarrow> fat_of p (put_bytes (cpos p c) bs D) d = fat_of p D d"
    using table_before_data(3) [OF assms(1), of d c] by (simp add: fat_of_def put_bytes_def)
  show "cluster_bytes p (put_bytes (cpos p c) bs D) c = bs @ drop (length bs) (cluster_bytes p D c)"
    using assms(3) by (intro nth_equalityI) (auto simp: cluster_bytes_def put_bytes_def nth_append)
qed

text \<open>Outside the clusters of a chain the disk is the same.\<close>

definition same_outside :: "bpb \<Rightarrow> u16 list \<Rightarrow> (nat \<Rightarrow> u8) \<Rightarrow> (nat \<Rightarrow> u8) \<Rightarrow> bool" where
  "same_outside p cs D D' \<longleftrightarrow> (\<forall>a. (\<forall>c \<in> set cs. a < cpos p c \<or> cpos p c + csize p \<le> a) \<longrightarrow> D' a = D a)"

context ata_device
begin

lemma stream_read_cluster:
  assumes "ready s" "volume (bpb_of s) n" "valid_cluster n c" "sdev ds = AtaDev" "unat k \<le> csize (bpb_of s)"
  obtains s' ds' where "stream_read b True k (stream_seek ds (cluster_pos (bpb_of s) (ucast c))) s
      = Some (0, take (unat k) (cluster_bytes (bpb_of s) (disk s) c), ds', s')" "quiet s s'" "sdev ds' = AtaDev"
proof -
  let ?st = "stream_seek ds (cluster_pos (bpb_of s) (ucast c))"
  note c = cluster_pos_nat [OF assms(2,3)]
  have p: "unat (spos ?st) = cpos (bpb_of s) c" "sdev ?st = AtaDev" using c(1) assms(4) by (simp_all add: stream_seek_def)
  have "take (unat k) (cluster_bytes (bpb_of s) (disk s) c) = bytes_at (disk s) (cpos (bpb_of s) c) (unat k)"
    using take_drop_bytes_at [of 0 "unat k" "csize (bpb_of s)" "disk s" "cpos (bpb_of s) c"] assms(5)
    by (simp add: cluster_bytes_def)
  with stream_read_ok [OF assms(1) p(2), of k] p c assms(5) that show thesis by (fastforce simp: fits_def)
qed

text \<open>One turn of the read loop: as much of the cluster as is wanted, and the table entry behind it.\<close>

lemma read_turn:
  assumes "ready s" "volume (bpb_of s) n" "valid_cluster n c" "sdev ds = AtaDev" "sdev fs = AtaDev"
    and "m = (if k < ucast (max_cluster_size_bytes (bpb_of s)) then k else ucast (max_cluster_size_bytes (bpb_of s)))"
  obtains s1 ds1 s2 fs1 where
    "stream_read b True m (stream_seek ds (cluster_pos (bpb_of s) (ucast c))) s
      = Some (0, take (unat k) (cluster_bytes (bpb_of s) (disk s) c), ds1, s1)"
    "fat16_get_next_cluster b fs PARTITION_OFFSET c s1 = Some (fat s c, fs1, s2)" "quiet s s2" "sdev ds1 = AtaDev" "sdev fs1 = AtaDev"
    "unat m = min (unat k) (csize (bpb_of s))" "m = of_nat (min (unat k) (csize (bpb_of s)))"
proof -
  let ?p = "bpb_of s"
  have "unat (ucast (max_cluster_size_bytes ?p) :: u32) = csize ?p"
    using cluster_size_nat(1) [OF assms(2)] by (simp add: unat_ucast_wide)
  then have m: "unat m = min (unat k) (csize ?p)" using assms(6) by (auto simp: word_less_nat_alt)
  then have m': "m = of_nat (min (unat k) (csize ?p))" by (metis of_nat_unat ucast_id)
  have le: "unat m \<le> csize ?p" by (simp add: m)
  obtain s1 ds1 where s1: "stream_read b True m (stream_seek ds (cluster_pos ?p (ucast c))) s
      = Some (0, take (unat m) (cluster_bytes ?p (disk s) c), ds1, s1)" "quiet s s1" "sdev ds1 = AtaDev"
    by (rule stream_read_cluster [OF assms(1-4) le])
  have r: "ready s1" "byts_per_sec (bpb_of s1) = 512" "fat s1 = fat s"
    using s1(2) assms(2) by (simp_all add: quiet_ready quiet_header quiet_disk volume_def)
  from get_next_cluster_ok [OF r(1,2) assms(5), of c] obtain fs1 s2 where
    s2: "fat16_get_next_cluster b fs PARTITION_OFFSET c s1 = Some (fat s c, fs1, s2)" "quiet s1 s2" "sdev fs1 = AtaDev"
    by (auto simp: r(3))
  have "take (unat m) (cluster_bytes ?p (disk s) c) = take (unat k) (cluster_bytes ?p (disk s) c)"
    unfolding m by (cases "unat k \<le> csize ?p") (simp_all add: min_def)
  with that s1 s2 m m' quiet_trans [OF s1(2) s2(2)] show thesis by metis
qed

lemma fat_read_loop_ok:
  "ready s \<Longrightarrow> volume (bpb_of s) n \<Longrightarrow> list_all (valid_cluster n) (c # cs) \<Longrightarrow> is_chain (fat s) (c # cs) \<Longrightarrow>
   sdev ds = AtaDev \<Longrightarrow> sdev fs = AtaDev \<Longrightarrow>
   \<exists>s'. fat_read_loop b True ds fs c 0 k acc s
      = Some (acc + of_nat (min (unat k) (length (c # cs) * csize (bpb_of s))),
              take (unat k) (chain_bytes (bpb_of s) (disk s) (c # cs)), s') \<and> quiet s s'"
proof (induction cs arbitrary: c ds fs k acc s)
  case Nil
  show ?case
  proof (cases "k = 0")
    case True
    then show ?thesis using Nil.prems(1) by (subst fat_read_loop.simps) (simp add: quiet_refl)
  next
    case False
    have "valid_cluster n c" using Nil.prems(3) by simp
    from read_turn [OF Nil.prems(1,2) this Nil.prems(5,6) refl, of k] obtain s1 ds1 s2 fs1 where
      "stream_read b True (if k < ucast (max_cluster_size_bytes (bpb_of s)) then k else ucast (max_cluster_size_bytes (bpb_of s)))
         (stream_seek ds (cluster_pos (bpb_of s) (ucast c))) s
        = Some (0, take (unat k) (cluster_bytes (bpb_of s) (disk s) c), ds1, s1)"
      "fat16_get_next_cluster b fs PARTITION_OFFSET c s1 = Some (fat s c, fs1, s2)" "quiet s s2"
      "(if k < ucast (max_cluster_size_bytes (bpb_of s)) then k else ucast (max_cluster_size_bytes (bpb_of s)))
        = of_nat (min (unat k) (csize (bpb_of s)))" by metis
    then show ?thesis using False Nil.prems(4) by (subst fat_read_loop.simps) (simp add: Let_def)
  qed
next
  case (Cons d cs)
  let ?p = "bpb_of s" and ?mx = "ucast (max_cluster_size_bytes (bpb_of s)) :: u32"
  define m where "m = (if k < ?mx then k else ?mx)"
  show ?case
  proof (cases "k = 0")
    case True
    then show ?thesis using Cons.prems(1) by (subst fat_read_loop.simps) (simp add: quiet_refl)
  next
    case False
    have "valid_cluster n c" using Cons.prems(3) by simp
    from read_turn [OF Cons.prems(1,2) this Cons.prems(5,6) m_def] obtain s1 ds1 s2 fs1 where
      r: "stream_read b True m (stream_seek ds (cluster_pos ?p (ucast c))) s
        = Some (0, take (unat k) (cluster_bytes ?p (disk s) c), ds1, s1)"
      "fat16_get_next_cluster b fs PARTITION_OFFSET c s1 = Some (fat s c, fs1, s2)" "quiet s s2" "sdev ds1 = AtaDev" "sdev fs1 = AtaDev"
      "unat m = min (unat k) (csize ?p)" "m = of_nat (min (unat k) (csize ?p))" by metis
    have d: "fat s c = d" "\<not> FAT16_VALUE_END_OF_CHAIN \<le> d" "is_chain (fat s) (d # cs)"
      using Cons.prems(4) by (simp_all add: not_le)
    have k2: "unat (k - m) = unat k - csize ?p" using r(6) by (simp add: unat_sub word_le_nat_alt)
    from Cons.IH [of s2 d ds1 fs1 "k - m" "acc + m"] r(3-5) d(3) Cons.prems(2,3) obtain s3 where
      s3: "fat_read_loop b True ds1 fs1 d 0 (k - m) (acc + m) s2
        = Some (acc + m + of_nat (min (unat (k - m)) (length (d # cs) * csize ?p)),
            take (unat (k - m)) (chain_bytes ?p (disk s) (d # cs)), s3)" "quiet s2 s3"
      by (auto simp: quiet_ready quiet_header quiet_disk)
    have t: "take (unat k) (cluster_bytes ?p (disk s) c) @ take (unat (k - m)) (chain_bytes ?p (disk s) (d # cs))
        = take (unat k) (chain_bytes ?p (disk s) (c # d # cs))" by (simp add: k2)
    have "min (unat k) (csize ?p) + min (unat (k - m)) (length (d # cs) * csize ?p)
        = min (unat k) (length (c # d # cs) * csize ?p)" unfolding k2 by (simp add: min_split)
    then have a: "acc + m + of_nat (min (unat (k - m)) (length (d # cs) * csize ?p))
        = acc + of_nat (min (unat k) (length (c # d # cs) * csize ?p))" using r(7) by (metis (no_types, lifting) add.assoc of_nat_add)
    have "fat_read_loop b True ds fs c 0 k acc s
        = Some (acc + of_nat (min (unat k) (length (c # d # cs) * csize ?p)),
            take (unat k) (chain_bytes ?p (disk s) (c # d # cs)), s3)"
      unfolding t [symmetric] a [symmetric]
      using r(1,2) s3(1) False d(1,2) by (subst fat_read_loop.simps) (simp add: Let_def m_def)
    with quiet_trans [OF r(3) s3(2)] show ?thesis by blast
  qed
qed

lemma stream_write_cluster:
  assumes "ready s" "volume (bpb_of s) n" "valid_cluster n c" "sdev ds = AtaDev" "unat k \<le> csize (bpb_of s)" "unat k \<le> length bs"
  obtains s' ds' where "stream_write b (Some bs) k (stream_seek ds (cluster_pos (bpb_of s) (ucast c))) s = Some (0, ds', s')"
    "framed s s'" "disk s' = put_bytes (cpos (bpb_of s) c) (take (unat k) bs) (disk s)" "sdev ds' = AtaDev"
proof -
  let ?st = "stream_seek ds (cluster_pos (bpb_of s) (ucast c))"
  note c = cluster_pos_nat [OF assms(2,3)]
  have p: "unat (spos ?st) = cpos (bpb_of s) c" "sdev ?st = AtaDev" using c(1) assms(4) by (simp_all add: stream_seek_def)
  with stream_write_ok [OF assms(1) p(2), of k bs] c assms(5,6) that show thesis by (fastforce simp: fits_def)
qed

lemma write_first_cluster:
  assumes "ready s" "volume (bpb_of s) n" "list_all (valid_cluster n) (c # cs)" "is_chain (fat s) (c # cs)" "sdev ds = AtaDev"
    and "unat k \<le> csize (bpb_of s)" "unat k \<le> length bs"
  obtains s1 ds1 where
    "stream_write b (Some bs) k (stream_seek ds (cluster_pos (bpb_of s) (ucast c))) s = Some (0, ds1, s1)"
    "framed s s1" "bpb_of s1 = bpb_of s" "sdev ds1 = AtaDev" "is_chain (fat s1) (c # cs)" "same_outside (bpb_of s) [c] (disk s) (disk s1)"
    "cluster_bytes (bpb_of s) (disk s1) c = take (unat k) bs @ drop (unat k) (cluster_bytes (bpb_of s) (disk s) c)"
    "chain_bytes (bpb_of s) (disk s1) cs = chain_bytes (bpb_of s) (disk s) cs"
proof -
  let ?p = "bpb_of s"
  have vc: "valid_cluster n c" using assms(3) by simp
  obtain s1 ds1 where w: "stream_write b (Some bs) k (stream_seek ds (cluster_pos ?p (ucast c))) s = Some (0, ds1, s1)"
    "framed s s1" "disk s1 = put_bytes (cpos ?p c) (take (unat k) bs) (disk s)" "sdev ds1 = AtaDev"
    by (rule stream_write_cluster [OF assms(1,2) vc assms(5-7)])
  have l: "length (take (unat k) bs) \<le> csize ?p" using assms(6) by simp
  note put = put_in_cluster [OF assms(2) vc l, where D = "disk s"]
  have h: "bpb_of s1 = ?p" using framed_header [OF w(2)] by simp
  have ch: "is_chain (fat s1) (c # cs)"
    using assms(3,4) put(2) by (subst is_chain_cong [where G = "fat s"]) (auto simp: h w(3) list_all_iff)
  have so: "same_outside ?p [c] (disk s) (disk s1)" using l by (auto simp: same_outside_def w(3) put_bytes_def)
  have "cluster_bytes ?p (disk s1) c = take (unat k) bs @ drop (unat k) (cluster_bytes ?p (disk s) c)"
    using put(3) assms(7) by (simp add: w(3) min_def)
  moreover have "cluster_bytes ?p (disk s1) d = cluster_bytes ?p (disk s) d" if "d \<in> set cs" for d
    using put(1) [of d] that assms(3) is_chain_distinct [OF assms(4)] by (auto simp: w(3) list_all_iff)
  then have "chain_bytes ?p (disk s1) cs = chain_bytes ?p (disk s) cs"
    unfolding chain_bytes_def by (intro arg_cong [where f = concat] map_cong) auto
  ultimately show thesis using that w h ch so by metis
qed

lemma fat_write_loop_done: "fat_write_loop b dev g ds fs c off bs 0 acc s = Some (Inr (c, acc, fs), s)"
  by (subst fat_write_loop.simps) simp

lemma same_outside_trans:
  "same_outside p [c] D D1 \<Longrightarrow> same_outside p cs D1 D2 \<Longrightarrow> same_outside p (c # cs) D D2"
  by (auto simp: same_outside_def)

text \<open>Writing the other clusters of a chain leaves the first one and its entry in the table as they are.\<close>

lemma same_outside_first:
  assumes "volume p n" "valid_cluster n c" "c \<notin> set cs" "\<And>x. x \<in> set cs \<Longrightarrow> valid_cluster n x" "same_outside p cs D D'"
  shows "fat_of p D' c = fat_of p D c" "cluster_bytes p D' c = cluster_bytes p D c"
proof -
  have keep: "D' a = D a" if a: "cpos p c \<le> a \<and> a < cpos p c + csize p \<or> a < 0x100000 + 512 * fds p" for a
  proof -
    have "a < cpos p x \<or> cpos p x + csize p \<le> a" if x: "x \<in> set cs" for x
    proof -
      have "c \<noteq> x" using x assms(3) by auto
      with clusters_disjoint [OF assms(2) assms(4) [OF x], where p = p] have
        "cpos p c + csize p \<le> cpos p x \<or> cpos p x + csize p \<le> cpos p c" by blast
      with table_before_data(2) [OF assms(1,2), of x] a show ?thesis by linarith
    qed
    then show ?thesis using assms(5) by (simp add: same_outside_def)
  qed
  show "fat_of p D' c = fat_of p D c"
    using keep [of "fat_pos p c"] keep [of "fat_pos p c + 1"] table_before_data(1) [OF assms(1,2)] by (simp add: fat_of_def fds_def)
  show "cluster_bytes p D' c = cluster_bytes p D c"
    unfolding cluster_bytes_def by (rule nth_equalityI) (auto simp: keep)
qed

lemma fat_write_loop_ok:
  "ready s \<Longrightarrow> volume (bpb_of s) n \<Longrightarrow> list_all (valid_cluster n) (c # cs) \<Longrightarrow> is_chain (fat s) (c # cs) \<Longrightarrow>
   sdev ds = AtaDev \<Longrightarrow> sdev fs = AtaDev \<Longrightarrow> unat k \<le> length bs \<Longrightarrow> unat k \<le> length (c # cs) * csize (bpb_of s) \<Longrightarrow>
   \<exists>cur fs' s'. fat_write_loop b dev g ds fs c 0 bs k acc s = Some (Inr (cur, acc + k, fs'), s')
     \<and> framed s s' \<and> same_outside (bpb_of s) (c # cs) (disk s) (disk s') \<and> is_chain (fat s') (c # cs)
     \<and> chain_bytes (bpb_of s) (disk s') (c # cs) = take (unat k) bs @ drop (unat k) (chain_bytes (bpb_of s) (disk s) (c # cs))"
proof (induction cs arbitrary: c ds fs k acc bs s)
  case Nil
  let ?p = "bpb_of s" and ?mx = "ucast (max_cluster_size_bytes (bpb_of s)) :: u32"
  have mx: "unat ?mx = csize ?p" using cluster_size_nat(1) [OF Nil.prems(2)] by (simp add: unat_ucast_wide)
  have k: "unat k \<le> csize ?p" "\<not> k > ?mx" using Nil.prems(8) mx by (auto simp: word_less_nat_alt)
  show ?case
  proof (cases "k = 0")
    case True
    then show ?thesis using Nil.prems(1,4) by (simp add: fat_write_loop_done framed_refl same_outside_def)
  next
    case False
    obtain s1 ds1 where w: "stream_write b (Some bs) k (stream_seek ds (cluster_pos ?p (ucast c))) s = Some (0, ds1, s1)"
      "framed s s1" "is_chain (fat s1) [c]" "same_outside ?p [c] (disk s) (disk s1)"
      "cluster_bytes ?p (disk s1) c = take (unat k) bs @ drop (unat k) (cluster_bytes ?p (disk s) c)"
      by (rule write_first_cluster [OF Nil.prems(1-5) k(1) Nil.prems(7)])
    have "fat_write_loop b dev g ds fs c 0 bs k acc s = Some (Inr (c, acc + k, fs), s1)"
      using w(1) False k(2) by (subst fat_write_loop.simps) (simp add: Let_def fat_write_loop_done)
    with w k(1) show ?thesis by auto
  qed
next
  case (Cons d cs)
  let ?p = "bpb_of s" and ?mx = "ucast (max_cluster_size_bytes (bpb_of s)) :: u32"
  have mx: "unat ?mx = csize ?p" using cluster_size_nat(1) [OF Cons.prems(2)] by (simp add: unat_ucast_wide)
  have d: "\<not> FAT16_VALUE_END_OF_CHAIN \<le> d" using Cons.prems(4) by (simp add: not_le)
  show ?case
  proof (cases "unat k \<le> csize ?p")
    case True
    then have k: "\<not> k > ?mx" using mx by (auto simp: word_less_nat_alt)
    obtain s1 ds1 where w: "stream_write b (Some bs) k (stream_seek ds (cluster_pos ?p (ucast c))) s = Some (0, ds1, s1)"
      "framed s s1" "is_chain (fat s1) (c # d # cs)" "same_outside ?p [c] (disk s) (disk s1)"
      "cluster_bytes ?p (disk s1) c = take (unat k) bs @ drop (unat k) (cluster_bytes ?p (disk s) c)"
      "chain_bytes ?p (disk s1) (d # cs) = chain_bytes ?p (disk s) (d # cs)"
      by (rule write_first_cluster [OF Cons.prems(1-5) True Cons.prems(7)])
    have "fat_write_loop b dev g ds fs c 0 bs k acc s
        = Some (Inr (c, acc + k, fs), if k = 0 then s else s1)"
      using w(1) k by (subst fat_write_loop.simps) (simp add: Let_def fat_write_loop_done)
    moreover have "same_outside ?p (c # d # cs) (disk s) (disk s1)" using w(4) by (auto simp: same_outside_def)
    ultimately show ?thesis using w True Cons.prems(1,4)
      by (cases "k = 0") (auto simp: framed_refl same_outside_def)
  next
    case False
    then have k: "k > ?mx" "unat ?mx \<le> length bs" "k \<noteq> 0" "unat (k - ?mx) = unat k - csize ?p" "k - ?mx > 0"
      using mx Cons.prems(7) by (auto simp: word_less_nat_alt unat_sub word_le_nat_alt)
    have mxle: "unat ?mx \<le> csize ?p" using mx by simp
    obtain s1 ds1 where w: "stream_write b (Some bs) ?mx (stream_seek ds (cluster_pos ?p (ucast c))) s = Some (0, ds1, s1)"
      "framed s s1" "bpb_of s1 = ?p" "sdev ds1 = AtaDev" "is_chain (fat s1) (c # d # cs)"
      "same_outside ?p [c] (disk s) (disk s1)"
      "cluster_bytes ?p (disk s1) c = take (unat ?mx) bs @ drop (unat ?mx) (cluster_bytes ?p (disk s) c)"
      "chain_bytes ?p (disk s1) (d # cs) = chain_bytes ?p (disk s) (d # cs)"
      by (rule write_first_cluster [OF Cons.prems(1-5) mxle k(2)])
    have r: "ready s1" "byts_per_sec (bpb_of s1) = 512" using w(2,3) Cons.prems(2) by (simp_all add: framed_ready volume_def)
    from get_next_cluster_ok [OF r Cons.prems(6), of c] obtain fs1 s2 where
      s2: "fat16_get_next_cluster b fs PARTITION_OFFSET c s1 = Some (fat s1 c, fs1, s2)" "quiet s1 s2" "sdev fs1 = AtaDev" by blast
    have q: "bpb_of s2 = ?p" "disk s2 = disk s1" using w(3) s2(2) by (simp_all add: quiet_header quiet_disk)
    have dc: "fat s1 c = d" "is_chain (fat s2) (d # cs)" using w(5) w(3) by (simp_all add: q)
    have le: "unat (k - ?mx) \<le> length (drop (unat ?mx) bs)" "unat (k - ?mx) \<le> length (d # cs) * csize (bpb_of s2)"
      unfolding k(4) q(1) using Cons.prems(7,8) mx by simp_all
    have pre: "ready s2" "volume (bpb_of s2) n" "list_all (valid_cluster n) (d # cs)"
      using s2(2) Cons.prems(2,3) by (simp_all add: quiet_ready q(1))
    from Cons.IH [OF pre dc(2) w(4) s2(3) le, of "acc + ?mx"]
    obtain cur fs' s3 where s3: "fat_write_loop b dev g ds1 fs1 d 0 (drop (unat ?mx) bs) (k - ?mx) (acc + ?mx) s2
        = Some (Inr (cur, acc + ?mx + (k - ?mx), fs'), s3)" "framed s2 s3" "same_outside ?p (d # cs) (disk s1) (disk s3)"
      "is_chain (fat s3) (d # cs)"
      "chain_bytes ?p (disk s3) (d # cs) = take (unat (k - ?mx)) (drop (unat ?mx) bs)
         @ drop (unat (k - ?mx)) (chain_bytes ?p (disk s1) (d # cs))"
      unfolding q by blast
    have h3: "bpb_of s3 = ?p" using framed_header [OF s3(2)] q(1) by simp
    have vc: "valid_cluster n c" "c \<notin> set (d # cs)" "\<And>x. x \<in> set (d # cs) \<Longrightarrow> valid_cluster n x"
      using Cons.prems(3) is_chain_distinct [OF Cons.prems(4)] by (auto simp: list_all_iff)
    note first = same_outside_first [OF Cons.prems(2) vc s3(3)]
    have ch3: "is_chain (fat s3) (c # d # cs)" using s3(4) dc(1) w(3,5) first(1) by (simp add: h3)
    have "cluster_bytes ?p (disk s3) c = take (unat ?mx) bs" using first(2) w(7) mx by simp
    moreover have "take (csize ?p) bs @ take (unat k - csize ?p) (drop (csize ?p) bs) = take (unat k) bs"
      using take_add [of "csize ?p" "unat k - csize ?p" bs] False by simp
    ultimately have "chain_bytes ?p (disk s3) (c # d # cs) = take (unat k) bs @ drop (unat k) (chain_bytes ?p (disk s) (c # d # cs))"
      using s3(5) w(8) k(4) mx False by (simp flip: append_assoc)
    moreover have "framed s s3" using framed_trans [OF w(2) framed_trans [OF quiet_framed [OF s2(2)] s3(2)]] .
    moreover have "same_outside ?p (c # d # cs) (disk s) (disk s3)" using same_outside_trans [OF w(6) s3(3)] .
    moreover have "fat_write_loop b dev g ds fs c 0 bs k acc s = Some (Inr (cur, acc + k, fs'), s3)"
      using w(1) s2(1) s3(1) k d dc(1) by (subst fat_write_loop.simps) (simp add: Let_def)
    ultimately show ?thesis using ch3 by blast
  qed
qed

text \<open>Transfers leave the objects of the file system alone.\<close>

lemma framed_objects:
  assumes "framed s s'"
  shows "ffds s' = ffds s" "nodes s' = nodes s" "entries s' = entries s" "folders s' = folders s" "kh s' = kh s"
    "afs (ata_dev s') = afs (ata_dev s)"
proof -
  from assms obtain h x where "s' = s\<lparr>hw := h, ata_dev := (ata_dev s)\<lparr>buffer := x\<rparr>\<rparr>" unfolding dev_framed_def by blast
  then show "ffds s' = ffds s" "nodes s' = nodes s" "entries s' = entries s" "folders s' = folders s" "kh s' = kh s"
    "afs (ata_dev s') = afs (ata_dev s)" by simp_all
qed

end

section \<open>Open files\<close>

text \<open>A descriptor of a file whose data is the chain \<open>cs\<close>, at position 0.\<close>

definition open_file :: "('d, 'm) fs_state_scheme \<Rightarrow> nat \<Rightarrow> u16 list \<Rightarrow> u32 \<Rightarrow> bool" where
  "open_file s fdp cs fsz \<longleftrightarrow> (\<exists>fd nd e. ffds s fdp = Some fd \<and> fpos fd = 0 \<and> nodes s (fd_entry fd) = Some nd
     \<and> ntype nd = FAT16_ENTRY_TYPE_FILE \<and> entries s (nptr nd) = Some e \<and> high_cluster e = 0 \<and> low_cluster e = hd cs
     \<and> file_size e = fsz)"

lemma ceil_div_unique: "0 < m \<Longrightarrow> 0 < l \<Longrightarrow> (l - 1) * m < k \<Longrightarrow> k \<le> l * m \<Longrightarrow> (k + m - 1) div m = (l :: nat)"
proof -
  assume a: "0 < m" "0 < l" "(l - 1) * m < k" "k \<le> l * m"
  have "l * m \<le> k + m - 1" using a by (cases l) auto
  moreover have "k + m - 1 < Suc l * m" using a(1,4) by simp
  ultimately show ?thesis by (metis div_nat_eqI mult.commute)
qed

lemma combined_low: "fat16_get_combined_cluster 0 c = ucast c"
  by (simp add: fat16_get_combined_cluster_def)

lemma ucast_u16_u32: "(ucast (ucast (c :: u16) :: u32) :: u16) = c"
  by (rule bit_word_eqI) (simp add: bit_simps)

text \<open>The files of the witnesses: the volume of \<open>fat0\<close> with data in cluster 3, and a file of 5000 bytes open at 40.\<close>

definition files_drive0 :: drive where
  "files_drive0 = fat_drive0\<lparr>store := (store fat_drive0)(0x146200 := 1, 0x146201 := 2, 0x146202 := 3, 0x146203 := 4)\<rparr>"

definition files0 :: "drive fs_state" where
  "files0 = \<lparr>ata_dev = ata_dev io0, hw = files_drive0, fat16_header = header0, kh = kheap0,
     entries = [30 \<mapsto> zero_entry\<lparr>low_cluster := 3, file_size := 9000\<rparr>], folders = Map.empty,
     nodes = [20 \<mapsto> \<lparr>nptr = 30, ntype = FAT16_ENTRY_TYPE_FILE\<rparr>], ffds = [40 \<mapsto> \<lparr>fd_entry = 20, fpos = 0\<rparr>],
     cmos_values = []\<rparr>"

lemma files0_ready: "dev_ready (\<lambda>d. phase_of d = Idle) files0"
  by (simp add: dev_ready_def files0_def io0_def files_drive0_def fat_drive0_def drive0_def)

lemma files0_disk: "disk_of drive_sector files0 = store files_drive0"
  by (rule ext) (simp add: disk_of_def files0_def drive_sector_def)

lemma files0_csize: "csize (bpb_of files0) = 8192" by (simp add: csize_def files0_def header0_def)

lemma files0_cpos: "cpos (bpb_of files0) 3 = 0x146200"
  by (simp add: cpos_def files0_csize fds_def) (simp add: files0_def header0_def)

lemma files0_volume: "volume (bpb_of files0) 65000"
  by (simp add: volume_def files0_csize fds_def) (simp add: files0_def header0_def)

lemma files0_valid: "list_all (valid_cluster 65000) [3, 5]" by (simp add: valid_cluster_def)

lemma files0_chain: "is_chain (fat_of (bpb_of files0) (disk_of drive_sector files0)) [3, 5]"
  by (simp add: fat_of_def fat_pos_def files0_disk files_drive0_def fat_drive0_def word16_def konst)
    (simp add: files0_def header0_def)

lemma files0_open: "open_file files0 40 [3, 5] 9000" "(9000 :: u32) \<noteq> 0"
  by (simp_all add: open_file_def files0_def zero_entry_def entry_of_bytes_def get16_def word16_def)

lemma fat16_read_start:
  assumes "open_file s fdp (c # cs) fsz" "fsz \<noteq> 0" "max_cluster_size_bytes (bpb_of s) \<noteq> 0"
  shows "fat16_read b dev fdp nonnull n k s = do {
     (m, bs, s1) \<leftarrow> fat_read_loop b nonnull (stream_init dev) (stream_init dev) c 0 (n * k) 0 s;
     Some (m, bs, set_fpos fdp (\<lambda>p. p + m) s1) }"
proof -
  from assms(1) obtain fd nd e where o: "ffds s fdp = Some fd" "fpos fd = 0" "nodes s (fd_entry fd) = Some nd"
    "ntype nd = FAT16_ENTRY_TYPE_FILE" "entries s (nptr nd) = Some e" "high_cluster e = 0" "low_cluster e = c" "file_size e = fsz"
    by (auto simp: open_file_def)
  have "\<not> (0 :: u32) \<ge> fsz" using assms(2) by (simp add: word_le_nat_alt unat_eq_zero)
  then show ?thesis using o assms(3)
    by (simp add: fat16_read_def fat16_get_cluster_from_descriptor_def combined_low ucast_u16_u32 Let_def)
qed

lemma read_open_file:
  assumes "ata_device b sector idle reading writing written flushing delay" "dev_ready idle s"
    and "volume (bpb_of s) n" "list_all (valid_cluster n) cs" "is_chain (fat_of (bpb_of s) (disk_of sector s)) cs"
    and "open_file s fdp cs fsz" "fsz \<noteq> 0"
  shows "\<exists>s'. fat16_read b AtaDev fdp True n_bytes n_blocks s
      = Some (of_nat (min (unat (n_bytes * n_blocks)) (length cs * csize (bpb_of s))),
          take (unat (n_bytes * n_blocks)) (chain_bytes (bpb_of s) (disk_of sector s) cs), s')
    \<and> disk_of sector s' = disk_of sector s"
proof -
  obtain c cs' where c: "cs = c # cs'" using assms(5) by (cases cs) auto
  have z: "max_cluster_size_bytes (bpb_of s) \<noteq> 0" using cluster_size_nat(1,2) [OF assms(3)] by auto
  from ata_device.fat_read_loop_ok [OF assms(1-3), of c cs' "stream_init AtaDev" "stream_init AtaDev" "n_bytes * n_blocks" 0]
    assms(4,5) c obtain s' where
    "fat_read_loop b True (stream_init AtaDev) (stream_init AtaDev) c 0 (n_bytes * n_blocks) 0 s
      = Some (of_nat (min (unat (n_bytes * n_blocks)) (length cs * csize (bpb_of s))),
          take (unat (n_bytes * n_blocks)) (chain_bytes (bpb_of s) (disk_of sector s) cs), s')" "dev_quiet idle sector s s'"
    by (auto simp: stream_init_def)
  moreover have "disk_of sector (set_fpos fdp f s') = disk_of sector s'" for f by (rule ext) (simp add: disk_of_def set_fpos_def)
  ultimately show ?thesis
    using fat16_read_start [OF assms(6) [unfolded c] assms(7) z] ata_device.quiet_disk [OF assms(1)] by fastforce
qed

text \<open>C16: Reading an open file from its start returns the bytes of its cluster chain: the number of bytes asked for, or all the
  chain holds if that is less, and exactly these bytes. The disk is not changed.\<close>

theorem fat16_read_file:
  assumes "ata_device b sector idle reading writing written flushing delay" "dev_ready idle s"
    and "volume (bpb_of s) n" "list_all (valid_cluster n) cs" "is_chain (fat_of (bpb_of s) (disk_of sector s)) cs"
    and "open_file s fdp cs fsz" "fsz \<noteq> 0"
  shows "\<exists>s'. fat16_read b AtaDev fdp True n_bytes n_blocks s
      = Some (of_nat (min (unat (n_bytes * n_blocks)) (length cs * csize (bpb_of s))),
          take (unat (n_bytes * n_blocks)) (chain_bytes (bpb_of s) (disk_of sector s) cs), s')
    \<and> disk_of sector s' = disk_of sector s"
  using read_open_file [OF assms] .

theorem fat16_read_file_witness:
  "\<exists>s'. fat16_read drive_bus AtaDev 40 True 4 1 files0 = Some (4, [1, 2, 3, 4], s')"
proof -
  have t: "take 4 (chain_bytes (bpb_of files0) (disk_of drive_sector files0) [3, 5]) = [1, 2, 3, 4]"
  proof -
    have "take 4 (chain_bytes (bpb_of files0) (disk_of drive_sector files0) [3, 5])
        = bytes_at (disk_of drive_sector files0) (cpos (bpb_of files0) 3) 4"
      using dr.take_drop_bytes_at [of 0 4 8192 "disk_of drive_sector files0" "cpos (bpb_of files0) 3"]
      by (simp add: cluster_bytes_def files0_csize)
    also have "\<dots> = [1, 2, 3, 4]"
      unfolding files0_cpos files0_disk files_drive0_def by (simp add: bytes_at_def upt_rec)
    finally show ?thesis .
  qed
  have "min 4 (length [3, 5 :: u16] * csize (bpb_of files0)) = 4" by (simp add: files0_csize)
  with fat16_read_file [OF dr.ata_device_axioms files0_ready files0_volume files0_valid files0_chain files0_open,
      of 4 1] t show ?thesis by auto
qed

text \<open>The clusters \<open>fat16_write\<close> asks for are those of the chain.\<close>

lemma clusters_required:
  assumes "volume p n" "is_chain F cs" "(length cs - 1) * csize p < unat k" "unat k \<le> length cs * csize p" "unat k + csize p < 2 ^ 32"
  shows "(k + ucast (max_cluster_size_bytes p) - 1) div ucast (max_cluster_size_bytes p) = (ucast (of_nat (length cs) :: u16) :: u32)"
proof -
  note z = cluster_size_nat [OF assms(1)]
  have mx: "unat (ucast (max_cluster_size_bytes p) :: u32) = csize p" using z(1) by (simp add: unat_ucast_wide)
  have "k + ucast (max_cluster_size_bytes p) - 1 = of_nat (unat k + csize p - 1)"
    using mx z(2) by (simp add: of_nat_diff) (metis mx of_nat_unat ucast_id)
  then have "unat (k + ucast (max_cluster_size_bytes p) - 1) = unat k + csize p - 1"
    using assms(5) by (simp only: unat_of_nat) simp
  moreover have "0 < length cs" using assms(2) by (cases cs) auto
  then have "(unat k + csize p - 1) div csize p = length cs" using ceil_div_unique [OF z(2) _ assms(3,4)] by simp
  ultimately have "unat ((k + ucast (max_cluster_size_bytes p) - 1) div ucast (max_cluster_size_bytes p)) = length cs"
    by (simp only: unat_div mx)
  moreover have "unat (ucast (of_nat (length cs) :: u16) :: u32) = length cs"
  proof -
    have "unat (ucast (of_nat (length cs) :: u16) :: u32) = unat (of_nat (length cs) :: u16)" by (rule unat_ucast_wide) simp
    also have "\<dots> = length cs mod 2 ^ 16" unfolding unat_of_nat by simp
    also have "\<dots> = length cs" using is_chain_short [OF assms(2)] by simp
    finally show ?thesis .
  qed
  ultimately show ?thesis by (simp add: word_eq_iff_unsigned [where 'a = nat])
qed

lemma write_open_file:
  assumes "ata_device b sector idle reading writing written flushing delay" "dev_ready idle s"
    and "volume (bpb_of s) n" "list_all (valid_cluster n) cs" "is_chain (fat_of (bpb_of s) (disk_of sector s)) cs"
    and "open_file s fdp cs fsz" "fdp \<noteq> 0" "length bs = unat k" "0 < unat k" "k \<le> fsz"
    and "(length cs - 1) * csize (bpb_of s) < unat k" "unat k \<le> length cs * csize (bpb_of s)"
    and "unat k + csize (bpb_of s) < 2 ^ 32"
  shows "\<exists>s2. fat16_write b AtaDev fdp (Some bs) k 1 s = Some (k, s2) \<and> dev_framed idle s s2
    \<and> same_outside (bpb_of s) cs (disk_of sector s) (disk_of sector s2) \<and> is_chain (fat_of (bpb_of s) (disk_of sector s2)) cs
    \<and> chain_bytes (bpb_of s) (disk_of sector s2) cs = bs @ drop (unat k) (chain_bytes (bpb_of s) (disk_of sector s) cs)"
proof -
  let ?p = "bpb_of s"
  obtain c cs' where c: "cs = c # cs'" using assms(5) by (cases cs) auto
  have nz: "max_cluster_size_bytes ?p \<noteq> 0" using cluster_size_nat(1,2) [OF assms(3)] by auto
  from assms(6) obtain fd nd e where o: "ffds s fdp = Some fd" "fpos fd = 0" "nodes s (fd_entry fd) = Some nd"
    "ntype nd = FAT16_ENTRY_TYPE_FILE" "entries s (nptr nd) = Some e" "high_cluster e = 0" "low_cluster e = c" "file_size e = fsz"
    by (auto simp: open_file_def c)
  define st where "st = stream_seek (stream_init AtaDev) (fat16_get_fat_table_absolute ?p PARTITION_OFFSET)"
  have st: "sdev st = AtaDev" by (simp add: st_def stream_seek_def stream_init_def)
  have b512: "byts_per_sec ?p = 512" using assms(3) by (simp add: volume_def)
  from ata_device.chain_length_ok [OF assms(1,2) b512 st assms(5) [unfolded c] nz] obtain fs1 s1 where
    s1: "fat16_get_cluster_chain_length b st (max_cluster_size_bytes ?p) (ucast c) PARTITION_OFFSET s
      = Some (of_nat (length cs), fs1, s1)" "dev_quiet idle sector s s1" "sdev fs1 = AtaDev" unfolding c by blast
  have h1: "bpb_of s1 = ?p" "disk_of sector s1 = disk_of sector s" "dev_ready idle s1"
    using ata_device.quiet_header [OF assms(1) s1(2)] ata_device.quiet_disk [OF assms(1) s1(2)]
      ata_device.quiet_ready [OF assms(1) s1(2)] by simp_all
  define fs2 where "fs2 = stream_seek fs1 (fat16_get_fat_table_absolute ?p PARTITION_OFFSET)"
  have d: "sdev (stream_init AtaDev) = AtaDev" "sdev fs2 = AtaDev" using s1(3) by (simp_all add: fs2_def stream_seek_def stream_init_def)
  have pre: "volume (bpb_of s1) n" "list_all (valid_cluster n) (c # cs')" "is_chain (fat_of (bpb_of s1) (disk_of sector s1)) (c # cs')"
    "unat k \<le> length bs" "unat k \<le> length (c # cs') * csize (bpb_of s1)"
    using assms(3,4,5,8,12) by (simp_all add: c h1)
  from ata_device.fat_write_loop_ok [OF assms(1) h1(3) pre(1-3) d pre(4,5), of AtaDev False 0] assms(8) obtain cur fs3 s2 where
    s2: "fat_write_loop b AtaDev False (stream_init AtaDev) fs2 c 0 bs k 0 s1 = Some (Inr (cur, k, fs3), s2)"
      "dev_framed idle s1 s2" "same_outside ?p cs (disk_of sector s) (disk_of sector s2)"
      "is_chain (fat_of (bpb_of s2) (disk_of sector s2)) cs"
      "chain_bytes ?p (disk_of sector s2) cs = bs @ drop (unat k) (chain_bytes ?p (disk_of sector s) cs)"
    unfolding h1 c [symmetric] by (auto simp: h1(1))
  have k0: "k \<noteq> 0" "\<not> fsz < k" using assms(9,10) by (auto simp: not_less)
  have "fat16_write b AtaDev fdp (Some bs) k 1 s = Some (k, s2)"
    using o s1(1) s2(1) k0 assms(7) clusters_required [OF assms(3,5,11-13)]
    by (simp add: fat16_write_def combined_low ucast_u16_u32 Let_def flip: st_def fs2_def)
  moreover have "bpb_of s2 = ?p" using ata_device.framed_header [OF assms(1) s2(2)] h1(1) by simp
  moreover have "dev_framed idle s s2"
    by (rule ata_device.framed_trans [OF assms(1) ata_device.quiet_framed [OF assms(1) s1(2)] s2(2)])
  ultimately show ?thesis using s2(3-5) by auto
qed

text \<open>C17: Overwriting an open file with as many bytes as its clusters and its size allow writes exactly these bytes: the rest of
  the disk outside the file's clusters, the table included, keeps its content, \<open>fat16_write\<close> returns the number of bytes, and reading
  the file from its start returns them.\<close>

theorem fat16_write_then_read:
  assumes "ata_device b sector idle reading writing written flushing delay" "dev_ready idle s"
    and "volume (bpb_of s) n" "list_all (valid_cluster n) cs" "is_chain (fat_of (bpb_of s) (disk_of sector s)) cs"
    and "open_file s fdp cs fsz" "fdp \<noteq> 0" "length bs = unat k" "0 < unat k" "k \<le> fsz"
    and "(length cs - 1) * csize (bpb_of s) < unat k" "unat k \<le> length cs * csize (bpb_of s)"
    and "unat k + csize (bpb_of s) < 2 ^ 32"
  shows "\<exists>s1 s2. fat16_write b AtaDev fdp (Some bs) k 1 s = Some (k, s1)
    \<and> same_outside (bpb_of s) cs (disk_of sector s) (disk_of sector s1)
    \<and> fat16_read b AtaDev fdp True k 1 s1 = Some (k, bs, s2)"
proof -
  from write_open_file [OF assms] obtain s2 where
    w: "fat16_write b AtaDev fdp (Some bs) k 1 s = Some (k, s2)" "dev_framed idle s s2"
      "same_outside (bpb_of s) cs (disk_of sector s) (disk_of sector s2)" "is_chain (fat_of (bpb_of s) (disk_of sector s2)) cs"
      "chain_bytes (bpb_of s) (disk_of sector s2) cs = bs @ drop (unat k) (chain_bytes (bpb_of s) (disk_of sector s) cs)" by blast
  note fr = ata_device.framed_objects [OF assms(1) w(2)]
  have h2: "bpb_of s2 = bpb_of s" using ata_device.framed_header [OF assms(1) w(2)] by simp
  have "dev_ready idle s2" "volume (bpb_of s2) n" "is_chain (fat_of (bpb_of s2) (disk_of sector s2)) cs" "open_file s2 fdp cs fsz" "fsz \<noteq> 0"
    using w(2,4) assms(3,6,9,10) h2 by (auto simp: dev_framed_def open_file_def fr word_le_nat_alt)
  from read_open_file [OF assms(1) this(1,2) assms(4) this(3-5), of k 1] obtain s3 where
    "fat16_read b AtaDev fdp True k 1 s2 = Some (of_nat (min (unat k) (length cs * csize (bpb_of s))), take (unat k) bs, s3)"
    using w(5) assms(8) by (auto simp: h2)
  then have "fat16_read b AtaDev fdp True k 1 s2 = Some (k, bs, s3)" using assms(8,12) by (simp add: min_absorb1)
  with w(1,3) show ?thesis by blast
qed

theorem fat16_write_then_read_witness:
  "\<exists>s1 s2. fat16_write drive_bus AtaDev 40 (Some (replicate 9000 7)) 9000 1 files0 = Some (9000, s1)
    \<and> fat16_read drive_bus AtaDev 40 True 9000 1 s1 = Some (9000, replicate 9000 7, s2)"
  using fat16_write_then_read [OF dr.ata_device_axioms files0_ready files0_volume files0_valid files0_chain files0_open(1),
      of "replicate 9000 7" 9000] by (auto simp: files0_csize)

end
