(* ===== verification/Fat16_Create.thy ===== *)
theory Fat16_Create
  imports Fat16_File
begin

text \<open>
  What creating a file in the root directory does to the disk: a data cluster is taken in the table and no directory entry
  is written.
\<close>

lemma root_dir_pos:
  assumes "volume p n"
  shows "unat (fat16_get_root_dir_absolute p PARTITION_OFFSET) = 0x100000 + 512 * (unat (rsvd_sec p) + 2 * unat (fatsz16 p))"
    "unat (root_dir_size p) = 32 * unat (root_ent_cnt p)"
proof -
  have b: "unat (rsvd_sec p) < 2 ^ 16" "unat (fatsz16 p) < 2 ^ 16" "unat (root_ent_cnt p) < 2 ^ 16"
    using unat_bound [of "rsvd_sec p"] unat_bound [of "fatsz16 p"] unat_bound [of "root_ent_cnt p"] by simp_all
  have m: "ucast (byts_per_sec p) = (512 :: u32)" "ucast (num_fats p) = (2 :: u32)" using assms by (simp_all add: volume_def)
  show "unat (fat16_get_root_dir_absolute p PARTITION_OFFSET) = 0x100000 + 512 * (unat (rsvd_sec p) + 2 * unat (fatsz16 p))"
    unfolding fat16_get_root_dir_absolute_def fat16_get_root_dir_offset_def m
    using b by (simp add: konst unat_word_ariths unat_ucast_wide)
  show "unat (root_dir_size p) = 32 * unat (root_ent_cnt p)"
    using b by (simp add: root_dir_size_def unat_word_ariths unat_ucast_wide)
qed

context ata_device
begin

lemma read_root_dir_ok:
  assumes "ready s" "volume (bpb_of s) n"
  obtains bs st s1 where "read_root_dir b AtaDev s = Some (0, bs, st, s1)" "quiet s s1"
proof -
  let ?st = "stream_seek (stream_init AtaDev) (fat16_get_root_dir_absolute (bpb_of s) PARTITION_OFFSET)"
  note r = root_dir_pos [OF assms(2)]
  have b: "unat (rsvd_sec (bpb_of s)) < 2 ^ 16" "unat (fatsz16 (bpb_of s)) < 2 ^ 16" "unat (root_ent_cnt (bpb_of s)) < 2 ^ 16"
    using unat_bound [of "rsvd_sec (bpb_of s)"] unat_bound [of "fatsz16 (bpb_of s)"] unat_bound [of "root_ent_cnt (bpb_of s)"]
    by simp_all
  have "sdev ?st = AtaDev" "unat (spos ?st) = 512 * (2048 + unat (rsvd_sec (bpb_of s)) + 2 * unat (fatsz16 (bpb_of s)))"
    using r(1) by (simp_all add: stream_seek_def stream_init_def)
  moreover from this have "fits (unat (spos ?st)) (unat (root_dir_size (bpb_of s)))"
    "unat (spos ?st) + unat (root_dir_size (bpb_of s)) < 2 ^ 32" using b r(2) by (simp_all add: fits_def)
  ultimately show thesis using stream_read_ok [OF assms(1), of ?st "root_dir_size (bpb_of s)"] that
    by (auto simp: read_root_dir_def)
qed

lemma free_root_entry_quiet:
  assumes "ready s" "volume (bpb_of s) n"
  obtains off s1 where "fat16_get_free_root_dir_entry b AtaDev s = Some (off, s1)" "quiet s s1"
proof -
  obtain bs st s1 where "read_root_dir b AtaDev s = Some (0, bs, st, s1)" "quiet s s1"
    by (rule read_root_dir_ok [OF assms])
  then show thesis
    using that by (cases "find_entry free_slot 0 (entries_in bs (unat (root_dir_size (bpb_of s) div 32)))")
      (auto simp: fat16_get_free_root_dir_entry_def)
qed

lemma next_free_cluster_cases:
  assumes "ready s" "byts_per_sec (bpb_of s) = 512" "sdev st = AtaDev"
  obtains st' s' where "fat16_get_next_free_cluster b st PARTITION_OFFSET s = Some (0, st', s')" "quiet s s'"
  | c st' s' where "fat16_get_next_free_cluster b st PARTITION_OFFSET s = Some (c, st', s')" "quiet s s'"
      "3 \<le> unat c" "unat c < FAT16_MAX_CLUSTERS" "fat s c = 0"
proof -
  have "3 \<le> FAT16_MAX_CLUSTERS" by (simp add: konst)
  from next_free_from_ok [OF assms this] obtain st' s' where
    n: "fat16_get_next_free_cluster b st PARTITION_OFFSET s = Some
     (case find (\<lambda>c. fat s (of_nat c) = 0) [3..<FAT16_MAX_CLUSTERS] of Some c \<Rightarrow> of_nat c | None \<Rightarrow> 0, st', s')" "quiet s s'"
    by (auto simp: fat16_get_next_free_cluster_def)
  show thesis
  proof (cases "find (\<lambda>c. fat s (of_nat c) = 0) [3..<FAT16_MAX_CLUSTERS]")
    case None
    with n that(1) show thesis by simp
  next
    case (Some c)
    with n that(2) find_free_cluster [OF Some] show thesis by simp
  qed
qed

lemma stream_write_nothing: "sdev st = AtaDev \<Longrightarrow> stream_write b (Some bs) 0 st s = Some (0, st, s)"
  by (simp add: stream_write_def) (subst stream_write_loop.simps, simp)

lemma create_entry_root:
  assumes "ready s" "volume (bpb_of s) n"
  shows "\<exists>r s'. create_entry b AtaDev [nd] node s = Some (r, s') \<and> (case r of None \<Rightarrow> disk s' = disk s
    | Some e \<Rightarrow> disk s' = put_bytes (fat_pos (bpb_of s) (low_cluster e)) (le16 FAT16_VALUE_END_OF_CHAIN) (disk s))"
proof -
  have b512: "byts_per_sec (bpb_of s) = 512" using assms(2) by (simp add: volume_def)
  obtain off s1 where s1: "fat16_get_free_root_dir_entry b AtaDev s = Some (off, s1)" "quiet s s1"
    by (rule free_root_entry_quiet [OF assms(1,2)])
  have q1: "ready s1" "bpb_of s1 = bpb_of s" "disk s1 = disk s"
    using s1(2) by (simp_all add: quiet_ready quiet_header quiet_disk)
  let ?st = "stream_seek (stream_init AtaDev) (fat16_get_fat_table_absolute (bpb_of s1) PARTITION_OFFSET)"
  have st: "sdev ?st = AtaDev" "sdev (stream_seek (stream_init AtaDev) off) = AtaDev" by (simp_all add: stream_seek_def stream_init_def)
  have b1: "byts_per_sec (bpb_of s1) = 512" using b512 q1 by simp
  show ?thesis
  proof (cases "off = 0")
    case True
    with s1(1) q1(3) show ?thesis by (simp add: create_entry_def)
  next
    case False
    show ?thesis
    proof (cases rule: next_free_cluster_cases [OF q1(1) b1 st(1)])
      case (1 st2 s2)
      then show ?thesis using s1(1) q1 False by (simp add: create_entry_def quiet_disk)
    next
      case (2 c st2 s2)
      have c: "2 \<le> c" "c \<noteq> 0" using 2(3) by (auto simp: word_le_nat_alt)
      have q2: "ready s2" "bpb_of s2 = bpb_of s" "disk s2 = disk s"
        using 2(2) q1 by (simp_all add: quiet_ready quiet_header quiet_disk)
      have b2: "byts_per_sec (bpb_of s2) = 512" using b512 q2 by simp
      from create_fat_entry_ok [OF q2(1) b2 c(1) 2(4), of FAT16_VALUE_END_OF_CHAIN]
      obtain s3 where "fat16_create_fat_entry b AtaDev (ucast c) FAT16_VALUE_END_OF_CHAIN s2 = Some (True, s3)"
        "disk s3 = put_bytes (fat_pos (bpb_of s) c) (le16 FAT16_VALUE_END_OF_CHAIN) (disk s)" by (auto simp: q2)
      then show ?thesis
        using s1(1) 2(1) c(2) False by (simp add: create_entry_def Let_def stream_write_nothing st(2))
    qed
  qed
qed

end



end
