(* ===== verification/Vfs.thy ===== *)
theory Vfs
  imports Fat16_Create
begin

text \<open>
  \<open>fs/vfs.c\<close>: the table of file systems, the table of file descriptors and the operations that dispatch to the file system
  of a descriptor's device. The only \<open>fs_t\<close> of the kernel is \<open>fat16\<close>; a pointer to one is null or its address, and its
  callbacks are null until \<open>fat16_init\<close> sets them. Calling a null callback, and following a pointer to a freed
  descriptor, has no defined result. The tables are static in \<open>vfs.c\<close>, so the state of the file system and of the driver is
  one component \<open>fsys\<close> that the callbacks alone change. The nodes of the path parser are not kept on the heap here.
\<close>

section \<open>State\<close>

definition FAT16_FS :: nat where [konst]: "FAT16_FS = 1"

record vfd =
  vindex :: int
  vinternal :: nat
  vdev :: ata_ptr
  vdir_offset :: u32

record 'd vfs_state =
  fsys :: "'d fs_state"
  filesystems :: "nat list"
  fdescriptors :: "nat list"
  vfds :: "nat \<rightharpoonup> vfd"
  fat16_ready :: bool
  vfs_errno :: int

definition vfs_alloc :: "nat \<Rightarrow> 'd vfs_state \<Rightarrow> (nat \<times> 'd vfs_state) option" where
  "vfs_alloc n s = do { (p, f) \<leftarrow> fs_kzalloc n (fsys s); Some (p, s\<lparr>fsys := f\<rparr>) }"

definition vfs_free :: "nat \<Rightarrow> 'd vfs_state \<Rightarrow> 'd vfs_state option" where
  "vfs_free p s = do { f \<leftarrow> fs_kfree p (fsys s); Some (s\<lparr>fsys := f, vfds := (vfds s)(p := None)\<rparr>) }"

section \<open>File systems\<close>

definition fat16_init :: "'d vfs_state \<Rightarrow> nat \<times> 'd vfs_state" where
  "fat16_init s = (FAT16_FS, s\<lparr>fat16_ready := True\<rparr>)"

text \<open>The index of the first null slot.\<close>

fun find_empty :: "nat list \<Rightarrow> nat option" where
  "find_empty [] = None"
| "find_empty (x # xs) = (if x = 0 then Some 0 else map_option Suc (find_empty xs))"

definition vfs_insert :: "nat \<Rightarrow> 'd vfs_state \<Rightarrow> 'd vfs_state option" where
  "vfs_insert fs s = (if fs = 0 then None else case find_empty (filesystems s) of None \<Rightarrow> None
     | Some i \<Rightarrow> Some (s\<lparr>filesystems := (filesystems s)[i := fs]\<rparr>))"

definition vfs_init :: "'d vfs_state \<Rightarrow> 'd vfs_state option" where
  "vfs_init s = (let (fs, s1) = fat16_init s in vfs_insert fs s1)"

definition callable :: "nat \<Rightarrow> 'd vfs_state \<Rightarrow> bool" where
  "callable fs s \<longleftrightarrow> fs = FAT16_FS \<and> fat16_ready s"

fun resolve_loop :: "'d bus \<Rightarrow> ata_ptr \<Rightarrow> nat list \<Rightarrow> 'd vfs_state \<Rightarrow> (nat \<times> 'd vfs_state) option" where
  "resolve_loop b dev [] s = Some (0, s)"
| "resolve_loop b dev (fs # rest) s = (if fs = 0 then resolve_loop b dev rest s
     else if \<not> callable fs s then None
     else do {
       (r, f1) \<leftarrow> fat16_resolve b dev (fsys s);
       if r = 0 then Some (fs, s\<lparr>fsys := f1\<rparr>) else resolve_loop b dev rest (s\<lparr>fsys := f1\<rparr>) })"

definition vfs_resolve :: "'d bus \<Rightarrow> ata_ptr \<Rightarrow> 'd vfs_state \<Rightarrow> (nat \<times> 'd vfs_state) option" where
  "vfs_resolve b dev s = (if dev = AtaNull then Some (0, s) else resolve_loop b dev (filesystems s) s)"

definition ata_mount_fs :: "'d bus \<Rightarrow> 'd vfs_state \<Rightarrow> 'd vfs_state option" where
  "ata_mount_fs b s = do {
     (fs, s1) \<leftarrow> vfs_resolve b AtaDev s;
     Some (s1\<lparr>fsys := (fsys s1)\<lparr>ata_dev := (ata_dev (fsys s1))\<lparr>afs := fs\<rparr>\<rparr>\<rparr>) }"

section \<open>Descriptors\<close>

text \<open>The first null slot gets a new descriptor, numbered from 1; the result of \<open>kzalloc\<close> is used unchecked.\<close>

definition create_fd :: "'d vfs_state \<Rightarrow> (int \<times> nat \<times> 'd vfs_state) option" where
  "create_fd s = (case find_empty (fdescriptors s) of None \<Rightarrow> Some (-1, 0, s)
     | Some i \<Rightarrow> do {
         (p, s1) \<leftarrow> vfs_alloc 20 s;
         if p = 0 then None
         else Some (0, p, s1\<lparr>fdescriptors := (fdescriptors s1)[i := p],
           vfds := (vfds s1)(p \<mapsto> \<lparr>vindex = int i + 1, vinternal = 0, vdev = AtaNull, vdir_offset = 0\<rparr>)\<rparr>) })"

definition get_fd :: "int \<Rightarrow> 'd vfs_state \<Rightarrow> nat" where
  "get_fd fd s = (if fd \<le> 0 \<or> fd \<ge> 512 then 0 else fdescriptors s ! nat (fd - 1))"

definition INVALID :: u8 where [konst]: "INVALID = 3"

definition get_vmode :: "u8 list \<Rightarrow> u8" where
  "get_vmode mode = (if char_at mode 0 = 0x72 then READ else if char_at mode 0 = 0x77 then WRITE else INVALID)"

definition parser0 :: pathparser where
  "parser0 = \<lparr>pcurr = \<lparr>ptype = PT_IDENTIFIER, tstart = 0, tlen = 0\<rparr>,
     pprev = \<lparr>ptype = PT_IDENTIFIER, tstart = 0, tlen = 0\<rparr>, has_error = False\<rparr>"

definition vfs_fopen :: "'d bus \<Rightarrow> u8 list \<Rightarrow> u8 list \<Rightarrow> 'd vfs_state \<Rightarrow> (int \<times> 'd vfs_state) option" where
  "vfs_fopen b filename mode s = (let vmode = get_vmode mode in
     if vmode \<noteq> READ \<and> vmode \<noteq> WRITE then Some (- EINVAL, s\<lparr>vfs_errno := EINVAL\<rparr>)
     else do {
       (root, ps) \<leftarrow> path_parser_parse parser0 filename;
       let dev = ata_get (takeWhile (\<lambda>c. c \<noteq> 0) (drive root));
       if dev = AtaNull \<or> afs (ata_dev (fsys s)) = 0 then Some (- EIO, s\<lparr>vfs_errno := EIO\<rparr>)
       else if \<not> callable (afs (ata_dev (fsys s))) s then None
       else do {
         (internal, f1) \<leftarrow> fat16_open b dev (path root) vmode (fsys s);
         if internal = 0 then Some (- ENOENT, s\<lparr>fsys := f1, vfs_errno := ENOENT\<rparr>)
         else do {
           (r, p, s2) \<leftarrow> create_fd (s\<lparr>fsys := f1\<rparr>);
           if r < 0 then Some (- ENOMEM, s2\<lparr>vfs_errno := ENOMEM\<rparr>)
           else do {
             f \<leftarrow> vfds s2 p;
             Some (vindex f, s2\<lparr>vfds := (vfds s2)(p \<mapsto> f\<lparr>vdev := dev, vinternal := internal\<rparr>)\<rparr>) } } } })"

text \<open>The descriptor behind a non-null pointer, with a device that has a file system.\<close>

definition deref_fd :: "nat \<Rightarrow> 'd vfs_state \<Rightarrow> vfd option" where
  "deref_fd p s = (case vfds s p of None \<Rightarrow> None
     | Some f \<Rightarrow> if vdev f = AtaNull \<or> afs (ata_dev (fsys s)) \<noteq> FAT16_FS then None else Some f)"

definition vfs_fread :: "'d bus \<Rightarrow> bool \<Rightarrow> u32 \<Rightarrow> u32 \<Rightarrow> int \<Rightarrow> 'd vfs_state \<Rightarrow> (u32 \<times> u8 list \<times> 'd vfs_state) option" where
  "vfs_fread b nonnull n_bytes n_blocks fd s =
     (if n_bytes = 0 \<or> n_blocks = 0 \<or> fd < 1 then Some (of_int (- EINVAL), [], s)
      else let p = get_fd fd s in
        if p = 0 then Some (of_int (- EINVAL), [], s)
        else do {
          f \<leftarrow> deref_fd p s;
          if \<not> fat16_ready s then None else do {
          (n, bs, f1) \<leftarrow> fat16_read b (vdev f) (vinternal f) nonnull n_bytes n_blocks (fsys s);
          Some (n, bs, s\<lparr>fsys := f1\<rparr>) } })"

definition vfs_fclose :: "int \<Rightarrow> 'd vfs_state \<Rightarrow> (int \<times> 'd vfs_state) option" where
  "vfs_fclose fd s = (if fd < 1 then Some (- EINVAL, s)
     else let p = get_fd fd s in
       if p = 0 then Some (- EBADF, s)
       else do {
         f \<leftarrow> deref_fd p s;
         if \<not> fat16_ready s then None else do {
         (r, f1) \<leftarrow> fat16_close (vinternal f) (fsys s);
         s2 \<leftarrow> vfs_free p (s\<lparr>fsys := f1\<rparr>);
         Some (0, s2) } })"

definition vfs_fseek :: "int \<Rightarrow> u32 \<Rightarrow> u8 \<Rightarrow> 'd vfs_state \<Rightarrow> (int \<times> 'd vfs_state) option" where
  "vfs_fseek fd offset whence s = (if fd < 1 then Some (- EINVAL, s)
     else let p = get_fd fd s in
       if p = 0 then Some (- EBADF, s)
       else do {
         f \<leftarrow> deref_fd p s;
         if \<not> fat16_ready s then None else do {
         (r, f1) \<leftarrow> fat16_seek (vinternal f) offset whence (fsys s);
         Some (r, s\<lparr>fsys := f1\<rparr>) } })"

definition vfs_fstat :: "'d bus \<Rightarrow> int \<Rightarrow> bool \<Rightarrow> 'd vfs_state \<Rightarrow> (int \<times> vstat option \<times> 'd vfs_state) option" where
  "vfs_fstat b fd nonnull s = (if fd < 1 then Some (- EINVAL, None, s)
     else let p = get_fd fd s in
       if p = 0 then Some (- EBADF, None, s)
       else do {
         f \<leftarrow> deref_fd p s;
         if \<not> fat16_ready s then None else do {
         (r, v, f1) \<leftarrow> fat16_stat b (vdev f) (vinternal f) nonnull (fsys s);
         Some (0, v, s\<lparr>fsys := f1\<rparr>) } })"

definition vfs_fwrite :: "'d bus \<Rightarrow> u8 list option \<Rightarrow> u32 \<Rightarrow> u32 \<Rightarrow> int \<Rightarrow> 'd vfs_state \<Rightarrow> (u32 \<times> 'd vfs_state) option" where
  "vfs_fwrite b buf n_bytes n_blocks fd s =
     (if fd < 1 \<or> buf = None \<or> n_bytes = 0 \<or> n_blocks = 0 then Some (of_int (- EINVAL), s)
      else let p = get_fd fd s in
        if p = 0 then Some (of_int (- EBADF), s)
        else do {
          f \<leftarrow> deref_fd p s;
          if \<not> fat16_ready s then Some (of_int (- EIO), s) else do {
          (n, f1) \<leftarrow> fat16_write b (vdev f) (vinternal f) buf n_bytes n_blocks (fsys s);
          Some (n, s\<lparr>fsys := f1\<rparr>) } })"

text \<open>The result of the callback is stored in a \<open>size_t\<close>, so a negative error code counts as success and advances the
  offset.\<close>

definition vfs_readdir :: "'d bus \<Rightarrow> int \<Rightarrow> bool \<Rightarrow> 'd vfs_state \<Rightarrow> (int \<times> vfs_dirent option \<times> 'd vfs_state) option" where
  "vfs_readdir b fd nonnull s = (if fd < 1 \<or> \<not> nonnull then Some (- EINVAL, None, s)
     else let p = get_fd fd s in
       if p = 0 then Some (- EBADF, None, s)
       else do {
         f \<leftarrow> deref_fd p s;
         if \<not> fat16_ready s then Some (- EIO, None, s) else do {
         (r, e, f1) \<leftarrow> fat16_readdir b (vdev f) (vinternal f) (vdir_offset f) (fsys s);
         Some (r, e, if r \<noteq> 0 then s\<lparr>fsys := f1, vfds := (vfds s)(p \<mapsto> f\<lparr>vdir_offset := vdir_offset f + 1\<rparr>)\<rparr>
           else s\<lparr>fsys := f1\<rparr>) } })"

section \<open>The descriptor table\<close>

text \<open>One call of the VFS interface by a client.\<close>

inductive vfs_step :: "'d bus \<Rightarrow> 'd vfs_state \<Rightarrow> 'd vfs_state \<Rightarrow> bool" for b where
  step_open: "vfs_fopen b filename mode s = Some (r, s') \<Longrightarrow> vfs_step b s s'"
| step_read: "vfs_fread b nonnull n k fd s = Some (m, bs, s') \<Longrightarrow> vfs_step b s s'"
| step_close: "vfs_fclose fd s = Some (r, s') \<Longrightarrow> vfs_step b s s'"
| step_seek: "vfs_fseek fd off whence s = Some (r, s') \<Longrightarrow> vfs_step b s s'"
| step_stat: "vfs_fstat b fd nonnull s = Some (r, v, s') \<Longrightarrow> vfs_step b s s'"
| step_write: "vfs_fwrite b buf n k fd s = Some (m, s') \<Longrightarrow> vfs_step b s s'"
| step_readdir: "vfs_readdir b fd nonnull s = Some (r, e, s') \<Longrightarrow> vfs_step b s s'"

text \<open>The first \<open>n\<close> slots are taken and the others are null.\<close>

definition fd_used :: "nat \<Rightarrow> 'd vfs_state \<Rightarrow> bool" where
  "fd_used n s \<longleftrightarrow> length (fdescriptors s) = 512 \<and> n \<le> 512 \<and> (\<forall>i < 512. fdescriptors s ! i = 0 \<longleftrightarrow> n \<le> i)"

lemma find_empty_None: "find_empty xs = None \<longleftrightarrow> 0 \<notin> set xs"
  by (induction xs) auto

lemma find_empty_Some:
  "find_empty xs = Some i \<Longrightarrow> i < length xs \<and> xs ! i = 0 \<and> (\<forall>j < i. xs ! j \<noteq> 0)"
proof (induction xs arbitrary: i)
  case (Cons x xs)
  then show ?case by (cases i) (auto split: if_splits simp: nth_Cons split: nat.splits)
qed simp

lemma find_empty_used: "fd_used n s \<Longrightarrow> find_empty (fdescriptors s) = (if n < 512 then Some n else None)"
proof (cases "find_empty (fdescriptors s)")
  case None
  assume "fd_used n s"
  moreover have "0 \<notin> set (fdescriptors s)" using None by (simp add: find_empty_None)
  ultimately show ?thesis using None unfolding fd_used_def by (metis nle_le nth_mem not_less)
next
  case (Some i)
  assume "fd_used n s"
  then show ?thesis using Some find_empty_Some [OF Some] unfolding fd_used_def by (metis linorder_neqE_nat not_less order_refl order_trans)
qed

lemma create_fd_cases:
  assumes "create_fd s = Some (r, p, s')"
  shows "(find_empty (fdescriptors s) = None \<and> r = -1 \<and> s' = s)
    \<or> (\<exists>i. find_empty (fdescriptors s) = Some i \<and> r = 0 \<and> p \<noteq> 0 \<and> fdescriptors s' = (fdescriptors s)[i := p]
        \<and> (\<exists>f. vfds s' p = Some f \<and> vindex f = int i + 1))"
  using assms by (auto simp: create_fd_def vfs_alloc_def split: option.splits prod.splits if_splits bind_splits)

lemma fopen_table:
  assumes "vfs_fopen b filename mode s = Some (r, s')"
  shows "(fdescriptors s' = fdescriptors s \<and> r < 0)
    \<or> (\<exists>i p. find_empty (fdescriptors s) = Some i \<and> p \<noteq> 0 \<and> fdescriptors s' = (fdescriptors s)[i := p] \<and> r = int i + 1)"
proof -
  have neg: "- EINVAL < 0" "- EIO < 0" "- ENOENT < 0" "- ENOMEM < 0" by (simp_all add: konst)
  have "\<exists>f1 t. create_fd (s\<lparr>fsys := f1\<rparr>) = Some t \<and> fst t \<ge> 0 \<and> fdescriptors s' = fdescriptors (snd (snd t))
      \<and> (\<exists>f. vfds (snd (snd t)) (fst (snd t)) = Some f \<and> r = vindex f)"
    if "\<not> (fdescriptors s' = fdescriptors s \<and> r < 0)"
    using assms that neg create_fd_cases
    by (fastforce simp: vfs_fopen_def Let_def split: if_splits bind_splits)
  then show ?thesis using create_fd_cases by fastforce
qed

lemma vfs_step_table:
  assumes "vfs_step b s s'"
  shows "fdescriptors s' = fdescriptors s
    \<or> (\<exists>i p. find_empty (fdescriptors s) = Some i \<and> p \<noteq> 0 \<and> fdescriptors s' = (fdescriptors s)[i := p])"
  using assms
proof (cases rule: vfs_step.cases)
  case (step_open filename mode r)
  then show ?thesis using fopen_table by blast
qed (auto simp: vfs_fread_def vfs_fclose_def vfs_fseek_def vfs_fstat_def vfs_fwrite_def vfs_readdir_def vfs_free_def Let_def
     split: if_splits bind_splits)

lemma vfs_step_used:
  assumes "vfs_step b s s'" "fd_used n s"
  shows "\<exists>m. n \<le> m \<and> fd_used m s' \<and> take n (fdescriptors s') = take n (fdescriptors s)"
  using vfs_step_table [OF assms(1)]
proof
  assume "fdescriptors s' = fdescriptors s"
  then show ?thesis using assms(2) by (auto simp: fd_used_def)
next
  assume "\<exists>i p. find_empty (fdescriptors s) = Some i \<and> p \<noteq> 0 \<and> fdescriptors s' = (fdescriptors s)[i := p]"
  then obtain p where "n < 512" "p \<noteq> 0" "fdescriptors s' = (fdescriptors s)[n := p]"
    using find_empty_used [OF assms(2)] by (auto split: if_splits)
  then have "fd_used (Suc n) s'" "take n (fdescriptors s') = take n (fdescriptors s)"
    using assms(2) by (auto simp: fd_used_def nth_list_update Suc_le_eq le_less)
  then show ?thesis by (metis le_SucI order_refl)
qed

lemma vfs_steps_used:
  assumes "(vfs_step b)\<^sup>*\<^sup>* s s'" "fd_used n s"
  shows "\<exists>m. n \<le> m \<and> fd_used m s' \<and> take n (fdescriptors s') = take n (fdescriptors s)"
  using assms
proof (induction rule: rtranclp_induct)
  case base
  then show ?case by blast
next
  case (step t u)
  then obtain m where m: "n \<le> m" "fd_used m t" "take n (fdescriptors t) = take n (fdescriptors s)" by blast
  from vfs_step_used [OF step.hyps(2) m(2)] obtain k where
    k: "m \<le> k" "fd_used k u" "take m (fdescriptors u) = take m (fdescriptors t)" by blast
  then have "take n (fdescriptors u) = take n (fdescriptors t)" using m(1) by (metis min.absorb1 take_take)
  then show ?case using m k by (metis order_trans)
qed

text \<open>The volume of the file witnesses mounted, with the descriptor \<open>p\<close> in the first slot.\<close>

definition vfs0 :: "nat \<Rightarrow> kheap \<Rightarrow> drive vfs_state" where
  "vfs0 p h = \<lparr>fsys = files0\<lparr>kh := h, ata_dev := (ata_dev files0)\<lparr>afs := FAT16_FS\<rparr>\<rparr>, filesystems = FAT16_FS # replicate 7 0,
     fdescriptors = p # replicate 511 0, vfds = [p \<mapsto> \<lparr>vindex = 1, vinternal = 0, vdev = AtaDev, vdir_offset = 0\<rparr>],
     fat16_ready = True, vfs_errno = 0\<rparr>"

lemma vfs0_used: "p \<noteq> 0 \<Longrightarrow> fd_used 1 (vfs0 p h)"
  by (auto simp: fd_used_def vfs0_def nth_Cons split: nat.splits)

lemma vfs0_closes: "\<exists>p h s'. p \<noteq> 0 \<and> vfs_fclose 1 (vfs0 p h) = Some (0, s')"
proof -
  have b: "next_addr kheap0 + 40 \<le> KERNEL_HEAP_MAX" by (simp add: kheap0_def heap_init_def konst)
  have t: "(40 :: nat) = (20 + sizeof_heap_block) mod 2 ^ 32" by (simp add: konst)
  from heap_malloc_ok [OF kheap0_inv kheap0_frames(3) t _ b refl] obtain us vs h where
    "heap_inv h (us @ (1, False) # vs)" by auto
  from heap_free_inv [OF this] obtain h2 where
    "heap_free (KERNEL_HEAP_START + 4096 * spans us + sizeof_heap_block) h = Some h2" by blast
  then have "\<exists>s'. vfs_fclose 1 (vfs0 (KERNEL_HEAP_START + 4096 * spans us + sizeof_heap_block) h) = Some (0, s')"
    by (simp add: vfs_fclose_def get_fd_def vfs0_def deref_fd_def fat16_close_def vfs_free_def fs_kfree_def kfree_def Let_def konst)
  moreover have "KERNEL_HEAP_START + 4096 * spans us + sizeof_heap_block \<noteq> 0" by (simp add: konst)
  ultimately show ?thesis by blast
qed

text \<open>C19: In every history of calls of the VFS the used slots of the descriptor table are its first ones, no slot is ever
  given back or changed, and a call of \<open>vfs_fopen\<close> that succeeds returns the number of the first unused slot plus one.
  Closing does not free a slot.\<close>

theorem descriptor_slots_only_grow:
  assumes "(vfs_step b)\<^sup>*\<^sup>* s s'" "fd_used n s"
  shows "\<exists>m. n \<le> m \<and> fd_used m s' \<and> take n (fdescriptors s') = take n (fdescriptors s)
    \<and> (\<forall>filename mode r t. vfs_fopen b filename mode s' = Some (r, t) \<longrightarrow> r < 0 \<or> m < 512 \<and> r = int m + 1)"
proof -
  from vfs_steps_used [OF assms] obtain m where
    m: "n \<le> m" "fd_used m s'" "take n (fdescriptors s') = take n (fdescriptors s)" by blast
  have "r < 0 \<or> m < 512 \<and> r = int m + 1" if "vfs_fopen b filename mode s' = Some (r, t)" for filename mode r t
    using fopen_table [OF that] find_empty_used [OF m(2)] by (auto split: if_splits)
  with m show ?thesis by blast
qed

theorem descriptor_slots_only_grow_witness:
  "\<exists>p h s' m. vfs_fclose 1 (vfs0 p h) = Some (0, s') \<and> 1 \<le> m \<and> fd_used m s'"
proof -
  obtain p h s' where s: "p \<noteq> 0" "vfs_fclose 1 (vfs0 p h) = Some (0, s')" using vfs0_closes by blast
  then have "(vfs_step drive_bus)\<^sup>*\<^sup>* (vfs0 p h) s'" by (blast intro: vfs_step.intros)
  from descriptor_slots_only_grow [OF this vfs0_used [OF s(1)]] s show ?thesis by blast
qed

text \<open>C20: Closing a descriptor releases it but leaves its address in the table: the number stays taken, and the next read,
  seek or close with it follows a pointer to released memory.\<close>

theorem fclose_leaves_dangling_slot:
  assumes "vfs_fclose fd s = Some (0, s')" "n \<noteq> 0" "k \<noteq> 0"
  shows "fdescriptors s' ! nat (fd - 1) \<noteq> 0 \<and> vfs_fclose fd s' = None \<and> vfs_fread b nonnull n k fd s' = None
    \<and> vfs_fseek fd off whence s' = None"
proof -
  have e: "EINVAL \<noteq> 0" "EBADF \<noteq> 0" by (simp_all add: konst)
  with assms(1) have fd: "\<not> fd < 1" "get_fd fd s \<noteq> 0" by (auto simp: vfs_fclose_def Let_def split: if_splits)
  with assms(1) obtain t where "vfs_free (get_fd fd s) t = Some s'" "fdescriptors t = fdescriptors s"
    by (auto simp: vfs_fclose_def Let_def split: if_splits bind_splits)
  then have t: "fdescriptors s' = fdescriptors s" "vfds s' (get_fd fd s) = None"
    by (auto simp: vfs_free_def split: bind_splits)
  then have "get_fd fd s' = get_fd fd s" by (simp add: get_fd_def)
  moreover have "fdescriptors s ! nat (fd - 1) \<noteq> 0" using fd by (auto simp: get_fd_def split: if_splits)
  ultimately show ?thesis using fd t assms(2,3)
    by (simp add: vfs_fclose_def vfs_fread_def vfs_fseek_def deref_fd_def Let_def)
qed

theorem fclose_leaves_dangling_slot_witness:
  "\<exists>p h s'. vfs_fclose 1 (vfs0 p h) = Some (0, s') \<and> fdescriptors s' ! 0 \<noteq> 0 \<and> vfs_fclose 1 s' = None"
proof -
  obtain p h s' where s: "vfs_fclose 1 (vfs0 p h) = Some (0, s')" using vfs0_closes by blast
  moreover have "fdescriptors s' ! 0 \<noteq> 0 \<and> vfs_fclose 1 s' = None"
    using fclose_leaves_dangling_slot [OF s, of 1 1] by simp
  ultimately show ?thesis by blast
qed

end
