(* ===== verification/Rtc.thy ===== *)
theory Rtc
  imports Cmos Vfs
begin

text \<open>
  \<open>driver/rtc.c\<close>: the time zone. Names are C strings, compared up to their terminator; the clock is behind the ports of the
  device in the file system's state. The summer time of the German zone is decided once, when the zone is loaded. Messages are
  left out.
\<close>

record tz_entry =
  tz_name :: string
  tz_offset :: int

definition timezones :: "tz_entry list" where
  "timezones = [\<lparr>tz_name = ''UTC'', tz_offset = 0\<rparr>, \<lparr>tz_name = ''Europe/Berlin'', tz_offset = 2\<rparr>,
     \<lparr>tz_name = ''America/New_York'', tz_offset = - 4\<rparr>]"

text \<open>A string literal of the source as bytes, and \<open>strcmp(a, s) == 0\<close>.\<close>

definition lit :: "string \<Rightarrow> u8 list" where
  "lit s = map (\<lambda>c. of_nat (of_char c)) s"

definition same_string :: "u8 list \<Rightarrow> string \<Rightarrow> bool" where
  "same_string a s \<longleftrightarrow> takeWhile (\<lambda>x. x \<noteq> 0) a = lit s"

text \<open>Reading the clock: the device and the values kept of it change.\<close>

definition clock_call :: "('d \<Rightarrow> 'a \<times> u16 list \<times> 'd) \<Rightarrow> 'd vfs_state \<Rightarrow> 'a \<times> 'd vfs_state" where
  "clock_call f s = (let (t, v, d) = f (hw (fsys s)) in (t, s\<lparr>fsys := (fsys s)\<lparr>hw := d, cmos_values := v\<rparr>\<rparr>))"

definition is_last_sunday :: "int \<Rightarrow> int \<Rightarrow> bool" where
  "is_last_sunday dy weekday \<longleftrightarrow> dy + (7 - weekday) > 31"

definition is_summer_de :: "'d bus \<Rightarrow> rdate \<Rightarrow> 'd vfs_state \<Rightarrow> bool \<times> 'd vfs_state" where
  "is_summer_de b date s = (if rd_month date < 3 \<or> rd_month date > 10 then (False, s)
     else if rd_month date > 3 \<and> rd_month date < 10 then (True, s)
     else let is_last = is_last_sunday (rd_day date) (rd_weekday date) in
       if rd_month date = 3 then
         if is_last then let (t, s1) = clock_call (cmos_time b) s in (rt_hour t \<ge> 2, s1) else (False, s)
       else if rd_month date = 10 then
         if is_last then let (t, s1) = clock_call (cmos_time b) s in (\<not> rt_hour t \<ge> 3, s1) else (True, s)
       else (False, s))"

definition resolve_timezone_offset :: "'d bus \<Rightarrow> u8 list \<Rightarrow> 'd vfs_state \<Rightarrow> int \<times> 'd vfs_state" where
  "resolve_timezone_offset b name s = (if same_string name ''Europe/Berlin'' then
       let (date, s1) = clock_call (cmos_date b) s; (summer, s2) = is_summer_de b date s1 in (if summer then 2 else 1, s2)
     else (case find (\<lambda>z. same_string name (tz_name z)) timezones of None \<Rightarrow> 0 | Some z \<Rightarrow> tz_offset z, s))"

text \<open>The loop that ends the name at the first line end or blank of the \<open>n\<close> bytes read; behind the buffer it has no result.\<close>

fun end_name :: "nat \<Rightarrow> u8 list \<Rightarrow> u8 list option" where
  "end_name 0 buf = Some buf"
| "end_name (Suc n) [] = None"
| "end_name (Suc n) (c # buf) = (if c = 0x0A \<or> c = 0x0D \<or> c = 0x20 then Some (0 # buf) else map_option (Cons c) (end_name n buf))"

text \<open>The offset before is kept when the file cannot be read; an error of \<open>vfs_fopen\<close> is negative and passes the first test.\<close>

definition rtc_load_timezone :: "'d bus \<Rightarrow> int \<times> 'd vfs_state \<Rightarrow> (int \<times> 'd vfs_state) option" where
  "rtc_load_timezone b = (\<lambda>(timezone_offset, s). do {
     (fd, s1) \<leftarrow> vfs_fopen b (lit ''A:/ETC/TIMEZONE'') (lit ''r'') s;
     if fd = 0 then Some (timezone_offset, s1) else do {
       (n, bs, s2) \<leftarrow> vfs_fread b True 1 31 fd s1;
       (r, s3) \<leftarrow> vfs_fclose fd s2;
       let buf = bs @ replicate (32 - length bs) 0;
       if sint n \<le> 0 then Some (timezone_offset, s3) else do {
         buf \<leftarrow> end_name (unat n) buf;
         Some (resolve_timezone_offset b buf s3) } } })"

definition rtc_now :: "'d bus \<Rightarrow> int \<Rightarrow> 'd vfs_state \<Rightarrow> rtime \<times> 'd vfs_state" where
  "rtc_now b timezone_offset s = (let (t, s1) = clock_call (cmos_time b) s in (t\<lparr>rt_hour := rt_hour t + timezone_offset\<rparr>, s1))"

section \<open>Lemmas\<close>

text \<open>
  With Sunday as day 1, the last Sunday before or at a day of a month of 31 days is the last of the month exactly when it is the
  25th or later. The code misses the months in which it is the 25th.
\<close>

lemma is_last_sunday_misses_25:
  "is_last_sunday dy weekday \<longleftrightarrow> dy - (weekday - 1) \<ge> 25 \<and> dy - (weekday - 1) \<noteq> 25"
  by (auto simp: is_last_sunday_def)

text \<open>The hour is tested on every day behind the last Sunday, not only on the day of the change.\<close>

lemma summer_time_at_night:
  assumes "rd_month date = 3" "is_last_sunday (rd_day date) (rd_weekday date)" "fst (clock_call (cmos_time b) s) = t" "rt_hour t < 2"
  shows "fst (is_summer_de b date s) = False"
  using assms by (simp add: is_summer_de_def Let_def split_beta)

lemma rtc_hour_unbounded:
  assumes "cmos_clock b clock" "h < 24" "clock (hw (fsys s)) 4 = bcd h"
  shows "rt_hour (fst (rtc_now b off s)) = int h + off"
proof -
  from cmos_clock.dump_cmos_clock [OF assms(1), of "hw (fsys s)"] obtain d' where
    "dump_cmos b (hw (fsys s)) = (map (\<lambda>k. ucast (clock (hw (fsys s)) k)) [0..<128], d')" by blast
  then show ?thesis using assms(2,3) by (simp add: rtc_now_def clock_call_def cmos_time_def bcd_decode)
qed

end
