(* ===== verification/Umalloc.thy ===== *)
theory Umalloc
  imports Port_Io
begin

text \<open>
  \<open>user/libc/malloc/malloc.c\<close>: the allocator of user programs. Block headers lie in the user's memory, a total function from
  addresses to bytes since the heap page is always mapped: six 32-bit fields, 24 bytes. Every field access of the code is
  a load or a store of such a field.
\<close>

unbundle bit_operations_syntax

section \<open>State\<close>

definition UHEAP_START :: u32 where [konst]: "UHEAP_START = 0x800000"
definition UHEAP_END :: u32 where [konst]: "UHEAP_END = 0xBFFFFF"
definition MIN_BLOCK_SIZE :: u32 where [konst]: "MIN_BLOCK_SIZE = 32"
definition sizeof_block :: u32 where [konst]: "sizeof_block = 24"

type_synonym umem = "u32 \<Rightarrow> u8"

definition ld32 :: "umem \<Rightarrow> u32 \<Rightarrow> u32" where
  "ld32 m a = word32 (m a) (m (a + 1)) (m (a + 2)) (m (a + 3))"

definition st32 :: "u32 \<Rightarrow> u32 \<Rightarrow> umem \<Rightarrow> umem" where
  "st32 a v m = m(a := ucast v, a + 1 := ucast (drop_bit 8 v), a + 2 := ucast (drop_bit 16 v), a + 3 := ucast (drop_bit 24 v))"

definition b_size :: "u32 \<Rightarrow> u32" where "b_size b = b"
definition b_free :: "u32 \<Rightarrow> u32" where "b_free b = b + 4"
definition b_next :: "u32 \<Rightarrow> u32" where "b_next b = b + 8"
definition b_prev :: "u32 \<Rightarrow> u32" where "b_prev b = b + 12"
definition b_next_free :: "u32 \<Rightarrow> u32" where "b_next_free b = b + 16"
definition b_prev_free :: "u32 \<Rightarrow> u32" where "b_prev_free b = b + 20"

lemmas block_fields = b_size_def b_free_def b_next_def b_prev_def b_next_free_def b_prev_free_def

record uheap =
  heap_head :: u32
  heap_tail :: u32
  free_list :: u32
  heap_curr :: u32
  uerrno :: int
  umem :: umem

definition uheap0 :: "umem \<Rightarrow> uheap" where
  "uheap0 m = \<lparr>heap_head = 0, heap_tail = 0, free_list = 0, heap_curr = UHEAP_START, uerrno = 0, umem = m\<rparr>"

abbreviation fld :: "uheap \<Rightarrow> u32 \<Rightarrow> u32" where "fld h a \<equiv> ld32 (umem h) a"

definition sto :: "u32 \<Rightarrow> u32 \<Rightarrow> uheap \<Rightarrow> uheap" where
  "sto a v h = h\<lparr>umem := st32 a v (umem h)\<rparr>"

definition align8 :: "u32 \<Rightarrow> u32" where
  "align8 x = (x + 7) AND NOT 7"

section \<open>Operations\<close>

text \<open>The walk along the free list: it stops at the end, at an address outside the heap and at a block that follows itself.\<close>

partial_function (option) best_fit_loop :: "uheap \<Rightarrow> u32 \<Rightarrow> u32 \<Rightarrow> u32 \<Rightarrow> u32 option" where
  "best_fit_loop h aligned_size it best =
     (if it = 0 \<or> it < UHEAP_START \<or> it \<ge> UHEAP_END then Some best
      else let best' = (if fld h (b_size it) \<ge> aligned_size \<and> (best = 0 \<or> fld h (b_size it) \<le> fld h (b_size best)) then it else best) in
        if it = fld h (b_next_free it) then Some best'
        else best_fit_loop h aligned_size (fld h (b_next_free it)) best')"

definition find_best_fit_free_block :: "u32 \<Rightarrow> uheap \<Rightarrow> u32 option" where
  "find_best_fit_free_block aligned_size h = (if aligned_size = 0 then Some 0 else best_fit_loop h aligned_size (free_list h) 0)"

definition split_block :: "u32 \<Rightarrow> u32 \<Rightarrow> uheap \<Rightarrow> uheap" where
  "split_block block aligned_size h = (let new = block + sizeof_block + aligned_size in
     if new + sizeof_block > UHEAP_END then h
     else let
       h1 = sto (b_free new) 1 h;
       h2 = sto (b_size new) (fld h1 (b_size block) - aligned_size - sizeof_block) h1;
       h3 = sto (b_prev_free new) 0 (sto (b_next_free new) (free_list h2) h2);
       h4 = (if free_list h3 \<noteq> 0 then sto (b_prev_free (free_list h3)) new h3 else h3);
       h5 = h4\<lparr>free_list := new\<rparr>;
       h6 = sto (b_prev new) block (sto (b_next new) (fld h5 (b_next block)) h5);
       h7 = (if fld h6 (b_next block) \<noteq> 0 then sto (b_prev (fld h6 (b_next block))) new h6 else h6);
       h8 = sto (b_size block) aligned_size (sto (b_next block) new h7)
     in if fld h8 (b_next new) = 0 then h8\<lparr>heap_tail := new\<rparr> else h8)"

definition remove_from_free_list :: "u32 \<Rightarrow> uheap \<Rightarrow> uheap" where
  "remove_from_free_list block h = (if block = 0 then h
     else let
       prv = fld h (b_prev_free block);
       nxt = fld h (b_next_free block);
       h1 = (if prv = 0 then h\<lparr>free_list := nxt\<rparr> else sto (b_next_free prv) nxt h);
       h2 = (if nxt \<noteq> 0 then sto (b_prev_free nxt) prv h1 else h1)
     in sto (b_prev_free block) 0 (sto (b_next_free block) 0 h2))"

definition make_new_block :: "u32 \<Rightarrow> uheap \<Rightarrow> u32 \<times> uheap" where
  "make_new_block aligned_size h = (let new_block_size = aligned_size + sizeof_block; new = heap_curr h in
     if heap_curr h + new_block_size \<ge> UHEAP_END then (0, h\<lparr>uerrno := ENOMEM\<rparr>)
     else let
       h1 = sto (b_size new) aligned_size (sto (b_free new) 0 h);
       h2 = sto (b_prev new) (heap_tail h1) (sto (b_next new) 0 h1);
       h3 = (if heap_head h2 = 0 then h2\<lparr>heap_head := new, heap_tail := new\<rparr>
             else (sto (b_prev new) (heap_tail h2) (sto (b_next (heap_tail h2)) new h2))\<lparr>heap_tail := new\<rparr>);
       h4 = sto (b_next_free new) 0 (sto (b_prev_free new) 0 h3)
     in (new + sizeof_block, h4\<lparr>heap_curr := heap_curr h4 + new_block_size\<rparr>))"

definition malloc :: "u32 \<Rightarrow> uheap \<Rightarrow> (u32 \<times> uheap) option" where
  "malloc sz h = (if sz = 0 then Some (0, h\<lparr>uerrno := EINVAL\<rparr>)
     else let aligned_size = align8 sz in do {
       best \<leftarrow> find_best_fit_free_block aligned_size h;
       if best \<noteq> 0 then
         let h1 = (if fld h (b_size best) \<ge> aligned_size + sizeof_block + MIN_BLOCK_SIZE then split_block best aligned_size h else h);
             h2 = sto (b_free best) 0 (remove_from_free_list best h1)
         in Some (best + sizeof_block, h2)
       else Some (make_new_block aligned_size h) })"

text \<open>\<open>memset\<close> and \<open>memcpy\<close> of the user's C library, upwards byte by byte.\<close>

primrec umemset :: "u32 \<Rightarrow> u8 \<Rightarrow> nat \<Rightarrow> umem \<Rightarrow> umem" where
  "umemset p v 0 m = m"
| "umemset p v (Suc n) m = umemset (p + 1) v n (m(p := v))"

primrec umemcpy :: "u32 \<Rightarrow> u32 \<Rightarrow> nat \<Rightarrow> umem \<Rightarrow> umem" where
  "umemcpy d s 0 m = m"
| "umemcpy d s (Suc n) m = umemcpy (d + 1) (s + 1) n (m(d := m s))"

definition calloc :: "u32 \<Rightarrow> u32 \<Rightarrow> uheap \<Rightarrow> (u32 \<times> uheap) option" where
  "calloc nmemb sz h = (if nmemb = 0 \<or> sz = 0 then malloc 0 h
     else if nmemb > 0xFFFFFFFF div sz then Some (0, h\<lparr>uerrno := ENOMEM\<rparr>)
     else do {
       (ptr, h1) \<leftarrow> malloc (nmemb * sz) h;
       if ptr = 0 then Some (0, h1\<lparr>uerrno := ENOMEM\<rparr>)
       else Some (ptr, h1\<lparr>umem := umemset ptr 0 (unat (nmemb * sz)) (umem h1)\<rparr>) })"

text \<open>Taking a neighbour out of the free list before merging with it.\<close>

definition unlink_free :: "u32 \<Rightarrow> uheap \<Rightarrow> uheap" where
  "unlink_free b h = (let
     h1 = (if fld h (b_prev_free b) \<noteq> 0 then sto (b_next_free (fld h (b_prev_free b))) (fld h (b_next_free b)) h else h);
     h2 = (if fld h1 (b_next_free b) \<noteq> 0 then sto (b_prev_free (fld h1 (b_next_free b))) (fld h1 (b_prev_free b)) h1 else h1)
   in if free_list h2 = b then h2\<lparr>free_list := fld h2 (b_next_free b)\<rparr> else h2)"

text \<open>\<open>a\<close> absorbs its successor \<open>b\<close>.\<close>

definition absorb :: "u32 \<Rightarrow> u32 \<Rightarrow> uheap \<Rightarrow> uheap" where
  "absorb a b h = (let
     h1 = sto (b_size a) (fld h (b_size a) + (fld h (b_size b) + sizeof_block)) h;
     h2 = sto (b_next a) (fld h1 (b_next b)) h1
   in if fld h2 (b_next b) \<noteq> 0 then sto (b_prev (fld h2 (b_next b))) a h2 else h2)"

definition free :: "u32 \<Rightarrow> uheap \<Rightarrow> uheap" where
  "free ptr h = (if ptr = 0 then h
     else let block = ptr - sizeof_block in
       if fld h (b_size block) = 0 \<or> block < UHEAP_START \<or> block \<ge> UHEAP_END then h
       else if fld h (b_free block) \<noteq> 0 then h
       else let
         h1 = sto (b_free block) 1 h;
         nxt = fld h1 (b_next block);
         h2 = (if nxt \<noteq> 0 \<and> fld h1 (b_free nxt) \<noteq> 0 then absorb block nxt (unlink_free nxt h1) else h1);
         prv = fld h2 (b_prev block);
         (block2, h3) = (if prv \<noteq> 0 \<and> fld h2 (b_free prv) \<noteq> 0 then (prv, absorb prv block (unlink_free prv h2)) else (block, h2));
         h4 = sto (b_prev_free block2) 0 (sto (b_next_free block2) (free_list h3) h3);
         h5 = (if free_list h4 \<noteq> 0 then sto (b_prev_free (free_list h4)) block2 h4 else h4)
       in h5\<lparr>free_list := block2\<rparr>)"

definition realloc :: "u32 \<Rightarrow> u32 \<Rightarrow> uheap \<Rightarrow> (u32 \<times> uheap) option" where
  "realloc ptr sz h = (if ptr = 0 then malloc sz h
     else if sz = 0 then Some (0, free ptr h)
     else let requested = ptr - sizeof_block in
       if fld h (b_size requested) \<ge> sz then Some (ptr, h)
       else do {
         (new, h1) \<leftarrow> malloc sz h;
         if new = 0 then Some (0, h1)
         else Some (new, free ptr (h1\<lparr>umem := umemcpy new ptr (unat (fld h1 (b_size requested))) (umem h1)\<rparr>)) })"

section \<open>Loads and stores\<close>

lemma ld_st_same [simp]: "ld32 (st32 a v m) a = v"
  by (simp add: ld32_def st32_def)

lemma ld_st_other: "4 \<le> b - a \<Longrightarrow> 4 \<le> a - b \<Longrightarrow> ld32 (st32 a v m) b = ld32 m b"
proof -
  assume d: "4 \<le> b - a" "4 \<le> a - b"
  have ne: "b + i \<noteq> a + j" if "i \<in> {0, 1, 2, 3}" "j \<in> {0, 1, 2, 3}" for i j :: u32
  proof
    assume "b + i = a + j"
    then have "b - a = j - i" "a - b = i - j" by (simp_all add: algebra_simps)
    then show False using d that by (auto simp: word_le_nat_alt)
  qed
  have "st32 a v m (b + i) = m (b + i)" if "i \<in> {0, 1, 2, 3}" for i
    using ne [OF that, of 0] ne [OF that, of 1] ne [OF that, of 2] ne [OF that, of 3] by (simp add: st32_def)
  from this [of 0] this [of 1] this [of 2] this [of 3] show ?thesis by (simp add: ld32_def)
qed

lemma uheap_simps [simp]:
  "umem (sto a v h) = st32 a v (umem h)" "heap_head (sto a v h) = heap_head h" "heap_tail (sto a v h) = heap_tail h"
  "free_list (sto a v h) = free_list h" "heap_curr (sto a v h) = heap_curr h" "uerrno (sto a v h) = uerrno h"
  by (simp_all add: sto_def)

section \<open>A stale tail\<close>

definition block :: "uheap \<Rightarrow> u32 \<Rightarrow> u32 list \<Rightarrow> bool" where
  "block h b fs \<longleftrightarrow> [fld h (b_size b), fld h (b_free b), fld h (b_next b), fld h (b_prev b), fld h (b_next_free b), fld h (b_prev_free b)] = fs"

definition ends :: "uheap \<Rightarrow> u32 list \<Rightarrow> bool" where
  "ends h es \<longleftrightarrow> [heap_head h, heap_tail h, free_list h, heap_curr h] = es"

lemmas uheap_eval = malloc_def free_def find_best_fit_free_block_def make_new_block_def
  remove_from_free_list_def unlink_free_def absorb_def align8_def konst Let_def block_fields ld_st_other block_def ends_def

text \<open>The blocks \<open>A = 0x800000\<close>, \<open>B = 0x800020\<close> and \<open>C = 0x800040\<close> through the calls.\<close>

lemma run1: "\<exists>h. malloc 8 (uheap0 m) = Some (0x800018, h) \<and> ends h [0x800000, 0x800000, 0, 0x800020] \<and> block h 0x800000 [8, 0, 0, 0, 0, 0]"
  by (simp add: uheap_eval best_fit_loop.simps uheap0_def)

lemma run2:
  "ends h [0x800000, 0x800000, 0, 0x800020] \<Longrightarrow> block h 0x800000 [8, 0, 0, 0, 0, 0] \<Longrightarrow>
   \<exists>h'. malloc 8 h = Some (0x800038, h') \<and> ends h' [0x800000, 0x800020, 0, 0x800040]
     \<and> block h' 0x800000 [8, 0, 0x800020, 0, 0, 0] \<and> block h' 0x800020 [8, 0, 0, 0x800000, 0, 0]"
  by (simp add: uheap_eval best_fit_loop.simps)

lemma run3:
  "ends h [0x800000, 0x800020, 0, 0x800040] \<Longrightarrow> block h 0x800000 [8, 0, 0x800020, 0, 0, 0] \<Longrightarrow> block h 0x800020 [8, 0, 0, 0x800000, 0, 0] \<Longrightarrow>
   ends (free 0x800038 h) [0x800000, 0x800020, 0x800020, 0x800040] \<and> block (free 0x800038 h) 0x800000 [8, 0, 0x800020, 0, 0, 0]
     \<and> block (free 0x800038 h) 0x800020 [8, 1, 0, 0x800000, 0, 0]"
  by (simp add: uheap_eval)

lemma run4:
  "ends h [0x800000, 0x800020, 0x800020, 0x800040] \<Longrightarrow> block h 0x800000 [8, 0, 0x800020, 0, 0, 0] \<Longrightarrow> block h 0x800020 [8, 1, 0, 0x800000, 0, 0] \<Longrightarrow>
   ends (free 0x800018 h) [0x800000, 0x800020, 0x800000, 0x800040] \<and> block (free 0x800018 h) 0x800000 [40, 1, 0, 0, 0, 0]
     \<and> block (free 0x800018 h) 0x800020 [8, 1, 0, 0x800000, 0, 0]"
  by (simp add: uheap_eval)

lemma run5:
  "ends h [0x800000, 0x800020, 0x800000, 0x800040] \<Longrightarrow> block h 0x800000 [40, 1, 0, 0, 0, 0] \<Longrightarrow> block h 0x800020 [8, 1, 0, 0x800000, 0, 0] \<Longrightarrow>
   \<exists>h'. malloc 100 h = Some (0x800058, h') \<and> ends h' [0x800000, 0x800040, 0x800000, 0x8000C0] \<and> block h' 0x800000 [40, 1, 0, 0, 0, 0]
     \<and> block h' 0x800020 [8, 1, 0x800040, 0x800000, 0, 0] \<and> block h' 0x800040 [104, 0, 0, 0x800020, 0, 0]"
  by (simp add: uheap_eval best_fit_loop.simps)

lemma run6:
  "ends h [0x800000, 0x800040, 0x800000, 0x8000C0] \<Longrightarrow> block h 0x800000 [40, 1, 0, 0, 0, 0] \<Longrightarrow>
   block h 0x800020 [8, 1, 0x800040, 0x800000, 0, 0] \<Longrightarrow> block h 0x800040 [104, 0, 0, 0x800020, 0, 0] \<Longrightarrow>
   ends (free 0x800058 h) [0x800000, 0x800040, 0x800020, 0x8000C0] \<and> block (free 0x800058 h) 0x800000 [40, 1, 0, 0, 0, 0x800020]
     \<and> block (free 0x800058 h) 0x800020 [136, 1, 0, 0x800000, 0x800000, 0]"
  by (simp add: uheap_eval)

lemma run7:
  "ends h [0x800000, 0x800040, 0x800020, 0x8000C0] \<Longrightarrow> block h 0x800000 [40, 1, 0, 0, 0, 0x800020] \<Longrightarrow>
   block h 0x800020 [136, 1, 0, 0x800000, 0x800000, 0] \<Longrightarrow>
   \<exists>h'. malloc 40 h = Some (0x800018, h') \<and> ends h' [0x800000, 0x800040, 0x800020, 0x8000C0] \<and> block h' 0x800020 [136, 1, 0, 0x800000, 0, 0]"
  by (simp add: uheap_eval best_fit_loop.simps)

lemma run8:
  "ends h [0x800000, 0x800040, 0x800020, 0x8000C0] \<Longrightarrow> block h 0x800020 [136, 1, 0, 0x800000, 0, 0] \<Longrightarrow>
   \<exists>h'. malloc 100 h = Some (0x800038, h')"
  by (simp add: uheap_eval best_fit_loop.simps)

text \<open>C26: Merging a freed block with the last block of the heap does not move \<open>heap_tail\<close>, which then points into the merged
  block. A program that frees two neighbours, allocates behind them and frees again gets two live allocations that
  overlap: the 40 bytes at \<open>p\<close> contain the beginning of the 100 bytes at \<open>q\<close>.\<close>

theorem live_allocations_overlap:
  "\<exists>p q. do {
      (a, h1) \<leftarrow> malloc 8 (uheap0 m);
      (b, h2) \<leftarrow> malloc 8 h1;
      (c, h3) \<leftarrow> malloc 100 (free a (free b h2));
      (p, h4) \<leftarrow> malloc 40 (free c h3);
      (q, h5) \<leftarrow> malloc 100 h4;
      Some (p, q) } = Some (p, q) \<and> unat p < unat q \<and> unat q < unat p + 40"
proof -
  from run1 [of m] obtain h1 where h1: "malloc 8 (uheap0 m) = Some (0x800018, h1)"
    "ends h1 [0x800000, 0x800000, 0, 0x800020]" "block h1 0x800000 [8, 0, 0, 0, 0, 0]" by blast
  from run2 [OF h1(2,3)] obtain h2 where h2: "malloc 8 h1 = Some (0x800038, h2)" "ends h2 [0x800000, 0x800020, 0, 0x800040]"
    "block h2 0x800000 [8, 0, 0x800020, 0, 0, 0]" "block h2 0x800020 [8, 0, 0, 0x800000, 0, 0]" by blast
  note r4 = run4 [OF run3 [OF h2(2-4), THEN conjunct1] run3 [OF h2(2-4), THEN conjunct2, THEN conjunct1]
      run3 [OF h2(2-4), THEN conjunct2, THEN conjunct2]]
  from run5 [OF r4 [THEN conjunct1] r4 [THEN conjunct2, THEN conjunct1] r4 [THEN conjunct2, THEN conjunct2]] obtain h3 where
    h3: "malloc 100 (free 0x800018 (free 0x800038 h2)) = Some (0x800058, h3)" "ends h3 [0x800000, 0x800040, 0x800000, 0x8000C0]"
      "block h3 0x800000 [40, 1, 0, 0, 0, 0]" "block h3 0x800020 [8, 1, 0x800040, 0x800000, 0, 0]"
      "block h3 0x800040 [104, 0, 0, 0x800020, 0, 0]" by blast
  note r6 = run6 [OF h3(2-5)]
  from run7 [OF r6 [THEN conjunct1] r6 [THEN conjunct2, THEN conjunct1] r6 [THEN conjunct2, THEN conjunct2]] obtain h4 where
    h4: "malloc 40 (free 0x800058 h3) = Some (0x800018, h4)" "ends h4 [0x800000, 0x800040, 0x800020, 0x8000C0]"
      "block h4 0x800020 [136, 1, 0, 0x800000, 0, 0]" by blast
  from run8 [OF h4(2,3)] obtain h5 where "malloc 100 h4 = Some (0x800038, h5)" by blast
  then show ?thesis using h1(1) h2(1) h3(1) h4(1) by simp
qed

section \<open>Best fit\<close>

text \<open>A free list that is a list of blocks of the heap, and the block the search is meant to find: among the smallest blocks
  that fit the last one.\<close>

fun free_chain :: "uheap \<Rightarrow> u32 \<Rightarrow> u32 list \<Rightarrow> bool" where
  "free_chain h p [] \<longleftrightarrow> p = 0"
| "free_chain h p (b # bs) \<longleftrightarrow> p = b \<and> UHEAP_START \<le> b \<and> b < UHEAP_END \<and> fld h (b_next_free b) \<noteq> b
     \<and> free_chain h (fld h (b_next_free b)) bs"

definition best_of :: "(u32 \<Rightarrow> u32) \<Rightarrow> u32 \<Rightarrow> u32 list \<Rightarrow> u32" where
  "best_of sz n bs = (let fits = filter (\<lambda>b. n \<le> sz b) bs in
     if fits = [] then 0 else last (filter (\<lambda>b. sz b = Min (sz ` set fits)) fits))"

lemma best_of_fits:
  assumes "filter (\<lambda>b. n \<le> sz b) bs \<noteq> []"
  shows "best_of sz n bs \<in> set bs" "sz (best_of sz n bs) = Min (sz ` set (filter (\<lambda>b. n \<le> sz b) bs))"
proof -
  let ?f = "filter (\<lambda>b. n \<le> sz b) bs"
  have "Min (sz ` set ?f) \<in> sz ` set ?f" using assms by (intro Min_in) (auto simp: filter_empty_conv)
  then have "filter (\<lambda>b. sz b = Min (sz ` set ?f)) ?f \<noteq> []" by (auto simp: filter_empty_conv)
  from last_in_set [OF this] assms have "best_of sz n bs \<in> set (filter (\<lambda>b. sz b = Min (sz ` set ?f)) ?f)"
    by (simp only: best_of_def Let_def if_False)
  then show "best_of sz n bs \<in> set bs" "sz (best_of sz n bs) = Min (sz ` set ?f)" by auto
qed

lemma best_of_snoc:
  assumes "0 \<notin> set bs"
  shows "best_of sz n (bs @ [b]) = (if n \<le> sz b \<and> (best_of sz n bs = 0 \<or> sz b \<le> sz (best_of sz n bs)) then b else best_of sz n bs)"
proof (cases "filter (\<lambda>b. n \<le> sz b) bs = []")
  case True
  then show ?thesis by (auto simp: best_of_def Let_def)
next
  case False
  let ?f = "filter (\<lambda>b. n \<le> sz b) bs" and ?m = "Min (sz ` set (filter (\<lambda>b. n \<le> sz b) bs))"
  have nz: "best_of sz n bs \<noteq> 0" using best_of_fits(1) [OF False] assms by auto
  show ?thesis
  proof (cases "n \<le> sz b")
    case n: True
    have "sz ` set ?f \<noteq> {}" using False by (auto simp: filter_empty_conv)
    then have m: "Min (sz ` set (?f @ [b])) = min (sz b) ?m" by (simp add: Min_insert del: set_filter)
    show ?thesis
    proof (cases "sz b \<le> ?m")
      case True
      then have "Min (sz ` set (?f @ [b])) = sz b" using m by simp
      then show ?thesis using n True nz best_of_fits(2) [OF False] by (simp add: best_of_def Let_def)
    next
      case f: False
      then have "Min (sz ` set (?f @ [b])) = ?m" using m by simp
      then show ?thesis using n f nz best_of_fits(2) [OF False] False by (simp add: best_of_def Let_def)
    qed
  next
    case f: False
    then show ?thesis by (simp add: best_of_def Let_def)
  qed
qed

lemma best_fit_loop_best:
  "free_chain h p bs \<Longrightarrow> 0 \<notin> set xs \<Longrightarrow>
   best_fit_loop h n p (best_of (\<lambda>b. fld h (b_size b)) n xs) = Some (best_of (\<lambda>b. fld h (b_size b)) n (xs @ bs))"
proof (induction bs arbitrary: p xs)
  case Nil
  then show ?case by (simp add: best_fit_loop.simps)
next
  case (Cons b bs)
  let ?sz = "\<lambda>b. fld h (b_size b)"
  have b: "b \<noteq> 0" using Cons.prems(1) by (auto simp: konst)
  have st: "(if fld h (b_size b) \<ge> n \<and> (best_of ?sz n xs = 0 \<or> fld h (b_size b) \<le> fld h (b_size (best_of ?sz n xs))) then b else best_of ?sz n xs)
      = best_of ?sz n (xs @ [b])" using best_of_snoc [OF Cons.prems(2), of ?sz n b] by simp
  have "best_fit_loop h n b (best_of ?sz n xs) = best_fit_loop h n (fld h (b_next_free b)) (best_of ?sz n (xs @ [b]))"
    using Cons.prems(1) b unfolding st [symmetric] by (subst best_fit_loop.simps) (auto simp: Let_def)
  also have "\<dots> = Some (best_of ?sz n ((xs @ [b]) @ bs))" using Cons b by (intro Cons.IH) auto
  finally show ?case using Cons.prems(1) by simp
qed

text \<open>C27: On a well-formed free list the search returns, and what it returns is the best fit: 0 if no block is large enough,
  otherwise the last block of the least sufficient size.\<close>

theorem best_fit_is_best:
  assumes "free_chain h (free_list h) bs" "n \<noteq> 0"
  shows "find_best_fit_free_block n h = Some (best_of (\<lambda>b. fld h (b_size b)) n bs)"
proof -
  have "best_of (\<lambda>b. fld h (b_size b)) n [] = 0" by (simp add: best_of_def Let_def)
  then show ?thesis using best_fit_loop_best [OF assms(1), of "[]" n] assms(2) by (simp add: find_best_fit_free_block_def)
qed

theorem best_fit_is_best_witness:
  "find_best_fit_free_block 40 \<lparr>heap_head = 0x800000, heap_tail = 0x800040, free_list = 0x800020, heap_curr = 0x8000C0, uerrno = 0,
     umem = st32 (b_size 0x800020) 136 (st32 (b_next_free 0x800020) 0x800000 (st32 (b_size 0x800000) 40 (\<lambda>_. 0)))\<rparr> = Some 0x800000"
proof -
  let ?h = "\<lparr>heap_head = 0x800000, heap_tail = 0x800040, free_list = 0x800020, heap_curr = 0x8000C0, uerrno = 0,
     umem = st32 (b_size 0x800020) 136 (st32 (b_next_free 0x800020) 0x800000 (st32 (b_size 0x800000) 40 (\<lambda>_. 0)))\<rparr>"
  have z: "ld32 (\<lambda>_. 0) a = 0" for a by (simp add: ld32_def word32_def)
  have c: "free_chain ?h (free_list ?h) [0x800020, 0x800000]" by (simp add: konst block_fields ld_st_other z)
  have "best_of (\<lambda>b. fld ?h (b_size b)) 40 [0x800020, 0x800000] = 0x800000"
    by (simp add: best_of_def block_fields ld_st_other z)
  then show ?thesis using best_fit_is_best [OF c, of 40] by simp
qed

section \<open>Large requests\<close>

text \<open>The sum of the end of the heap and the size of a new block wraps. A request of more than 4 GiB less the part of the
  address space below the heap is granted, and the heap grows downwards: the next block is placed below the one just
  returned, in the code or data of the program.\<close>

theorem huge_malloc_is_granted:
  assumes "free_list h = 0" "UHEAP_START \<le> heap_curr h" "heap_curr h < UHEAP_END"
    and "2 ^ 32 \<le> unat (heap_curr h) + unat sz + 24" "unat sz + 32 < 2 ^ 32"
  shows "\<exists>h'. malloc sz h = Some (heap_curr h + sizeof_block, h') \<and> heap_curr h' < heap_curr h"
proof -
  have seven: "unat (sz + 7) = unat sz + 7" using assms(5) by (subst unat_add_small) auto
  have "(7 :: u32) = mask 3" by (simp add: mask_eq_exp_minus_1)
  then have "unat (align8 sz) = unat (sz + 7) - unat (sz + 7) mod 2 ^ 3" unfolding align8_def by (metis unat_and_not_mask)
  then have al: "unat sz \<le> unat (align8 sz)" "unat (align8 sz) \<le> unat sz + 7" using seven mod_less_divisor [of 8 "unat sz + 7"] by auto
  then have nb: "unat (align8 sz + sizeof_block) = unat (align8 sz) + 24"
    using assms(5) by (subst unat_add_small) (auto simp: konst)
  have curr: "unat (heap_curr h) < unat UHEAP_END" using assms(3) by (simp add: word_less_nat_alt)
  have "unat (heap_curr h + (align8 sz + sizeof_block)) = (unat (heap_curr h) + unat (align8 sz) + 24) mod 2 ^ 32"
    by (subst unat_word_ariths(1)) (simp add: nb add.assoc)
  also have "\<dots> = unat (heap_curr h) + unat (align8 sz) + 24 - 2 ^ 32"
    using assms(4,5) al curr by (simp add: mod_if konst)
  finally have "unat (heap_curr h + (align8 sz + sizeof_block)) < unat (heap_curr h)"
    using assms(2,5) al by (simp add: word_le_nat_alt konst)
  then have low: "heap_curr h + (align8 sz + sizeof_block) < heap_curr h" by (simp add: word_less_nat_alt)
  then have "\<not> UHEAP_END \<le> heap_curr h + (align8 sz + sizeof_block)" using assms(3) by simp
  moreover have "sz \<noteq> 0" "align8 sz \<noteq> 0" using assms(4) al curr by (auto simp: konst unat_eq_zero)
  ultimately show ?thesis using assms(1) low
    by (simp add: malloc_def find_best_fit_free_block_def best_fit_loop.simps make_new_block_def Let_def)
qed

theorem huge_malloc_is_granted_witness: "\<exists>h'. malloc 0xFF900000 (uheap0 (\<lambda>_. 0)) = Some (0x800018, h') \<and> heap_curr h' < 0x800000"
proof -
  have "free_list (uheap0 (\<lambda>_. 0)) = 0" "UHEAP_START \<le> heap_curr (uheap0 (\<lambda>_. 0))" "heap_curr (uheap0 (\<lambda>_. 0)) < UHEAP_END"
    "2 ^ 32 \<le> unat (heap_curr (uheap0 (\<lambda>_. 0))) + unat (0xFF900000 :: u32) + 24" "unat (0xFF900000 :: u32) + 32 < 2 ^ 32"
    by (simp_all add: uheap0_def konst)
  from huge_malloc_is_granted [OF this] show ?thesis by (simp add: uheap0_def konst)
qed

end
