(* ===== verification/Ustring.thy ===== *)
theory Ustring
  imports Umalloc
begin

text \<open>
  The string functions of the user's C library, \<open>user/libc/string.c\<close> and \<open>user/libc/string/strerror.c\<close>, on the memory of the
  user's heap. A string literal is the list of its characters; every other string lies in memory. A loop that stops only at a
  terminator is a \<open>partial_function\<close>.
\<close>

section \<open>Functions\<close>

partial_function (option) strlen_loop :: "umem \<Rightarrow> u32 \<Rightarrow> nat \<Rightarrow> nat option" where
  "strlen_loop m p n = (if m p = 0 then Some n else strlen_loop m (p + 1) (n + 1))"

definition ustrlen :: "umem \<Rightarrow> u32 \<Rightarrow> nat option" where
  "ustrlen m s = strlen_loop m s 0"

text \<open>Comparison of a string in memory with a literal.\<close>

primrec ustrcmp :: "umem \<Rightarrow> u32 \<Rightarrow> u8 list \<Rightarrow> int" where
  "ustrcmp m s [] = uint (m s)"
| "ustrcmp m s (c # cs) = (if m s \<noteq> 0 \<and> m s = c then ustrcmp m (s + 1) cs else uint (m s) - uint c)"

text \<open>The loops of \<open>strncpy\<close>: copying while the source goes on, then padding.\<close>

primrec ustrncpy_pad :: "u32 \<Rightarrow> nat \<Rightarrow> umem \<Rightarrow> umem" where
  "ustrncpy_pad d 0 m = m"
| "ustrncpy_pad d (Suc n) m = ustrncpy_pad (d + 1) n (m(d := 0))"

primrec ustrncpy :: "u32 \<Rightarrow> u32 \<Rightarrow> nat \<Rightarrow> umem \<Rightarrow> umem" where
  "ustrncpy d s 0 m = m"
| "ustrncpy d s (Suc n) m = (if m s \<noteq> 0 then ustrncpy (d + 1) (s + 1) n (m(d := m s)) else ustrncpy_pad d (Suc n) m)"

text \<open>The same from an array outside the heap.\<close>

primrec ustrncpy_from :: "u32 \<Rightarrow> u8 list \<Rightarrow> nat \<Rightarrow> umem \<Rightarrow> umem" where
  "ustrncpy_from d src 0 m = m"
| "ustrncpy_from d src (Suc n) m = (case src of c # cs \<Rightarrow> ustrncpy_from (d + 1) cs n (m(d := c)) | [] \<Rightarrow> ustrncpy_pad d (Suc n) m)"

text \<open>The position of a character in a literal; the terminator is found too.\<close>

primrec ustrchr :: "u8 list \<Rightarrow> u8 \<Rightarrow> nat option" where
  "ustrchr [] c = (if c = 0 then Some 0 else None)"
| "ustrchr (x # xs) c = (if x = c then Some 0 else map_option Suc (ustrchr xs c))"

partial_function (option) skip_delims :: "umem \<Rightarrow> u8 list \<Rightarrow> u32 \<Rightarrow> u32 option" where
  "skip_delims m delim p = (if m p \<noteq> 0 \<and> ustrchr delim (m p) \<noteq> None then skip_delims m delim (p + 1) else Some p)"

partial_function (option) skip_token :: "umem \<Rightarrow> u8 list \<Rightarrow> u32 \<Rightarrow> u32 option" where
  "skip_token m delim p = (if m p \<noteq> 0 \<and> ustrchr delim (m p) = None then skip_token m delim (p + 1) else Some p)"

text \<open>\<open>strtok\<close> with its static pointer: the token, the pointer and the memory afterwards.\<close>

definition strtok :: "u32 \<Rightarrow> u8 list \<Rightarrow> u32 \<times> umem \<Rightarrow> (u32 \<times> u32 \<times> umem) option" where
  "strtok str delim = (\<lambda>(strtok_ptr, m). let ptr = (if str \<noteq> 0 then str else strtok_ptr) in
     if ptr = 0 \<or> m ptr = 0 then Some (0, ptr, m)
     else do {
       token_start \<leftarrow> skip_delims m delim ptr;
       if m token_start = 0 then Some (0, token_start, m)
       else do {
         stop \<leftarrow> skip_token m delim token_start;
         Some (if m stop \<noteq> 0 then (token_start, stop + 1, m(stop := 0)) else (token_start, stop, m)) } })"

definition EPERM :: int where [konst]: "EPERM = 1"
definition EINTR :: int where [konst]: "EINTR = 4"
definition EMFILE :: int where [konst]: "EMFILE = 24"
definition ENOTDIR :: int where [konst]: "ENOTDIR = 20"
definition EISDIR :: int where [konst]: "EISDIR = 21"
definition EAGAIN :: int where [konst]: "EAGAIN = 11"

definition strerror :: "int \<Rightarrow> string" where
  "strerror errnum =
     (if errnum = EPERM then ''Operation not permitted''
      else if errnum = ENOENT then ''No such file or directory''
      else if errnum = ESRCH then ''No such process''
      else if errnum = EINTR then ''Interrupted system call''
      else if errnum = EIO then ''I/O error''
      else if errnum = EBADF then ''Bad file descriptor''
      else if errnum = EINVAL then ''Invalid argument''
      else if errnum = ENOMEM then ''Out of memory''
      else if errnum = EMFILE then ''Too many open files''
      else if errnum = ENOTDIR then ''Not a directory''
      else if errnum = EISDIR then ''Is a directory''
      else if errnum = EAGAIN then ''Resource temporarily unavailable''
      else ''Unknown error'')"

section \<open>Strings in memory\<close>

fun ustr :: "umem \<Rightarrow> u32 \<Rightarrow> u8 list \<Rightarrow> bool" where
  "ustr m s [] \<longleftrightarrow> m s = 0"
| "ustr m s (c # cs) \<longleftrightarrow> m s = c \<and> c \<noteq> 0 \<and> ustr m (s + 1) cs"

lemma strlen_loop_ustr: "ustr m s cs \<Longrightarrow> strlen_loop m s n = Some (n + length cs)"
  by (induction m s cs arbitrary: n rule: ustr.induct) (simp_all add: strlen_loop.simps)

lemma ustrlen_ustr [simp]: "ustr m s cs \<Longrightarrow> ustrlen m s = Some (length cs)"
  by (simp add: ustrlen_def strlen_loop_ustr)

lemma ustrcmp_ustr: "ustr m s cs \<Longrightarrow> 0 \<notin> set ds \<Longrightarrow> ustrcmp m s ds = 0 \<longleftrightarrow> cs = ds"
proof (induction m s cs arbitrary: ds rule: ustr.induct)
  case (1 m s)
  then show ?case by (cases ds) (auto simp: unsigned_eq_0_iff)
next
  case (2 m s c cs)
  then show ?case by (cases ds) (auto simp flip: word_uint_eq_iff simp: unsigned_eq_0_iff)
qed

lemma ustrchr_iff: "ustrchr delim c \<noteq> None \<longleftrightarrow> c \<in> set delim \<or> c = 0"
  by (induction delim) auto

lemma ustr_append: "ustr m s (cs @ ds) \<longleftrightarrow> (\<forall>i < length cs. m (s + of_nat i) = cs ! i) \<and> 0 \<notin> set cs \<and> ustr m (s + of_nat (length cs)) ds"
  by (induction cs arbitrary: s) (auto simp: nth_Cons' less_Suc_eq_0_disj algebra_simps)

lemma ustr_nonzero: "ustr m s cs \<Longrightarrow> 0 \<notin> set cs"
  by (induction m s cs rule: ustr.induct) auto

lemma skip_delims_ustr:
  "ustr m s cs \<Longrightarrow> skip_delims m delim s = Some (s + of_nat (length (takeWhile (\<lambda>c. c \<in> set delim) cs)))"
  by (induction m s cs rule: ustr.induct) (simp_all add: skip_delims.simps ustrchr_iff del: not_None_eq)

lemma skip_token_ustr:
  "ustr m s cs \<Longrightarrow> skip_token m delim s = Some (s + of_nat (length (takeWhile (\<lambda>c. c \<notin> set delim) cs)))"
proof (induction m s cs rule: ustr.induct)
  case (2 m s c cs)
  then have "ustrchr delim (m s) = None \<longleftrightarrow> c \<notin> set delim" using ustrchr_iff [of delim c] by auto
  then show ?case using 2 by (simp add: skip_token.simps)
qed (simp add: skip_token.simps)

text \<open>Bytes that lie in memory one after the other, wrapping at the end of the address space.\<close>

definition lies_at :: "umem \<Rightarrow> u32 \<Rightarrow> u8 list \<Rightarrow> bool" where
  "lies_at m a bs \<longleftrightarrow> (\<forall>i < length bs. m (a + of_nat i) = bs ! i)"

lemma lies_at_simps [simp]: "lies_at m a []" "lies_at m a (b # bs) \<longleftrightarrow> m a = b \<and> lies_at m (a + 1) bs"
  by (auto simp: lies_at_def nth_Cons' less_Suc_eq_0_disj algebra_simps)

lemma lies_at_append: "lies_at m a (bs @ cs) \<longleftrightarrow> lies_at m a bs \<and> lies_at m (a + of_nat (length bs)) cs"
  by (induction bs arbitrary: a) (simp_all add: algebra_simps)

lemma ustr_bytes: "ustr m s cs \<longleftrightarrow> 0 \<notin> set cs \<and> lies_at m s (cs @ [0])"
  by (induction cs arbitrary: s) auto

lemma of_nat_apart: "i \<noteq> j \<Longrightarrow> i < 2 ^ 32 \<Longrightarrow> j < 2 ^ 32 \<Longrightarrow> a + of_nat i \<noteq> (a + of_nat j :: u32)"
  using of_nat_small_inj by auto

lemma lies_at_upd:
  assumes "\<forall>i < length bs. x \<noteq> a + of_nat i"
  shows "lies_at (m(x := v)) a bs = lies_at m a bs"
  using assms by (auto simp: lies_at_def)

section \<open>Tokens\<close>

function tokens :: "u8 list \<Rightarrow> u8 list \<Rightarrow> u8 list list" where
  "tokens delim cs = (let ds = dropWhile (\<lambda>c. c \<in> set delim) cs in if ds = [] then []
     else takeWhile (\<lambda>c. c \<notin> set delim) ds # tokens delim (drop 1 (dropWhile (\<lambda>c. c \<notin> set delim) ds)))"
  by pat_completeness auto
termination
proof (relation "measure (length \<circ> snd)")
  fix delim cs ds :: "u8 list"
  assume "ds = dropWhile (\<lambda>c. c \<in> set delim) cs" "ds \<noteq> []"
  then have "hd ds \<notin> set delim" "length ds \<le> length cs"
    using hd_dropWhile [of "\<lambda>c. c \<in> set delim" cs] by (simp_all add: length_dropWhile_le)
  then have "length (dropWhile (\<lambda>c. c \<notin> set delim) ds) < length ds" using \<open>ds \<noteq> []\<close> 
    by (cases ds) (auto simp: le_imp_less_Suc length_dropWhile_le)
  then show "((delim, drop 1 (dropWhile (\<lambda>c. c \<notin> set delim) ds)), (delim, cs)) \<in> measure (length \<circ> snd)"
    using \<open>length ds \<le> length cs\<close> by simp
qed simp

declare tokens.simps [simp del]

lemma tokens_Nil [simp]: "tokens delim [] = []"
  by (simp add: tokens.simps)

text \<open>One call of \<open>strtok\<close>: nothing but delimiters, or the first token and the pointer behind it.\<close>

lemma strtok_none:
  assumes "ustr m s cs" "dropWhile (\<lambda>c. c \<in> set delim) cs = []" "s \<noteq> 0" "str = s \<or> str = 0 \<and> p = s"
  shows "\<exists>q. strtok str delim (p, m) = Some (0, q, m)"
proof -
  have "(if str \<noteq> 0 then str else p) = s" using assms(3,4) by auto
  moreover have "takeWhile (\<lambda>c. c \<in> set delim) cs = cs" using assms(2) by (simp add: takeWhile_eq_all_conv dropWhile_eq_Nil_conv)
  then have "skip_delims m delim s = Some (s + of_nat (length cs))" using skip_delims_ustr [OF assms(1), of delim] by (simp only:)
  moreover have "m (s + of_nat (length cs)) = 0" using assms(1) ustr_append [of m s cs "[]"] by simp
  ultimately show ?thesis by (simp add: strtok_def Let_def)
qed

lemma strtok_some:
  assumes "ustr m s (pre @ tok @ rest)" "length (pre @ tok @ rest) < 2 ^ 32" "s \<noteq> 0" "str = s \<or> str = 0 \<and> p = s"
    and split: "set pre \<subseteq> set delim" "tok \<noteq> []" "set tok \<inter> set delim = {}" "rest = [] \<or> hd rest \<in> set delim"
  defines "t \<equiv> s + of_nat (length pre)"
  defines "q \<equiv> t + of_nat (length tok)"
  shows "strtok str delim (p, m) = Some (if rest = [] then (t, q, m) else (t, q + 1, m(q := 0)))"
    and "ustr (if rest = [] then m else m(q := 0)) t tok"
    and "ustr (if rest = [] then m else m(q := 0)) (if rest = [] then q else q + 1) (drop 1 rest)"
proof -
  have ptr: "(if str \<noteq> 0 then str else p) = s" using assms(3,4) by auto
  have u: "ustr m t (tok @ rest)" using assms(1) ustr_append [of m s pre "tok @ rest"] by (simp add: t_def)
  then have r: "ustr m q rest" using ustr_append [of m t tok rest] by (simp add: q_def)
  have "takeWhile (\<lambda>c. c \<in> set delim) (pre @ tok @ rest) = pre"
    using split by (cases tok) (auto simp: takeWhile_append)
  then have d: "skip_delims m delim s = Some t" using skip_delims_ustr [OF assms(1), of delim] by (simp only: t_def)
  have "takeWhile (\<lambda>c. c \<notin> set delim) (tok @ rest) = tok" using split by (cases rest) (auto simp: takeWhile_append)
  then have k: "skip_token m delim t = Some q" using skip_token_ustr [OF u, of delim] by (simp only: q_def)
  have "m s \<noteq> 0" using assms(1) split(2) by (cases "pre @ tok @ rest") auto
  moreover have "m t \<noteq> 0" using u split(2) by (cases tok) auto
  moreover have "m q = 0 \<longleftrightarrow> rest = []" using r by (cases rest) auto
  ultimately show "strtok str delim (p, m) = Some (if rest = [] then (t, q, m) else (t, q + 1, m(q := 0)))"
    using assms(3) by (simp add: strtok_def ptr d k)
  have n: "length tok < 2 ^ 32" "length rest < 2 ^ 32" using assms(2) by simp_all
  have "lies_at (m(q := 0)) t tok" if "lies_at m t tok"
    using that lies_at_upd [of tok q t m] of_nat_apart [of "length tok" _ t] n(1) by (auto simp: q_def)
  then show "ustr (if rest = [] then m else m(q := 0)) t tok"
    using u by (auto simp: ustr_bytes lies_at_append q_def)
  have "lies_at (m(q := 0)) (q + 1) (drop 1 rest @ [0])" if "rest \<noteq> []" "lies_at m (q + 1) (drop 1 rest @ [0])"
  proof (subst lies_at_upd)
    show "\<forall>i < length (drop 1 rest @ [0]). q \<noteq> q + 1 + of_nat i"
    proof (intro allI impI)
      fix i assume "i < length (drop 1 rest @ [0])"
      then have "i + 1 < 2 ^ 32" using n(2) that(1) by (cases rest) auto
      then show "q \<noteq> q + 1 + of_nat i" using of_nat_apart [of 0 "i + 1" q] by (simp add: ac_simps)
    qed
  qed (fact that(2))
  then show "ustr (if rest = [] then m else m(q := 0)) (if rest = [] then q else q + 1) (drop 1 rest)"
    using r by (cases rest) (auto simp: ustr_bytes)
qed

text \<open>Taking the first token off a string.\<close>

definition token_split :: "u8 list \<Rightarrow> u8 list \<Rightarrow> u8 list \<Rightarrow> u8 list \<Rightarrow> bool" where
  "token_split delim pre tok rest \<longleftrightarrow> set pre \<subseteq> set delim \<and> tok \<noteq> [] \<and> set tok \<inter> set delim = {} \<and> (rest = [] \<or> hd rest \<in> set delim)"

lemma token_cases:
  obtains "set cs \<subseteq> set delim" "tokens delim cs = []"
  | pre tok rest where "cs = pre @ tok @ rest" "token_split delim pre tok rest"
proof (cases "dropWhile (\<lambda>c. c \<in> set delim) cs")
  case Nil
  then show ?thesis using that(1) by (auto simp: tokens.simps dropWhile_eq_Nil_conv)
next
  case (Cons d ds)
  let ?pre = "takeWhile (\<lambda>c. c \<in> set delim) cs"
  let ?tok = "takeWhile (\<lambda>c. c \<notin> set delim) (d # ds)"
  let ?rest = "dropWhile (\<lambda>c. c \<notin> set delim) (d # ds)"
  have "d \<notin> set delim" using Cons hd_dropWhile [of "\<lambda>c. c \<in> set delim" cs] by simp
  moreover have "cs = ?pre @ (?tok @ ?rest)" unfolding takeWhile_dropWhile_id using Cons takeWhile_dropWhile_id [of "\<lambda>c. c \<in> set delim" cs] by simp
  moreover have "?rest = [] \<or> hd ?rest \<in> set delim" using hd_dropWhile [of "\<lambda>c. c \<notin> set delim" "d # ds"] by blast
  ultimately show ?thesis by (intro that(2) [of ?pre ?tok ?rest]) (auto simp: token_split_def dest: set_takeWhileD)
qed

lemma tokens_split: "token_split delim pre tok rest \<Longrightarrow> tokens delim (pre @ tok @ rest) = tok # tokens delim (drop 1 rest)"
proof -
  assume s: "token_split delim pre tok rest"
  have d: "dropWhile (\<lambda>c. c \<in> set delim) (pre @ tok @ rest) = tok @ rest"
    using s by (cases tok) (auto simp: token_split_def dropWhile_append subset_iff)
  have t: "takeWhile (\<lambda>c. c \<notin> set delim) (tok @ rest) = tok" "dropWhile (\<lambda>c. c \<notin> set delim) (tok @ rest) = rest"
    using s by (cases rest; auto simp: token_split_def takeWhile_append dropWhile_append)+
  show ?thesis using s by (subst tokens.simps) (simp add: d t Let_def token_split_def)
qed

text \<open>Writes stay in their range.\<close>

lemma not_in_range_Suc: "\<forall>i < Suc n. x \<noteq> a + of_nat i \<Longrightarrow> x \<noteq> (a :: u32) \<and> (\<forall>i < n. x \<noteq> a + 1 + of_nat i)"
  using spec [where x = 0] by (auto simp: algebra_simps)

lemma umemset_outside: "\<forall>i < n. x \<noteq> p + of_nat i \<Longrightarrow> umemset p v n m x = m x"
  by (induction n arbitrary: p m) (use not_in_range_Suc in \<open>auto simp del: fun_upd_apply simp: fun_upd_other\<close>)

lemma ustrncpy_pad_outside: "\<forall>i < n. x \<noteq> d + of_nat i \<Longrightarrow> ustrncpy_pad d n m x = m x"
proof (induction n arbitrary: d m)
  case (Suc n)
  from not_in_range_Suc [OF Suc.prems] show ?case using Suc.IH [of "d + 1"] by simp
qed simp

lemma ustrncpy_outside: "\<forall>i < n. x \<noteq> d + of_nat i \<Longrightarrow> ustrncpy d s n m x = m x"
proof (induction n arbitrary: d s m)
  case (Suc n)
  from not_in_range_Suc [OF Suc.prems] show ?case
    using Suc.IH [of "d + 1"] ustrncpy_pad_outside [of n x "d + 1" "m(d := 0)"] by simp
qed simp

lemma ustrncpy_from_outside: "\<forall>i < n. x \<noteq> d + of_nat i \<Longrightarrow> ustrncpy_from d cs n m x = m x"
proof (induction n arbitrary: d cs m)
  case (Suc n)
  from not_in_range_Suc [OF Suc.prems] show ?case
    using Suc.IH [of "d + 1"] ustrncpy_pad_outside [of n x "d + 1" "m(d := 0)"] by (cases cs) simp_all
qed simp

lemma range_start: "n < 2 ^ 32 \<Longrightarrow> \<forall>i < n. (d :: u32) \<noteq> d + 1 + of_nat i"
proof (intro allI impI)
  fix i assume "n < 2 ^ 32" "i < n"
  then have "i + 1 < 2 ^ 32" by simp
  then show "d \<noteq> d + 1 + of_nat i" using of_nat_apart [of 0 "i + 1" d] by (simp add: ac_simps)
qed

lemma ustrncpy_from_bytes: "length cs < 2 ^ 32 \<Longrightarrow> lies_at (ustrncpy_from d cs (length cs) m) d cs"
proof (induction cs arbitrary: d m)
  case (Cons c cs)
  have "\<forall>i < length cs. d \<noteq> d + 1 + of_nat i" using range_start [of "length cs" d] Cons.prems by simp
  then show ?case using Cons by (simp add: ustrncpy_from_outside)
qed simp

lemma ustrncpy_bytes:
  "lies_at m s cs \<Longrightarrow> 0 \<notin> set cs \<Longrightarrow> length cs < 2 ^ 32 \<Longrightarrow> \<forall>i < length cs. \<forall>j < length cs. d + of_nat i \<noteq> s + of_nat j \<Longrightarrow>
   lies_at (ustrncpy d s (length cs) m) d cs"
proof (induction cs arbitrary: d s m)
  case (Cons c cs)
  have "\<forall>i < length cs. d \<noteq> d + 1 + of_nat i" using range_start [of "length cs" d] Cons.prems(3) by simp
  have nd: "d + 1 + of_nat i \<noteq> s + 1 + of_nat j" if "i < length cs" "j < length cs" for i j
    using Cons.prems(4) [rule_format, of "Suc i" "Suc j"] that by (simp add: algebra_simps)
  have "\<forall>j < length cs. d \<noteq> s + 1 + of_nat j"
    using Cons.prems(4) [rule_format, of 0 "Suc _"] by (simp add: algebra_simps)
  then have b: "lies_at (m(d := c)) (s + 1) cs" using Cons.prems(1) by (subst lies_at_upd) auto
  have "lies_at (ustrncpy (d + 1) (s + 1) (length cs) (m(d := c))) (d + 1) cs"
    by (rule Cons.IH [OF b]) (use nd Cons.prems(2,3) in simp_all)
  moreover have "ustrncpy (d + 1) (s + 1) (length cs) (m(d := c)) d = c"
    using range_start [of "length cs" d] Cons.prems(3) by (simp add: ustrncpy_outside)
  ultimately show ?case using Cons.prems(1,2) by (simp del: fun_upd_apply)
qed simp

end
