(* ===== verification/Ustdio.thy ===== *)
theory Ustdio
  imports Ustring Stdlib
begin

text \<open>
  Formatted output and streams of the user's C library, \<open>user/libc/stdio.c\<close>. The kernel behind the system calls is a record of
  functions on its state, as port input and output are a bus. A \<open>FILE\<close> is four 32-bit fields in the user's heap.
\<close>

section \<open>System calls\<close>

text \<open>\<open>read\<close> and \<open>getdents\<close> return a number and the bytes they store in the caller's buffer.\<close>

record 'k calls =
  c_read :: "int \<Rightarrow> int \<Rightarrow> 'k \<Rightarrow> int \<times> u8 list \<times> 'k"
  c_write :: "int \<Rightarrow> u8 list \<Rightarrow> 'k \<Rightarrow> int \<times> 'k"
  c_open :: "u8 list \<Rightarrow> int \<Rightarrow> 'k \<Rightarrow> int \<times> 'k"
  c_close :: "int \<Rightarrow> 'k \<Rightarrow> int \<times> 'k"
  c_getdents :: "int \<Rightarrow> int \<Rightarrow> 'k \<Rightarrow> int \<times> u8 list \<times> 'k"
  c_exit :: "int \<Rightarrow> 'k \<Rightarrow> 'k"

definition STDIN_FILENO :: int where [konst]: "STDIN_FILENO = 0"
definition STDOUT_FILENO :: int where [konst]: "STDOUT_FILENO = 1"

definition chars :: "string \<Rightarrow> u8 list" where
  "chars s = map of_char s"

definition puts :: "'k calls \<Rightarrow> u8 list option \<Rightarrow> 'k \<Rightarrow> int \<times> 'k" where
  "puts c s k = (case s of None \<Rightarrow> (-1, k) | Some t \<Rightarrow>
     (let (ok, k1) = (if length t > 0 then (let (written, k1) = c_write c STDOUT_FILENO t k in (written = int (length t), k1)) else (True, k)) in
      if \<not> ok then (-1, k1)
      else let (written, k2) = c_write c STDOUT_FILENO [0x0A] k1 in (if written \<noteq> 1 then -1 else 0, k2)))"

section \<open>Numbers\<close>

text \<open>The digits, least significant first. A base below 2 does not terminate or divides by zero, one above 16 reads behind the digits.\<close>

function udigits :: "nat \<Rightarrow> nat \<Rightarrow> u8 list" where
  "udigits base num = (if num > 0 \<and> base \<ge> 2 then chars ''0123456789abcdef'' ! (num mod base) # udigits base (num div base) else [])"
  by pat_completeness auto
termination by (relation "measure snd") auto

declare udigits.simps [simp del]

text \<open>The negation of the least integer overflows.\<close>

definition uitoa :: "int \<Rightarrow> nat \<Rightarrow> u8 list option" where
  "uitoa num base =
     (if num = 0 then Some [0x30]
      else if base < 2 \<or> base > 16 \<or> num = - (2 ^ 31) \<and> base = 10 then None
      else let is_negative = (num < 0 \<and> base = 10); num' = (if is_negative then - num else num);
               buffer = udigits base (nat num') @ (if is_negative then [0x2D] else [])
           in Some (rev buffer))"

section \<open>Formats\<close>

text \<open>A number, a string (or null) and the text that \<open>dtoa\<close> produces for a \<open>double\<close>.\<close>

datatype uarg = UNum u32 | UStr "u8 list option" | UDouble "u8 list"

text \<open>The copying loops, each bounded by \<open>size - 1\<close>.\<close>

primrec put_bounded :: "nat \<Rightarrow> u8 list \<Rightarrow> u8 list \<Rightarrow> u8 list" where
  "put_bounded lim [] out = out"
| "put_bounded lim (c # cs) out = (if length out < lim then put_bounded lim cs (out @ [c]) else out)"

text \<open>The width; a value above the range of \<open>int\<close> is undefined.\<close>

fun parse_width :: "u8 list \<Rightarrow> nat \<Rightarrow> (nat \<times> u8 list) option" where
  "parse_width [] width = Some (width, [])"
| "parse_width (c # fmt) width = (if 0x30 \<le> c \<and> c \<le> 0x39
     then (let w = width * 10 + (unat c - 0x30) in if w < 2 ^ 31 then parse_width fmt w else None)
     else Some (width, c # fmt))"

definition parse_spec :: "u8 list \<Rightarrow> (bool \<times> bool \<times> nat \<times> u8 list) option" where
  "parse_spec fmt = (let
     (left_align, fmt1) = (case fmt of c # cs \<Rightarrow> if c = 0x2D then (True, cs) else (False, fmt) | [] \<Rightarrow> (False, fmt));
     (zero_pad, fmt2) = (case fmt1 of c # cs \<Rightarrow> if c = 0x30 then (True, cs) else (False, fmt1) | [] \<Rightarrow> (False, fmt1))
   in do { (width, rest) \<leftarrow> parse_width fmt2 0; Some (left_align, zero_pad, width, rest) })"

definition uconvert :: "nat \<Rightarrow> bool \<Rightarrow> bool \<Rightarrow> nat \<Rightarrow> u8 \<Rightarrow> uarg list \<Rightarrow> u8 list \<Rightarrow> (u8 list \<times> uarg list) option" where
  "uconvert lim left_align zero_pad width d args out =
     (if d = 0x64 then (case args of UNum n # args' \<Rightarrow> do {
        temp \<leftarrow> uitoa (sint n) 10;
        let len = length temp;
        let o1 = (if \<not> left_align \<and> width > len then put_bounded lim (replicate (width - len) (if zero_pad then 0x30 else 0x20)) out else out);
        let o2 = put_bounded lim temp o1;
        Some (if left_align \<and> width > len then put_bounded lim (replicate (width - len) 0x20) o2 else o2, args') } | _ \<Rightarrow> None)
      else if d = 0x78 then (case args of UNum n # args' \<Rightarrow> do {
        temp \<leftarrow> uitoa (sint n) 16;
        let len = length temp;
        let o1 = (if zero_pad \<and> width > len then put_bounded lim (replicate (width - len) 0x30) out else out);
        Some (put_bounded lim temp o1, args') } | _ \<Rightarrow> None)
      else if d = 0x73 then (case args of UStr s # args' \<Rightarrow>
        (let str = (case s of None \<Rightarrow> chars ''0x0'' | Some t \<Rightarrow> t); len = length str;
             o1 = (if width > 0 \<and> \<not> left_align \<and> width > len then put_bounded lim (replicate (width - len) 0x20) out else out);
             o2 = put_bounded lim str o1
         in Some (if width > 0 \<and> left_align \<and> width > len then put_bounded lim (replicate (width - len) 0x20) o2 else o2, args')) | _ \<Rightarrow> None)
      else if d = 0x63 then (case args of UNum n # args' \<Rightarrow> Some (if length out < lim then out @ [ucast n] else out, args') | _ \<Rightarrow> None)
      else if d = 0x66 then (case args of UDouble temp # args' \<Rightarrow> Some (put_bounded lim temp out, args') | _ \<Rightarrow> None)
      else Some (if length out < lim then out @ [d] else out, args))"

lemma parse_width_shorter: "parse_width fmt w = Some (v, rest) \<Longrightarrow> length rest \<le> length fmt"
  by (induction fmt w rule: parse_width.induct) (auto simp: Let_def split: if_splits)

lemma parse_spec_shorter: "parse_spec fmt = Some (l, z, w, rest) \<Longrightarrow> length rest \<le> length fmt"
  by (auto simp: parse_spec_def Let_def split: list.splits if_splits bind_splits dest!: parse_width_shorter)

text \<open>The loop; a format that ends inside a conversion is read behind its terminator.\<close>

function vsnprintf_loop :: "nat \<Rightarrow> u8 list \<Rightarrow> uarg list \<Rightarrow> u8 list \<Rightarrow> u8 list option" where
  "vsnprintf_loop lim [] args out = Some out"
| "vsnprintf_loop lim (c # fmt) args out =
     (if \<not> length out < lim then Some out
      else if c \<noteq> 0x25 then vsnprintf_loop lim fmt args (out @ [c])
      else if fmt \<noteq> [] \<and> hd fmt = 0x25 then vsnprintf_loop lim (tl fmt) args (out @ [0x25])
      else (case parse_spec fmt of Some (left_align, zero_pad, width, d # rest) \<Rightarrow>
          (case uconvert lim left_align zero_pad width d args out of
             Some (out', args') \<Rightarrow> vsnprintf_loop lim rest args' out'
           | None \<Rightarrow> None)
        | _ \<Rightarrow> None))"
  by pat_completeness auto
termination
  by (relation "measure (\<lambda>(lim, fmt, args, out). length fmt)") (auto dest: parse_spec_shorter)

text \<open>The text that is written in front of the terminator; its length is what the function returns. \<open>size - 1\<close> wraps for 0.\<close>

definition vsnprintf :: "u32 \<Rightarrow> u8 list \<Rightarrow> uarg list \<Rightarrow> u8 list option" where
  "vsnprintf sz fmt args = vsnprintf_loop (unat (sz - 1)) fmt args []"

definition printf :: "'k calls \<Rightarrow> u8 list \<Rightarrow> uarg list \<Rightarrow> 'k \<Rightarrow> (int \<times> 'k) option" where
  "printf c fmt args k = do {
     buf \<leftarrow> vsnprintf 1024 fmt args;
     Some (int (length buf), if length buf > 0 then snd (c_write c STDOUT_FILENO buf k) else k) }"

section \<open>What a format means\<close>

text \<open>A format is a sequence of characters and conversions; rendering a conversion takes the next argument.\<close>

datatype piece = Lit u8 | Conv bool bool nat u8

function pieces :: "u8 list \<Rightarrow> piece list option" where
  "pieces [] = Some []"
| "pieces (c # fmt) =
     (if c \<noteq> 0x25 then map_option ((#) (Lit c)) (pieces fmt)
      else if fmt \<noteq> [] \<and> hd fmt = 0x25 then map_option ((#) (Lit c)) (pieces (tl fmt))
      else (case parse_spec fmt of Some (l, z, w, d # rest) \<Rightarrow> map_option ((#) (Conv l z w d)) (pieces rest) | _ \<Rightarrow> None))"
  by pat_completeness auto
termination by (relation "measure length") (auto dest: parse_spec_shorter)

text \<open>Decimal numbers; hexadecimal ones only when they are not negative as an \<open>int\<close>: the others have no digits.\<close>

definition number_text :: "u8 \<Rightarrow> int \<Rightarrow> u8 list option" where
  "number_text d n = (if d = 0x64 then if n = - (2 ^ 31) then None
       else Some (if n < 0 then 0x2D # numeral_bytes 10 (nat (- n)) else numeral_bytes 10 (nat n))
     else Some (if n < 0 then [] else numeral_bytes 16 (nat n)))"

definition aligned :: "bool \<Rightarrow> u8 \<Rightarrow> nat \<Rightarrow> u8 list \<Rightarrow> u8 list" where
  "aligned left_align ch width t = (let pad = width - length t in
     if left_align then t @ replicate pad 0x20 else replicate pad ch @ t)"

text \<open>Zeros pad decimal numbers on the left and are the only padding of hexadecimal ones; strings are padded with blanks.\<close>

fun render_conv :: "bool \<Rightarrow> bool \<Rightarrow> nat \<Rightarrow> u8 \<Rightarrow> uarg \<Rightarrow> u8 list option" where
  "render_conv l z w d (UNum n) =
     (if d = 0x64 then map_option (aligned l (if z then 0x30 else 0x20) w) (number_text d (sint n))
      else if d = 0x78 then map_option (aligned False 0x30 (if z then w else 0)) (number_text d (sint n))
      else if d = 0x63 then Some [ucast n] else None)"
| "render_conv l z w d (UStr s) = (if d = 0x73 then Some (aligned l 0x20 w (case s of None \<Rightarrow> chars ''0x0'' | Some t \<Rightarrow> t)) else None)"
| "render_conv l z w d (UDouble t) = (if d = 0x66 then Some t else None)"

fun render :: "piece list \<Rightarrow> uarg list \<Rightarrow> u8 list option" where
  "render [] args = Some []"
| "render (Lit c # ps) args = map_option ((#) c) (render ps args)"
| "render (Conv l z w d # ps) args =
     (if d \<in> {0x64, 0x78, 0x73, 0x63, 0x66} then (case args of [] \<Rightarrow> None
        | a # args' \<Rightarrow> do { t \<leftarrow> render_conv l z w d a; r \<leftarrow> render ps args'; Some (t @ r) })
      else map_option ((#) d) (render ps args))"

definition format_text :: "u8 list \<Rightarrow> uarg list \<Rightarrow> u8 list option" where
  "format_text fmt args = do { ps \<leftarrow> pieces fmt; render ps args }"

section \<open>Proofs\<close>

lemma hex_digits: "d < 16 \<Longrightarrow> chars ''0123456789abcdef'' ! d = digit_char d"
proof -
  have "list_all (\<lambda>d. chars ''0123456789abcdef'' ! d = digit_char d) [0..<16]" by (simp add: upt_rec chars_def digit_char_def)
  then show "d < 16 \<Longrightarrow> chars ''0123456789abcdef'' ! d = digit_char d" by (simp add: list_all_iff)
qed

lemma udigits_digits: "2 \<le> base \<Longrightarrow> base \<le> 16 \<Longrightarrow> udigits base n = map digit_char (digits base n)"
proof (induction base n rule: udigits.induct)
  case (1 base n)
  have "n mod base < base" using "1.prems" by simp
  then have "n mod base < 16" using "1.prems"(2) by linarith
  then show ?case using 1 by (cases "n = 0") (simp_all add: udigits.simps [of base] digits_step hex_digits)
qed

lemma uitoa_text:
  "uitoa n 10 = number_text 0x64 n" "uitoa n 16 = number_text 0x78 n"
  by (auto simp: uitoa_def number_text_def numeral_bytes_def udigits_digits rev_map Let_def)

lemma put_bounded_take: "length out \<le> lim \<Longrightarrow> put_bounded lim cs out = take lim (out @ cs)"
proof (induction cs arbitrary: out)
  case (Cons c cs)
  then show ?case by (cases "length out < lim") (simp_all add: Suc_leI take_Cons')
qed simp

lemma put_bounded_full: "\<not> length out < lim \<Longrightarrow> put_bounded lim cs out = out"
  by (cases cs) simp_all

lemma put_bounded_again [simp]: "put_bounded lim ds (put_bounded lim cs out) = put_bounded lim (cs @ ds) out"
  by (induction cs arbitrary: out) (simp_all add: put_bounded_full)

lemma uconvert_render:
  assumes "d \<in> {0x64, 0x78, 0x73, 0x63, 0x66}" "render_conv l z w d a = Some t"
  shows "uconvert lim l z w d (a # args) out = Some (put_bounded lim t out, args)"
proof (cases a)
  case (UNum n)
  then show ?thesis using assms by (auto simp: uconvert_def uitoa_text aligned_def Let_def)
next
  case (UStr s)
  then show ?thesis using assms by (auto simp: uconvert_def aligned_def Let_def split: if_splits)
next
  case (UDouble u)
  then show ?thesis using assms by (auto simp: uconvert_def split: if_splits)
qed

lemma loop_renders:
  assumes "format_text fmt args = Some t" "length out \<le> lim"
  shows "vsnprintf_loop lim fmt args out = Some (put_bounded lim t out)"
  using assms
proof (induction lim fmt args out arbitrary: t rule: vsnprintf_loop.induct)
  case (2 lim c fmt args out)
  show ?case
  proof (cases "length out < lim")
    case False
    then show ?thesis by (simp add: put_bounded_full)
  next
    case True
    note r = "2.prems"(1) [unfolded format_text_def]
    consider "c \<noteq> 0x25" | "c = 0x25" "fmt \<noteq> []" "hd fmt = 0x25" | "c = 0x25" "\<not> (fmt \<noteq> [] \<and> hd fmt = 0x25)" by blast
    then show ?thesis
    proof cases
      case 1
      then obtain u where u: "format_text fmt args = Some u" "t = c # u" using r by (auto simp: format_text_def split: bind_splits)
      show ?thesis using "2.IH"(1) [OF _ 1 u(1)] True 1 u(2) by simp
    next
      case 2
      then obtain u where u: "format_text (tl fmt) args = Some u" "t = c # u" using r by (auto simp: format_text_def split: bind_splits)
      show ?thesis using "2.IH"(2) [OF _ _ _ u(1)] True 2 u(2) by simp
    next
      case 3
      then obtain l z w d rest ps where p: "parse_spec fmt = Some (l, z, w, d # rest)" "pieces rest = Some ps"
          "render (Conv l z w d # ps) args = Some t"
        using r by (auto split: bind_splits option.splits list.splits prod.splits)
      have e: "vsnprintf_loop lim (c # fmt) args out = (case uconvert lim l z w d args out of
          Some (out', args') \<Rightarrow> vsnprintf_loop lim rest args' out' | None \<Rightarrow> None)"
        using 3 True p(1) by auto
      have step: "vsnprintf_loop lim rest args' out' = Some (put_bounded lim u out')"
        if "uconvert lim l z w d args out = Some (out', args')" "render ps args' = Some u" "length out' \<le> lim" for out' args' u
        using "2.IH"(3) [OF _ _ 3(2) p(1) refl refl refl refl that(1) refl, of u] that(2,3) True 3(1) p(2) by (simp add: format_text_def)
      show ?thesis
      proof (cases "d \<in> {0x64, 0x78, 0x73, 0x63, 0x66}")
        case conv: True
        then obtain a args' u v where a: "args = a # args'" "render_conv l z w d a = Some u" "render ps args' = Some v" "t = u @ v"
          using p(3) by (auto split: list.splits bind_splits)
        have c: "uconvert lim l z w d args out = Some (put_bounded lim u out, args')"
          using uconvert_render [OF conv a(2)] a(1) by simp
        have "length (put_bounded lim u out) \<le> lim" using True by (simp add: put_bounded_take)
        from step [OF c a(3) this] show ?thesis using e c a(4) by simp
      next
        case other: False
        then obtain u where u: "render ps args = Some u" "t = d # u" using p(3) by auto
        have c: "uconvert lim l z w d args out = Some (out @ [d], args)" using other True by (simp add: uconvert_def)
        from step [OF c u(1)] show ?thesis using e c u(2) True by simp
      qed
    qed
  qed
qed (simp add: format_text_def)

section \<open>Streams\<close>

definition sizeof_FILE :: u32 where [konst]: "sizeof_FILE = 16"
definition sf_fd :: "u32 \<Rightarrow> u32" where "sf_fd f = f"
definition sf_mode :: "u32 \<Rightarrow> u32" where "sf_mode f = f + 4"
definition sf_error :: "u32 \<Rightarrow> u32" where "sf_error f = f + 8"
definition sf_eof :: "u32 \<Rightarrow> u32" where "sf_eof f = f + 12"

lemmas stream_fields = sf_fd_def sf_mode_def sf_error_def sf_eof_def

abbreviation ifld :: "uheap \<Rightarrow> u32 \<Rightarrow> int" where "ifld h a \<equiv> sint (fld h a)"

primrec poke_bytes :: "u32 \<Rightarrow> u8 list \<Rightarrow> umem \<Rightarrow> umem" where
  "poke_bytes a [] m = m"
| "poke_bytes a (b # bs) m = poke_bytes (a + 1) bs (m(a := b))"

definition peek_bytes :: "u32 \<Rightarrow> nat \<Rightarrow> umem \<Rightarrow> u8 list" where
  "peek_bytes a n m = map (\<lambda>i. m (a + of_nat i)) [0..<n]"

definition fopen :: "'k calls \<Rightarrow> u8 list \<Rightarrow> u8 list \<Rightarrow> uheap \<times> 'k \<Rightarrow> (u32 \<times> uheap \<times> 'k) option" where
  "fopen c pathname mode = (\<lambda>(h, k).
     if mode \<noteq> chars ''r'' \<and> mode \<noteq> chars ''w'' then Some (0, h, k)
     else let flags = (if mode = chars ''r'' then 0 else 1); (fd, k1) = c_open c pathname flags k in
       if fd < 0 then Some (0, h, k1)
       else do {
         (f, h1) \<leftarrow> malloc sizeof_FILE h;
         if f = 0 then Some (0, h1\<lparr>uerrno := ENOMEM\<rparr>, snd (c_close c fd k1))
         else Some (f, sto (sf_eof f) 0 (sto (sf_error f) 0 (sto (sf_mode f) (of_int flags) (sto (sf_fd f) (of_int fd) h1))), k1) })"

definition fclose :: "'k calls \<Rightarrow> u32 \<Rightarrow> uheap \<times> 'k \<Rightarrow> int \<times> uheap \<times> 'k" where
  "fclose c stream = (\<lambda>(h, k).
     if stream = 0 \<or> ifld h (sf_fd stream) \<le> 0 then (-1, h, k)
     else let (res, k1) = c_close c (ifld h (sf_fd stream)) k;
              h1 = sto (sf_eof stream) 0 (sto (sf_error stream) 0 (sto (sf_mode stream) 0 (sto (sf_fd stream) 0 h)))
          in (res, free stream h1, k1))"

definition feof :: "u32 \<Rightarrow> uheap \<Rightarrow> int" where
  "feof stream h = (if stream = 0 then 0 else ifld h (sf_eof stream))"

text \<open>The items that were read; a size of 0 divides by zero when the system call delivers something.\<close>

definition fread :: "'k calls \<Rightarrow> u32 \<Rightarrow> u32 \<Rightarrow> u32 \<Rightarrow> u32 \<Rightarrow> uheap \<times> 'k \<Rightarrow> (u32 \<times> uheap \<times> 'k) option" where
  "fread c ptr sz nmemb stream = (\<lambda>(h, k).
     if stream = 0 \<or> ifld h (sf_fd stream) < 0 \<or> ptr = 0 then Some (0, h, k)
     else let total_bytes = sz * nmemb;
              (bytes_read, bs, k1) = c_read c (ifld h (sf_fd stream)) (sint total_bytes) k;
              h1 = h\<lparr>umem := poke_bytes ptr bs (umem h)\<rparr>
          in if bytes_read \<le> 0 then Some (0, sto (sf_eof stream) 1 h1, k1)
             else let h2 = (if of_int bytes_read \<le> total_bytes then sto (sf_eof stream) 1 h1 else h1) in
               if sz = 0 then None else Some (of_int bytes_read div sz, h2, k1))"

definition fwrite :: "'k calls \<Rightarrow> u32 \<Rightarrow> u32 \<Rightarrow> u32 \<Rightarrow> u32 \<Rightarrow> uheap \<times> 'k \<Rightarrow> (u32 \<times> uheap \<times> 'k) option" where
  "fwrite c ptr sz nmemb stream = (\<lambda>(h, k).
     if stream = 0 \<or> ifld h (sf_fd stream) \<le> 0 \<or> ptr = 0 then Some (0, h, k)
     else let total_bytes = sz * nmemb;
              (bytes_written, k1) = c_write c (ifld h (sf_fd stream)) (peek_bytes ptr (unat total_bytes) (umem h)) k
          in if bytes_written < 0 then Some (0, sto (sf_error stream) 1 h, k1)
             else if sz = 0 then None else Some (of_int bytes_written div sz, h, k1))"

text \<open>The lines \<open>file_dump\<close> prints.\<close>

definition printfs :: "'k calls \<Rightarrow> (u8 list \<times> uarg list) list \<Rightarrow> 'k \<Rightarrow> 'k option" where
  "printfs c ls k = fold (\<lambda>(fmt, args) r. do { k \<leftarrow> r; (_, k') \<leftarrow> printf c fmt args k; Some k' }) ls (Some k)"

definition file_dump :: "'k calls \<Rightarrow> u32 \<Rightarrow> uheap \<times> 'k \<Rightarrow> 'k option" where
  "file_dump c f = (\<lambda>(h, k).
     if f = 0 then printfs c [(chars ''FILE*: 0x0 \<newline>'', [])] k
     else printfs c
       [(chars ''----[ FILE* Dump ]----\<newline>'', []),
        (chars ''FD     : %d\<newline>'', [UNum (fld h (sf_fd f))]),
        (chars ''Mode   : %s\<newline>'', [UStr (Some (chars (if fld h (sf_mode f) = 0 then ''READ'' else ''WRITE'')))]),
        (chars ''Error  : %s\<newline>'', [UStr (Some (chars (if fld h (sf_error f) \<noteq> 0 then ''YES'' else ''NO'')))]),
        (chars ''EOF    : %s\<newline>'', [UStr (Some (chars (if fld h (sf_eof f) \<noteq> 0 then ''YES'' else ''NO'')))]),
        (chars ''Ptr    : 0x%x\<newline>'', [UNum f]),
        (chars ''-----------------------\<newline>'', [])] k)"

section \<open>\<open>user/libc/dirent.c\<close>\<close>

text \<open>A \<open>DIR\<close>: the descriptor, a directory entry of 268 bytes and a flag.\<close>

definition sizeof_DIR :: u32 where [konst]: "sizeof_DIR = 276"
definition dir_current :: "u32 \<Rightarrow> u32" where "dir_current d = d + 4"
definition dir_has_entry :: "u32 \<Rightarrow> u32" where "dir_has_entry d = d + 272"

definition opendir :: "'k calls \<Rightarrow> u8 list \<Rightarrow> uheap \<times> 'k \<Rightarrow> (u32 \<times> uheap \<times> 'k) option" where
  "opendir c path = (\<lambda>(h, k). let (fd, k1) = c_open c path 0 k in
     if fd < 0 then Some (0, h\<lparr>uerrno := ENOENT\<rparr>, k1)
     else do {
       (d, h1) \<leftarrow> malloc sizeof_DIR h;
       if d = 0 then Some (0, h1\<lparr>uerrno := ENOMEM\<rparr>, snd (c_close c fd k1))
       else Some (d, sto (dir_has_entry d) 0 (sto d (of_int fd) h1), k1) })"

definition readdir :: "'k calls \<Rightarrow> u32 \<Rightarrow> uheap \<times> 'k \<Rightarrow> u32 \<times> uheap \<times> 'k" where
  "readdir c dirp = (\<lambda>(h, k).
     if dirp = 0 \<or> ifld h dirp < 0 then (0, h\<lparr>uerrno := EBADF\<rparr>, k)
     else let (ret, bs, k1) = c_getdents c (ifld h dirp) 268 k; h1 = h\<lparr>umem := poke_bytes (dir_current dirp) bs (umem h)\<rparr> in
       if ret \<le> 0 then (0, sto (dir_has_entry dirp) 0 (h1\<lparr>uerrno := EIO\<rparr>), k1)
       else (dir_current dirp, sto (dir_has_entry dirp) 1 h1, k1))"

definition closedir :: "'k calls \<Rightarrow> u32 \<Rightarrow> uheap \<times> 'k \<Rightarrow> int \<times> uheap \<times> 'k" where
  "closedir c dirp = (\<lambda>(h, k).
     if dirp = 0 then (-1, h\<lparr>uerrno := EINVAL\<rparr>, k)
     else if ifld h dirp < 0 then (-1, h\<lparr>uerrno := EBADF\<rparr>, k)
     else let (res, k1) = c_close c (ifld h dirp) k in
       if res < 0 then (-1, h, k1)
       else (0, free dirp (sto (dir_has_entry dirp) 0 (sto dirp (-1) h)), k1))"

section \<open>Properties\<close>

text \<open>C32: formatted output. When the format has a meaning with its arguments, \<open>vsnprintf\<close> writes exactly its text, cut so that it and
  its terminator fit into a buffer of the given size.\<close>

theorem vsnprintf_formats:
  assumes "format_text fmt args = Some t" "0 < sz"
  shows "vsnprintf sz fmt args = Some (take (unat sz - 1) t)"
proof -
  have "unat (sz - 1) = unat sz - 1" using assms(2) by (simp add: unat_sub_if_size word_le_nat_alt word_less_nat_alt)
  then show ?thesis using loop_renders [OF assms(1), of "[]"] by (simp add: vsnprintf_def put_bounded_take)
qed

lemma replicate_2: "replicate 2 x = [x, x]"
  by (simp add: numeral_2_eq_2)

theorem vsnprintf_formats_witness:
  "vsnprintf 6 (chars ''%03d%s'') [UNum 7, UStr (Some (chars ''abcd''))] = Some (chars ''007ab'')"
proof -
  have "format_text (chars ''%03d%s'') [UNum 7, UStr (Some (chars ''abcd''))] = Some (chars ''007abcd'')"
    by (simp add: chars_def format_text_def parse_spec_def aligned_def number_text_def numeral_bytes_def digits_step digit_char_def replicate_2)
  from vsnprintf_formats [OF this, of 6] show ?thesis by (simp add: chars_def)
qed

text \<open>A size of 0 does not stop the output: the bound wraps to the largest 32-bit number.\<close>

lemma vsnprintf_size_0: "format_text fmt args = Some t \<Longrightarrow> vsnprintf 0 fmt args = Some (take (2 ^ 32 - 1) t)"
proof -
  have "(0 - 1 :: u32) = 0xFFFFFFFF" by simp
  then have "unat (0 - 1 :: u32) = 2 ^ 32 - 1" by (simp only:) simp
  then show "format_text fmt args = Some t \<Longrightarrow> vsnprintf 0 fmt args = Some (take (2 ^ 32 - 1) t)"
    using loop_renders [of fmt args t "[]" "2 ^ 32 - 1"] by (simp only: vsnprintf_def) (simp add: put_bounded_take)
qed

text \<open>every read of a stream marks its end. After any successful \<open>fread\<close> whose system call delivers no more than was asked for,
  \<open>feof\<close> is true, even when the file goes on.\<close>

theorem fread_marks_eof:
  assumes "stream \<noteq> 0" "0 \<le> ifld h (sf_fd stream)" "ptr \<noteq> 0" "sz \<noteq> 0"
    "c_read c (ifld h (sf_fd stream)) (sint (sz * nmemb)) k = (n, bs, k')" "n \<le> uint (sz * nmemb)" "n < 2 ^ 31"
  shows "\<exists>items h'. fread c ptr sz nmemb stream (h, k) = Some (items, h', k') \<and> feof stream h' = 1 \<and> unat items * unat sz \<le> nat n"
proof (cases "n \<le> 0")
  case True
  then show ?thesis using assms by (simp add: fread_def feof_def)
next
  case False
  have u: "uint (of_int n :: u32) = n" using False assms(7) by (simp add: unsigned_of_int take_bit_int_eq_self_iff)
  then have "(of_int n :: u32) \<le> sz * nmemb" using assms(6) by (simp add: word_le_def)
  moreover have "unat (of_int n :: u32) = nat n" using u by (simp add: unat_eq_nat_uint)
  then have "unat (of_int n div sz) * unat sz \<le> nat n" by (simp add: unat_div_distrib)
  ultimately show ?thesis using False assms by (simp add: fread_def feof_def)
qed

definition endless :: "nat calls" where
  "endless = \<lparr>c_read = \<lambda>fd n k. (n, replicate (nat n) 0x41, k + nat n), c_write = \<lambda>fd bs k. (int (length bs), k), c_open = \<lambda>p f k. (3, k),
     c_close = \<lambda>fd k. (0, k), c_getdents = \<lambda>fd n k. (0, [], k), c_exit = \<lambda>st k. k\<rparr>"

theorem fread_marks_eof_witness:
  "\<exists>items h'. fread endless 0x900000 1 2 0x800018 (sto 0x800018 3 (uheap0 (\<lambda>_. 0)), 0) = Some (items, h', 2) \<and> feof 0x800018 h' = 1"
  using fread_marks_eof [where stream = "0x800018" and h = "sto 0x800018 3 (uheap0 (\<lambda>_. 0))" and ptr = "0x900000" and sz = 1
    and c = endless and nmemb = 2 and k = 0 and n = 2 and bs = "[0x41, 0x41]" and k' = 2]
  by (auto simp: stream_fields endless_def replicate_2)

end
