(* ===== verification/History.thy ===== *)
theory History
  imports Prelude
begin

text \<open>
  The command history of the shell, \<open>user/libc/history.c\<close>: a ring of 256 lines of 256 bytes with a cursor for the arrow keys. A
  line that is passed in is the list of its characters in front of the terminator; \<open>None\<close> is the null pointer.
\<close>

definition HISTORY_SIZE :: int where [konst]: "HISTORY_SIZE = 256"
definition HISTORY_LINE_MAX :: nat where [konst]: "HISTORY_LINE_MAX = 256"

record history =
  hentries :: "u8 list list"
  hhead :: int
  hcount :: int
  hcursor :: int

definition icarsh_history :: history where
  "icarsh_history = \<lparr>hentries = replicate (nat HISTORY_SIZE) (replicate HISTORY_LINE_MAX 0), hhead = 0, hcount = 0, hcursor = 0\<rparr>"

text \<open>The string in an array, and the array after \<open>strncpy(_, line, 255)\<close> and the closing terminator.\<close>

definition cstring :: "u8 list \<Rightarrow> u8 list" where
  "cstring row = takeWhile (\<lambda>c. c \<noteq> 0) row"

definition store_line :: "u8 list \<Rightarrow> u8 list" where
  "store_line line = (let copied = take (HISTORY_LINE_MAX - 1) line in
     copied @ replicate (HISTORY_LINE_MAX - 1 - length copied) 0 @ [0])"

text \<open>\<open>strlen\<close> comes before the test for null pointers.\<close>

definition history_add :: "history option \<Rightarrow> u8 list option \<Rightarrow> history option option" where
  "history_add self line = (case line of None \<Rightarrow> None | Some l \<Rightarrow>
     (case self of None \<Rightarrow> Some None | Some h \<Rightarrow>
        Some (Some (if l = [] then h
          else if hcount h > 0 \<and> cstring (hentries h ! nat ((hhead h - 1 + HISTORY_SIZE) mod HISTORY_SIZE)) = l then h
          else let h1 = h\<lparr>hentries := (hentries h)[nat (hhead h) := store_line l], hhead := (hhead h + 1) mod HISTORY_SIZE\<rparr>;
                   h2 = (if hcount h1 < HISTORY_SIZE then h1\<lparr>hcount := hcount h1 + 1\<rparr> else h1)
               in h2\<lparr>hcursor := hhead h2\<rparr>))))"

text \<open>The pointer that is returned, as the string behind it, and the history afterwards.\<close>

definition history_get_older :: "history \<Rightarrow> u8 list option \<times> history" where
  "history_get_older h = (if hcount h = 0 then (None, h)
     else let oldest_index = (hhead h - hcount h + HISTORY_SIZE) mod HISTORY_SIZE in
       if hcursor h = oldest_index then (Some (cstring (hentries h ! nat oldest_index)), h)
       else let older_index = (hcursor h - 1 + HISTORY_SIZE) mod HISTORY_SIZE;
                h1 = h\<lparr>hcursor := older_index\<rparr>
            in (Some (cstring (hentries h1 ! nat (hcursor h1))), h1))"

definition history_get_newer :: "history \<Rightarrow> u8 list option \<times> history" where
  "history_get_newer h = (if hcount h = 0 then (None, h)
     else if hcursor h = hhead h then (Some [], h)
     else let next_index = (hcursor h + 1) mod HISTORY_SIZE; h1 = h\<lparr>hcursor := next_index\<rparr> in
       if next_index = hhead h1 then (Some [], h1) else (Some (cstring (hentries h1 ! nat next_index)), h1))"

text \<open>The lines \<open>history_dump\<close> prints, with their indices.\<close>

definition history_dump :: "history \<Rightarrow> (int \<times> u8 list) list" where
  "history_dump h = (if hcount h = 0 then [] else
     let oldest_index = (hhead h - hcount h + HISTORY_SIZE) mod HISTORY_SIZE in
       map (\<lambda>i. let index = (oldest_index + int i) mod HISTORY_SIZE in (index, cstring (hentries h ! nat index))) [0..<nat (hcount h)])"

section \<open>The history is a list\<close>

definition history_ok :: "history \<Rightarrow> bool" where [invs]:
  "history_ok h \<longleftrightarrow> length (hentries h) = 256 \<and> 0 \<le> hhead h \<and> hhead h < 256 \<and> 0 \<le> hcount h \<and> hcount h \<le> 256
     \<and> 0 \<le> hcursor h \<and> hcursor h < 256"

definition oldest :: "history \<Rightarrow> nat" where
  "oldest h = nat ((hhead h - hcount h) mod 256)"

definition lines :: "history \<Rightarrow> u8 list list" where
  "lines h = map cstring (ring_list (hentries h) (oldest h) (nat (hcount h)))"

text \<open>What an added line does to the list.\<close>

definition remember :: "u8 list \<Rightarrow> u8 list list \<Rightarrow> u8 list list" where
  "remember l ls = (if l = [] \<or> (ls \<noteq> [] \<and> last ls = l) then ls
     else let ls' = ls @ [take 255 l] in drop (length ls' - 256) ls')"

lemma back_mod: "((a + 1) mod 256 - 1 + 256) mod 256 = a mod (256 :: int)"
proof -
  have "((a + 1) mod 256 - 1 + 256) mod 256 = ((a + 1) mod 256 + 255) mod 256" by (simp add: algebra_simps)
  also have "\<dots> = (a + 1 + 255) mod 256" by (rule mod_add_left_eq)
  finally show ?thesis by simp
qed

lemma window_start:
  assumes "t < 256" "n \<le> 256"
  shows "nat (((int ((t + n) mod 256) + 1) mod 256 - int (min 256 (n + 1))) mod 256) = (if n < 256 then t else (t + 1) mod 256)"
proof -
  have "((int ((t + n) mod 256) + 1) mod 256 - int (min 256 (n + 1))) mod 256 = (int t + int n + 1 - int (min 256 (n + 1))) mod 256"
    by (simp add: zmod_int mod_diff_left_eq mod_add_left_eq)
  also have "\<dots> = int (if n < 256 then t else (t + 1) mod 256)" using assms by (auto simp: zmod_int add.commute)
  finally show ?thesis by simp
qed

lemma history_window:
  assumes "history_ok h"
  obtains t n where "oldest h = t" "hcount h = int n" "t < 256" "n \<le> 256" "hhead h = int ((t + n) mod 256)"
    "lines h = map cstring (ring_list (hentries h) t n)" "length (hentries h) = 256"
    "(hhead h - hcount h + HISTORY_SIZE) mod HISTORY_SIZE = int t"
proof -
  have "int (oldest h) = (hhead h - hcount h) mod 256" by (simp add: oldest_def)
  moreover have "hhead h = hhead h mod 256" using assms by (simp add: history_ok_def)
  ultimately have "hhead h = int ((oldest h + nat (hcount h)) mod 256)"
    using assms by (simp add: history_ok_def zmod_int mod_add_left_eq)
  moreover have "(hhead h - hcount h + HISTORY_SIZE) mod HISTORY_SIZE = int (oldest h)"
    using \<open>int (oldest h) = _\<close> by (simp add: HISTORY_SIZE_def)
  moreover have "oldest h < 256" by (simp add: oldest_def nat_less_iff)
  ultimately show ?thesis
    by (intro that [of "oldest h" "nat (hcount h)"]) (use assms in \<open>simp_all add: history_ok_def lines_def nat_le_iff\<close>)
qed

lemma length_lines [simp]: "length (lines h) = nat (hcount h)"
  by (simp add: lines_def)

lemma lines_nonempty: "lines h \<noteq> [] \<longleftrightarrow> hcount h > 0"
  by (simp flip: length_greater_0_conv)

lemma store_line_string: "0 \<notin> set l \<Longrightarrow> cstring (store_line l) = take 255 l"
  unfolding cstring_def store_line_def Let_def HISTORY_LINE_MAX_def
  by (subst takeWhile_append2) (auto dest: in_set_takeD simp: takeWhile_append split: if_splits)

text \<open>Appending to the window: while there is room at its end, afterwards over its first line.\<close>

lemma ring_push:
  assumes "length buf = 256" "t < 256" "n \<le> 256"
  shows "ring_list (buf[(t + n) mod 256 := x]) (if n < 256 then t else (t + 1) mod 256) (min 256 (n + 1))
    = drop (n + 1 - 256) (ring_list buf t n @ [x])"
proof (cases "n < 256")
  case True
  then show ?thesis using ring_list_enq [of n buf t x] assms by simp
next
  case False
  then have n: "n = Suc 255" using assms by simp
  have "((t + 1) mod 256 + 255) mod 256 = (t + 256) mod 256" by (simp add: mod_add_left_eq)
  then have "((t + 1) mod 256 + 255) mod 256 = t" using assms(2) by simp
  then show ?thesis
    using ring_list_enq [of 255 buf "(t + 1) mod 256" x] ring_list_deq [of t buf 255] assms by (simp add: n)
qed

lemma last_line:
  assumes "history_ok h" "hcount h > 0"
  shows "cstring (hentries h ! nat ((hhead h - 1 + HISTORY_SIZE) mod HISTORY_SIZE)) = last (lines h)"
proof -
  obtain t n where w: "hcount h = int n" "t < 256" "n \<le> 256" "hhead h = int ((t + n) mod 256)"
      "lines h = map cstring (ring_list (hentries h) t n)" "length (hentries h) = 256"
    using history_window [OF assms(1)] by metis
  then obtain m where m: "n = Suc m" using assms(2) by (cases n) auto
  have "hhead h = (int (t + m) + 1) mod 256" by (simp add: w(4) m zmod_int ac_simps)
  then have "(hhead h - 1 + HISTORY_SIZE) mod HISTORY_SIZE = int ((t + m) mod 256)"
    by (simp only: HISTORY_SIZE_def back_mod zmod_int of_nat_numeral)
  moreover have "last (ring_list (hentries h) t n) = hentries h ! ((t + m) mod 256)"
    using w(6) by (simp add: m ring_list_def)
  ultimately show ?thesis unfolding w(5) by (simp add: m last_map flip: length_0_conv)
qed

lemma history_add_lines:
  assumes "history_ok h" "0 \<notin> set l"
  obtains h' where "history_add (Some h) (Some l) = Some (Some h')" "history_ok h'" "lines h' = remember l (lines h)"
    "lines h' \<noteq> lines h \<Longrightarrow> hcursor h' = hhead h'"
proof (cases "l = [] \<or> (lines h \<noteq> [] \<and> last (lines h) = l)")
  case True
  then have "l = [] \<or> (hcount h > 0 \<and> cstring (hentries h ! nat ((hhead h - 1 + HISTORY_SIZE) mod HISTORY_SIZE)) = l)"
    using last_line [OF assms(1)] lines_nonempty [of h] by metis
  then have "history_add (Some h) (Some l) = Some (Some h)" by (elim disjE conjE) (simp_all add: history_add_def)
  with True that [of h] assms(1) show ?thesis by (simp add: remember_def)
next
  case False
  obtain t n where w: "oldest h = t" "hcount h = int n" "t < 256" "n \<le> 256" "hhead h = int ((t + n) mod 256)"
      "lines h = map cstring (ring_list (hentries h) t n)" "length (hentries h) = 256"
    using history_window [OF assms(1)] by metis
  define h' where "h' = \<lparr>hentries = (hentries h)[(t + n) mod 256 := store_line l], hhead = (hhead h + 1) mod 256,
      hcount = int (min 256 (n + 1)), hcursor = (hhead h + 1) mod 256\<rparr>"
  have "history_add (Some h) (Some l) = Some (Some h')"
  proof -
    have "l \<noteq> []" "\<not> (hcount h > 0 \<and> cstring (hentries h ! nat ((hhead h - 1 + HISTORY_SIZE) mod HISTORY_SIZE)) = l)"
      using False last_line [OF assms(1)] lines_nonempty [of h] by metis+
    note c = this
    show ?thesis unfolding history_add_def option.case if_not_P [OF c(1)] if_not_P [OF c(2)]
      using w(2,4,5) by (simp add: Let_def h'_def HISTORY_SIZE_def)
  qed
  moreover have "history_ok h'" using w by (simp add: history_ok_def h'_def)
  moreover have o: "oldest h' = (if n < 256 then t else (t + 1) mod 256)"
    using window_start [OF w(3,4)] by (simp add: oldest_def h'_def w(5))
  have hc: "nat (hcount h') = min 256 (n + 1)" "hentries h' = (hentries h)[(t + n) mod 256 := store_line l]"
    unfolding h'_def by (simp_all only: history.select_convs nat_int)
  have "lines h' = map cstring (drop (n + 1 - 256) (ring_list (hentries h) t n @ [store_line l]))"
    by (simp only: lines_def o hc ring_push [OF w(7,3,4)])
  then have "lines h' = remember l (lines h)"
    using False store_line_string [OF assms(2)] w(6) by (auto simp: remember_def drop_map)
  ultimately show ?thesis using that by (simp add: h'_def)
qed

section \<open>Moving through the history\<close>

text \<open>\<open>n\<close> presses of the key for older lines, and what the next one shows.\<close>

fun older :: "nat \<Rightarrow> history \<Rightarrow> history" where
  "older 0 h = h"
| "older (Suc n) h = snd (history_get_older (older n h))"

lemma older_step:
  assumes "history_ok h" "hcount h = int n" "oldest h = t" "0 < n" "p \<le> n" "hcursor h = int ((t + p) mod 256)"
  shows "history_get_older h = (Some (lines h ! (if p = 0 \<or> p = 256 then 0 else p - 1)),
      h\<lparr>hcursor := int ((t + (if p = 0 \<or> p = 256 then 0 else p - 1)) mod 256)\<rparr>)"
proof -
  obtain n' where w: "t < 256" "n \<le> 256" "lines h = map cstring (ring_list (hentries h) t n)" "length (hentries h) = 256"
      "(hhead h - hcount h + HISTORY_SIZE) mod HISTORY_SIZE = int t"
    using history_window [OF assms(1)] assms(2,3) by (metis of_nat_eq_iff)
  have l: "lines h ! i = cstring (hentries h ! ((t + i) mod 256))" if "i < n" for i
    using that w(4) by (simp add: w(3) ring_list_nth)
  show ?thesis
  proof (cases "p = 0 \<or> p = 256")
    case True
    then have "hcursor h = int t" "(t + p) mod 256 = t" using assms(6) w(1) by auto
    moreover have "hcount h \<noteq> 0" using assms(2,4) by simp
    ultimately show ?thesis using l [of 0] assms(4) w(1) by (simp only: history_get_older_def w(5) Let_def) (simp add: True)
  next
    case False
    then obtain q where q: "p = Suc q" "q < 255" using assms(5) w(2) by (cases p) auto
    have "(t + p) mod 256 \<noteq> (t + 0) mod 256" using q by (intro ring_slot_distinct) auto
    then have ne: "hcursor h \<noteq> int t" using assms(6) w(1) by simp
    have "hcursor h = (int (t + q) + 1) mod 256" by (simp add: assms(6) q zmod_int ac_simps)
    then have "(hcursor h - 1 + HISTORY_SIZE) mod HISTORY_SIZE = int ((t + q) mod 256)"
      by (simp only: HISTORY_SIZE_def back_mod zmod_int of_nat_numeral)
    moreover have "hcount h \<noteq> 0" "\<not> (p = 0 \<or> p = 256)" using assms(2,4) False by simp_all
    ultimately show ?thesis using ne q assms(5) l [of q] by (simp only: history_get_older_def w(5) Let_def if_False) simp
  qed
qed

lemma older_window [simp]: "lines (h\<lparr>hcursor := c\<rparr>) = lines h" "oldest (h\<lparr>hcursor := c\<rparr>) = oldest h"
  by (simp_all add: lines_def oldest_def)

lemma older_cursor:
  assumes "history_ok h" "hcount h = int n" "0 < n" "hcursor h = hhead h"
  shows "older k h = h\<lparr>hcursor := int ((oldest h + (if n = 256 then (if k = 0 then n else 0) else n - min k n)) mod 256)\<rparr>"
proof (induction k)
  case 0
  obtain t m where "oldest h = t" "hcount h = int m" "hhead h = int ((t + m) mod 256)" using history_window [OF assms(1)] by metis
  then have "hcursor h = int ((oldest h + n) mod 256)" using assms(2,4) by simp
  then have "h\<lparr>hcursor := int ((oldest h + n) mod 256)\<rparr> = h" by simp
  then show ?case by (cases "n = 256") simp_all
next
  case (Suc k)
  let ?p = "if n = 256 then (if k = 0 then n else 0) else n - min k n"
  let ?h = "h\<lparr>hcursor := int ((oldest h + ?p) mod 256)\<rparr>"
  have "n \<le> 256" using assms(1,2) by (simp add: history_ok_def)
  moreover have "history_ok ?h" using assms(1) by (simp add: history_ok_def)
  ultimately have "history_get_older ?h = (Some (lines ?h ! (if ?p = 0 \<or> ?p = 256 then 0 else ?p - 1)),
      ?h\<lparr>hcursor := int ((oldest h + (if ?p = 0 \<or> ?p = 256 then 0 else ?p - 1)) mod 256)\<rparr>)"
    using assms(2,3) by (intro older_step [of _ n]) auto
  moreover have "(if ?p = 0 \<or> ?p = 256 then 0 else ?p - 1) = (if n = 256 then (if Suc k = 0 then n else 0) else n - min (Suc k) n)"
    using \<open>n \<le> 256\<close> by auto
  ultimately show ?case using Suc.IH by simp
qed

section \<open>Properties\<close>

text \<open>C28: the ring of the history implements a list of the last 256 lines. Adding a line that is empty or the same as the last one
  changes nothing; another line, cut to 255 characters, is appended, and the oldest line goes when there were 256.\<close>

theorem history_add_refines:
  assumes "history_ok h" "0 \<notin> set l"
  shows "\<exists>h'. history_add (Some h) (Some l) = Some (Some h') \<and> history_ok h' \<and> lines h' = remember l (lines h)"
  using history_add_lines [OF assms] by metis

lemma icarsh_history_ok: "history_ok icarsh_history" "lines icarsh_history = []"
  by (simp_all add: history_ok_def icarsh_history_def lines_def konst)

theorem history_add_refines_witness:
  "\<exists>h'. history_add (Some icarsh_history) (Some [0x6C, 0x73]) = Some (Some h') \<and> lines h' = [[0x6C, 0x73]]"
  using history_add_refines [OF icarsh_history_ok(1), of "[0x6C, 0x73]"] by (auto simp: icarsh_history_ok(2) remember_def)

text \<open>going up. After a line was entered, the \<open>k\<close>-th press of the key shows the \<open>k\<close>-th last line, and at the end the oldest
  line again and again, as long as the history has fewer than 256 lines. In a full history the cursor stands on the oldest
  line from the start: every press shows the oldest line and no other line can be reached.\<close>

theorem history_up_shows:
  assumes "history_ok h" "lines h \<noteq> []" "hcursor h = hhead h"
  shows "fst (history_get_older (older k h))
    = Some (if length (lines h) < 256 then lines h ! (length (lines h) - Suc (min k (length (lines h) - 1))) else hd (lines h))"
proof -
  obtain n where n: "hcount h = int n" "0 < n" using assms(2) lines_nonempty [of h] by (metis zero_less_imp_eq_int)
  have "n \<le> 256" using assms(1) n by (simp add: history_ok_def)
  let ?p = "if n = 256 then (if k = 0 then n else 0) else n - min k n"
  have "history_ok (older k h)" "hcount (older k h) = int n" "oldest (older k h) = oldest h" "lines (older k h) = lines h"
      "hcursor (older k h) = int ((oldest h + ?p) mod 256)"
    using assms(1) n(1) by (simp_all add: older_cursor [OF assms(1) n assms(3)] history_ok_def)
  from older_step [OF this(1,2,3) n(2) _ this(5)] this(4) \<open>n \<le> 256\<close> n
  have "fst (history_get_older (older k h)) = Some (lines h ! (if ?p = 0 \<or> ?p = 256 then 0 else ?p - 1))" by simp
  then show ?thesis using n \<open>n \<le> 256\<close> assms(2) by (auto simp: hd_conv_nth)
qed

definition history_full :: history where
  "history_full = \<lparr>hentries = map (\<lambda>i. store_line [of_nat (i div 2 + 1)]) [0..<256], hhead = 0, hcount = 256, hcursor = 0\<rparr>"

theorem history_up_shows_witness:
  "fst (history_get_older (older 5 history_full)) = Some [1]"
proof -
  have ok: "history_ok history_full" "hcursor history_full = hhead history_full" "lines history_full \<noteq> []"
      "length (lines history_full) = 256"
    by (simp_all add: history_ok_def history_full_def lines_nonempty)
  have "oldest history_full = 0" "hcount history_full = 256" "length (hentries history_full) = 256"
    by (simp_all add: oldest_def history_full_def)
  then have "hd (lines history_full) = cstring (hentries history_full ! 0)"
    unfolding lines_def by (subst hd_map) (simp_all add: ring_list_nonempty flip: length_0_conv)
  moreover have "hentries history_full ! 0 = store_line [1]" by (simp add: history_full_def)
  ultimately have "hd (lines history_full) = [1]" by (simp add: store_line_string)
  then show ?thesis using history_up_shows [OF ok(1,3,2), of 5] ok(4) by simp
qed

end
