(* ===== verification/Bounded_Queue.thy ===== *)
theory Bounded_Queue
  imports Prelude
begin

text \<open>
  The contract of the kernel's bounded queues. The keyboard and mouse FIFO (\<open>ds/fifo.c\<close>), the ready
  queue (\<open>scheduler/rr.c\<close>) and the wait queue (\<open>scheduler/wq.c\<close>) are three copies of one ring buffer;
  each theory interprets this locale on its own operations. \<open>admit\<close> is the test an element has to pass
  to be stored at all (the two task queues look at the task state), \<open>cap\<close> the capacity.
\<close>

locale bounded_queue =
  fixes inv :: "'q \<Rightarrow> bool"
    and contents :: "'q \<Rightarrow> 'a list"
    and cap :: nat
    and admit :: "'a \<Rightarrow> bool"
    and enq :: "'a \<Rightarrow> 'q \<Rightarrow> 'q"
    and deq :: "'q \<Rightarrow> 'a option \<times> 'q"
  assumes contents_cap: "inv q \<Longrightarrow> length (contents q) \<le> cap"
    and enq_inv: "inv q \<Longrightarrow> inv (enq x q)"
    and enq_contents: "inv q \<Longrightarrow> admit x \<Longrightarrow> length (contents q) < cap \<Longrightarrow>
          contents (enq x q) = contents q @ [x]"
    and enq_full: "inv q \<Longrightarrow> length (contents q) = cap \<Longrightarrow> enq x q = q"
    and enq_reject: "\<not> admit x \<Longrightarrow> enq x q = q"
    and deq_empty: "inv q \<Longrightarrow> contents q = [] \<Longrightarrow> deq q = (None, q)"
    and deq_cons: "inv q \<Longrightarrow> contents q = x # xs \<Longrightarrow>
          fst (deq q) = Some x \<and> inv (snd (deq q)) \<and> contents (snd (deq q)) = xs"
begin

lemma enq_take:
  "inv q \<Longrightarrow> contents (enq x q) = take cap (contents q @ filter admit [x])"
proof -
  assume q: "inv q"
  consider "\<not> admit x" | "admit x" "length (contents q) < cap" | "admit x" "length (contents q) = cap"
    using contents_cap [OF q] by linarith
  then show ?thesis
    using q contents_cap [OF q] by cases (auto simp: enq_reject enq_contents enq_full)
qed

text \<open>A burst of insertions keeps a prefix of what was offered: the overflow is dropped silently.\<close>

lemma fold_enq_inv: "inv q \<Longrightarrow> inv (fold enq xs q)"
  by (induction xs arbitrary: q) (auto simp: enq_inv)

lemma fold_enq_take:
  "inv q \<Longrightarrow> contents (fold enq xs q) = take cap (contents q @ filter admit xs)"
proof (induction xs arbitrary: q)
  case Nil
  then show ?case using contents_cap by simp
next
  case (Cons x xs)
  have "contents (fold enq (x # xs) q) = take cap (contents (enq x q) @ filter admit xs)"
    using Cons by (simp add: enq_inv)
  also have "\<dots> = take cap (contents q @ filter admit (x # xs))"
    using Cons.prems contents_cap [OF Cons.prems]
    by (cases "cap - length (contents q)") (auto simp: enq_take)
  finally show ?case .
qed

text \<open>Removing \<open>n\<close> elements one after the other.\<close>

primrec drain :: "nat \<Rightarrow> 'q \<Rightarrow> 'a option list \<times> 'q" where
  "drain 0 q = ([], q)"
| "drain (Suc n) q = (let (x, q1) = deq q; (xs, q2) = drain n q1 in (x # xs, q2))"

lemma drain_contents:
  "inv q \<Longrightarrow> n \<le> length (contents q) \<Longrightarrow>
   fst (drain n q) = map Some (take n (contents q)) \<and> inv (snd (drain n q))
   \<and> contents (snd (drain n q)) = drop n (contents q)"
proof (induction n arbitrary: q)
  case 0
  then show ?case by simp
next
  case (Suc n)
  then obtain x xs where c: "contents q = x # xs" by (cases "contents q") auto
  note d = deq_cons [OF Suc.prems(1) c]
  with Suc.IH [of "snd (deq q)"] Suc.prems c show ?case
    by (auto simp: Let_def split_beta)
qed

text \<open>First in, first out.\<close>

lemma fifo_order:
  assumes "inv q" "list_all admit xs" "length (contents q) + length xs \<le> cap"
  shows "fst (drain (length (contents q) + length xs) (fold enq xs q)) = map Some (contents q @ xs)"
proof -
  have "contents (fold enq xs q) = contents q @ xs"
    using assms by (simp add: fold_enq_take list_all_iff)
  then show ?thesis
    using drain_contents [OF fold_enq_inv [OF assms(1)], of "length (contents q) + length xs" xs] by simp
qed

end

end
