(* ===== verification/Fifo.thy ===== *)
theory Fifo
  imports Bounded_Queue
begin

text \<open>
  \<open>ds/fifo.c\<close>: the byte FIFO between the PS/2 interrupt handlers and their consumers. The struct is a
  record with the array as a list of \<open>FIFO_BUFFER_SIZE\<close> bytes; a \<open>fifo_t*\<close> argument that the code tests
  against null is an \<open>option\<close>.
\<close>

unbundle bit_operations_syntax

definition FIFO_BUFFER_SIZE :: nat where [konst]: "FIFO_BUFFER_SIZE = 128"
definition FIFO_BUFFER_MASK :: u8 where [konst]: "FIFO_BUFFER_MASK = 127"

record fifo =
  buffer :: "u8 list"
  head :: u8
  tail :: u8
  count :: u8

definition fifo_kbd0 :: fifo where
  "fifo_kbd0 = \<lparr>buffer = replicate FIFO_BUFFER_SIZE 0, head = 0, tail = 0, count = 0\<rparr>"

definition fifo_init :: "fifo option \<Rightarrow> fifo option" where
  "fifo_init self = (case self of None \<Rightarrow> None
     | Some q \<Rightarrow> Some (q\<lparr>head := 0, tail := 0, count := 0\<rparr>))"

definition fifo_is_empty :: "fifo \<Rightarrow> bool" where
  "fifo_is_empty q \<longleftrightarrow> count q = 0"

definition fifo_is_full :: "fifo \<Rightarrow> bool" where
  "fifo_is_full q \<longleftrightarrow> unat (count q) = FIFO_BUFFER_SIZE"

definition fifo_enqueue :: "fifo option \<Rightarrow> u8 \<Rightarrow> bool \<times> fifo option" where
  "fifo_enqueue self data = (case self of None \<Rightarrow> (False, None)
     | Some q \<Rightarrow> if fifo_is_full q then (False, Some q)
        else (True, Some (q\<lparr>buffer := (buffer q)[unat (head q) := data],
                           head := (head q + 1) AND FIFO_BUFFER_MASK,
                           count := count q + 1\<rparr>)))"

text \<open>\<open>data\<close> is the caller's byte: it is overwritten only when an element is taken.\<close>

definition fifo_dequeue :: "fifo option \<Rightarrow> u8 \<Rightarrow> bool \<times> u8 \<times> fifo option" where
  "fifo_dequeue self data = (case self of None \<Rightarrow> (False, data, None)
     | Some q \<Rightarrow> if fifo_is_empty q then (False, data, Some q)
        else (True, buffer q ! unat (tail q),
              Some (q\<lparr>tail := (tail q + 1) AND FIFO_BUFFER_MASK, count := count q - 1\<rparr>)))"

text \<open>\<open>fifo_dump\<close> prints the stored bytes with their slots, oldest first.\<close>

definition fifo_dump :: "fifo \<Rightarrow> (nat \<times> u8) list" where
  "fifo_dump q = map (\<lambda>i. let idx = (unat (tail q) + i) mod FIFO_BUFFER_SIZE in (idx, buffer q ! idx)) [0..<unat (count q)]"

section \<open>The invariant and the abstraction to a list\<close>

definition fifo_inv :: "fifo \<Rightarrow> bool" where [invs]:
  "fifo_inv q \<longleftrightarrow> length (buffer q) = FIFO_BUFFER_SIZE \<and> unat (head q) < FIFO_BUFFER_SIZE
     \<and> unat (tail q) < FIFO_BUFFER_SIZE \<and> unat (count q) \<le> FIFO_BUFFER_SIZE
     \<and> unat (head q) = (unat (tail q) + unat (count q)) mod FIFO_BUFFER_SIZE"

definition fifo_list :: "fifo \<Rightarrow> u8 list" where
  "fifo_list q = ring_list (buffer q) (unat (tail q)) (unat (count q))"

lemma mask_wraps:
  fixes w :: u8
  assumes "unat w < 128"
  shows "unat ((w + 1) AND FIFO_BUFFER_MASK) = (unat w + 1) mod 128"
proof -
  have "(w + 1) AND FIFO_BUFFER_MASK = take_bit 7 (w + 1)"
    by (simp add: FIFO_BUFFER_MASK_def take_bit_eq_mask mask_eq_exp_minus_1)
  moreover have "unat (w + 1) = unat w + 1"
    using assms by (simp add: unat_word_ariths)
  ultimately show ?thesis by (simp add: take_bit_eq_mod unat_mod)
qed

lemma count_succ: "unat (c :: u8) < 128 \<Longrightarrow> unat (c + 1) = unat c + 1"
  by (simp add: unat_word_ariths)

lemma count_pred: "(c :: u8) \<noteq> 0 \<Longrightarrow> unat (c - 1) = unat c - 1"
  by (simp add: unat_minus_one)

lemma fifo_list_length [simp]: "length (fifo_list q) = unat (count q)"
  by (simp add: fifo_list_def)

definition fifo_put :: "u8 \<Rightarrow> fifo \<Rightarrow> fifo" where
  "fifo_put x q = (case snd (fifo_enqueue (Some q) x) of Some q' \<Rightarrow> q' | None \<Rightarrow> q)"

definition fifo_get :: "fifo \<Rightarrow> u8 option \<times> fifo" where
  "fifo_get q = (case fifo_dequeue (Some q) 0 of
      (ok, x, s) \<Rightarrow> (if ok then Some x else None, case s of Some q' \<Rightarrow> q' | None \<Rightarrow> q))"

lemma fifo_put_list:
  assumes "fifo_inv q" "unat (count q) < 128"
  shows "fifo_list (fifo_put x q) = fifo_list q @ [x]"
  using assms ring_list_enq [of "unat (count q)" "buffer q" "unat (tail q)" x]
  by (simp add: fifo_put_def fifo_enqueue_def fifo_is_full_def fifo_list_def fifo_inv_def
      FIFO_BUFFER_SIZE_def count_succ)

lemma fifo_put_inv: "fifo_inv q \<Longrightarrow> fifo_inv (fifo_put x q)"
  by (auto simp: fifo_put_def fifo_enqueue_def fifo_is_full_def fifo_inv_def FIFO_BUFFER_SIZE_def
      count_succ mask_wraps mod_simps)

lemma fifo_get_cons:
  assumes "fifo_inv q" "fifo_list q = x # xs"
  shows "fst (fifo_get q) = Some x \<and> fifo_inv (snd (fifo_get q)) \<and> fifo_list (snd (fifo_get q)) = xs"
proof -
  have c: "count q \<noteq> 0" using assms(2) by (auto simp: fifo_list_def)
  then have n: "unat (count q) = Suc (unat (count q - 1))"
    using unat_gt_0 [of "count q"] by (simp add: count_pred)
  have t: "unat (tail q) < length (buffer q)" using assms(1) by (simp add: fifo_inv_def)
  have "fifo_list q = buffer q ! unat (tail q)
      # ring_list (buffer q) ((unat (tail q) + 1) mod length (buffer q)) (unat (count q - 1))"
    using ring_list_deq [OF t, of "unat (count q - 1)"] n by (simp add: fifo_list_def)
  with assms c n show ?thesis
    by (auto simp: fifo_get_def fifo_dequeue_def fifo_is_empty_def fifo_inv_def fifo_list_def
        FIFO_BUFFER_SIZE_def mask_wraps mod_simps)
qed

interpretation kfifo: bounded_queue fifo_inv fifo_list FIFO_BUFFER_SIZE "\<lambda>_. True" fifo_put fifo_get
proof unfold_locales
  show "fifo_put x q = q" if "fifo_inv q" "length (fifo_list q) = FIFO_BUFFER_SIZE" for q x
    using that by (simp add: fifo_put_def fifo_enqueue_def fifo_is_full_def)
  show "fifo_get q = (None, q)" if "fifo_inv q" "fifo_list q = []" for q
    using that by (simp add: fifo_get_def fifo_dequeue_def fifo_is_empty_def fifo_list_def ring_list_def unat_eq_0)
  show "length (fifo_list q) \<le> FIFO_BUFFER_SIZE" if "fifo_inv q" for q
    using that by (simp add: fifo_inv_def)
  show "fifo_list (fifo_put x q) = fifo_list q @ [x]"
    if "fifo_inv q" "length (fifo_list q) < FIFO_BUFFER_SIZE" for q x
    using that by (simp add: fifo_put_list FIFO_BUFFER_SIZE_def)
qed (simp_all add: fifo_put_inv fifo_get_cons)

lemma fifo_enqueue_list:
  assumes "fifo_inv q"
  shows "\<exists>q'. fifo_enqueue (Some q) x = (length (fifo_list q) < FIFO_BUFFER_SIZE, Some q') \<and> fifo_inv q'
      \<and> fifo_list q' = (if length (fifo_list q) < FIFO_BUFFER_SIZE then fifo_list q @ [x] else fifo_list q)"
proof (cases "fifo_is_full q")
  case True
  then show ?thesis using assms by (simp add: fifo_enqueue_def fifo_is_full_def)
next
  case False
  then have "unat (count q) < FIFO_BUFFER_SIZE" using assms by (simp add: fifo_is_full_def fifo_inv_def)
  moreover from False have "fifo_enqueue (Some q) x = (True, Some (fifo_put x q))"
    by (simp add: fifo_put_def fifo_enqueue_def)
  ultimately show ?thesis
    using kfifo.enq_contents [OF assms, of x] kfifo.enq_inv [OF assms, of x] by simp
qed

lemma fifo_dequeue_list:
  assumes "fifo_inv q"
  shows "\<exists>q'. fifo_dequeue (Some q) d = (fifo_list q \<noteq> [], if fifo_list q = [] then d else hd (fifo_list q), Some q')
      \<and> fifo_inv q' \<and> fifo_list q' = tl (fifo_list q)"
proof (cases "fifo_list q")
  case Nil
  then have "count q = 0" by (metis fifo_list_length length_0_conv unat_eq_0)
  with Nil assms show ?thesis by (simp add: fifo_dequeue_def fifo_is_empty_def)
next
  case (Cons b bs)
  then have "count q \<noteq> 0" by (auto simp: fifo_list_def)
  then have "fifo_dequeue (Some q) d = (True, the (fst (fifo_get q)), Some (snd (fifo_get q)))"
    by (simp add: fifo_get_def fifo_dequeue_def fifo_is_empty_def)
  with kfifo.deq_cons [OF assms Cons] Cons show ?thesis by simp
qed

lemma fifo_dump_list: "fifo_inv q \<Longrightarrow> map snd (fifo_dump q) = fifo_list q"
  by (simp add: fifo_dump_def fifo_list_def ring_list_def fifo_inv_def Let_def comp_def)

lemma fifo_kbd0_empty: "fifo_inv fifo_kbd0" "fifo_list fifo_kbd0 = []"
  by (simp_all add: fifo_inv_def fifo_list_def fifo_kbd0_def konst)

section \<open>Properties\<close>

text \<open>C5: on a well-formed FIFO, \<open>fifo_enqueue\<close> appends the byte and reports success exactly when fewer than 128
  bytes are stored, and leaves a full FIFO untouched; \<open>fifo_dequeue\<close> removes the oldest byte and reports
  success exactly when the FIFO is not empty. A null FIFO is refused by both.\<close>

theorem fifo_refines_list:
  assumes "fifo_inv q"
  shows "(\<exists>q'. fifo_enqueue (Some q) x = (length (fifo_list q) < FIFO_BUFFER_SIZE, Some q') \<and> fifo_inv q'
      \<and> fifo_list q' = (if length (fifo_list q) < FIFO_BUFFER_SIZE then fifo_list q @ [x] else fifo_list q))
    \<and> (\<exists>q'. fifo_dequeue (Some q) d = (fifo_list q \<noteq> [], if fifo_list q = [] then d else hd (fifo_list q), Some q')
      \<and> fifo_inv q' \<and> fifo_list q' = tl (fifo_list q))
    \<and> fifo_enqueue None x = (False, None) \<and> fifo_dequeue None d = (False, d, None)"
  using fifo_enqueue_list [OF assms, of x] fifo_dequeue_list [OF assms, of d]
  by (simp add: fifo_enqueue_def [of None] fifo_dequeue_def [of None])

theorem fifo_refines_list_witness:
  "fifo_inv fifo_kbd0 \<and> (\<exists>q'. fifo_enqueue (Some fifo_kbd0) 0x1E = (True, Some q') \<and> fifo_list q' = [0x1E])"
  using fifo_refines_list [OF fifo_kbd0_empty(1), of "0x1E"] fifo_kbd0_empty
  by (auto simp: FIFO_BUFFER_SIZE_def)

text \<open>Bytes leave the FIFO in the order the interrupt handler stored them. A burst that overruns the 128 bytes
  loses exactly its tail: what is read back is the longest prefix that fits.\<close>

theorem fifo_burst_order:
  assumes "fifo_inv q"
  shows "fst (kfifo.drain (length (fifo_list (fold fifo_put xs q))) (fold fifo_put xs q))
      = map Some (take FIFO_BUFFER_SIZE (fifo_list q @ xs))"
proof -
  have "fifo_list (fold fifo_put xs q) = take FIFO_BUFFER_SIZE (fifo_list q @ xs)"
    using kfifo.fold_enq_take [OF assms, of xs] by simp
  moreover have "fst (kfifo.drain (length (fifo_list (fold fifo_put xs q))) (fold fifo_put xs q))
      = map Some (take (length (fifo_list (fold fifo_put xs q))) (fifo_list (fold fifo_put xs q)))"
    using kfifo.drain_contents [OF kfifo.fold_enq_inv [OF assms] order_refl] by blast
  ultimately show ?thesis by (simp only: take_all order_refl)
qed

theorem fifo_burst_order_witness:
  "fst (kfifo.drain (length (fifo_list (fold fifo_put [1, 2, 3] fifo_kbd0))) (fold fifo_put [1, 2, 3] fifo_kbd0))
   = [Some 1, Some 2, Some 3]"
  using fifo_burst_order [OF fifo_kbd0_empty(1), of "[1, 2, 3]"]
  by (simp add: fifo_kbd0_empty(2) FIFO_BUFFER_SIZE_def)

end
