(* ===== verification/Platform.thy ===== *)
theory Platform
  imports Port_Io
begin

text \<open>
  The tables and chips of the processor: the segment descriptors (\<open>arch/x86/gdt.c\<close>), the task state segment
  (\<open>process/tss.c\<close>), the interrupt controllers (\<open>arch/x86/pic.c\<close>), the interval timer (\<open>driver/timer.c\<close>) and the interrupt
  descriptor table (\<open>idt_set\<close> and \<open>idt_init\<close> of \<open>arch/x86/idt.c\<close>). The addresses the linker gives to the assembler entry
  points and to static objects are parameters.
\<close>

unbundle bit_operations_syntax

section \<open>Global descriptor table\<close>

definition GDT_KERNEL_CODE_SEGMENT :: u32 where [konst]: "GDT_KERNEL_CODE_SEGMENT = 0x08"
definition GDT_KERNEL_DATA_SEGMENT :: u32 where [konst]: "GDT_KERNEL_DATA_SEGMENT = 0x10"
definition GDT_USER_CODE_SEGMENT :: u32 where [konst]: "GDT_USER_CODE_SEGMENT = 0x18"
definition GDT_USER_DATA_SEGMENT :: u32 where [konst]: "GDT_USER_DATA_SEGMENT = 0x20"
definition GDT_ACCESS_NULL :: u8 where [konst]: "GDT_ACCESS_NULL = 0x00"
definition GDT_ACCESS_KERNEL_CODE :: u8 where [konst]: "GDT_ACCESS_KERNEL_CODE = 0x9A"
definition GDT_ACCESS_KERNEL_DATA :: u8 where [konst]: "GDT_ACCESS_KERNEL_DATA = 0x92"
definition GDT_ACCESS_USER_CODE :: u8 where [konst]: "GDT_ACCESS_USER_CODE = 0xFA"
definition GDT_ACCESS_USER_DATA :: u8 where [konst]: "GDT_ACCESS_USER_DATA = 0xF2"
definition GDT_ACCESS_TSS :: u8 where [konst]: "GDT_ACCESS_TSS = 0x89"
definition GDT_FLAGS_DEFAULT :: u32 where [konst]: "GDT_FLAGS_DEFAULT = 0xCF"

record gdt_entry =
  g_limit :: u16
  base_low :: u16
  base_middle :: u8
  g_access :: u8
  g_flags :: u8
  base_high :: u8

text \<open>The operand of the \<open>lgdt\<close> and \<open>lidt\<close> instructions.\<close>

record table_reg =
  t_limit :: u16
  t_base :: u32

text \<open>Writing behind the six entries has no defined result.\<close>

definition gdt_set_entry :: "u32 \<Rightarrow> u32 \<Rightarrow> u32 \<Rightarrow> u8 \<Rightarrow> u32 \<Rightarrow> gdt_entry list \<Rightarrow> gdt_entry list option" where
  "gdt_set_entry num base limit access flags gs = (if unat num < length gs then Some (gs[unat num := \<lparr>
       g_limit = ucast (limit AND 0xFFFF),
       base_low = ucast (base AND 0xFFFF),
       base_middle = ucast (drop_bit 16 base AND 0xFF),
       g_access = access,
       g_flags = ucast (drop_bit 16 limit AND 0x0F) OR ucast (flags AND 0xF0),
       base_high = ucast (drop_bit 24 base AND 0xFF)\<rparr>]) else None)"

text \<open>\<open>entries_addr\<close> is \<open>&gdt_entries\<close> and \<open>tss_addr\<close> is \<open>&tss\<close>; the result is the table and what is loaded.\<close>

definition gdt_init :: "u32 \<Rightarrow> u32 \<Rightarrow> gdt_entry list \<Rightarrow> (gdt_entry list \<times> table_reg) option" where
  "gdt_init entries_addr tss_addr g = do {
     g \<leftarrow> gdt_set_entry 0 0 0 GDT_ACCESS_NULL 0 g;
     g \<leftarrow> gdt_set_entry 1 0 0xFFFFFFFF GDT_ACCESS_KERNEL_CODE GDT_FLAGS_DEFAULT g;
     g \<leftarrow> gdt_set_entry 2 0 0xFFFFFFFF GDT_ACCESS_KERNEL_DATA GDT_FLAGS_DEFAULT g;
     g \<leftarrow> gdt_set_entry 3 0 0xFFFFFFFF GDT_ACCESS_USER_CODE GDT_FLAGS_DEFAULT g;
     g \<leftarrow> gdt_set_entry 4 0 0xFFFFFFFF GDT_ACCESS_USER_DATA GDT_FLAGS_DEFAULT g;
     g \<leftarrow> gdt_set_entry 5 tss_addr (104 - 1) GDT_ACCESS_TSS 0x00 g;
     Some (g, \<lparr>t_limit = 8 * 6 - 1, t_base = entries_addr\<rparr>) }"

section \<open>Task state segment\<close>

definition STACK_ALIGN_MASK_4 :: u32 where [konst]: "STACK_ALIGN_MASK_4 = 3"

record tss =
  tss_link :: u32
  tss_esp0 :: u32
  tss_ss0 :: u32
  tss_esp1 :: u32
  tss_ss1 :: u32
  tss_esp2 :: u32
  tss_ss2 :: u32
  tss_cr3 :: u32
  tss_eip :: u32
  tss_eflags :: u32
  tss_eax :: u32
  tss_ecx :: u32
  tss_edx :: u32
  tss_ebx :: u32
  tss_esp :: u32
  tss_ebp :: u32
  tss_esi :: u32
  tss_edi :: u32
  tss_es :: u32
  tss_cs :: u32
  tss_ss :: u32
  tss_ds :: u32
  tss_fs :: u32
  tss_gs :: u32
  tss_ldtr :: u32
  tss_iopb :: u32

definition tss0 :: tss where
  "tss0 = tss.make 0 0 0 0 0 0 0 0 0 0 0 0 0 0 0 0 0 0 0 0 0 0 0 0 0 0"

definition tss_init :: "tss \<Rightarrow> u32 \<Rightarrow> u16 \<Rightarrow> tss" where
  "tss_init self e s = tss0\<lparr>tss_esp0 := e AND NOT STACK_ALIGN_MASK_4, tss_ss0 := ucast s, tss_iopb := 104\<rparr>"

section \<open>Interrupt controllers\<close>

definition PIC_1_CTRL :: u16 where [konst]: "PIC_1_CTRL = 0x20"
definition PIC_1_DATA :: u16 where [konst]: "PIC_1_DATA = 0x21"
definition PIC_2_CTRL :: u16 where [konst]: "PIC_2_CTRL = 0xA0"
definition PIC_2_DATA :: u16 where [konst]: "PIC_2_DATA = 0xA1"
definition PIC_ACK :: u8 where [konst]: "PIC_ACK = 0x20"
definition ICW_1 :: u8 where [konst]: "ICW_1 = 0x11"
definition MODE_8086 :: u8 where [konst]: "MODE_8086 = 0x01"
definition IRQ_0 :: u8 where [konst]: "IRQ_0 = 0x20"
definition IRQ_8 :: u8 where [konst]: "IRQ_8 = 0x28"

definition pic_remap1 :: "'d bus \<Rightarrow> 'd \<Rightarrow> 'd" where
  "pic_remap1 b = outs b [(PIC_1_CTRL, ICW_1), (PIC_1_DATA, IRQ_0), (PIC_1_DATA, 0x04), (PIC_1_DATA, MODE_8086)]"

definition pic_remap2 :: "'d bus \<Rightarrow> 'd \<Rightarrow> 'd" where
  "pic_remap2 b = outs b [(PIC_2_CTRL, ICW_1), (PIC_2_DATA, IRQ_8), (PIC_2_DATA, 0x02), (PIC_2_DATA, MODE_8086)]"

definition pic_init :: "'d bus \<Rightarrow> 'd \<Rightarrow> 'd" where
  "pic_init b d = pic_remap2 b (pic_remap1 b d)"

definition pic1_send_eoi :: "'d bus \<Rightarrow> 'd \<Rightarrow> 'd" where
  "pic1_send_eoi b = outs b [(PIC_1_CTRL, PIC_ACK)]"

definition pic2_send_eoi :: "'d bus \<Rightarrow> 'd \<Rightarrow> 'd" where
  "pic2_send_eoi b = outs b [(PIC_2_CTRL, PIC_ACK), (PIC_1_CTRL, PIC_ACK)]"

section \<open>Interrupt descriptor table\<close>

definition IDT_KERNEL_INT_GATE :: u8 where [konst]: "IDT_KERNEL_INT_GATE = 0x0E OR 0x00 OR 0x80"
definition IDT_USER_INT_GATE :: u8 where [konst]: "IDT_USER_INT_GATE = 0x0E OR 0x60 OR 0x80"

record idt_desc =
  isr_low :: u16
  kernel_cs :: u16
  reserved :: u8
  attributes :: u8
  isr_high :: u16

definition idt_set :: "int \<Rightarrow> u32 \<Rightarrow> u8 \<Rightarrow> idt_desc list \<Rightarrow> idt_desc list" where
  "idt_set isr_num isr attrs t = (if isr_num < 0 \<or> isr_num \<ge> 256 then t else
     t[nat isr_num := \<lparr>isr_low = ucast (isr AND 0xFFFF), kernel_cs = 0x08, reserved = 0x00, attributes = attrs,
        isr_high = ucast (drop_bit 16 isr AND 0xFFFF)\<rparr>])"

text \<open>The entry points of \<open>idt.asm\<close>; \<open>addr\<close> is where the linker puts them.\<close>

datatype isr_entry = ASM_INTERRUPT_DEFAULT | ASM_ISR0 | ASM_ISR1 | ASM_ISR2 | ASM_ISR6 | ASM_ISR8 | ASM_ISR12 | ASM_ISR13
  | ASM_ISR14 | ASM_IRQ0_TIMER | ASM_IRQ1_KEYBOARD | ASM_IRQ12_MOUSE | ASM_SYSCALL

definition init_isr :: "(isr_entry \<Rightarrow> u32) \<Rightarrow> idt_desc list \<Rightarrow> idt_desc list" where
  "init_isr addr t = fold (\<lambda>i. idt_set (int i) (addr ASM_INTERRUPT_DEFAULT) IDT_KERNEL_INT_GATE) [0..<256] t"

definition idt_init :: "(isr_entry \<Rightarrow> u32) \<Rightarrow> u32 \<Rightarrow> idt_desc list \<Rightarrow> idt_desc list \<times> table_reg" where
  "idt_init addr idt_addr t = (let
     t = init_isr addr t;
     t = idt_set 0x0 (addr ASM_ISR0) IDT_KERNEL_INT_GATE t;
     t = idt_set 0x1 (addr ASM_ISR1) IDT_KERNEL_INT_GATE t;
     t = idt_set 0x2 (addr ASM_ISR2) IDT_KERNEL_INT_GATE t;
     t = idt_set 0x6 (addr ASM_ISR6) IDT_KERNEL_INT_GATE t;
     t = idt_set 0x8 (addr ASM_ISR8) IDT_KERNEL_INT_GATE t;
     t = idt_set 0xC (addr ASM_ISR12) IDT_KERNEL_INT_GATE t;
     t = idt_set 0xD (addr ASM_ISR13) IDT_KERNEL_INT_GATE t;
     t = idt_set 0xE (addr ASM_ISR14) IDT_KERNEL_INT_GATE t;
     t = idt_set 0x80 (addr ASM_SYSCALL) IDT_USER_INT_GATE t
   in (t, \<lparr>t_limit = 8 * 256 - 1, t_base = idt_addr\<rparr>))"

section \<open>Interval timer\<close>

definition PIT_DATA_PORT_CHANNEL_0 :: u16 where [konst]: "PIT_DATA_PORT_CHANNEL_0 = 0x40"
definition PIT_MODE_COMMAND_REGISTER :: u16 where [konst]: "PIT_MODE_COMMAND_REGISTER = 0x43"
definition PIT_COMMAND :: u8 where [konst]: "PIT_COMMAND = 0b00000000 OR 0b00110000 OR 0b00000110 OR 0b00000000"

record timer =
  ticks :: u64
  hz :: u32

text \<open>Dividing by a frequency of zero has no result.\<close>

definition timer_init :: "'d bus \<Rightarrow> (isr_entry \<Rightarrow> u32) \<Rightarrow> u32 \<Rightarrow> idt_desc list \<times> 'd \<Rightarrow> (timer \<times> idt_desc list \<times> 'd) option" where
  "timer_init b addr f = (\<lambda>(t, d). if f = 0 then None else
     let divisor = 1193180 div f;
         divisor_high_byte = ucast (drop_bit 8 divisor) AND 0xFF;
         divisor_low_byte = ucast divisor AND 0xFF
     in Some (\<lparr>ticks = 0, hz = f\<rparr>, idt_set 0x20 (addr ASM_IRQ0_TIMER) IDT_KERNEL_INT_GATE t,
          outs b [(PIT_MODE_COMMAND_REGISTER, PIT_COMMAND), (PIT_DATA_PORT_CHANNEL_0, divisor_low_byte),
            (PIT_DATA_PORT_CHANNEL_0, divisor_high_byte)] d))"

section \<open>What a descriptor says\<close>

definition gdt_base :: "gdt_entry \<Rightarrow> u32" where
  "gdt_base e = ucast (base_low e) OR push_bit 16 (ucast (base_middle e)) OR push_bit 24 (ucast (base_high e))"

definition gdt_limit20 :: "gdt_entry \<Rightarrow> u32" where
  "gdt_limit20 e = ucast (g_limit e) OR push_bit 16 (ucast (g_flags e AND 0x0F))"

definition gate_isr :: "idt_desc \<Rightarrow> u32" where
  "gate_isr e = ucast (isr_low e) OR push_bit 16 (ucast (isr_high e))"

text \<open>The descriptor privilege level: which rings may raise the interrupt by an instruction.\<close>

definition gate_dpl :: "idt_desc \<Rightarrow> u8" where
  "gate_dpl e = drop_bit 5 (attributes e) AND 3"

text \<open>Base, limit and access of a descriptor are those it was set to; a limit keeps its lower 20 bits.\<close>

lemma low_bits_mask:
  "(0xFFFF :: u32) = mask 16" "(0xFF :: u32) = mask 8" "(0x0F :: u32) = mask 4" "(0xF0 :: u32) = push_bit 4 (mask 4)"
  "(0x0F :: u8) = mask 4" "(0xFF :: u8) = mask 8"
  by (simp_all add: mask_eq_exp_minus_1)

lemma base_parts:
  fixes w :: u32
  shows "ucast (ucast (w AND mask 16) :: u16) OR push_bit 16 (ucast (ucast (drop_bit 16 w AND mask 8) :: u8))
     OR push_bit 24 (ucast (ucast (drop_bit 24 w AND mask 8) :: u8)) = w"
proof (rule bit_word_eqI)
  fix n assume "n < LENGTH(32)"
  then consider "n < 16" | "16 \<le> n" "n < 24" | "24 \<le> n" "n < 32" by fastforce
  then show "bit ((ucast (ucast (w AND mask 16) :: u16) :: u32) OR push_bit 16 (ucast (ucast (drop_bit 16 w AND mask 8) :: u8))
     OR push_bit 24 (ucast (ucast (drop_bit 24 w AND mask 8) :: u8))) n = bit w n"
    by cases (auto simp: bit_simps)
qed

lemma limit_parts:
  fixes w f :: u32
  shows "ucast (ucast (w AND mask 16) :: u16)
     OR push_bit 16 (ucast ((ucast (drop_bit 16 w AND mask 4) OR ucast (f AND push_bit 4 (mask 4)) :: u8) AND mask 4))
   = take_bit 20 w"
proof (rule bit_word_eqI)
  fix n assume "n < LENGTH(32)"
  then consider "n < 16" | "16 \<le> n" "n < 20" | "20 \<le> n" "n < 32" by fastforce
  then show "bit ((ucast (ucast (w AND mask 16) :: u16) :: u32)
     OR push_bit 16 (ucast ((ucast (drop_bit 16 w AND mask 4) OR ucast (f AND push_bit 4 (mask 4)) :: u8) AND mask 4))) n
     = bit (take_bit 20 w) n"
    by cases (auto simp: bit_simps)
qed

lemma halves:
  fixes w :: u32
  shows "ucast (ucast (w AND mask 16) :: u16) OR push_bit 16 (ucast (ucast (drop_bit 16 w AND mask 16) :: u16)) = w"
proof (rule bit_word_eqI)
  fix n assume "n < LENGTH(32)"
  then consider "n < 16" | "16 \<le> n" "n < 32" by fastforce
  then show "bit ((ucast (ucast (w AND mask 16) :: u16) :: u32)
      OR push_bit 16 (ucast (ucast (drop_bit 16 w AND mask 16) :: u16))) n = bit w n"
    by cases (auto simp: bit_simps)
qed

lemma gdt_entry_decodes:
  assumes "gdt_set_entry num base limit access flags gs = Some gs'"
  shows "gdt_base (gs' ! unat num) = base" "gdt_limit20 (gs' ! unat num) = take_bit 20 limit"
    "g_access (gs' ! unat num) = access"
  using assms base_parts [of base] limit_parts [of limit flags]
  by (auto simp only: gdt_set_entry_def gdt_base_def gdt_limit20_def low_bits_mask split: if_splits) simp_all

lemma gate_isr_set: "gate_isr \<lparr>isr_low = ucast (isr AND 0xFFFF), kernel_cs = c, reserved = r, attributes = a,
    isr_high = ucast (drop_bit 16 isr AND 0xFFFF)\<rparr> = isr"
  by (simp only: gate_isr_def low_bits_mask idt_desc.simps halves)

lemma idt_set_length [simp]: "length (idt_set n isr a t) = length t"
  by (simp add: idt_set_def)

lemma idt_set_nth:
  assumes "length t = 256" "v < 256" "0 \<le> n" "n < 256"
  shows "gate_isr (idt_set n isr a t ! v) = (if n = int v then isr else gate_isr (t ! v))"
    "attributes (idt_set n isr a t ! v) = (if n = int v then a else attributes (t ! v))"
    "kernel_cs (idt_set n isr a t ! v) = (if n = int v then 8 else kernel_cs (t ! v))"
  using assms by (auto simp: idt_set_def nth_list_update gate_isr_set)

lemma init_isr_nth:
  assumes "length t = 256" "v < 256"
  shows "gate_isr (init_isr addr t ! v) = addr ASM_INTERRUPT_DEFAULT" "attributes (init_isr addr t ! v) = IDT_KERNEL_INT_GATE"
    "kernel_cs (init_isr addr t ! v) = 8" "length (init_isr addr t) = 256"
proof -
  let ?f = "\<lambda>i. idt_set (int i) (addr ASM_INTERRUPT_DEFAULT) IDT_KERNEL_INT_GATE"
  have "n \<le> 256 \<Longrightarrow> length (fold ?f [0..<n] t) = 256 \<and> (\<forall>v < n. gate_isr (fold ?f [0..<n] t ! v) = addr ASM_INTERRUPT_DEFAULT
     \<and> attributes (fold ?f [0..<n] t ! v) = IDT_KERNEL_INT_GATE \<and> kernel_cs (fold ?f [0..<n] t ! v) = 8)" for n
    by (induction n) (use assms(1) in \<open>auto simp: idt_set_nth\<close>)
  from this [of 256] assms(2) show "gate_isr (init_isr addr t ! v) = addr ASM_INTERRUPT_DEFAULT"
    "attributes (init_isr addr t ! v) = IDT_KERNEL_INT_GATE"
    "kernel_cs (init_isr addr t ! v) = 8" "length (init_isr addr t) = 256"
    unfolding init_isr_def by blast+
qed

text \<open>The timer is programmed with the divisor exactly when the frequency is at least 19 Hz.\<close>

lemma timer_divisor_exact:
  assumes "19 \<le> f"
  shows "unat (1193180 div (f :: u32)) < 2 ^ 16"
proof -
  have "19 \<le> unat f" using assms by (simp add: word_le_nat_alt)
  then have "1193180 div unat f \<le> 1193180 div 19" by (intro div_le_mono2) auto
  then show ?thesis by (simp add: unat_div)
qed

end
