(* ===== verification/Input.thy ===== *)
theory Input
  imports Fifo Platform
begin

text \<open>
  The input devices: the PS/2 controller (\<open>driver/ps2.c\<close>), the mouse (\<open>driver/mouse.c\<close>), the keyboard tables of the
  kernel (\<open>driver/keyboard.c\<close>) and the key events of user programs (\<open>user/libc/kbd.c\<close>). Static variables of a function are
  arguments and results; reading a table behind its end has no defined result.
\<close>

unbundle bit_operations_syntax

section \<open>PS/2 controller\<close>

definition PS2_BUFFER_OUTPUT :: u8 where [konst]: "PS2_BUFFER_OUTPUT = 0x01"
definition PS2_BUFFER_INPUT :: u8 where [konst]: "PS2_BUFFER_INPUT = 0x02"
definition PS2_DATA_PORT :: u8 where [konst]: "PS2_DATA_PORT = 0x60"
definition PS2_STATUS_COMMAND_PORT :: u8 where [konst]: "PS2_STATUS_COMMAND_PORT = 0x64"
definition PS2_PACKAGE_DISPATCH :: nat where [konst]: "PS2_PACKAGE_DISPATCH = 32"

text \<open>At most \<open>timeout\<close> readings of the status port.\<close>

primrec ps2_wait_loop :: "nat \<Rightarrow> 'd bus \<Rightarrow> u8 \<Rightarrow> 'd \<Rightarrow> int \<times> 'd" where
  "ps2_wait_loop 0 b ty d = (- 1, d)"
| "ps2_wait_loop (Suc timeout) b ty d =
     (if ty = PS2_BUFFER_INPUT then let (s, d1) = inb b (ucast PS2_STATUS_COMMAND_PORT) d in
        if s AND PS2_BUFFER_INPUT = 0 then (0, d1) else ps2_wait_loop timeout b ty d1
      else if ty = PS2_BUFFER_OUTPUT then let (s, d1) = inb b (ucast PS2_STATUS_COMMAND_PORT) d in
        if s AND PS2_BUFFER_OUTPUT \<noteq> 0 then (0, d1) else ps2_wait_loop timeout b ty d1
      else (- 1, d))"

definition ps2_wait :: "'d bus \<Rightarrow> u8 \<Rightarrow> 'd \<Rightarrow> int \<times> 'd" where
  "ps2_wait b ty d = ps2_wait_loop 100000 b ty d"

definition ps2_send :: "'d bus \<Rightarrow> u8 \<Rightarrow> u8 \<Rightarrow> 'd \<Rightarrow> 'd" where
  "ps2_send b port byte d = (let (r, d1) = ps2_wait b PS2_BUFFER_INPUT d in if r = 0 then outb b (ucast port) byte d1 else d1)"

definition ps2_receive :: "'d bus \<Rightarrow> 'd \<Rightarrow> u8 \<times> 'd" where
  "ps2_receive b d = (let (r, d1) = ps2_wait b PS2_BUFFER_OUTPUT d in if r = 0 then inb b (ucast PS2_DATA_PORT) d1 else (0, d1))"

text \<open>Up to \<open>n\<close> bytes of a queue are given to a handler.\<close>

primrec ps2_dispatch_loop :: "nat \<Rightarrow> (u8 \<Rightarrow> 's \<Rightarrow> 's) \<Rightarrow> fifo \<Rightarrow> 's \<Rightarrow> fifo \<times> 's" where
  "ps2_dispatch_loop 0 handler q s = (q, s)"
| "ps2_dispatch_loop (Suc n) handler q s = (case fifo_dequeue (Some q) 0 of (ok, x, q') \<Rightarrow>
     if ok then ps2_dispatch_loop n handler (case q' of Some q2 \<Rightarrow> q2 | None \<Rightarrow> q) (handler x s) else (q, s))"

definition ps2_dispatch :: "(u8 \<Rightarrow> 's \<Rightarrow> 's) \<Rightarrow> fifo \<Rightarrow> 's \<Rightarrow> fifo \<times> 's" where
  "ps2_dispatch handler q s = ps2_dispatch_loop PS2_PACKAGE_DISPATCH handler q s"

section \<open>Mouse\<close>

definition LEFT_BUTTON_MASK :: u8 where [konst]: "LEFT_BUTTON_MASK = 1"
definition RIGHT_BUTTON_MASK :: u8 where [konst]: "RIGHT_BUTTON_MASK = 2"
definition MIDDLE_BUTTON_MASK :: u8 where [konst]: "MIDDLE_BUTTON_MASK = 4"
definition ALIGNED_PACKET_MASK :: u8 where [konst]: "ALIGNED_PACKET_MASK = 8"
definition Y_AXIS_OVERFLOW_MASK :: u8 where [konst]: "Y_AXIS_OVERFLOW_MASK = 0x40"
definition X_AXIS_OVERFLOW_MASK :: u8 where [konst]: "X_AXIS_OVERFLOW_MASK = 0x80"
definition SIGN_BIT_MASK :: u16 where [konst]: "SIGN_BIT_MASK = 0x100"

record mouse =
  mx :: u16
  my :: u16
  prev_x :: u16
  prev_y :: u16
  cycle :: u8
  mflags :: u8
  x_movement :: u8
  y_movement :: u8

definition match_mask :: "mouse \<Rightarrow> u8 \<Rightarrow> bool" where
  "match_mask m msk \<longleftrightarrow> mflags m AND msk \<noteq> 0"

definition update_coordinates :: "mouse \<Rightarrow> mouse" where
  "update_coordinates m = (let
     delta_x = ucast (x_movement m) - (push_bit 3 (ucast (mflags m)) AND SIGN_BIT_MASK);
     delta_y = ucast (y_movement m) - (push_bit 4 (ucast (mflags m)) AND SIGN_BIT_MASK)
   in m\<lparr>mx := mx m + delta_x, my := my m + delta_y\<rparr>)"

text \<open>The messages about buttons and positions are left out.\<close>

definition mouse_handler :: "u8 \<Rightarrow> mouse \<Rightarrow> mouse" where
  "mouse_handler data m = (if cycle m = 0 then
       let m1 = m\<lparr>mflags := data\<rparr> in if \<not> match_mask m1 ALIGNED_PACKET_MASK then m1\<lparr>cycle := 0\<rparr> else m1\<lparr>cycle := cycle m1 + 1\<rparr>
     else if cycle m = 1 then m\<lparr>x_movement := data, cycle := cycle m + 1\<rparr>
     else if cycle m = 2 then
       let m1 = m\<lparr>y_movement := data\<rparr>;
           m2 = (if \<not> match_mask m1 Y_AXIS_OVERFLOW_MASK \<or> \<not> match_mask m1 X_AXIS_OVERFLOW_MASK then update_coordinates m1 else m1)
       in m2\<lparr>cycle := 0\<rparr>
     else m)"

definition mouse_init :: "'d bus \<Rightarrow> (isr_entry \<Rightarrow> u32) \<Rightarrow> idt_desc list \<times> 'd \<Rightarrow> idt_desc list \<times> 'd" where
  "mouse_init b addr = (\<lambda>(t, d). let
     d1 = ps2_send b PS2_STATUS_COMMAND_PORT 0x20 (ps2_send b PS2_STATUS_COMMAND_PORT 0xA8 d);
     (s, d2) = ps2_receive b d1;
     d3 = ps2_send b PS2_DATA_PORT (s OR 2) (ps2_send b PS2_STATUS_COMMAND_PORT 0x60 d2);
     (r1, d4) = ps2_receive b (ps2_send b PS2_DATA_PORT 0xF6 (ps2_send b PS2_STATUS_COMMAND_PORT 0xD4 d3));
     (r2, d5) = ps2_receive b (ps2_send b PS2_DATA_PORT 0xF4 (ps2_send b PS2_STATUS_COMMAND_PORT 0xD4 d4))
   in (idt_set 0x2C (addr ASM_IRQ12_MOUSE) IDT_KERNEL_INT_GATE t, d5))"

section \<open>Keyboard of the kernel\<close>

definition qwertz_lower :: "u8 list" where
  "qwertz_lower = [
    0, 0, 49, 50, 51, 52, 53, 54, 55, 56, 57, 48, 223, 180, 8, 9, 113, 119, 101, 114, 116, 122, 117, 105, 111, 112,
    252, 43, 13, 0, 97, 115, 100, 102, 103, 104, 106, 107, 108, 246, 228, 94, 0, 60, 121, 120, 99, 118, 98, 110, 109,
    44, 46, 45, 0, 0, 0, 32, 0]"

definition qwertz_upper :: "u8 list" where
  "qwertz_upper = [
    0, 0, 33, 34, 167, 36, 37, 38, 47, 40, 41, 61, 63, 96, 8, 9, 81, 87, 69, 82, 84, 90, 85, 73, 79, 80, 220, 42, 10,
    0, 65, 83, 68, 70, 71, 72, 74, 75, 76, 214, 196, 94, 0, 62, 89, 88, 67, 86, 66, 78, 77, 59, 58, 95, 0, 0, 0, 32, 0]"

definition kbd_init :: "(isr_entry \<Rightarrow> u32) \<Rightarrow> idt_desc list \<Rightarrow> idt_desc list" where
  "kbd_init addr t = idt_set 0x21 (addr ASM_IRQ1_KEYBOARD) IDT_KERNEL_INT_GATE t"

record kbd_state =
  kshift :: bool
  caps_lock :: bool

definition lookup_key :: "u8 list \<Rightarrow> u8 \<Rightarrow> u8 option" where
  "lookup_key t c = (if unat c < length t then Some (t ! unat c) else None)"

definition kbd_translate :: "u8 \<Rightarrow> kbd_state \<Rightarrow> (u8 \<times> kbd_state) option" where
  "kbd_translate scancode k =
     (if scancode = 0x2A \<or> scancode = 0x36 then Some (0, k\<lparr>kshift := True\<rparr>)
      else if scancode = 0xAA \<or> scancode = 0xB6 then Some (0, k\<lparr>kshift := False\<rparr>)
      else if scancode = 0x3A then Some (0, k\<lparr>caps_lock := \<not> caps_lock k\<rparr>)
      else if scancode AND 0x80 \<noteq> 0 then Some (0, k)
      else do {
        ascii \<leftarrow> (if kshift k then lookup_key qwertz_upper scancode
          else if caps_lock k \<and> scancode \<ge> 16 \<and> scancode \<le> 40 then lookup_key qwertz_upper scancode
          else lookup_key qwertz_lower scancode);
        Some (ascii, k) })"

section \<open>Key events of user programs\<close>

definition scancode_ascii :: "u8 list" where
  "scancode_ascii = [
    0, 27, 49, 50, 51, 52, 53, 54, 55, 56, 57, 48, 45, 61, 8, 9, 113, 119, 101, 114, 116, 122, 117, 105, 111, 112,
    91, 93, 10, 0, 97, 115, 100, 102, 103, 104, 106, 107, 108, 58, 39, 96, 0, 92, 121, 120, 99, 118, 98, 110, 109,
    44, 46, 47, 0, 42, 0, 32] @ replicate 70 0"

definition scancode_ascii_shift :: "u8 list" where
  "scancode_ascii_shift = [
    0, 27, 33, 34, 35, 36, 37, 38, 47, 40, 41, 61, 63, 96, 8, 9, 81, 87, 69, 82, 84, 90, 85, 73, 79, 80, 123, 125,
    10, 0, 65, 83, 68, 70, 71, 72, 74, 75, 76, 58, 34, 126, 0, 124, 89, 88, 67, 86, 66, 78, 77, 60, 58, 95, 0, 42, 0,
    32] @ replicate 70 0"

datatype key_code = KEY_NONE | KEY_ENTER | KEY_BACKSPACE | KEY_TAB | KEY_ESC | KEY_UP | KEY_DOWN | KEY_LEFT | KEY_RIGHT | KEY_OTHER

record key_event =
  pressed :: bool
  ascii :: u8
  kcode :: key_code

definition key_code_of :: "u8 \<Rightarrow> key_code" where
  "key_code_of c = (if c = 0x1C then KEY_ENTER else if c = 0x0E then KEY_BACKSPACE else if c = 0x01 then KEY_ESC
     else if c = 0x48 then KEY_UP else if c = 0x50 then KEY_DOWN else if c = 0x4B then KEY_LEFT
     else if c = 0x4D then KEY_RIGHT else KEY_OTHER)"

definition translate_sc_into_event :: "u8 \<Rightarrow> bool \<Rightarrow> key_event \<times> bool" where
  "translate_sc_into_event scancode shift = (let
     is_keyup = (scancode AND 0x80 \<noteq> 0);
     c = scancode AND 0x7F
   in if c = 0x2A \<or> c = 0x36 then (\<lparr>pressed = False, ascii = 0, kcode = KEY_NONE\<rparr>, \<not> is_keyup)
      else let ch = (if shift then scancode_ascii_shift else scancode_ascii) ! unat c in
        (\<lparr>pressed = \<not> is_keyup, ascii = (if \<not> is_keyup \<and> ch \<noteq> 0 then ch else 0), kcode = key_code_of c\<rparr>, shift))"

section \<open>Lemmas\<close>

text \<open>A dispatch gives the oldest 32 bytes to the handler, in order, and leaves the rest.\<close>

lemma dispatch_loop_fold:
  "fifo_inv q \<Longrightarrow> \<exists>q'. ps2_dispatch_loop n handler q s = (q', fold handler (take n (fifo_list q)) s)
     \<and> fifo_inv q' \<and> fifo_list q' = drop n (fifo_list q)"
proof (induction n arbitrary: q s)
  case (Suc n)
  show ?case
  proof (cases "fifo_list q")
    case Nil
    then have "fifo_is_empty q" using fifo_list_length [of q] by (simp add: fifo_is_empty_def unat_eq_zero)
    then show ?thesis using Nil Suc.prems by (simp add: fifo_dequeue_def)
  next
    case (Cons x xs)
    have g: "fst (fifo_get q) = Some x" "fifo_inv (snd (fifo_get q))" "fifo_list (snd (fifo_get q)) = xs"
      using kfifo.deq_cons [OF Suc.prems Cons] by simp_all
    moreover have "\<not> fifo_is_empty q" using Cons by (auto simp: fifo_is_empty_def fifo_list_def)
    ultimately have "fifo_dequeue (Some q) 0 = (True, x, Some (snd (fifo_get q)))" by (simp add: fifo_get_def fifo_dequeue_def)
    then show ?thesis using Suc.IH [OF g(2)] g(3) Cons by auto
  qed
qed simp

lemma and_bit_8: "k < 8 \<Longrightarrow> ((w :: u8) AND 2 ^ k \<noteq> 0) = bit w k"
  by (simp add: and_exp_eq_0_iff_not_bit)

lemma sign_bit_of:
  assumes "k + n = m" "n < 8" "m < 16"
  shows "push_bit k (ucast (f :: u8) :: u16) AND 2 ^ m = (if bit f n then 2 ^ m else 0)"
  using assms by (auto intro!: bit_word_eqI simp: bit_simps bit_exp_iff)

lemma sign_bits:
  "push_bit 3 (ucast (f :: u8) :: u16) AND SIGN_BIT_MASK = (if bit f 5 then 256 else 0)"
  "push_bit 4 (ucast (f :: u8) :: u16) AND SIGN_BIT_MASK = (if bit f 4 then 256 else 0)"
  using sign_bit_of [of 3 5 8 f] sign_bit_of [of 4 4 8 f] by (simp_all add: konst)

lemma overflow_bits:
  "f AND Y_AXIS_OVERFLOW_MASK \<noteq> 0 \<longleftrightarrow> bit f 6" "f AND X_AXIS_OVERFLOW_MASK \<noteq> 0 \<longleftrightarrow> bit f 7"
  using and_bit_8 [of 6 f] and_bit_8 [of 7 f] by (simp_all add: konst)

lemma top_bit_8: "bit (c :: u8) 7 \<longleftrightarrow> 128 \<le> unat c"
proof -
  have "unat c div 128 < 2" using unat_bound [of c] by simp
  then have "odd (unat c div 128) \<longleftrightarrow> unat c div 128 \<noteq> 0" by (auto simp: less_2_cases_iff)
  moreover have "bit c 7 = bit (unat c) 7" by (simp add: bit_simps)
  ultimately show ?thesis by (auto simp: bit_iff_odd [of "unat c"] div_eq_0_iff)
qed

text \<open>The scancodes for which the kernel's tables are read behind their end.\<close>

lemma kbd_translate_undefined: "kbd_translate c k = None \<longleftrightarrow> 59 \<le> unat c \<and> unat c < 128"
proof -
  have l: "length qwertz_lower = 59" "length qwertz_upper = 59" by (simp_all add: qwertz_lower_def qwertz_upper_def)
  have "c AND 0x80 \<noteq> 0 \<longleftrightarrow> 128 \<le> unat c" using and_bit_8 [of 7 c] by (simp add: top_bit_8)
  then show ?thesis by (auto simp: kbd_translate_def lookup_key_def l word_le_nat_alt)
qed

text \<open>A packet of three bytes in the mouse queue whose first byte has the alignment bit moves the pointer by the two 9-bit
  signed distances and leaves the decoder ready for the next packet; the packet is ignored only when both axes overflow. The
  signs are crossed: bit 5 of the first byte, the sign of y, is used for x and bit 4, the sign of x, for y.\<close>

theorem mouse_packet_decodes:
  assumes "fifo_inv q" "fifo_list q = [f, dx, dy]" "cycle m = 0" "f AND ALIGNED_PACKET_MASK \<noteq> 0"
  shows "\<exists>q'. ps2_dispatch mouse_handler q m = (q', m\<lparr>cycle := 0, mflags := f, x_movement := dx, y_movement := dy,
      mx := mx m + (if bit f 6 \<and> bit f 7 then 0 else ucast dx - (if bit f 5 then 256 else 0)),
      my := my m + (if bit f 6 \<and> bit f 7 then 0 else ucast dy - (if bit f 4 then 256 else 0))\<rparr>) \<and> fifo_list q' = []"
proof -
  have "fold mouse_handler [f, dx, dy] m = m\<lparr>cycle := 0, mflags := f, x_movement := dx, y_movement := dy,
      mx := mx m + (if bit f 6 \<and> bit f 7 then 0 else ucast dx - (if bit f 5 then 256 else 0)),
      my := my m + (if bit f 6 \<and> bit f 7 then 0 else ucast dy - (if bit f 4 then 256 else 0))\<rparr>"
    using assms(3,4) by (auto simp: mouse_handler_def match_mask_def update_coordinates_def sign_bits overflow_bits Let_def)
  then show ?thesis
    using dispatch_loop_fold [OF assms(1), of PS2_PACKAGE_DISPATCH mouse_handler m] assms(2)
    by (auto simp: ps2_dispatch_def konst)
qed

lemma mouse_example_queue:
  "fifo_inv (fold fifo_put [0x28, 5, 7] fifo_kbd0)" "fifo_list (fold fifo_put [0x28, 5, 7] fifo_kbd0) = [0x28, 5, 7]"
  using kfifo.fold_enq_inv [OF fifo_kbd0_empty(1), of "[0x28, 5, 7]"]
    kfifo.fold_enq_take [OF fifo_kbd0_empty(1), of "[0x28, 5, 7]"]
  by (simp_all add: fifo_kbd0_empty konst)

theorem mouse_packet_decodes_witness:
  "\<exists>q'. ps2_dispatch mouse_handler (fold fifo_put [0x28, 5, 7] fifo_kbd0) (mouse.make 100 100 0 0 0 0 0 0)
     = (q', mouse.make (100 - 251) 107 0 0 0 0x28 5 7) \<and> fifo_list q' = []"
  using mouse_packet_decodes [OF mouse_example_queue, of "mouse.make 100 100 0 0 0 0 0 0"]
  by (simp add: mouse.make_def konst)

end
