(* ===== verification/Readline.thy ===== *)
theory Readline
  imports History Input
begin

text \<open>
  Line editing in the shell, \<open>user/libc/readline.c\<close>. The list of scancodes is what the calls of \<open>read\<close> deliver one by one; at its
  end \<open>read\<close> fails. The calls of \<open>write\<close> are collected. Writing 256 bytes from the empty string literal that
  \<open>history_get_newer\<close> returns at the end of the history reads behind the literal and has no result.
\<close>

definition BUFFER_SIZE :: nat where [konst]: "BUFFER_SIZE = 256"

record line_state =
  lpos :: nat
  lbuf :: "u8 list"
  lhist :: history
  lshift :: bool
  lout :: "u8 list list"

definition emit :: "u8 list \<Rightarrow> line_state \<Rightarrow> line_state" where
  "emit bs st = st\<lparr>lout := lout st @ [bs]\<rparr>"

primrec flush_line :: "nat \<Rightarrow> line_state \<Rightarrow> line_state" where
  "flush_line 0 st = st"
| "flush_line (Suc n) st = flush_line n (emit [0x08, 0x20, 0x08] st)"

text \<open>\<open>strncpy(buffer, cmd, 255)\<close>.\<close>

definition copy_line :: "u8 list \<Rightarrow> u8 list \<Rightarrow> u8 list" where
  "copy_line cmd buf = (let copied = take (BUFFER_SIZE - 1) cmd in
     copied @ replicate (BUFFER_SIZE - 1 - length copied) 0 @ drop (BUFFER_SIZE - 1) buf)"

text \<open>A line of the history replaces the line on the screen; \<open>row\<close> is the array the line is in.\<close>

definition show_line :: "u8 list \<Rightarrow> u8 list \<Rightarrow> line_state \<Rightarrow> line_state" where
  "show_line cmd row st = (let st1 = flush_line (lpos st) st; buf = copy_line cmd (lbuf st1) in
     emit (take HISTORY_LINE_MAX row) (st1\<lparr>lbuf := buf, lpos := length (cstring buf)\<rparr>))"

text \<open>One turn of the loop: the next state, or the line and the state when the line is complete.\<close>

definition read_key :: "u8 \<Rightarrow> line_state \<Rightarrow> (line_state + u8 list \<times> line_state) option" where
  "read_key scancode st0 = (let (ev, sh) = translate_sc_into_event scancode (lshift st0); st = st0\<lparr>lshift := sh\<rparr> in
     if \<not> pressed ev then Some (Inl st)
     else (case kcode ev of
        KEY_ENTER \<Rightarrow> (let st1 = emit [0x0A] st; buf = (lbuf st1)[lpos st1 := 0] in do {
            h \<leftarrow> history_add (Some (lhist st1)) (Some (cstring buf));
            h' \<leftarrow> h;
            Some (Inr (cstring buf, st1\<lparr>lbuf := buf, lhist := h'\<rparr>)) })
      | KEY_BACKSPACE \<Rightarrow> Some (Inl (if lpos st > 0 then emit [0x08, 0x20, 0x08] (st\<lparr>lpos := lpos st - 1\<rparr>) else st))
      | KEY_UP \<Rightarrow> (let (cmd, h) = history_get_older (lhist st); st1 = st\<lparr>lhist := h\<rparr> in
          Some (Inl (case cmd of None \<Rightarrow> st1 | Some c \<Rightarrow> show_line c (hentries h ! nat (hcursor h)) st1)))
      | KEY_DOWN \<Rightarrow> (let (cmd, h) = history_get_newer (lhist st); st1 = st\<lparr>lhist := h\<rparr> in
          case cmd of None \<Rightarrow> Some (Inl st1)
          | Some c \<Rightarrow> if hcursor h = hhead h then None else Some (Inl (show_line c (hentries h ! nat (hcursor h)) st1)))
      | _ \<Rightarrow> Some (Inl (if ascii ev \<noteq> 0 \<and> lpos st < BUFFER_SIZE - 1
          then emit [ascii ev] (st\<lparr>lbuf := (lbuf st)[lpos st := ascii ev], lpos := lpos st + 1\<rparr>) else st))))"

text \<open>The line, if one was completed, the state and the scancodes that are left.\<close>

fun readline_loop :: "u8 list \<Rightarrow> line_state \<Rightarrow> (u8 list option \<times> line_state \<times> u8 list) option" where
  "readline_loop [] st = Some (None, st, [])"
| "readline_loop (c # cs) st = (case read_key c st of None \<Rightarrow> None
     | Some (Inl st') \<Rightarrow> readline_loop cs st'
     | Some (Inr (l, st')) \<Rightarrow> Some (Some l, st', cs))"

definition readline :: "u8 list option \<Rightarrow> u8 list \<Rightarrow> line_state \<Rightarrow> (u8 list option \<times> line_state \<times> u8 list) option" where
  "readline prompt inp st = (let st1 = (case prompt of None \<Rightarrow> st | Some p \<Rightarrow> emit p st) in
     readline_loop inp (st1\<lparr>lpos := 0, lbuf := replicate BUFFER_SIZE 0\<rparr>))"

section \<open>What is typed\<close>

text \<open>The line after some keys: characters are appended up to 255 of them, backspace takes the last one away.\<close>

fun typed :: "u8 list \<Rightarrow> bool \<Rightarrow> u8 list \<Rightarrow> u8 list" where
  "typed [] sh line = line"
| "typed (c # cs) sh line = (let (ev, sh') = translate_sc_into_event c sh in
     typed cs sh' (if \<not> pressed ev then line else if kcode ev = KEY_BACKSPACE then butlast line
       else if ascii ev \<noteq> 0 \<and> length line < 255 then line @ [ascii ev] else line))"

text \<open>A scancode other than the presses of enter and of the vertical arrows.\<close>

definition editing :: "u8 \<Rightarrow> bool" where
  "editing c \<longleftrightarrow> c AND 0x80 \<noteq> 0 \<or> key_code_of (c AND 0x7F) \<notin> {KEY_ENTER, KEY_UP, KEY_DOWN}"

definition line_ok :: "line_state \<Rightarrow> u8 list \<Rightarrow> bool" where
  "line_ok st line \<longleftrightarrow> length (lbuf st) = 256 \<and> lpos st = length line \<and> length line \<le> 255 \<and> take (length line) (lbuf st) = line
     \<and> 0 \<notin> set line \<and> history_ok (lhist st)"

lemma translate_event:
  "pressed (fst (translate_sc_into_event c sh)) \<Longrightarrow> c AND 0x80 = 0"
  "kcode (fst (translate_sc_into_event c sh)) = KEY_NONE \<or> kcode (fst (translate_sc_into_event c sh)) = key_code_of (c AND 0x7F)"
  by (simp_all add: translate_sc_into_event_def Let_def split: if_splits)

lemma read_key_edits:
  assumes "line_ok st line" "editing c" "translate_sc_into_event c (lshift st) = (ev, sh)"
  shows "\<exists>st'. read_key c st = Some (Inl st') \<and> lshift st' = sh \<and> lhist st' = lhist st
    \<and> line_ok st' (if \<not> pressed ev then line else if kcode ev = KEY_BACKSPACE then butlast line
       else if ascii ev \<noteq> 0 \<and> length line < 255 then line @ [ascii ev] else line)"
proof (cases "pressed ev")
  case False
  then show ?thesis using assms by (simp add: read_key_def line_ok_def)
next
  case True
  have a: "c AND 0x80 = 0" "kcode ev = KEY_NONE \<or> kcode ev = key_code_of (c AND 0x7F)"
    using translate_event [of c "lshift st"] True unfolding assms(3) fst_conv by blast+
  have "key_code_of (c AND 0x7F) \<notin> {KEY_ENTER, KEY_UP, KEY_DOWN}" using assms(2) unfolding editing_def a(1) by blast
  then have k: "kcode ev \<noteq> KEY_ENTER" "kcode ev \<noteq> KEY_UP" "kcode ev \<noteq> KEY_DOWN"
    using a(2) by (metis insertCI key_code.distinct)+
  consider "kcode ev = KEY_BACKSPACE" | "kcode ev \<noteq> KEY_BACKSPACE" "ascii ev \<noteq> 0" "length line < 255"
    | "kcode ev \<noteq> KEY_BACKSPACE" "\<not> (ascii ev \<noteq> 0 \<and> length line < 255)" by blast
  then show ?thesis
  proof cases
    case 1
    have "line_ok (emit [8, 32, 8] (st\<lparr>lshift := sh, lpos := lpos st - 1\<rparr>)) (butlast line)" if ne: "line \<noteq> []"
    proof -
      obtain l x where l: "line = l @ [x]" using ne by (cases line rule: rev_cases) auto
      have "take (length l) (lbuf st) = take (length l) (take (length line) (lbuf st))" by (simp add: l)
      also have "\<dots> = l" using assms(1) by (simp add: line_ok_def l)
      finally show ?thesis using assms(1) by (simp add: line_ok_def emit_def l)
    qed
    then show ?thesis using 1 True assms(1,3) by (cases "line = []") (auto simp: read_key_def line_ok_def emit_def)
  next
    case 2
    then have "read_key c st = Some (Inl (emit [ascii ev] (st\<lparr>lshift := sh, lbuf := (lbuf st)[lpos st := ascii ev], lpos := lpos st + 1\<rparr>)))"
      using True assms(1,3) k by (cases "kcode ev") (auto simp add: read_key_def line_ok_def konst Let_def)
    then show ?thesis using 2 True assms(1) by (auto simp: line_ok_def emit_def take_Suc_conv_app_nth)
  next
    case 3
    then have "read_key c st = Some (Inl (st\<lparr>lshift := sh\<rparr>))"
      using True assms(1,3) k by (cases "kcode ev") (auto simp add: read_key_def line_ok_def konst Let_def)
    then show ?thesis using 3 True assms(1) by (auto simp: line_ok_def)
  qed
qed

lemma enter_event: "translate_sc_into_event 0x1C sh = (\<lparr>pressed = True, ascii = (if sh then 10 else 10), kcode = KEY_ENTER\<rparr>, sh)"
  by (simp add: translate_sc_into_event_def Let_def key_code_of_def scancode_ascii_def scancode_ascii_shift_def nth_append)

lemma read_key_enter:
  assumes "line_ok st line"
  shows "\<exists>st'. read_key 0x1C st = Some (Inr (line, st')) \<and> history_ok (lhist st') \<and> lines (lhist st') = remember line (lines (lhist st))"
proof -
  have "(lbuf st)[length line := 0] = take (length line) (lbuf st) @ 0 # drop (Suc (length line)) (lbuf st)"
    using assms by (simp add: line_ok_def upd_conv_take_nth_drop)
  then have c: "cstring ((lbuf st)[lpos st := 0]) = line"
    using assms unfolding cstring_def line_ok_def by (simp, subst takeWhile_append2) auto
  obtain h' where "history_add (Some (lhist st)) (Some line) = Some (Some h')" "history_ok h'"
      "lines h' = remember line (lines (lhist st))"
    using history_add_lines [of "lhist st" line] assms by (auto simp: line_ok_def)
  then show ?thesis using c by (simp add: read_key_def enter_event emit_def Let_def)
qed

lemma readline_loop_edits:
  assumes "line_ok st line" "list_all editing cs"
  shows "\<exists>st'. readline_loop (cs @ 0x1C # rest) st = Some (Some (typed cs (lshift st) line), st', rest)
    \<and> history_ok (lhist st') \<and> lines (lhist st') = remember (typed cs (lshift st) line) (lines (lhist st))"
  using assms
proof (induction cs arbitrary: st line)
  case Nil
  then show ?case using read_key_enter [of st line] by auto
next
  case (Cons c cs)
  obtain ev sh where e: "translate_sc_into_event c (lshift st) = (ev, sh)" by fastforce
  obtain st' where st': "read_key c st = Some (Inl st')" "lshift st' = sh" "lhist st' = lhist st"
      "line_ok st' (if \<not> pressed ev then line else if kcode ev = KEY_BACKSPACE then butlast line
       else if ascii ev \<noteq> 0 \<and> length line < 255 then line @ [ascii ev] else line)"
    using read_key_edits [OF Cons.prems(1) _ e] Cons.prems(2) by auto
  show ?case using Cons.IH [OF st'(4)] Cons.prems(2) st'(1-3) by (simp add: e)
qed

section \<open>Properties\<close>

text \<open>C29: line editing. From an empty line, the scancodes of any keys but the vertical arrows, followed by enter, make \<open>readline\<close>
  return exactly what was typed: the printable characters in order, at most 255 of them, each backspace taking back the last one
  that is left, releases and shift keys adding nothing. The line is remembered in the history.\<close>

theorem readline_returns_typed:
  assumes "history_ok (lhist st)" "list_all editing cs"
  shows "\<exists>st'. readline prompt (cs @ 0x1C # rest) st = Some (Some (typed cs (lshift st) []), st', rest)
    \<and> history_ok (lhist st') \<and> lines (lhist st') = remember (typed cs (lshift st) []) (lines (lhist st))"
proof -
  let ?st = "(case prompt of None \<Rightarrow> st | Some p \<Rightarrow> emit p st)\<lparr>lpos := 0, lbuf := replicate BUFFER_SIZE 0\<rparr>"
  have "line_ok ?st []" "lshift ?st = lshift st" "lhist ?st = lhist st"
    using assms(1) by (auto simp: line_ok_def emit_def BUFFER_SIZE_def split: option.split)
  then show ?thesis using readline_loop_edits [of ?st "[]" cs rest] assms(2) by (simp add: readline_def Let_def)
qed

text \<open>The keys l, x, backspace, s and enter on a fresh shell.\<close>

definition shell0 :: line_state where
  "shell0 = \<lparr>lpos = 0, lbuf = [], lhist = icarsh_history, lshift = False, lout = []\<rparr>"

lemma typed_example: "typed [0x26, 0xA6, 0x2D, 0xAD, 0x0E, 0x8E, 0x1F, 0x9F] False [] = [0x6C, 0x73]"
  by (simp add: translate_sc_into_event_def Let_def key_code_of_def scancode_ascii_def nth_append)

theorem readline_returns_typed_witness:
  "\<exists>st'. readline None [0x26, 0xA6, 0x2D, 0xAD, 0x0E, 0x8E, 0x1F, 0x9F, 0x1C] shell0 = Some (Some [0x6C, 0x73], st', [])
     \<and> lines (lhist st') = [[0x6C, 0x73]]"
proof -
  have e: "list_all editing [0x26, 0xA6, 0x2D, 0xAD, 0x0E, 0x8E, 0x1F, 0x9F]"
    by (simp add: editing_def key_code_of_def)
  have s: "history_ok (lhist shell0)" "lshift shell0 = False" "lines (lhist shell0) = []"
    by (simp_all add: shell0_def icarsh_history_ok)
  show ?thesis using readline_returns_typed [OF s(1) e, of None "[]"] by (simp only: s typed_example) (auto simp: remember_def)
qed

end
