(* ===== verification/Shell.thy ===== *)
theory Shell
  imports Ustdio Readline
begin

text \<open>
  The shell, \<open>user/icarsh/builtin.c\<close> and \<open>icarsh.c\<close>, and \<open>heap_dump\<close> of the user's allocator. Its state is the user's heap with
  \<open>errno\<close>, the kernel behind the system calls, the static pointer of \<open>strtok\<close> and the history. The argument of a builtin is a
  pointer into the buffer of the line, or \<open>None\<close> for the empty string literal.
\<close>

unbundle bit_operations_syntax

record 'k shell =
  sh_heap :: uheap
  sh_kern :: 'k
  sh_tok :: u32
  sh_hist :: history

text \<open>What a builtin ends with: it returns, the process ends, or it writes to a page of the kernel.\<close>

datatype 'k outcome = Continue "'k shell" | Exited 'k | Faulted "'k shell"

section \<open>Output\<close>

definition sh_printf :: "'k calls \<Rightarrow> u8 list \<Rightarrow> uarg list \<Rightarrow> 'k shell \<Rightarrow> 'k shell option" where
  "sh_printf c fmt args st = map_option (\<lambda>(_, k). st\<lparr>sh_kern := k\<rparr>) (printf c fmt args (sh_kern st))"

definition sh_write :: "'k calls \<Rightarrow> u8 list \<Rightarrow> 'k shell \<Rightarrow> 'k shell" where
  "sh_write c bs st = st\<lparr>sh_kern := snd (c_write c STDOUT_FILENO bs (sh_kern st))\<rparr>"

text \<open>The string a pointer stands for.\<close>

definition arg_string :: "uheap \<Rightarrow> u32 option \<Rightarrow> u8 list option" where
  "arg_string h args = (case args of None \<Rightarrow> Some []
     | Some p \<Rightarrow> do { n \<leftarrow> ustrlen (umem h) p; Some (peek_bytes p n (umem h)) })"

text \<open>The dash of the messages is three bytes of UTF-8.\<close>

definition whoa :: "string \<Rightarrow> u8 list" where
  "whoa s = chars ''[!] WHOA '' @ [0xE2, 0x80, 0x94] @ chars s"

section \<open>\<open>heap_dump\<close>\<close>

definition heap_line :: "string \<Rightarrow> u32 \<Rightarrow> u32 \<Rightarrow> u32 \<Rightarrow> u32 \<Rightarrow> u8 list \<times> uarg list" where
  "heap_line status b sz prv nxt = (chars ''0x%08x | %4d | %4s | 0x%08x | 0x%08x\<newline>'',
     [UNum b, UNum (sz + sizeof_block), UStr (Some (chars status)), UNum prv, UNum nxt])"

partial_function (option) dump_blocks :: "uheap \<Rightarrow> u32 \<Rightarrow> u32 \<times> u32 \<Rightarrow> (((u8 list \<times> uarg list) list) \<times> u32 \<times> u32) option" where
  "dump_blocks h blk n = (if blk = 0 then Some ([], n) else do {
     let line = heap_line (if fld h (b_free blk) \<noteq> 0 then ''FREE'' else ''USED'') blk (fld h (b_size blk)) (fld h (b_prev blk)) (fld h (b_next blk));
     (ls, n') \<leftarrow> dump_blocks h (fld h (b_next blk)) (fst n + 1, snd n + (fld h (b_size blk) + sizeof_block));
     Some (line # ls, n') })"

text \<open>The second loop reads the state of \<open>block\<close>, which is null after the first one. The text of the percentage, which is
  computed with floating point numbers, is an argument.\<close>

definition uheap_dump :: "'k calls \<Rightarrow> (uheap \<Rightarrow> u8 list) \<Rightarrow> 'k shell \<Rightarrow> 'k shell option" where
  "uheap_dump c percent st = (let h = sh_heap st in do {
     (ls, i, total_bytes) \<leftarrow> dump_blocks h (heap_head h) (0, 0);
     if free_list h \<noteq> 0 then None
     else do {
       k \<leftarrow> printfs c ([(chars ''\<newline>+--[ HEAP LIST ]-----------------------------------------------\<newline>'', [])] @ ls
         @ [(chars ''\<newline>+--[ FREE LIST ]-----------------------------------------------\<newline>'', []),
            (chars ''\<newline>+--[ HEAP SUMMARY ]--------------------------------------------\<newline>'', []),
            (chars '' Total Blocks       : %d\<newline>'', [UNum i]),
            (chars '' Total Bytes        : %d\<newline>'', [UNum total_bytes]),
            (chars '' Heap Capacity Used : %d / %d Bytes (%f %%)\<newline>'',
              [UNum (heap_curr h - UHEAP_START), UNum (UHEAP_END - UHEAP_START), UDouble (percent h)]),
            (chars ''+--------------------------------------------------------------\<newline>'', [])]) (sh_kern st);
       Some (st\<lparr>sh_kern := k\<rparr>) } })"

section \<open>Builtins\<close>

partial_function (option) uatoi_loop :: "umem \<Rightarrow> u32 \<Rightarrow> nat \<Rightarrow> nat option" where
  "uatoi_loop m str res = (if 0x30 \<le> m str \<and> m str \<le> 0x39
     then (if res * 10 + (unat (m str) - 0x30) < 2 ^ 31 then uatoi_loop m (str + 1) (res * 10 + (unat (m str) - 0x30)) else None)
     else Some res)"

definition uatoi :: "umem \<Rightarrow> u32 \<Rightarrow> nat option" where
  "uatoi m str = uatoi_loop m str 0"

definition exit_builtin :: "'k calls \<Rightarrow> u32 option \<Rightarrow> 'k shell \<Rightarrow> 'k outcome option" where
  "exit_builtin c args st = do {
     status \<leftarrow> (case args of None \<Rightarrow> Some 0 | Some p \<Rightarrow> do {
       n \<leftarrow> ustrlen (umem (sh_heap st)) p;
       if n > 0 then uatoi (umem (sh_heap st)) p else Some 0 });
     Some (Exited (c_exit c (int status) (sh_kern st))) }"

text \<open>The lines of \<open>history_dump\<close>.\<close>

definition history_lines :: "history \<Rightarrow> (u8 list \<times> uarg list) list" where
  "history_lines h = (if hcount h = 0 then [(chars ''History is empty.\<newline>'', [])]
     else [(chars ''----[ History Dump ]----\<newline>'', []),
           (chars ''Head: %d, Count: %d, Cursor: %d\<newline>'', [UNum (of_int (hhead h)), UNum (of_int (hcount h)), UNum (of_int (hcursor h))])]
       @ map (\<lambda>(i, l). (chars ''[%d]%s%s\<newline>'', [UNum (of_int i), UStr (Some (chars ''   '')), UStr (Some l)])) (history_dump h)
       @ [(chars ''------------------------\<newline>'', [])])"

definition history_builtin :: "'k calls \<Rightarrow> 'k shell \<Rightarrow> 'k shell option" where
  "history_builtin c st = map_option (\<lambda>k. st\<lparr>sh_kern := k\<rparr>) (printfs c (history_lines (sh_hist st)) (sh_kern st))"

text \<open>The copy of the arguments that \<open>echo\<close> takes apart: its terminator lies behind the \<open>len\<close> bytes that were allocated.\<close>

definition echo_buffer :: "u32 \<Rightarrow> nat \<Rightarrow> uheap \<Rightarrow> (u32 \<times> uheap) option" where
  "echo_buffer args len h = do {
     (buf, h1) \<leftarrow> malloc (of_nat len) h;
     if buf = 0 then Some (0, h1\<lparr>uerrno := ENOMEM\<rparr>)
     else Some (buf, h1\<lparr>umem := (ustrncpy buf args len (umemset buf 0 len (umem h1)))(buf + of_nat len := 0)\<rparr>) }"

definition sh_strtok :: "u32 \<Rightarrow> u8 list \<Rightarrow> 'k shell \<Rightarrow> (u32 \<times> 'k shell) option" where
  "sh_strtok str delim st = do {
     (token, ptr, m) \<leftarrow> strtok str delim (sh_tok st, umem (sh_heap st));
     Some (token, st\<lparr>sh_tok := ptr, sh_heap := (sh_heap st)\<lparr>umem := m\<rparr>\<rparr>) }"

partial_function (option) echo_loop :: "'k calls \<Rightarrow> u32 \<Rightarrow> 'k shell \<Rightarrow> 'k shell option" where
  "echo_loop c token st = (if token = 0 then Some st else do {
     s \<leftarrow> arg_string (sh_heap st) (Some token);
     st1 \<leftarrow> sh_printf c (chars ''%s'') [UStr (Some s)] st;
     (token', st2) \<leftarrow> sh_strtok 0 [0x20] st1;
     st3 \<leftarrow> (if token' \<noteq> 0 then sh_printf c (chars '' '') [] st2 else Some st2);
     echo_loop c token' st3 })"

definition echo_builtin :: "'k calls \<Rightarrow> u32 option \<Rightarrow> 'k shell \<Rightarrow> 'k shell option" where
  "echo_builtin c args st = do {
     len \<leftarrow> (case args of None \<Rightarrow> Some 0 | Some p \<Rightarrow> ustrlen (umem (sh_heap st)) p);
     if len = 0 then Some (sh_write c [0x0A] (st\<lparr>sh_heap := (sh_heap st)\<lparr>uerrno := EINVAL\<rparr>\<rparr>))
     else do {
       (buf, h1) \<leftarrow> echo_buffer (the args) len (sh_heap st);
       if buf = 0 then Some (st\<lparr>sh_heap := h1\<rparr>)
       else do {
         (token, st1) \<leftarrow> sh_strtok buf [0x20] (st\<lparr>sh_heap := h1\<rparr>);
         st2 \<leftarrow> echo_loop c token st1;
         st3 \<leftarrow> sh_printf c (chars ''\<newline>'') [] st2;
         Some (st3\<lparr>sh_heap := free buf (sh_heap st3)\<rparr>) } } }"

definition help_lines :: "u8 list list" where
  "help_lines = [chars ''----[ Help ]----\<newline>'',
     chars ''  `exit`          '' @ [0xE2, 0x80, 0x93] @ chars '' TODO\<newline>'',
     chars ''  `ls`            '' @ [0xE2, 0x80, 0x93] @ chars '' LISTS FILES. YOU GOTTA PASS THE FULL ROOT PATH LIKE\<newline>'',
     chars ''  `echo`          '' @ [0xE2, 0x80, 0x93] @ chars '' SAY SOMETHING\<newline>'',
     chars ''  `cat`           '' @ [0xE2, 0x80, 0x93] @ chars '' PRINTS CONTENTS OF A FILE\<newline>'',
     chars ''  `help`          '' @ [0xE2, 0x80, 0x93] @ chars '' SHOWS THIS LIST AGAIN\<newline>'',
     chars ''  `history`       '' @ [0xE2, 0x80, 0x93] @ chars '' DUMP YOUR LAST COMMANDS\<newline>'',
     chars ''  `heapstat`      '' @ [0xE2, 0x80, 0x93] @ chars '' DUMP DYNAMIC MEMORY USAGE\<newline>'']"

definition help_builtin :: "'k calls \<Rightarrow> 'k shell \<Rightarrow> 'k shell option" where
  "help_builtin c st = map_option (\<lambda>k. st\<lparr>sh_kern := k\<rparr>) (printfs c (map (\<lambda>l. (l, [])) help_lines) (sh_kern st))"

text \<open>\<open>printf("%s\n", strerror(errno))\<close>.\<close>

definition print_error :: "'k calls \<Rightarrow> 'k shell \<Rightarrow> 'k shell option" where
  "print_error c st = sh_printf c (chars ''%s\<newline>'') [UStr (Some (chars (strerror (uerrno (sh_heap st)))))] st"

partial_function (option) cat_loop :: "'k calls \<Rightarrow> u32 \<Rightarrow> u32 \<Rightarrow> 'k shell \<Rightarrow> 'k shell option" where
  "cat_loop c buf f st = do {
     (n_read, h, k) \<leftarrow> fread c buf 1 8192 f (sh_heap st, sh_kern st);
     let st1 = st\<lparr>sh_heap := h, sh_kern := k\<rparr>;
     if n_read > 0 then cat_loop c buf f (sh_write c (peek_bytes buf (unat n_read) (umem h)) st1) else Some st1 }"

definition cat_builtin :: "'k calls \<Rightarrow> u32 option \<Rightarrow> 'k shell \<Rightarrow> 'k shell option" where
  "cat_builtin c path st = do {
     p \<leftarrow> arg_string (sh_heap st) path;
     (f, h, k) \<leftarrow> fopen c p (chars ''r'') (sh_heap st, sh_kern st);
     let st1 = st\<lparr>sh_heap := h, sh_kern := k\<rparr>;
     if f = 0 then print_error c (st1\<lparr>sh_heap := (sh_heap st1)\<lparr>uerrno := EINVAL\<rparr>\<rparr>)
     else do {
       (buf, h1) \<leftarrow> malloc 8192 (sh_heap st1);
       if buf = 0 then sh_printf c (whoa '' OOM\<newline>'') [] (st1\<lparr>sh_heap := h1\<lparr>uerrno := ENOMEM\<rparr>\<rparr>)
       else do {
         st2 \<leftarrow> cat_loop c buf f (st1\<lparr>sh_heap := h1\<rparr>);
         let (res, h2, k2) = fclose c f (free buf (sh_heap st2), sh_kern st2);
         sh_printf c (chars ''\<newline>'') [] (st2\<lparr>sh_heap := h2, sh_kern := k2\<rparr>) } } }"

partial_function (option) ls_loop :: "'k calls \<Rightarrow> u32 \<Rightarrow> 'k shell \<Rightarrow> 'k shell option" where
  "ls_loop c dir st = (let
     (entry, h, k) = readdir c dir (sh_heap st, sh_kern st);
     st1 = st\<lparr>sh_heap := h, sh_kern := k\<rparr>;
     d_name = entry + 11; d_type = umem h (entry + 10)
   in if entry = 0 then Some st1
      else if ustrcmp (umem h) d_name (chars ''.'') = 0 \<or> ustrcmp (umem h) d_name (chars ''..'') = 0 then ls_loop c dir st1
      else do {
        t \<leftarrow> arg_string h (Some d_name);
        st2 \<leftarrow> sh_printf c (chars (if d_type = 2 then ''/%s\<newline>'' else ''%s\<newline>'')) [UStr (Some t)] st1;
        ls_loop c dir st2 })"

definition ls_builtin :: "'k calls \<Rightarrow> u32 option \<Rightarrow> 'k shell \<Rightarrow> 'k shell option" where
  "ls_builtin c path st = do {
     p \<leftarrow> arg_string (sh_heap st) path;
     (dir, h, k) \<leftarrow> opendir c p (sh_heap st, sh_kern st);
     let st1 = st\<lparr>sh_heap := h, sh_kern := k\<rparr>;
     if dir = 0 then print_error c st1
     else do {
       st2 \<leftarrow> ls_loop c dir st1;
       let (res, h2, k2) = closedir c dir (sh_heap st2, sh_kern st2);
       let st3 = st2\<lparr>sh_heap := h2, sh_kern := k2\<rparr>;
       if res = -1 then print_error c st3 else Some st3 } }"

definition unknown_builtin :: "'k calls \<Rightarrow> 'k shell \<Rightarrow> 'k shell option" where
  "unknown_builtin c st = sh_printf c (whoa '' UNKNOWN\<newline>'') [] st"

section \<open>Dispatch\<close>

datatype builtin = Exit_builtin | Help_builtin | Echo_builtin | Ls_builtin | History_builtin | Cat_builtin
  | Heapstat_builtin | Pf_builtin | Unknown_builtin

definition builtins :: "(string \<times> builtin) list" where
  "builtins = [(''exit'', Exit_builtin), (''help'', Help_builtin), (''echo'', Echo_builtin), (''ls'', Ls_builtin), (''history'', History_builtin),
     (''cat'', Cat_builtin), (''heapstat'', Heapstat_builtin), (''pf'', Pf_builtin)]"

fun find_in :: "(string \<times> builtin) list \<Rightarrow> umem \<Rightarrow> u32 \<Rightarrow> builtin" where
  "find_in [] m cmd = Unknown_builtin"
| "find_in ((name, b) # bs) m cmd = (if ustrcmp m cmd (chars name) = 0 then b else find_in bs m cmd)"

definition find_builtin :: "umem \<Rightarrow> u32 \<Rightarrow> builtin" where
  "find_builtin m cmd = find_in builtins m cmd"

text \<open>\<open>pf\<close> writes to a page of the kernel.\<close>

fun run_builtin :: "'k calls \<Rightarrow> (uheap \<Rightarrow> u8 list) \<Rightarrow> builtin \<Rightarrow> u32 option \<Rightarrow> 'k shell \<Rightarrow> 'k outcome option" where
  "run_builtin c pc Exit_builtin args st = exit_builtin c args st"
| "run_builtin c pc Help_builtin args st = map_option Continue (help_builtin c st)"
| "run_builtin c pc Echo_builtin args st = map_option Continue (echo_builtin c args st)"
| "run_builtin c pc Ls_builtin args st = map_option Continue (ls_builtin c args st)"
| "run_builtin c pc History_builtin args st = map_option Continue (history_builtin c st)"
| "run_builtin c pc Cat_builtin args st = map_option Continue (cat_builtin c args st)"
| "run_builtin c pc Heapstat_builtin args st = map_option Continue (uheap_dump c pc st)"
| "run_builtin c pc Pf_builtin args st = Some (Faulted st)"
| "run_builtin c pc Unknown_builtin args st = map_option Continue (unknown_builtin c st)"

definition ICARSH_INPUT_LIMIT :: nat where [konst]: "ICARSH_INPUT_LIMIT = 4096"

text \<open>The buffer of the line with its first word cut off.\<close>

definition split_line :: "u8 list \<Rightarrow> u32 \<Rightarrow> 'k shell \<Rightarrow> (u32 \<times> u32 \<times> 'k shell) option" where
  "split_line input buf st = do {
     let len = length input;
     let h = sh_heap st;
     let st1 = st\<lparr>sh_heap := h\<lparr>umem := (ustrncpy_from buf input len (umem h))(buf + of_nat len := 0)\<rparr>\<rparr>;
     (cmd, st2) \<leftarrow> sh_strtok buf [0x20] st1;
     (args, st3) \<leftarrow> sh_strtok 0 [] st2;
     Some (cmd, args, st3) }"

definition release_line :: "u32 \<Rightarrow> 'k outcome \<Rightarrow> 'k outcome" where
  "release_line buf r = (case r of Continue st \<Rightarrow> Continue (st\<lparr>sh_heap := free buf (sh_heap st)\<rparr>) | _ \<Rightarrow> r)"

definition execute_builtin :: "'k calls \<Rightarrow> (uheap \<Rightarrow> u8 list) \<Rightarrow> u8 list \<Rightarrow> 'k shell \<Rightarrow> 'k outcome option" where
  "execute_builtin c pc input st =
     (if length input \<ge> ICARSH_INPUT_LIMIT
      then map_option Continue (sh_printf c (whoa '' INPUT TOO LONG. KEEP IT SHORT & SHARP\<newline>'') [] st)
      else do {
        (buf, h) \<leftarrow> malloc (of_nat (length input + 1)) (sh_heap st);
        let st0 = st\<lparr>sh_heap := h\<rparr>;
        if buf = 0 then map_option Continue (sh_printf c (whoa '' OOM\<newline>'') [] st0)
        else do {
          (cmd, args, st1) \<leftarrow> split_line input buf st0;
          let arg = (if args = 0 then None else Some args);
          r \<leftarrow> (if cmd = 0 then map_option Continue (unknown_builtin c st1)
            else run_builtin c pc (find_builtin (umem (sh_heap st1)) cmd) arg st1);
          Some (release_line buf r) } })"

section \<open>\<open>icarsh.c\<close>\<close>

definition PROMPT :: "u8 list" where
  "PROMPT = chars ''[icarSH]:~# ''"

text \<open>One turn of \<open>main\<close> on the scancodes that the reads deliver: the line is read, what the editing wrote goes to the kernel, and the
  line is executed. Without a complete line \<open>readline\<close> returns a null pointer, which is measured.\<close>

definition shell_turn :: "'k calls \<Rightarrow> (uheap \<Rightarrow> u8 list) \<Rightarrow> u8 list \<Rightarrow> line_state \<Rightarrow> 'k shell \<Rightarrow> ('k outcome \<times> line_state \<times> u8 list) option" where
  "shell_turn c pc inp ls st = do {
     (line, ls1, inp') \<leftarrow> readline (Some PROMPT) inp (ls\<lparr>lhist := sh_hist st, lout := []\<rparr>);
     let st1 = fold (sh_write c) (lout ls1) (st\<lparr>sh_hist := lhist ls1\<rparr>);
     l \<leftarrow> line;
     r \<leftarrow> execute_builtin c pc l st1;
     Some (r, ls1, inp') }"

partial_function (option) icarsh_main :: "'k calls \<Rightarrow> (uheap \<Rightarrow> u8 list) \<Rightarrow> u8 list \<Rightarrow> line_state \<Rightarrow> 'k shell \<Rightarrow> 'k outcome option" where
  "icarsh_main c pc inp ls st = do {
     (r, ls1, inp') \<leftarrow> shell_turn c pc inp ls st;
     case r of Continue st1 \<Rightarrow> icarsh_main c pc inp' ls1 st1 | _ \<Rightarrow> Some r }"

section \<open>Printing\<close>

lemma sh_printf_text:
  assumes "format_text fmt args = Some t" "t \<noteq> []"
  shows "sh_printf c fmt args st = Some (sh_write c (take 1023 t) st)"
proof -
  have "vsnprintf 1024 fmt args = Some (take 1023 t)" using loop_renders [OF assms(1), of "[]" 1023] by (simp add: vsnprintf_def put_bounded_take)
  then show ?thesis using assms(2) by (simp add: sh_printf_def printf_def sh_write_def)
qed

lemma format_literal: "0x25 \<notin> set fmt \<Longrightarrow> format_text fmt args = Some fmt"
  by (induction fmt) (auto simp: format_text_def split: bind_splits)

lemma format_s: "format_text (chars ''%s'') [UStr (Some t)] = Some t"
  by (simp add: chars_def format_text_def parse_spec_def aligned_def)

lemma peek_bytes_at: "lies_at m p cs \<Longrightarrow> peek_bytes p (length cs) m = cs"
  by (auto simp: lies_at_def peek_bytes_def intro: nth_equalityI)

lemma peek_ustr: "ustr m p cs \<Longrightarrow> peek_bytes p (length cs) m = cs"
  by (simp add: ustr_bytes lies_at_append peek_bytes_at)

lemma arg_string_ustr: "ustr (umem h) p cs \<Longrightarrow> arg_string h (Some p) = Some cs"
  by (simp add: arg_string_def peek_ustr)

definition say :: "'k calls \<Rightarrow> u8 list \<Rightarrow> 'k \<Rightarrow> 'k" where
  "say c bs k = snd (c_write c STDOUT_FILENO bs k)"

lemma sh_write_fields [simp]: "sh_kern (sh_write c bs st) = say c bs (sh_kern st)" "sh_heap (sh_write c bs st) = sh_heap st"
  "sh_tok (sh_write c bs st) = sh_tok st" "sh_hist (sh_write c bs st) = sh_hist st"
  by (simp_all add: sh_write_def say_def)

section \<open>\<open>echo\<close>\<close>

text \<open>What \<open>echo\<close> writes: the words, each cut to what fits into the buffer of \<open>printf\<close>, with single blanks between them.\<close>

fun words_out :: "u8 list list \<Rightarrow> u8 list list" where
  "words_out [] = []"
| "words_out [w] = [take 1023 w]"
| "words_out (w # ws) = take 1023 w # [0x20] # words_out ws"

lemma offset_nonzero: "p \<noteq> 0 \<Longrightarrow> unat p + k < 2 ^ 32 \<Longrightarrow> p + of_nat k \<noteq> (0 :: u32) \<and> unat (p + of_nat k) = unat p + k"
proof -
  assume p: "p \<noteq> 0" "unat p + k < 2 ^ 32"
  have "p + of_nat k = of_nat (unat p + k)" by simp
  then have "unat (p + of_nat k) = unat p + k" using p(2) by (simp only: unat_of_nat_small)
  moreover have "unat p \<noteq> 0" using p(1) by (simp add: unsigned_eq_0_iff)
  ultimately show "p + of_nat k \<noteq> (0 :: u32) \<and> unat (p + of_nat k) = unat p + k" by (metis add_is_0 unsigned_0)
qed

text \<open>The next call of \<open>strtok\<close> on a string in the heap.\<close>

lemma sh_strtok_next:
  assumes "ustr (umem (sh_heap st)) s cs" "s \<noteq> 0" "unat s + length cs < 2 ^ 32" "str = s \<or> str = 0 \<and> sh_tok st = s"
  obtains (none) st' where "tokens delim cs = []" "sh_strtok str delim st = Some (0, st')" "sh_kern st' = sh_kern st" "sh_hist st' = sh_hist st"
      "umem (sh_heap st') = umem (sh_heap st)"
  | (token) st' t tok rest where "tokens delim cs = tok # tokens delim rest" "sh_strtok str delim st = Some (t, st')" "t \<noteq> 0" "tok \<noteq> []"
      "ustr (umem (sh_heap st')) t tok" "ustr (umem (sh_heap st')) (sh_tok st') rest" "sh_tok st' \<noteq> 0"
      "unat (sh_tok st') + length rest < 2 ^ 32" "length rest < length cs" "sh_kern st' = sh_kern st" "sh_hist st' = sh_hist st"
proof (cases rule: token_cases [of cs delim])
  case 1
  have d: "dropWhile (\<lambda>c. c \<in> set delim) cs = []" using 1(1) by (auto simp: dropWhile_eq_Nil_conv)
  obtain q where "strtok str delim (sh_tok st, umem (sh_heap st)) = Some (0, q, umem (sh_heap st))"
    using strtok_none [OF assms(1) d assms(2,4)] by blast
  then have "sh_strtok str delim st = Some (0, st\<lparr>sh_tok := q, sh_heap := (sh_heap st)\<lparr>umem := umem (sh_heap st)\<rparr>\<rparr>)"
    by (simp only: sh_strtok_def) simp
  from none [OF 1(2) this] show ?thesis by simp
next
  case (2 pre tok rest)
  let ?t = "s + of_nat (length pre)"
  let ?q = "?t + of_nat (length tok)"
  have n: "unat s + (length pre + length tok + length rest) < 2 ^ 32" using assms(3) by (simp add: 2(1))
  note sp = 2(2) [unfolded token_split_def]
  have l: "length (pre @ tok @ rest) < 2 ^ 32" using n by simp
  note k = strtok_some [OF assms(1) [unfolded 2(1)] l assms(2,4) conjunct1 [OF sp] conjunct1 [OF conjunct2 [OF sp]]
    conjunct1 [OF conjunct2 [OF conjunct2 [OF sp]]] conjunct2 [OF conjunct2 [OF conjunct2 [OF sp]]]]
  have t: "?t \<noteq> 0" "unat ?t = unat s + length pre" using offset_nonzero [OF assms(2), of "length pre"] n by simp_all
  then have q: "?q \<noteq> 0" "unat ?q = unat ?t + length tok" using offset_nonzero [OF t(1), of "length tok"] n by simp_all
  let ?m = "if rest = [] then umem (sh_heap st) else (umem (sh_heap st))(?q := 0)"
  let ?p = "if rest = [] then ?q else ?q + 1"
  have p: "?p \<noteq> 0 \<and> unat ?p + length (drop 1 rest) < 2 ^ 32"
  proof (cases rest)
    case (Cons r rs)
    then have "unat ?q + 1 < 2 ^ 32" using q t n by simp
    from offset_nonzero [OF q(1), of 1] this Cons q t n show ?thesis by simp
  qed (use q t n in simp)
  show ?thesis
  proof (rule token)
    show "tokens delim cs = tok # tokens delim (drop 1 rest)" using tokens_split [OF 2(2)] 2(1) by simp
    show "sh_strtok str delim st = Some (?t, st\<lparr>sh_tok := ?p, sh_heap := (sh_heap st)\<lparr>umem := ?m\<rparr>\<rparr>)" using k(1) by (simp add: sh_strtok_def)
    show "length (drop 1 rest) < length cs" using sp by (cases tok) (auto simp: 2(1))
  qed (use k(2,3) t p sp in simp_all)
qed

lemma print_token:
  assumes "ustr (umem (sh_heap st)) t tok" "tok \<noteq> []" "t \<noteq> 0"
  shows "echo_loop c t st = do {
     (token', st2) \<leftarrow> sh_strtok 0 [0x20] (sh_write c (take 1023 tok) st);
     st3 \<leftarrow> (if token' \<noteq> 0 then sh_printf c (chars '' '') [] st2 else Some st2);
     echo_loop c token' st3 }"
  using assms by (subst echo_loop.simps) (simp add: arg_string_ustr sh_printf_text [OF format_s])

lemma echo_loop_prints:
  assumes "ustr (umem (sh_heap st)) t tok" "tok \<noteq> []" "t \<noteq> 0" "ustr (umem (sh_heap st)) (sh_tok st) rest" "sh_tok st \<noteq> 0"
    "unat (sh_tok st) + length rest < 2 ^ 32"
  shows "\<exists>st'. echo_loop c t st = Some st' \<and> sh_kern st' = fold (say c) (words_out (tok # tokens [0x20] rest)) (sh_kern st)"
  using assms
proof (induction "length rest" arbitrary: rest st t tok rule: less_induct)
  case less
  let ?st = "sh_write c (take 1023 tok) st"
  have u: "ustr (umem (sh_heap ?st)) (sh_tok st) rest" "0 = sh_tok st \<or> (0 :: u32) = 0 \<and> sh_tok ?st = sh_tok st"
    using less.prems(4) by simp_all
  show ?case
  proof (rule sh_strtok_next [OF u(1) less.prems(5,6) u(2), of "[0x20]"], goal_cases none token)
    case (none st')
    then show ?thesis unfolding print_token [OF less.prems(1-3)] by (simp add: echo_loop.simps)
  next
    case (token st' t' tok' rest')
    have w: "sh_printf c (chars '' '') [] st' = Some (sh_write c [0x20] st')"
      using sh_printf_text [OF format_literal [of "chars '' ''" "[]"]] by (simp add: chars_def)
    have "\<exists>st''. echo_loop c t' (sh_write c [0x20] st') = Some st''
        \<and> sh_kern st'' = fold (say c) (words_out (tok' # tokens [0x20] rest')) (sh_kern (sh_write c [0x20] st'))"
      using token by (intro less.hyps) simp_all
    then show ?thesis unfolding print_token [OF less.prems(1-3)] using token w by (auto simp: words_out.simps)
  qed
qed

text \<open>The copy of the arguments.\<close>

definition apart :: "u32 \<Rightarrow> u32 \<Rightarrow> nat \<Rightarrow> bool" where
  "apart a b n \<longleftrightarrow> (\<forall>i \<le> n. \<forall>j \<le> n. a + of_nat i \<noteq> b + of_nat j)"

lemma echo_buffer_copies:
  assumes "malloc (of_nat (length cs)) h = Some (buf, h1)" "buf \<noteq> 0" "ustr (umem h1) p cs" "length cs < 2 ^ 32" "apart buf p (length cs)"
  obtains h2 where "echo_buffer p (length cs) h = Some (buf, h2)" "ustr (umem h2) buf cs"
    "\<And>x. \<forall>i \<le> length cs. x \<noteq> buf + of_nat i \<Longrightarrow> umem h2 x = umem h1 x" "umem h2 (buf + of_nat (length cs)) = 0"
proof -
  let ?m0 = "umemset buf 0 (length cs) (umem h1)"
  let ?m1 = "ustrncpy buf p (length cs) ?m0"
  let ?h2 = "h1\<lparr>umem := ?m1(buf + of_nat (length cs) := 0)\<rparr>"
  have u: "0 \<notin> set cs" "lies_at (umem h1) p cs" using assms(3) by (simp_all add: ustr_bytes lies_at_append)
  have "?m0 (p + of_nat j) = umem h1 (p + of_nat j)" if "j < length cs" for j
    using assms(5) that by (intro umemset_outside) (metis apart_def less_imp_le)
  then have "lies_at ?m0 p cs" using u(2) by (simp add: lies_at_def)
  then have b: "lies_at ?m1 buf cs"
    by (rule ustrncpy_bytes [OF _ u(1) assms(4)]) (use assms(5) in \<open>simp add: apart_def\<close>)
  have "ustr (umem ?h2) buf cs"
    using u(1) b of_nat_apart [of "length cs" _ buf] assms(4) by (simp add: ustr_bytes lies_at_append lies_at_upd)
  moreover have "umem ?h2 x = umem h1 x" if "\<forall>i \<le> length cs. x \<noteq> buf + of_nat i" for x
    using that by (simp add: ustrncpy_outside umemset_outside)
  ultimately show ?thesis using assms(1,2) by (intro that [of ?h2]) (simp_all add: echo_buffer_def)
qed

section \<open>Properties\<close>

text \<open>\<open>echo\<close> writes the words of its arguments in order with one blank between them, whatever blanks there were, and a line feed. A
  word longer than 1023 characters is cut. The copy that it takes apart is a block of the heap apart from the arguments.\<close>

theorem echo_prints_words:
  assumes "ustr (umem (sh_heap st)) p cs" "cs \<noteq> []" "malloc (of_nat (length cs)) (sh_heap st) = Some (buf, h1)" "buf \<noteq> 0"
    "unat buf + length cs < 2 ^ 32" "ustr (umem h1) p cs" "apart buf p (length cs)"
  shows "\<exists>st'. echo_builtin c (Some p) st = Some st'
    \<and> sh_kern st' = fold (say c) (words_out (tokens [0x20] cs) @ [[0x0A]]) (sh_kern st)"
proof -
  have n: "length cs < 2 ^ 32" using assms(5) by simp
  obtain h2 where h2: "echo_buffer p (length cs) (sh_heap st) = Some (buf, h2)" "ustr (umem h2) buf cs"
    using echo_buffer_copies [OF assms(3,4,6) n assms(7)] by blast
  let ?st = "st\<lparr>sh_heap := h2\<rparr>"
  have nl: "sh_printf c (chars ''\<newline>'') [] s = Some (sh_write c [0x0A] s)" for s
    using sh_printf_text [OF format_literal [of "chars ''\<newline>''" "[]"]] by (simp add: chars_def)
  have "\<exists>token st1 st2. sh_strtok buf [0x20] ?st = Some (token, st1) \<and> echo_loop c token st1 = Some st2
      \<and> sh_kern st2 = fold (say c) (words_out (tokens [0x20] cs)) (sh_kern st)"
  proof (rule sh_strtok_next [of ?st buf cs buf "[0x20]"], goal_cases _ _ _ _ none token)
    case (none st')
    then show ?case by (simp add: echo_loop.simps)
  next
    case (token st1 t tok rest)
    then show ?case using echo_loop_prints [OF token(5,4,3,6,7,8), of c] by auto
  qed (use h2 assms in simp_all)
  then show ?thesis using assms(1,2,4) h2(1) nl by (auto simp: echo_builtin_def)
qed

definition memory_ab :: umem where
  "memory_ab = st32 0x800000 8 (st32 0x800004 1 (st32 0x800008 0x800020 (st32 0x800020 8 (st32 0x80002C 0x800000
     (poke_bytes 0x900000 (chars ''ab   cde'') (\<lambda>_. 0))))))"

text \<open>A heap with a free block of 8 bytes in front of a used one, as after two calls of \<open>malloc\<close> and one of \<open>free\<close>.\<close>

definition heap_ab :: uheap where
  "heap_ab = \<lparr>heap_head = 0x800000, heap_tail = 0x800020, free_list = 0x800000, heap_curr = 0x800040, uerrno = 0, umem = memory_ab\<rparr>"

lemma heap_ab_fields: "block heap_ab 0x800000 [8, 1, 0x800020, 0, 0, 0]" "block heap_ab 0x800020 [8, 0, 0, 0x800000, 0, 0]"
  "ustr memory_ab 0x900000 (chars ''ab   cde'')"
  by (simp_all add: block_def block_fields heap_ab_def memory_ab_def chars_def ld_st_other) (simp_all add: ld32_def st32_def word32_def)

lemma heap_ab_malloc: "\<exists>h1. malloc 8 heap_ab = Some (0x800018, h1) \<and> fld h1 (b_size 0x800020) = 8
    \<and> fld h1 (b_next 0x800000) = 0x800020 \<and> ustr (umem h1) 0x900000 (chars ''ab   cde'')"
proof -
  have e: "heap_head heap_ab = 0x800000" "heap_tail heap_ab = 0x800020" "free_list heap_ab = 0x800000" "umem heap_ab = memory_ab"
    by (simp_all add: heap_ab_def)
  show ?thesis using heap_ab_fields e
    by (simp add: uheap_eval best_fit_loop.simps) (simp add: chars_def st32_def)
qed

lemma echo_line: "chars ''ab   cde'' = [0x61, 0x62, 0x20, 0x20, 0x20, 0x63, 0x64, 0x65]"
  by (simp add: chars_def)

lemma echo_length: "length (chars ''ab   cde'') = 8"
  by (simp add: echo_line)

lemma far_apart:
  assumes "unat a + n < unat b" "unat b + n < 2 ^ 32"
  shows "apart a b n"
proof -
  have "a + of_nat i \<noteq> b + of_nat j" if "i \<le> n" "j \<le> n" for i j
  proof
    assume "a + of_nat i = b + of_nat j"
    then have "(of_nat (unat a + i) :: u32) = of_nat (unat b + j)" by simp
    then have "unat a + i = unat b + j" by (rule of_nat_small_inj) (use assms that in simp_all)
    then show False using assms that by simp
  qed
  then show ?thesis by (simp add: apart_def)
qed

theorem echo_prints_words_witness:
  "\<exists>st'. echo_builtin endless (Some 0x900000) \<lparr>sh_heap = heap_ab, sh_kern = 0, sh_tok = 0, sh_hist = icarsh_history\<rparr> = Some st'
    \<and> sh_kern st' = fold (say endless) [[0x61, 0x62], [0x20], [0x63, 0x64, 0x65], [0x0A]] 0"
proof -
  obtain h1 where h1: "malloc 8 heap_ab = Some (0x800018, h1)" "ustr (umem h1) 0x900000 (chars ''ab   cde'')"
    using heap_ab_malloc by blast
  have "words_out (tokens [0x20] (chars ''ab   cde'')) @ [[0x0A]] = [[0x61, 0x62], [0x20], [0x63, 0x64, 0x65], [0x0A]]"
    by (simp add: echo_line tokens.simps)
  moreover have "apart 0x800018 0x900000 (length (chars ''ab   cde''))" by (rule far_apart) (simp_all add: echo_line)
  ultimately show ?thesis
    using echo_prints_words [of "\<lparr>sh_heap = heap_ab, sh_kern = 0, sh_tok = 0, sh_hist = icarsh_history\<rparr>" "0x900000" "chars ''ab   cde''"
      "0x800018" h1 endless] heap_ab_fields(3) h1 by (simp add: heap_ab_def echo_line)
qed

text \<open>the copy that \<open>echo\<close> makes ends one byte behind its block. When the arguments fill the block that \<open>malloc\<close> returned and the
  header of the next block follows, the terminator clears the low byte of the size of that block.\<close>

theorem echo_cuts_next_size:
  assumes "malloc (of_nat (length cs)) h = Some (buf, h1)" "buf \<noteq> 0" "ustr (umem h1) p cs" "apart buf p (length cs)"
    "length cs + 4 < 2 ^ 32" "fld h1 (b_next (buf - sizeof_block)) = buf + of_nat (length cs)"
  shows "\<exists>h2. echo_buffer p (length cs) h = Some (buf, h2)
    \<and> fld h2 (b_size (buf + of_nat (length cs))) = fld h1 (b_size (fld h1 (b_next (buf - sizeof_block)))) AND NOT 0xFF"
proof -
  have n: "length cs < 2 ^ 32" using assms(5) by simp
  obtain h2 where h2: "echo_buffer p (length cs) h = Some (buf, h2)"
      "\<And>x. \<forall>i \<le> length cs. x \<noteq> buf + of_nat i \<Longrightarrow> umem h2 x = umem h1 x" "umem h2 (buf + of_nat (length cs)) = 0"
    using echo_buffer_copies [OF assms(1,2,3) n assms(4)] by metis
  let ?b = "buf + of_nat (length cs)"
  have "umem h2 (buf + of_nat (length cs + k)) = umem h1 (buf + of_nat (length cs + k))" if "0 < k" "k < 4" for k
    using that assms(5) of_nat_apart [of "length cs + k" _ buf] by (intro h2(2)) auto
  from this [of 1] this [of 2] this [of 3] have r: "umem h2 (?b + 1) = umem h1 (?b + 1)" "umem h2 (?b + 2) = umem h1 (?b + 2)"
      "umem h2 (?b + 3) = umem h1 (?b + 3)" by (simp_all add: algebra_simps)
  have m: "(0xFF :: u32) = mask 8" by (simp add: mask_eq_exp_minus_1)
  have "word32 0 x y z = word32 w x y z AND NOT 0xFF" for w x y z
    unfolding m by (rule bit_word_eqI) (auto simp: word32_def bit_simps dest: bit_imp_le_length)
  then show ?thesis using h2(1,3) r assms(6) by (auto simp: ld32_def b_size_def)
qed

theorem echo_cuts_next_size_witness:
  "\<exists>h2. echo_buffer 0x900000 8 heap_ab = Some (0x800018, h2) \<and> fld h2 (b_size 0x800020) = 0"
proof -
  obtain h1 where h1: "malloc 8 heap_ab = Some (0x800018, h1)" "fld h1 (b_size 0x800020) = 8" "fld h1 (b_next 0x800000) = 0x800020"
      "ustr (umem h1) 0x900000 (chars ''ab   cde'')" using heap_ab_malloc by blast
  have "apart 0x800018 0x900000 8" by (rule far_apart) simp_all
  then show ?thesis using echo_cuts_next_size [of "chars ''ab   cde''" heap_ab "0x800018" h1 "0x900000"] h1
    by (simp add: echo_length sizeof_block_def)
qed

section \<open>The line\<close>

definition builtin_named :: "u8 list \<Rightarrow> builtin" where
  "builtin_named w = (case map_of (map (\<lambda>(n, b). (chars n, b)) builtins) w of Some b \<Rightarrow> b | None \<Rightarrow> Unknown_builtin)"

lemma find_in_map_of:
  assumes "ustr m p w" "list_all (\<lambda>(n, b). 0 \<notin> set (chars n)) bs"
  shows "find_in bs m p = (case map_of (map (\<lambda>(n, b). (chars n, b)) bs) w of Some b \<Rightarrow> b | None \<Rightarrow> Unknown_builtin)"
  using assms(2) by (induction bs) (auto simp: ustrcmp_ustr [OF assms(1)])

lemma find_builtin_named: "ustr m p w \<Longrightarrow> find_builtin m p = builtin_named w"
  unfolding find_builtin_def builtin_named_def by (rule find_in_map_of) (simp_all add: builtins_def chars_def)

text \<open>The second call of \<open>strtok\<close>, without delimiters, takes everything that is left.\<close>

lemma split_rest:
  assumes "ustr m q rest" "q \<noteq> 0" "length rest < 2 ^ 32"
  shows "strtok 0 [] (q, m) = (if rest = [] then Some (0, q, m) else Some (q, q + of_nat (length rest), m))"
proof (cases "rest = []")
  case True
  then show ?thesis using assms(1) by (simp add: strtok_def)
next
  case False
  then show ?thesis using strtok_some(1) [of m q "[]" rest "[]" 0 q "[]"] assms by simp
qed

lemma copied_line: "0 \<notin> set l \<Longrightarrow> length l < 2 ^ 32 \<Longrightarrow> ustr ((ustrncpy_from buf l (length l) m)(buf + of_nat (length l) := 0)) buf l"
  using ustrncpy_from_bytes [of l buf m] of_nat_apart [of "length l" _ buf] by (simp add: ustr_bytes lies_at_append lies_at_upd)

lemma umem_upd: "umem (h\<lparr>umem := m\<rparr>) = m"
  by simp

lemma arg_string_opt:
  assumes "ustr (umem h) p cs" "p \<noteq> 0"
  shows "arg_string h (if (if cs = [] then 0 else p) = 0 then None else Some (if cs = [] then 0 else p)) = Some cs"
  using assms by (cases "cs = []") (simp_all add: arg_string_ustr, simp add: arg_string_def)

lemma split_line_words:
  assumes "token_split [0x20] pre w rest" "0 \<notin> set (pre @ w @ rest)" "buf \<noteq> 0" "unat buf + length (pre @ w @ rest) < 2 ^ 32"
  obtains cmd args st' where "split_line (pre @ w @ rest) buf st = Some (cmd, args, st')" "cmd \<noteq> 0" "ustr (umem (sh_heap st')) cmd w"
    "arg_string (sh_heap st') (if args = 0 then None else Some args) = Some (drop 1 rest)"
    "sh_kern st' = sh_kern st" "sh_hist st' = sh_hist st"
proof -
  let ?l = "pre @ w @ rest"
  let ?m = "(ustrncpy_from buf ?l (length ?l) (umem (sh_heap st)))(buf + of_nat (length ?l) := 0)"
  let ?st = "st\<lparr>sh_heap := (sh_heap st)\<lparr>umem := ?m\<rparr>\<rparr>"
  have n: "length ?l < 2 ^ 32" using assms(4) by simp
  have u: "ustr ?m buf ?l" by (rule copied_line [OF assms(2) n])
  note sp = assms(1) [unfolded token_split_def]
  let ?t = "buf + of_nat (length pre)"
  let ?q = "?t + of_nat (length w)"
  let ?m' = "if rest = [] then ?m else ?m(?q := 0)"
  let ?p = "if rest = [] then ?q else ?q + 1"
  have k: "strtok buf [0x20] (sh_tok st, ?m) = Some (?t, ?p, ?m')" "ustr ?m' ?t w" "ustr ?m' ?p (drop 1 rest)"
    using strtok_some [OF u n assms(3), of buf "sh_tok st" "[0x20]"] sp by simp_all
  have t: "?t \<noteq> 0" "unat ?t = unat buf + length pre" using offset_nonzero [OF assms(3), of "length pre"] assms(4) by simp_all
  then have q: "?q \<noteq> 0" "unat ?q = unat ?t + length w" using offset_nonzero [OF t(1), of "length w"] assms(4) by simp_all
  have p: "?p \<noteq> 0"
  proof (cases rest)
    case (Cons r rs)
    then have "unat ?q + 1 < 2 ^ 32" using q t assms(4) by simp
    from offset_nonzero [OF q(1), of 1] this Cons show ?thesis by simp
  qed (use q in simp)
  have l: "length (drop 1 rest) < 2 ^ 32" using n by simp
  note r = split_rest [OF k(3) p l]
  have a: "arg_string ((sh_heap st)\<lparr>umem := ?m'\<rparr>) (if (if drop 1 rest = [] then 0 else ?p) = 0 then None
      else Some (if drop 1 rest = [] then 0 else ?p)) = Some (drop 1 rest)"
    by (rule arg_string_opt [OF _ p]) (subst umem_upd, rule k(3))
  let ?st = "\<lambda>tok m. st\<lparr>sh_heap := (sh_heap st)\<lparr>umem := m\<rparr>, sh_tok := tok\<rparr>"
  show ?thesis
  proof (rule that)
    show "split_line ?l buf st = Some (?t, if drop 1 rest = [] then 0 else ?p,
        ?st (if drop 1 rest = [] then ?p else ?p + of_nat (length (drop 1 rest))) ?m')"
      using k(1) r by (simp add: split_line_def sh_strtok_def Let_def)
  qed (use t k(2) a in simp_all)
qed

text \<open>C33: a line runs the builtin that its first word names, or reports an unknown one, with the text behind the blank after that word as
  argument. Until then nothing was written, and afterwards the buffer of the line is released unless the shell ended.\<close>

theorem line_runs_builtin:
  assumes "token_split [0x20] pre w rest" "0 \<notin> set (pre @ w @ rest)" "length (pre @ w @ rest) < 4096"
    "malloc (of_nat (length (pre @ w @ rest) + 1)) (sh_heap st) = Some (buf, h)" "buf \<noteq> 0" "unat buf + length (pre @ w @ rest) < 2 ^ 32"
  shows "\<exists>args st1. execute_builtin c pc (pre @ w @ rest) st = map_option (release_line buf) (run_builtin c pc (builtin_named w) args st1)
    \<and> arg_string (sh_heap st1) args = Some (drop 1 rest) \<and> sh_kern st1 = sh_kern st \<and> sh_hist st1 = sh_hist st"
proof -
  obtain cmd args st' where l: "split_line (pre @ w @ rest) buf (st\<lparr>sh_heap := h\<rparr>) = Some (cmd, args, st')" "cmd \<noteq> 0"
      "ustr (umem (sh_heap st')) cmd w" "arg_string (sh_heap st') (if args = 0 then None else Some args) = Some (drop 1 rest)"
      "sh_kern st' = sh_kern st" "sh_hist st' = sh_hist st"
    using split_line_words [OF assms(1,2,5,6), of "st\<lparr>sh_heap := h\<rparr>"] by auto
  have "\<not> length (pre @ w @ rest) \<ge> ICARSH_INPUT_LIMIT" using assms(3) by (simp add: konst)
  then have "execute_builtin c pc (pre @ w @ rest) st
      = map_option (release_line buf) (run_builtin c pc (builtin_named w) (if args = 0 then None else Some args) st')"
    unfolding execute_builtin_def using assms(4,5) l(1,2) find_builtin_named [OF l(3)]
    by (simp only: if_False Option.bind_lunit prod.case Let_def if_not_P) (simp add: map_conv_bind_option o_def)
  then show ?thesis using l(4-6) by blast
qed

theorem line_runs_builtin_witness:
  "\<exists>args st1. execute_builtin endless (\<lambda>_. []) (chars ''ls /'') \<lparr>sh_heap = uheap0 (\<lambda>_. 0), sh_kern = 0, sh_tok = 0, sh_hist = icarsh_history\<rparr>
      = map_option (release_line 0x800018) (map_option Continue (ls_builtin endless args st1))
    \<and> arg_string (sh_heap st1) args = Some (chars ''/'')"
proof -
  have s: "token_split [0x20] [] (chars ''ls'') (chars '' /'')" by (simp add: token_split_def chars_def)
  have c: "chars ''ls /'' = [] @ chars ''ls'' @ chars '' /''" by (simp add: chars_def)
  obtain h where "malloc 5 (uheap0 (\<lambda>_. 0)) = Some (0x800018, h)" by (simp add: uheap_eval best_fit_loop.simps uheap0_def)
  moreover have "builtin_named (chars ''ls'') = Ls_builtin" by (simp add: builtin_named_def builtins_def chars_def)
  ultimately show ?thesis
    using line_runs_builtin [OF s, of "\<lparr>sh_heap = uheap0 (\<lambda>_. 0), sh_kern = 0, sh_tok = 0, sh_hist = icarsh_history\<rparr>" "0x800018" h endless "\<lambda>_. []"]
    unfolding c [symmetric] by (simp add: chars_def) blast
qed

end
