(* ===== verification/Spinlock.thy ===== *)
theory Spinlock
  imports Prelude
begin

text \<open>
  The spin lock, \<open>arch/x86/sync/spinlock.c\<close>: the loop around the exchange instruction, alone and for any number of threads whose
  exchanges interleave. The exchange itself is the atomic step.
\<close>

section \<open>Operations\<close>

text \<open>\<open>asm_xchg\<close>: what the instruction returns, and the word afterwards.\<close>

definition asm_xchg :: "u32 \<Rightarrow> u32 \<Rightarrow> u32 \<times> u32" where
  "asm_xchg addr new_val = (addr, new_val)"

text \<open>\<open>others i\<close> is what the rest of the system does to the word before the exchange \<open>i\<close>; the result is the number of exchanges and
  the word.\<close>

partial_function (option) spinlock_acquire :: "(nat \<Rightarrow> u32 \<Rightarrow> u32) \<Rightarrow> nat \<Rightarrow> u32 \<Rightarrow> (nat \<times> u32) option" where
  "spinlock_acquire others i self = (case asm_xchg (others i self) 1 of (old, self') \<Rightarrow>
     if old \<noteq> 0 then spinlock_acquire others (i + 1) self' else Some (i + 1, self'))"

definition spinlock_release :: "u32 \<Rightarrow> u32" where
  "spinlock_release self = 0"

section \<open>Threads\<close>

datatype place = Outside | Spinning | Holding

record spin =
  lock :: u32
  at :: "nat \<Rightarrow> place"

text \<open>A thread calls \<open>spinlock_acquire\<close>, makes one exchange in its loop, or calls \<open>spinlock_release\<close>.\<close>

inductive spin_step :: "spin \<Rightarrow> spin \<Rightarrow> bool" where
  call: "at s t = Outside \<Longrightarrow> spin_step s (s\<lparr>at := (at s)(t := Spinning)\<rparr>)"
| exchange: "at s t = Spinning \<Longrightarrow> asm_xchg (lock s) 1 = (old, v) \<Longrightarrow>
    spin_step s (s\<lparr>lock := v, at := (at s)(t := if old \<noteq> 0 then Spinning else Holding)\<rparr>)"
| release: "at s t = Holding \<Longrightarrow> spin_step s (s\<lparr>lock := spinlock_release (lock s), at := (at s)(t := Outside)\<rparr>)"

inductive_cases spin_stepE [elim!]: "spin_step s s'"

definition spin0 :: spin where
  "spin0 = \<lparr>lock = 0, at = (\<lambda>_. Outside)\<rparr>"

definition holders :: "spin \<Rightarrow> nat set" where
  "holders s = {t. at s t = Holding}"

section \<open>A thread on its own\<close>

lemma acquire_free: "others i self = 0 \<Longrightarrow> spinlock_acquire others i self = Some (i + 1, 1)"
  by (subst spinlock_acquire.simps) (simp add: asm_xchg_def)

lemma acquire_waits: "others i self \<noteq> 0 \<Longrightarrow> spinlock_acquire others i self = spinlock_acquire others (i + 1) 1"
  by (subst spinlock_acquire.simps) (simp add: asm_xchg_def)

text \<open>The call returns with the first exchange that finds the lock free.\<close>

lemma acquire_returns:
  "others i self \<noteq> 0 \<Longrightarrow> \<forall>j. i < j \<and> j < i + n \<longrightarrow> others j 1 \<noteq> 0 \<Longrightarrow> others (i + n) 1 = 0 \<Longrightarrow> 0 < n \<Longrightarrow>
   spinlock_acquire others i self = Some (i + n + 1, 1)"
proof (induction n arbitrary: i self)
  case (Suc n)
  show ?case
  proof (cases "n = 0")
    case True
    then show ?thesis using Suc.prems by (simp add: acquire_waits acquire_free)
  next
    case False
    then have "others (i + 1) 1 \<noteq> 0" using Suc.prems(2) by auto
    then have "spinlock_acquire others (i + 1) 1 = Some (i + 1 + n + 1, 1)"
      using Suc.prems False by (intro Suc.IH) auto
    then show ?thesis using Suc.prems(1) by (simp add: acquire_waits)
  qed
qed simp

text \<open>A word that nobody resets is waited for without end, also when it is the thread itself that holds the lock.\<close>

lemma acquire_result:
  assumes "spinlock_acquire others i self = Some r"
  shows "\<exists>j \<ge> i. others j (if j = i then self else 1) = 0"
proof (rule spinlock_acquire.raw_induct [OF _ assms, where P = "\<lambda>others i self r. \<exists>j \<ge> i. others j (if j = i then self else 1) = 0"])
  fix acquire others i self r
  assume ih: "\<And>others i self r. acquire others i self = Some r \<Longrightarrow> \<exists>j \<ge> i. others j (if j = i then self else 1) = 0"
    and e: "(case asm_xchg (others i self) 1 of (old, self') \<Rightarrow>
      if old \<noteq> 0 then acquire others (i + 1) self' else Some (i + 1, self')) = Some (r :: nat \<times> u32)"
  show "\<exists>j \<ge> i. others j (if j = i then self else 1) = 0"
  proof (cases "others i self = 0")
    case False
    then have "acquire others (i + 1) 1 = Some r" using e by (simp add: asm_xchg_def)
    then obtain j where "i + 1 \<le> j" "others j 1 = 0" using ih [of others "i + 1" 1 r] by auto
    then show ?thesis by (intro exI [of _ j]) auto
  qed auto
qed

theorem acquire_deadlocks: "self \<noteq> 0 \<Longrightarrow> spinlock_acquire (\<lambda>_ v. v) i self = None"
  using acquire_result [of "\<lambda>_ v. v" i self] by (cases "spinlock_acquire (\<lambda>_ v. v) i self") (auto split: if_splits)

section \<open>Mutual exclusion\<close>

definition spin_inv :: "spin \<Rightarrow> bool" where [invs]:
  "spin_inv s \<longleftrightarrow> (lock s = 0 \<and> holders s = {}) \<or> (lock s = 1 \<and> (\<exists>t. holders s = {t}))"

lemma holders_update:
  "holders (s\<lparr>at := (at s)(t := p)\<rparr>) = (if p = Holding then insert t (holders s) else holders s - {t})"
  "holders (s\<lparr>lock := v\<rparr>) = holders s"
  "holders (s\<lparr>lock := v, at := (at s)(t := p)\<rparr>) = (if p = Holding then insert t (holders s) else holders s - {t})"
  by (auto simp: holders_def)

lemma holders_at:
  "at s t = Holding \<Longrightarrow> t \<in> holders s" "at s t = Outside \<Longrightarrow> t \<notin> holders s" "at s t = Spinning \<Longrightarrow> t \<notin> holders s"
  by (simp_all add: holders_def)

lemma spin_step_inv: "spin_step s s' \<Longrightarrow> spin_inv s \<Longrightarrow> spin_inv s'"
  by (auto simp: spin_inv_def holders_update asm_xchg_def spinlock_release_def dest: holders_at)

lemma spin_reachable_inv: "spin_step\<^sup>*\<^sup>* spin0 s \<Longrightarrow> spin_inv s"
proof (induction rule: rtranclp_induct)
  case base
  show ?case by (simp add: spin_inv_def spin0_def holders_def)
next
  case (step s s')
  then show ?case by (rule_tac spin_step_inv)
qed

lemma enter: "at s t = Spinning \<Longrightarrow> lock s = 0 \<Longrightarrow> spin_step s (s\<lparr>lock := 1, at := (at s)(t := Holding)\<rparr>)"
  using spin_step.exchange [of s t 0 1] by (simp add: asm_xchg_def)

text \<open>C35: for any number of threads and any interleaving of their exchanges at most one thread holds the lock; the lock word is 0
  exactly when no thread holds it, and then the next exchange of any waiting thread obtains it.\<close>

theorem spinlock_excludes:
  assumes "spin_step\<^sup>*\<^sup>* spin0 s"
  shows "card (holders s) \<le> 1 \<and> (lock s = 0 \<longleftrightarrow> holders s = {})
    \<and> (holders s = {} \<and> at s t = Spinning \<longrightarrow> spin_step s (s\<lparr>lock := 1, at := (at s)(t := Holding)\<rparr>))"
  using spin_reachable_inv [OF assms] enter [of s t] by (auto simp: spin_inv_def)

text \<open>Thread 0 has held and released the lock while thread 1 was waiting; now thread 1 may enter.\<close>

lemma spinlock_excludes_witness:
  "\<exists>s. spin_step\<^sup>*\<^sup>* spin0 s \<and> at s 0 = Outside \<and> at s 1 = Spinning \<and> spin_step s (s\<lparr>lock := 1, at := (at s)(1 := Holding)\<rparr>)"
proof -
  define s1 where "s1 = spin0\<lparr>at := (at spin0)(0 := Spinning)\<rparr>"
  define s2 where "s2 = s1\<lparr>lock := 1, at := (at s1)(0 := Holding)\<rparr>"
  define s3 where "s3 = s2\<lparr>at := (at s2)(1 := Spinning)\<rparr>"
  define s4 where "s4 = s3\<lparr>lock := spinlock_release (lock s3), at := (at s3)(0 := Outside)\<rparr>"
  have at: "at spin0 = (\<lambda>_. Outside)" "lock spin0 = 0" by (simp_all add: spin0_def)
  have "spin_step spin0 s1" unfolding s1_def by (rule spin_step.call) (simp add: at)
  moreover have "spin_step s1 s2" unfolding s2_def by (rule enter) (simp_all add: s1_def at)
  moreover have "spin_step s2 s3" unfolding s3_def by (rule spin_step.call) (simp add: s2_def s1_def at)
  moreover have "spin_step s3 s4" unfolding s4_def by (rule spin_step.release) (simp add: s3_def s2_def)
  ultimately have r: "spin_step\<^sup>*\<^sup>* spin0 s4"
    by (rule rtranclp.rtrancl_into_rtrancl [OF rtranclp.rtrancl_into_rtrancl [OF rtranclp.rtrancl_into_rtrancl [OF r_into_rtranclp]]])
  have e: "at s4 = (\<lambda>_. Outside)(1 := Spinning)" by (auto simp: s4_def s3_def s2_def s1_def at)
  then have "holders s4 = {}" by (simp add: holders_def)
  with spinlock_excludes [OF r, of 1] e show ?thesis using r by (intro exI [of _ s4]) simp
qed

text \<open>\<open>spinlock_release\<close> does not ask who calls it: one call by a thread that does not hold the lock, and a second thread enters.\<close>

lemma foreign_release:
  assumes "at s t = Holding" "at s u = Spinning"
  shows "\<exists>s'. spin_step (s\<lparr>lock := spinlock_release (lock s)\<rparr>) s' \<and> holders s' \<supseteq> {t, u} \<and> t \<noteq> u"
proof -
  let ?s = "s\<lparr>lock := spinlock_release (lock s)\<rparr>"
  have "spin_step ?s (?s\<lparr>lock := 1, at := (at ?s)(u := if (0 :: u32) \<noteq> 0 then Spinning else Holding)\<rparr>)"
    using assms(2) by (intro spin_step.exchange) (simp_all add: asm_xchg_def spinlock_release_def)
  moreover have "t \<noteq> u" using assms by auto
  ultimately show ?thesis using assms(1) by (intro exI conjI) (assumption, auto simp: holders_def)
qed

end
