(* ===== verification/Port64.thy ===== *)
theory Port64
  imports Vbe
begin

text \<open>
  The 64-bit port, \<open>x86_64/\<close>: the framebuffer (\<open>graphic/fb.c\<close>), fonts (\<open>graphic/font.c\<close>), the renderer, the terminal and the
  start (\<open>init.c\<close>, \<open>kernel.c\<close>). Addresses are natural numbers, memory is the byte memory of the string routines; the pointers the
  functions pass to each other are never null, so that their guards are left out, except for a font.
\<close>

unbundle bit_operations_syntax

section \<open>Results\<close>

definition K_OK :: int where [konst]: "K_OK = 0"
definition K_ENODEV :: int where [konst]: "K_ENODEV = 19"
definition K_EINVAL :: int where [konst]: "K_EINVAL = 22"

record kresult =
  kcode :: int
  kmsg :: "string option"

definition kres_ok :: "string option \<Rightarrow> kresult" where "kres_ok msg = \<lparr>kcode = K_OK, kmsg = msg\<rparr>"
definition kres_err :: "int \<Rightarrow> string option \<Rightarrow> kresult" where "kres_err c msg = \<lparr>kcode = c, kmsg = msg\<rparr>"

section \<open>\<open>graphic/fb.c\<close>\<close>

record fb_info =
  fi_vaddr :: nat
  fi_width :: u32
  fi_height :: u32
  fi_pitch :: u32
  fi_bpp :: u8
  r_shift :: u8
  g_shift :: u8
  b_shift :: u8
  a_shift :: u8
  r_size :: u8
  g_size :: u8
  b_size :: u8
  a_size :: u8

record fb =
  frontbuffer :: nat
  backbuffer64 :: nat
  info :: fb_info

definition fb_setup :: "fb_info \<Rightarrow> fb \<Rightarrow> fb" where
  "fb_setup i g = g\<lparr>frontbuffer := fi_vaddr i, backbuffer64 := 0, info := i\<rparr>"

text \<open>\<open>row[x] = color\<close> for the line \<open>y\<close>; the offset of the line is a 32-bit product.\<close>

definition pixel_address :: "fb \<Rightarrow> u32 \<Rightarrow> u32 \<Rightarrow> nat" where
  "pixel_address g x y = frontbuffer g + unat (y * fi_pitch (info g)) + 4 * unat x"

definition store_color :: "nat \<Rightarrow> u32 \<Rightarrow> mem \<Rightarrow> mem" where
  "store_color a c m = m(a := ucast c, a + 1 := ucast (drop_bit 8 c), a + 2 := ucast (drop_bit 16 c), a + 3 := ucast (drop_bit 24 c))"

definition fb_clear :: "fb \<Rightarrow> u32 \<Rightarrow> mem \<Rightarrow> kresult \<times> mem" where
  "fb_clear g color m =
     (if frontbuffer g = 0 then (kres_err (- K_ENODEV) (Some ''NO Frontbuffer''), m)
      else if fi_bpp (info g) \<noteq> 32 then (kres_err (- K_EINVAL) (Some ''Only 32 Bpp is supported''), m)
      else (kres_ok None, fold (\<lambda>y. fold (\<lambda>x. store_color (pixel_address g (of_nat x) (of_nat y)) color) [0..<unat (fi_width (info g))])
        [0..<unat (fi_height (info g))] m))"

definition fb_put_pixel_at :: "fb \<Rightarrow> u32 \<Rightarrow> u32 \<Rightarrow> u32 \<Rightarrow> mem \<Rightarrow> kresult \<times> mem" where
  "fb_put_pixel_at g x y color m =
     (if frontbuffer g = 0 then (kres_err (- K_ENODEV) (Some ''NO Frontbuffer''), m)
      else if fi_bpp (info g) \<noteq> 32 then (kres_err (- K_EINVAL) (Some ''Only 32 Bpp is supported''), m)
      else if x \<ge> fi_width (info g) \<or> y \<ge> fi_height (info g) then (kres_err (- K_EINVAL) (Some ''Display limits exceeded''), m)
      else (kres_ok None, store_color (pixel_address g x y) color m))"

definition fb_scroll :: "fb \<Rightarrow> u32 \<Rightarrow> u32 \<Rightarrow> mem \<Rightarrow> mem" where
  "fb_scroll g color rows m = (let scroll_bytes = rows * fi_pitch (info g);
       total_bytes = (fi_height (info g) - rows) * fi_pitch (info g);
       m1 = memmove (frontbuffer g) (frontbuffer g + unat scroll_bytes) (unat total_bytes) m
     in fold (\<lambda>y. fold (\<lambda>x m. snd (fb_put_pixel_at g (of_nat x) (of_nat y) color m)) [0..<unat (fi_width (info g))])
       [unat (fi_height (info g) - rows)..<unat (fi_height (info g))] m1)"

text \<open>Shifting a 32-bit value by 32 or more is undefined.\<close>

definition shift_left :: "u8 \<Rightarrow> u8 \<Rightarrow> u32 option" where
  "shift_left v n = (if n < 32 then Some (push_bit (unat n) (ucast v)) else None)"

definition fb_pack_rgba :: "fb_info \<Rightarrow> u8 \<Rightarrow> u8 \<Rightarrow> u8 \<Rightarrow> u8 \<Rightarrow> u32 option" where
  "fb_pack_rgba i r g b a = do {
     native_r \<leftarrow> shift_left r (r_shift i);
     native_g \<leftarrow> shift_left g (g_shift i);
     native_b \<leftarrow> shift_left b (b_shift i);
     native_a \<leftarrow> (if a_size i \<noteq> 0 then shift_left a (a_shift i) else Some 0);
     Some (native_r OR native_g OR native_b OR native_a) }"

section \<open>\<open>graphic/font.c\<close>\<close>

record font =
  fn_width :: u32
  fn_height :: u32
  glyphs :: "u8 list list"

definition font_setup :: "u32 \<Rightarrow> u32 \<Rightarrow> u8 list list \<Rightarrow> font \<Rightarrow> font" where
  "font_setup w h g f = f\<lparr>fn_width := w, fn_height := h, glyphs := g\<rparr>"

definition font_get_glyph :: "font \<Rightarrow> u8 \<Rightarrow> u8 list option" where
  "font_get_glyph f ch = (if ch \<ge> 128 then None else Some (glyphs f ! unat ch))"

text \<open>A row behind the glyph, the null glyph and a shift of more than 31 bits are undefined.\<close>

definition font_get_pixel_at :: "font option \<Rightarrow> u8 \<Rightarrow> u8 \<Rightarrow> u8 \<Rightarrow> bool option" where
  "font_get_pixel_at fo ch pixel_x pixel_y = (case fo of None \<Rightarrow> Some False | Some f \<Rightarrow>
     if ucast pixel_x \<ge> fn_width f \<or> ucast pixel_y \<ge> fn_height f then Some False
     else do {
       glyph \<leftarrow> font_get_glyph f ch;
       if unat pixel_y < length glyph \<and> pixel_x < 32 then Some (bit (glyph ! unat pixel_y) (unat pixel_x)) else None })"

section \<open>\<open>graphic/renderer.c\<close>\<close>

record renderer =
  rfont :: "font option"
  screen_w :: u32
  screen_h :: u32
  cur_x :: u32
  cur_y :: u32
  fg :: u32
  bg :: u32
  bg_transparent :: bool

definition put_clipped :: "fb \<Rightarrow> renderer \<Rightarrow> u32 \<Rightarrow> u32 \<Rightarrow> u32 \<Rightarrow> mem \<Rightarrow> mem" where
  "put_clipped g r x y color m = (if x \<ge> screen_w r \<or> y \<ge> screen_h r then m else snd (fb_put_pixel_at g x y color m))"

definition renderer_setup :: "font option \<Rightarrow> u32 \<Rightarrow> u32 \<Rightarrow> bool \<Rightarrow> renderer \<Rightarrow> renderer" where
  "renderer_setup f w h transparent r = r\<lparr>rfont := f, screen_w := w, screen_h := h, bg_transparent := transparent, bg := 0, fg := 0\<rparr>"

definition renderer_set_fg_rgba :: "fb_info \<Rightarrow> u8 \<Rightarrow> u8 \<Rightarrow> u8 \<Rightarrow> u8 \<Rightarrow> renderer \<Rightarrow> renderer option" where
  "renderer_set_fg_rgba i cr cg cb ca r = do { c \<leftarrow> fb_pack_rgba i cr cg cb ca; Some (r\<lparr>fg := c\<rparr>) }"

definition renderer_set_bg_rgba :: "fb_info \<Rightarrow> u8 \<Rightarrow> u8 \<Rightarrow> u8 \<Rightarrow> u8 \<Rightarrow> renderer \<Rightarrow> renderer option" where
  "renderer_set_bg_rgba i cr cg cb ca r = do { c \<leftarrow> fb_pack_rgba i cr cg cb ca; Some (r\<lparr>bg := c\<rparr>) }"

definition renderer_set_cursor :: "u32 \<Rightarrow> u32 \<Rightarrow> renderer \<Rightarrow> renderer" where
  "renderer_set_cursor x y r = r\<lparr>cur_x := x, cur_y := y\<rparr>"

definition renderer_set_color :: "u32 \<Rightarrow> u32 \<Rightarrow> renderer \<Rightarrow> renderer" where
  "renderer_set_color f b r = r\<lparr>fg := f, bg := b\<rparr>"

definition renderer_get_font :: "renderer \<Rightarrow> font option" where "renderer_get_font r = rfont r"

definition renderer_set_font :: "font option \<Rightarrow> renderer \<Rightarrow> renderer" where
  "renderer_set_font f r = (if f = None then r else r\<lparr>rfont := f\<rparr>)"

definition renderer_scroll :: "fb \<Rightarrow> font \<Rightarrow> renderer \<times> mem \<Rightarrow> renderer \<times> mem" where
  "renderer_scroll g f s = (case s of (r, m) \<Rightarrow> (let m1 = fb_scroll g (bg r) (fn_height f) m in
     if cur_y r \<ge> fn_height f then (r\<lparr>cur_y := cur_y r - fn_height f\<rparr>, m1) else (r\<lparr>cur_y := 0\<rparr>, m1)))"

text \<open>A loop whose body may be undefined.\<close>

primrec for_each :: "('a \<Rightarrow> 's \<Rightarrow> 's option) \<Rightarrow> 'a list \<Rightarrow> 's \<Rightarrow> 's option" where
  "for_each f [] s = Some s"
| "for_each f (x # xs) s = do { s' \<leftarrow> f x s; for_each f xs s' }"

text \<open>The two loops over the pixels of a glyph; the coordinates inside the glyph are cut to 8 bits.\<close>

definition draw_cell :: "fb \<Rightarrow> font \<Rightarrow> u8 \<Rightarrow> renderer \<Rightarrow> mem \<Rightarrow> mem option" where
  "draw_cell g f ch r = for_each (\<lambda>y. for_each (\<lambda>x m. do {
       on \<leftarrow> font_get_pixel_at (Some f) ch (of_nat x) (of_nat y);
       Some (if on then put_clipped g r (cur_x r + of_nat x) (cur_y r + of_nat y) (fg r) m
         else if \<not> bg_transparent r then put_clipped g r (cur_x r + of_nat x) (cur_y r + of_nat y) (bg r) m
         else m) })
     [0..<unat (fn_width f)]) [0..<unat (fn_height f)]"

text \<open>Behind the right margin the cursor goes down by the width of the font.\<close>

definition renderer_draw_ch :: "fb \<Rightarrow> u8 \<Rightarrow> renderer \<times> mem \<Rightarrow> (renderer \<times> mem) option" where
  "renderer_draw_ch g ch s = (case s of (r, m) \<Rightarrow>
     if ch < 32 \<or> ch \<ge> 128 then Some (r, m)
     else do {
       f \<leftarrow> rfont r;
       let r1 = (if cur_x r + fn_width f > screen_w r then renderer_set_cursor 0 (cur_y r + fn_width f) r else r);
       let (r2, m2) = (if cur_y r1 + fn_height f > screen_h r1 then renderer_scroll g f (r1, m) else (r1, m));
       m3 \<leftarrow> draw_cell g f ch r2 m2;
       Some (renderer_set_cursor (cur_x r2 + fn_width f) (cur_y r2) r2, m3) })"

fun renderer_draw_text :: "fb \<Rightarrow> u8 list \<Rightarrow> renderer \<times> mem \<Rightarrow> (renderer \<times> mem) option" where
  "renderer_draw_text g [] s = Some s"
| "renderer_draw_text g (u # text) s = (if u = 0 then Some s
     else do { s' \<leftarrow> (if u \<ge> 32 \<and> u < 128 then renderer_draw_ch g u s else Some s); renderer_draw_text g text s' })"

section \<open>\<open>graphic/tty.c\<close>\<close>

record tty =
  tty_renderer :: renderer
  tab_width :: u64

definition tty_init :: "renderer \<Rightarrow> tty \<Rightarrow> tty" where
  "tty_init r t = t\<lparr>tty_renderer := r, tab_width := 8\<rparr>"

definition tty_set_tabwidth :: "u64 \<Rightarrow> tty \<Rightarrow> tty" where
  "tty_set_tabwidth n t = (if n \<le> 0 then t\<lparr>tab_width := 1\<rparr> else t\<lparr>tab_width := n\<rparr>)"

text \<open>The handlers of the control characters, on the renderer; a division by zero is undefined.\<close>

definition tty_carriage_return :: "renderer \<Rightarrow> renderer" where
  "tty_carriage_return r = renderer_set_cursor 0 (cur_y r) r"

definition tty_tab :: "u64 \<Rightarrow> renderer \<Rightarrow> renderer option" where
  "tty_tab tw r = do {
     f \<leftarrow> rfont r;
     if fn_width f = 0 \<or> tw = 0 then None
     else (let curr_col = ucast (cur_x r div fn_width f) :: u64;
         next_col = ((curr_col div tw) + 1) * tw;
         next_pixel_x = next_col * ucast (fn_width f)
       in Some (if next_pixel_x \<ge> ucast (screen_w r) then renderer_set_cursor 0 (cur_y r + fn_height f) r
            else renderer_set_cursor (ucast next_pixel_x) (cur_y r) r)) }"

definition tty_newline :: "fb \<Rightarrow> renderer \<times> mem \<Rightarrow> (renderer \<times> mem) option" where
  "tty_newline g s = (case s of (r, m) \<Rightarrow> do {
     f \<leftarrow> rfont r;
     let r1 = renderer_set_cursor 0 (cur_y r + fn_height f) r;
     Some (if cur_y r1 + fn_height f > screen_h r1 then renderer_scroll g f (r1, m) else (r1, m)) })"

definition tty_backspace :: "fb \<Rightarrow> renderer \<times> mem \<Rightarrow> (renderer \<times> mem) option" where
  "tty_backspace g s = (case s of (r, m) \<Rightarrow> do {
     f \<leftarrow> rfont r;
     let r1 = (if cur_x r \<ge> fn_width f then renderer_set_cursor (cur_x r - fn_width f) (cur_y r) r
       else if cur_y r \<ge> fn_height f then renderer_set_cursor (screen_w r - fn_width f) (cur_y r - fn_height f) r
       else r);
     renderer_draw_ch g 0x20 (r1, m) })"

definition tty_putc :: "fb \<Rightarrow> u8 \<Rightarrow> tty \<times> mem \<Rightarrow> (tty \<times> mem) option" where
  "tty_putc g ch s = (case s of (t, m) \<Rightarrow> do {
     (r, m') \<leftarrow> (if ch = 0x09 then map_option (\<lambda>r. (r, m)) (tty_tab (tab_width t) (tty_renderer t))
       else if ch = 0x0A then tty_newline g (tty_renderer t, m)
       else if ch = 0x0D then Some (tty_carriage_return (tty_renderer t), m)
       else if ch = 0x08 then tty_backspace g (tty_renderer t, m)
       else renderer_draw_ch g ch (tty_renderer t, m));
     Some (t\<lparr>tty_renderer := r\<rparr>, m') })"

text \<open>The length is taken first; the delay of each character has no effect.\<close>

definition tty_puts :: "fb \<Rightarrow> u8 list \<Rightarrow> tty \<times> mem \<Rightarrow> (tty \<times> mem) option" where
  "tty_puts g text = for_each (tty_putc g) (takeWhile (\<lambda>ch. ch \<noteq> 0) text)"

section \<open>\<open>init.c\<close> and \<open>kernel.c\<close>\<close>

text \<open>What the boot loader offers of a framebuffer; \<open>None\<close> is a null response.\<close>

record limine_framebuffer =
  address :: nat
  lwidth :: u64
  lheight :: u64
  lpitch :: u64
  lbpp :: u16
  red_mask_size :: u8
  red_mask_shift :: u8
  green_mask_size :: u8
  green_mask_shift :: u8
  blue_mask_size :: u8
  blue_mask_shift :: u8

definition init_limine :: "limine_framebuffer list option \<Rightarrow> fb \<Rightarrow> kresult \<times> fb" where
  "init_limine response g = (case response of None \<Rightarrow> (kres_err (- K_ENODEV) None, g)
    | Some [] \<Rightarrow> (kres_err (- K_ENODEV) None, g)
    | Some (l # ls) \<Rightarrow>
        if lbpp l \<noteq> 32 then (kres_err (- K_EINVAL) None, g)
        else (kres_ok None, fb_setup \<lparr>fi_vaddr = address l, fi_width = ucast (lwidth l), fi_height = ucast (lheight l),
          fi_pitch = ucast (lpitch l), fi_bpp = ucast (lbpp l), r_shift = red_mask_shift l, g_shift = green_mask_shift l,
          b_shift = blue_mask_shift l, a_shift = 0, r_size = red_mask_size l, g_size = green_mask_size l,
          b_size = blue_mask_size l, a_size = 0\<rparr> g))"

definition greeting64 :: "u8 list" where
  "greeting64 = [0x48, 0x65, 0x6C, 0x6C, 0x6F, 0x20, 0x66, 0x72, 0x6F, 0x6D, 0x20, 0x69, 0x63, 0x61, 0x72, 0x69, 0x75, 0x73, 0x4F,
     0x53, 0x20, 0x78, 0x36, 0x34, 0x0A]"

definition zero_font :: font where "zero_font = \<lparr>fn_width = 0, fn_height = 0, glyphs = []\<rparr>"

definition zero_renderer :: renderer where
  "zero_renderer = \<lparr>rfont = None, screen_w = 0, screen_h = 0, cur_x = 0, cur_y = 0, fg = 0, bg = 0, bg_transparent = False\<rparr>"

datatype start = Panicked | Ready fb "tty \<times> mem"

text \<open>\<open>kmain\<close> with \<open>rounds\<close> greetings (the code has 800000000); \<open>sse\<close> is the result of \<open>asm_sse_setup\<close>.\<close>

definition kmain64 :: "nat \<Rightarrow> bool \<Rightarrow> limine_framebuffer list option \<Rightarrow> fb \<Rightarrow> mem \<Rightarrow> start option" where
  "kmain64 rounds sse response g_fb m =
     (if \<not> sse then Some Panicked
      else (let (r, g) = init_limine response g_fb in
        if kcode r \<noteq> K_OK then Some Panicked
        else do {
          let font = font_setup 8 8 default_glyph zero_font;
          let rd = renderer_setup (Some font) (fi_width (info g)) (fi_height (info g)) True zero_renderer;
          rd1 \<leftarrow> renderer_set_fg_rgba (info g) 0x00 0xAC 0x00 0xFF rd;
          rd2 \<leftarrow> renderer_set_bg_rgba (info g) 0x00 0x00 0x00 0x00 rd1;
          s \<leftarrow> for_each (\<lambda>_. tty_puts g greeting64) [0..<rounds] (tty_init rd2 \<lparr>tty_renderer = zero_renderer, tab_width = 0\<rparr>, m);
          Some (Ready g s) }))"

section \<open>Loops\<close>

lemma for_each_total: "(\<And>x s. x \<in> set xs \<Longrightarrow> f x s = Some (h x s)) \<Longrightarrow> for_each f xs s = Some (fold h xs s)"
  by (induction xs arbitrary: s) auto

text \<open>A loop whose every round keeps \<open>P\<close> has a result and keeps it.\<close>

lemma for_each_keeps:
  "P s \<Longrightarrow> (\<And>x s. x \<in> set xs \<Longrightarrow> P s \<Longrightarrow> \<exists>s'. f x s = Some s' \<and> P s') \<Longrightarrow> \<exists>s'. for_each f xs s = Some s' \<and> P s'"
proof (induction xs arbitrary: s)
  case (Cons x xs)
  then obtain s1 where "f x s = Some s1" "P s1" by (metis list.set_intros(1))
  then show ?case using Cons.IH [of s1] Cons.prems(2) by auto
qed simp

lemma for_each_cong: "(\<And>x s. x \<in> set xs \<Longrightarrow> f x s = f' x s) \<Longrightarrow> for_each f xs s = for_each f' xs s"
  by (induction xs arbitrary: s) (auto intro: Option.bind_cong)

section \<open>The framebuffer\<close>

definition fb_ok :: "fb \<Rightarrow> bool" where [invs]:
  "fb_ok g \<longleftrightarrow> frontbuffer g \<noteq> 0 \<and> fi_bpp (info g) = 32 \<and> unat (fi_width (info g)) * 4 \<le> unat (fi_pitch (info g))
     \<and> unat (fi_height (info g)) * unat (fi_pitch (info g)) < 2 ^ 32"

definition fb_bytes :: "fb \<Rightarrow> nat set" where
  "fb_bytes g = {frontbuffer g ..< frontbuffer g + unat (fi_height (info g)) * unat (fi_pitch (info g))}"

definition pixel64 :: "fb \<Rightarrow> mem \<Rightarrow> nat \<Rightarrow> nat \<Rightarrow> u8 list" where
  "pixel64 g m x y = region m (frontbuffer g + y * unat (fi_pitch (info g)) + x * 4) 4"

lemma pixel_address_eq:
  assumes "fb_ok g" "y < fi_height (info g)"
  shows "pixel_address g x y = frontbuffer g + unat y * unat (fi_pitch (info g)) + unat x * 4"
proof -
  have "unat y * unat (fi_pitch (info g)) \<le> unat (fi_height (info g)) * unat (fi_pitch (info g))"
    using assms(2) by (intro mult_le_mono1) (simp add: word_less_nat_alt)
  then have "unat y * unat (fi_pitch (info g)) < 2 ^ LENGTH(32)"
    by (rule le_less_trans) (use assms(1) in \<open>simp add: fb_ok_def\<close>)
  then show ?thesis by (simp add: pixel_address_def unat_mult_lem [THEN iffD1])
qed

lemma store_color_region: "region (store_color a c m) a 4 = color_bytes c"
  by (simp add: region4 store_color_def color_bytes_def)

lemma store_color_other: "b + 4 \<le> a \<or> a + 4 \<le> b \<Longrightarrow> region (store_color a c m) b 4 = region m b 4"
  by (auto simp: region4 store_color_def)

lemma put_pixel64:
  assumes "fb_ok g" "x < fi_width (info g)" "y < fi_height (info g)" "i < unat (fi_width (info g))"
  shows "pixel64 g (snd (fb_put_pixel_at g x y c m)) i j = (if i = unat x \<and> j = unat y then color_bytes c else pixel64 g m i j)"
proof -
  let ?p = "frontbuffer g + unat y * unat (fi_pitch (info g)) + unat x * 4"
  have e: "snd (fb_put_pixel_at g x y c m) = store_color ?p c m"
    using assms(1-3) pixel_address_eq [OF assms(1,3)] by (auto simp: fb_put_pixel_at_def fb_ok_def dest: leD)
  show ?thesis
  proof (cases "i = unat x \<and> j = unat y")
    case True
    then show ?thesis by (simp add: e pixel64_def store_color_region)
  next
    case False
    then have "(i, j) \<noteq> (unat x, unat y)" by simp
    have "unat x < unat (fi_width (info g))" "unat (fi_width (info g)) * 4 \<le> unat (fi_pitch (info g))"
      using assms(1,2) by (simp_all add: fb_ok_def word_less_nat_alt)
    from raster_disjoint [OF this(2) assms(4) this(1) \<open>(i, j) \<noteq> _\<close>, of "frontbuffer g"]
    have "pixel64 g (store_color ?p c m) i j = pixel64 g m i j" by (simp add: pixel64_def store_color_other)
    with False show ?thesis by (simp only: e if_False)
  qed
qed

lemma put_pixel64_outside:
  assumes "fb_ok g" "a \<notin> fb_bytes g"
  shows "snd (fb_put_pixel_at g x y c m) a = m a"
proof (cases "x < fi_width (info g) \<and> y < fi_height (info g)")
  case True
  then have "pixel_address g x y = frontbuffer g + unat y * unat (fi_pitch (info g)) + unat x * 4"
    using pixel_address_eq assms(1) by blast
  moreover have "unat y * unat (fi_pitch (info g)) + unat x * 4 + 4 \<le> unat (fi_height (info g)) * unat (fi_pitch (info g))"
    using True assms(1) by (intro raster_inside) (auto simp: fb_ok_def word_less_nat_alt)
  ultimately show ?thesis using assms(2) True by (auto simp: fb_put_pixel_at_def fb_bytes_def store_color_def)
qed (auto simp: fb_put_pixel_at_def not_less)

section \<open>Drawing\<close>

definition paint64 :: "fb \<Rightarrow> renderer \<Rightarrow> u32 \<Rightarrow> (u32 \<times> u32) list \<Rightarrow> mem \<Rightarrow> mem" where
  "paint64 g r c ps m = fold (\<lambda>(x, y). put_clipped g r x y c) ps m"

text \<open>A renderer for the whole framebuffer.\<close>

definition screen_ok :: "fb \<Rightarrow> renderer \<Rightarrow> bool" where [invs]:
  "screen_ok g r \<longleftrightarrow> fb_ok g \<and> screen_w r = fi_width (info g) \<and> screen_h r = fi_height (info g) \<and> 8 \<le> fi_width (info g) \<and> 8 \<le> fi_height (info g)
     \<and> (\<exists>f. rfont r = Some f \<and> fn_width f = 8 \<and> fn_height f = 8 \<and> glyphs f = default_glyph)"

lemma put_clipped_pixel:
  assumes "screen_ok g r" "i < unat (screen_w r)" "j < unat (screen_h r)"
  shows "pixel64 g (put_clipped g r x y c m) i j = (if i = unat x \<and> j = unat y then color_bytes c else pixel64 g m i j)"
proof (cases "x < screen_w r \<and> y < screen_h r")
  case True
  then show ?thesis using put_pixel64 [of g x y i] assms by (auto simp: put_clipped_def screen_ok_def dest: leD)
next
  case False
  then have "\<not> (i = unat x \<and> j = unat y)" using assms(2,3) by (auto simp: word_less_nat_alt)
  with False show ?thesis by (auto simp: put_clipped_def not_less)
qed

lemma paint64_pixel:
  "screen_ok g r \<Longrightarrow> i < unat (screen_w r) \<Longrightarrow> j < unat (screen_h r) \<Longrightarrow>
   pixel64 g (paint64 g r c ps m) i j = (if (of_nat i, of_nat j) \<in> set ps then color_bytes c else pixel64 g m i j)"
proof (induction ps arbitrary: m)
  case (Cons p ps)
  obtain x y where p: "p = (x, y)" by (cases p)
  have b: "i < 2 ^ 32" "j < 2 ^ 32" using Cons.prems(2,3) unat_bound [of "screen_w r"] unat_bound [of "screen_h r"] by simp_all
  have "(of_nat i :: u32) = x \<longleftrightarrow> i = unat x" "(of_nat j :: u32) = y \<longleftrightarrow> j = unat y"
    using b by (auto simp: unat_of_nat_small)
  then show ?case using Cons.IH [OF Cons.prems] put_clipped_pixel [OF Cons.prems] by (auto simp: p paint64_def)
qed (simp add: paint64_def)

lemma put_clipped_outside: "fb_ok g \<Longrightarrow> a \<notin> fb_bytes g \<Longrightarrow> put_clipped g r x y c m a = m a"
  by (simp add: put_clipped_def put_pixel64_outside)

lemma default_pixel:
  assumes "fn_width f = 8" "fn_height f = 8" "glyphs f = default_glyph" "ch < 128" "x < 8" "y < 8"
  shows "font_get_pixel_at (Some f) ch (of_nat x) (of_nat y) = Some (bit (default_glyph ! unat ch ! y) x)"
proof -
  have u: "unat (of_nat x :: u8) = x" "unat (of_nat y :: u8) = y" using assms(5,6) by (simp_all add: unat_of_nat)
  have c: "\<not> 8 \<le> (ucast (of_nat n :: u8) :: u32) \<and> (of_nat n :: u8) < 32" if "n < 8" for n
    using that by (simp add: word_le_nat_alt word_less_nat_alt unsigned_ucast_eq unat_of_nat take_bit_eq_mod)
  have "unat ch < 128" using assms(4) by (simp add: word_less_nat_alt)
  then have "length (default_glyph ! unat ch) = 8" by (simp add: default_glyph_def)
  moreover have "\<not> 128 \<le> ch" using assms(4) by (simp add: not_le)
  ultimately show ?thesis using assms(5,6) by (simp add: assms(1-3) u font_get_pixel_at_def font_get_glyph_def c [OF assms(5)] c [OF assms(6)])
qed

text \<open>The pixels of a glyph at the cursor.\<close>

abbreviation glyph_points :: "u8 list \<Rightarrow> renderer \<Rightarrow> (u32 \<times> u32) list" where
  "glyph_points gl r \<equiv> points (\<lambda>x. cur_x r + of_nat x) (\<lambda>y. cur_y r + of_nat y) (\<lambda>y x. bit (gl ! y) x) [0..<8] [0..<8]"

lemma fold_points:
  "fold (\<lambda>y. fold (\<lambda>x m. if P y x then put_clipped g r (h x) (k y) c m else m) xs) ys m
   = paint64 g r c (points h k P xs ys) m"
  unfolding points_def
proof (induction ys arbitrary: m)
  case (Cons y ys)
  have "fold (\<lambda>x m. if P y x then put_clipped g r (h x) (k y) c m else m) xs m = paint64 g r c (map (\<lambda>x. (h x, k y)) (filter (P y) xs)) m" for m
    by (induction xs arbitrary: m) (simp_all add: paint64_def)
  then show ?case using Cons.IH by (simp add: paint64_def)
qed (simp add: paint64_def)

lemma draw_cell_default:
  assumes "fn_width f = 8" "fn_height f = 8" "glyphs f = default_glyph" "ch < 128" "bg_transparent r"
  shows "draw_cell g f ch r m = Some (paint64 g r (fg r) (glyph_points (default_glyph ! unat ch) r) m)"
proof -
  have w: "[0..<unat (8 :: u32)] = [0..<8]" by simp
  have "draw_cell g f ch r m = Some (fold (\<lambda>y. fold (\<lambda>x m. if bit (default_glyph ! unat ch ! y) x
      then put_clipped g r (cur_x r + of_nat x) (cur_y r + of_nat y) (fg r) m else m) [0..<8]) [0..<8] m)"
    unfolding draw_cell_def assms(1,2) w
  proof (rule for_each_total, rule for_each_total)
    fix x y m assume "y \<in> set [0..<8]" "x \<in> set [0..<8]"
    then have "font_get_pixel_at (Some f) ch (of_nat x) (of_nat y) = Some (bit (default_glyph ! unat ch ! y) x)"
      using default_pixel [OF assms(1-4)] by simp
    then show "do {
       on \<leftarrow> font_get_pixel_at (Some f) ch (of_nat x) (of_nat y);
       Some (if on then put_clipped g r (cur_x r + of_nat x) (cur_y r + of_nat y) (fg r) m
         else if \<not> bg_transparent r then put_clipped g r (cur_x r + of_nat x) (cur_y r + of_nat y) (bg r) m
         else m) } = Some (if bit (default_glyph ! unat ch ! y) x
      then put_clipped g r (cur_x r + of_nat x) (cur_y r + of_nat y) (fg r) m else m)"
      using assms(5) by simp
  qed
  then show ?thesis by (simp only: fold_points)
qed

definition cell_fits :: "renderer \<Rightarrow> bool" where
  "cell_fits r \<longleftrightarrow> unat (cur_x r) + 8 \<le> unat (screen_w r) \<and> unat (cur_y r) + 8 \<le> unat (screen_h r)"

lemma fits_unat:
  assumes "cell_fits r"
  shows "unat (cur_x r + 8) = unat (cur_x r) + 8" "unat (cur_y r + 8) = unat (cur_y r) + 8"
  using assms unat_bound [of "screen_w r"] unat_bound [of "screen_h r"] by (simp_all add: cell_fits_def unat_word_ariths)

text \<open>Inside the screen a character is its glyph at the cursor, and the cursor moves on.\<close>

lemma draw_ch_cell:
  assumes "screen_ok g r" "bg_transparent r" "32 \<le> ch" "ch < 128" "cell_fits r"
  shows "renderer_draw_ch g ch (r, m)
    = Some (r\<lparr>cur_x := cur_x r + 8\<rparr>, paint64 g r (fg r) (glyph_points (default_glyph ! unat ch) r) m)"
proof -
  obtain f where f: "rfont r = Some f" "fn_width f = 8" "fn_height f = 8" "glyphs f = default_glyph"
    using assms(1) by (auto simp: screen_ok_def)
  have n: "\<not> cur_x r + 8 > screen_w r" "\<not> cur_y r + 8 > screen_h r" "\<not> ch < 32" "\<not> 128 \<le> ch"
    using fits_unat [OF assms(5)] assms(3-5) by (simp_all add: word_less_nat_alt word_le_nat_alt cell_fits_def)
  show ?thesis using draw_cell_default [OF f(2-4) assms(4,2)]
    by (simp add: renderer_draw_ch_def f n renderer_set_cursor_def del: upt_Suc)
qed

theorem character_drawn:
  assumes "screen_ok g r" "bg_transparent r" "32 \<le> ch" "ch < 128" "cell_fits r"
  shows "\<exists>m'. renderer_draw_ch g ch (r, m) = Some (r\<lparr>cur_x := cur_x r + 8\<rparr>, m') \<and>
    (\<forall>i < unat (screen_w r). \<forall>j < unat (screen_h r). pixel64 g m' i j =
      (if in_cell (cur_x r) (cur_y r) i j \<and> bit (default_glyph ! unat ch ! (j - unat (cur_y r))) (i - unat (cur_x r))
       then color_bytes (fg r) else pixel64 g m i j))"
proof -
  have b: "unat (cur_x r) + 8 < 2 ^ 32" "unat (cur_y r) + 8 < 2 ^ 32"
    using assms(5) unat_bound [of "screen_w r"] unat_bound [of "screen_h r"] by (simp_all add: cell_fits_def)
  have s: "i < 2 ^ 32" if "i < unat (w :: u32)" for i w using that unat_bound [of w] by simp
  show ?thesis
    using cell_points [OF b s s] by (simp add: draw_ch_cell [OF assms] paint64_pixel [OF assms(1)])
qed

section \<open>Backspace\<close>

lemma blank_glyph: "length (default_glyph ! 32) = 8" "list_all (\<lambda>w. w = 0) (default_glyph ! 32)"
  by (simp_all add: default_glyph_def ascii_bitmap_def)

text \<open>The blank that is to erase the character draws no pixel on a transparent background and moves the cursor on again: the key
  leaves everything as it was.\<close>

theorem backspace_undoes_itself:
  assumes "screen_ok g (tty_renderer t)" "bg_transparent (tty_renderer t)" "8 \<le> cur_x (tty_renderer t)"
    "cur_x (tty_renderer t) \<le> screen_w (tty_renderer t)" "unat (cur_y (tty_renderer t)) + 8 \<le> unat (screen_h (tty_renderer t))"
  shows "tty_putc g 0x08 (t, m) = Some (t, m)"
proof -
  let ?r = "tty_renderer t" let ?r1 = "?r\<lparr>cur_x := cur_x ?r - 8\<rparr>"
  obtain f where f: "rfont ?r = Some f" "fn_width f = 8" "fn_height f = 8" using assms(1) by (auto simp: screen_ok_def)
  have "screen_ok g ?r1" "cell_fits ?r1" "bg_transparent ?r1"
    using assms unat_minus8 [of "cur_x ?r"] by (simp_all add: screen_ok_def cell_fits_def word_le_nat_alt)
  then have "renderer_draw_ch g 0x20 (?r1, m)
      = Some (?r1\<lparr>cur_x := cur_x ?r1 + 8\<rparr>, paint64 g ?r1 (fg ?r1) (glyph_points (default_glyph ! unat (0x20 :: u8)) ?r1) m)"
    by (intro draw_ch_cell) simp_all
  moreover have "bit (default_glyph ! unat (0x20 :: u8) ! y) x = False" if "y < 8" for x y
    using that blank_glyph by (simp add: list_all_length)
  then have "glyph_points (default_glyph ! unat (0x20 :: u8)) ?r1 = []" by (auto simp: points_def filter_empty_conv)
  ultimately have "renderer_draw_ch g 0x20 (?r1, m) = Some (?r, m)" by (simp add: paint64_def)
  then show ?thesis using assms(3) f by (simp add: tty_putc_def tty_backspace_def renderer_set_cursor_def)
qed

section \<open>Output stays inside the framebuffer\<close>

definition same_outside :: "fb \<Rightarrow> mem \<Rightarrow> mem \<Rightarrow> bool" where
  "same_outside g m m' \<longleftrightarrow> (\<forall>a. a \<notin> fb_bytes g \<longrightarrow> m' a = m a)"

lemma unwritten_refl [simp]: "same_outside g m m"
  by (simp add: same_outside_def)

lemma unwritten_trans: "same_outside g m m1 \<Longrightarrow> same_outside g m1 m2 \<Longrightarrow> same_outside g m m2"
  by (simp add: same_outside_def)

lemma fold_outside: "(\<And>x m. same_outside g m (f x m)) \<Longrightarrow> same_outside g m (fold f xs m)"
  by (induction xs arbitrary: m) (auto intro: unwritten_trans)

lemma put_outside: "fb_ok g \<Longrightarrow> same_outside g m (snd (fb_put_pixel_at g x y c m))" "fb_ok g \<Longrightarrow> same_outside g m (put_clipped g r x y c m)"
  by (simp_all add: same_outside_def put_pixel64_outside put_clipped_outside)

lemma fb_scroll_outside:
  assumes "fb_ok g" "8 \<le> fi_width (info g)" "8 \<le> fi_height (info g)"
  shows "same_outside g m (fb_scroll g c 8 m)"
proof -
  let ?p = "unat (fi_pitch (info g))" let ?h = "unat (fi_height (info g))"
  let ?m1 = "memmove (frontbuffer g) (frontbuffer g + unat (8 * fi_pitch (info g))) (unat ((fi_height (info g) - 8) * fi_pitch (info g))) m"
  have h: "8 \<le> ?h" "0 < ?p" "?h * ?p < 2 ^ LENGTH(32)" using assms by (simp_all add: fb_ok_def word_le_nat_alt)
  have "8 * ?p \<le> ?h * ?p" using h(1) by (rule mult_le_mono1)
  also note h(3)
  finally have s: "unat (8 * fi_pitch (info g)) = 8 * ?p" using unat_mult_lem [THEN iffD1, of 8 "fi_pitch (info g)"] by simp
  have "unat (fi_height (info g) - 8) = ?h - 8" using h(1) by (rule unat_minus8)
  moreover have "(?h - 8) * ?p < 2 ^ LENGTH(32)" by (rule le_less_trans [OF _ h(3)]) simp
  ultimately have n: "unat ((fi_height (info g) - 8) * fi_pitch (info g)) = (?h - 8) * ?p"
    using h(3) unat_mult_lem [THEN iffD1, of "fi_height (info g) - 8" "fi_pitch (info g)"] by simp
  have "same_outside g m ?m1"
    unfolding same_outside_def fb_bytes_def s n using h(2)
    by (auto simp: memmove_up dest: less_le_trans [OF _ add_left_mono [OF mult_le_mono1 [OF diff_le_self]]])
  then show ?thesis
    unfolding fb_scroll_def Let_def by (rule unwritten_trans) (intro fold_outside put_outside assms(1))
qed

lemma draw_cell_inside:
  assumes "screen_ok g r" "rfont r = Some f" "ch < 128"
  shows "\<exists>m'. draw_cell g f ch r m = Some m' \<and> same_outside g m m'"
proof -
  have f: "fn_width f = 8" "fn_height f = 8" "glyphs f = default_glyph" and g: "fb_ok g" using assms(1,2) by (auto simp: screen_ok_def)
  show ?thesis unfolding draw_cell_def
  proof (rule for_each_keeps [where P = "same_outside g m"], simp, rule for_each_keeps [where P = "same_outside g m"], simp)
    fix x y m1 assume "y \<in> set [0..<unat (fn_height f)]" "x \<in> set [0..<unat (fn_width f)]" "same_outside g m m1"
    then show "\<exists>s'. do {
       on \<leftarrow> font_get_pixel_at (Some f) ch (of_nat x) (of_nat y);
       Some (if on then put_clipped g r (cur_x r + of_nat x) (cur_y r + of_nat y) (fg r) m1
         else if \<not> bg_transparent r then put_clipped g r (cur_x r + of_nat x) (cur_y r + of_nat y) (bg r) m1
         else m1) } = Some s' \<and> same_outside g m s'"
      using default_pixel [OF f assms(3)] put_outside(2) [OF g] by (auto simp: f intro: unwritten_trans)
  qed
qed

text \<open>A step of the output: it has a result, keeps the renderer on the same screen and writes inside the framebuffer only.\<close>

definition draws :: "fb \<Rightarrow> mem \<Rightarrow> (renderer \<times> mem) option \<Rightarrow> bool" where
  "draws g m res \<longleftrightarrow> (\<exists>r' m'. res = Some (r', m') \<and> screen_ok g r' \<and> same_outside g m m')"

lemma rfont_cursor [simp]: "rfont (renderer_set_cursor x y r) = rfont r"
  by (simp add: renderer_set_cursor_def)

lemma screen_ok_cursor [simp]:
  "screen_ok g (renderer_set_cursor x y r) = screen_ok g r" "screen_ok g (r\<lparr>cur_x := x\<rparr>) = screen_ok g r" "screen_ok g (r\<lparr>cur_y := y\<rparr>) = screen_ok g r"
  by (simp_all add: screen_ok_def renderer_set_cursor_def)

lemma renderer_scroll_draws:
  assumes "screen_ok g r" "rfont r = Some f"
  shows "draws g m (Some (renderer_scroll g f (r, m)))"
  using assms fb_scroll_outside [of g m "bg r"] by (auto simp: draws_def renderer_scroll_def screen_ok_def Let_def)

lemma draw_ch_draws:
  assumes "screen_ok g r"
  shows "draws g m (renderer_draw_ch g ch (r, m))"
proof (cases "ch < 32 \<or> ch \<ge> 128")
  case True
  then show ?thesis using assms by (auto simp: renderer_draw_ch_def draws_def)
next
  case False
  obtain f where f: "rfont r = Some f" using assms by (auto simp: screen_ok_def)
  let ?r1 = "if cur_x r + fn_width f > screen_w r then renderer_set_cursor 0 (cur_y r + fn_width f) r else r"
  let ?s2 = "if cur_y ?r1 + fn_height f > screen_h ?r1 then renderer_scroll g f (?r1, m) else (?r1, m)"
  have r1: "screen_ok g ?r1" "rfont ?r1 = Some f" using assms f by (simp_all add: renderer_set_cursor_def)
  obtain r2 m2 where s2: "?s2 = (r2, m2)" by (cases ?s2)
  have "draws g m (Some ?s2)" using r1 renderer_scroll_draws [OF r1] by (auto simp: draws_def)
  then have r2: "screen_ok g r2" "same_outside g m m2" by (simp_all only: s2 draws_def) auto
  have "rfont r2 = Some f" using s2 r1(2) by (auto simp: renderer_scroll_def Let_def split: if_splits)
  from draw_cell_inside [OF r2(1) this] False obtain m3 where m3: "draw_cell g f ch r2 m2 = Some m3" "same_outside g m2 m3"
    by (auto simp: not_le)
  have "renderer_draw_ch g ch (r, m) = Some (renderer_set_cursor (cur_x r2 + fn_width f) (cur_y r2) r2, m3)"
    using False s2 m3(1) f by (simp add: renderer_draw_ch_def Let_def)
  then show ?thesis using r2 m3(2) by (auto simp: draws_def intro: unwritten_trans)
qed

lemma putc_draws:
  assumes "screen_ok g (tty_renderer t)" "tab_width t \<noteq> 0"
  shows "\<exists>t' m'. tty_putc g ch (t, m) = Some (t', m') \<and> screen_ok g (tty_renderer t') \<and> tab_width t' = tab_width t \<and> same_outside g m m'"
proof -
  let ?r = "tty_renderer t"
  obtain f where f: "rfont ?r = Some f" "fn_width f = 8" using assms(1) by (auto simp: screen_ok_def)
  have "draws g m (map_option (\<lambda>r. (r, m)) (tty_tab (tab_width t) ?r))"
    using assms f by (simp add: tty_tab_def draws_def Let_def)
  moreover have "draws g m (tty_newline g (?r, m))"
    using assms(1) f renderer_scroll_draws [of g "renderer_set_cursor 0 (cur_y ?r + fn_height f) ?r" f m]
    by (simp add: tty_newline_def Let_def draws_def)
  moreover have "draws g m (Some (tty_carriage_return ?r, m))"
    using assms(1) by (simp add: draws_def tty_carriage_return_def)
  moreover have "draws g m (tty_backspace g (?r, m))"
    using assms(1) f by (simp add: tty_backspace_def Let_def draw_ch_draws)
  moreover note draw_ch_draws [OF assms(1), of m ch]
  ultimately show ?thesis by (auto simp: tty_putc_def draws_def)
qed

lemma puts_draws:
  assumes "screen_ok g (tty_renderer t)" "tab_width t \<noteq> 0"
  shows "\<exists>t' m'. tty_puts g str (t, m) = Some (t', m') \<and> screen_ok g (tty_renderer t') \<and> tab_width t' \<noteq> 0 \<and> same_outside g m m'"
proof -
  let ?P = "\<lambda>(t', m'). screen_ok g (tty_renderer t') \<and> tab_width t' \<noteq> 0 \<and> same_outside g m m'"
  have "\<exists>s'. for_each (tty_putc g) (takeWhile (\<lambda>ch. ch \<noteq> 0) str) (t, m) = Some s' \<and> ?P s'"
  proof (rule for_each_keeps)
    show "?P (t, m)" using assms by simp
    fix ch and s :: "tty \<times> mem" assume "?P s"
    moreover obtain t1 m1 where "s = (t1, m1)" by (cases s)
    ultimately show "\<exists>s'. tty_putc g ch s = Some s' \<and> ?P s'"
      using putc_draws [of g t1 ch m1] by (fastforce intro: unwritten_trans)
  qed
  then show ?thesis by (auto simp: tty_puts_def)
qed

text \<open>C36: whatever text is written and wherever the cursor stands, the terminal of the 64-bit port has a result and changes no byte
  outside the framebuffer.\<close>

theorem tty_stays_inside:
  assumes "screen_ok g (tty_renderer t)" "tab_width t \<noteq> 0"
  shows "\<exists>t' m'. tty_puts g str (t, m) = Some (t', m') \<and> screen_ok g (tty_renderer t') \<and> (\<forall>a. a \<notin> fb_bytes g \<longrightarrow> m' a = m a)"
  using puts_draws [OF assms, of str m] by (auto simp: same_outside_def)

definition fb0 :: fb where
  "fb0 = \<lparr>frontbuffer = 0x1000, backbuffer64 = 0, info = \<lparr>fi_vaddr = 0x1000, fi_width = 80, fi_height = 64, fi_pitch = 320, fi_bpp = 32,
     r_shift = 16, g_shift = 8, b_shift = 0, a_shift = 0, r_size = 8, g_size = 8, b_size = 8, a_size = 0\<rparr>\<rparr>"

definition tty0 :: tty where
  "tty0 = \<lparr>tty_renderer = \<lparr>rfont = Some (font_setup 8 8 default_glyph zero_font), screen_w = 80, screen_h = 64, cur_x = 76, cur_y = 60,
     fg = 0xAC00, bg = 0, bg_transparent = True\<rparr>, tab_width = 8\<rparr>"

text \<open>A tab, a letter, a line feed and a backspace in the last corner of a small screen.\<close>

lemma tty_stays_inside_witness:
  "\<exists>t' m'. tty_puts fb0 [0x09, 0x41, 0x0A, 0x08, 0] (tty0, \<lambda>_. 7) = Some (t', m') \<and> m' 0xFFF = 7 \<and> m' 0x6000 = 7"
proof -
  have "screen_ok fb0 (tty_renderer tty0)" "tab_width tty0 \<noteq> 0"
    by (simp_all add: screen_ok_def fb_ok_def fb0_def tty0_def font_setup_def)
  from tty_stays_inside [OF this, of "[0x09, 0x41, 0x0A, 0x08, 0]" "\<lambda>_. 7"]
  obtain t' m' where "tty_puts fb0 [0x09, 0x41, 0x0A, 0x08, 0] (tty0, \<lambda>_. 7) = Some (t', m')" "\<forall>a. a \<notin> fb_bytes fb0 \<longrightarrow> m' a = 7"
    by blast
  then show ?thesis by (simp add: fb_bytes_def fb0_def)
qed

text \<open>The kernel of the port greets on every framebuffer of 32 bits per pixel whose size fits its fields.\<close>

lemma kmain64_greets:
  assumes "lbpp l = 32" "address l \<noteq> 0" "red_mask_shift l < 32" "green_mask_shift l < 32" "blue_mask_shift l < 32"
    "8 \<le> (ucast (lwidth l) :: u32)" "8 \<le> (ucast (lheight l) :: u32)" "unat (ucast (lwidth l) :: u32) * 4 \<le> unat (ucast (lpitch l) :: u32)"
    "unat (ucast (lheight l) :: u32) * unat (ucast (lpitch l) :: u32) < 2 ^ 32"
  shows "\<exists>g t m'. kmain64 n True (Some (l # ls)) g0 m = Some (Ready g (t, m')) \<and> frontbuffer g = address l \<and> same_outside g m m'"
proof -
  obtain g where g: "init_limine (Some (l # ls)) g0 = (kres_ok None, g)" "frontbuffer g = address l"
      "info g = \<lparr>fi_vaddr = address l, fi_width = ucast (lwidth l), fi_height = ucast (lheight l),
          fi_pitch = ucast (lpitch l), fi_bpp = ucast (lbpp l), r_shift = red_mask_shift l, g_shift = green_mask_shift l,
          b_shift = blue_mask_shift l, a_shift = 0, r_size = red_mask_size l, g_size = green_mask_size l,
          b_size = blue_mask_size l, a_size = 0\<rparr>"
    using assms(1) by (simp add: init_limine_def fb_setup_def)
  let ?rd = "renderer_setup (Some (font_setup 8 8 default_glyph zero_font)) (fi_width (info g)) (fi_height (info g)) True zero_renderer"
  obtain rd1 rd2 where rd: "renderer_set_fg_rgba (info g) 0x00 0xAC 0x00 0xFF ?rd = Some rd1" "renderer_set_bg_rgba (info g) 0 0 0 0 rd1 = Some rd2"
    "screen_ok g rd2"
    using assms g(2,3) by (simp add: renderer_set_fg_rgba_def renderer_set_bg_rgba_def fb_pack_rgba_def shift_left_def renderer_setup_def
      screen_ok_def fb_ok_def font_setup_def)
  let ?t0 = "tty_init rd2 \<lparr>tty_renderer = zero_renderer, tab_width = 0\<rparr>"
  let ?P = "\<lambda>(t', m'). screen_ok g (tty_renderer t') \<and> tab_width t' \<noteq> 0 \<and> same_outside g m m'"
  have "\<exists>s'. for_each (\<lambda>_. tty_puts g greeting64) [0..<n] (?t0, m) = Some s' \<and> ?P s'"
  proof (rule for_each_keeps)
    show "?P (?t0, m)" using rd(3) by (simp add: tty_init_def)
    fix i and s :: "tty \<times> mem" assume "?P s"
    moreover obtain t1 m1 where "s = (t1, m1)" by (cases s)
    ultimately show "\<exists>s'. tty_puts g greeting64 s = Some s' \<and> ?P s'"
      using puts_draws [of g t1 greeting64 m1] by (fastforce intro: unwritten_trans)
  qed
  then show ?thesis using g(1,2) rd by (auto simp: kmain64_def Let_def kres_ok_def)
qed

section \<open>Text without control characters\<close>

text \<open>For such a text the terminal does what the renderer does on its own.\<close>

lemma draw_ch_skips: "\<not> (32 \<le> u \<and> u < 128) \<Longrightarrow> renderer_draw_ch g u s = Some s"
  by (cases s) (auto simp: renderer_draw_ch_def not_le not_less)

theorem puts_is_draw_text:
  assumes "{0x08, 0x09, 0x0A, 0x0D} \<inter> set cs = {}"
  shows "tty_puts g cs (t, m) = map_option (\<lambda>(r, m'). (t\<lparr>tty_renderer := r\<rparr>, m')) (renderer_draw_text g cs (tty_renderer t, m))"
  using assms
proof (induction cs arbitrary: t m)
  case (Cons u cs)
  have "tty_putc g u (t, m) = map_option (\<lambda>(r, m'). (t\<lparr>tty_renderer := r\<rparr>, m'))
      (if u \<ge> 32 \<and> u < 128 then renderer_draw_ch g u (tty_renderer t, m) else Some (tty_renderer t, m))"
    using Cons.prems by (auto simp: tty_putc_def draw_ch_skips map_conv_bind_option o_def split_def)
  then show ?case using Cons by (auto simp: tty_puts_def map_conv_bind_option o_def split_beta split: bind_splits)
qed (simp add: tty_puts_def)

end
