(* ===== verification/Dtoa.thy ===== *)
theory Dtoa
  imports Stdlib "HOL-Library.Log_Nat"
begin

text \<open>
  \<open>dtoa\<close> of \<open>lib/stdlib.c\<close> and \<open>pow\<close> of \<open>lib/math.c\<close>. A finite floating-point number is its value, a rational; \<open>rnd\<close> rounds
  the exact result of an operation to the format of the processor. \<open>round_to p\<close> is the rounding to nearest, ties to even, to \<open>p\<close> bits:
  53 for doubles and 64 for the registers of the x87. Exponents are not bounded: the values of \<open>dtoa\<close> are far from both limits.
\<close>

section \<open>The code\<close>

text \<open>The conversion to \<open>int32_t\<close> cuts off the fraction; outside the range it is undefined.\<close>

definition to_int32 :: "rat \<Rightarrow> int option" where
  "to_int32 x = (let i = (if x < 0 then \<lceil>x\<rceil> else \<lfloor>x\<rfloor>) in if - (2 ^ 31) \<le> i \<and> i < 2 ^ 31 then Some i else None)"

text \<open>The loop that makes room for the sign, from the terminator down to the first character.\<close>

primrec shift_right :: "nat \<Rightarrow> nat \<Rightarrow> mem \<Rightarrow> mem" where
  "shift_right res 0 m = m(res + 1 := m res)"
| "shift_right res (Suc j) m = shift_right res j (m(res + Suc j + 1 := m (res + Suc j)))"

definition dtoa :: "(rat \<Rightarrow> rat) \<Rightarrow> rat \<Rightarrow> nat \<Rightarrow> int \<Rightarrow> mem \<Rightarrow> mem option" where
  "dtoa rnd n res afterpoint m = (let is_negative = n < 0; n' = (if n < 0 then - n else n) in do {
     ipart \<leftarrow> to_int32 n';
     let fpart = rnd (n' - of_int ipart);
     m1 \<leftarrow> itoa ipart res 10 m;
     i \<leftarrow> slen m1 res;
     let (i', m2) = (if is_negative then (i + 1, (shift_right res i m1)(res := 0x2D)) else (i, m1));
     if afterpoint \<noteq> 0 then do {
       let scaled = ((\<lambda>f. rnd (f * 10)) ^^ nat afterpoint) fpart;
       k \<leftarrow> to_int32 (rnd (scaled + 1 / 2));
       itoa k (res + i' + 1) 10 (m2(res + i' := 0x2E)) }
     else Some (m2(res + i' := 0)) })"

text \<open>The counter of \<open>pow\<close> is an \<open>int\<close>, compared with the exponent as a floating-point number: it overflows for exponents above its
  largest value.\<close>

definition cpow :: "(rat \<Rightarrow> rat) \<Rightarrow> rat \<Rightarrow> rat \<Rightarrow> rat option" where
  "cpow rnd x y = (if y > 2 ^ 31 - 1 then None else Some (((\<lambda>result. rnd (result * x)) ^^ nat \<lceil>y\<rceil>) 1))"

section \<open>Rounding\<close>

definition round_even :: "rat \<Rightarrow> int" where
  "round_even y = (let f = \<lfloor>y\<rfloor>; d = y - of_int f in if d < 1 / 2 \<or> d = 1 / 2 \<and> even f then f else f + 1)"

lemma round_even_near: "\<bar>of_int (round_even y) - y\<bar> \<le> 1 / 2"
  using floor_correct [of y] by (auto simp: round_even_def Let_def abs_le_iff)

text \<open>The power of two below a number.\<close>

definition binade :: "rat \<Rightarrow> int" where
  "binade x = (let (a, d) = quotient_of \<bar>x\<bar>; e = int (floorlog 2 (nat a)) - int (floorlog 2 (nat d)) - 1
     in if 2 powi (e + 1) \<le> \<bar>x\<bar> then e + 1 else e)"

definition round_to :: "nat \<Rightarrow> rat \<Rightarrow> rat" where
  "round_to p x = (if x = 0 then 0 else let e = binade x + 1 - int p in of_int (round_even (x / 2 powi e)) * 2 powi e)"

lemma binade_le:
  assumes "x \<noteq> 0"
  shows "2 powi binade x \<le> \<bar>x\<bar>"
proof -
  obtain a d where q: "quotient_of \<bar>x\<bar> = (a, d)" by fastforce
  then have x: "\<bar>x\<bar> = of_int a / of_int d" "0 < d" using quotient_of_div quotient_of_denom_pos by blast+
  have "0 < \<bar>x\<bar>" using assms by simp
  then have a: "0 < a" using x by (simp add: zero_less_divide_iff)
  define la ld where "la = floorlog 2 (nat a)" and "ld = floorlog 2 (nat d)"
  have l: "2 ^ (la - 1) \<le> nat a" "nat d < 2 ^ ld" "0 < la"
    using floorlog_bounds [of "nat a" 2] floorlog_bounds [of "nat d" 2] a x(2) by (auto simp: la_def ld_def floorlog_def)
  have n: "(2 :: rat) ^ (la - 1) \<le> of_int a" "(of_int d :: rat) \<le> 2 ^ ld"
  proof -
    have "int (2 ^ (la - 1)) \<le> a" "d \<le> int (2 ^ ld)" using l(1,2) a x(2) by linarith+
    then have "2 ^ (la - 1) \<le> a" "d \<le> 2 ^ ld" by simp_all
    then show "(2 :: rat) ^ (la - 1) \<le> of_int a" "(of_int d :: rat) \<le> 2 ^ ld"
      by (metis of_int_le_iff of_int_numeral of_int_power)+
  qed
  have "int la - int ld - 1 = int (la - 1) - int ld" using l(3) by simp
  moreover have "(2 :: rat) powi (int (la - 1) - int ld) = 2 powi int (la - 1) / 2 powi int ld" by (rule power_int_diff) simp
  ultimately have "(2 :: rat) powi (int la - int ld - 1) = 2 ^ (la - 1) / 2 ^ ld" by (simp only: power_int_of_nat)
  also have "\<dots> \<le> of_int a / of_int d" using n a x(2) by (intro frac_le) auto
  finally have "(2 :: rat) powi (int la - int ld - 1) \<le> \<bar>x\<bar>" by (simp add: x(1))
  then show ?thesis by (simp add: binade_def q la_def ld_def Let_def)
qed

lemma round_to_accurate:
  assumes "0 < p"
  shows "\<bar>round_to p x - x\<bar> \<le> \<bar>x\<bar> / 2 ^ p"
proof (cases "x = 0")
  case False
  define e where "e = binade x + 1 - int p"
  have u: "(0 :: rat) < 2 powi e" by simp
  have "2 powi binade x = (2 :: rat) powi e * 2 ^ (p - 1)"
    using assms by (simp add: e_def power_int_add [symmetric] flip: power_int_of_nat)
  with binade_le [OF False] have b: "(2 :: rat) powi e * 2 ^ (p - 1) \<le> \<bar>x\<bar>" by simp
  define y where "y = x / 2 powi e"
  have y: "x = y * 2 powi e" "round_to p x = of_int (round_even y) * 2 powi e" using u False by (simp_all add: y_def round_to_def e_def Let_def)
  have "round_to p x - x = (of_int (round_even y) - y) * 2 powi e" by (simp only: y(2) left_diff_distrib y(1) [symmetric])
  then have "\<bar>round_to p x - x\<bar> = \<bar>of_int (round_even y) - y\<bar> * 2 powi e" using u by (simp add: abs_mult)
  also have "\<dots> \<le> 1 / 2 * 2 powi e" using round_even_near [of y] u by (intro mult_right_mono) auto
  also have "\<dots> = 2 powi e * 2 ^ (p - 1) / 2 ^ p" using assms by (cases p) simp_all
  also have "\<dots> \<le> \<bar>x\<bar> / 2 ^ p" using b by (intro divide_right_mono) auto
  finally show ?thesis .
qed (simp add: round_to_def)

section \<open>The loops\<close>

lemma shift_right_at: "shift_right res j m x = (if res < x \<and> x \<le> res + j + 1 then m (x - 1) else m x)"
  by (induction j arbitrary: m) auto

lemma shift_right_cstr:
  assumes "cstr m res cs"
  shows "cstr ((shift_right res (length cs) m)(res := c)) (res + 1) cs"
  using assms by (auto simp: cstr_def shift_right_at)

lemma cstr_join:
  "(\<forall>j < length xs. m (s + j) = xs ! j) \<Longrightarrow> 0 \<notin> set xs \<Longrightarrow> cstr m (s + length xs) ys \<Longrightarrow> cstr m s (xs @ ys)"
  by (auto simp: cstr_def nth_append add.assoc) (metis le_add_diff_inverse nat_add_left_cancel_less not_less)

lemma itoa_nonneg:
  assumes "v < 2 ^ 31"
  shows "\<exists>m'. itoa (int v) str 10 m = Some m' \<and> cstr m' str (numeral_bytes 10 v) \<and> (\<forall>x < str. m' x = m x)"
proof (cases "v = 0")
  case True
  then show ?thesis by (simp add: itoa_def numeral_bytes_def)
next
  case False
  let ?ds = "digits 10 v"
  obtain m1 where m1: "digits_loop str 10 0 v m = Some (length ?ds, m1)"
      "\<forall>x. m1 x = (if str + 0 \<le> x \<and> x < str + 0 + length ?ds then digit_char (?ds ! (x - (str + 0))) else m x)"
    using digits_loop_at [of 10 str 0 v m] by auto
  have z: "0 \<notin> set (map digit_char ?ds)" using digits_bound [of 10] digit_char_nonzero by fastforce
  have l: "0 < length ?ds" "length ?ds < 2 ^ 32" using digits_nonempty [of v 10] digits_length [of 10 v 31] assms False by auto
  note r = reverse_string_cstr [OF digits_region [OF m1(2)] z l]
  have "v mod 4294967296 = v" using assms by simp
  then have "itoa (int v) str 10 m = Some (reverse_string str (length ?ds) (m1(str + length ?ds := 0)))"
    using m1(1) False by (simp add: itoa_def zmod_int flip: of_nat_mod)
  moreover have "numeral_bytes 10 v = rev (map digit_char ?ds)" using False by (simp add: numeral_bytes_def rev_map)
  moreover have "m1 x = m x" if "x < str" for x using that m1(2) by simp
  ultimately show ?thesis using r by simp
qed

section \<open>What is printed\<close>

text \<open>The error of the rounded scaling, for a relative error \<open>u\<close> of an operation.\<close>

locale float_arith =
  fixes rnd :: "rat \<Rightarrow> rat"
  assumes accurate: "\<bar>rnd x - x\<bar> \<le> \<bar>x\<bar> / 2 ^ 52"
begin

lemma scaled_near:
  assumes "0 \<le> f" "f < 1" "j \<le> 6"
  shows "\<bar>((\<lambda>f. rnd (f * 10)) ^^ j) (rnd f) - f * 10 ^ j\<bar> \<le> 10 ^ j * (of_nat j + 1) / 2 ^ 50"
  using assms(3)
proof (induction j)
  case 0
  then show ?case using accurate [of f] assms(1,2) by simp
next
  case (Suc j)
  define g where "g = ((\<lambda>f. rnd (f * 10)) ^^ j) (rnd f)"
  define t where "t = (10 :: rat) ^ j"
  have t: "0 < t" "(of_nat j :: rat) \<le> 5" using Suc.prems by (simp_all add: t_def)
  have ih: "\<bar>g - f * t\<bar> \<le> t * (of_nat j + 1) / 2 ^ 50" using Suc by (simp add: g_def t_def)
  have "t * (of_nat j + 1) / 2 ^ 50 \<le> t" using t mult_left_mono [of "of_nat j + 1" 6 t] by simp
  moreover have "0 \<le> f * t" "f * t \<le> t" using assms(1,2) t(1) mult_right_mono [of f 1 t] by simp_all
  ultimately have "\<bar>g\<bar> \<le> t * 2" using ih by linarith
  then have r: "\<bar>rnd (g * 10) - g * 10\<bar> \<le> t * 20 / 2 ^ 52"
    using accurate [of "g * 10"] by (simp add: abs_mult)
  have "rnd (g * 10) - 10 * (f * t) = (rnd (g * 10) - g * 10) + 10 * (g - f * t)" by (simp add: right_diff_distrib)
  then have "\<bar>rnd (g * 10) - 10 * (f * t)\<bar> \<le> \<bar>rnd (g * 10) - g * 10\<bar> + \<bar>10 * (g - f * t)\<bar>" by (simp only: abs_triangle_ineq)
  then have "\<bar>rnd (g * 10) - 10 * (f * t)\<bar> \<le> \<bar>rnd (g * 10) - g * 10\<bar> + 10 * \<bar>g - f * t\<bar>" by (simp only: abs_mult)
  also have "\<dots> \<le> t * 20 / 2 ^ 52 + 10 * (t * (of_nat j + 1) / 2 ^ 50)" by (intro add_mono mult_left_mono r ih) simp
  also have "\<dots> \<le> 10 * t * (of_nat (Suc j) + 1) / 2 ^ 50" using t(1) by (simp add: field_simps)
  finally show ?case by (simp add: g_def t_def mult.left_commute)
qed

lemma millionths:
  assumes "0 \<le> f" "f < 1" "\<bar>f - of_nat k / 10 ^ 6\<bar> < 4 / 10 ^ 7"
  shows "to_int32 (rnd (((\<lambda>f. rnd (f * 10)) ^^ 6) (rnd f) + 1 / 2)) = Some (int k)"
proof -
  define g where "g = ((\<lambda>f. rnd (f * 10)) ^^ 6) (rnd f)"
  have g: "\<bar>g - f * 10 ^ 6\<bar> \<le> 10 ^ 6 * 7 / 2 ^ 50" using scaled_near [OF assms(1,2), of 6] by (simp add: g_def)
  have b: "\<bar>g + 1 / 2\<bar> \<le> 10 ^ 7"
  proof -
    have "(10 :: rat) ^ 6 * 7 / 2 ^ 50 \<le> 1" "0 \<le> f * 10 ^ 6" "f * 10 ^ 6 \<le> 10 ^ 6" "(10 :: rat) ^ 6 + 2 \<le> 10 ^ 7" using assms(1,2) by simp_all
    with g show ?thesis by linarith
  qed
  have h: "\<bar>rnd (g + 1 / 2) - (g + 1 / 2)\<bar> \<le> 10 ^ 7 / 2 ^ 52" using accurate [of "g + 1 / 2"] b by simp
  have k: "\<bar>f * 10 ^ 6 - of_nat k\<bar> < 4 / 10"
  proof -
    have "f * 10 ^ 6 - of_nat k = 10 ^ 6 * (f - of_nat k / 10 ^ 6)" by (simp add: right_diff_distrib)
    then have "\<bar>f * 10 ^ 6 - of_nat k\<bar> = 10 ^ 6 * \<bar>f - of_nat k / 10 ^ 6\<bar>" by (simp only: abs_mult) simp
    with assms(3) show ?thesis by simp
  qed
  have "\<bar>g - f * 10 ^ 6\<bar> \<le> 1 / 100" "\<bar>rnd (g + 1 / 2) - (g + 1 / 2)\<bar> \<le> 1 / 100"
    by (rule order_trans [OF g], simp) (rule order_trans [OF h], simp)
  with k have r: "of_nat k \<le> rnd (g + 1 / 2)" "rnd (g + 1 / 2) < of_nat k + 1" by (simp_all only: abs_le_iff abs_less_iff) linarith+
  then have "\<lfloor>rnd (g + 1 / 2)\<rfloor> = int k" by (simp add: floor_unique)
  moreover have "(of_nat k :: rat) < 10 ^ 6 + 1"
  proof -
    have "of_nat k < f * 10 ^ 6 + 1" using k by (simp only: abs_less_iff) linarith
    moreover have "f * 10 ^ 6 \<le> 10 ^ 6" using assms(2) by simp
    ultimately show ?thesis by linarith
  qed
  then have "(of_nat k :: rat) < of_nat (10 ^ 6 + 1)" by simp
  then have "k < 10 ^ 6 + 1" by (simp only: of_nat_less_iff)
  ultimately show ?thesis using r(1) by (simp add: to_int32_def g_def)
qed

lemma dtoa_text:
  assumes "of_nat i \<le> \<bar>n\<bar>" "\<bar>n\<bar> < of_nat i + 1" "i < 2 ^ 31" "\<bar>\<bar>n\<bar> - (of_nat i + of_nat k / 10 ^ 6)\<bar> < 4 / 10 ^ 7"
  shows "\<exists>m'. dtoa rnd n res 6 m = Some m'
    \<and> cstr m' res ((if n < 0 then [0x2D] else []) @ numeral_bytes 10 i @ 0x2E # numeral_bytes 10 k)"
proof -
  let ?i = "numeral_bytes 10 i" and ?sgn = "if n < 0 then [0x2D] else [] :: u8 list"
  define f where "f = \<bar>n\<bar> - of_nat i"
  have f: "0 \<le> f" "f < 1" "\<bar>f - of_nat k / 10 ^ 6\<bar> < 4 / 10 ^ 7" using assms(1,2,4) by (simp_all add: f_def diff_diff_add)
  have k: "k < 2 ^ 31" using millionths [OF f] by (auto simp: to_int32_def Let_def split: if_splits)
  have "\<lfloor>\<bar>n\<bar>\<rfloor> = int i" using assms(1,2) by (simp add: floor_unique)
  then have t: "to_int32 \<bar>n\<bar> = Some (int i)" using assms(3) by (simp add: to_int32_def)
  from itoa_nonneg [OF assms(3), of res m] obtain m1 where
    m1: "itoa (int i) res 10 m = Some m1" "cstr m1 res ?i" by blast
  define m2 where "m2 = (if n < 0 then (shift_right res (length ?i) m1)(res := 0x2D) else m1)"
  have m2: "cstr m2 res (?sgn @ ?i)" using m1(2) shift_right_cstr [OF m1(2)] by (auto simp: m2_def)
  define l where "l = length (?sgn @ ?i)"
  from itoa_nonneg [OF k, of "res + l + 1" "m2(res + l := 0x2E)"] obtain m3 where
    m3: "itoa (int k) (res + l + 1) 10 (m2(res + l := 0x2E)) = Some m3" "cstr m3 (res + l + 1) (numeral_bytes 10 k)"
      "\<forall>x < res + l + 1. m3 x = (m2(res + l := 0x2E)) x" by blast
  have "cstr m3 res ((?sgn @ ?i) @ 0x2E # numeral_bytes 10 k)"
  proof (rule cstr_join)
    show "\<forall>j < length (?sgn @ ?i). m3 (res + j) = (?sgn @ ?i) ! j" "0 \<notin> set (?sgn @ ?i)"
      using m2 m3(3) by (simp_all add: cstr_def l_def)
    show "cstr m3 (res + length (?sgn @ ?i)) (0x2E # numeral_bytes 10 k)"
      unfolding l_def [symmetric] using m3(2,3) by simp
  qed
  moreover have "dtoa rnd n res 6 m = Some m3"
    using t m1(1) strlen_cstr(2) [OF m1(2)] millionths [OF f] m3(1)
    by (simp add: dtoa_def f_def m2_def l_def Let_def abs_if add.commute split: if_splits)
  ultimately show ?thesis by auto
qed

end

interpretation round: float_arith "round_to (53 + p)" for p
proof
  fix x :: rat
  have "(2 :: rat) ^ 52 \<le> 2 ^ (53 + p)" by (rule power_increasing) simp_all
  then have "\<bar>x\<bar> / 2 ^ (53 + p) \<le> \<bar>x\<bar> / 2 ^ 52" by (intro divide_left_mono) auto
  moreover have "\<bar>round_to (53 + p) x - x\<bar> \<le> \<bar>x\<bar> / 2 ^ (53 + p)" by (rule round_to_accurate) simp
  ultimately show "\<bar>round_to (53 + p) x - x\<bar> \<le> \<bar>x\<bar> / 2 ^ 52" by (rule order_trans [rotated])
qed



text \<open>The exponent of \<open>pow\<close> counts rounds: in exact arithmetic a natural number gives the power, but a negative exponent gives 1 and a fraction
  is rounded up.\<close>

lemma cpow_exact: "n < 2 ^ 31 \<Longrightarrow> cpow id x (of_nat n) = Some (x ^ n)"
proof -
  assume n: "n < 2 ^ 31"
  have "((\<lambda>result. id (result * x)) ^^ k) 1 = x ^ k" for k by (induction k) simp_all
  moreover have "\<not> (of_nat n :: rat) > 2 ^ 31 - 1"
  proof -
    have "of_nat n \<le> (of_nat (2 ^ 31 - 1) :: rat)" using n by (subst of_nat_le_iff) simp
    then show ?thesis by simp
  qed
  ultimately show ?thesis by (simp add: cpow_def)
qed

lemma cpow_rounds_up: "y \<le> 0 \<Longrightarrow> cpow rnd x y = Some 1" "cpow id 4 (1 / 2) = Some 4"
proof -
  have "\<lceil>1 / 2 :: rat\<rceil> = 1" by (simp add: ceiling_eq_iff)
  then show "cpow id 4 (1 / 2) = Some 4" by (simp add: cpow_def)
qed (simp add: cpow_def)

end
