(* ===== verification/Task.thy ===== *)
theory Task
  imports Paging
begin

text \<open>
  Tasks and processes as data (\<open>include/task.h\<close>, \<open>include/process.h\<close>), the kernel's global state, and the
  operations of \<open>process/task.c\<close> that only touch this state. A \<open>task_t*\<close> or \<open>process_t*\<close> is a number,
  0 the null pointer; the objects live in the two stores of the state, and reading through a null or dangling
  pointer is undefined, i.e. \<open>None\<close>.
\<close>

datatype task_state = TASK_STATE_READY | TASK_STATE_RUN | TASK_STATE_BLOCK | TASK_STATE_TERMINATE

datatype wait_reason = WAIT_NONE | WAIT_KEYBOARD | WAIT_NOUSE

record task_registers =
  r_edi :: u32
  r_esi :: u32
  r_ebp :: u32
  r_ebx :: u32
  r_edx :: u32
  r_ecx :: u32
  r_eax :: u32
  r_eip :: u32
  r_cs :: u32
  r_eflags :: u32
  r_esp :: u32
  r_ss :: u32

record interrupt_frame =
  f_edi :: u32
  f_esi :: u32
  f_ebp :: u32
  f_reserved :: u32
  f_ebx :: u32
  f_edx :: u32
  f_ecx :: u32
  f_eax :: u32
  f_eip :: u32
  f_cs :: u32
  f_eflags :: u32
  f_esp :: u32
  f_ss :: u32

type_synonym ptr = nat

record task =
  stack_top :: u32
  stack_bottom :: u32
  registers :: task_registers
  parent :: ptr
  state :: task_state
  waiting_on :: wait_reason

datatype process_filetype = PROCESS_ELF | PROCESS_BINARY | PROCESS_KERNEL_THREAD

definition PROCESS_MAX_THREAD :: nat where [konst]: "PROCESS_MAX_THREAD = 16"

record process =
  pid :: u16
  filename :: "u8 list"
  tasks :: "ptr list"
  page_dir :: u32
  task_count :: u8
  filetype :: process_filetype
  psize :: u32
  keyboard_buffer :: ptr
  prev_proc :: ptr
  next_proc :: ptr

text \<open>The task queues of the two schedulers' files: an array of task pointers used as a ring.\<close>

record taskq =
  slots :: "ptr list"
  q_head :: int
  q_tail :: int
  q_count :: int

text \<open>\<open>scheduler_t\<close>: a table of callbacks, here the names of the functions they point to.\<close>

datatype sched_fn = FN_rr_add | FN_rr_yield | FN_rr_dump | FN_rr_get

record scheduler =
  add_cb :: "sched_fn option"
  yield_cb :: "sched_fn option"
  dump_cb :: "sched_fn option"
  get_cb :: "sched_fn option"
  sched_name :: string

record kstate =
  task_store :: "ptr \<rightharpoonup> task"
  proc_store :: "ptr \<rightharpoonup> process"
  curr_task :: ptr
  curr_process :: ptr
  processes :: ptr
  next_pid :: u16
  ready_queue :: taskq
  wait_queue :: taskq
  curr_scheduler :: "scheduler option"
  foreground_process :: ptr
  cr3 :: u32
  errno :: int

definition task_at :: "kstate \<Rightarrow> ptr \<Rightarrow> task option" where
  "task_at s p = (if p = 0 then None else task_store s p)"

definition proc_at :: "kstate \<Rightarrow> ptr \<Rightarrow> process option" where
  "proc_at s p = (if p = 0 then None else proc_store s p)"

definition set_task :: "ptr \<Rightarrow> task \<Rightarrow> kstate \<Rightarrow> kstate" where
  "set_task p t s = s\<lparr>task_store := (task_store s)(p \<mapsto> t)\<rparr>"

definition set_proc :: "ptr \<Rightarrow> process \<Rightarrow> kstate \<Rightarrow> kstate" where
  "set_proc p x s = s\<lparr>proc_store := (proc_store s)(p \<mapsto> x)\<rparr>"

section \<open>\<open>process/task.c\<close>\<close>

definition task_block_on :: "ptr \<Rightarrow> wait_reason \<Rightarrow> kstate \<Rightarrow> kstate option" where
  "task_block_on self reason s = (if self = 0 then Some s
     else do { t \<leftarrow> task_at s self; Some (set_task self (t\<lparr>waiting_on := reason\<rparr>) s) })"

definition task_set_block :: "ptr \<Rightarrow> kstate \<Rightarrow> kstate option" where
  "task_set_block self s = (if self = 0 then Some s
     else do { t \<leftarrow> task_at s self; Some (set_task self (t\<lparr>state := TASK_STATE_BLOCK\<rparr>) s) })"

definition task_set_unblock :: "ptr \<Rightarrow> kstate \<Rightarrow> kstate option" where
  "task_set_unblock self s = (if self = 0 then Some s
     else do { t \<leftarrow> task_at s self;
               Some (if state t = TASK_STATE_BLOCK
                     then set_task self (t\<lparr>waiting_on := WAIT_NONE, state := TASK_STATE_READY\<rparr>) s else s) })"

text \<open>The loop of \<open>task_exit\<close> clears the first table entry that holds the task.\<close>

fun clear_first :: "ptr \<Rightarrow> ptr list \<Rightarrow> ptr list" where
  "clear_first p [] = []"
| "clear_first p (x # xs) = (if x = p then 0 # xs else x # clear_first p xs)"

definition task_exit :: "ptr \<Rightarrow> kstate \<Rightarrow> kstate option" where
  "task_exit self s = (if self = 0 then Some s else do {
     t \<leftarrow> task_at s self;
     if parent t = 0 then Some s else do {
       p \<leftarrow> proc_at s (parent t);
       Some (set_proc (parent t) (p\<lparr>task_count := task_count p - 1, tasks := clear_first self (tasks p)\<rparr>) s) } })"

definition task_set_curr :: "ptr \<Rightarrow> kstate \<Rightarrow> kstate" where
  "task_set_curr self s = (if self = 0 then s\<lparr>errno := EINVAL\<rparr> else s\<lparr>curr_task := self\<rparr>)"

definition task_get_curr :: "kstate \<Rightarrow> ptr \<times> kstate" where
  "task_get_curr s = (if curr_task s = 0 then (0, s\<lparr>errno := ESRCH\<rparr>) else (curr_task s, s))"

definition process_set_curr :: "ptr \<Rightarrow> kstate \<Rightarrow> kstate" where
  "process_set_curr self s = (if self = 0 then s\<lparr>errno := EINVAL\<rparr> else s\<lparr>curr_process := self\<rparr>)"

definition process_get_curr :: "kstate \<Rightarrow> ptr \<times> kstate" where
  "process_get_curr s = (if curr_process s = 0 then (0, s\<lparr>errno := ESRCH\<rparr>) else (curr_process s, s))"

definition task_restore_dir :: "ptr \<Rightarrow> kstate \<Rightarrow> kstate option" where
  "task_restore_dir self s = (if self = 0 then Some s else do {
     t \<leftarrow> task_at s self;
     p \<leftarrow> proc_at s (parent t);
     Some (if page_dir p = 0 then s else s\<lparr>cr3 := v2p (page_dir p)\<rparr>) })"

text \<open>
  \<open>asm_enter_task\<close> loads the saved registers and leaves the kernel by \<open>iretd\<close>: it does not return. A switch
  therefore also delivers the registers it enters user or kernel code with; a null \<open>next\<close> switches nothing.
\<close>

definition task_switch :: "ptr \<Rightarrow> kstate \<Rightarrow> (kstate \<times> task_registers option) option" where
  "task_switch next_task s = (if next_task = 0 then Some (s, None) else do {
     t \<leftarrow> task_at s next_task;
     let s1 = process_set_curr (parent t) (task_set_curr next_task (set_task next_task (t\<lparr>state := TASK_STATE_RUN\<rparr>) s));
     p \<leftarrow> proc_at s1 (parent t);
     s2 \<leftarrow> (if page_dir p \<noteq> 0 then task_restore_dir next_task s1 else Some s1);
     Some (s2, Some (registers t)) })"

definition regs_of_frame :: "interrupt_frame \<Rightarrow> task_registers" where
  "regs_of_frame frame = \<lparr>r_edi = f_edi frame, r_esi = f_esi frame, r_ebp = f_ebp frame, r_ebx = f_ebx frame,
     r_edx = f_edx frame, r_ecx = f_ecx frame, r_eax = f_eax frame, r_eip = f_eip frame, r_cs = f_cs frame,
     r_eflags = f_eflags frame, r_esp = f_esp frame, r_ss = f_ss frame\<rparr>"

definition task_save :: "interrupt_frame \<Rightarrow> kstate \<Rightarrow> kstate option" where
  "task_save frame s = (let (curr, s1) = task_get_curr s in
     if curr = 0 then Some s1
     else do { t \<leftarrow> task_at s1 curr; Some (set_task curr (t\<lparr>registers := regs_of_frame frame\<rparr>) s1) })"

text \<open>
  The stack word \<open>i\<close> of the interrupted task, read with the kernel's test: \<open>stack\<close> gives the words at the
  frame's \<open>esp\<close>.
\<close>

definition task_get_stack_arg_at :: "(nat \<Rightarrow> u32) \<Rightarrow> nat \<Rightarrow> int" where
  "task_get_stack_arg_at stack i = (if stack i < KERNEL_VIRTUAL_START then - EINVAL else sint (stack i))"

section \<open>\<open>process/tty.c\<close>\<close>

definition tty_set_foreground :: "ptr \<Rightarrow> kstate \<Rightarrow> kstate" where
  "tty_set_foreground proc s = s\<lparr>foreground_process := proc\<rparr>"

definition tty_get_foreground :: "kstate \<Rightarrow> ptr" where
  "tty_get_foreground s = foreground_process s"

section \<open>Lemmas\<close>

lemma task_at_set_task [simp]:
  "p \<noteq> 0 \<Longrightarrow> task_at (set_task p t s) q = (if q = p then Some t else task_at s q)"
  by (simp add: task_at_def set_task_def)

lemma set_task_frame [simp]:
  "proc_at (set_task p t s) = proc_at s" "curr_task (set_task p t s) = curr_task s"
  "ready_queue (set_task p t s) = ready_queue s" "wait_queue (set_task p t s) = wait_queue s"
  "curr_scheduler (set_task p t s) = curr_scheduler s"
  by (simp_all add: set_task_def proc_at_def fun_eq_iff)

lemma task_at_upd [simp]:
  "task_at (s\<lparr>ready_queue := q\<rparr>) = task_at s" "task_at (s\<lparr>wait_queue := q\<rparr>) = task_at s"
  "task_at (s\<lparr>curr_task := p\<rparr>) = task_at s" "task_at (s\<lparr>curr_process := p\<rparr>) = task_at s"
  "task_at (s\<lparr>errno := e\<rparr>) = task_at s" "task_at (s\<lparr>cr3 := c\<rparr>) = task_at s"
  by (simp_all add: task_at_def fun_eq_iff)

lemma proc_at_upd [simp]:
  "proc_at (s\<lparr>ready_queue := q\<rparr>) = proc_at s" "proc_at (s\<lparr>wait_queue := q\<rparr>) = proc_at s"
  "proc_at (s\<lparr>curr_task := p\<rparr>) = proc_at s" "proc_at (s\<lparr>curr_process := p\<rparr>) = proc_at s"
  "proc_at (s\<lparr>errno := e\<rparr>) = proc_at s" "proc_at (s\<lparr>cr3 := c\<rparr>) = proc_at s"
  by (simp_all add: proc_at_def fun_eq_iff)

lemma task_at_nonzero: "task_at s p = Some t \<Longrightarrow> p \<noteq> 0"
  by (auto simp: task_at_def split: if_splits)

lemma proc_at_nonzero: "proc_at s p = Some t \<Longrightarrow> p \<noteq> 0"
  by (auto simp: proc_at_def split: if_splits)

text \<open>What a switch to an existing task of an existing process does.\<close>

lemma task_switch_ok:
  assumes "task_at s q = Some t" "proc_at s (parent t) = Some p"
  obtains s' where "task_switch q s = Some (s', Some (registers t))"
    "\<And>r. task_at s' r = (if r = q then Some (t\<lparr>state := TASK_STATE_RUN\<rparr>) else task_at s r)"
    "proc_at s' = proc_at s" "curr_task s' = q" "curr_process s' = parent t"
    "ready_queue s' = ready_queue s" "wait_queue s' = wait_queue s" "curr_scheduler s' = curr_scheduler s"
    "page_dir p \<noteq> 0 \<Longrightarrow> cr3 s' = v2p (page_dir p)"
proof -
  have q: "q \<noteq> 0" "parent t \<noteq> 0" using assms by (auto dest: task_at_nonzero proc_at_nonzero)
  let ?s1 = "(set_task q (t\<lparr>state := TASK_STATE_RUN\<rparr>) s)\<lparr>curr_task := q, curr_process := parent t\<rparr>"
  let ?s' = "if page_dir p = 0 then ?s1 else ?s1\<lparr>cr3 := v2p (page_dir p)\<rparr>"
  have "task_switch q s = Some (?s', Some (registers t))"
    using assms q by (simp add: task_switch_def Let_def task_set_curr_def process_set_curr_def task_restore_dir_def)
  from that [OF this] show ?thesis using q by simp
qed

end
