(* ===== verification/Taskq.thy ===== *)
theory Taskq
  imports Task Bounded_Queue
begin

text \<open>
  The ring of task pointers that \<open>scheduler/rr.c\<close> and \<open>scheduler/wq.c\<close> each implement. The two copies differ
  in the array size and in the task state an element must have to be stored, which are parameters here; their
  instances are \<open>rr_enqueue\<close>, \<open>rr_dequeue\<close>, \<open>wq_enqueue\<close> and \<open>wq_dequeue\<close>. The theory shows that the ring is
  a bounded queue.
\<close>

definition RR_MAX :: nat where [konst]: "RR_MAX = 8"
definition WAIT_MAX :: nat where [konst]: "WAIT_MAX = 8"

definition taskq_empty :: "nat \<Rightarrow> taskq" where
  "taskq_empty n = \<lparr>slots = replicate n 0, q_head = 0, q_tail = 0, q_count = 0\<rparr>"

definition taskq_enqueue :: "nat \<Rightarrow> task_state \<Rightarrow> (ptr \<Rightarrow> task option) \<Rightarrow> ptr \<Rightarrow> taskq \<Rightarrow> taskq option" where
  "taskq_enqueue n want look task q =
     (if task = 0 \<or> q_count q \<ge> int n then Some q
      else do {
        t \<leftarrow> look task;
        if state t \<noteq> want then Some q
        else Some (q\<lparr>slots := (slots q)[nat (q_head q) := task],
                     q_head := (q_head q + 1) mod int n, q_count := q_count q + 1\<rparr>) })"

definition taskq_dequeue :: "nat \<Rightarrow> taskq \<Rightarrow> ptr \<times> taskq" where
  "taskq_dequeue n q =
     (if q_count q \<le> 0 \<or> q_count q > int n then (0, q)
      else let task = slots q ! nat (q_tail q) in
        if task = 0 then (0, q)
        else (task, q\<lparr>slots := (slots q)[nat (q_tail q) := 0],
                     q_tail := (q_tail q + 1) mod int n, q_count := q_count q - 1\<rparr>))"

text \<open>\<open>rr_enqueue\<close>, \<open>rr_dequeue\<close>: \<open>_rr_enqueue\<close> and \<open>_rr_dequeue\<close> of \<open>rr.c\<close>.\<close>

definition rr_enqueue :: "ptr \<Rightarrow> kstate \<Rightarrow> kstate option" where
  "rr_enqueue task s = map_option (\<lambda>q. s\<lparr>ready_queue := q\<rparr>)
     (taskq_enqueue RR_MAX TASK_STATE_READY (task_at s) task (ready_queue s))"

definition rr_dequeue :: "kstate \<Rightarrow> ptr \<times> kstate" where
  "rr_dequeue s = (let (t, q) = taskq_dequeue RR_MAX (ready_queue s) in (t, s\<lparr>ready_queue := q\<rparr>))"

text \<open>\<open>wq_enqueue\<close>, \<open>wq_dequeue\<close>: \<open>_wq_enqueue\<close> and \<open>_wq_dequeue\<close> of \<open>wq.c\<close>.\<close>

definition wq_enqueue :: "ptr \<Rightarrow> kstate \<Rightarrow> kstate option" where
  "wq_enqueue task s = map_option (\<lambda>q. s\<lparr>wait_queue := q\<rparr>)
     (taskq_enqueue WAIT_MAX TASK_STATE_BLOCK (task_at s) task (wait_queue s))"

definition wq_dequeue :: "kstate \<Rightarrow> ptr \<times> kstate" where
  "wq_dequeue s = (let (t, q) = taskq_dequeue WAIT_MAX (wait_queue s) in (t, s\<lparr>wait_queue := q\<rparr>))"

section \<open>The ring is a bounded queue\<close>

definition taskq_list :: "taskq \<Rightarrow> ptr list" where
  "taskq_list q = ring_list (slots q) (nat (q_tail q)) (nat (q_count q))"

text \<open>The slots outside the window are null, those inside are not.\<close>

definition taskq_inv :: "nat \<Rightarrow> taskq \<Rightarrow> bool" where [invs]:
  "taskq_inv n q \<longleftrightarrow> 0 < n \<and> length (slots q) = n \<and> 0 \<le> q_tail q \<and> q_tail q < int n
     \<and> 0 \<le> q_count q \<and> q_count q \<le> int n \<and> q_head q = (q_tail q + q_count q) mod int n
     \<and> 0 \<notin> set (taskq_list q)
     \<and> (\<forall>i < n. (\<forall>k < nat (q_count q). i \<noteq> (nat (q_tail q) + k) mod n) \<longrightarrow> slots q ! i = 0)"

lemma taskq_empty_inv [simp]: "0 < n \<Longrightarrow> taskq_inv n (taskq_empty n)" "taskq_list (taskq_empty n) = []"
  by (simp_all add: taskq_inv_def taskq_list_def taskq_empty_def)

lemma taskq_inv_nat:
  assumes "taskq_inv n q"
  obtains t c where "q_tail q = int t" "q_count q = int c" "t < n" "c \<le> n" "0 < n" "length (slots q) = n"
    "q_head q = int ((t + c) mod n)" "taskq_list q = ring_list (slots q) t c" "0 \<notin> set (taskq_list q)"
    "\<forall>i < n. (\<forall>k < c. i \<noteq> (t + k) mod n) \<longrightarrow> slots q ! i = 0"
proof -
  have a: "q_tail q = int (nat (q_tail q))" "q_count q = int (nat (q_count q))" "nat (q_tail q) < n"
      "nat (q_count q) \<le> n" "0 < n" "length (slots q) = n" "0 \<notin> set (taskq_list q)"
      "taskq_list q = ring_list (slots q) (nat (q_tail q)) (nat (q_count q))"
    using assms by (auto simp: taskq_inv_def taskq_list_def)
  have "q_head q = (int (nat (q_tail q)) + int (nat (q_count q))) mod int n"
    using assms by (simp add: taskq_inv_def)
  then have h: "q_head q = int ((nat (q_tail q) + nat (q_count q)) mod n)"
    by (simp only: zmod_int of_nat_add)
  have "\<forall>i < n. (\<forall>k < nat (q_count q). i \<noteq> (nat (q_tail q) + k) mod n) \<longrightarrow> slots q ! i = 0"
    using assms unfolding taskq_inv_def by blast
  from that [OF a(1-6) h a(8,7) this] show ?thesis .
qed

definition taskq_put :: "nat \<Rightarrow> task_state \<Rightarrow> (ptr \<Rightarrow> task option) \<Rightarrow> ptr \<Rightarrow> taskq \<Rightarrow> taskq" where
  "taskq_put n want look task q = (case taskq_enqueue n want look task q of Some q' \<Rightarrow> q' | None \<Rightarrow> q)"

definition taskq_get :: "nat \<Rightarrow> taskq \<Rightarrow> ptr option \<times> taskq" where
  "taskq_get n q = (case taskq_dequeue n q of (t, q') \<Rightarrow> (if t = 0 then None else Some t, q'))"

definition admits :: "task_state \<Rightarrow> (ptr \<Rightarrow> task option) \<Rightarrow> ptr \<Rightarrow> bool" where
  "admits want look task \<longleftrightarrow> task \<noteq> 0 \<and> (\<exists>t. look task = Some t \<and> state t = want)"

lemma taskq_put_full: "taskq_inv n q \<Longrightarrow> length (taskq_list q) = n \<Longrightarrow> taskq_put n want look x q = q"
  by (auto simp: taskq_put_def taskq_enqueue_def taskq_list_def taskq_inv_def)

lemma taskq_put_reject: "\<not> admits want look x \<Longrightarrow> taskq_put n want look x q = q"
  by (auto simp: taskq_put_def taskq_enqueue_def admits_def split: option.splits Option.bind_splits)

lemma taskq_put_admit:
  assumes "taskq_inv n q" "admits want look x" "length (taskq_list q) < n"
  shows "taskq_inv n (taskq_put n want look x q)" "taskq_list (taskq_put n want look x q) = taskq_list q @ [x]"
proof -
  obtain t c where i: "q_tail q = int t" "q_count q = int c" "t < n" "c \<le> n" "0 < n" "length (slots q) = n"
    "q_head q = int ((t + c) mod n)" "taskq_list q = ring_list (slots q) t c" "0 \<notin> set (taskq_list q)"
    "\<forall>i < n. (\<forall>k < c. i \<noteq> (t + k) mod n) \<longrightarrow> slots q ! i = 0"
    using taskq_inv_nat [OF assms(1)] .
  have c: "c < n" using assms(3) i(8) by simp
  have x: "x \<noteq> 0" using assms(2) by (simp add: admits_def)
  have put: "taskq_put n want look x q = q\<lparr>slots := (slots q)[(t + c) mod n := x],
      q_head := int ((t + Suc c) mod n), q_count := int (Suc c)\<rparr>"
  proof -
    have "(q_head q + 1) mod int n = int ((t + Suc c) mod n)"
      unfolding i(7) by (simp add: zmod_int mod_simps algebra_simps)
    moreover have "nat (q_head q) = (t + c) mod n" unfolding i(7) by simp
    ultimately show ?thesis
      using assms(2) c i(2) by (auto simp: taskq_put_def taskq_enqueue_def admits_def)
  qed
  show l: "taskq_list (taskq_put n want look x q) = taskq_list q @ [x]"
    using ring_list_enq [of c "slots q" t x] c i(6) unfolding put
    by (simp add: taskq_list_def i(1,2) del: of_nat_Suc)
  have "slots (taskq_put n want look x q) ! j = 0" if "j < n" "\<And>k. k < Suc c \<Longrightarrow> j \<noteq> (t + k) mod n" for j
    using that i(6) i(10) [rule_format, of j] by (auto simp: put nth_list_update less_Suc_eq)
  moreover have "0 \<notin> set (taskq_list (taskq_put n want look x q))" unfolding l using i(9) x by simp
  ultimately show "taskq_inv n (taskq_put n want look x q)"
    using i(1,3,5,6) c by (auto simp: taskq_inv_def put zmod_int algebra_simps)
qed

lemma taskq_put_inv: "taskq_inv n q \<Longrightarrow> taskq_inv n (taskq_put n want look x q)"
proof -
  assume q: "taskq_inv n q"
  have "length (taskq_list q) \<le> n" using q by (auto simp: taskq_inv_def taskq_list_def nat_le_iff)
  then consider "\<not> admits want look x" | "length (taskq_list q) = n" | "admits want look x" "length (taskq_list q) < n"
    by linarith
  then show ?thesis using q by cases (auto simp: taskq_put_reject taskq_put_full taskq_put_admit)
qed

lemma taskq_get_cons:
  assumes "taskq_inv n q" "taskq_list q = x # xs"
  shows "fst (taskq_get n q) = Some x \<and> taskq_inv n (snd (taskq_get n q)) \<and> taskq_list (snd (taskq_get n q)) = xs"
proof -
  obtain t c where i: "q_tail q = int t" "q_count q = int c" "t < n" "c \<le> n" "0 < n" "length (slots q) = n"
    "q_head q = int ((t + c) mod n)" "taskq_list q = ring_list (slots q) t c" "0 \<notin> set (taskq_list q)"
    "\<forall>i < n. (\<forall>k < c. i \<noteq> (t + k) mod n) \<longrightarrow> slots q ! i = 0"
    using taskq_inv_nat [OF assms(1)] .
  obtain c' where c: "c = Suc c'" using assms(2) i(8) by (cases c) auto
  have rl: "x = slots q ! t" "xs = ring_list (slots q) ((t + 1) mod n) c'"
    using assms(2) i(3,6,8) ring_list_deq [of t "slots q" c'] by (simp_all add: c)
  have x: "x \<noteq> 0" using i(9) assms(2) by auto
  let ?q' = "q\<lparr>slots := (slots q)[t := 0], q_tail := int ((t + 1) mod n), q_count := int c'\<rparr>"
  have get: "taskq_get n q = (Some x, ?q')"
    using x c i(1-4) by (simp add: taskq_get_def taskq_dequeue_def Let_def rl(1) zmod_int add.commute)
  have l: "taskq_list ?q' = xs"
    using ring_list_clear [of t "slots q" c' 0] i(3,4,6) c by (simp add: taskq_list_def rl(2) nat_mod_distrib)
  have "slots ?q' ! j = 0" if "j < n" "\<And>k. k < c' \<Longrightarrow> j \<noteq> ((t + 1) mod n + k) mod n" for j
  proof (cases "j = t")
    case True
    then show ?thesis using i(3,6) by simp
  next
    case False
    have "j \<noteq> (t + k) mod n" if "k < c" for k
      using False i(3) \<open>k < c\<close> that \<open>\<And>k. k < c' \<Longrightarrow> j \<noteq> ((t + 1) mod n + k) mod n\<close> [of "k - 1"] c
      by (cases k) (auto simp: mod_simps)
    then show ?thesis using i(10) \<open>j < n\<close> False by simp
  qed
  moreover have "q_head ?q' = (q_tail ?q' + q_count ?q') mod int n"
    by (simp add: i(7) c zmod_int mod_simps algebra_simps)
  ultimately have "taskq_inv n ?q'"
    using i(3-6,9) c l assms(2) by (auto simp: taskq_inv_def nat_mod_distrib)
  with get l show ?thesis by simp
qed

interpretation tq: bounded_queue "taskq_inv n" taskq_list n "admits want look" "taskq_put n want look" "taskq_get n"
  for n want look
proof unfold_locales
  show "length (taskq_list q) \<le> n" if "taskq_inv n q" for q
    using that by (auto simp: taskq_inv_def taskq_list_def nat_le_iff)
  show "taskq_get n q = (None, q)" if "taskq_inv n q" "taskq_list q = []" for q
    using that by (auto simp: taskq_get_def taskq_dequeue_def taskq_inv_def taskq_list_def ring_list_def)
qed (simp_all add: taskq_put_inv taskq_put_admit taskq_put_full taskq_put_reject taskq_get_cons)

lemma taskq_enqueue_put:
  assumes "task = 0 \<or> look task \<noteq> None"
  shows "taskq_enqueue n want look task q = Some (taskq_put n want look task q)"
  using assms by (auto simp: taskq_put_def taskq_enqueue_def)

lemma taskq_dequeue_get:
  "taskq_dequeue n q = (case taskq_get n q of (Some t, q') \<Rightarrow> (t, q') | (None, q') \<Rightarrow> (0, q'))"
  by (auto simp: taskq_get_def taskq_dequeue_def Let_def)

end
