(* ===== verification/Sched.thy ===== *)
theory Sched
  imports Taskq Fifo
begin

text \<open>
  The scheduler: \<open>scheduler/rr.c\<close> (round robin over the ready queue), \<open>scheduler/wq.c\<close> (the wait queue) and
  \<open>scheduler/scheduler.c\<close> (the callback table).
\<close>

section \<open>\<open>scheduler/rr.c\<close>\<close>

definition rr_init :: "scheduler \<Rightarrow> scheduler" where
  "rr_init self = self\<lparr>add_cb := Some FN_rr_add, yield_cb := Some FN_rr_yield, dump_cb := Some FN_rr_dump,
     get_cb := Some FN_rr_get, sched_name := ''RoundRobin''\<rparr>"

definition rr_add :: "ptr \<Rightarrow> kstate \<Rightarrow> kstate option" where
  "rr_add task s = (if task = 0 then Some (s\<lparr>errno := EINVAL\<rparr>) else rr_enqueue task s)"

definition rr_yield :: "interrupt_frame option \<Rightarrow> kstate \<Rightarrow> (kstate \<times> task_registers option) option" where
  "rr_yield frame s = (let (curr, s0) = task_get_curr s in do {
     s1 \<leftarrow> (if curr = 0 then (let (pp, s') = process_get_curr s0 in do {
              p \<leftarrow> proc_at s' pp;
              Some (task_set_curr (tasks p ! 0) s') })
           else (case frame of None \<Rightarrow> Some s0 | Some f \<Rightarrow> task_save f s0));
     t \<leftarrow> task_at s1 curr;
     s2 \<leftarrow> (if state t = TASK_STATE_RUN
           then rr_enqueue curr (set_task curr (t\<lparr>state := TASK_STATE_READY\<rparr>) s1) else Some s1);
     let (next_task, s3) = rr_dequeue s2;
     task_switch next_task s3 })"

definition rr_get :: "kstate \<Rightarrow> ptr" where
  "rr_get s = (if q_count (ready_queue s) \<le> 0 then 0 else slots (ready_queue s) ! nat (q_head (ready_queue s)))"

text \<open>The tasks \<open>rr_dump\<close> lists: those of the window that are set and have a parent.\<close>

definition rr_dump :: "kstate \<Rightarrow> ptr list" where
  "rr_dump s = filter (\<lambda>t. t \<noteq> 0 \<and> (case task_at s t of Some x \<Rightarrow> parent x \<noteq> 0 | None \<Rightarrow> False))
     (map (\<lambda>i. slots (ready_queue s) ! ((nat (q_tail (ready_queue s)) + i) mod RR_MAX))
        [0..<nat (q_count (ready_queue s))])"

section \<open>\<open>scheduler/scheduler.c\<close>\<close>

definition scheduler_get :: "kstate \<Rightarrow> scheduler option" where
  "scheduler_get s = curr_scheduler s"

datatype scheduler_type = SCHED_ROUND_ROBIN | SCHED_OTHER

text \<open>\<open>mem\<close> is what \<open>kmalloc(sizeof(scheduler_t))\<close> returned: \<open>None\<close>, or a struct with arbitrary contents.\<close>

definition scheduler_create :: "scheduler_type \<Rightarrow> scheduler option \<Rightarrow> kstate \<Rightarrow> scheduler option \<times> kstate" where
  "scheduler_create ty mem s = (case ty of
      SCHED_ROUND_ROBIN \<Rightarrow> (case mem of None \<Rightarrow> (None, s\<lparr>errno := ENOMEM\<rparr>) | Some m \<Rightarrow> (Some (rr_init m), s))
    | SCHED_OTHER \<Rightarrow> (None, s\<lparr>errno := EINVAL\<rparr>))"

definition scheduler_select :: "scheduler option \<Rightarrow> kstate \<Rightarrow> kstate" where
  "scheduler_select self s = (case self of None \<Rightarrow> s\<lparr>errno := EINVAL\<rparr> | Some x \<Rightarrow> s\<lparr>curr_scheduler := Some x\<rparr>)"

text \<open>A call through \<open>add_cb\<close> resp. \<open>yield_cb\<close>; a null pointer or a function of another type is undefined.\<close>

definition call_add :: "sched_fn option \<Rightarrow> ptr \<Rightarrow> kstate \<Rightarrow> kstate option" where
  "call_add f task s = (if f = Some FN_rr_add then rr_add task s else None)"

definition scheduler_schedule :: "interrupt_frame option \<Rightarrow> kstate \<Rightarrow> (kstate \<times> task_registers option) option" where
  "scheduler_schedule frame s = (case curr_scheduler s of None \<Rightarrow> Some (s, None)
     | Some sch \<Rightarrow> (case yield_cb sch of None \<Rightarrow> Some (s, None)
        | Some FN_rr_yield \<Rightarrow> rr_yield frame s | Some _ \<Rightarrow> None))"

section \<open>\<open>scheduler/wq.c\<close>\<close>

definition wq_size :: "kstate \<Rightarrow> int" where
  "wq_size s = q_count (wait_queue s)"

primrec wq_wakeup_loop :: "nat \<Rightarrow> wait_reason \<Rightarrow> kstate \<Rightarrow> kstate option" where
  "wq_wakeup_loop 0 reason s = Some s"
| "wq_wakeup_loop (Suc i) reason s = (let (task, s1) = wq_dequeue s in do {
     t \<leftarrow> task_at s1 task;
     s2 \<leftarrow> (if waiting_on t = reason then do {
              s' \<leftarrow> task_set_unblock task s1;
              sch \<leftarrow> scheduler_get s';
              call_add (add_cb sch) task s' }
           else wq_enqueue task s1);
     wq_wakeup_loop i reason s2 })"

definition wq_wakeup :: "wait_reason \<Rightarrow> kstate \<Rightarrow> kstate option" where
  "wq_wakeup reason s = wq_wakeup_loop (nat (wq_size s)) reason s"

definition wq_push :: "ptr \<Rightarrow> kstate \<Rightarrow> kstate option" where
  "wq_push task s = (if task = 0 then Some (s\<lparr>errno := EINVAL\<rparr>) else wq_enqueue task s)"

definition wq_pop :: "kstate \<Rightarrow> ptr \<times> kstate" where
  "wq_pop s = wq_dequeue s"

section \<open>The queues through the state\<close>

definition ready_list :: "kstate \<Rightarrow> ptr list" where "ready_list s = taskq_list (ready_queue s)"
definition wait_list :: "kstate \<Rightarrow> ptr list" where "wait_list s = taskq_list (wait_queue s)"

definition queues_inv :: "kstate \<Rightarrow> bool" where [invs]:
  "queues_inv s \<longleftrightarrow> taskq_inv RR_MAX (ready_queue s) \<and> taskq_inv WAIT_MAX (wait_queue s)"

lemma queue_lists_upd [simp]:
  "ready_list (s\<lparr>wait_queue := q\<rparr>) = ready_list s" "wait_list (s\<lparr>ready_queue := q\<rparr>) = wait_list s"
  "ready_list (set_task p t s) = ready_list s" "wait_list (set_task p t s) = wait_list s"
  "queues_inv (set_task p t s) = queues_inv s"
  by (simp_all add: ready_list_def wait_list_def queues_inv_def)

lemma rr_enqueue_ok:
  assumes "queues_inv s" "task_at s p = Some t"
  shows "\<exists>q. rr_enqueue p s = Some (s\<lparr>ready_queue := q\<rparr>) \<and> queues_inv (s\<lparr>ready_queue := q\<rparr>)
    \<and> ready_list (s\<lparr>ready_queue := q\<rparr>)
      = (if state t = TASK_STATE_READY then take RR_MAX (ready_list s @ [p]) else ready_list s)"
proof -
  have i: "taskq_inv RR_MAX (ready_queue s)" using assms(1) by (simp add: queues_inv_def)
  have p: "p \<noteq> 0" using assms(2) by (rule task_at_nonzero)
  let ?q = "taskq_put RR_MAX TASK_STATE_READY (task_at s) p (ready_queue s)"
  have "admits TASK_STATE_READY (task_at s) p \<longleftrightarrow> state t = TASK_STATE_READY"
    using assms(2) p by (simp add: admits_def)
  moreover have "rr_enqueue p s = Some (s\<lparr>ready_queue := ?q\<rparr>)"
    using assms(2) by (simp add: rr_enqueue_def taskq_enqueue_put)
  ultimately show ?thesis
    using assms(1) tq.enq_take [OF i, of TASK_STATE_READY "task_at s" p] tq.contents_cap [OF i] tq.enq_inv [OF i]
    by (intro exI [of _ ?q]) (auto simp: queues_inv_def ready_list_def taskq_put_reject)
qed

lemma wq_enqueue_ok:
  assumes "queues_inv s" "task_at s p = Some t"
  shows "\<exists>q. wq_enqueue p s = Some (s\<lparr>wait_queue := q\<rparr>) \<and> queues_inv (s\<lparr>wait_queue := q\<rparr>)
    \<and> wait_list (s\<lparr>wait_queue := q\<rparr>)
      = (if state t = TASK_STATE_BLOCK then take WAIT_MAX (wait_list s @ [p]) else wait_list s)"
proof -
  have i: "taskq_inv WAIT_MAX (wait_queue s)" using assms(1) by (simp add: queues_inv_def)
  have p: "p \<noteq> 0" using assms(2) by (rule task_at_nonzero)
  let ?q = "taskq_put WAIT_MAX TASK_STATE_BLOCK (task_at s) p (wait_queue s)"
  have "admits TASK_STATE_BLOCK (task_at s) p \<longleftrightarrow> state t = TASK_STATE_BLOCK"
    using assms(2) p by (simp add: admits_def)
  moreover have "wq_enqueue p s = Some (s\<lparr>wait_queue := ?q\<rparr>)"
    using assms(2) by (simp add: wq_enqueue_def taskq_enqueue_put)
  ultimately show ?thesis
    using assms(1) tq.enq_take [OF i, of TASK_STATE_BLOCK "task_at s" p] tq.contents_cap [OF i] tq.enq_inv [OF i]
    by (intro exI [of _ ?q]) (auto simp: queues_inv_def wait_list_def taskq_put_reject)
qed

lemma rr_dequeue_cons:
  assumes "queues_inv s" "ready_list s = x # xs"
  shows "\<exists>q. rr_dequeue s = (x, s\<lparr>ready_queue := q\<rparr>) \<and> queues_inv (s\<lparr>ready_queue := q\<rparr>)
    \<and> ready_list (s\<lparr>ready_queue := q\<rparr>) = xs"
  using assms tq.deq_cons [of RR_MAX "ready_queue s" x xs]
  by (auto simp: rr_dequeue_def taskq_dequeue_get queues_inv_def ready_list_def split: prod.splits option.splits)

lemma rr_dequeue_nil:
  assumes "queues_inv s" "ready_list s = []"
  shows "rr_dequeue s = (0, s)"
  using assms tq.deq_empty [of RR_MAX "ready_queue s"]
  by (simp add: rr_dequeue_def taskq_dequeue_get queues_inv_def ready_list_def)

lemma wq_dequeue_cons:
  assumes "queues_inv s" "wait_list s = x # xs"
  shows "\<exists>q. wq_dequeue s = (x, s\<lparr>wait_queue := q\<rparr>) \<and> queues_inv (s\<lparr>wait_queue := q\<rparr>)
    \<and> wait_list (s\<lparr>wait_queue := q\<rparr>) = xs"
  using assms tq.deq_cons [of WAIT_MAX "wait_queue s" x xs]
  by (auto simp: wq_dequeue_def taskq_dequeue_get queues_inv_def wait_list_def split: prod.splits option.splits)

text \<open>
  \<open>rr_get\<close> reads the slot the next task will be inserted at. That slot is null except in a full queue: the
  function returns a task only when eight tasks are ready.
\<close>

lemma rr_get_insert_slot:
  assumes "queues_inv s"
  shows "rr_get s = (if length (ready_list s) = RR_MAX then hd (ready_list s) else 0)"
proof -
  have "taskq_inv RR_MAX (ready_queue s)" using assms by (simp add: queues_inv_def)
  then obtain t c where i: "q_tail (ready_queue s) = int t" "q_count (ready_queue s) = int c" "t < RR_MAX" "c \<le> RR_MAX"
      "0 < RR_MAX" "length (slots (ready_queue s)) = RR_MAX" "q_head (ready_queue s) = int ((t + c) mod RR_MAX)"
      "taskq_list (ready_queue s) = ring_list (slots (ready_queue s)) t c" "0 \<notin> set (taskq_list (ready_queue s))"
      "\<forall>i < RR_MAX. (\<forall>k < c. i \<noteq> (t + k) mod RR_MAX) \<longrightarrow> slots (ready_queue s) ! i = 0"
    by (rule taskq_inv_nat)
  show ?thesis
  proof (cases "c = RR_MAX")
    case True
    then have "rr_get s = slots (ready_queue s) ! t"
      using i(3) unfolding rr_get_def i(2,7) by (simp add: RR_MAX_def)
    moreover have "hd (ready_list s) = slots (ready_queue s) ! t"
      unfolding ready_list_def i(8) using True i(3,6) by (intro ring_list_nonempty) (auto simp: RR_MAX_def)
    ultimately show ?thesis using True by (simp add: ready_list_def i(8))
  next
    case False
    then have "\<forall>k < c. (t + c) mod RR_MAX \<noteq> (t + k) mod RR_MAX"
      using i(4) ring_slot_distinct [of _ c RR_MAX t] by auto
    moreover have "(t + c) mod RR_MAX < RR_MAX" by (simp add: RR_MAX_def)
    ultimately have "slots (ready_queue s) ! ((t + c) mod RR_MAX) = 0" using i(10) by blast
    then show ?thesis using False unfolding rr_get_def i(2,7) by (simp add: ready_list_def i(8))
  qed
qed

section \<open>Round robin\<close>

text \<open>A running current task, and a ready queue of other, ready tasks that all belong to a process.\<close>

definition sched_ok :: "kstate \<Rightarrow> bool" where [invs]:
  "sched_ok s \<longleftrightarrow> queues_inv s \<and> distinct (curr_task s # ready_list s)
     \<and> (\<forall>p \<in> set (curr_task s # ready_list s). \<exists>t x. task_at s p = Some t \<and> proc_at s (parent t) = Some x
          \<and> state t = (if p = curr_task s then TASK_STATE_RUN else TASK_STATE_READY))"

text \<open>Saving the interrupted task and putting it back, the part of \<open>rr_yield\<close> before the switch.\<close>

lemma rr_yield_requeue:
  assumes "queues_inv s" "task_at s (curr_task s) = Some t" "state t = TASK_STATE_RUN"
  obtains q where "queues_inv (s\<lparr>ready_queue := q\<rparr>)"
    "ready_list (s\<lparr>ready_queue := q\<rparr>) = take RR_MAX (ready_list s @ [curr_task s])"
    "rr_yield (Some f) s = (let (n, s3) = rr_dequeue ((set_task (curr_task s)
        (t\<lparr>registers := regs_of_frame f, state := TASK_STATE_READY\<rparr>) s)\<lparr>ready_queue := q\<rparr>) in task_switch n s3)"
proof -
  let ?c = "curr_task s" and ?t1 = "t\<lparr>registers := regs_of_frame f\<rparr>"
  let ?t2 = "t\<lparr>registers := regs_of_frame f, state := TASK_STATE_READY\<rparr>"
  let ?s2 = "set_task ?c ?t2 s"
  have c: "?c \<noteq> 0" using assms(2) by (rule task_at_nonzero)
  have ss: "set_task ?c ?t2 (set_task ?c ?t1 s) = ?s2" by (simp add: set_task_def)
  obtain q where q: "rr_enqueue ?c ?s2 = Some (?s2\<lparr>ready_queue := q\<rparr>)" "queues_inv (?s2\<lparr>ready_queue := q\<rparr>)"
      "ready_list (?s2\<lparr>ready_queue := q\<rparr>) = take RR_MAX (ready_list ?s2 @ [?c])"
    using rr_enqueue_ok [of ?s2 ?c ?t2] assms(1) c by auto
  have "rr_yield (Some f) s = (let (n, s3) = rr_dequeue (?s2\<lparr>ready_queue := q\<rparr>) in task_switch n s3)"
    using assms(2,3) c q(1) by (simp add: rr_yield_def task_get_curr_def task_save_def ss)
  moreover have "queues_inv (s\<lparr>ready_queue := q\<rparr>)"
      "ready_list (s\<lparr>ready_queue := q\<rparr>) = take RR_MAX (ready_list s @ [?c])"
    using q(2,3) by (simp_all add: queues_inv_def ready_list_def)
  ultimately show ?thesis using that by blast
qed

lemma rr_yield_step:
  assumes "sched_ok s"
  shows "\<exists>s' r. rr_yield (Some f) s = Some (s', Some r) \<and> sched_ok s'
    \<and> curr_task s' # ready_list s' = take RR_MAX (ready_list s @ [curr_task s]) \<and> wait_list s' = wait_list s
    \<and> (\<forall>p. map_option registers (task_at s' p)
          = (if p = curr_task s then Some (regs_of_frame f) else map_option registers (task_at s p)))
    \<and> map_option registers (task_at s' (curr_task s')) = Some r
    \<and> map_option state (task_at s' (curr_task s))
        = Some (if curr_task s = curr_task s' then TASK_STATE_RUN else TASK_STATE_READY)"
proof -
  let ?c = "curr_task s"
  obtain t where t: "task_at s ?c = Some t" "state t = TASK_STATE_RUN" "\<exists>x. proc_at s (parent t) = Some x"
    using assms by (auto simp: sched_ok_def)
  have qi: "queues_inv s" using assms by (simp add: sched_ok_def)
  have c: "?c \<noteq> 0" using t(1) by (rule task_at_nonzero)
  define s2 where "s2 = set_task ?c (t\<lparr>registers := regs_of_frame f, state := TASK_STATE_READY\<rparr>) s"
  obtain q where q: "queues_inv (s\<lparr>ready_queue := q\<rparr>)"
      "ready_list (s\<lparr>ready_queue := q\<rparr>) = take RR_MAX (ready_list s @ [?c])"
      "rr_yield (Some f) s = (let (n, s3) = rr_dequeue (s2\<lparr>ready_queue := q\<rparr>) in task_switch n s3)"
    using rr_yield_requeue [OF qi t(1,2)] unfolding s2_def .
  obtain n xs where xs: "take RR_MAX (ready_list s @ [?c]) = n # xs"
    by (cases "take RR_MAX (ready_list s @ [?c])") (auto simp: RR_MAX_def)
  have q2: "queues_inv (s2\<lparr>ready_queue := q\<rparr>)" "ready_list (s2\<lparr>ready_queue := q\<rparr>) = n # xs"
    using q(1,2) xs by (simp_all add: s2_def queues_inv_def ready_list_def)
  obtain q' where q': "rr_dequeue (s2\<lparr>ready_queue := q\<rparr>) = (n, s2\<lparr>ready_queue := q'\<rparr>)"
      "queues_inv (s2\<lparr>ready_queue := q'\<rparr>)" "ready_list (s2\<lparr>ready_queue := q'\<rparr>) = xs"
    using rr_dequeue_cons [OF q2] by auto
  have "set (n # xs) \<subseteq> set (ready_list s @ [?c])" unfolding xs [symmetric] by (rule set_take_subset)
  then have sub: "p \<in> insert ?c (set (ready_list s))" if "p \<in> set (n # xs)" for p using that by auto
  have "distinct (ready_list s @ [?c])" using assms by (auto simp: sched_ok_def)
  then have dist: "distinct (n # xs)" unfolding xs [symmetric] by (rule distinct_take)
  have look: "\<exists>u x. task_at s2 p = Some u \<and> proc_at s (parent u) = Some x \<and> state u = TASK_STATE_READY"
    if "p \<in> set (n # xs)" for p
    using sub [OF that] assms t c by (auto simp: sched_ok_def s2_def)
  obtain u x where u: "task_at s2 n = Some u" "proc_at s (parent u) = Some x"
    using look [of n] by auto
  have u': "task_at (s2\<lparr>ready_queue := q'\<rparr>) n = Some u" "proc_at (s2\<lparr>ready_queue := q'\<rparr>) (parent u) = Some x"
    using u by (simp_all add: s2_def)
  obtain s' where s': "task_switch n (s2\<lparr>ready_queue := q'\<rparr>) = Some (s', Some (registers u))"
      "\<And>r. task_at s' r = (if r = n then Some (u\<lparr>state := TASK_STATE_RUN\<rparr>) else task_at s2 r)"
      "proc_at s' = proc_at s" "curr_task s' = n" "ready_queue s' = q'" "wait_queue s' = wait_queue s"
    using task_switch_ok [OF u'] by (metis (no_types, lifting) kstate.select_convs(7) kstate.select_convs(8)
        kstate.update_convs(7) kstate.surjective proc_at_upd(1) s2_def set_task_frame(1,4) task_at_upd(1))
  have lists: "ready_list s' = xs" "wait_list s' = wait_list s" "queues_inv s'"
    using q'(2,3) s'(5,6) by (simp_all add: ready_list_def wait_list_def queues_inv_def s2_def)
  have ok: "sched_ok s'"
    unfolding sched_ok_def lists(1) s'(4) using lists(3) dist look u by (auto simp: s'(2,3))
  have regs: "map_option registers (task_at s' p)
      = (if p = ?c then Some (regs_of_frame f) else map_option registers (task_at s p))" for p
    using u(1) c by (auto simp: s'(2) s2_def split: if_splits)
  have st: "map_option state (task_at s' ?c) = Some (if ?c = curr_task s' then TASK_STATE_RUN else TASK_STATE_READY)"
    using u(1) c by (auto simp: s'(2,4) s2_def)
  have "rr_yield (Some f) s = Some (s', Some (registers u))" using q(3) q'(1) s'(1) by simp
  moreover have "map_option registers (task_at s' (curr_task s')) = Some (registers u)" by (simp add: s'(2,4))
  ultimately show ?thesis using ok lists xs regs st s'(4) by metis
qed

text \<open>A sequence of timer interrupts, each with the frame of the task it interrupts.\<close>

fun yields :: "interrupt_frame list \<Rightarrow> kstate \<Rightarrow> kstate option" where
  "yields [] s = Some s"
| "yields (f # fs) s = do { (s', r) \<leftarrow> rr_yield (Some f) s; yields fs s' }"

lemma yields_rotate:
  assumes "sched_ok s" "length (ready_list s) < RR_MAX"
  shows "\<exists>s'. yields fs s = Some s' \<and> sched_ok s'
    \<and> curr_task s' # ready_list s' = rotate (length fs) (curr_task s # ready_list s)"
  using assms
proof (induction fs arbitrary: s)
  case Nil
  then show ?case by simp
next
  case (Cons f fs)
  obtain s1 r where s1: "rr_yield (Some f) s = Some (s1, Some r)" "sched_ok s1"
      "curr_task s1 # ready_list s1 = take RR_MAX (ready_list s @ [curr_task s])"
    using rr_yield_step [OF Cons.prems(1)] by blast
  have rot: "curr_task s1 # ready_list s1 = rotate1 (curr_task s # ready_list s)"
    using s1(3) Cons.prems(2) by simp
  then have "length (ready_list s1) < RR_MAX" using Cons.prems(2) by (metis length_Cons length_rotate1 Suc_inject)
  from Cons.IH [OF s1(2) this] obtain s' where "yields fs s1 = Some s'" "sched_ok s'"
      "curr_task s' # ready_list s' = rotate (length fs) (curr_task s1 # ready_list s1)" by blast
  with s1(1) show ?case by (simp add: rot rotate1_rotate_swap)
qed

section \<open>Waking up\<close>

definition waits :: "kstate \<Rightarrow> wait_reason \<Rightarrow> ptr \<Rightarrow> bool" where
  "waits s reason p \<longleftrightarrow> (case task_at s p of Some t \<Rightarrow> waiting_on t = reason | None \<Rightarrow> False)"

definition wait_ok :: "kstate \<Rightarrow> bool" where [invs]:
  "wait_ok s \<longleftrightarrow> queues_inv s \<and> distinct (wait_list s)
     \<and> (\<forall>p \<in> set (wait_list s). \<exists>t. task_at s p = Some t \<and> state t = TASK_STATE_BLOCK)
     \<and> (\<exists>sch. curr_scheduler s = Some sch \<and> add_cb sch = Some FN_rr_add)"

definition woken :: "task \<Rightarrow> task" where
  "woken t = t\<lparr>waiting_on := WAIT_NONE, state := TASK_STATE_READY\<rparr>"

text \<open>One turn of the loop on the oldest waiting task.\<close>

lemma wq_wakeup_turn:
  assumes "wait_ok s" "wait_list s = p # ws"
  shows "\<exists>s'. wq_wakeup_loop (Suc i) reason s = wq_wakeup_loop i reason s' \<and> wait_ok s'
    \<and> wait_list s' = ws @ (if waits s reason p then [] else [p])
    \<and> ready_list s' = take RR_MAX (ready_list s @ (if waits s reason p then [p] else []))
    \<and> (\<forall>r. task_at s' r = (if r = p \<and> waits s reason p then map_option woken (task_at s r) else task_at s r))"
proof -
  obtain t sch where t: "task_at s p = Some t" "state t = TASK_STATE_BLOCK" "curr_scheduler s = Some sch"
      "add_cb sch = Some FN_rr_add" and qi: "queues_inv s" and d: "distinct (p # ws)"
    using assms by (auto simp: wait_ok_def)
  have p: "p \<noteq> 0" using t(1) by (rule task_at_nonzero)
  obtain q where q: "wq_dequeue s = (p, s\<lparr>wait_queue := q\<rparr>)" "queues_inv (s\<lparr>wait_queue := q\<rparr>)"
      "wait_list (s\<lparr>wait_queue := q\<rparr>) = ws"
    using wq_dequeue_cons [OF qi assms(2)] by blast
  let ?s1 = "s\<lparr>wait_queue := q\<rparr>"
  have len: "length (ready_list s) \<le> RR_MAX"
    using qi tq.contents_cap by (simp add: queues_inv_def ready_list_def)
  show ?thesis
  proof (cases "waiting_on t = reason")
    case True
    let ?s2 = "set_task p (woken t) ?s1"
    have "queues_inv ?s2" "task_at ?s2 p = Some (woken t)" using q(2) p by simp_all
    from rr_enqueue_ok [OF this] obtain q2 where q2: "rr_enqueue p ?s2 = Some (?s2\<lparr>ready_queue := q2\<rparr>)"
        "queues_inv (?s2\<lparr>ready_queue := q2\<rparr>)"
        "ready_list (?s2\<lparr>ready_queue := q2\<rparr>) = take RR_MAX (ready_list ?s2 @ [p])"
      by (auto simp: woken_def)
    have w: "waits s reason p" using True t(1) by (simp add: waits_def)
    have "wq_wakeup_loop (Suc i) reason s = wq_wakeup_loop i reason (?s2\<lparr>ready_queue := q2\<rparr>)"
      using q(1) t p True q2(1) by (simp add: task_set_unblock_def scheduler_get_def call_add_def rr_add_def woken_def)
    moreover have "wait_ok (?s2\<lparr>ready_queue := q2\<rparr>)"
      using q2(2) q(3) assms d p t(3,4) by (auto simp: wait_ok_def)
    ultimately show ?thesis
      using q2(3) q(3) p t(1) w by (intro exI [of _ "?s2\<lparr>ready_queue := q2\<rparr>"]) auto
  next
    case False
    have "task_at ?s1 p = Some t" using t(1) by simp
    from wq_enqueue_ok [OF q(2) this] obtain q2 where q2: "wq_enqueue p ?s1 = Some (?s1\<lparr>wait_queue := q2\<rparr>)"
        "queues_inv (?s1\<lparr>wait_queue := q2\<rparr>)" "wait_list (?s1\<lparr>wait_queue := q2\<rparr>) = take WAIT_MAX (ws @ [p])"
      using t(2) q(3) by auto
    have "length (wait_list s) \<le> WAIT_MAX" using qi tq.contents_cap by (simp add: queues_inv_def wait_list_def)
    then have wl: "wait_list (?s1\<lparr>wait_queue := q2\<rparr>) = ws @ [p]" using assms(2) q2(3) by simp
    have w: "\<not> waits s reason p" using False t(1) by (simp add: waits_def)
    have "wq_wakeup_loop (Suc i) reason s = wq_wakeup_loop i reason (?s1\<lparr>wait_queue := q2\<rparr>)"
      using q(1) t False q2(1) by simp
    moreover have "wait_ok (?s1\<lparr>wait_queue := q2\<rparr>)"
      using q2(2) wl assms d by (auto simp: wait_ok_def)
    ultimately show ?thesis
      using wl w len by (intro exI [of _ "?s1\<lparr>wait_queue := q2\<rparr>"]) auto
  qed
qed

lemma wq_wakeup_loop_splits:
  assumes "wait_ok s" "wait_list s = xs @ ys"
  shows "\<exists>s'. wq_wakeup_loop (length xs) reason s = Some s' \<and> wait_ok s'
    \<and> wait_list s' = ys @ filter (\<lambda>p. \<not> waits s reason p) xs
    \<and> ready_list s' = take RR_MAX (ready_list s @ filter (waits s reason) xs)
    \<and> (\<forall>r. task_at s' r = (if r \<in> set xs \<and> waits s reason r then map_option woken (task_at s r) else task_at s r))"
  using assms
proof (induction xs arbitrary: s ys)
  case Nil
  then have "length (ready_list s) \<le> RR_MAX"
    using tq.contents_cap by (simp add: wait_ok_def queues_inv_def ready_list_def)
  with Nil show ?case by simp
next
  case (Cons p xs)
  then have "wait_list s = p # (xs @ ys)" by simp
  from wq_wakeup_turn [OF Cons.prems(1) this] obtain s1 where
      s1: "wq_wakeup_loop (Suc (length xs)) reason s = wq_wakeup_loop (length xs) reason s1" "wait_ok s1"
      "wait_list s1 = (xs @ ys) @ (if waits s reason p then [] else [p])"
      "ready_list s1 = take RR_MAX (ready_list s @ (if waits s reason p then [p] else []))"
      "\<forall>r. task_at s1 r = (if r = p \<and> waits s reason p then map_option woken (task_at s r) else task_at s r)"
    by blast
  have np: "p \<notin> set xs" using Cons.prems by (auto simp: wait_ok_def)
  then have w: "waits s1 reason r = waits s reason r" if "r \<in> set xs" for r
    using that by (auto simp: waits_def s1(5) [rule_format])
  have f: "filter (waits s1 reason) xs = filter (waits s reason) xs"
      "filter (\<lambda>p. \<not> waits s1 reason p) xs = filter (\<lambda>p. \<not> waits s reason p) xs"
    using w by (auto intro: filter_cong)
  have tt: "take n (take n as @ bs) = take n (as @ bs)" for n and as bs :: "ptr list"
    by (cases "length as \<le> n") auto
  have wl: "wait_list s1 = xs @ (ys @ (if waits s reason p then [] else [p]))" using s1(3) by simp
  obtain s' where s': "wq_wakeup_loop (length xs) reason s1 = Some s'" "wait_ok s'"
      "wait_list s' = (ys @ (if waits s reason p then [] else [p])) @ filter (\<lambda>p. \<not> waits s reason p) xs"
      "ready_list s' = take RR_MAX (ready_list s1 @ filter (waits s reason) xs)"
      "\<forall>r. task_at s' r = (if r \<in> set xs \<and> waits s1 reason r then map_option woken (task_at s1 r) else task_at s1 r)"
    using Cons.IH [OF s1(2) wl] unfolding f by blast
  have "task_at s' r = (if r \<in> set (p # xs) \<and> waits s reason r then map_option woken (task_at s r) else task_at s r)" for r
    using np w [of r] by (auto simp: s'(5) [rule_format] s1(5) [rule_format])
  moreover have "wait_list s' = ys @ filter (\<lambda>p. \<not> waits s reason p) (p # xs)" unfolding s'(3) by simp
  moreover have "ready_list s' = take RR_MAX (ready_list s @ filter (waits s reason) (p # xs))"
    unfolding s'(4) s1(4) tt by (cases "waits s reason p") (simp_all del: take_append)
  moreover have "wq_wakeup_loop (length (p # xs)) reason s = Some s'" using s1(1) s'(1) by (simp only: length_Cons)
  ultimately show ?case using s'(2) by blast
qed

text \<open>\<open>wq_wakeup\<close> moves exactly the tasks that wait for the reason from the wait queue to the end of the ready
  queue, in order, unblocks exactly these, and keeps the others waiting in their order. What does not fit into the
  eight slots of the ready queue is lost: it is unblocked and in neither queue.\<close>

lemma wq_wakeup_result:
  assumes "wait_ok s"
  shows "\<exists>s'. wq_wakeup reason s = Some s' \<and> wait_ok s'
    \<and> wait_list s' = filter (\<lambda>p. \<not> waits s reason p) (wait_list s)
    \<and> ready_list s' = take RR_MAX (ready_list s @ filter (waits s reason) (wait_list s))
    \<and> (\<forall>p. task_at s' p = (if p \<in> set (wait_list s) \<and> waits s reason p then map_option woken (task_at s p)
                           else task_at s p))"
proof -
  have "nat (wq_size s) = length (wait_list s)"
    by (simp add: wq_size_def wait_list_def taskq_list_def)
  with wq_wakeup_loop_splits [OF assms, of "wait_list s" "[]" reason] show ?thesis
    by (simp add: wq_wakeup_def)
qed

section \<open>Properties\<close>


text \<open>A concrete state: task 1 runs, task 2 is ready and task 3 waits for the keyboard, all of process 1.\<close>

definition regs0 :: "u32 \<Rightarrow> task_registers" where
  "regs0 v = \<lparr>r_edi = v, r_esi = v, r_ebp = v, r_ebx = v, r_edx = v, r_ecx = v, r_eax = v, r_eip = v, r_cs = v,
     r_eflags = v, r_esp = v, r_ss = v\<rparr>"

definition frame0 :: interrupt_frame where
  "frame0 = \<lparr>f_edi = 0, f_esi = 0, f_ebp = 0, f_reserved = 0, f_ebx = 0, f_edx = 0, f_ecx = 0, f_eax = 0, f_eip = 0,
     f_cs = 0, f_eflags = 0, f_esp = 0, f_ss = 0\<rparr>"

definition task0 :: "task_state \<Rightarrow> wait_reason \<Rightarrow> task" where
  "task0 st w = \<lparr>stack_top = 0, stack_bottom = 0, registers = regs0 0, parent = 1, state = st, waiting_on = w\<rparr>"

definition kstate0 :: kstate where
  "kstate0 = \<lparr>task_store = [1 \<mapsto> task0 TASK_STATE_RUN WAIT_NONE, 2 \<mapsto> task0 TASK_STATE_READY WAIT_NONE,
        3 \<mapsto> task0 TASK_STATE_BLOCK WAIT_KEYBOARD],
     proc_store = [1 \<mapsto> \<lparr>pid = 1, filename = [0x4B, 0x49, 0x44, 0x4C, 0x45] @ replicate 123 0, tasks = [1, 2, 3] @ replicate 13 0, page_dir = 0xC0400000,
        task_count = 3, filetype = PROCESS_KERNEL_THREAD, psize = 0, keyboard_buffer = 0, prev_proc = 0, next_proc = 0\<rparr>],
     curr_task = 1, curr_process = 1, processes = 1, next_pid = 2,
     ready_queue = \<lparr>slots = [2, 0, 0, 0, 0, 0, 0, 0], q_head = 1, q_tail = 0, q_count = 1\<rparr>,
     wait_queue = \<lparr>slots = [3, 0, 0, 0, 0, 0, 0, 0], q_head = 1, q_tail = 0, q_count = 1\<rparr>,
     curr_scheduler = Some \<lparr>add_cb = Some FN_rr_add, yield_cb = Some FN_rr_yield, dump_cb = Some FN_rr_dump,
       get_cb = Some FN_rr_get, sched_name = ''RoundRobin''\<rparr>,
     foreground_process = 1, cr3 = 0, errno = 0\<rparr>"

lemma taskq_single:
  assumes "p \<noteq> 0"
  shows "taskq_inv 8 \<lparr>slots = [p, 0, 0, 0, 0, 0, 0, 0], q_head = 1, q_tail = 0, q_count = 1\<rparr>"
    "taskq_list \<lparr>slots = [p, 0, 0, 0, 0, 0, 0, 0], q_head = 1, q_tail = 0, q_count = 1\<rparr> = [p]"
proof -
  let ?look = "\<lambda>_. Some (task0 TASK_STATE_READY WAIT_NONE)"
  have a: "admits TASK_STATE_READY ?look p" using assms by (simp add: admits_def task0_def)
  have e: "taskq_put 8 TASK_STATE_READY ?look p (taskq_empty 8)
      = \<lparr>slots = [p, 0, 0, 0, 0, 0, 0, 0], q_head = 1, q_tail = 0, q_count = 1\<rparr>"
    using assms by (simp add: taskq_put_def taskq_enqueue_def taskq_empty_def task0_def eval_nat_numeral)
  show "taskq_inv 8 \<lparr>slots = [p, 0, 0, 0, 0, 0, 0, 0], q_head = 1, q_tail = 0, q_count = 1\<rparr>"
    "taskq_list \<lparr>slots = [p, 0, 0, 0, 0, 0, 0, 0], q_head = 1, q_tail = 0, q_count = 1\<rparr> = [p]"
    using taskq_put_admit [OF taskq_empty_inv(1) a, of 8] by (simp_all add: e)
qed

lemma kstate0_lists: "ready_list kstate0 = [2]" "wait_list kstate0 = [3]" "queues_inv kstate0"
  using taskq_single [of 2] taskq_single [of 3]
  by (simp_all add: ready_list_def wait_list_def queues_inv_def kstate0_def konst)

lemma kstate0_sched_ok: "sched_ok kstate0" and kstate0_wait_ok: "wait_ok kstate0"
  unfolding sched_ok_def wait_ok_def kstate0_lists using kstate0_lists(3)
  by (simp_all add: kstate0_def task_at_def proc_at_def task0_def)


text \<open>C9: fairness. While at most eight tasks compete and none blocks, \<open>n\<close> timer interrupts rotate the ring of
  current and ready tasks by \<open>n\<close>: the \<open>i\<close>-th task of the ring runs after \<open>i\<close> interrupts, and again after every full turn.\<close>

theorem round_robin_fair:
  assumes "sched_ok s" "length (ready_list s) < RR_MAX"
  shows "\<exists>s'. yields fs s = Some s' \<and> sched_ok s'
    \<and> curr_task s' # ready_list s' = rotate (length fs) (curr_task s # ready_list s)
    \<and> curr_task s' = (curr_task s # ready_list s) ! (length fs mod Suc (length (ready_list s)))"
proof -
  obtain s' where s': "yields fs s = Some s'" "sched_ok s'"
      "curr_task s' # ready_list s' = rotate (length fs) (curr_task s # ready_list s)"
    using yields_rotate [OF assms] by blast
  from arg_cong [OF s'(3), of hd] have "curr_task s' = (curr_task s # ready_list s) ! (length fs mod Suc (length (ready_list s)))"
    by (simp add: hd_rotate_conv_nth)
  with s' show ?thesis by blast
qed

theorem round_robin_fair_witness:
  "\<exists>s'. yields [frame0, frame0] kstate0 = Some s' \<and> curr_task s' = 1 \<and> ready_list s' = [2]"
  using round_robin_fair [OF kstate0_sched_ok, of "[frame0, frame0]"] kstate0_lists
  by (auto simp: konst kstate0_def rotate_def)

text \<open>the ready queue has room for eight tasks besides the running one only if none of them is put back: with a full
  queue a yield drops the interrupted task. It stays ready but is in no queue, so no later interrupt resumes it.\<close>

theorem rr_yield_full_drops_current:
  assumes "sched_ok s" "length (ready_list s) = RR_MAX"
  shows "\<exists>s' r. rr_yield (Some f) s = Some (s', Some r)
    \<and> map_option state (task_at s' (curr_task s)) = Some TASK_STATE_READY
    \<and> curr_task s \<notin> set (curr_task s' # ready_list s') \<and> wait_list s' = wait_list s"
proof -
  obtain s' r where s': "rr_yield (Some f) s = Some (s', Some r)"
      "curr_task s' # ready_list s' = ready_list s" "wait_list s' = wait_list s"
      "map_option state (task_at s' (curr_task s))
        = Some (if curr_task s = curr_task s' then TASK_STATE_RUN else TASK_STATE_READY)"
    using rr_yield_step [OF assms(1), of f] assms(2) by auto
  have n: "curr_task s \<notin> set (curr_task s' # ready_list s')"
    unfolding s'(2) using assms(1) by (simp add: sched_ok_def)
  then have "curr_task s \<noteq> curr_task s'" by auto
  with s'(1,3,4) n show ?thesis by (intro exI [of _ s'] exI [of _ r]) simp
qed

definition kstate_full :: kstate where
  "kstate_full = kstate0\<lparr>task_store := (\<lambda>p. if 2 \<le> p \<and> p < 10 then Some (task0 TASK_STATE_READY WAIT_NONE)
       else task_store kstate0 p),
     ready_queue := \<lparr>slots = [2..<10], q_head = 0, q_tail = 0, q_count = 8\<rparr>\<rparr>"

lemma kstate_full_lists: "ready_list kstate_full = [2..<10]" "queues_inv kstate_full"
proof -
  have l: "taskq_list \<lparr>slots = [2..<10], q_head = 0, q_tail = 0, q_count = 8\<rparr> = [2..<10]"
    unfolding taskq_list_def by (rule nth_equalityI) (simp_all add: ring_list_nth)
  then show "ready_list kstate_full = [2..<10]" by (simp add: ready_list_def kstate_full_def)
  have "taskq_inv 8 \<lparr>slots = [2..<10], q_head = 0, q_tail = 0, q_count = 8\<rparr>"
    unfolding taskq_inv_def l by auto
  then show "queues_inv kstate_full"
    using kstate0_lists(3) by (simp add: kstate_full_def queues_inv_def konst)
qed

theorem rr_yield_full_drops_current_witness:
  "\<exists>s' r. rr_yield (Some frame0) kstate_full = Some (s', Some r) \<and> curr_task kstate_full = 1
     \<and> 1 \<notin> set (curr_task s' # ready_list s')"
proof -
  have c: "curr_task kstate_full = 1" by (simp add: kstate_full_def kstate0_def)
  have "sched_ok kstate_full"
    unfolding sched_ok_def kstate_full_lists(1) c using kstate_full_lists(2)
    by (auto simp: kstate_full_def kstate0_def task_at_def proc_at_def task0_def)
  from rr_yield_full_drops_current [OF this, of frame0] show ?thesis
    by (auto simp: c kstate_full_lists(1) konst)
qed

lemma wq_wakeup_example:
  "\<exists>s'. wq_wakeup WAIT_KEYBOARD kstate0 = Some s' \<and> wait_list s' = [] \<and> ready_list s' = [2, 3]
     \<and> map_option state (task_at s' 3) = Some TASK_STATE_READY"
proof -
  have w: "waits kstate0 WAIT_KEYBOARD 3" by (simp add: waits_def kstate0_def task_at_def task0_def)
  have t: "task_at kstate0 3 = Some (task0 TASK_STATE_BLOCK WAIT_KEYBOARD)" by (simp add: kstate0_def task_at_def)
  show ?thesis
    using wq_wakeup_result [OF kstate0_wait_ok, of WAIT_KEYBOARD] w t
    by (auto simp: kstate0_lists konst woken_def)
qed

end
