(* ===== verification/Process.thy ===== *)
theory Process
  imports Sched Vfs Platform
begin

text \<open>
  Processes and the creation of tasks: \<open>process/process.c\<close> and the rest of \<open>process/task.c\<close>, on the whole state of the
  kernel. \<open>task_t\<close>, \<open>process_t\<close> and \<open>fifo_t\<close> objects are allocated on the kernel heap and their pointers are the addresses
  \<open>kzalloc\<close> returns; the frame allocator and the kernel's page directory are those of the heap. User memory is physical
  memory seen through the directory that CR3 selects: an access to a page that is not present faults and has no result.
  Messages on the screen are left out.
\<close>

unbundle bit_operations_syntax

section \<open>State\<close>

definition USER_CODE_START :: u32 where [konst]: "USER_CODE_START = 0"
definition USER_BSS_END :: u32 where [konst]: "USER_BSS_END = 0x7FFFFF"
definition USER_HEAP_START :: u32 where [konst]: "USER_HEAP_START = 0x800000"
definition USER_HEAP_END :: u32 where [konst]: "USER_HEAP_END = 0xBFFFFF"
definition USER_STACK_SIZE :: u32 where [konst]: "USER_STACK_SIZE = 0x400000"
definition USER_STACK_END :: u32 where [konst]: "USER_STACK_END = 0xBFFFFFFF"
definition KERNEL_STACK_SIZE :: u32 where [konst]: "KERNEL_STACK_SIZE = 0x8000"
definition EFLAGS_IF :: u32 where [konst]: "EFLAGS_IF = 0x200"
definition EFLAGS_MBS :: u32 where [konst]: "EFLAGS_MBS = 2"
definition PROCESS_MAX_FILENAME :: nat where [konst]: "PROCESS_MAX_FILENAME = 128"

text \<open>The functions in the system call table.\<close>

datatype sys_fn = FN_sys_exit | FN_sys_write | FN_sys_read | FN_sys_open | FN_sys_close | FN_sys_getdents

text \<open>\<open>dirs\<close> holds the page directories of processes by their kernel addresses, \<open>kdir_addr\<close> is the address the linker gives
  \<open>kernel_directory\<close>, \<open>fifos\<close> the keyboard buffers, \<open>pmem\<close> the frames of user pages and \<open>console\<close> what user programs print.\<close>

record 'd sys =
  ks :: kstate
  vfs :: "'d vfs_state"
  dirs :: "u32 \<rightharpoonup> pdir"
  kdir_addr :: u32
  fifos :: "ptr \<rightharpoonup> fifo"
  pmem :: "u32 \<Rightarrow> u8"
  console :: "u8 list"
  syscalls :: "sys_fn option list"

abbreviation kheap_of :: "'d sys \<Rightarrow> kheap" where "kheap_of s \<equiv> kh (fsys (vfs s))"

definition upd_kheap :: "(kheap \<Rightarrow> kheap) \<Rightarrow> 'd sys \<Rightarrow> 'd sys" where
  "upd_kheap f s = s\<lparr>vfs := (vfs s)\<lparr>fsys := (fsys (vfs s))\<lparr>kh := f (kheap_of s)\<rparr>\<rparr>\<rparr>"

definition set_pfa :: "pfa \<Rightarrow> 'd sys \<Rightarrow> 'd sys" where
  "set_pfa p = upd_kheap (\<lambda>h. h\<lparr>kpfa := p\<rparr>)"

definition set_kdir :: "pdir \<Rightarrow> 'd sys \<Rightarrow> 'd sys" where
  "set_kdir d = upd_kheap (\<lambda>h. h\<lparr>kdir := d\<rparr>)"

definition set_errno :: "int \<Rightarrow> 'd sys \<Rightarrow> 'd sys" where
  "set_errno e s = s\<lparr>ks := (ks s)\<lparr>errno := e\<rparr>\<rparr>"

definition sys_kzalloc :: "nat \<Rightarrow> 'd sys \<Rightarrow> (ptr \<times> 'd sys) option" where
  "sys_kzalloc n s = do { (p, v) \<leftarrow> vfs_alloc n (vfs s); Some (p, s\<lparr>vfs := v\<rparr>) }"

definition sys_kfree :: "ptr \<Rightarrow> 'd sys \<Rightarrow> 'd sys option" where
  "sys_kfree p s = do { v \<leftarrow> vfs_free p (vfs s);
     Some (s\<lparr>vfs := v, fifos := (fifos s)(p := None),
       ks := (ks s)\<lparr>task_store := (task_store (ks s))(p := None), proc_store := (proc_store (ks s))(p := None)\<rparr>\<rparr>) }"

text \<open>A call of the VFS, which shares \<open>errno\<close> with the rest of the kernel, and one of the task operations.\<close>

definition vfs_call :: "('d vfs_state \<Rightarrow> ('r \<times> 'd vfs_state) option) \<Rightarrow> 'd sys \<Rightarrow> ('r \<times> 'd sys) option" where
  "vfs_call f s = do { (r, v) \<leftarrow> f ((vfs s)\<lparr>vfs_errno := errno (ks s)\<rparr>);
     Some (r, s\<lparr>vfs := v, ks := (ks s)\<lparr>errno := vfs_errno v\<rparr>\<rparr>) }"

definition vfs_call2 :: "('d vfs_state \<Rightarrow> ('r \<times> 'x \<times> 'd vfs_state) option) \<Rightarrow> 'd sys \<Rightarrow> ('r \<times> 'x \<times> 'd sys) option" where
  "vfs_call2 f s = do { ((r, x), s') \<leftarrow> vfs_call (\<lambda>v. map_option (\<lambda>(r, x, v'). ((r, x), v')) (f v)) s; Some (r, x, s') }"

definition ks_call :: "(kstate \<Rightarrow> kstate option) \<Rightarrow> 'd sys \<Rightarrow> 'd sys option" where
  "ks_call f s = do { k \<leftarrow> f (ks s); Some (s\<lparr>ks := k\<rparr>) }"

section \<open>Directories and user memory\<close>

text \<open>The directory at a kernel address, and the one CR3 selects.\<close>

definition dir_at :: "'d sys \<Rightarrow> u32 \<Rightarrow> pdir option" where
  "dir_at s a = (if a = kdir_addr s then Some (kdir (kheap_of s)) else dirs s a)"

definition set_dir :: "u32 \<Rightarrow> pdir \<Rightarrow> 'd sys \<Rightarrow> 'd sys" where
  "set_dir a d s = (if a = kdir_addr s then set_kdir d s else s\<lparr>dirs := (dirs s)(a \<mapsto> d)\<rparr>)"

definition active_dir :: "'d sys \<Rightarrow> pdir option" where
  "active_dir s = dir_at s (p2v (cr3 (ks s)))"

text \<open>\<open>page_get_dir\<close> returns the physical address in CR3 and its callers use it as a pointer. That reaches the directory only
  while the kernel's directory is active and maps this address to itself.\<close>

definition page_get_dir :: "'d sys \<Rightarrow> pdir option" where
  "page_get_dir s = (let d = kdir (kheap_of s); a = cr3 (ks s) in
     if a = v2p (kdir_addr s) \<and> d ! pd_index a AND PAGE_PRESENT \<noteq> 0 \<and> page_get_phys_addr d a = a then Some d else None)"

definition page_restore_kernel_dir :: "'d sys \<Rightarrow> 'd sys" where
  "page_restore_kernel_dir s = s\<lparr>ks := (ks s)\<lparr>cr3 := v2p (kdir_addr s)\<rparr>\<rparr>"

text \<open>Kernel code that copies to and from a user pointer runs with the privileges of the kernel: an address of the kernel half
  reaches kernel memory, of which the heap is kept here.\<close>

fun poke :: "pdir \<Rightarrow> u32 \<Rightarrow> u8 list \<Rightarrow> (u32 \<Rightarrow> u8) \<times> kheap \<Rightarrow> ((u32 \<Rightarrow> u8) \<times> kheap) option" where
  "poke d a [] mh = Some mh"
| "poke d a (x # xs) mh = (if d ! pd_index a AND PAGE_PRESENT = 0 then None
     else poke d (a + 1) xs (if a < KERNEL_VIRTUAL_START then ((fst mh)(page_get_phys_addr d a := x), snd mh)
       else (fst mh, write_data (unat a) [x] (snd mh))))"

fun peek :: "pdir \<Rightarrow> u32 \<Rightarrow> nat \<Rightarrow> (u32 \<Rightarrow> u8) \<times> kheap \<Rightarrow> u8 list option" where
  "peek d a 0 mh = Some []"
| "peek d a (Suc n) mh = (if d ! pd_index a AND PAGE_PRESENT = 0 then None
     else map_option (\<lambda>xs. (if a < KERNEL_VIRTUAL_START then fst mh (page_get_phys_addr d a) else kdata (snd mh) (unat a)) # xs)
       (peek d (a + 1) n mh))"

definition user_write :: "u32 \<Rightarrow> u8 list \<Rightarrow> 'd sys \<Rightarrow> 'd sys option" where
  "user_write a bs s = do { d \<leftarrow> active_dir s; (m, h) \<leftarrow> poke d a bs (pmem s, kheap_of s);
     Some ((upd_kheap (\<lambda>_. h) s)\<lparr>pmem := m\<rparr>) }"

definition user_read :: "u32 \<Rightarrow> nat \<Rightarrow> 'd sys \<Rightarrow> u8 list option" where
  "user_read a n s = do { d \<leftarrow> active_dir s; peek d a n (pmem s, kheap_of s) }"

definition kernel_write :: "ptr \<Rightarrow> u8 list \<Rightarrow> 'd sys \<Rightarrow> 'd sys" where
  "kernel_write p bs = upd_kheap (write_data p bs)"

section \<open>\<open>process/task.c\<close>: creating tasks\<close>

definition regs_zero :: task_registers where
  "regs_zero = \<lparr>r_edi = 0, r_esi = 0, r_ebp = 0, r_ebx = 0, r_edx = 0, r_ecx = 0, r_eax = 0, r_eip = 0, r_cs = 0,
     r_eflags = 0, r_esp = 0, r_ss = 0\<rparr>"

definition init_task :: "ptr \<Rightarrow> 'd sys \<Rightarrow> (ptr \<times> 'd sys) option" where
  "init_task par s = do {
     (t, s1) \<leftarrow> sys_kzalloc 68 s;
     if t = 0 then Some (0, set_errno ENOMEM s1)
     else Some (t, s1\<lparr>ks := set_task t \<lparr>stack_top = 0, stack_bottom = 0, registers = regs_zero, parent = par,
       state = TASK_STATE_READY, waiting_on = WAIT_NONE\<rparr> (ks s1)\<rparr>) }"

text \<open>The descriptor is not closed, and a failed read makes the length of the copy negative: converted to \<open>size_t\<close> it is
  almost 4 GiB, and the copy runs into pages that are not mapped.\<close>

definition load_binary_into_task :: "'d bus \<Rightarrow> u8 list \<Rightarrow> 'd sys \<Rightarrow> 'd sys option" where
  "load_binary_into_task b file s = do {
     (fd, s1) \<leftarrow> vfs_call (vfs_fopen b file [0x72, 0]) s;
     (r, v, s2) \<leftarrow> vfs_call2 (vfs_fstat b fd True) s1;
     let sz = (case v of None \<Rightarrow> 0 | Some st \<Rightarrow> st_size st);
     (buf, s3) \<leftarrow> sys_kzalloc (unat sz) s2;
     (bytes_read, bs, s4) \<leftarrow> vfs_call2 (vfs_fread b (buf \<noteq> 0) sz 1 fd) s3;
     if sint bytes_read < 0 \<or> (buf = 0 \<and> bytes_read \<noteq> 0) then None else do {
     s5 \<leftarrow> user_write USER_CODE_START (take (unat bytes_read) (bs @ replicate (unat sz) 0)) s4;
     sys_kfree buf s5 } }"

definition task_kcreate :: "ptr \<Rightarrow> u32 \<Rightarrow> 'd sys \<Rightarrow> (ptr \<times> 'd sys) option" where
  "task_kcreate par entry s = do {
     p \<leftarrow> proc_at (ks s) par;
     if unat (task_count p) \<ge> PROCESS_MAX_THREAD then Some (0, s)
     else do {
       (t, s1) \<leftarrow> init_task par s;
       if t = 0 then Some (0, set_errno (- ENOMEM) s1)
       else do {
         (stack, s2) \<leftarrow> sys_kzalloc (unat KERNEL_STACK_SIZE) s1;
         if stack = 0 then Some (0, set_errno (- ENOMEM) s2)
         else do {
           x \<leftarrow> task_at (ks s2) t;
           let top = of_nat stack + KERNEL_STACK_SIZE;
           Some (t, s2\<lparr>ks := set_task t (x\<lparr>stack_top := top, stack_bottom := of_nat stack,
             registers := (registers x)\<lparr>r_eip := entry, r_eflags := EFLAGS_IF OR EFLAGS_MBS, r_ebp := top, r_esp := top,
               r_cs := GDT_KERNEL_CODE_SEGMENT, r_ss := GDT_KERNEL_DATA_SEGMENT\<rparr>\<rparr>) (ks s2)\<rparr>) } } } }"

definition user_flags :: u32 where [konst]: "user_flags = PAGE_PS OR PAGE_PRESENT OR PAGE_WRITABLE OR PAGE_USER"

text \<open>\<open>page_map_between\<close> on a directory of the state; a null pointer is only reported.\<close>

definition map_between :: "u32 \<Rightarrow> u32 \<Rightarrow> u32 \<Rightarrow> 'd sys \<Rightarrow> 'd sys option" where
  "map_between a from to s = (if a = 0 then Some s else do {
     d \<leftarrow> dir_at s a;
     (d', p') \<leftarrow> page_map_between (Some d) from to user_flags (kpfa (kheap_of s));
     d2 \<leftarrow> d';
     Some (set_dir a d2 (set_pfa p' s)) })"

definition stack_slot :: u32 where [konst]: "stack_slot = USER_STACK_SIZE div of_nat PROCESS_MAX_THREAD"

definition task_create :: "'d bus \<Rightarrow> ptr \<Rightarrow> u8 list \<Rightarrow> 'd sys \<Rightarrow> (ptr \<times> 'd sys) option" where
  "task_create b par file s = do {
     p \<leftarrow> proc_at (ks s) par;
     if unat (task_count p) \<ge> PROCESS_MAX_THREAD then Some (0, s)
     else do {
       (t, s1) \<leftarrow> init_task par s;
       if t = 0 \<or> page_dir p = 0 then Some (0, s1)
       else do {
         x \<leftarrow> task_at (ks s1) t;
         let top = USER_STACK_END - ucast (task_count p) * stack_slot;
         let bot = top - stack_slot + 1;
         let s2 = s1\<lparr>ks := set_task t (x\<lparr>stack_top := top, stack_bottom := bot\<rparr>) (ks s1)\<rparr>;
         s3 \<leftarrow> map_between (page_dir p) bot top s2;
         s4 \<leftarrow> ks_call (task_restore_dir t) s3;
         s5 \<leftarrow> load_binary_into_task b file s4;
         let s6 = page_restore_kernel_dir s5;
         y \<leftarrow> task_at (ks s6) t;
         Some (t, s6\<lparr>ks := set_task t (y\<lparr>registers := (registers y)\<lparr>r_eip := USER_CODE_START, r_eflags := EFLAGS_IF OR EFLAGS_MBS,
           r_ebp := stack_top y AND NOT STACK_ALIGN_MASK_4, r_esp := stack_top y AND NOT STACK_ALIGN_MASK_4,
           r_cs := GDT_USER_CODE_SEGMENT OR 3, r_ss := GDT_USER_DATA_SEGMENT OR 3\<rparr>\<rparr>) (ks s6)\<rparr>) } } }"

section \<open>\<open>process/process.c\<close>\<close>

text \<open>\<open>strncpy\<close> into a zeroed array of \<open>n\<close> bytes, leaving the last byte zero.\<close>

definition name_field :: "nat \<Rightarrow> u8 list \<Rightarrow> u8 list" where
  "name_field n str = (let cs = take (n - 1) (takeWhile (\<lambda>c. c \<noteq> 0) str) in cs @ replicate (n - length cs) 0)"

definition process_alloc :: "u8 list \<Rightarrow> process_filetype \<Rightarrow> 'd sys \<Rightarrow> (ptr \<times> 'd sys) option" where
  "process_alloc filepath ft s = do {
     (p, s1) \<leftarrow> sys_kzalloc 236 s;
     if p = 0 then Some (0, s1)
     else do {
       let n = next_pid (ks s1);
       let s2 = s1\<lparr>ks := (ks s1)\<lparr>next_pid := n + 1\<rparr>\<rparr>;
       (k, s3) \<leftarrow> sys_kzalloc 131 s2;
       let s4 = (if k = 0 then s3 else s3\<lparr>fifos := (fifos s3)(k \<mapsto> fifo.make (replicate 128 0) 0 0 0)\<rparr>);
       Some (p, s4\<lparr>ks := set_proc p \<lparr>pid = n, filename = name_field PROCESS_MAX_FILENAME filepath,
         tasks = replicate PROCESS_MAX_THREAD 0, page_dir = 0, task_count = 0, filetype = ft, psize = 0,
         keyboard_buffer = k, prev_proc = 0, next_proc = 0\<rparr> (ks s4)\<rparr>) } }"

definition process_list_insert :: "ptr \<Rightarrow> kstate \<Rightarrow> kstate option" where
  "process_list_insert new s = do {
     x \<leftarrow> proc_at s new;
     let (curr, s1) = process_get_curr s;
     if curr = 0 then
       Some ((process_set_curr new (set_proc new (x\<lparr>prev_proc := 0, next_proc := 0\<rparr>) s1))\<lparr>processes := new\<rparr>)
     else do {
       let s2 = set_proc new (x\<lparr>next_proc := processes s1, prev_proc := 0\<rparr>) s1;
       s3 \<leftarrow> (if processes s2 = 0 then Some s2
         else do { h \<leftarrow> proc_at s2 (processes s2); Some (set_proc (processes s2) (h\<lparr>prev_proc := new\<rparr>) s2) });
       Some (s3\<lparr>processes := new\<rparr>) } }"

definition process_get_filesize :: "'d bus \<Rightarrow> u8 list \<Rightarrow> 'd sys \<Rightarrow> (u32 \<times> 'd sys) option" where
  "process_get_filesize b name s = do {
     (fd, s1) \<leftarrow> vfs_call (vfs_fopen b name [0x72, 0]) s;
     if fd < 0 then Some (0, s1)
     else do {
       (r, v, s2) \<leftarrow> vfs_call2 (vfs_fstat b fd True) s1;
       (r2, s3) \<leftarrow> vfs_call (vfs_fclose fd) s2;
       Some (if r < 0 then 0 else case v of None \<Rightarrow> 0 | Some st \<Rightarrow> st_size st, s3) } }"

text \<open>\<open>page_create_dir\<close> on the kernel's state: the directory it maps the new one into is the kernel's own.\<close>

definition create_dir :: "'d sys \<Rightarrow> (u32 \<times> 'd sys) option" where
  "create_dir s = do {
     d \<leftarrow> page_get_dir s;
     (r, d', p') \<leftarrow> page_create_dir None d (kpfa (kheap_of s)) user_flags;
     let s1 = set_kdir d' (set_pfa p' s);
     Some (case r of None \<Rightarrow> (0, s1) | Some (a, new) \<Rightarrow> (a, s1\<lparr>dirs := (dirs s1)(a \<mapsto> new)\<rparr>)) }"

definition add_task :: "ptr \<Rightarrow> ptr \<Rightarrow> kstate \<Rightarrow> kstate option" where
  "add_task proc t s = do {
     x \<leftarrow> proc_at s proc;
     Some (set_proc proc (x\<lparr>tasks := (tasks x)[unat (task_count x) := t], task_count := task_count x + 1\<rparr>) s) }"

definition process_spawn :: "'d bus \<Rightarrow> u8 list \<Rightarrow> 'd sys \<Rightarrow> (ptr \<times> 'd sys) option" where
  "process_spawn b filepath s = do {
     (proc, s1) \<leftarrow> process_alloc filepath PROCESS_BINARY s;
     if proc = 0 then Some (0, set_errno (- ENOMEM) s1)
     else do {
       x \<leftarrow> proc_at (ks s1) proc;
       if unat (task_count x) \<ge> PROCESS_MAX_THREAD
       then do { s2 \<leftarrow> sys_kfree proc s1; Some (0, set_errno (- E2BIG) s2) }
       else do {
         (a, s2) \<leftarrow> create_dir s1;
         let s3 = s2\<lparr>ks := set_proc proc (x\<lparr>page_dir := a\<rparr>) (ks s2)\<rparr>;
         s4 \<leftarrow> map_between a USER_CODE_START USER_BSS_END s3;
         s5 \<leftarrow> map_between a USER_HEAP_START USER_HEAP_END s4;
         (t, s6) \<leftarrow> task_create b proc (filename x) s5;
         if t = 0 then do { s7 \<leftarrow> sys_kfree proc (set_errno (- ENOMEM) s6); Some (0, s7) }
         else do {
           (sz, s7) \<leftarrow> process_get_filesize b (filename x) s6;
           y \<leftarrow> proc_at (ks s7) proc;
           let s8 = s7\<lparr>ks := set_proc proc (y\<lparr>psize := sz\<rparr>) (ks s7)\<rparr>;
           s9 \<leftarrow> ks_call (add_task proc t) s8;
           s10 \<leftarrow> ks_call (process_list_insert proc) s9;
           Some (proc, s10) } } } }"

definition process_kspawn :: "u32 \<Rightarrow> u8 list \<Rightarrow> 'd sys \<Rightarrow> (ptr \<times> 'd sys) option" where
  "process_kspawn entry name s = do {
     (proc, s1) \<leftarrow> process_alloc name PROCESS_KERNEL_THREAD s;
     if proc = 0 then Some (0, set_errno (- ENOMEM) s1)
     else do {
       x \<leftarrow> proc_at (ks s1) proc;
       let s2 = s1\<lparr>ks := set_proc proc (x\<lparr>page_dir := kdir_addr s1\<rparr>) (ks s1)\<rparr>;
       if unat (task_count x) \<ge> PROCESS_MAX_THREAD
       then do { s3 \<leftarrow> sys_kfree proc s2; Some (0, set_errno (- E2BIG) s3) }
       else do {
         (t, s3) \<leftarrow> task_kcreate proc entry s2;
         if t = 0 then do { s4 \<leftarrow> sys_kfree proc (set_errno (- ENOMEM) s3); Some (0, s4) }
         else do {
           s4 \<leftarrow> ks_call (add_task proc t) s3;
           s5 \<leftarrow> ks_call (process_list_insert proc) s4;
           Some (proc, s5) } } } }"

text \<open>The first part of \<open>process_exit\<close>: out of the list.\<close>

definition process_unlink :: "ptr \<Rightarrow> kstate \<Rightarrow> kstate option" where
  "process_unlink self s = do {
     x \<leftarrow> proc_at s self;
     s1 \<leftarrow> (if prev_proc x = 0 then Some s
       else do { p \<leftarrow> proc_at s (prev_proc x); Some (set_proc (prev_proc x) (p\<lparr>next_proc := next_proc x\<rparr>) s) });
     s2 \<leftarrow> (if next_proc x = 0 then Some s1
       else do { n \<leftarrow> proc_at s1 (next_proc x); Some (set_proc (next_proc x) (n\<lparr>prev_proc := prev_proc x\<rparr>) s1) });
     let s3 = (if processes s2 = self then s2\<lparr>processes := next_proc x\<rparr> else s2);
     let (curr, s4) = process_get_curr s3;
     Some (if curr = self then s4\<lparr>curr_process := 0\<rparr> else s4) }"

text \<open>The loop over the user half of the directory.\<close>

function release_pages :: "nat \<Rightarrow> pdir \<Rightarrow> pfa \<Rightarrow> (pdir \<times> pfa) option" where
  "release_pages i d p = (if i \<ge> 768 then Some (d, p)
     else if d ! i AND PAGE_PRESENT \<noteq> 0 then
       let virt_addr = of_nat i * PAGE_SIZE; phys_addr = page_get_phys_addr d virt_addr in do {
       p' \<leftarrow> pfa_clear p (ucast (phys_addr div PAGE_SIZE));
       release_pages (Suc i) (page_unmap_dir d virt_addr) p' }
     else release_pages (Suc i) d p)"
  by pat_completeness auto
termination by (relation "measure (\<lambda>(i, d, p). 768 - i)") auto

declare release_pages.simps [simp del]

definition process_exit :: "ptr \<Rightarrow> 'd sys \<Rightarrow> 'd sys option" where
  "process_exit self s = do {
     x \<leftarrow> proc_at (ks s) self;
     s1 \<leftarrow> ks_call (process_unlink self) s;
     d \<leftarrow> dir_at s1 (page_dir x);
     (d', p') \<leftarrow> release_pages 0 d (kpfa (kheap_of s1));
     let s2 = set_dir (page_dir x) d' (set_pfa p' s1);
     kd \<leftarrow> page_get_dir s2;
     let s3 = set_kdir (page_unmap_dir kd (page_dir x)) s2;
     p'' \<leftarrow> pfa_clear (kpfa (kheap_of s3)) (ucast (v2p (page_dir x) div PAGE_SIZE));
     let s4 = set_pfa p'' s3;
     s5 \<leftarrow> sys_kfree (keyboard_buffer x) (s4\<lparr>dirs := (dirs s4)(page_dir x := None)\<rparr>);
     sys_kfree self s5 }"

end
