(* ===== verification/Process_Inv.thy ===== *)
theory Process_Inv
  imports Process
begin

text \<open>
  The list of processes as a doubly linked list in the store, and what exiting gives back. \<open>plist\<close> describes a segment: it
  starts at \<open>p\<close> behind \<open>a\<close>, runs through \<open>ps\<close> and ends in front of \<open>q\<close> with last element \<open>l\<close>.
\<close>

unbundle bit_operations_syntax

section \<open>The process list\<close>

fun plist :: "kstate \<Rightarrow> ptr \<Rightarrow> ptr \<Rightarrow> ptr list \<Rightarrow> ptr \<Rightarrow> ptr \<Rightarrow> bool" where
  "plist s a p [] q l \<longleftrightarrow> p = q \<and> a = l"
| "plist s a p (x # xs) q l \<longleftrightarrow> p = x \<and> x \<noteq> 0
     \<and> (case proc_at s x of None \<Rightarrow> False | Some r \<Rightarrow> prev_proc r = a \<and> plist s x (next_proc r) xs q l)"

definition proc_list :: "kstate \<Rightarrow> ptr list \<Rightarrow> bool" where
  "proc_list s ps \<longleftrightarrow> distinct ps \<and> (\<exists>l. plist s 0 (processes s) ps 0 l)"

lemma plist_append:
  "plist s a p (xs @ ys) q l \<longleftrightarrow> (\<exists>m k. plist s a p xs m k \<and> plist s k m ys q l)"
  by (induction xs arbitrary: a p) (auto split: option.splits)

lemma plist_cong: "(\<And>x. x \<in> set xs \<Longrightarrow> proc_at s x = proc_at t x) \<Longrightarrow> plist s a p xs q l = plist t a p xs q l"
  by (induction xs arbitrary: a p) (auto split: option.splits)

lemma plist_nonzero: "plist s a p xs q l \<Longrightarrow> 0 \<notin> set xs"
  by (induction xs arbitrary: a p) (auto split: option.splits)

lemma plist_last: "plist s a p xs q l \<Longrightarrow> l = (if xs = [] then a else last xs)"
  by (induction xs arbitrary: a p) (auto split: option.splits)

lemma plist_head: "plist s a p xs q l \<Longrightarrow> p = (if xs = [] then q else hd xs)"
  by (cases xs) auto

lemma proc_at_set_proc [simp]:
  "p \<noteq> 0 \<Longrightarrow> proc_at (set_proc p x s) q = (if q = p then Some x else proc_at s q)"
  by (simp add: proc_at_def set_proc_def)

lemma proc_at_list_upd [simp]:
  "proc_at (s\<lparr>processes := q\<rparr>) = proc_at s" "proc_at (s\<lparr>curr_process := q\<rparr>) = proc_at s" "proc_at (s\<lparr>errno := e\<rparr>) = proc_at s"
  by (simp_all add: proc_at_def fun_eq_iff)

lemma set_proc_fields [simp]:
  "processes (set_proc p x s) = processes s" "curr_process (set_proc p x s) = curr_process s"
  by (simp_all add: set_proc_def)

lemma plist_upd [simp]:
  "plist (s\<lparr>processes := r\<rparr>) = plist s" "plist (s\<lparr>curr_process := r\<rparr>) = plist s" "plist (s\<lparr>errno := e\<rparr>) = plist s"
  by (intro ext plist_cong; simp)+

lemma plist_frame: "y \<noteq> 0 \<Longrightarrow> y \<notin> set xs \<Longrightarrow> plist (set_proc y v s) a p xs q l = plist s a p xs q l"
  by (rule plist_cong) auto

text \<open>New neighbours for the two ends of a segment.\<close>

lemma plist_set_next:
  assumes "plist s a p (xs @ [x]) q l" "x \<notin> set xs" "proc_at s x = Some r"
  shows "plist (set_proc x (r\<lparr>next_proc := q'\<rparr>) s) a p (xs @ [x]) q' x"
proof -
  have x: "x \<noteq> 0" using plist_nonzero [OF assms(1)] by auto
  obtain m k where m: "plist s a p xs m k" "plist s k m [x] q l" using assms(1) by (auto simp: plist_append)
  have "plist (set_proc x (r\<lparr>next_proc := q'\<rparr>) s) a p xs m k"
    using m(1) plist_frame [OF x assms(2)] by simp
  moreover have "plist (set_proc x (r\<lparr>next_proc := q'\<rparr>) s) k m [x] q' x" using m(2) assms(3) x by simp
  ultimately show ?thesis by (auto simp: plist_append)
qed

lemma plist_set_prev:
  assumes "plist s a p (x # xs) q l" "x \<notin> set xs" "proc_at s x = Some r"
  shows "plist (set_proc x (r\<lparr>prev_proc := a'\<rparr>) s) a' p (x # xs) q l"
proof -
  have x: "x \<noteq> 0" using assms(1) by simp
  have "plist (set_proc x (r\<lparr>prev_proc := a'\<rparr>) s) x (next_proc r) xs q l"
    using assms(1,3) plist_frame [OF x assms(2)] by simp
  then show ?thesis using assms(1) x by simp
qed

section \<open>Insertion and removal\<close>

text \<open>Insertion puts a process in front, but forgets the whole list while no process is current.\<close>

lemma insert_list:
  assumes "proc_list s ps" "new \<notin> set ps" "proc_at s new = Some x"
  shows "\<exists>s'. process_list_insert new s = Some s' \<and> proc_list s' (if curr_process s = 0 then [new] else new # ps)"
proof (cases "curr_process s = 0")
  case True
  have "new \<noteq> 0" by (rule proc_at_nonzero [OF assms(3)])
  then show ?thesis using True assms(3)
    by (simp add: process_list_insert_def process_get_curr_def process_set_curr_def proc_list_def)
next
  case False
  have n: "new \<noteq> 0" by (rule proc_at_nonzero [OF assms(3)])
  obtain l where l: "distinct ps" "plist s 0 (processes s) ps 0 l" using assms(1) by (auto simp: proc_list_def)
  let ?s2 = "set_proc new (x\<lparr>next_proc := processes s, prev_proc := 0\<rparr>) s"
  show ?thesis
  proof (cases ps)
    case Nil
    then have "processes s = 0" using l(2) by simp
    then show ?thesis using False assms(3) n Nil
      by (simp add: process_list_insert_def process_get_curr_def proc_list_def)
  next
    case (Cons y ys)
    then obtain r where y: "processes s = y" "y \<noteq> 0" "proc_at s y = Some r" "y \<noteq> new" "y \<notin> set ys" "new \<notin> set ys"
      using l assms(2) by (auto split: option.splits)
    let ?s3 = "set_proc y (r\<lparr>prev_proc := new\<rparr>) ?s2"
    have "plist ?s2 0 y ps 0 l" using l(2) plist_frame [OF n assms(2)] y(1) by simp
    then have "plist ?s3 new y ps 0 l" using plist_set_prev [of ?s2 0 y y ys 0 l r new] y Cons n by simp
    then have "plist ?s3 0 new (new # ps) 0 l" using n y by simp
    moreover have "process_list_insert new s = Some (?s3\<lparr>processes := new\<rparr>)"
      using False assms(3) n y by (simp add: process_list_insert_def process_get_curr_def)
    ultimately show ?thesis using False l(1) assms(2) by (simp add: proc_list_def del: plist.simps) blast
  qed
qed

text \<open>Removal, wherever the process stands in the list.\<close>

lemma unlink_list:
  assumes "proc_list s (us @ self # vs)" "proc_at s self = Some x"
  shows "\<exists>s'. process_unlink self s = Some s' \<and> proc_list s' (us @ vs)
    \<and> curr_process s' = (if curr_process s = self then 0 else curr_process s)
    \<and> (\<forall>y. y \<notin> set (us @ vs) \<longrightarrow> proc_at s' y = proc_at s y)"
proof -
  obtain l m k where p: "distinct (us @ self # vs)" "plist s 0 (processes s) us m k" "plist s k m (self # vs) 0 l"
    using assms(1) by (auto simp: proc_list_def plist_append)
  have self: "m = self" "prev_proc x = k" "plist s self (next_proc x) vs 0 l" "self \<noteq> 0" using p(3) assms(2) by auto
  have k: "k = (if us = [] then 0 else last us)" using plist_last [OF p(2)] by simp
  have n: "next_proc x = (if vs = [] then 0 else hd vs)" using plist_head [OF self(3)] by simp
  have z: "0 \<notin> set us" "0 \<notin> set vs" using plist_nonzero [OF p(2)] plist_nonzero [OF self(3)] by auto
  have hd: "processes s = (if us = [] then self else hd us)" using plist_head [OF p(2)] self(1) by simp
  have "\<exists>s1. (if prev_proc x = 0 then Some s
       else do { q \<leftarrow> proc_at s (prev_proc x); Some (set_proc (prev_proc x) (q\<lparr>next_proc := next_proc x\<rparr>) s) }) = Some s1
     \<and> plist s1 0 (if us = [] then next_proc x else processes s) us (next_proc x) k \<and> plist s1 self (next_proc x) vs 0 l
     \<and> processes s1 = processes s \<and> curr_process s1 = curr_process s \<and> (\<forall>y. y \<notin> set us \<longrightarrow> proc_at s1 y = proc_at s y)"
  proof (cases us rule: rev_cases)
    case Nil
    then show ?thesis using k self by simp
  next
    case (snoc ws u)
    then have u: "k = u" "u \<noteq> 0" "u \<notin> set ws" "u \<notin> set vs" "u \<noteq> self" using k z p(1) by auto
    then obtain r where r: "proc_at s u = Some r" using p(2) snoc by (auto simp: plist_append split: option.splits)
    show ?thesis using u r snoc self plist_set_next [OF p(2) [unfolded snoc] u(3) r] plist_frame [OF u(2) u(4)] by simp
  qed
  then obtain s1 where s1: "(if prev_proc x = 0 then Some s
       else do { q \<leftarrow> proc_at s (prev_proc x); Some (set_proc (prev_proc x) (q\<lparr>next_proc := next_proc x\<rparr>) s) }) = Some s1"
     "plist s1 0 (if us = [] then next_proc x else processes s) us (next_proc x) k" "plist s1 self (next_proc x) vs 0 l"
     "processes s1 = processes s" "curr_process s1 = curr_process s" "\<And>y. y \<notin> set us \<Longrightarrow> proc_at s1 y = proc_at s y"
    by blast
  have "\<exists>s2. (if next_proc x = 0 then Some s1
       else do { q \<leftarrow> proc_at s1 (next_proc x); Some (set_proc (next_proc x) (q\<lparr>prev_proc := prev_proc x\<rparr>) s1) }) = Some s2
     \<and> plist s2 0 (if us = [] then next_proc x else processes s) us (next_proc x) k \<and> (\<exists>l'. plist s2 k (next_proc x) vs 0 l')
     \<and> processes s2 = processes s \<and> curr_process s2 = curr_process s
     \<and> (\<forall>y. y \<notin> set (us @ vs) \<longrightarrow> proc_at s2 y = proc_at s y)"
  proof (cases vs)
    case Nil
    then show ?thesis using n s1 by simp
  next
    case (Cons v ws)
    then have v: "next_proc x = v" "v \<noteq> 0" "v \<notin> set ws" "v \<notin> set us" using n z p(1) by auto
    then obtain r where r: "proc_at s1 v = Some r" using s1(3) Cons by (auto split: option.splits)
    show ?thesis using v r Cons self s1 plist_set_prev [OF s1(3) [unfolded Cons] v(3) r] plist_frame [OF v(2) v(4)] by auto
  qed
  then obtain s2 where s2: "(if next_proc x = 0 then Some s1
       else do { q \<leftarrow> proc_at s1 (next_proc x); Some (set_proc (next_proc x) (q\<lparr>prev_proc := prev_proc x\<rparr>) s1) }) = Some s2"
     "plist s2 0 (if us = [] then next_proc x else processes s) us (next_proc x) k" "\<exists>l'. plist s2 k (next_proc x) vs 0 l'"
     "processes s2 = processes s" "curr_process s2 = curr_process s" "\<forall>y. y \<notin> set (us @ vs) \<longrightarrow> proc_at s2 y = proc_at s y"
    by blast
  have q: "(if processes s2 = self then next_proc x else processes s2) = (if us = [] then next_proc x else processes s)"
    using s2(4) hd p(1) by (cases us) auto
  have c: "\<exists>l'. plist s2 0 (if us = [] then next_proc x else processes s) (us @ vs) 0 l'"
    unfolding plist_append using s2(2,3) by blast
  define s3 where "s3 = (if processes s2 = self then s2\<lparr>processes := next_proc x\<rparr> else s2)"
  have s3: "plist s3 = plist s2" "processes s3 = (if us = [] then next_proc x else processes s)"
     "curr_process s3 = curr_process s" "proc_at s3 = proc_at s2" using q s2(5) by (auto simp: s3_def)
  have "process_unlink self s = Some (if curr_process s = self then s3\<lparr>curr_process := 0\<rparr>
       else if curr_process s = 0 then s3\<lparr>errno := ESRCH\<rparr> else s3)"
    using assms(2) s1(1) s2(1) self(4) s3(3)
    by (simp add: process_unlink_def process_get_curr_def Let_def s3_def [symmetric] cong: if_cong)
  then show ?thesis using c s2(6) s3 p(1) by (auto simp: proc_list_def)
qed

section \<open>Releasing the pages of a directory\<close>

text \<open>The frames behind the entries of a directory that are present, from entry \<open>i\<close> to the end of the user half.\<close>

definition user_frames :: "nat \<Rightarrow> pdir \<Rightarrow> nat set" where
  "user_frames i d = {unat (d ! j) div 0x400000 | j. i \<le> j \<and> j < 768 \<and> d ! j AND PAGE_PRESENT \<noteq> 0}"

lemma page_addr: "i < 1024 \<Longrightarrow> pd_index (of_nat i * PAGE_SIZE) = i" "i < 1024 \<Longrightarrow> (of_nat i * PAGE_SIZE :: u32) AND 0x3FFFFF = 0"
proof -
  assume i: "i < 1024"
  then have u: "unat (of_nat i * PAGE_SIZE :: u32) = i * 0x400000" using frame_word [of i] by (simp add: konst)
  then show "pd_index (of_nat i * PAGE_SIZE) = i" by (simp add: pd_index_div)
  have "unat ((of_nat i * PAGE_SIZE :: u32) AND 0x3FFFFF) = 0" using u by (simp add: unat_offset)
  then show "(of_nat i * PAGE_SIZE :: u32) AND 0x3FFFFF = 0" by (simp add: unat_eq_zero)
qed

lemma addr_frame: "(ucast ((a :: u32) div PAGE_SIZE) :: u64) = of_nat (unat a div 0x400000)" "unat (a :: u32) div 0x400000 < MAX_FRAMES"
proof -
  have m: "unat a div 0x400000 < MAX_FRAMES" using unat_bound [of a] by (simp add: konst)
  then show "unat a div 0x400000 < MAX_FRAMES" .
  show "(ucast (a div PAGE_SIZE) :: u64) = of_nat (unat a div 0x400000)"
    by (rule phys_frame [OF _ _ m, of a "unat a mod 0x400000"]) simp_all
qed

lemma entry_frame:
  assumes "i < 1024" "d ! i AND PAGE_PRESENT \<noteq> 0"
  shows "(ucast (page_get_phys_addr d (of_nat i * PAGE_SIZE) div PAGE_SIZE) :: u64) = of_nat (unat (d ! i) div 0x400000)"
proof -
  have "page_get_phys_addr d (of_nat i * PAGE_SIZE) = d ! i AND 0xFFC00000"
    using assms by (simp add: page_get_phys_addr_def page_addr)
  then have "unat (page_get_phys_addr d (of_nat i * PAGE_SIZE)) div 0x400000 = unat (d ! i) div 0x400000"
    by (simp add: unat_page minus_mod_eq_mult_div)
  then show ?thesis using addr_frame(1) by metis
qed

lemma user_frames_step:
  "i < 768 \<Longrightarrow> user_frames i d = (if d ! i AND PAGE_PRESENT \<noteq> 0 then {unat (d ! i) div 0x400000} else {}) \<union> user_frames (Suc i) d"
  unfolding user_frames_def by (auto simp: Suc_le_eq le_less)

lemma release_pages_frees:
  assumes "pfa_inv p" "pdir_wf d"
  shows "\<exists>d' p'. release_pages i d p = Some (d', p') \<and> pfa_inv p' \<and> pdir_wf d'
    \<and> free_frames p' = free_frames p \<union> user_frames i d
    \<and> (\<forall>j < 1024. d' ! j = (if i \<le> j \<and> j < 768 \<and> d ! j AND PAGE_PRESENT \<noteq> 0 then 0 else d ! j))"
  using assms
proof (induction "768 - i" arbitrary: i d p)
  case 0
  then have "768 \<le> i" by simp
  then show ?case using "0.prems" by (auto simp: release_pages.simps [of i] user_frames_def)
next
  case (Suc n)
  then have i: "i < 768" "n = 768 - Suc i" by auto
  show ?case
  proof (cases "d ! i AND PAGE_PRESENT = 0")
    case True
    with i have "release_pages i d p = release_pages (Suc i) d p" by (simp add: release_pages.simps [of i])
    with Suc.hyps(1) [OF i(2) Suc.prems] True show ?thesis
      by (auto simp: user_frames_step [OF i(1)] Suc_le_eq le_less)
  next
    case False
    let ?f = "unat (d ! i) div 0x400000" and ?d = "page_unmap_dir d (of_nat i * PAGE_SIZE)"
    obtain p1 where p1: "pfa_clear p (of_nat ?f) = Some p1" "pfa_inv p1" "free_frames p1 = insert ?f (free_frames p)"
      using frames.release_ok [OF Suc.prems(1) addr_frame(2)] by blast
    have st: "release_pages i d p = release_pages (Suc i) ?d p1"
      using i False p1(1) entry_frame [of i d] by (simp add: release_pages.simps [of i] Let_def)
    have nth: "?d ! j = (if j = i then 0 else d ! j)" if "j < 1024" for j
      using that Suc.prems(2) i(1) by (auto simp: page_unmap_dir_def page_addr pdir_wf_def nth_list_update)
    then have "user_frames (Suc i) ?d = user_frames (Suc i) d"
      unfolding user_frames_def by (intro Collect_cong ex_cong1) auto
    with Suc.hyps(1) [OF i(2) p1(2) page_unmap_dir_wf [OF Suc.prems(2), of "of_nat i * PAGE_SIZE"]] obtain d' p' where
      r: "release_pages (Suc i) ?d p1 = Some (d', p')" "pfa_inv p'" "pdir_wf d'"
        "free_frames p' = free_frames p1 \<union> user_frames (Suc i) d"
        "\<And>j. j < 1024 \<Longrightarrow> d' ! j = (if Suc i \<le> j \<and> j < 768 \<and> ?d ! j AND PAGE_PRESENT \<noteq> 0 then 0 else ?d ! j)" by auto
    have "d' ! j = (if i \<le> j \<and> j < 768 \<and> d ! j AND PAGE_PRESENT \<noteq> 0 then 0 else d ! j)" if "j < 1024" for j
      unfolding r(5) [OF that] nth [OF that] using i(1) False by auto
    moreover have "free_frames p' = free_frames p \<union> user_frames i d"
      unfolding r(4) p1(3) user_frames_step [OF i(1)] using False by simp
    ultimately show ?thesis using st r(1-3) by auto
  qed
qed

section \<open>Exiting\<close>

lemma heap_free_keeps:
  assumes "heap_free p h = Some h'"
  shows "kpfa h' = kpfa h \<and> kdir h' = kdir h"
proof -
  have split: "split_loop n a g = Some (b, g') \<Longrightarrow> kpfa g' = kpfa g \<and> kdir g' = kdir g" for n a g b g'
    by (induction n arbitrary: a g) (auto simp: upd_block_def init_heap_block_def split: option.splits)
  show ?thesis using assms
    by (auto simp: heap_free_def Let_def upd_block_def split: if_splits option.splits prod.splits dest!: split)
qed

lemma live_split:
  "(a, m) \<in> set (live_from b xs) \<Longrightarrow> \<exists>us n vs. xs = us @ (n, False) # vs \<and> a = b + 4096 * spans us \<and> m = 4096 * n"
proof (induction b xs rule: live_from.induct)
  case (2 b k f xs)
  show ?case
  proof (cases "(a, m) = (b, 4096 * k) \<and> \<not> f")
    case True
    then show ?thesis by (intro exI [of _ "[]"]) auto
  next
    case False
    with 2 obtain us n vs where "xs = us @ (n, False) # vs" "a = b + 4096 * k + 4096 * spans us" "m = 4096 * n"
      by (auto split: if_splits)
    then show ?thesis by (intro exI [of _ "(k, f) # us"] exI) (auto simp: algebra_simps)
  qed
qed simp

lemma live_pos: "tiles bl p a xs e \<Longrightarrow> (b, m) \<in> set (live_from a xs) \<Longrightarrow> 0 < m"
  by (induction bl p a xs e rule: tiles.induct) (auto split: if_splits)

lemma kfree_live:
  assumes "heap_inv h xs" "(a, m) \<in> set (live xs)"
  shows "\<exists>h' ys. kfree (a + sizeof_heap_block) h = Some h' \<and> heap_inv h' ys \<and> set (live ys) = set (live xs) - {(a, m)}
    \<and> kpfa h' = kpfa h \<and> kdir h' = kdir h"
proof -
  obtain us n vs where x: "xs = us @ (n, False) # vs" "a = KERNEL_HEAP_START + 4096 * spans us" "m = 4096 * n"
    using live_split [OF assms(2)] by blast
  from heap_free_inv [OF assms(1) [unfolded x(1)]] obtain h' where
    h: "heap_free (a + sizeof_heap_block) h = Some h'" "heap_inv h' (us @ replicate n (1, True) @ vs)" using x(2) by auto
  have sp: "spans (replicate n (1, True)) = n" by simp
  have "n \<noteq> 0" using assms(1) x(1) unfolding heap_inv_def by (auto simp: tiles_append)
  then have "set (live (us @ replicate n (1, True) @ vs)) = set (live xs) - {(a, m)}"
    using live_bounds [of _ _ KERNEL_HEAP_START us] live_bounds [of _ _ "a + m" vs] x by (fastforce simp: algebra_simps)
  then show ?thesis using h heap_free_keeps [OF h(1)] by (auto simp: kfree_def konst)
qed

lemma sys_kfree_live:
  assumes "heap_inv (kheap_of s) xs" "(a, m) \<in> set (live xs)" "p = a + sizeof_heap_block"
  shows "\<exists>s' ys. sys_kfree p s = Some s' \<and> heap_inv (kheap_of s') ys \<and> set (live ys) = set (live xs) - {(a, m)}
    \<and> kpfa (kheap_of s') = kpfa (kheap_of s) \<and> kdir (kheap_of s') = kdir (kheap_of s) \<and> dirs s' = dirs s
    \<and> fifos s' = (fifos s)(p := None) \<and> pmem s' = pmem s
    \<and> ks s' = (ks s)\<lparr>task_store := (task_store (ks s))(p := None), proc_store := (proc_store (ks s))(p := None)\<rparr>"
  using kfree_live [OF assms(1,2)] unfolding assms(3) [symmetric]
  by (auto simp: sys_kfree_def vfs_free_def fs_kfree_def)

text \<open>Two releases in a row.\<close>

lemma sys_kfree_two:
  assumes "heap_inv (kheap_of s) xs" "(a, m) \<in> set (live xs)" "(b, n) \<in> set (live xs)" "a \<noteq> b"
    and "p = a + sizeof_heap_block" "q = b + sizeof_heap_block"
  shows "\<exists>t s' ys. sys_kfree p s = Some t \<and> sys_kfree q t = Some s' \<and> heap_inv (kheap_of s') ys
    \<and> set (live ys) = set (live xs) - {(a, m), (b, n)} \<and> kpfa (kheap_of s') = kpfa (kheap_of s) \<and> kdir (kheap_of s') = kdir (kheap_of s)
    \<and> dirs s' = dirs s \<and> fifos s' p = None
    \<and> ks s' = (ks s)\<lparr>task_store := (task_store (ks s))(p := None, q := None), proc_store := (proc_store (ks s))(p := None, q := None)\<rparr>"
proof -
  from sys_kfree_live [OF assms(1,2,5)] obtain t zs where
    t: "sys_kfree p s = Some t" "heap_inv (kheap_of t) zs" "set (live zs) = set (live xs) - {(a, m)}"
      "kpfa (kheap_of t) = kpfa (kheap_of s)" "kdir (kheap_of t) = kdir (kheap_of s)" "dirs t = dirs s" "fifos t = (fifos s)(p := None)"
      "ks t = (ks s)\<lparr>task_store := (task_store (ks s))(p := None), proc_store := (proc_store (ks s))(p := None)\<rparr>" by auto
  have "(b, n) \<in> set (live zs)" using t(3) assms(3,4) by simp
  from sys_kfree_live [OF t(2) this assms(6)] obtain s' ys where
    u: "sys_kfree q t = Some s'" "heap_inv (kheap_of s') ys" "set (live ys) = set (live zs) - {(b, n)}"
      "kpfa (kheap_of s') = kpfa (kheap_of t)" "kdir (kheap_of s') = kdir (kheap_of t)" "dirs s' = dirs t"
      "fifos s' = (fifos t)(q := None)"
      "ks s' = (ks t)\<lparr>task_store := (task_store (ks t))(q := None), proc_store := (proc_store (ks t))(q := None)\<rparr>" by auto
  have "set (live ys) = set (live xs) - {(a, m), (b, n)}" using t(3) u(3) by auto
  then show ?thesis using t u by (intro exI conjI) simp_all
qed

lemma plist_store_None:
  "x \<notin> set xs \<Longrightarrow> y \<notin> set xs \<Longrightarrow>
   plist (s\<lparr>task_store := ts, proc_store := (proc_store s)(x := None, y := None)\<rparr>) a p xs q l = plist s a p xs q l"
  by (rule plist_cong) (auto simp: proc_at_def)

lemma heap_inv_parts [simp]:
  "heap_inv (h\<lparr>kdir := d\<rparr>) xs = heap_inv h xs"
  "heap_inv h xs \<Longrightarrow> pfa_inv p \<Longrightarrow> 0 \<notin> free_frames p \<Longrightarrow> heap_inv (h\<lparr>kpfa := p\<rparr>) xs"
  by (simp_all add: heap_inv_def)

lemma upd_kheap_fields [simp]:
  "kheap_of (upd_kheap f s) = f (kheap_of s)" "ks (upd_kheap f s) = ks s" "dirs (upd_kheap f s) = dirs s"
  "fifos (upd_kheap f s) = fifos s" "kdir_addr (upd_kheap f s) = kdir_addr s"
  by (simp_all add: upd_kheap_def)

lemma unlink_cr3: "process_unlink self s = Some k \<Longrightarrow> cr3 k = cr3 s"
  by (auto simp: process_unlink_def process_get_curr_def set_proc_def Let_def split: bind_splits if_splits)

text \<open>Writes inside an allocation keep the heap.\<close>

lemma tiles_mono: "tiles bl p a xs e \<Longrightarrow> bl \<subseteq>\<^sub>m bl' \<Longrightarrow> tiles bl' p a xs e"
proof (induction bl p a xs e rule: tiles.induct)
  case (2 bl p a k f xs e)
  from 2(2) obtain x where "bl a = Some x" by auto
  then have "bl' a = bl a" using 2(3) by (metis domI map_le_def)
  then show ?case using 2 by auto
qed simp

lemma write_inside_inv:
  assumes "heap_inv h (us @ (n, False) # vs)" "p = KERNEL_HEAP_START + 4096 * spans us + sizeof_heap_block"
    and "p \<le> a" "a + length bs \<le> p + 4096 * n - sizeof_heap_block"
  shows "heap_inv (write_data a bs h) (us @ (n, False) # vs)"
proof -
  let ?all = "replicate (4096 * n - sizeof_heap_block) (0 :: u8)"
  have n: "0 < n" using assms(1) by (auto simp: heap_inv_def tiles_append)
  then have "length ?all + sizeof_heap_block \<le> 4096 * n" by (simp add: konst)
  from write_data_inv [OF assms(1,2) this] have i: "heap_inv (write_data p ?all h) (us @ (n, False) # vs)" .
  have "blocks (write_data p ?all h) \<subseteq>\<^sub>m blocks (write_data a bs h)"
    using assms(3,4) by (auto simp: map_le_def write_data_def split: if_splits)
  then show ?thesis using i tiles_mono unfolding heap_inv_def by (auto simp: write_data_def)
qed

lemma chunk_slack: "(x :: nat) mod 4096 \<noteq> 0 \<Longrightarrow> x < 4096 * ((x + 4095) div 4096)"
proof -
  assume a: "x mod 4096 \<noteq> 0"
  have "x + 4095 = 4096 * (x div 4096 + 1) + (x mod 4096 - 1)" using a mult_div_mod_eq [of 4096 x] by simp
  moreover have "x mod 4096 - 1 < 4096" using mod_less_divisor [of 4096 x] by linarith
  ultimately have "(x + 4095) div 4096 = x div 4096 + 1" by (metis div_mult_self4 div_less add.right_neutral add.commute zero_neq_numeral)
  then show ?thesis using mult_div_mod_eq [of 4096 x] mod_less_divisor [of 4096 x] by linarith
qed
text \<open>An allocation through the state: the segment it takes, and nothing else changes.\<close>

lemma sys_kzalloc_ok:
  assumes "heap_inv (kheap_of s) xs" "9 \<le> card (free_frames (kpfa (kheap_of s)))"
    and "next_addr (kheap_of s) + n + sizeof_heap_block \<le> KERNEL_HEAP_MAX" "k = (n + sizeof_heap_block + 4095) div 4096"
  shows "\<exists>us vs j h. sys_kzalloc n s = Some (KERNEL_HEAP_START + 4096 * spans us + sizeof_heap_block, upd_kheap (\<lambda>_. h) s)
    \<and> xs @ replicate (1024 * j) (1, True) = us @ replicate k (1, True) @ vs \<and> heap_inv h (us @ (k, False) # vs)"
proof -
  have t: "n + sizeof_heap_block = (n + sizeof_heap_block) mod 2 ^ 32" "0 < n + sizeof_heap_block"
      "next_addr (kheap_of s) + (n + sizeof_heap_block) \<le> KERNEL_HEAP_MAX" using assms(3) by (simp_all add: konst)
  obtain us vs j h where h: "heap_malloc n (kheap_of s) = Some (KERNEL_HEAP_START + 4096 * spans us + sizeof_heap_block, h)"
      "xs @ replicate (1024 * j) (1, True) = us @ replicate k (1, True) @ vs" "heap_inv h (us @ (k, False) # vs)"
    using heap_malloc_ok [OF assms(1,2) t assms(4)] by blast
  let ?p = "KERNEL_HEAP_START + 4096 * spans us + sizeof_heap_block"
  have "length (replicate n (0 :: u8)) + sizeof_heap_block \<le> 4096 * k" unfolding assms(4) by simp
  from write_data_inv [OF h(3) refl this] have "heap_inv (write_data ?p (replicate n 0) h) (us @ (k, False) # vs)" .
  moreover have "sys_kzalloc n s = Some (?p, upd_kheap (\<lambda>_. write_data ?p (replicate n 0) h) s)"
    using h(1) by (simp add: sys_kzalloc_def vfs_alloc_def fs_kzalloc_def kzalloc_def upd_kheap_def konst)
  ultimately show ?thesis using h(2) by blast
qed

text \<open>C21: Exiting takes a process out of the list and releases what it owns: the frames of all its user pages and the frame of its
  directory go back to the allocator, its mapping leaves the kernel's directory, its keyboard buffer and its descriptor
  leave the heap, and the other processes and allocations stay.\<close>

theorem process_exit_releases:
  assumes "proc_at (ks s) self = Some x" "proc_list (ks s) (us @ self # vs)"
    and "dirs s (page_dir x) = Some d" "pdir_wf d" "page_dir x \<noteq> kdir_addr s" "page_get_dir s = Some kd"
    and "heap_inv (kheap_of s) xs" "(a, m) \<in> set (live xs)" "(b, n) \<in> set (live xs)" "a \<noteq> b"
    and "keyboard_buffer x = a + sizeof_heap_block" "self = b + sizeof_heap_block"
    and "0 \<notin> user_frames 0 d" "unat (v2p (page_dir x)) div 0x400000 \<noteq> 0"
    and "keyboard_buffer x \<notin> set (us @ vs)"
  shows "\<exists>s' ys. process_exit self s = Some s' \<and> proc_list (ks s') (us @ vs) \<and> proc_at (ks s') self = None
    \<and> free_frames (kpfa (kheap_of s')) = free_frames (kpfa (kheap_of s)) \<union> user_frames 0 d \<union> {unat (v2p (page_dir x)) div 0x400000}
    \<and> kdir (kheap_of s') = kd[pd_index (page_dir x) := 0] \<and> dirs s' (page_dir x) = None \<and> fifos s' (keyboard_buffer x) = None
    \<and> heap_inv (kheap_of s') ys \<and> set (live ys) = set (live xs) - {(a, m), (b, n)}"
proof -
  have i: "pfa_inv (kpfa (kheap_of s))" "0 \<notin> free_frames (kpfa (kheap_of s))" using assms(7) by (auto simp: heap_inv_def)
  obtain k where k: "process_unlink self (ks s) = Some k" "proc_list k (us @ vs)" using unlink_list [OF assms(2,1)] by blast
  let ?F = "unat (v2p (page_dir x)) div 0x400000"
  obtain d' p' where r: "release_pages 0 d (kpfa (kheap_of s)) = Some (d', p')" "pfa_inv p'"
      "free_frames p' = free_frames (kpfa (kheap_of s)) \<union> user_frames 0 d"
    using release_pages_frees [OF i(1) assms(4), of 0] by blast
  obtain p'' where p: "pfa_clear p' (of_nat ?F) = Some p''" "pfa_inv p''" "free_frames p'' = insert ?F (free_frames p')"
    using frames.release_ok [OF r(2) addr_frame(2)] by blast
  have z: "0 \<notin> free_frames p''" using p(3) r(3) i(2) assms(13,14) by auto
  define s2 where "s2 = set_dir (page_dir x) d' (set_pfa p' (s\<lparr>ks := k\<rparr>))"
  define s4 where "s4 = set_pfa p'' (set_kdir (page_unmap_dir kd (page_dir x)) s2)"
  have kd: "kd = kdir (kheap_of s)" using assms(6) by (auto simp: page_get_dir_def Let_def split: if_splits)
  have s2: "ks s2 = k" "kheap_of s2 = (kheap_of s)\<lparr>kpfa := p'\<rparr>" "kdir_addr s2 = kdir_addr s" "fifos s2 = fifos s"
    using assms(5) by (simp_all add: s2_def set_dir_def set_pfa_def)
  have g: "page_get_dir s2 = Some kd"
    using assms(6) kd s2 unlink_cr3 [OF k(1)] by (auto simp: page_get_dir_def Let_def split: if_splits)
  have s4: "ks s4 = k" "heap_inv (kheap_of s4) xs" "kpfa (kheap_of s4) = p''" "fifos s4 = fifos s"
      "kdir (kheap_of s4) = kd[pd_index (page_dir x) := 0]"
    using s2 assms(7) p(2) z by (simp_all add: s4_def set_pfa_def set_kdir_def page_unmap_dir_def)
  let ?s = "s4\<lparr>dirs := (dirs s4)(page_dir x := None)\<rparr>"
  have "heap_inv (kheap_of ?s) xs" using s4(2) by simp
  from sys_kfree_two [OF this assms(8-12)] obtain s5 s6 ys where
    f: "sys_kfree (keyboard_buffer x) ?s = Some s5" "sys_kfree self s5 = Some s6" "heap_inv (kheap_of s6) ys"
      "set (live ys) = set (live xs) - {(a, m), (b, n)}" "kpfa (kheap_of s6) = p''" "kdir (kheap_of s6) = kd[pd_index (page_dir x) := 0]"
      "dirs s6 (page_dir x) = None" "fifos s6 (keyboard_buffer x) = None"
      "ks s6 = k\<lparr>task_store := (task_store k)(keyboard_buffer x := None, self := None),
        proc_store := (proc_store k)(keyboard_buffer x := None, self := None)\<rparr>"
    using s4 by auto
  have kp: "kpfa (kheap_of (set_kdir q s2)) = p'" for q using s2(2) by (simp add: set_kdir_def)
  have "process_exit self s = Some s6"
    using assms(1,3,5) k(1) r(1) g p(1) f(1,2)
    by (simp add: process_exit_def ks_call_def dir_at_def s2_def [symmetric] s4_def [symmetric] addr_frame(1) kp Let_def)
  moreover have "proc_list (ks s6) (us @ vs)"
    using k(2) assms(2,15) unfolding f(9) proc_list_def by (auto simp: plist_store_None)
  ultimately show ?thesis using f p(3) r(3) by (auto simp: proc_at_def)
qed

text \<open>A heap of three chunks, two of them allocated, and a kernel with one process whose descriptor and keyboard buffer these
  are and which has two user pages.\<close>

definition heap2 :: kheap where
  "heap2 = kheap0\<lparr>next_addr := 0xC1003000, last_block := 0xC1002000, used_chunks := 2, free_chunks := 1,
     blocks := [0xC1000000 \<mapsto> \<lparr>bsize = 4096, is_free = False, chunk_span = 1, bprev = 0, bnext = 0xC1001000\<rparr>,
       0xC1001000 \<mapsto> \<lparr>bsize = 4096, is_free = False, chunk_span = 1, bprev = 0xC1000000, bnext = 0xC1002000\<rparr>,
       0xC1002000 \<mapsto> \<lparr>bsize = 4096, is_free = True, chunk_span = 1, bprev = 0xC1001000, bnext = 0\<rparr>],
     kdir := (replicate 1024 0)[0 := 0x83]\<rparr>"

lemma heap2_inv: "heap_inv heap2 [(1, False), (1, False), (1, True)]"
  using kheap0_frames(1,2) unfolding heap_inv_def by (simp add: heap2_def) (simp add: kheap0_def heap_init_def konst)

definition proc0 :: process where
  "proc0 = \<lparr>pid = 1, filename = name_field 128 [0x53, 0x48], tasks = replicate 16 0, page_dir = 0xC5000000, task_count = 0,
     filetype = PROCESS_BINARY, psize = 0, keyboard_buffer = 0xC1001014, prev_proc = 0, next_proc = 0\<rparr>"

definition sys2 :: "drive sys" where
  "sys2 = \<lparr>ks = kstate0\<lparr>proc_store := [0xC1000014 \<mapsto> proc0], processes := 0xC1000014, curr_process := 0xC1000014, cr3 := 0x200000\<rparr>,
     vfs = vfs0 1 heap2, dirs = [0xC5000000 \<mapsto> (replicate 1024 0)[0 := 0x2800087, 1 := 0x2C00087]], kdir_addr = 0xC0200000,
     fifos = [0xC1001014 \<mapsto> fifo.make (replicate 128 0) 0 0 0], pmem = (\<lambda>_. 0), console = [], syscalls = []\<rparr>"

lemma sys2_dir: "page_get_dir sys2 = Some ((replicate 1024 0)[0 := 0x83])"
proof -
  have "pd_index 0x200000 = 0" by (simp add: pd_index_div)
  then show ?thesis
    by (simp add: page_get_dir_def sys2_def vfs0_def heap2_def page_get_phys_addr_def v2p_def Let_def konst)
qed

lemma sys2_frames: "user_frames 0 ((replicate 1024 0)[0 := 0x2800087, 1 := 0x2C00087]) = {10, 11}"
proof -
  have "((replicate 1024 (0 :: u32))[0 := 0x2800087, Suc 0 := 0x2C00087] ! j) = 0" if "2 \<le> j" "j < 768" for j
    using that by (simp add: nth_list_update)
  then have "user_frames (Suc (Suc 0)) ((replicate 1024 0)[0 := 0x2800087, Suc 0 := 0x2C00087]) = {}"
    by (auto simp: user_frames_def)
  then show ?thesis
    using user_frames_step [of 0 "(replicate 1024 0)[0 := 0x2800087, 1 := 0x2C00087]"]
      user_frames_step [of "Suc 0" "(replicate 1024 0)[0 := 0x2800087, 1 := 0x2C00087]"] by (simp add: konst)
qed

theorem process_exit_releases_witness:
  "\<exists>s'. process_exit 0xC1000014 sys2 = Some s' \<and> proc_list (ks s') []
    \<and> free_frames (kpfa (kheap_of s')) = free_frames (kpfa heap2) \<union> {10, 11} \<union> {20} \<and> kdir (kheap_of s') ! 788 = 0"
proof -
  have x: "proc_at (ks sys2) 0xC1000014 = Some proc0" by (simp add: proc_at_def sys2_def)
  have l: "proc_list (ks sys2) ([] @ 0xC1000014 # [])" by (simp add: proc_list_def x) (simp add: sys2_def proc0_def)
  have d: "dirs sys2 (page_dir proc0) = Some ((replicate 1024 0)[0 := 0x2800087, 1 := 0x2C00087])" "page_dir proc0 \<noteq> kdir_addr sys2"
    by (simp_all add: sys2_def proc0_def)
  have h: "heap_inv (kheap_of sys2) [(1, False), (1, False), (1, True)]" "kheap_of sys2 = heap2"
    using heap2_inv by (simp_all add: sys2_def vfs0_def)
  have a: "(0xC1001000, 4096) \<in> set (live [(1, False), (1, False), (1, True)])"
      "(0xC1000000, 4096) \<in> set (live [(1, False), (1, False), (1, True)])"
      "keyboard_buffer proc0 = 0xC1001000 + sizeof_heap_block" "0xC1000014 = 0xC1000000 + sizeof_heap_block"
    by (simp_all add: konst proc0_def)
  have f: "unat (v2p (page_dir proc0)) div 0x400000 = 20" by (simp add: proc0_def v2p_def konst)
  have w: "pdir_wf ((replicate 1024 0)[0 := 0x2800087, 1 := 0x2C00087])" by (simp add: pdir_wf_def)
  have i: "pd_index (page_dir proc0) = 788" by (simp add: proc0_def pd_index_div)
  show ?thesis
    using process_exit_releases [OF x l d(1) w d(2) sys2_dir h(1) a(1,2) _ a(3,4), unfolded sys2_frames f]
    by (auto simp: i h(2))
qed

text \<open>C22: The process list behaves as a list while a process is current: insertion puts the new process in front and removal
  takes out just one. When the current process exits, no process is current any more, and the next insertion makes the new
  process the whole list: the processes that still exist are no longer in it.\<close>

theorem process_list_operations:
  assumes "proc_list s (us @ self # vs)" "proc_at s self = Some x" "curr_process s \<noteq> 0"
    and "proc_at s new = Some y" "new \<notin> set (us @ self # vs)"
  shows "(\<exists>t. process_list_insert new s = Some t \<and> proc_list t (new # us @ self # vs))
    \<and> (\<exists>t. process_unlink self s = Some t \<and> proc_list t (us @ vs)
        \<and> (\<exists>u. process_list_insert new t = Some u \<and> proc_list u (if curr_process s = self then [new] else new # us @ vs)))"
proof -
  obtain t where t: "process_unlink self s = Some t" "proc_list t (us @ vs)"
      "curr_process t = (if curr_process s = self then 0 else curr_process s)" "proc_at t new = Some y"
    using unlink_list [OF assms(1,2)] assms(4,5) by auto
  then show ?thesis using insert_list [OF assms(1,5,4)] insert_list [OF t(2) _ t(4)] assms(3,5) by auto
qed

text \<open>The processes of the kernel's boot: the idle process behind a shell that is current, and a shell to come.\<close>

definition procs0 :: kstate where
  "procs0 = kstate0\<lparr>proc_store := [1 \<mapsto> proc0\<lparr>prev_proc := 2\<rparr>, 2 \<mapsto> proc0\<lparr>next_proc := 1\<rparr>, 3 \<mapsto> proc0], processes := 2, curr_process := 2\<rparr>"

theorem process_list_operations_witness:
  "\<exists>t u. process_unlink 2 procs0 = Some t \<and> proc_list t [1] \<and> process_list_insert 3 t = Some u \<and> proc_list u [3]"
proof -
  have l: "proc_list procs0 ([] @ 2 # [1])" by (simp add: proc_list_def procs0_def proc_at_def proc0_def)
  have x: "proc_at procs0 2 = Some (proc0\<lparr>next_proc := 1\<rparr>)" "proc_at procs0 3 = Some proc0" "curr_process procs0 = 2"
    by (simp_all add: procs0_def proc_at_def)
  show ?thesis using process_list_operations [OF l x(1) _ x(2)] x(3) by auto
qed

end
