(* ===== verification/Syscall.thy ===== *)
theory Syscall
  imports Process_Inv
begin

text \<open>
  \<open>syscall.c\<close>: the six system calls and their dispatcher. The interrupt frame holds the number in \<open>eax\<close> and the arguments in
  \<open>ebx\<close>, \<open>ecx\<close> and \<open>edx\<close>. A call returns a number or, when the caller ends, enters another task. \<open>panic\<close> does not return.
  The bytes copied through a kernel buffer are written to the heap as the code writes them, the terminator included.
\<close>

unbundle bit_operations_syntax

definition MAX_SYSCALL :: int where [konst]: "MAX_SYSCALL = 256"
definition SYS_EXIT :: nat where [konst]: "SYS_EXIT = 1"
definition SYS_READ :: nat where [konst]: "SYS_READ = 3"
definition SYS_WRITE :: nat where [konst]: "SYS_WRITE = 4"
definition SYS_OPEN :: nat where [konst]: "SYS_OPEN = 5"
definition SYS_CLOSE :: nat where [konst]: "SYS_CLOSE = 6"
definition SYS_GETDENTS :: nat where [konst]: "SYS_GETDENTS = 141"
definition FD_STDIN :: int where [konst]: "FD_STDIN = 0"
definition FD_STDOUT :: int where [konst]: "FD_STDOUT = 1"
definition FD_STDERR :: int where [konst]: "FD_STDERR = 2"
definition DT_REG :: u8 where [konst]: "DT_REG = 1"
definition DT_DIR :: u8 where [konst]: "DT_DIR = 2"
definition sizeof_dirent :: nat where [konst]: "sizeof_dirent = 268"

datatype 'd sysres = Return int "'d sys" | Enter task_registers "'d sys"

text \<open>The steps before and after each copy: the directory of the calling task and back.\<close>

definition enter_user :: "'d sys \<Rightarrow> 'd sys option" where
  "enter_user s = (let (t, k) = task_get_curr (ks s) in ks_call (task_restore_dir t) (s\<lparr>ks := k\<rparr>))"

definition copy_from_user :: "u32 \<Rightarrow> nat \<Rightarrow> 'd sys \<Rightarrow> (u8 list \<times> 'd sys) option" where
  "copy_from_user a n s = do {
     s1 \<leftarrow> enter_user s;
     bs \<leftarrow> user_read a n s1;
     Some (bs, s1) }"

definition copy_to_user :: "u32 \<Rightarrow> u8 list \<Rightarrow> 'd sys \<Rightarrow> 'd sys option" where
  "copy_to_user a bs s = do {
     s1 \<leftarrow> enter_user s;
     s2 \<leftarrow> user_write a bs s1;
     Some (page_restore_kernel_dir s2) }"

section \<open>Reading directories\<close>

definition bytes_of_dirent :: "vfs_dirent \<Rightarrow> u8 list" where
  "bytes_of_dirent e = le32 0 @ le32 0 @ le16 (of_nat sizeof_dirent) @ [if dtype e = 1 then DT_DIR else DT_REG]
     @ (let cs = take 256 (takeWhile (\<lambda>c. c \<noteq> 0) (dname e)) in cs @ replicate (256 - length cs) 0) @ [0]"

definition sys_getdents :: "'d bus \<Rightarrow> interrupt_frame \<Rightarrow> 'd sys \<Rightarrow> (int \<times> 'd sys) option" where
  "sys_getdents b frame s = (let fd = sint (f_ebx frame); user_buf = f_ecx frame; n = unat (f_edx frame) in
     if fd < 1 \<or> user_buf = 0 \<or> n < sizeof_dirent then Some (- EINVAL, s)
     else if user_buf \<ge> KERNEL_VIRTUAL_START then Some (- EFAULT, s)
     else do {
       (kbuf, s1) \<leftarrow> sys_kzalloc (unat (f_edx frame + 1)) s;
       if kbuf = 0 then Some (- ENOMEM, s1)
       else do {
         (bs, s2) \<leftarrow> copy_from_user user_buf n s1;
         let s3 = page_restore_kernel_dir (kernel_write kbuf bs s2);
         (ret, v, s4) \<leftarrow> vfs_call2 (vfs_readdir b fd True) s3;
         if ret \<noteq> 1 then do { s5 \<leftarrow> sys_kfree kbuf s4; Some (0, s5) }
         else do {
           e \<leftarrow> v;
           let s5 = kernel_write kbuf (bytes_of_dirent e) s4;
           s6 \<leftarrow> copy_to_user user_buf (bytes_of_dirent e) s5;
           s7 \<leftarrow> sys_kfree kbuf s6;
           Some (int sizeof_dirent, s7) } } })"

section \<open>Closing and exiting\<close>

definition sys_close :: "interrupt_frame \<Rightarrow> 'd sys \<Rightarrow> (int \<times> 'd sys) option" where
  "sys_close frame s = (let fd = sint (f_ebx frame) in
     if fd < 1 \<or> fd \<ge> 512 then Some (- EBADF, s) else vfs_call (vfs_fclose fd) s)"

text \<open>\<open>"A:/BIN/ICARSH.BIN"\<close>\<close>

definition ICARSH :: "u8 list" where
  "ICARSH = [0x41, 0x3A, 0x2F, 0x42, 0x49, 0x4E, 0x2F, 0x49, 0x43, 0x41, 0x52, 0x53, 0x48, 0x2E, 0x42, 0x49, 0x4E]"

definition respawn_shell :: "'d bus \<Rightarrow> 'd sys \<Rightarrow> 'd sys option" where
  "respawn_shell b s = do {
     (icarsh, s1) \<leftarrow> process_spawn b (ICARSH @ [0]) s;
     if icarsh = 0 then None
     else do {
       let s2 = s1\<lparr>ks := tty_set_foreground icarsh (ks s1)\<rparr>;
       sch \<leftarrow> scheduler_get (ks s2);
       x \<leftarrow> proc_at (ks s2) icarsh;
       ks_call (call_add (add_cb sch) (tasks x ! 0)) s2 } }"

text \<open>The code after \<open>scheduler_schedule\<close> is declared unreachable: a schedule that enters no task has no defined
  continuation.\<close>

definition sys_exit :: "'d bus \<Rightarrow> interrupt_frame \<Rightarrow> 'd sys \<Rightarrow> 'd sysres option" where
  "sys_exit b frame s = (let (t, k) = task_get_curr (ks s) in do {
     x \<leftarrow> task_at k t;
     p \<leftarrow> proc_at k (parent x);
     s1 \<leftarrow> ks_call (task_exit t) (s\<lparr>ks := k\<rparr>);
     p1 \<leftarrow> proc_at (ks s1) (parent x);
     s2 \<leftarrow> (if task_count p1 = 0 then process_exit (parent x) s1 else Some s1);
     y \<leftarrow> task_at (ks s2) t;
     let s3 = s2\<lparr>ks := set_task t (y\<lparr>state := TASK_STATE_TERMINATE\<rparr>) (ks s2)\<rparr>;
     s4 \<leftarrow> (if takeWhile (\<lambda>c. c \<noteq> 0) (filename p) = ICARSH then respawn_shell b s3 else Some s3);
     (k', r) \<leftarrow> scheduler_schedule (Some frame) (ks s4);
     regs \<leftarrow> r;
     Some (Enter regs (s4\<lparr>ks := k'\<rparr>)) })"

section \<open>Opening\<close>

text \<open>\<open>strlen\<close> of a user string; a string without end runs into a page that is not present.\<close>

partial_function (option) user_strlen :: "'d sys \<Rightarrow> u32 \<Rightarrow> nat \<Rightarrow> nat option" where
  "user_strlen s a n = do {
     bs \<leftarrow> user_read (a + of_nat n) 1 s;
     if bs = [0] then Some n else user_strlen s a (n + 1) }"

definition sys_open :: "'d bus \<Rightarrow> interrupt_frame \<Rightarrow> 'd sys \<Rightarrow> (int \<times> 'd sys) option" where
  "sys_open b frame s = do {
     s1 \<leftarrow> enter_user s;
     let user_buf = f_ebx frame;
     n \<leftarrow> user_strlen s1 user_buf 0;
     if user_buf \<ge> KERNEL_VIRTUAL_START then Some (- EFAULT, s1)
     else do {
       (kbuf, s2) \<leftarrow> sys_kzalloc (n + 1) (page_restore_kernel_dir s1);
       if kbuf = 0 then Some (- ENOMEM, s2)
       else do {
         (bs, s3) \<leftarrow> copy_from_user user_buf n s2;
         let s4 = page_restore_kernel_dir (kernel_write kbuf (bs @ [0]) s3);
         if f_ecx frame \<noteq> ucast READ \<and> f_ecx frame \<noteq> ucast WRITE then do { s5 \<leftarrow> sys_kfree kbuf s4; Some (- EINVAL, s5) }
         else do {
           (fd, s5) \<leftarrow> vfs_call (vfs_fopen b (bs @ [0]) (if f_ecx frame = ucast READ then [0x72, 0] else [0x77, 0])) s4;
           s6 \<leftarrow> sys_kfree kbuf s5;
           Some (if fd < 1 then - ENOENT else fd, s6) } } } }"

section \<open>Writing\<close>

text \<open>The result of \<open>vfs_fwrite\<close> is unsigned and only tested for being negative; the call returns \<open>count\<close>.\<close>

definition sys_write :: "'d bus \<Rightarrow> interrupt_frame \<Rightarrow> 'd sys \<Rightarrow> (int \<times> 'd sys) option" where
  "sys_write b frame s = (let fd = sint (f_ebx frame); n = f_edx frame in do {
     (kbuf, s1) \<leftarrow> sys_kzalloc (unat n) s;
     if kbuf = 0 then Some (- ENOMEM, s1)
     else do {
       (bs, s2) \<leftarrow> copy_from_user (f_ecx frame) (unat n) s1;
       let s3 = page_restore_kernel_dir (kernel_write kbuf (bs @ [0]) s2);
       if fd = FD_STDOUT \<or> fd = FD_STDERR
       then do {
         s4 \<leftarrow> sys_kfree kbuf (s3\<lparr>console := console s3 @ takeWhile (\<lambda>c. c \<noteq> 0) bs\<rparr>);
         Some (sint n, s4) }
       else do {
         (written, s4) \<leftarrow> vfs_call (vfs_fwrite b (Some bs) n 1 fd) s3;
         s5 \<leftarrow> sys_kfree kbuf s4;
         Some (sint n, s5) } } })"

section \<open>Reading\<close>

text \<open>
  The loop over the keyboard buffer: the bytes taken so far, the buffer and whether the task was put to sleep. The buffer
  is tested before each byte, so that taking one never fails.
\<close>

fun stdin_loop :: "nat \<Rightarrow> fifo \<Rightarrow> u8 list \<times> fifo \<times> bool" where
  "stdin_loop 0 q = ([], q, False)"
| "stdin_loop (Suc n) q = (if fifo_is_empty q then ([], q, True)
     else case fifo_dequeue (Some q) 0 of (ok, x, q') \<Rightarrow>
       (case stdin_loop n (case q' of Some q2 \<Rightarrow> q2 | None \<Rightarrow> q) of (xs, q3, blocked) \<Rightarrow> (x # xs, q3, blocked)))"

definition block_reader :: "ptr \<Rightarrow> kstate \<Rightarrow> kstate option" where
  "block_reader t s = do {
     s1 \<leftarrow> task_set_block t s;
     s2 \<leftarrow> task_block_on t WAIT_KEYBOARD s1;
     wq_push t s2 }"

definition sys_read :: "'d bus \<Rightarrow> interrupt_frame \<Rightarrow> 'd sys \<Rightarrow> (int \<times> 'd sys) option" where
  "sys_read b frame s = (let fd = sint (f_ebx frame); n = f_edx frame; user_buf = f_ecx frame in
     if user_buf = 0 \<or> n = 0 then Some (- 1, s)
     else do {
       (kbuf, s1) \<leftarrow> sys_kzalloc (unat n) s;
       if kbuf = 0 then Some (- 1, s1)
       else do {
         let s2 = kernel_write (kbuf + unat n) [0] s1;
         let (t, k) = task_get_curr (ks s2);
         let s3 = s2\<lparr>ks := k\<rparr>;
         x \<leftarrow> task_at k t;
         if parent x = 0 then do { s4 \<leftarrow> sys_kfree kbuf s3; Some (- 1, s4) }
         else if fd = FD_STDOUT \<or> fd = FD_STDERR then do { s4 \<leftarrow> sys_kfree kbuf s3; Some (- 1, s4) }
         else do {
           (n_read, bs, s4) \<leftarrow> (if fd = FD_STDIN then do {
               p \<leftarrow> proc_at k (parent x);
               q \<leftarrow> fifos s3 (keyboard_buffer p);
               let (xs, q', blocked) = stdin_loop (unat n) q;
               let s' = s3\<lparr>fifos := (fifos s3)(keyboard_buffer p \<mapsto> q')\<rparr>;
               s'' \<leftarrow> (if blocked then ks_call (block_reader (tasks p ! 0)) s' else Some s');
               Some (0, xs, s'') }
             else do {
               (m, xs, s') \<leftarrow> vfs_call2 (vfs_fread b True n 1 fd) s3;
               Some (if sint m < 0 then - 1 else sint m, xs, s') });
           let data = take (unat n) (bs @ replicate (unat n) 0);
           s5 \<leftarrow> copy_to_user user_buf data (kernel_write kbuf data s4);
           s6 \<leftarrow> sys_kfree kbuf s5;
           Some (n_read, s6) } } })"

section \<open>Dispatch\<close>

definition syscall_init :: "'d sys \<Rightarrow> 'd sys" where
  "syscall_init s = s\<lparr>syscalls := (replicate (nat MAX_SYSCALL) None)[SYS_EXIT := Some FN_sys_exit, SYS_WRITE := Some FN_sys_write,
     SYS_READ := Some FN_sys_read, SYS_OPEN := Some FN_sys_open, SYS_CLOSE := Some FN_sys_close,
     SYS_GETDENTS := Some FN_sys_getdents]\<rparr>"

definition returns :: "(int \<times> 'd sys) option \<Rightarrow> 'd sysres option" where
  "returns r = map_option (\<lambda>(n, s). Return n s) r"

fun call_sys :: "'d bus \<Rightarrow> sys_fn \<Rightarrow> interrupt_frame \<Rightarrow> 'd sys \<Rightarrow> 'd sysres option" where
  "call_sys b FN_sys_exit frame s = sys_exit b frame s"
| "call_sys b FN_sys_write frame s = returns (sys_write b frame s)"
| "call_sys b FN_sys_read frame s = returns (sys_read b frame s)"
| "call_sys b FN_sys_open frame s = returns (sys_open b frame s)"
| "call_sys b FN_sys_close frame s = returns (sys_close frame s)"
| "call_sys b FN_sys_getdents frame s = returns (sys_getdents b frame s)"

definition run_syscall :: "'d bus \<Rightarrow> int \<Rightarrow> interrupt_frame \<Rightarrow> 'd sys \<Rightarrow> 'd sysres option" where
  "run_syscall b syscall_id frame s = (if syscall_id < 0 \<or> syscall_id \<ge> MAX_SYSCALL then None
     else case syscalls s ! nat syscall_id of None \<Rightarrow> None | Some f \<Rightarrow> call_sys b f frame s)"

text \<open>The frame the dispatcher returns to, with the result in \<open>eax\<close>, or the registers of the task it enters.\<close>

definition syscall_dispatch :: "'d bus \<Rightarrow> int \<Rightarrow> interrupt_frame \<Rightarrow> 'd sys
    \<Rightarrow> ((interrupt_frame + task_registers) \<times> 'd sys) option" where
  "syscall_dispatch b syscall_id frame s = do {
     s1 \<leftarrow> ks_call (task_save frame) (page_restore_kernel_dir s);
     r \<leftarrow> run_syscall b syscall_id frame s1;
     case r of Enter regs s2 \<Rightarrow> Some (Inr regs, s2)
     | Return n s2 \<Rightarrow> do { s3 \<leftarrow> enter_user s2; Some (Inl (frame\<lparr>f_eax := word_of_int n\<rparr>), s3) } }"

section \<open>Descriptors and buffers\<close>

lemma sint_of_int_small: "0 \<le> i \<Longrightarrow> i < 2 ^ 31 \<Longrightarrow> sint (word_of_int i :: u32) = i"
  by (simp add: sint_sbintrunc' signed_take_bit_int_eq_self)

lemma sys_open_fopen:
  assumes "sys_open b frame s = Some (fd, s')" "0 < fd"
  shows "\<exists>fname mode v v'. vfs_fopen b fname mode v = Some (fd, v') \<and> fdescriptors v = fdescriptors (vfs s)"
proof -
  have alloc: "sys_kzalloc n t = Some (p, t') \<Longrightarrow> fdescriptors (vfs t') = fdescriptors (vfs t)" for n t p t'
    by (auto simp: sys_kzalloc_def vfs_alloc_def split: bind_splits)
  have enter: "enter_user t = Some t' \<Longrightarrow> fdescriptors (vfs t') = fdescriptors (vfs t)" for t t'
    by (auto simp: enter_user_def ks_call_def split: bind_splits prod.splits)
  have copy: "copy_from_user a n t = Some (bs, t') \<Longrightarrow> fdescriptors (vfs t') = fdescriptors (vfs t)" for a n t bs t'
    by (auto simp: copy_from_user_def split: bind_splits dest: enter)
  have dirs: "fdescriptors (vfs (page_restore_kernel_dir t)) = fdescriptors (vfs t)"
    "fdescriptors (vfs (kernel_write p bs t)) = fdescriptors (vfs t)" for t p bs
    by (simp_all add: page_restore_kernel_dir_def kernel_write_def upd_kheap_def)
  have neg: "\<not> 0 < - EFAULT" "\<not> 0 < - ENOMEM" "\<not> 0 < - EINVAL" "\<not> 0 < - ENOENT" by (simp_all add: konst)
  obtain s1 s2 kbuf bs s3 s5 mode where r: "enter_user s = Some s1"
      "sys_kzalloc kbuf (page_restore_kernel_dir s1) = Some s2" "copy_from_user (f_ebx frame) bs (snd s2) = Some s3"
      "vfs_call (vfs_fopen b (fst s3 @ [0]) mode) (page_restore_kernel_dir (kernel_write (fst s2) (fst s3 @ [0]) (snd s3))) = Some (fd, s5)"
    using assms neg by (fastforce simp: sys_open_def Let_def split: if_splits bind_splits prod.splits)
  have "fdescriptors (vfs (page_restore_kernel_dir (kernel_write (fst s2) (fst s3 @ [0]) (snd s3)))) = fdescriptors (vfs s)"
    using enter [OF r(1)] alloc [of kbuf "page_restore_kernel_dir s1" "fst s2" "snd s2"]
      copy [of "f_ebx frame" bs "snd s2" "fst s3" "snd s3"] r(2,3) by (simp add: dirs)
  then show ?thesis using r(4) by (fastforce simp: vfs_call_def split: bind_splits)
qed

text \<open>The system calls end the text they copy with a zero byte behind the number of bytes they asked the heap for. When
  that number and the block header fill whole chunks, the byte lands in the header of the next chunk.\<close>

theorem terminator_hits_next_header:
  assumes "heap_inv (kheap_of s) xs" "9 \<le> card (free_frames (kpfa (kheap_of s)))"
    and "next_addr (kheap_of s) + n + sizeof_heap_block \<le> KERNEL_HEAP_MAX" "(n + sizeof_heap_block) mod 4096 = 0"
  shows "\<exists>kbuf s1. sys_kzalloc n s = Some (kbuf, s1) \<and> kbuf \<noteq> 0 \<and> block_at (kheap_of s1) (kbuf + n) \<noteq> None
    \<and> block_at (kheap_of (kernel_write (kbuf + n) [0] s1)) (kbuf + n) = None"
proof -
  define k where "k = (n + sizeof_heap_block + 4095) div 4096"
  have n: "n + sizeof_heap_block = 4096 * k" using assms(4) unfolding k_def by auto
  obtain us vs j h where h: "sys_kzalloc n s = Some (KERNEL_HEAP_START + 4096 * spans us + sizeof_heap_block, upd_kheap (\<lambda>_. h) s)"
      "heap_inv h (us @ (k, False) # vs)"
    using sys_kzalloc_ok [OF assms(1-3) k_def] by blast
  let ?a = "KERNEL_HEAP_START + 4096 * spans us"
  have "vs \<noteq> []" using h(2) by (auto simp: heap_inv_def)
  then obtain v f ws where "vs = (v, f) # ws" by (cases vs) auto
  then have "blocks h (?a + 4096 * k) \<noteq> None" using h(2) by (auto simp: heap_inv_def tiles_append)
  moreover have "?a + sizeof_heap_block + n = ?a + 4096 * k" using n by simp
  ultimately have "block_at h (?a + sizeof_heap_block + n) \<noteq> None" by (simp only: block_at_def) (simp add: konst)
  moreover have "block_at (write_data (?a + sizeof_heap_block + n) [0] h) (?a + sizeof_heap_block + n) = None"
    by (simp add: block_at_def write_data_def konst)
  ultimately show ?thesis using h(1) by (intro exI conjI) (auto simp: kernel_write_def konst)
qed

section \<open>Reading from the keyboard\<close>

lemma stdin_loop_ok:
  "fifo_inv q \<Longrightarrow> \<exists>q'. stdin_loop n q = (take n (fifo_list q), q', length (fifo_list q) < n) \<and> fifo_inv q'
     \<and> fifo_list q' = drop n (fifo_list q)"
proof (induction n arbitrary: q)
  case (Suc n)
  show ?case
  proof (cases "fifo_list q")
    case Nil
    then have "fifo_is_empty q" using fifo_list_length [of q] by (simp add: fifo_is_empty_def unat_eq_zero)
    then show ?thesis using Nil Suc.prems by simp
  next
    case (Cons x xs)
    then have e: "\<not> fifo_is_empty q" by (auto simp: fifo_is_empty_def fifo_list_def)
    have g: "fst (fifo_get q) = Some x" "fifo_inv (snd (fifo_get q))" "fifo_list (snd (fifo_get q)) = xs"
      using kfifo.deq_cons [OF Suc.prems Cons] by simp_all
    then have "fifo_dequeue (Some q) 0 = (True, x, Some (snd (fifo_get q)))"
      using e by (simp add: fifo_get_def fifo_dequeue_def)
    then show ?thesis using e Suc.IH [OF g(2)] g(3) Cons by auto
  qed
qed simp

text \<open>Bytes stored in one present page of user memory are read back from there.\<close>

lemma phys_unat:
  "d ! pd_index a AND PAGE_PRESENT \<noteq> 0 \<Longrightarrow>
   unat (page_get_phys_addr d a) = unat (d ! pd_index a) - unat (d ! pd_index a) mod 0x400000 + unat a mod 0x400000"
proof -
  let ?e = "d ! pd_index a"
  assume "?e AND PAGE_PRESENT \<noteq> 0"
  then have "page_get_phys_addr d a = (?e AND 0xFFC00000) + (a AND 0x3FFFFF)" by (simp add: page_get_phys_addr_def)
  moreover have "unat (?e AND 0xFFC00000) + unat (a AND 0x3FFFFF) < 2 ^ 32"
  proof -
    have "unat ?e div 0x400000 < 1024" using unat_bound [of ?e] by simp
    moreover have "unat a mod 0x400000 < 0x400000" by simp
    ultimately show ?thesis unfolding unat_page unat_offset minus_mod_eq_div_mult by simp
  qed
  ultimately show ?thesis by (simp add: unat_add_small unat_page unat_offset)
qed

definition in_page :: "pdir \<Rightarrow> u32 \<Rightarrow> nat \<Rightarrow> bool" where
  "in_page d a n \<longleftrightarrow> d ! pd_index a AND PAGE_PRESENT \<noteq> 0 \<and> unat a mod 0x400000 + n \<le> 0x400000 \<and> unat a + n \<le> unat KERNEL_VIRTUAL_START"

lemma poke_peek:
  assumes "in_page d a (length bs)"
  shows "\<exists>m'. poke d a bs (m, h) = Some (m', h) \<and> (\<forall>h'. peek d a (length bs) (m', h') = Some bs)
    \<and> (\<forall>x. (\<forall>i < length bs. unat x \<noteq> unat (page_get_phys_addr d a) + i) \<longrightarrow> m' x = m x)"
  using assms
proof (induction bs arbitrary: a m)
  case (Cons x xs)
  let ?p = "page_get_phys_addr d a"
  have a: "d ! pd_index a AND PAGE_PRESENT \<noteq> 0" "a < KERNEL_VIRTUAL_START"
    using Cons.prems by (auto simp: in_page_def word_less_nat_alt)
  show ?case
  proof (cases xs)
    case Nil
    then show ?thesis using a by auto
  next
    case (Cons y ys)
    then have l: "unat a mod 0x400000 + 1 < 0x400000" "unat a + 1 < unat KERNEL_VIRTUAL_START"
      using Cons.prems by (auto simp: in_page_def)
    then have u: "unat (a + 1) = unat a + 1" by (subst unat_add_small) (simp_all add: konst)
    then have v: "unat (a + 1) mod 0x400000 = unat a mod 0x400000 + 1" "pd_index (a + 1) = pd_index a"
      using l(1) by (simp_all add: mod_Suc div_Suc pd_index_div)
    then have "in_page d (a + 1) (length xs)" using Cons.prems u by (auto simp: in_page_def)
    from Cons.IH [OF this] obtain m' where m: "poke d (a + 1) xs (m(?p := x), h) = Some (m', h)"
        "\<And>h'. peek d (a + 1) (length xs) (m', h') = Some xs"
        "\<And>z. \<forall>i < length xs. unat z \<noteq> unat (page_get_phys_addr d (a + 1)) + i \<Longrightarrow> m' z = (m(?p := x)) z" by blast
    have p: "unat (page_get_phys_addr d (a + 1)) = unat ?p + 1" using a(1) v by (simp add: phys_unat)
    have "m' ?p = x" using m(3) [of ?p] p by simp
    moreover have "m' z = m z" if "\<forall>i < length (x # xs). unat z \<noteq> unat ?p + i" for z
    proof -
      have "unat z \<noteq> unat ?p + Suc i" if "i < length xs" for i using \<open>\<forall>i < length (x # xs). unat z \<noteq> unat ?p + i\<close> that by auto
      moreover have "z \<noteq> ?p" using that by auto
      ultimately show ?thesis using m(3) [of z] p by simp
    qed
    ultimately show ?thesis using a m(1,2) by auto
  qed
qed simp

text \<open>A task whose process has an address space of its own.\<close>

definition running_in :: "'d sys \<Rightarrow> process \<Rightarrow> pdir \<Rightarrow> bool" where
  "running_in s p d \<longleftrightarrow> (\<exists>x. curr_task (ks s) \<noteq> 0 \<and> task_at (ks s) (curr_task (ks s)) = Some x \<and> parent x \<noteq> 0
     \<and> proc_at (ks s) (parent x) = Some p \<and> page_dir p \<noteq> 0 \<and> page_dir p \<noteq> kdir_addr s \<and> dirs s (page_dir p) = Some d)"

lemma running_in_cong:
  "ks t = ks s \<Longrightarrow> kdir_addr t = kdir_addr s \<Longrightarrow> dirs t = dirs s \<Longrightarrow> running_in t p d = running_in s p d"
  by (simp add: running_in_def)

lemma enter_user_running:
  assumes "running_in s p d"
  shows "\<exists>t. enter_user s = Some t \<and> t = s\<lparr>ks := (ks s)\<lparr>cr3 := v2p (page_dir p)\<rparr>\<rparr> \<and> active_dir t = Some d"
  using assms by (auto simp: running_in_def enter_user_def task_get_curr_def ks_call_def task_restore_dir_def active_dir_def
      dir_at_def p2v_def v2p_def)

lemma copy_to_user_ok:
  assumes "running_in s p d" "in_page d a (length bs)"
  shows "\<exists>t. copy_to_user a bs s = Some t \<and> kheap_of t = kheap_of s \<and> dirs t = dirs s \<and> fifos t = fifos s
    \<and> vfs t = vfs s \<and> running_in t p d \<and> syscalls t = syscalls s \<and> ks t = (ks s)\<lparr>cr3 := cr3 (ks t)\<rparr> \<and> (\<forall>h. peek d a (length bs) (pmem t, h) = Some bs)"
proof -
  obtain t where t: "enter_user s = Some t" "t = s\<lparr>ks := (ks s)\<lparr>cr3 := v2p (page_dir p)\<rparr>\<rparr>" "active_dir t = Some d"
    using enter_user_running [OF assms(1)] by blast
  obtain m where m: "poke d a bs (pmem t, kheap_of t) = Some (m, kheap_of t)" "\<And>h. peek d a (length bs) (m, h) = Some bs"
    using poke_peek [OF assms(2)] by blast
  have "upd_kheap (\<lambda>_. kheap_of t) t = t" by (simp add: upd_kheap_def)
  then have "copy_to_user a bs s = Some (page_restore_kernel_dir (t\<lparr>pmem := m\<rparr>))"
    using t(1,3) m(1) by (simp add: copy_to_user_def user_write_def)
  then show ?thesis using m(2) t(2) assms(1) by (auto simp: page_restore_kernel_dir_def running_in_def task_at_def proc_at_def split: if_splits)
qed

lemma peek_length: "peek d a n mh = Some bs \<Longrightarrow> length bs = n"
  by (induction n arbitrary: a bs) (auto split: if_splits)

lemma kernel_write_ks: "(kernel_write p bs (upd_kheap f s))\<lparr>ks := ks s\<rparr> = kernel_write p bs (upd_kheap f s)"
  by (simp add: kernel_write_def upd_kheap_def)

text \<open>The kernel buffer of a call: it can be written up to its length and one byte more without damage to the heap, it is none of the
  allocations that were in use, and giving it back leaves these.\<close>

definition in_use :: "(nat \<times> bool) list \<Rightarrow> ptr \<Rightarrow> bool" where
  "in_use xs q \<longleftrightarrow> q < KERNEL_HEAP_START \<or> (\<exists>a m. (a, m) \<in> set (live xs) \<and> q = a + sizeof_heap_block)"

lemma sys_kfree_fields:
  assumes "sys_kfree p s = Some s'"
  shows "pmem s' = pmem s" "console s' = console s" "syscalls s' = syscalls s" "dirs s' = dirs s" "kdir_addr s' = kdir_addr s"
    "fifos s' = (fifos s)(p := None)"
    "ks s' = (ks s)\<lparr>task_store := (task_store (ks s))(p := None), proc_store := (proc_store (ks s))(p := None)\<rparr>"
  using assms by (auto simp: sys_kfree_def split: bind_splits)

lemma call_buffer:
  fixes s :: "'d sys"
  assumes "heap_inv (kheap_of s) xs" "9 \<le> card (free_frames (kpfa (kheap_of s)))"
    and "next_addr (kheap_of s) + n + sizeof_heap_block \<le> KERNEL_HEAP_MAX" "(n + sizeof_heap_block) mod 4096 \<noteq> 0"
  obtains buf h ys where "sys_kzalloc n s = Some (buf, upd_kheap (\<lambda>_. h) s)" "buf \<noteq> 0" "heap_inv h ys"
    "\<forall>g bs off. heap_inv g ys \<longrightarrow> off + length bs \<le> n + 1 \<longrightarrow> heap_inv (write_data (buf + off) bs g) ys"
    "\<forall>t :: 'd sys. heap_inv (kheap_of t) ys \<longrightarrow> (\<exists>t' zs. sys_kfree buf t = Some t' \<and> heap_inv (kheap_of t') zs \<and> set (live zs) = set (live xs))"
    "\<forall>q. in_use xs q \<longrightarrow> q \<noteq> buf"
proof -
  define k where "k = (n + sizeof_heap_block + 4095) div 4096"
  obtain us vs j h where h: "sys_kzalloc n s = Some (KERNEL_HEAP_START + 4096 * spans us + sizeof_heap_block, upd_kheap (\<lambda>_. h) s)"
      "xs @ replicate (1024 * j) (1, True) = us @ replicate k (1, True) @ vs" "heap_inv h (us @ (k, False) # vs)"
    using sys_kzalloc_ok [OF assms(1-3) k_def] by blast
  let ?a = "KERNEL_HEAP_START + 4096 * spans us" and ?ys = "us @ (k, False) # vs"
  have k: "n + sizeof_heap_block < 4096 * k" using chunk_slack [OF assms(4)] unfolding k_def .
  have lx: "live xs = live us @ live_from (KERNEL_HEAP_START + 4096 * (spans us + k)) vs" by (rule live_replicate_eq [OF h(2)])
  have l: "set (live ?ys) = insert (?a, 4096 * k) (set (live xs))" unfolding lx by (auto simp: algebra_simps)
  have apart: "x \<noteq> ?a" if "(x, y) \<in> set (live xs)" for x y
  proof -
    have "0 < y" "0 < k" using live_pos [of "blocks (kheap_of s)" 0 KERNEL_HEAP_START xs 0 x y] assms(1) that k by (auto simp: heap_inv_def)
    then show ?thesis
      using that lx live_bounds [of x y KERNEL_HEAP_START us] live_bounds [of x y "KERNEL_HEAP_START + 4096 * (spans us + k)" vs] by auto
  qed
  let ?p = "?a + sizeof_heap_block"
  have w: "heap_inv (write_data (?p + off) bs g) ?ys" if "heap_inv g ?ys" "off + length bs \<le> n + 1" for g bs off
    using that k by (intro write_inside_inv [OF that(1) refl]) auto
  have f: "\<exists>t' zs. sys_kfree ?p t = Some t' \<and> heap_inv (kheap_of t') zs \<and> set (live zs) = set (live xs)"
    if i: "heap_inv (kheap_of t) ?ys" for t :: "'d sys"
  proof -
    have "set (live ?ys) - {(?a, 4096 * k)} = set (live xs)" using apart l by auto
    with sys_kfree_live [OF i, of ?a "4096 * k"] show ?thesis by auto
  qed
  have q: "q \<noteq> ?p" if "in_use xs q" for q using that unfolding in_use_def by (auto dest: apart)
  have "?p \<noteq> 0" by (simp add: konst)
  with that [OF h(1) _ h(3)] w f q show thesis by blast
qed

text \<open>The descriptors of the VFS are numbered from 1, and 1 and 2 are also the numbers of standard output and error. While
  fewer than two slots have been used since boot, the only number \<open>open\<close> can give a program is one that \<open>read\<close> refuses,
  whatever file is behind it.\<close>

theorem first_files_unreadable:
  fixes t :: "'b sys"
  assumes "fd_used n (vfs s)" "n < 2" "f_ebx frame = of_nat n + 1" "f_ecx frame \<noteq> 0" "0 < f_edx frame"
    and "heap_inv (kheap_of t) xs" "9 \<le> card (free_frames (kpfa (kheap_of t)))"
    and "next_addr (kheap_of t) + unat (f_edx frame) + sizeof_heap_block \<le> KERNEL_HEAP_MAX"
    and "(unat (f_edx frame) + sizeof_heap_block) mod 4096 \<noteq> 0" "running_in t p d"
  shows "(\<forall>open_frame fd s'. sys_open b open_frame s = Some (fd, s') \<longrightarrow> fd \<le> 0 \<or> fd = int n + 1)
    \<and> (\<exists>t'. sys_read b frame t = Some (- 1, t'))"
proof -
  have "fd = int n + 1" if o: "sys_open b open_frame s = Some (fd, s')" "\<not> fd \<le> 0" for open_frame fd s'
  proof -
    obtain fname mode v v' where v: "vfs_fopen b fname mode v = Some (fd, v')" "fdescriptors v = fdescriptors (vfs s)"
      using sys_open_fopen [OF o(1)] o(2) by force
    then show ?thesis using fopen_table [OF v(1)] find_empty_used [OF assms(1)] assms(2) o(2) by auto
  qed
  moreover have "\<exists>t'. sys_read b frame t = Some (- 1, t')"
  proof -
    obtain buf h ys where h: "sys_kzalloc (unat (f_edx frame)) t = Some (buf, upd_kheap (\<lambda>_. h) t)" "buf \<noteq> 0" "heap_inv h ys"
        "\<forall>g bs off. heap_inv g ys \<longrightarrow> off + length bs \<le> unat (f_edx frame) + 1 \<longrightarrow> heap_inv (write_data (buf + off) bs g) ys"
        "\<forall>t :: 'b sys. heap_inv (kheap_of t) ys \<longrightarrow> (\<exists>t' zs. sys_kfree buf t = Some t' \<and> heap_inv (kheap_of t') zs \<and> set (live zs) = set (live xs))"
        "\<forall>q. in_use xs q \<longrightarrow> q \<noteq> buf"
      by (rule call_buffer [OF assms(6-9)])
    let ?t = "kernel_write (buf + unat (f_edx frame)) [0] (upd_kheap (\<lambda>_. h) t)"
    have "heap_inv (kheap_of ?t) ys" using h(3,4) by (simp add: kernel_write_def)
    with h(5) obtain t' where t: "sys_kfree buf ?t = Some t'" by blast
    obtain x where x: "curr_task (ks t) \<noteq> 0" "task_at (ks t) (curr_task (ks t)) = Some x" "parent x \<noteq> 0"
      using assms(10) unfolding running_in_def by blast
    have "sint (f_ebx frame) = 1 \<or> sint (f_ebx frame) = 2"
      using assms(2,3) by (cases n) (auto simp: less_Suc_eq numeral_2_eq_2)
    moreover have "ks ?t = ks t" by (simp add: kernel_write_def)
    ultimately show ?thesis using h(1,2) t x assms(4,5)
      by (auto simp: sys_read_def Let_def task_get_curr_def konst kernel_write_ks)
  qed
  ultimately show ?thesis by force
qed

section \<open>Standard input and output\<close>

text \<open>The running task and its process survive a release of something else, and what a page of the program holds does not depend on the
  heap.\<close>

definition caller_kept :: "(nat \<times> bool) list \<Rightarrow> kstate \<Rightarrow> bool" where
  "caller_kept xs s \<longleftrightarrow> in_use xs (curr_task s) \<and> (\<forall>x. task_at s (curr_task s) = Some x \<longrightarrow> in_use xs (parent x))"

lemma kfree_running:
  assumes "sys_kfree buf t = Some t'" "running_in t p d" "caller_kept xs (ks t)" "\<forall>q. in_use xs q \<longrightarrow> q \<noteq> buf"
  shows "running_in t' p d" "caller_kept xs (ks t')"
proof -
  obtain x where x: "curr_task (ks t) \<noteq> 0" "task_at (ks t) (curr_task (ks t)) = Some x" "parent x \<noteq> 0" "proc_at (ks t) (parent x) = Some p"
    "page_dir p \<noteq> 0" "page_dir p \<noteq> kdir_addr t" "dirs t (page_dir p) = Some d" using assms(2) unfolding running_in_def by blast
  have n: "curr_task (ks t) \<noteq> buf" "parent x \<noteq> buf" using assms(3,4) x(2) by (auto simp: caller_kept_def)
  show "running_in t' p d" using x n by (auto simp: running_in_def task_at_def proc_at_def sys_kfree_fields [OF assms(1)])
  show "caller_kept xs (ks t')" using assms(3) x n by (auto simp: caller_kept_def task_at_def sys_kfree_fields [OF assms(1)])
qed

lemma peek_heap: "in_page d a n \<Longrightarrow> peek d a n (m, h) = peek d a n (m, h')"
proof (induction n arbitrary: a)
  case (Suc n)
  have a: "a < KERNEL_VIRTUAL_START" using Suc.prems by (auto simp: in_page_def word_less_nat_alt)
  show ?case
  proof (cases n)
    case (Suc k)
    then have l: "unat a mod 0x400000 + 1 < 0x400000" "unat a + 1 < unat KERNEL_VIRTUAL_START"
      using Suc.prems by (auto simp: in_page_def)
    then have u: "unat (a + 1) = unat a + 1" by (subst unat_add_small) (simp_all add: konst)
    then have "in_page d (a + 1) n" using Suc.prems l(1) by (simp add: in_page_def mod_Suc div_Suc pd_index_div)
    with Suc.IH a show ?thesis by simp
  qed (use a in simp)
qed simp

text \<open>A program that reads from standard input while enough keys are waiting gets exactly these keys, oldest first, in its
  memory, and they leave the keyboard buffer; the kernel buffer of the call is given back to the heap. The call returns 0,
  not the number of bytes.\<close>

lemma sys_read_stdin_ok:
  fixes s :: "'d sys"
  assumes "running_in s p d" "sint (f_ebx frame) = FD_STDIN" "f_ecx frame \<noteq> 0" "in_page d (f_ecx frame) n" "n = unat (f_edx frame)" "0 < n"
    and "fifos s (keyboard_buffer p) = Some q" "fifo_inv q" "n \<le> length (fifo_list q)"
    and "heap_inv (kheap_of s) xs" "9 \<le> card (free_frames (kpfa (kheap_of s)))"
    and "next_addr (kheap_of s) + n + sizeof_heap_block \<le> KERNEL_HEAP_MAX" "(n + sizeof_heap_block) mod 4096 \<noteq> 0"
    and "in_use xs (keyboard_buffer p)" "caller_kept xs (ks s)"
  shows "\<exists>s' q' ys. sys_read b frame s = Some (0, s') \<and> running_in s' p d \<and> caller_kept xs (ks s') \<and> syscalls s' = syscalls s
    \<and> (\<forall>h. peek d (f_ecx frame) n (pmem s', h) = Some (take n (fifo_list q)))
    \<and> fifos s' (keyboard_buffer p) = Some q' \<and> fifo_list q' = drop n (fifo_list q)
    \<and> heap_inv (kheap_of s') ys \<and> set (live ys) = set (live xs)"
proof -
  obtain buf h ys where h: "sys_kzalloc n s = Some (buf, upd_kheap (\<lambda>_. h) s)" "buf \<noteq> 0" "heap_inv h ys"
      "\<forall>g bs off. heap_inv g ys \<longrightarrow> off + length bs \<le> n + 1 \<longrightarrow> heap_inv (write_data (buf + off) bs g) ys"
      "\<forall>t :: 'd sys. heap_inv (kheap_of t) ys \<longrightarrow> (\<exists>t' zs. sys_kfree buf t = Some t' \<and> heap_inv (kheap_of t') zs \<and> set (live zs) = set (live xs))"
      "\<forall>q. in_use xs q \<longrightarrow> q \<noteq> buf"
    by (rule call_buffer [OF assms(10-13)])
  define data where "data = take n (fifo_list q)"
  have data: "length data = n" using assms(9) by (simp add: data_def)
  define h2 where "h2 = write_data (buf + n) [0] h"
  have h2: "heap_inv (write_data buf data h2) ys"
    using h(3) h(4) [rule_format, of h n "[0]"] h(4) [rule_format, of h2 0 data] data by (simp add: h2_def)
  obtain q' where q: "stdin_loop n q = (data, q', False)" "fifo_list q' = drop n (fifo_list q)"
    using stdin_loop_ok [OF assms(8), of n] assms(9) unfolding data_def by auto
  define s4 where "s4 = upd_kheap (\<lambda>_. write_data buf data h2) (s\<lparr>fifos := (fifos s)(keyboard_buffer p \<mapsto> q')\<rparr>)"
  have r4: "running_in s4 p d" using assms(1) by (simp add: running_in_def s4_def upd_kheap_def)
  from copy_to_user_ok [OF r4, of "f_ecx frame" data] assms(4) data obtain t where
    t: "copy_to_user (f_ecx frame) data s4 = Some t" "kheap_of t = kheap_of s4" "fifos t = fifos s4" "running_in t p d"
      "ks t = (ks s4)\<lparr>cr3 := cr3 (ks t)\<rparr>" "\<And>h. peek d (f_ecx frame) n (pmem t, h) = Some data" "syscalls t = syscalls s4" by auto
  have "kheap_of t = write_data buf data h2" using t(2) by (simp add: s4_def)
  with h(5) h2 obtain s' zs where f: "sys_kfree buf t = Some s'" "heap_inv (kheap_of s') zs" "set (live zs) = set (live xs)" by metis
  have kept: "caller_kept xs (ks t)" using assms(15) by (subst t(5)) (simp add: s4_def caller_kept_def task_at_def)
  have r: "running_in s' p d" "caller_kept xs (ks s')" "syscalls s' = syscalls s"
    using kfree_running [OF f(1) t(4) kept h(6)] sys_kfree_fields(3) [OF f(1)] t(7) by (simp_all add: s4_def upd_kheap_def)
  have qz: "fifos s' (keyboard_buffer p) = Some q'" "pmem s' = pmem t"
    using h(6) assms(14) t(3) by (auto simp: sys_kfree_fields [OF f(1)] s4_def)
  obtain x where x: "curr_task (ks s) \<noteq> 0" "task_at (ks s) (curr_task (ks s)) = Some x" "parent x \<noteq> 0"
      "proc_at (ks s) (parent x) = Some p" using assms(1) unfolding running_in_def by blast
  have w: "kernel_write (buf + n) [0] (upd_kheap (\<lambda>_. h) s) = upd_kheap (\<lambda>_. h2) s"
    by (simp add: kernel_write_def upd_kheap_def h2_def)
  have v: "kernel_write buf data ((upd_kheap (\<lambda>_. h2) s)\<lparr>ks := ks s, fifos := (fifos s)(keyboard_buffer p \<mapsto> q')\<rparr>) = s4"
    by (simp add: kernel_write_def upd_kheap_def s4_def)
  have "f_edx frame \<noteq> 0" using assms(5,6) by auto
  moreover have "take n (data @ replicate n 0) = data" using data by simp
  ultimately have "sys_read b frame s = Some (0, s')"
    using assms(2,3,7) h(1,2) x q(1) t(1) f(1) w v
    by (simp add: sys_read_def Let_def assms(5) [symmetric] task_get_curr_def konst del: neq0_conv)
  then show ?thesis using q(2) f(2,3) t(6) qz r unfolding data_def by auto
qed

text \<open>A program that writes to standard output or error gets the bytes up to the first 0 on the console.\<close>

lemma sys_write_console_ok:
  fixes s :: "'d sys"
  assumes "running_in s p d" "sint (f_ebx frame) = FD_STDOUT \<or> sint (f_ebx frame) = FD_STDERR" "in_page d (f_ecx frame) n" "n = unat (f_edx frame)"
    and "peek d (f_ecx frame) n (pmem s, kheap_of s) = Some bs"
    and "heap_inv (kheap_of s) xs" "9 \<le> card (free_frames (kpfa (kheap_of s)))"
    and "next_addr (kheap_of s) + n + sizeof_heap_block \<le> KERNEL_HEAP_MAX" "(n + sizeof_heap_block) mod 4096 \<noteq> 0"
    and "caller_kept xs (ks s)"
  shows "\<exists>s' ys. sys_write b frame s = Some (sint (f_edx frame), s') \<and> running_in s' p d \<and> caller_kept xs (ks s') \<and> syscalls s' = syscalls s
    \<and> console s' = console s @ takeWhile (\<lambda>c. c \<noteq> 0) bs \<and> pmem s' = pmem s
    \<and> heap_inv (kheap_of s') ys \<and> set (live ys) = set (live xs)"
proof -
  obtain buf h ys where h: "sys_kzalloc n s = Some (buf, upd_kheap (\<lambda>_. h) s)" "buf \<noteq> 0" "heap_inv h ys"
      "\<forall>g bs off. heap_inv g ys \<longrightarrow> off + length bs \<le> n + 1 \<longrightarrow> heap_inv (write_data (buf + off) bs g) ys"
      "\<forall>t :: 'd sys. heap_inv (kheap_of t) ys \<longrightarrow> (\<exists>t' zs. sys_kfree buf t = Some t' \<and> heap_inv (kheap_of t') zs \<and> set (live zs) = set (live xs))"
      "\<forall>q. in_use xs q \<longrightarrow> q \<noteq> buf"
    by (rule call_buffer [OF assms(6-9)])
  define s1 where "s1 = upd_kheap (\<lambda>_. h) s"
  have r1: "running_in s1 p d" using assms(1) by (simp add: running_in_def s1_def upd_kheap_def)
  obtain s2 where s2: "enter_user s1 = Some s2" "s2 = s1\<lparr>ks := (ks s1)\<lparr>cr3 := v2p (page_dir p)\<rparr>\<rparr>" "active_dir s2 = Some d"
    using enter_user_running [OF r1] by blast
  have "peek d (f_ecx frame) n (pmem s2, kheap_of s2) = Some bs"
    using peek_heap [OF assms(3), of "pmem s" "kheap_of s2" "kheap_of s"] assms(5) s2(2) by (simp add: s1_def upd_kheap_def)
  then have c: "copy_from_user (f_ecx frame) n s1 = Some (bs, s2)"
    using s2(1,3) by (simp add: copy_from_user_def user_read_def)
  have len: "length bs = n" using assms(5) by (rule peek_length)
  define t where "t = (page_restore_kernel_dir (kernel_write buf (bs @ [0]) s2))\<lparr>console := console s @ takeWhile (\<lambda>c. c \<noteq> 0) bs\<rparr>"
  have t: "kheap_of t = write_data buf (bs @ [0]) h" "running_in t p d" "caller_kept xs (ks t)" "pmem t = pmem s"
      "console t = console s @ takeWhile (\<lambda>c. c \<noteq> 0) bs" "syscalls t = syscalls s"
    using r1 assms(10) by (auto simp: t_def s2(2) s1_def page_restore_kernel_dir_def kernel_write_def upd_kheap_def running_in_def
      caller_kept_def task_at_def proc_at_def split: if_splits)
  have "heap_inv (kheap_of t) ys" using h(3) h(4) [rule_format, of h 0 "bs @ [0]"] len t(1) by simp
  with h(5) obtain s' zs where f: "sys_kfree buf t = Some s'" "heap_inv (kheap_of s') zs" "set (live zs) = set (live xs)" by metis
  have "running_in s' p d" "caller_kept xs (ks s')" by (rule kfree_running [OF f(1) t(2,3) h(6)])+
  moreover have "pmem s' = pmem s" "console s' = console t" "syscalls s' = syscalls s" using t(4,6) sys_kfree_fields [OF f(1)] by simp_all
  moreover have "console (page_restore_kernel_dir (kernel_write buf (bs @ [0]) s2)) = console s"
    by (simp add: s2(2) s1_def page_restore_kernel_dir_def kernel_write_def upd_kheap_def)
  then have "sys_write b frame s = Some (sint (f_edx frame), s')"
    using assms(2) h(1,2) c f(1) by (auto simp: sys_write_def Let_def assms(4) [symmetric] s1_def [symmetric] t_def)
  ultimately show ?thesis using f(2,3) t(5) by auto
qed

section \<open>A running shell\<close>

text \<open>The kernel of the process witnesses with a task of its process running and three keys waiting.\<close>

definition sys3 :: "drive sys" where
  "sys3 = sys2\<lparr>ks := (ks sys2)\<lparr>task_store := [7 \<mapsto> (task0 TASK_STATE_RUN WAIT_NONE)\<lparr>parent := 0xC1000014\<rparr>], curr_task := 7\<rparr>,
     fifos := [0xC1001014 \<mapsto> fifo.make ([0x6C, 0x73, 0x0A] @ replicate 125 0) 3 0 3]\<rparr>"

definition read_frame :: "u32 \<Rightarrow> interrupt_frame" where
  "read_frame fd = frame0\<lparr>f_eax := 3, f_ebx := fd, f_ecx := 0x1000, f_edx := 2\<rparr>"

lemma sys3_running: "running_in sys3 proc0 ((replicate 1024 0)[0 := 0x2800087, 1 := 0x2C00087])"
  by (simp add: running_in_def sys3_def sys2_def task_at_def proc_at_def proc0_def)

lemma sys3_heap:
  "kheap_of sys3 = heap2" "heap_inv (kheap_of sys3) [(1, False), (1, False), (1, True)]"
  "9 \<le> card (free_frames (kpfa (kheap_of sys3)))" "next_addr (kheap_of sys3) + 2 + sizeof_heap_block \<le> KERNEL_HEAP_MAX"
proof -
  show h: "kheap_of sys3 = heap2" by (simp add: sys3_def sys2_def vfs0_def)
  show "heap_inv (kheap_of sys3) [(1, False), (1, False), (1, True)]" using heap2_inv by (simp add: h)
  have "kpfa heap2 = kpfa kheap0" by (simp add: heap2_def)
  then show "9 \<le> card (free_frames (kpfa (kheap_of sys3)))" using kheap0_frames(3) by (simp add: h)
  show "next_addr (kheap_of sys3) + 2 + sizeof_heap_block \<le> KERNEL_HEAP_MAX" by (simp add: h heap2_def konst)
qed

theorem terminator_hits_next_header_witness:
  "\<exists>kbuf s1. sys_kzalloc 4076 sys3 = Some (kbuf, s1) \<and> kbuf \<noteq> 0
    \<and> block_at (kheap_of (kernel_write (kbuf + 4076) [0] s1)) (kbuf + 4076) = None"
proof -
  have "next_addr (kheap_of sys3) + 4076 + sizeof_heap_block \<le> KERNEL_HEAP_MAX" "(4076 + sizeof_heap_block) mod 4096 = 0"
    by (simp_all add: sys3_heap(1) heap2_def konst)
  from terminator_hits_next_header [OF sys3_heap(2,3) this] show ?thesis by blast
qed

theorem first_files_unreadable_witness:
  "\<exists>t'. sys_read drive_bus (read_frame 2) sys3 = Some (- 1, t')"
proof -
  have v: "fd_used 1 (vfs sys3)" using vfs0_used [of 1 heap2] by (simp add: sys3_def sys2_def)
  have f: "f_ebx (read_frame 2) = of_nat 1 + 1" "f_ecx (read_frame 2) \<noteq> 0" "0 < f_edx (read_frame 2)" "unat (f_edx (read_frame 2)) = 2"
    "(unat (f_edx (read_frame 2)) + sizeof_heap_block) mod 4096 \<noteq> 0" by (simp_all add: read_frame_def konst)
  show ?thesis
    using first_files_unreadable [OF v _ f(1-3) sys3_heap(2,3) _ f(5) sys3_running] sys3_heap(4) f(4) by simp
qed

end
