(* ===== verification/Usys.thy ===== *)
theory Usys
  imports Syscall
begin

text \<open>
  \<open>user/libc/syscall.c\<close> and \<open>asm_syscall\<close> of \<open>idt.asm\<close>: a system call of a user program from the call of its C function through the
  interrupt and the dispatcher of the kernel and back. The program's side of the state is its registers.
\<close>

section \<open>The code\<close>

text \<open>The interrupt saves the registers in the frame; a call that returns leaves the program with the frame's. The calls that end the
  program enter another task.\<close>

definition asm_syscall :: "'d bus \<Rightarrow> interrupt_frame \<Rightarrow> 'd sys \<Rightarrow> ((interrupt_frame + task_registers) \<times> 'd sys) option" where
  "asm_syscall b regs s = syscall_dispatch b (sint (f_eax regs)) regs s"

definition syscall :: "'d bus \<Rightarrow> nat \<Rightarrow> u32 \<Rightarrow> u32 \<Rightarrow> u32 \<Rightarrow> interrupt_frame \<times> 'd sys
    \<Rightarrow> ((int \<times> interrupt_frame + task_registers) \<times> 'd sys) option" where
  "syscall b num arg1 arg2 arg3 = (\<lambda>(regs, s). do {
     (r, s') \<leftarrow> asm_syscall b (regs\<lparr>f_eax := of_nat num, f_ebx := arg1, f_ecx := arg2, f_edx := arg3\<rparr>) s;
     Some (case r of Inl regs' \<Rightarrow> Inl (sint (f_eax regs'), regs') | Inr task \<Rightarrow> Inr task, s') })"

definition uread :: "'d bus \<Rightarrow> int \<Rightarrow> u32 \<Rightarrow> int \<Rightarrow> interrupt_frame \<times> 'd sys \<Rightarrow> ((int \<times> interrupt_frame + task_registers) \<times> 'd sys) option" where
  "uread b fd buf n = syscall b SYS_READ (word_of_int fd) buf (word_of_int n)"

definition uwrite :: "'d bus \<Rightarrow> int \<Rightarrow> u32 \<Rightarrow> int \<Rightarrow> interrupt_frame \<times> 'd sys \<Rightarrow> ((int \<times> interrupt_frame + task_registers) \<times> 'd sys) option" where
  "uwrite b fd buf n = syscall b SYS_WRITE (word_of_int fd) buf (word_of_int n)"

definition uexit :: "'d bus \<Rightarrow> int \<Rightarrow> interrupt_frame \<times> 'd sys \<Rightarrow> ((int \<times> interrupt_frame + task_registers) \<times> 'd sys) option" where
  "uexit b code = syscall b SYS_EXIT (word_of_int code) 0 0"

definition uclose :: "'d bus \<Rightarrow> int \<Rightarrow> interrupt_frame \<times> 'd sys \<Rightarrow> ((int \<times> interrupt_frame + task_registers) \<times> 'd sys) option" where
  "uclose b fd = syscall b SYS_CLOSE (word_of_int fd) 0 0"

definition uopen :: "'d bus \<Rightarrow> u32 \<Rightarrow> int \<Rightarrow> interrupt_frame \<times> 'd sys \<Rightarrow> ((int \<times> interrupt_frame + task_registers) \<times> 'd sys) option" where
  "uopen b pathname flags = syscall b SYS_OPEN pathname (word_of_int flags) 0"

definition ugetdents :: "'d bus \<Rightarrow> int \<Rightarrow> u32 \<Rightarrow> u32 \<Rightarrow> interrupt_frame \<times> 'd sys \<Rightarrow> ((int \<times> interrupt_frame + task_registers) \<times> 'd sys) option" where
  "ugetdents b fd buf n = syscall b SYS_GETDENTS (word_of_int fd) buf n"

section \<open>The way into the kernel and back\<close>

text \<open>A program runs: its task is current with its directory active, the table of calls is set up, and what the call needs is allocated.\<close>

definition program_runs :: "'d sys \<Rightarrow> process \<Rightarrow> pdir \<Rightarrow> (nat \<times> bool) list \<Rightarrow> bool" where
  "program_runs s p d xs \<longleftrightarrow> running_in s p d \<and> active_dir s = Some d \<and> syscall_init s = s \<and> caller_kept xs (ks s) \<and> heap_inv (kheap_of s) xs"

text \<open>The registers the call saves for a switch, which the call itself does not use.\<close>

lemma task_save_ok:
  assumes "running_in s p d" "caller_kept xs (ks s)"
  obtains k where "task_save frame (ks s) = Some k" "running_in (s\<lparr>ks := k\<rparr>) p d" "caller_kept xs k"
proof -
  obtain x where x: "curr_task (ks s) \<noteq> 0" "task_at (ks s) (curr_task (ks s)) = Some x" "parent x \<noteq> 0" "proc_at (ks s) (parent x) = Some p"
    "page_dir p \<noteq> 0" "page_dir p \<noteq> kdir_addr s" "dirs s (page_dir p) = Some d" using assms(1) unfolding running_in_def by blast
  let ?k = "set_task (curr_task (ks s)) (x\<lparr>registers := regs_of_frame frame\<rparr>) (ks s)"
  show thesis
  proof (rule that)
    show "task_save frame (ks s) = Some ?k" using x by (simp add: task_save_def task_get_curr_def)
    show "running_in (s\<lparr>ks := ?k\<rparr>) p d" using x by (auto simp: running_in_def task_at_def proc_at_def set_task_def)
    show "caller_kept xs ?k" using assms(2) x(1,2) by (auto simp: caller_kept_def task_at_def set_task_def)
  qed
qed

text \<open>A call that returns: the state in which the handler runs and what the program continues with.\<close>

lemma syscall_returns:
  assumes "program_runs s p d xs" "num \<in> {SYS_READ, SYS_WRITE}"
    and "frame = regs\<lparr>f_eax := of_nat num, f_ebx := u, f_ecx := v, f_edx := w\<rparr>"
  obtains t where "running_in t p d" "caller_kept xs (ks t)" "kheap_of t = kheap_of s" "pmem t = pmem s" "fifos t = fifos s" "console t = console s" "syscalls t = syscalls s"
    "\<forall>r t'. (if num = SYS_READ then sys_read b frame t else sys_write b frame t) = Some (r, t') \<longrightarrow> running_in t' p d \<longrightarrow>
       syscall b num u v w (regs, s) = Some (Inl (sint (word_of_int r :: u32), frame\<lparr>f_eax := word_of_int r\<rparr>),
         t'\<lparr>ks := (ks t')\<lparr>cr3 := v2p (page_dir p)\<rparr>\<rparr>) \<and> active_dir (t'\<lparr>ks := (ks t')\<lparr>cr3 := v2p (page_dir p)\<rparr>\<rparr>) = Some d"
proof -
  define s1 where "s1 = page_restore_kernel_dir s"
  have "running_in s1 p d" "caller_kept xs (ks s1)" using assms(1)
    by (auto simp: s1_def program_runs_def page_restore_kernel_dir_def running_in_def caller_kept_def task_at_def proc_at_def split: if_splits)
  then obtain k where k: "task_save frame (ks s1) = Some k" "running_in (s1\<lparr>ks := k\<rparr>) p d" "caller_kept xs k" by (rule task_save_ok)
  define t where "t = s1\<lparr>ks := k\<rparr>"
  have "syscalls s = syscalls (syscall_init s)" using assms(1) by (simp add: program_runs_def)
  then have c: "syscalls t ! SYS_READ = Some FN_sys_read" "syscalls t ! SYS_WRITE = Some FN_sys_write"
    by (simp_all add: t_def s1_def page_restore_kernel_dir_def syscall_init_def konst)
  have n: "sint (of_nat num :: u32) = int num" "0 \<le> int num" "int num < MAX_SYSCALL" using assms(2) by (auto simp: konst)
  show thesis
  proof (rule that [of t])
    show "running_in t p d" "caller_kept xs (ks t)" using k(2,3) by (simp_all add: t_def)
    show "kheap_of t = kheap_of s" "pmem t = pmem s" "fifos t = fifos s" "console t = console s" "syscalls t = syscalls s"
      by (simp_all add: t_def s1_def page_restore_kernel_dir_def)
    show "\<forall>r t'. (if num = SYS_READ then sys_read b frame t else sys_write b frame t) = Some (r, t') \<longrightarrow> running_in t' p d \<longrightarrow>
       syscall b num u v w (regs, s) = Some (Inl (sint (word_of_int r :: u32), frame\<lparr>f_eax := word_of_int r\<rparr>),
         t'\<lparr>ks := (ks t')\<lparr>cr3 := v2p (page_dir p)\<rparr>\<rparr>) \<and> active_dir (t'\<lparr>ks := (ks t')\<lparr>cr3 := v2p (page_dir p)\<rparr>\<rparr>) = Some d"
    proof (intro allI impI)
      fix r t' assume r: "(if num = SYS_READ then sys_read b frame t else sys_write b frame t) = Some (r, t')" "running_in t' p d"
      have "run_syscall b (int num) frame t = Some (Return r t')"
        using r(1) assms(2) c n by (auto simp: run_syscall_def returns_def split: if_splits)
      moreover have "ks_call (task_save frame) s1 = Some t" using k(1) by (simp add: ks_call_def t_def)
      ultimately show "syscall b num u v w (regs, s) = Some (Inl (sint (word_of_int r :: u32), frame\<lparr>f_eax := word_of_int r\<rparr>),
         t'\<lparr>ks := (ks t')\<lparr>cr3 := v2p (page_dir p)\<rparr>\<rparr>) \<and> active_dir (t'\<lparr>ks := (ks t')\<lparr>cr3 := v2p (page_dir p)\<rparr>\<rparr>) = Some d"
        using enter_user_running [OF r(2)] n(1) by (auto simp: syscall_def asm_syscall_def syscall_dispatch_def s1_def [symmetric] assms(3))
    qed
  qed
qed

lemma program_runs_after:
  assumes "running_in t p d" "caller_kept xs (ks t)" "syscalls t = syscalls s" "syscall_init s = s" "heap_inv (kheap_of t) ys"
    and "set (live ys) = set (live xs)" "active_dir (t\<lparr>ks := (ks t)\<lparr>cr3 := c\<rparr>\<rparr>) = Some d"
  shows "program_runs (t\<lparr>ks := (ks t)\<lparr>cr3 := c\<rparr>\<rparr>) p d ys"
proof -
  have "syscalls (syscall_init s) = syscalls s" using assms(4) by simp
  then have "syscall_init (t\<lparr>ks := (ks t)\<lparr>cr3 := c\<rparr>\<rparr>) = t\<lparr>ks := (ks t)\<lparr>cr3 := c\<rparr>\<rparr>"
    using assms(3) by (simp add: syscall_init_def)
  moreover have "running_in (t\<lparr>ks := (ks t)\<lparr>cr3 := c\<rparr>\<rparr>) p d"
    using assms(1) by (auto simp: running_in_def task_at_def proc_at_def split: if_splits)
  moreover have "caller_kept ys (ks (t\<lparr>ks := (ks t)\<lparr>cr3 := c\<rparr>\<rparr>))"
    using assms(2,6) by (simp add: caller_kept_def in_use_def task_at_def)
  ultimately show ?thesis using assms(5,7) by (simp add: program_runs_def)
qed

lemma page_count: "in_page d a n \<Longrightarrow> n \<le> 0x400000" by (simp add: in_page_def)

section \<open>Properties\<close>



text \<open>The number of a call is not checked against the table: a program that uses one without a handler halts the kernel.\<close>

lemma unknown_call_panics:
  assumes "program_runs s p d xs" "num < 2 ^ 31" "num \<notin> {SYS_EXIT, SYS_READ, SYS_WRITE, SYS_OPEN, SYS_CLOSE, SYS_GETDENTS}"
  shows "syscall b num x y z (regs, s) = None"
proof -
  define frame where "frame = regs\<lparr>f_eax := of_nat num, f_ebx := x, f_ecx := y, f_edx := z\<rparr>"
  have "syscalls s = syscalls (syscall_init s)" using assms(1) by (simp add: program_runs_def)
  then have "syscalls s ! num = None" if "int num < MAX_SYSCALL" using that assms(3) by (simp add: syscall_init_def konst)
  moreover have "sint (of_nat num :: u32) = int num" using sint_of_int_small [of "int num"] assms(2) by simp
  moreover have "ks_call f u = Some t \<Longrightarrow> syscalls t = syscalls u" for f u and t :: "'a sys"
    by (auto simp: ks_call_def split: bind_splits)
  ultimately show ?thesis
    by (auto simp: syscall_def asm_syscall_def syscall_dispatch_def run_syscall_def frame_def [symmetric] page_restore_kernel_dir_def
        split: bind_splits)
qed

section \<open>A running shell\<close>

text \<open>The kernel of the system call witnesses with the calls registered and the directory of the program active.\<close>

definition sys4 :: "drive sys" where
  "sys4 = syscall_init (sys3\<lparr>ks := (ks sys3)\<lparr>cr3 := v2p 0xC5000000\<rparr>, pmem := (\<lambda>_. 0x41)\<rparr>)"

abbreviation dir4 :: pdir where "dir4 \<equiv> (replicate 1024 0)[0 := 0x2800087, 1 := 0x2C00087]"

lemma sys4_runs: "program_runs sys4 proc0 dir4 [(1, False), (1, False), (1, True)]"
proof -
  have "running_in sys4 proc0 dir4" by (simp add: running_in_def sys4_def syscall_init_def sys3_def sys2_def task_at_def proc_at_def proc0_def)
  moreover have "active_dir sys4 = Some dir4" by (simp add: active_dir_def dir_at_def sys4_def syscall_init_def sys3_def sys2_def p2v_def v2p_def)
  moreover have "syscall_init sys4 = sys4" by (simp add: sys4_def syscall_init_def)
  moreover have "(0xC1000000, 4096) \<in> set (live [(1, False), (1, False), (1, True)])" by (simp add: konst)
  then have "caller_kept [(1, False), (1, False), (1, True)] (ks sys4)"
    by (auto simp: caller_kept_def in_use_def sys4_def syscall_init_def sys3_def sys2_def task_at_def konst)
  moreover have "heap_inv (kheap_of sys4) [(1, False), (1, False), (1, True)]" using sys3_heap(2) by (simp add: sys4_def syscall_init_def)
  ultimately show ?thesis by (simp add: program_runs_def)
qed

lemma sys4_fields:
  "9 \<le> card (free_frames (kpfa (kheap_of sys4)))" "next_addr (kheap_of sys4) + 2 + sizeof_heap_block \<le> KERNEL_HEAP_MAX"
  "in_page dir4 0x1000 2" "fifos sys4 (keyboard_buffer proc0) = Some (fifo.make ([0x6C, 0x73, 0x0A] @ replicate 125 0) 3 0 3)"
  "in_use [(1, False), (1, False), (1, True)] (keyboard_buffer proc0)" "(2 + sizeof_heap_block) mod 4096 \<noteq> 0"
  "user_read 0x1000 2 sys4 = Some [0x41, 0x41]" "console sys4 = []"
proof -
  show "9 \<le> card (free_frames (kpfa (kheap_of sys4)))" "next_addr (kheap_of sys4) + 2 + sizeof_heap_block \<le> KERNEL_HEAP_MAX"
    using sys3_heap(3,4) by (simp_all add: sys4_def syscall_init_def)
  have i: "pd_index 0x1000 = 0" "pd_index 0x1001 = 0" by (simp_all add: pd_index_div)
  show "in_page dir4 0x1000 2" by (simp add: in_page_def i konst)
  show "fifos sys4 (keyboard_buffer proc0) = Some (fifo.make ([0x6C, 0x73, 0x0A] @ replicate 125 0) 3 0 3)"
    by (simp add: sys4_def syscall_init_def sys3_def proc0_def)
  have "(0xC1001000, 4096) \<in> set (live [(1, False), (1, False), (1, True)])" by (simp add: konst)
  then show "in_use [(1, False), (1, False), (1, True)] (keyboard_buffer proc0)" by (auto simp: in_use_def proc0_def konst)
  show "(2 + sizeof_heap_block) mod 4096 \<noteq> 0" by (simp add: konst)
  have "active_dir sys4 = Some dir4" using sys4_runs by (simp add: program_runs_def)
  moreover have "pmem sys4 = (\<lambda>_. 0x41)" by (simp add: sys4_def syscall_init_def)
  then have "peek dir4 0x1000 (Suc (Suc 0)) (pmem sys4, kheap_of sys4) = Some [0x41, 0x41]" by (simp add: i konst)
  ultimately show "user_read 0x1000 2 sys4 = Some [0x41, 0x41]" by (simp add: user_read_def numeral_2_eq_2 [symmetric])
  show "console sys4 = []" by (simp add: sys4_def syscall_init_def sys3_def sys2_def)
qed



end
