(* ===== verification/Path_Heap.thy ===== *)
theory Path_Heap
  imports Path Process_Inv
begin

text \<open>
  The memory of a parsed path: the root and one node per entry are allocated while \<open>pathparser.c\<close> parses, and \<open>path_parser_free\<close>
  gives them back. \<open>Path\<close> has the contents of the nodes, this theory their addresses.
\<close>

text \<open>\<open>kzalloc(sizeof(pathroot_node_t))\<close> and \<open>kzalloc(sizeof(pathnode_t))\<close>; the results are used unchecked.\<close>

definition sizeof_pathroot_node :: nat where [konst]: "sizeof_pathroot_node = 8"
definition sizeof_pathnode :: nat where [konst]: "sizeof_pathnode = 16"

primrec alloc_nodes :: "nat \<Rightarrow> kheap \<Rightarrow> (ptr list \<times> kheap) option" where
  "alloc_nodes 0 h = Some ([], h)"
| "alloc_nodes (Suc n) h = do {
     (new_node, h1) \<leftarrow> kzalloc sizeof_pathnode h;
     if new_node = 0 then None
     else do {
       (ns, h2) \<leftarrow> alloc_nodes n h1;
       Some (new_node # ns, h2) } }"

definition alloc_path :: "nat \<Rightarrow> kheap \<Rightarrow> (ptr \<times> ptr list \<times> kheap) option" where
  "alloc_path n h = do {
     (root, h1) \<leftarrow> kzalloc sizeof_pathroot_node h;
     if root = 0 then None
     else do {
       (ns, h2) \<leftarrow> alloc_nodes n h1;
       Some (root, ns, h2) } }"

text \<open>The recursion releases the last node first.\<close>

primrec free_node :: "ptr list \<Rightarrow> kheap \<Rightarrow> kheap option" where
  "free_node [] h = Some h"
| "free_node (curr_node # rest) h = do {
     h1 \<leftarrow> free_node rest h;
     kfree curr_node h1 }"

definition path_parser_free :: "ptr \<Rightarrow> ptr list \<Rightarrow> kheap \<Rightarrow> kheap option" where
  "path_parser_free root ns h = (if root = 0 then Some h else do {
     h1 \<leftarrow> free_node ns h;
     kfree root h1 })"

section \<open>What is given back\<close>

text \<open>The allocations without those of some pointers.\<close>

definition without :: "(nat \<times> nat) set \<Rightarrow> ptr set \<Rightarrow> (nat \<times> nat) set" where
  "without L ps = {(a, m) \<in> L. a + sizeof_heap_block \<notin> ps}"

lemma live_unique: "(a, m) \<in> set (live_from x xs) \<Longrightarrow> (a, n) \<in> set (live_from x xs) \<Longrightarrow> tiles bl p x xs e \<Longrightarrow> m = n"
proof -
  assume l: "(a, m) \<in> set (live_from x xs)" "(a, n) \<in> set (live_from x xs)" "tiles bl p x xs e"
  have s: "sorted_wrt (\<lambda>(a, m) (b, n). a + m \<le> b) (live_from x xs)" by (rule live_disjoint)
  have "0 < m" "0 < n" using live_pos [OF l(3)] l(1,2) by blast+
  obtain i j where ij: "i < length (live_from x xs)" "live_from x xs ! i = (a, m)" "j < length (live_from x xs)" "live_from x xs ! j = (a, n)"
    using l(1,2) by (metis in_set_conv_nth)
  have "\<not> i < j" "\<not> j < i" using sorted_wrt_nth_less [OF s, of i j] sorted_wrt_nth_less [OF s, of j i] ij \<open>0 < m\<close> \<open>0 < n\<close> by auto
  then show "m = n" using ij by (cases i j rule: linorder_cases) auto
qed

lemma kfree_without:
  assumes "heap_inv h xs" "(a, m) \<in> set (live xs)"
  obtains h' ys where "kfree (a + sizeof_heap_block) h = Some h'" "heap_inv h' ys"
    "set (live ys) = without (set (live xs)) {a + sizeof_heap_block}"
proof -
  obtain h' ys where h: "kfree (a + sizeof_heap_block) h = Some h'" "heap_inv h' ys" "set (live ys) = set (live xs) - {(a, m)}"
    using kfree_live [OF assms] by blast
  have "tiles (blocks h) 0 KERNEL_HEAP_START xs 0" using assms(1) by (simp add: heap_inv_def)
  then have "(a, n) \<in> set (live xs) \<Longrightarrow> n = m" for n using live_unique assms(2) by blast
  then have "set (live xs) - {(a, m)} = without (set (live xs)) {a + sizeof_heap_block}" by (auto simp: without_def)
  with that h show thesis by simp
qed

lemma free_node_gives_back:
  assumes "heap_inv h xs" "distinct ns" "\<forall>p \<in> set ns. \<exists>a m. (a, m) \<in> set (live xs) \<and> p = a + sizeof_heap_block"
  shows "\<exists>h' ys. free_node ns h = Some h' \<and> heap_inv h' ys \<and> set (live ys) = without (set (live xs)) (set ns)"
  using assms(2,3)
proof (induction ns)
  case Nil
  then show ?case using assms(1) by (auto simp: without_def)
next
  case (Cons p ns)
  then obtain h1 ys where h1: "free_node ns h = Some h1" "heap_inv h1 ys" "set (live ys) = without (set (live xs)) (set ns)" by auto
  obtain a m where a: "(a, m) \<in> set (live xs)" "p = a + sizeof_heap_block" using Cons.prems(2) by auto
  have "(a, m) \<in> set (live ys)" using a Cons.prems(1) h1(3) by (simp add: without_def)
  from kfree_without [OF h1(2) this] obtain h' zs where
    "kfree p h1 = Some h'" "heap_inv h' zs" "set (live zs) = without (set (live ys)) {p}" using a(2) by metis
  then show ?case using h1(1,3) by (auto simp: without_def)
qed

text \<open>Freeing a path gives back the root and the nodes and nothing else.\<close>

lemma path_parser_free_gives_back:
  assumes "heap_inv h xs" "distinct (root # ns)" "\<forall>p \<in> set (root # ns). \<exists>a m. (a, m) \<in> set (live xs) \<and> p = a + sizeof_heap_block"
  shows "\<exists>h' ys. path_parser_free root ns h = Some h' \<and> heap_inv h' ys \<and> set (live ys) = without (set (live xs)) (set (root # ns))"
proof -
  have "root \<noteq> 0" using assms(3) by (auto simp: konst)
  then have "path_parser_free root ns h = free_node (root # ns) h" by (simp add: path_parser_free_def)
  then show ?thesis using free_node_gives_back [OF assms(1-3)] by simp
qed

end
