(* ===== verification/Isr.thy ===== *)
theory Isr
  imports Platform Task
begin

text \<open>
  The exception handlers of \<open>arch/x86/idt.c\<close> and the stack their wrappers in \<open>idt.asm\<close> hand to them. A handler
  delivers the calls of \<open>kprintf\<close> it makes, each with its format and arguments, and whether it returns or halts the machine
  in \<open>panic\<close>. A message number outside \<open>interrupt_messages\<close> has no result.
\<close>

unbundle bit_operations_syntax

section \<open>Messages\<close>

datatype kparg = PNum u32 | PStr string

type_synonym klog = "(string \<times> kparg list) list"

datatype outcome = Returned | Halted

type_synonym isr_result = "klog \<times> outcome"

text \<open>\<open>panic\<close> of \<open>kernel.c\<close> ends in an endless loop.\<close>

definition panic :: "string \<Rightarrow> kparg list \<Rightarrow> isr_result" where
  "panic fmt args = ([(''[KERNEL PANIC] '', []), (fmt, args), (''\<newline>System HALTED\<newline>'', [])], Halted)"

definition interrupt_messages :: "string list" where
  "interrupt_messages = [
    ''Division by Zero (INT 0)\<newline>'',
    ''Debug Exception (INT 1)\<newline>'',
    ''Non-Maskable Interrupt (NMI - INT 2)\<newline>'',
    ''Breakpoint Exception (INT 3)\<newline>'',
    ''Overflow (INT 4)\<newline>'',
    ''BOUND Range Exceeded (INT 5)\<newline>'',
    ''Invalid Opcode (INT 6)\<newline>'',
    ''Device Not Available (INT 7)\<newline>'',
    ''Double Fault (INT 8)\<newline>'',
    ''Coprocessor Segment Overrun (INT 9)\<newline>'',
    ''Invalid TSS (INT 10)\<newline>'',
    ''Segment Not Present (INT 11)\<newline>'',
    ''Stack-Segment Fault (INT 12)\<newline>'',
    ''General Protection Fault (INT 13)\<newline>'',
    ''Page Fault (INT 14)\<newline>'',
    ''Reserved (INT 15)\<newline>'',
    ''x87 Floating-Point Exception (INT 16)\<newline>'',
    ''Alignment Check (INT 17)\<newline>'',
    ''Machine Check (INT 18)\<newline>'',
    ''SIMD Floating-Point Exception (INT 19)\<newline>'',
    ''Virtualization Exception (INT 20)\<newline>'',
    ''Control Protection Exception (INT 21)\<newline>'',
    ''Reserved (INT 22)\<newline>'',
    ''Reserved (INT 23)\<newline>'',
    ''Reserved (INT 24)\<newline>'',
    ''Reserved (INT 25)\<newline>'',
    ''Reserved (INT 26)\<newline>'',
    ''Reserved (INT 27)\<newline>'',
    ''Reserved (INT 28)\<newline>'',
    ''Reserved (INT 29)\<newline>'',
    ''Security Exception (INT 30)\<newline>'',
    ''Reserved (INT 31)\<newline>'',
    ''Timer (IRQ0)\<newline>'',
    ''Keyboard (IRQ1)\<newline>'',
    ''Cascade (IRQ2)\<newline>'',
    ''COM2 (IRQ3)\<newline>'',
    ''COM1 (IRQ4)\<newline>'',
    ''LPT2 (IRQ5)\<newline>'',
    ''Floppy (IRQ6)\<newline>'',
    ''LPT1 (IRQ7)\<newline>'',
    ''CMOS RTC (IRQ8)\<newline>'',
    ''Free (IRQ9)\<newline>'',
    ''Free (IRQ10)\<newline>'',
    ''Free (IRQ11)\<newline>'',
    ''PS2 Mouse (IRQ12)\<newline>'',
    ''FPU / Coprocessor / Inter-Processor (IRQ13)\<newline>'',
    ''Primary ATA Hard Disk (IRQ14)\<newline>'',
    ''Secondary ATA Hard Disk (IRQ15)\<newline>'']"

definition intr_msg :: "u32 \<Rightarrow> string option" where
  "intr_msg n = (if unat n < length interrupt_messages then Some (interrupt_messages ! unat n) else None)"

text \<open>What was printed before, followed by a panic.\<close>

definition then_panic :: "klog \<Rightarrow> u32 \<Rightarrow> isr_result option" where
  "then_panic l n = do { m \<leftarrow> intr_msg n; let (pl, oc) = panic m []; Some (l @ pl, oc) }"

definition idt_dump_interrupt_frame :: "interrupt_frame \<Rightarrow> klog" where
  "idt_dump_interrupt_frame f = [
    (''\<newline>'', []),
    (''==========================\<newline>'', []),
    (''=   Register Dump'' @ [CHR 0x09, CHR 0x09] @ ''  \<newline>'', []),
    (''==========================\<newline>'', []),
    (''EAX     0x%x\<newline>'', [PNum (f_eax f)]),
    (''ECX     0x%x\<newline>'', [PNum (f_ecx f)]),
    (''EDX     0x%x\<newline>'', [PNum (f_edx f)]),
    (''EBX     0x%x\<newline>'', [PNum (f_ebx f)]),
    (''ESP     0x%x\<newline>'', [PNum (f_esp f)]),
    (''EBP     0x%x\<newline>'', [PNum (f_ebp f)]),
    (''ESI     0x%x\<newline>'', [PNum (f_esi f)]),
    (''EDI     0x%x\<newline>'', [PNum (f_edi f)]),
    (''EIP     0x%x\<newline>'', [PNum (f_eip f)]),
    (''CS      0x%x\<newline>'', [PNum (f_cs f)]),
    (''EFLAGS  0x%x\<newline>'', [PNum (f_eflags f)])]"

section \<open>Handlers\<close>

text \<open>The banner every handler starts with.\<close>

definition banner :: "string \<Rightarrow> klog" where
  "banner t = [(''\<newline>----------------------------------------------------\<newline>'', []),
       (t, []),
       (''----------------------------------------------------\<newline>'', [])]"

definition isr_0_handler :: "u32 \<Rightarrow> interrupt_frame \<Rightarrow> isr_result option" where
  "isr_0_handler isr_num f = (let l = banner ''[ERROR] Division by Zero (#DE) Exception\<newline>'' in
     if f_cs f = GDT_KERNEL_CODE_SEGMENT then then_panic (l @ idt_dump_interrupt_frame f) isr_num
     else if f_cs f = GDT_USER_CODE_SEGMENT then Some (l @ [('' - User Process triggered %s detected.'', [PStr (interrupt_messages ! 0)])], Returned)
     else then_panic (l @ [('' - Unknown GDT Code Segment 0x%s detected.\<newline>'', [PNum (f_cs f)])]) isr_num)"

text \<open>The debug status register is read and cleared when the handler returns.\<close>

definition isr_1_handler :: "u32 \<Rightarrow> interrupt_frame \<Rightarrow> u32 \<Rightarrow> (isr_result \<times> u32) option" where
  "isr_1_handler isr_num f dr6 = (let l = banner ''[ERROR] Debug Exception (#DB)\<newline>'' in
     if f_cs f = GDT_KERNEL_CODE_SEGMENT then map_option (\<lambda>r. (r, dr6)) (then_panic (l @ idt_dump_interrupt_frame f) isr_num)
     else if f_cs f = GDT_USER_CODE_SEGMENT then Some ((l
        @ (if dr6 AND push_bit 0 1 \<noteq> 0 then [('' - Breakpoint 0 (DR0)\<newline>'', [])] else [])
        @ (if dr6 AND push_bit 1 1 \<noteq> 0 then [('' - Breakpoint 1 (DR1)\<newline>'', [])] else [])
        @ (if dr6 AND push_bit 2 1 \<noteq> 0 then [('' - Breakpoint 2 (DR2)\<newline>'', [])] else [])
        @ (if dr6 AND push_bit 3 1 \<noteq> 0 then [('' - Breakpoint 3 (DR3)\<newline>'', [])] else [])
        @ (if dr6 AND push_bit 14 1 \<noteq> 0 then [('' - Task-Switch Debug Exception\<newline>'', [])] else []), Returned), 0)
     else map_option (\<lambda>r. (r, dr6)) (then_panic (l @ [('' - Unknown GDT Code Segment 0x%x detected.\<newline>'', [PNum (f_cs f)])]) isr_num))"

definition isr_2_handler :: "'d bus \<Rightarrow> u32 \<Rightarrow> interrupt_frame \<Rightarrow> 'd \<Rightarrow> (isr_result \<times> 'd) option" where
  "isr_2_handler b isr_num f d = (let l = banner ''[ERROR] Non-Maskable Interrupt (NMI) Exception\<newline>'' in
     if f_cs f = GDT_KERNEL_CODE_SEGMENT then map_option (\<lambda>r. (r, d)) (then_panic (l @ idt_dump_interrupt_frame f) isr_num)
     else if f_cs f = GDT_USER_CODE_SEGMENT then
       let (status, d1) = inb b 0x61 d;
           l1 = l @ (if status AND 0x80 \<noteq> 0 then [('' - Memory Parity Error!\<newline>'', [])] else [])
              @ (if status AND 0x40 \<noteq> 0 then [('' - I/O Channel Check Error!\<newline>'', [])] else [])
       in if status AND 0x80 \<noteq> 0 then
            let (pl, oc) = panic '' - Critical Memory Error - Halting System!\<newline>'' [] in Some ((l1 @ pl, oc), d1)
          else do { m \<leftarrow> intr_msg isr_num; Some ((l1 @ [(''%s\<newline>'', [PStr m])], Returned), d1) }
     else map_option (\<lambda>r. (r, d)) (then_panic (l @ [('' - Unknown GDT Code Segment 0x%x detected.\<newline>'', [PNum (f_cs f)])]) isr_num))"

definition isr_6_handler :: "u32 \<Rightarrow> interrupt_frame \<Rightarrow> isr_result option" where
  "isr_6_handler isr_num f = (let l = banner ''[ERROR] Invalid Opcode (#UD) Exception\<newline>'' in
     if f_cs f = GDT_KERNEL_CODE_SEGMENT then then_panic (l @ idt_dump_interrupt_frame f) isr_num
     else if f_cs f = GDT_USER_CODE_SEGMENT
       then Some (l @ [('' - User Process triggered an invalid Opcode exception.\<newline>'', [])], Returned)
     else then_panic (l @ [('' - Unknown GDT Code Segment 0x%x detected.\<newline>'', [PNum (f_cs f)])]) isr_num)"

text \<open>The three lines that start the reports of faults with an error code.\<close>

definition fault_lines :: "u32 \<Rightarrow> interrupt_frame \<Rightarrow> klog" where
  "fault_lines error_code f = [('' - Error Code: 0x%x\<newline>'', [PNum error_code]),
       ('' - Faulting Address (EIP): 0x%x\<newline>'', [PNum (f_eip f)]),
       ('' - Code Segment (CS): 0x%x\<newline>'', [PNum (f_cs f)])]"

definition isr_8_handler :: "u32 \<Rightarrow> interrupt_frame \<Rightarrow> isr_result option" where
  "isr_8_handler error_code f =
     then_panic (banner ''[ERROR] Double Fault (#DF) Exception\<newline>'' @ fault_lines error_code f @ idt_dump_interrupt_frame f) 0x8"

definition isr_12_handler :: "u32 \<Rightarrow> interrupt_frame \<Rightarrow> isr_result option" where
  "isr_12_handler error_code f = then_panic (banner ''[ERROR] Stack-Segment Fault (#SS) Exception\<newline>'' @ fault_lines error_code f
      @ (if error_code AND 1 \<noteq> 0 then [('' - Protection Violation (Memory Access Violation)\<newline>'', [])]
        else [('' - Stack-Segment Not Present or Invalid Descriptor\<newline>'', [])])
      @ (if error_code AND 2 \<noteq> 0 then [('' - Fault occurred in USER MODE (Ring 3)\<newline>'', [])]
        else [('' - Fault occurred in KERNEL MODE (Ring 0)\<newline>'', [])])
      @ idt_dump_interrupt_frame f) 0xC"

definition isr_13_handler :: "u32 \<Rightarrow> interrupt_frame \<Rightarrow> isr_result" where
  "isr_13_handler error_code f = (let
     selector_index = (ucast (drop_bit 3 error_code) :: u16);
     ext_bit = (ucast (error_code AND 1) :: u8);
     idt_bit = (ucast (drop_bit 1 error_code AND 1) :: u8);
     ti_bit = (ucast (drop_bit 2 error_code AND 1) :: u8)
   in (banner ''[ERROR] General Protection Fault (#GP) Exception\<newline>'' @ fault_lines error_code f
      @ (if error_code AND 1 \<noteq> 0 then [('' - Protection Violation (Memory Access Violation)\<newline>'', [])]
        else [('' - Segment Not Present or Invalid Descriptor\<newline>'', [])])
      @ (if error_code AND 2 \<noteq> 0 then [('' - Fault occurred in USER MODE (Ring 3)\<newline>'', [])]
        else [('' - Fault occurred in KERNEL MODE (Ring 0)\<newline>'', [])])
      @ (if error_code AND 4 \<noteq> 0 then [('' - LDT Segment Involved\<newline>'', [])]
        else [('' - GDT or IDT Segment Involved\<newline>'', [])])
      @ (if error_code AND 8 \<noteq> 0 then [('' - Fault Caused by Instruction Fetch (CS Problem)\<newline>'', [])]
        else [('' - Fault Caused by Data Access (DS/SS Problem)\<newline>'', [])])
      @ [(''Faulty Segment Selector Index: %d (0x%x)\<newline>'', [PNum (ucast selector_index), PNum (ucast selector_index)])]
      @ (if idt_bit \<noteq> 0 then [('' - Fault caused by an IDT Entry (Interrupt Descriptor)\<newline>'', [])]
         else if ti_bit \<noteq> 0 then [('' - Faulty Segment is located in the LDT (Local Descriptor Table)\<newline>'', [])]
         else [('' - Faulty Segment is located in the GDT (Global Descriptor Table)\<newline>'', [])])
      @ (if ext_bit \<noteq> 0 then [('' - Exception was caused by an External Event (e.g., CPU Violation)\<newline>'', [])]
        else [('' - Exception was caused by Software or invalid Segment\<newline>'', [])])
      @ [(''----------------------------------------------------\<newline>'', [])] @ idt_dump_interrupt_frame f, Returned))"

text \<open>The page fault handler; the mapping of a new page behind it is commented out in the source.\<close>

definition isr_14_handler :: "u32 \<Rightarrow> u32 \<Rightarrow> interrupt_frame \<Rightarrow> isr_result" where
  "isr_14_handler fault_addr error_code f = (let
     l = banner ''[ERROR] Page Fault (#PF) Exception\<newline>'' @ [(''[INFO] Page Fault occured\<newline>'', [])]
      @ (if error_code AND 1 = 0 then [('' - Page Not Present\<newline>'', [])]
        else [('' - Page Present\<newline>'', [])])
      @ (if error_code AND 2 \<noteq> 0 then [('' - Write Access\<newline>'', [])]
        else [('' - Read Access\<newline>'', [])])
      @ (if error_code AND 4 \<noteq> 0 then [('' - User Mode\<newline>'', [])]
        else [('' - Supervisor Mode\<newline>'', [])])
      @ (if error_code AND 8 \<noteq> 0 then [('' - Reserved Bits\<newline>'', [])] else [])
      @ (if error_code AND 16 \<noteq> 0 then [('' - Instruction Fetch\<newline>'', [])] else [])
      @ (if error_code AND 32 \<noteq> 0 then [('' - Protection Key Violation (PK flag)\<newline>'', [])] else [])
      @ (if error_code AND 0x8000 \<noteq> 0 then [('' - SGX-Specific Access Control Violation (SGX flag)\<newline>'', [])] else [])
   in if f_cs f AND 3 = 3 then
        let (pl, oc) = panic ''[CRITICAL] System Halted!'' [] in
        (l @ [(''[CONTEXT] Fault occurred in USER LAND RING 3.\<newline>'', []),
           (''[SECURITY] Usermode attempted Kernel Write at 0x%x. Killing Process.\<newline>'', [PNum fault_addr])] @ pl, oc)
      else (l @ [(''[CONTEXT] Fault occurred in KERNEL Mode RING 0.\<newline>'', [])], Returned))"

section \<open>Wrappers (\<open>arch/x86/idt.asm\<close>)\<close>

text \<open>
  The words of the stack from its top when a handler is called: the eight registers of \<open>pushad\<close>, then what the
  processor pushed. The frame pointer is the address of the first of them.
\<close>

definition frame_at :: "u32 list \<Rightarrow> interrupt_frame option" where
  "frame_at st = (if length st < 13 then None else Some \<lparr>f_edi = st ! 0, f_esi = st ! 1, f_ebp = st ! 2, f_reserved = st ! 3,
     f_ebx = st ! 4, f_edx = st ! 5, f_ecx = st ! 6, f_eax = st ! 7, f_eip = st ! 8, f_cs = st ! 9, f_eflags = st ! 10,
     f_esp = st ! 11, f_ss = st ! 12\<rparr>)"

text \<open>Behind the pushed frame pointer the error code is at \<open>esp + 36\<close>, the ninth of these words.\<close>

definition asm_isr0_wrapper :: "u32 list \<Rightarrow> isr_result option" where
  "asm_isr0_wrapper st = frame_at st \<bind> isr_0_handler 0x0"

definition asm_isr1_wrapper :: "u32 list \<Rightarrow> u32 \<Rightarrow> (isr_result \<times> u32) option" where
  "asm_isr1_wrapper st dr6 = frame_at st \<bind> (\<lambda>f. isr_1_handler 0x1 f dr6)"

definition asm_isr2_wrapper :: "'d bus \<Rightarrow> u32 list \<Rightarrow> 'd \<Rightarrow> (isr_result \<times> 'd) option" where
  "asm_isr2_wrapper b st d = frame_at st \<bind> (\<lambda>f. isr_2_handler b 0x2 f d)"

definition asm_isr6_wrapper :: "u32 list \<Rightarrow> isr_result option" where
  "asm_isr6_wrapper st = frame_at st \<bind> isr_6_handler 0x6"

definition asm_isr8_wrapper :: "u32 list \<Rightarrow> isr_result option" where
  "asm_isr8_wrapper st = frame_at st \<bind> isr_8_handler (st ! 8)"

definition asm_isr12_wrapper :: "u32 list \<Rightarrow> isr_result option" where
  "asm_isr12_wrapper st = frame_at st \<bind> isr_12_handler (st ! 8)"

definition asm_isr13_wrapper :: "u32 list \<Rightarrow> isr_result option" where
  "asm_isr13_wrapper st = map_option (isr_13_handler (st ! 8)) (frame_at st)"

definition asm_isr14_wrapper :: "u32 \<Rightarrow> u32 list \<Rightarrow> isr_result option" where
  "asm_isr14_wrapper cr2 st = map_option (isr_14_handler cr2 (st ! 8)) (frame_at st)"

section \<open>Lemmas\<close>

text \<open>The stack of a processor exception: \<open>gp\<close> is what \<open>pushad\<close> pushes.\<close>

definition exception_stack :: "u32 list \<Rightarrow> u32 option \<Rightarrow> u32 \<Rightarrow> u32 \<Rightarrow> u32 \<Rightarrow> u32 list \<Rightarrow> u32 list" where
  "exception_stack gp err eip cs eflags rest = gp @ (case err of None \<Rightarrow> [] | Some e \<Rightarrow> [e]) @ eip # cs # eflags # rest"

lemma length_messages: "length interrupt_messages = 48"
  by (simp add: interrupt_messages_def)

lemma then_panic_halts: "unat n < 48 \<Longrightarrow> \<exists>l'. then_panic l n = Some (l', Halted)"
  by (simp add: then_panic_def intr_msg_def length_messages panic_def)

text \<open>Without an error code the frame shows what was pushed; with one every field behind the registers is off by a word.\<close>

lemma frame_no_error:
  assumes "length gp = 8" "2 \<le> length rest"
  shows "\<exists>f. frame_at (exception_stack gp None eip cs eflags rest) = Some f \<and> f_eip f = eip \<and> f_cs f = cs \<and> f_eflags f = eflags"
  using assms by (auto simp: frame_at_def exception_stack_def nth_append)

lemma frame_with_error:
  assumes "length gp = 8" "2 \<le> length rest"
  shows "\<exists>f. frame_at (exception_stack gp (Some e) eip cs eflags rest) = Some f \<and> f_eip f = e \<and> f_cs f = eip \<and> f_eflags f = cs"
    "exception_stack gp (Some e) eip cs eflags rest ! 8 = e"
  using assms by (auto simp: frame_at_def exception_stack_def nth_append)

lemma user_code_selector:
  "GDT_USER_CODE_SEGMENT OR 3 \<noteq> GDT_KERNEL_CODE_SEGMENT" "GDT_USER_CODE_SEGMENT OR 3 \<noteq> GDT_USER_CODE_SEGMENT"
  by (simp_all add: konst)

section \<open>Properties\<close>

text \<open>An exception of a user program halts the machine. The code segment register of a user task is \<open>0x1B\<close>, the user
  segment with privilege level 3, but the handlers of division errors, debug exceptions, non-maskable interrupts and invalid
  opcodes compare it with \<open>0x18\<close>: the branch for user programs is not taken, and the handler panics.\<close>

theorem user_exceptions_halt:
  assumes "length gp = 8" "2 \<le> length rest" "cs = GDT_USER_CODE_SEGMENT OR 3"
  shows "map_option snd (asm_isr0_wrapper (exception_stack gp None eip cs eflags rest)) = Some Halted
    \<and> map_option (snd \<circ> fst) (asm_isr1_wrapper (exception_stack gp None eip cs eflags rest) dr6) = Some Halted
    \<and> map_option (snd \<circ> fst) (asm_isr2_wrapper b (exception_stack gp None eip cs eflags rest) d) = Some Halted
    \<and> map_option snd (asm_isr6_wrapper (exception_stack gp None eip cs eflags rest)) = Some Halted"
proof -
  obtain f where f: "frame_at (exception_stack gp None eip cs eflags rest) = Some f" "f_cs f = GDT_USER_CODE_SEGMENT OR 3"
    using frame_no_error [OF assms(1,2)] assms(3) by blast
  have h: "map_option snd (then_panic l n) = Some Halted" if "unat n < 48" for l n
    using then_panic_halts [OF that, of l] by auto
  show ?thesis
    by (simp add: asm_isr0_wrapper_def asm_isr1_wrapper_def asm_isr2_wrapper_def asm_isr6_wrapper_def f user_code_selector
        isr_0_handler_def isr_1_handler_def isr_2_handler_def isr_6_handler_def Let_def h option.map_comp comp_def)
qed

theorem user_exceptions_halt_witness:
  "map_option snd (asm_isr6_wrapper (exception_stack (replicate 8 0) None 0x400000 0x1B 0x202 [0xBFFFFFF0, 0x23]))
   = Some Halted"
  using user_exceptions_halt [of "replicate 8 0" "[0xBFFFFFF0, 0x23]" "0x1B" "0x400000" "0x202" 0 undefined "()"]
  by (simp add: konst)

text \<open>the page fault handler tests the wrong word. The processor pushes an error code on top of the instruction pointer,
  the frame the wrapper passes has no room for it, and what the handler reads as the code segment is the interrupted
  instruction pointer: a fault is taken for one of user code, and halts the machine, exactly when the lower two bits of the
  instruction pointer are set, in whatever ring it occurred.\<close>

theorem page_fault_tests_eip:
  assumes "length gp = 8" "2 \<le> length rest"
  shows "map_option snd (asm_isr14_wrapper cr2 (exception_stack gp (Some e) eip cs eflags rest))
    = Some (if eip AND 3 = 3 then Halted else Returned)"
proof -
  obtain f where f: "frame_at (exception_stack gp (Some e) eip cs eflags rest) = Some f" "f_cs f = eip"
    using frame_with_error(1) [OF assms] by blast
  then show ?thesis by (simp add: asm_isr14_wrapper_def isr_14_handler_def panic_def)
qed

theorem page_fault_tests_eip_witness:
  "map_option snd (asm_isr14_wrapper 0 (exception_stack (replicate 8 0) (Some 4) 0x400000 0x1B 0x202 [0xBFFFFFF0, 0x23]))
   = Some Returned"
  using page_fault_tests_eip [of "replicate 8 0" "[0xBFFFFFF0, 0x23]" 0 4 "0x400000" "0x1B" "0x202"] by simp

end
