(* ===== verification/Pci.thy ===== *)
theory Pci
  imports Port_Io
begin

text \<open>
  \<open>driver/pci.c\<close>: the configuration space of the PCI bus behind an address port and a data port, and the search for devices.
  A reported device is the structure \<open>_dump_dev\<close> prints.
\<close>

unbundle bit_operations_syntax

definition PCI_CONFIG_ADDR :: u16 where [konst]: "PCI_CONFIG_ADDR = 0xCF8"
definition PCI_CONFIG_DATA :: u16 where [konst]: "PCI_CONFIG_DATA = 0xCFC"
definition PCI_OFFSET_MASK :: u32 where [konst]: "PCI_OFFSET_MASK = 0xFC"
definition PCI_VENDOR_ID_REG_OFFSET :: u8 where [konst]: "PCI_VENDOR_ID_REG_OFFSET = 0x00"
definition PCI_DEVICE_ID_REG_OFFSET :: u8 where [konst]: "PCI_DEVICE_ID_REG_OFFSET = 0x02"
definition PCI_COMMAND_REG_OFFSET :: u8 where [konst]: "PCI_COMMAND_REG_OFFSET = 0x04"
definition PCI_STATUS_REG_OFFSET :: u8 where [konst]: "PCI_STATUS_REG_OFFSET = 0x06"
definition PCI_REVISION_ID_REG_OFFSET :: u8 where [konst]: "PCI_REVISION_ID_REG_OFFSET = 0x08"
definition PCI_PROG_IF_REG_OFFSET :: u8 where [konst]: "PCI_PROG_IF_REG_OFFSET = 0x09"
definition PCI_SUBCLASS_REG_OFFSET :: u8 where [konst]: "PCI_SUBCLASS_REG_OFFSET = 0x0A"
definition PCI_CLASS_CODE_REG_OFFSET :: u8 where [konst]: "PCI_CLASS_CODE_REG_OFFSET = 0x0B"
definition PCI_CACHE_LINE_SIZE :: u8 where [konst]: "PCI_CACHE_LINE_SIZE = 0x0C"
definition PCI_LATENCY_TIMER_REG_OFFSET :: u8 where [konst]: "PCI_LATENCY_TIMER_REG_OFFSET = 0x0D"
definition PCI_HEADER_TYPE_REG_OFFSET :: u8 where [konst]: "PCI_HEADER_TYPE_REG_OFFSET = 0x0E"
definition PCI_BIST_REG_OFFSET :: u8 where [konst]: "PCI_BIST_REG_OFFSET = 0x0F"
definition PCI_DEV_NOT_FOUND :: u16 where [konst]: "PCI_DEV_NOT_FOUND = 0xFFFF"

record pci_dev =
  vendor_id :: u16
  device_id :: u16
  command :: u16
  status :: u16
  revision_id :: u8
  prog_if :: u8
  sub_class :: u8
  class_code :: u8
  cache_line_size :: u8
  latency_timer :: u8
  header_type :: u8
  bist :: u8
  pbus :: u32
  pdevice :: u32
  pfunction :: u32

definition build_config_addr :: "u32 \<Rightarrow> u32 \<Rightarrow> u32 \<Rightarrow> u8 \<Rightarrow> u32" where
  "build_config_addr bus device func offset =
     0x80000000 OR push_bit 16 bus OR push_bit 11 device OR push_bit 8 func OR (ucast offset AND PCI_OFFSET_MASK)"

definition pci_read16 :: "'d bus \<Rightarrow> u32 \<Rightarrow> u32 \<Rightarrow> u32 \<Rightarrow> u8 \<Rightarrow> 'd \<Rightarrow> u16 \<times> 'd" where
  "pci_read16 b bus device func offset d = (let
     config_address = build_config_addr bus device func offset;
     (v, d') = inl b PCI_CONFIG_DATA (outl b PCI_CONFIG_ADDR config_address d)
   in (ucast (drop_bit (unat (offset AND 2) * 8) v AND 0xFFFF), d'))"

definition pci_write16 :: "'d bus \<Rightarrow> u32 \<Rightarrow> u32 \<Rightarrow> u32 \<Rightarrow> u8 \<Rightarrow> u16 \<Rightarrow> 'd \<Rightarrow> 'd" where
  "pci_write16 b bus device func offset data d =
     outl b PCI_CONFIG_DATA (ucast data) (outl b PCI_CONFIG_ADDR (build_config_addr bus device func offset) d)"

text \<open>The low byte of a register.\<close>

definition pci_read8 :: "'d bus \<Rightarrow> u32 \<Rightarrow> u32 \<Rightarrow> u32 \<Rightarrow> u8 \<Rightarrow> 'd \<Rightarrow> u8 \<times> 'd" where
  "pci_read8 b bus device func offset d = (let (v, d') = pci_read16 b bus device func offset d in (ucast (v AND 0xFF), d'))"

definition populate_dev :: "'d bus \<Rightarrow> pci_dev \<Rightarrow> u32 \<Rightarrow> u32 \<Rightarrow> u32 \<Rightarrow> 'd \<Rightarrow> pci_dev \<times> 'd" where
  "populate_dev b dev bus device func d = (let
     (vendor, d) = pci_read16 b bus device func PCI_VENDOR_ID_REG_OFFSET d;
     dev = dev\<lparr>pbus := bus, pdevice := device, pfunction := func, vendor_id := vendor\<rparr>
   in if vendor = PCI_DEV_NOT_FOUND then (dev, d) else let
     (v1, d) = pci_read16 b bus device func PCI_DEVICE_ID_REG_OFFSET d;
     (v2, d) = pci_read16 b bus device func PCI_COMMAND_REG_OFFSET d;
     (v3, d) = pci_read16 b bus device func PCI_STATUS_REG_OFFSET d;
     (v4, d) = pci_read8 b bus device func PCI_REVISION_ID_REG_OFFSET d;
     (v5, d) = pci_read8 b bus device func PCI_PROG_IF_REG_OFFSET d;
     (v6, d) = pci_read8 b bus device func PCI_SUBCLASS_REG_OFFSET d;
     (v7, d) = pci_read8 b bus device func PCI_CLASS_CODE_REG_OFFSET d;
     (v8, d) = pci_read8 b bus device func PCI_CACHE_LINE_SIZE d;
     (v9, d) = pci_read8 b bus device func PCI_LATENCY_TIMER_REG_OFFSET d;
     (v10, d) = pci_read8 b bus device func PCI_HEADER_TYPE_REG_OFFSET d;
     (v11, d) = pci_read8 b bus device func PCI_BIST_REG_OFFSET d
   in (dev\<lparr>device_id := v1, command := v2, status := v3, revision_id := v4, prog_if := v5, sub_class := v6, class_code := v7,
        cache_line_size := v8, latency_timer := v9, header_type := v10, bist := v11\<rparr>, d))"

text \<open>The body of the innermost loop over the functions of the bus; \<open>junk\<close> is what the uninitialised structure holds.\<close>

fun pci_scan :: "'d bus \<Rightarrow> pci_dev \<Rightarrow> (u32 \<times> u32 \<times> u32) list \<Rightarrow> 'd \<Rightarrow> pci_dev list \<times> 'd" where
  "pci_scan b junk [] d = ([], d)"
| "pci_scan b junk ((bus, device, func) # fs) d = (let
     (dev, d1) = populate_dev b junk bus device func d;
     (devs, d2) = pci_scan b junk fs d1
   in (if vendor_id dev \<noteq> PCI_DEV_NOT_FOUND then dev # devs else devs, d2))"

definition pci_functions :: "(u32 \<times> u32 \<times> u32) list" where
  "pci_functions = [(of_nat bus, of_nat device, of_nat func). bus \<leftarrow> [0..<256], device \<leftarrow> [0..<32], func \<leftarrow> [0..<8]]"

definition pci_enumerate_bus :: "'d bus \<Rightarrow> pci_dev \<Rightarrow> 'd \<Rightarrow> pci_dev list \<times> 'd" where
  "pci_enumerate_bus b junk d = pci_scan b junk pci_functions d"

section \<open>A configuration space\<close>

text \<open>The 16-bit register at an even offset, given the 32-bit registers of the space.\<close>

definition reg16 :: "(u32 \<Rightarrow> u32) \<Rightarrow> u32 \<times> u32 \<times> u32 \<Rightarrow> u8 \<Rightarrow> u16" where
  "reg16 c = (\<lambda>(bus, device, func) offset.
     ucast (drop_bit (unat (offset AND 2) * 8) (c (build_config_addr bus device func offset)) AND 0xFFFF))"

text \<open>
  The contract of the two ports: after an address is selected, the data port shows the 32-bit register at that address, and
  writing the port replaces a register that can be written.
\<close>

locale config_space =
  fixes b :: "'d bus" and conf :: "'d \<Rightarrow> u32 \<Rightarrow> u32" and writable :: "u32 set"
  assumes select_read: "inl b PCI_CONFIG_DATA (outl b PCI_CONFIG_ADDR a d) = (v, d') \<Longrightarrow> v = conf d a \<and> conf d' = conf d"
    and select_write: "a \<in> writable \<Longrightarrow> conf (outl b PCI_CONFIG_DATA v (outl b PCI_CONFIG_ADDR a d)) = (conf d)(a := v)"
begin

lemma read16:
  "fst (pci_read16 b bus device func offset d) = reg16 (conf d) (bus, device, func) offset"
  "conf (snd (pci_read16 b bus device func offset d)) = conf d"
proof -
  obtain v d' where "inl b PCI_CONFIG_DATA (outl b PCI_CONFIG_ADDR (build_config_addr bus device func offset) d) = (v, d')"
    by fastforce
  with select_read [OF this] show "fst (pci_read16 b bus device func offset d) = reg16 (conf d) (bus, device, func) offset"
    "conf (snd (pci_read16 b bus device func offset d)) = conf d"
    by (simp_all add: pci_read16_def reg16_def)
qed

lemma read8:
  "fst (pci_read8 b bus device func offset d) = ucast (reg16 (conf d) (bus, device, func) offset AND 0xFF)"
  "conf (snd (pci_read8 b bus device func offset d)) = conf d"
  by (simp_all add: pci_read8_def split_beta read16)

end

text \<open>An odd offset selects the register at the even offset before it.\<close>

lemma reg16_odd:
  "reg16 c f PCI_PROG_IF_REG_OFFSET = reg16 c f PCI_REVISION_ID_REG_OFFSET"
  "reg16 c f PCI_CLASS_CODE_REG_OFFSET = reg16 c f PCI_SUBCLASS_REG_OFFSET"
  "reg16 c f PCI_LATENCY_TIMER_REG_OFFSET = reg16 c f PCI_CACHE_LINE_SIZE"
  "reg16 c f PCI_BIST_REG_OFFSET = reg16 c f PCI_HEADER_TYPE_REG_OFFSET"
  by (simp_all add: reg16_def build_config_addr_def konst split_beta)

text \<open>
  What the search reports about a function: four of the twelve registers are shown twice. The programming interface is the
  revision, the class is the subclass, the latency is the cache line size and the self test is the header type.
\<close>

definition reported :: "(u32 \<Rightarrow> u32) \<Rightarrow> u32 \<times> u32 \<times> u32 \<Rightarrow> pci_dev" where
  "reported c f = (let r8 = (\<lambda>offset. ucast (reg16 c f offset AND 0xFF)) in
     \<lparr>vendor_id = reg16 c f 0x00, device_id = reg16 c f 0x02, command = reg16 c f 0x04, status = reg16 c f 0x06,
      revision_id = r8 0x08, prog_if = r8 0x08, sub_class = r8 0x0A, class_code = r8 0x0A,
      cache_line_size = r8 0x0C, latency_timer = r8 0x0C, header_type = r8 0x0E, bist = r8 0x0E,
      pbus = fst f, pdevice = fst (snd f), pfunction = snd (snd f)\<rparr>)"

context config_space
begin

lemma populate_result:
  "fst (populate_dev b junk bus device func d) = (if reg16 (conf d) (bus, device, func) 0 = PCI_DEV_NOT_FOUND
     then junk\<lparr>pbus := bus, pdevice := device, pfunction := func, vendor_id := PCI_DEV_NOT_FOUND\<rparr>
     else reported (conf d) (bus, device, func))"
  "conf (snd (populate_dev b junk bus device func d)) = conf d"
  using reg16_odd [of "conf d" "(bus, device, func)"]
  by (simp_all add: populate_dev_def Let_def split_beta read16 read8 reported_def) (simp_all add: konst)

lemma scan_result:
  "fst (pci_scan b junk fs d) = map (reported (conf d)) (filter (\<lambda>f. reg16 (conf d) f 0 \<noteq> PCI_DEV_NOT_FOUND) fs)
   \<and> conf (snd (pci_scan b junk fs d)) = conf d"
proof (induction fs arbitrary: d)
  case (Cons f fs)
  obtain bus device func where f: "f = (bus, device, func)" by (cases f)
  have v: "vendor_id (reported c f) = reg16 c f 0" for c by (simp add: reported_def Let_def)
  show ?case using Cons.IH [of "snd (populate_dev b junk bus device func d)"] populate_result [of junk bus device func d] v
    by (auto simp: f Let_def split_beta)
qed simp

lemma write_then_read:
  assumes "build_config_addr bus device func offset \<in> writable"
  shows "fst (pci_read16 b bus device func offset (pci_write16 b bus device func offset data d))
    = (if bit offset 1 then 0 else data)"
proof -
  have "offset AND 2 = (if bit offset 1 then 2 else 0)" using and_exp_eq_0_iff_not_bit [of offset 1]
    by (auto intro!: bit_word_eqI simp: bit_simps)
  moreover have "ucast (drop_bit 16 (ucast data :: u32) AND mask 16) = (0 :: u16)" "ucast ((ucast data :: u32) AND mask 16) = data"
    by (rule bit_word_eqI; use bit_imp_le_length [of data] in \<open>fastforce simp: bit_simps\<close>)+
  moreover have "(0xFFFF :: u32) = mask 16" by (simp add: mask_eq_exp_minus_1)
  ultimately show ?thesis
    using select_write [OF assms, of "ucast data" d] by (simp only: read16 reg16_def pci_write16_def) simp
qed

end

text \<open>A configuration space that is plain memory.\<close>

definition ram_bus :: "(u32 \<times> (u32 \<Rightarrow> u32)) bus" where
  "ram_bus = \<lparr>inb = (\<lambda>p d. (0, d)), inw = (\<lambda>p d. (0, d)),
     inl = (\<lambda>p (a, m). (if p = PCI_CONFIG_DATA then m a else 0xFFFFFFFF, (a, m))),
     outb = (\<lambda>p v d. d), outw = (\<lambda>p v d. d),
     outl = (\<lambda>p v (a, m). if p = PCI_CONFIG_ADDR then (v, m) else if p = PCI_CONFIG_DATA then (a, m(a := v)) else (a, m))\<rparr>"

interpretation ram: config_space ram_bus snd UNIV
  by unfold_locales (auto simp: ram_bus_def konst split: prod.splits)

section \<open>Properties\<close>

text \<open>the search reports exactly the functions whose vendor register is not \<open>0xFFFF\<close>, in the order of bus, device and
  function, each with the registers of its configuration space; the four registers at odd offsets are not read, they show the
  contents of the register before them. The search changes no register.\<close>

theorem pci_reports_present_functions:
  assumes "config_space b conf writable"
  shows "fst (pci_enumerate_bus b junk d)
      = map (reported (conf d)) (filter (\<lambda>f. reg16 (conf d) f PCI_VENDOR_ID_REG_OFFSET \<noteq> PCI_DEV_NOT_FOUND) pci_functions)
    \<and> conf (snd (pci_enumerate_bus b junk d)) = conf d"
  using config_space.scan_result [OF assms, of junk pci_functions d] by (simp add: pci_enumerate_bus_def PCI_VENDOR_ID_REG_OFFSET_def)

theorem pci_reports_present_functions_witness:
  "reported (\<lambda>a. 0x12348086) (0, 3, 0) \<in> set (fst (pci_enumerate_bus ram_bus (reported (\<lambda>a. 0) (0, 0, 0)) (0, \<lambda>a. 0x12348086)))"
proof -
  have "(0, 3, 0) \<in> set pci_functions"
    unfolding pci_functions_def by (simp, intro bexI [of _ 0] bexI [of _ 3]) (auto intro: image_eqI [of _ _ 0])
  moreover have "reg16 (\<lambda>a. 0x12348086) (0, 3, 0) PCI_VENDOR_ID_REG_OFFSET \<noteq> PCI_DEV_NOT_FOUND" by (simp add: reg16_def konst)
  ultimately show ?thesis
    using pci_reports_present_functions [OF ram.config_space_axioms, of "reported (\<lambda>a. 0) (0, 0, 0)" "(0, \<lambda>a. 0x12348086)"] by simp
qed

text \<open>A write to a 16-bit register is a write of the whole 32-bit register around it: a register at an offset that is not a
  multiple of four reads as zero afterwards, and what was to be written is in the register before it.\<close>

theorem pci_write16_loses_upper_half:
  assumes "config_space b conf writable" "build_config_addr bus device func offset \<in> writable"
  shows "fst (pci_read16 b bus device func offset (pci_write16 b bus device func offset data d))
    = (if bit offset 1 then 0 else data)"
  using config_space.write_then_read [OF assms] .

theorem pci_write16_loses_upper_half_witness:
  "fst (pci_read16 ram_bus 0 3 0 6 (pci_write16 ram_bus 0 3 0 6 0xFFFF (0, \<lambda>a. 0))) = 0
   \<and> fst (pci_read16 ram_bus 0 3 0 4 (pci_write16 ram_bus 0 3 0 4 0x0147 (0, \<lambda>a. 0))) = 0x0147"
  using pci_write16_loses_upper_half [OF ram.config_space_axioms, of 0 3 0 6 "0xFFFF" "(0, \<lambda>a. 0)"]
    pci_write16_loses_upper_half [OF ram.config_space_axioms, of 0 3 0 4 "0x0147" "(0, \<lambda>a. 0)"] by simp

end
