(* ===== verification/Dump.thy ===== *)
theory Dump
  imports Syscall Isr Pci
begin

text \<open>
  The routines that print the state of a component for debugging: processes, tasks, page directories, devices, the file information
  of \<open>fs/vnode.c\<close> and the structures of FAT16. Their result is the list of formats with their arguments, in the order of the calls
  of \<open>kprintf\<close>. The delays have no effect.
\<close>

unbundle bit_operations_syntax

section \<open>Texts\<close>

text \<open>The text that \<open>%s\<close> prints of an array: without a terminator the read leaves the array, which is undefined.\<close>

definition text_of :: "u8 list \<Rightarrow> string" where
  "text_of bs = map (\<lambda>c. char_of (unat c)) bs"

definition c_text :: "u8 list \<Rightarrow> string option" where
  "c_text bs = (if 0 \<in> set bs then Some (text_of (takeWhile (\<lambda>c. c \<noteq> 0) bs)) else None)"

abbreviation line :: "string \<Rightarrow> string \<times> kparg list" where "line s \<equiv> (s @ ''\<newline>'', [])"
abbreviation rule36 :: string where "rule36 \<equiv> ''====================================''"
abbreviation rule26 :: string where "rule26 \<equiv> ''==========================''"
abbreviation rule45 :: string where "rule45 \<equiv> ''=============================================''"
abbreviation dashes36 :: string where "dashes36 \<equiv> ''------------------------------------''"
abbreviation dashes45 :: string where "dashes45 \<equiv> ''---------------------------------------------''"

abbreviation PB :: "u8 \<Rightarrow> kparg" where "PB b \<equiv> PNum (ucast b)"
abbreviation PW :: "u16 \<Rightarrow> kparg" where "PW w \<equiv> PNum (ucast w)"
abbreviation PI :: "int \<Rightarrow> kparg" where "PI i \<equiv> PNum (word_of_int i)"
abbreviation PN :: "nat \<Rightarrow> kparg" where "PN n \<equiv> PNum (of_nat n)"

section \<open>Tasks and processes\<close>

definition task_dump :: "kstate \<Rightarrow> ptr \<Rightarrow> klog option" where
  "task_dump s self = (if self = 0 then Some [line ''[ERROR] Invalid Task Pointer!''] else do {
     t \<leftarrow> task_at s self;
     p \<leftarrow> proc_at s (parent t);
     let r = registers t;
     Some [line '''', line rule36, line ''          TASK STATE DUMP           '', line rule36,
       (''Task Page Directory: 0x%x\<newline>'', [PNum (v2p (page_dir p))]),
       (''EIP  (Instruction Pointer) : 0x%x\<newline>'', [PNum (r_eip r)]),
       (''ESP  (Stack Pointer)       : 0x%x\<newline>'', [PNum (r_esp r)]),
       (''EBP  (Base Pointer)        : 0x%x\<newline>'', [PNum (r_ebp r)]),
       (''EFLAGS                     : 0x%x\<newline>'', [PNum (r_eflags r)]),
       (''CS   (Code Segment)        : 0x%x\<newline>'', [PNum (r_cs r)]),
       (''SS   (Stack Segment)       : 0x%x\<newline>'', [PNum (r_ss r)]),
       line dashes36, line ''General Purpose Registers:'',
       (''EAX  : 0x%x\<newline>'', [PNum (r_eax r)]), (''EBX  : 0x%x\<newline>'', [PNum (r_ebx r)]),
       (''ECX  : 0x%x\<newline>'', [PNum (r_ecx r)]), (''EDX  : 0x%x\<newline>'', [PNum (r_edx r)]),
       (''ESI  : 0x%x\<newline>'', [PNum (r_esi r)]), (''EDI  : 0x%x\<newline>'', [PNum (r_edi r)]),
       line rule36] })"

text \<open>No code of the kernel sets the ELF header and the arguments of a process; they are what the structure holds.\<close>

record elf_file =
  elf_entry :: u32
  ph_offset :: u32
  ph_num :: u32
  ph_size :: u32
  sh_offset :: u32
  sh_num :: u32
  sh_size :: u32

definition dump_task_slot :: "kstate \<Rightarrow> process \<Rightarrow> nat \<Rightarrow> klog option" where
  "dump_task_slot s x i = (if tasks x ! i = 0 then Some [] else do {
     t \<leftarrow> task_at s (tasks x ! i);
     Some [(''    - Task[%d]: 0x%x (Stack: 0x%x - 0x%x)\<newline>'', [PN i, PN (tasks x ! i), PNum (stack_top t), PNum (stack_bottom t)])] })"

definition dump_elf :: "process \<Rightarrow> elf_file option \<Rightarrow> klog" where
  "dump_elf x elf = (case elf of Some e \<Rightarrow> if filetype x = PROCESS_ELF then
       [line ''  ELF File:'', (''    - Entry Point: 0x%x\<newline>'', [PNum (elf_entry e)]),
        (''    - PH Offset: 0x%x | PH Num: %d | PH Size: %d\<newline>'', [PNum (ph_offset e), PNum (ph_num e), PNum (ph_size e)]),
        (''    - SH Offset: 0x%x | SH Num: %d | SH Size: %d\<newline>'', [PNum (sh_offset e), PNum (sh_num e), PNum (sh_size e)])]
     else [] | None \<Rightarrow> [])"

definition dump_process :: "(ptr \<Rightarrow> elf_file option) \<Rightarrow> (ptr \<Rightarrow> string list) \<Rightarrow> kstate \<Rightarrow> ptr \<Rightarrow> process \<Rightarrow> klog option" where
  "dump_process elf_of args_of s p x = do {
     name \<leftarrow> c_text (filename x);
     slots \<leftarrow> those (map (dump_task_slot s x) [0..<PROCESS_MAX_THREAD]);
     Some ([(''PID: %d \<newline>'', [PW (pid x)]), (''  Addr: 0x%x \<newline>'', [PN p]), (''  Name: %s\<newline>'', [PStr name]),
       (''  Tasks: %d | File Type: %s\<newline>'', [PB (task_count x), PStr (if filetype x = PROCESS_ELF then ''ELF'' else ''BINARY'')]),
       (''  Filesize: %d Bytes\<newline>'', [PNum (psize x)]), (''  Page Directory: 0x%x\<newline>'', [PNum (page_dir x)]),
       (''  Keyboard Buffer: 0x%x\<newline>'', [PN (keyboard_buffer x)]),
       (''  Prev: 0x%x | Next: 0x%x\<newline>'', [PN (prev_proc x), PN (next_proc x)]), line ''  Task List:'']
       @ concat slots @ dump_elf x (elf_of p)
       @ (''  Arguments (argc=%d):\<newline>'', [PN (length (args_of p))])
       # map (\<lambda>i. (''    - argv[%d]: %s\<newline>'', [PN i, PStr (args_of p ! i)])) [0..<length (args_of p)] @ [line dashes36]) }"

text \<open>The loop over the list; it does not end on a list that leads back to an element other than the first.\<close>

partial_function (option) dump_processes :: "(ptr \<Rightarrow> process \<Rightarrow> klog option) \<Rightarrow> kstate \<Rightarrow> ptr \<Rightarrow> klog option" where
  "dump_processes out s p = do {
     x \<leftarrow> proc_at s p;
     ls \<leftarrow> out p x;
     rest \<leftarrow> (if next_proc x \<noteq> 0 \<and> next_proc x \<noteq> processes s then dump_processes out s (next_proc x) else Some []);
     Some (ls @ rest) }"

definition process_list_dump :: "(ptr \<Rightarrow> elf_file option) \<Rightarrow> (ptr \<Rightarrow> string list) \<Rightarrow> kstate \<Rightarrow> klog option" where
  "process_list_dump elf_of args_of s = (let top = [(''\<newline>'' @ rule36 @ ''\<newline>'', []), line ''         PROCESS LIST DUMP          '', line rule36] in
     if processes s = 0 then Some (top @ [line ''[INFO] No Processes are currently running''])
     else do { ls \<leftarrow> dump_processes (dump_process elf_of args_of s) s (processes s); Some (top @ ls @ [line rule36]) })"

section \<open>System calls\<close>

definition get_name :: "int \<Rightarrow> string" where
  "get_name syscall_id = (if syscall_id = int SYS_EXIT then ''SYS_EXIT'' else if syscall_id = int SYS_READ then ''SYS_READ''
     else if syscall_id = int SYS_WRITE then ''SYS_WRITE'' else if syscall_id = int SYS_OPEN then ''SYS_OPEN''
     else if syscall_id = int SYS_CLOSE then ''SYS_CLOSE'' else if syscall_id = int SYS_GETDENTS then ''SYS_GETDENTS'' else ''UNKNOWN Syscall'')"

text \<open>The message with which the dispatcher halts the kernel instead of calling a handler.\<close>

definition run_syscall_panic :: "int \<Rightarrow> 'd sys \<Rightarrow> (string \<times> kparg list) option" where
  "run_syscall_panic syscall_id s = (if syscall_id < 0 \<or> syscall_id \<ge> MAX_SYSCALL then Some (''Syscall ID [%d] out of range!\<newline>'', [PI syscall_id])
     else if syscalls s ! nat syscall_id = None then Some (''Syscall [%s] (%d) not registered!\<newline>'', [PStr (get_name syscall_id), PI syscall_id])
     else None)"

section \<open>Page directories\<close>

definition page_flag :: "u32 \<Rightarrow> u32 \<Rightarrow> string \<Rightarrow> string \<Rightarrow> kparg" where
  "page_flag flags f yes no = PStr (if flags AND f \<noteq> 0 then yes else no)"

definition dump_page :: "nat \<Rightarrow> u32 \<Rightarrow> klog" where
  "dump_page i e = (if e AND PAGE_PRESENT = 0 then [] else let flags = e AND 0xFFF in
     [(''%d  | 0x%x | 0x%x | 0x%x  | %s %s %s %s\<newline>'', [PN i, PNum (of_nat i * PAGE_SIZE), PNum (e AND 0xFFC00000), PNum flags,
        page_flag flags PAGE_PRESENT ''P'' ''-'', page_flag flags PAGE_WRITABLE ''W'' ''-'', page_flag flags PAGE_USER ''U'' ''K'',
        page_flag flags PAGE_PS ''4M'' ''4K''])])"

text \<open>The directory with its address; \<open>None\<close> is a null pointer.\<close>

definition page_dump_dir :: "(u32 \<times> pdir) option \<Rightarrow> klog" where
  "page_dump_dir dir = (case dir of None \<Rightarrow> [line ''[ERROR] Invalid Page Directory!'']
     | Some (a, d) \<Rightarrow> [line '''', line rule36, line ''          PAGE DIR STATISTICS       '', line rule36,
         (''Physical Address: 0x%x\<newline>'', [PNum (v2p a)])] @ concat (map (\<lambda>i. dump_page i (d ! i)) [0..<1024]) @ [line rule36])"

section \<open>Devices\<close>

text \<open>The sizes have 64 bits and \<open>%d\<close> takes 32 of them; \<open>gib\<close> is the text of the capacity as a floating-point number.\<close>

definition dump_ata :: "string \<Rightarrow> ata \<Rightarrow> klog" where
  "dump_ata gib self = [line ''[INFO] ATA'', (''Sector Size: %d\<newline>'', [PW (sector_size self)]),
     (''Total Sectors: %d\<newline>'', [PNum (ucast (total_sectors self))]),
     (''Capacity: %d KiB\<newline>'', [PNum (ucast (capacity self div 1024))]),
     (''Capacity: %d MiB\<newline>'', [PNum (ucast (capacity self div 1024 div 1024))]),
     (''Capacity: %f GiB\<newline>'', [PStr gib])]"

definition dump_dev :: "pci_dev \<Rightarrow> klog" where
  "dump_dev dev = [(''\<newline>'' @ rule45 @ ''\<newline>'', []),
     ('' Bus: %d'' @ [CHR 0x09] @ ''Device: %d'' @ [CHR 0x09] @ ''Function: %d\<newline>'', [PNum (pbus dev), PNum (pdevice dev), PNum (pfunction dev)]),
     line dashes45,
     ('' Vendor ID       : 0x%x\<newline>'', [PW (vendor_id dev)]), ('' Device ID       : 0x%x\<newline>'', [PW (device_id dev)]),
     ('' Class Code      : 0x%x\<newline>'', [PB (class_code dev)]), ('' Command         : 0x%x\<newline>'', [PW (command dev)]),
     ('' Status          : 0x%x\<newline>'', [PW (status dev)]), ('' Revision ID     : 0x%x\<newline>'', [PB (revision_id dev)]),
     ('' Prog IF         : 0x%x\<newline>'', [PB (prog_if dev)]), ('' Subclass        : 0x%x\<newline>'', [PB (sub_class dev)]),
     ('' Cache Line Size : 0x%x\<newline>'', [PB (cache_line_size dev)]), ('' Latency Timer   : 0x%x\<newline>'', [PB (latency_timer dev)]),
     ('' Header Type     : 0x%x\<newline>'', [PB (header_type dev)]), ('' BIST            : 0x%x\<newline>'', [PB (bist dev)]), line rule45]"

section \<open>\<open>fs/vnode.c\<close>\<close>

text \<open>\<open>st_dev\<close> is an array at the start of the structure: what is printed of it is the address \<open>self\<close>.\<close>

definition vnode_dump :: "u32 \<Rightarrow> vstat \<Rightarrow> string \<Rightarrow> klog" where
  "vnode_dump self v name = [line rule26, (''=   %s \<newline>'', [PStr name]), line rule26, (''st_dev: %d\<newline>'', [PNum self]),
     (''st_mode: %d\<newline>'', [PB (st_mode v)]), (''st_size: %d\<newline>'', [PNum (st_size v)]), (''st_blksize: %d\<newline>'', [PNum (st_blksize v)]),
     (''st_blocks: %d\<newline>'', [PW (st_blocks v)]), (''st_atime: 0x%x\<newline>'', [PNum (st_atime v)]),
     (''st_mtime: 0x%x\<newline>'', [PNum (st_mtime v)]), (''st_ctime: 0x%x\<newline>'', [PNum (st_ctime v)]), line rule26]"

section \<open>FAT16\<close>

text \<open>Of the type of the file system 7 of its 8 bytes are copied.\<close>

definition fat16_dump_ebpb_header :: "ebpb \<Rightarrow> string \<Rightarrow> klog option" where
  "fat16_dump_ebpb_header e msg = do {
     label \<leftarrow> c_text (take 11 (vol_lab e) @ [0]);
     fs \<leftarrow> c_text (take 7 (fil_sys_type e) @ [0, 0]);
     Some [(''\<newline>'' @ rule45 @ ''\<newline>'', []), (''%s\<newline>'', [PStr msg]), line dashes45,
       ('' Drive Number    : 0x%x\<newline>'', [PB (drv_num e)]), ('' Reserved1       : 0x%x\<newline>'', [PB (reserved1 e)]),
       ('' Boot Signature  : %d\<newline>'', [PB (boot_sig e)]), ('' Volume ID       : 0x%x\<newline>'', [PNum (vol_id e)]),
       ('' Volume Label    : %s\<newline>'', [PStr label]), ('' File System Type: %s\<newline>'', [PStr fs]), line rule45] }"

text \<open>The name of the formatting system is printed up to a terminator, which may lie behind it in the header; \<open>behind\<close> are the bytes
  that follow.\<close>

definition fat16_dump_base_header :: "u8 list \<Rightarrow> bpb \<Rightarrow> string \<Rightarrow> klog option" where
  "fat16_dump_base_header behind p msg = do {
     name \<leftarrow> c_text (oem p @ behind);
     Some [(''\<newline>'' @ rule45 @ ''\<newline>'', []), (''%s\<newline>'', [PStr msg]), line dashes45,
       ('' Jump Code       : 0x%x 0x%x 0x%x\<newline>'', [PB (jmp p ! 0), PB (jmp p ! 1), PB (jmp p ! 2)]),
       ('' OEM Name        : %s\<newline>'', [PStr name]),
       ('' Bytes Per Sec   : %d\<newline>'', [PW (byts_per_sec p)]), ('' Sec Per Cluster : %d\<newline>'', [PB (sec_per_clus p)]),
       ('' Reserved Sectors: %d\<newline>'', [PW (rsvd_sec p)]), ('' Number of FATs  : %d\<newline>'', [PB (num_fats p)]),
       ('' Root Entry Count: %d\<newline>'', [PW (root_ent_cnt p)]), ('' Total Sectors16 : %d\<newline>'', [PW (tot_sec_16 p)]),
       ('' Media Type      : 0x%x\<newline>'', [PB (media p)]), ('' FAT Size 16     : %d\<newline>'', [PW (fatsz16 p)]),
       ('' Sectors Per Trk : %d\<newline>'', [PW (sec_per_trk p)]), ('' Number of Heads : %d\<newline>'', [PW (num_heads p)]),
       ('' Hidden Sectors  : %d\<newline>'', [PNum (hidd_sec p)]), ('' Total Sectors32 : %d\<newline>'', [PNum (tot_sec_32 p)]), line rule45] }"

text \<open>The 11 bytes of the name are copied to an array of 11 bytes and printed from there.\<close>

definition fat_16_dump_entry :: "nat \<Rightarrow> fat16_dir_entry \<Rightarrow> klog option" where
  "fat_16_dump_entry i entry = (let
     ct = fat16_get_unpacked_time (create_time entry); cd = fat16_get_unpacked_date (create_date entry);
     ad = fat16_get_unpacked_date (last_access_date entry);
     mt = fat16_get_unpacked_time (modification_time entry); md = fat16_get_unpacked_date (modification_date entry)
   in do {
     name \<leftarrow> c_text (take 11 (file_name entry));
     Some [line rule26, (''=   Fat16DirEntry %d:\<newline>'', [PN i]), line rule26, (''=   Filename: %s\<newline>'', [PStr name]),
       (''=   Attributes: 0x%x\<newline>'', [PB (fat16_dir_entry.attributes entry)]),
       (''=   Creation Time: %d:%d:%d\<newline>'', [PI (hour ct), PI (minute ct), PI (second ct)]),
       (''=   Creation Date: %d.%d.%d\<newline>'', [PI (day cd), PI (month cd), PI (year cd)]),
       (''=   Last Access Date: %d.%d.%d\<newline>'', [PI (day ad), PI (month ad), PI (year ad)]),
       (''=   High Cluster: %d\<newline>'', [PW (high_cluster entry)]),
       (''=   Modification Time: %d:%d:%d\<newline>'', [PI (hour mt), PI (minute mt), PI (second mt)]),
       (''=   Modification Date: %d.%d.%d\<newline>'', [PI (day md), PI (month md), PI (year md)]),
       (''=   Low Cluster: %d\<newline>'', [PW (low_cluster entry)]), (''=   File Size: %d Bytes\<newline>'', [PNum (file_size entry)]), line rule26] })"

definition fat16_dump_lfn_entry :: "nat \<Rightarrow> fat16_dir_entry \<Rightarrow> klog" where
  "fat16_dump_lfn_entry i entry = (if file_name entry ! 0 = 0 then []
     else [line rule26, (''=   Fat16DirLFNEntry %d:\<newline>'', [PN i]), line rule26,
       (''=   LFN: %s (Long File Name NOT SUPPORTED)\<newline>'', [PStr ''-'']), line rule26])"

text \<open>The loops over the root directory and over the table: what is printed, and the state after the transfers. \<open>i\<close> and \<open>cluster\<close>
  are the next index, \<open>n\<close> the rounds that are left.\<close>

primrec dump_root_loop :: "'d bus \<Rightarrow> nat \<Rightarrow> nat \<Rightarrow> stream \<Rightarrow> ('d, 'm) fat_state_scheme \<Rightarrow> (klog \<times> ('d, 'm) fat_state_scheme) option" where
  "dump_root_loop b 0 i st s = Some ([], s)"
| "dump_root_loop b (Suc n) i st s = do {
     (r, bs, st1, s1) \<leftarrow> stream_read b True 32 st s;
     if r \<noteq> 0 then Some ([line ''FAT16 Error: Failed to read FAT16 Header''], s1)
     else do {
       let entry = entry_of_bytes bs;
       l \<leftarrow> (if fat16_dir_entry.attributes entry = LFN then Some (fat16_dump_lfn_entry i entry)
         else if file_name entry ! 0 \<noteq> 0 then fat_16_dump_entry i entry else Some []);
       (ls, s2) \<leftarrow> dump_root_loop b n (i + 1) st1 s1;
       Some (l @ ls, s2) } }"

definition fat16_dump_root_dir :: "'d bus \<Rightarrow> bpb \<Rightarrow> stream \<Rightarrow> ('d, 'm) fat_state_scheme \<Rightarrow> (klog \<times> ('d, 'm) fat_state_scheme) option" where
  "fat16_dump_root_dir b p st s = dump_root_loop b (unat (root_ent_cnt p)) 0 st s"

definition dump_fat_value :: "nat \<Rightarrow> u16 \<Rightarrow> klog" where
  "dump_fat_value cluster v = (''Cluster %d: 0x%x\<newline>'', [PN cluster, PW v])
     # (if v = FAT16_VALUE_END_OF_CHAIN then [(''Cluster %d: End of chain (EOF)\<newline>'', [PN cluster])]
        else if v = FAT16_VALUE_BAD_CLUSTER then [(''Cluster %d: Bad cluster\<newline>'', [PN cluster])]
        else if v = FAT16_VALUE_FREE then [(''Cluster %d: Free cluster\<newline>'', [PN cluster])] else [])"

primrec dump_fat_loop :: "'d bus \<Rightarrow> nat \<Rightarrow> nat \<Rightarrow> stream \<Rightarrow> ('d, 'm) fat_state_scheme \<Rightarrow> (klog \<times> ('d, 'm) fat_state_scheme) option" where
  "dump_fat_loop b 0 cluster st s = Some ([], s)"
| "dump_fat_loop b (Suc n) cluster st s = do {
     (r, bs, st1, s1) \<leftarrow> stream_read b True 2 st s;
     if r < 0 then Some ([(''[Stream] Failed to read from %d\<newline>'', [PN cluster])], s1)
     else do {
       (ls, s2) \<leftarrow> dump_fat_loop b n (cluster + 1) st1 s1;
       Some (dump_fat_value cluster (entry_word bs) @ ls, s2) } }"

definition fat16_dump_fat_table :: "'d bus \<Rightarrow> ata_ptr \<Rightarrow> ('d, 'm) fat_state_scheme \<Rightarrow> (klog \<times> ('d, 'm) fat_state_scheme) option" where
  "fat16_dump_fat_table b dev s = (if dev = AtaNull then Some ([line ''[FAT16] ERROR: Invalid Dev''], s) else do {
     let st = stream_seek (stream_init dev) (fat16_get_fat_table_absolute (bpb_of s) PARTITION_OFFSET);
     (ls, s') \<leftarrow> dump_fat_loop b (FAT16_MAX_CLUSTERS - 2) 2 st s;
     Some (line ''[FAT16] Dumping FAT Table:'' # ls, s') })"

text \<open>An index outside the directory is undefined.\<close>

definition fat16_dump_root_dir_entry_at :: "'d bus \<Rightarrow> ata_ptr \<Rightarrow> int \<Rightarrow> ('d, 'm) fat_state_scheme \<Rightarrow> (klog \<times> ('d, 'm) fat_state_scheme) option" where
  "fat16_dump_root_dir_entry_at b dev i s = (if dev = AtaNull then Some ([], s) else do {
     let root_dir_size = ucast (root_ent_cnt (bpb_of s)) * 32;
     let st = stream_seek (stream_init dev) (fat16_get_root_dir_absolute (bpb_of s) PARTITION_OFFSET);
     (r, bs, st1, s1) \<leftarrow> stream_read b True root_dir_size st s;
     if r < 0 then Some ([], s1)
     else if i < 0 \<or> i * 32 + 32 > int (unat root_dir_size) then None
     else do { l \<leftarrow> fat_16_dump_entry (nat i) (entry_of_bytes (take 32 (drop (nat i * 32) bs))); Some (l, s1) } })"

section \<open>What the dumps show\<close>

text \<open>The list of processes is printed once in its order, and the loop ends.\<close>

lemma dump_processes_list:
  "plist s a p (x # xs) 0 l \<Longrightarrow> distinct (x # xs) \<Longrightarrow> processes s \<notin> set xs
   \<Longrightarrow> (\<And>y r. y \<in> set (x # xs) \<Longrightarrow> proc_at s y = Some r \<Longrightarrow> out y r = Some (block y))
   \<Longrightarrow> dump_processes out s p = Some (concat (map block (x # xs)))"
proof (induction xs arbitrary: a p x)
  case Nil
  then show ?case by (subst dump_processes.simps) (auto split: option.splits)
next
  case (Cons y ys)
  from Cons.prems(1) obtain r where r: "p = x" "proc_at s x = Some r" "plist s x (next_proc r) (y # ys) 0 l"
    by (auto split: option.splits)
  then have n: "next_proc r = y" "y \<noteq> 0" "y \<noteq> processes s" using Cons.prems(3) by auto
  have "dump_processes out s (next_proc r) = Some (concat (map block (y # ys)))"
    using Cons.IH [OF r(3)] Cons.prems(2-4) by auto
  with r n Cons.prems(4) show ?case by (subst dump_processes.simps) simp
qed

text \<open>On a well-formed list \<open>process_list_dump\<close> ends and prints the block of each process once, in the order of the list.\<close>

theorem process_list_dump_in_order:
  assumes "proc_list s ps"
    and "\<And>p x. p \<in> set ps \<Longrightarrow> proc_at s p = Some x \<Longrightarrow> dump_process elf_of args_of s p x = Some (block p)"
  shows "process_list_dump elf_of args_of s = Some ((''\<newline>'' @ rule36 @ ''\<newline>'', []) # line ''         PROCESS LIST DUMP          '' # line rule36
    # (if ps = [] then [line ''[INFO] No Processes are currently running''] else concat (map block ps) @ [line rule36]))"
proof -
  from assms(1) obtain l where l: "distinct ps" "plist s 0 (processes s) ps 0 l" by (auto simp: proc_list_def)
  show ?thesis
  proof (cases ps)
    case Nil
    with l show ?thesis by (simp add: process_list_dump_def)
  next
    case (Cons x xs)
    have "processes s = x" "x \<noteq> 0" using l(2) Cons by auto
    then show ?thesis using dump_processes_list [of s 0 "processes s" x xs l "dump_process elf_of args_of s" block] l assms(2) Cons
      by (simp add: process_list_dump_def)
  qed
qed

theorem process_list_dump_in_order_witness:
  "\<exists>b2 b1. process_list_dump (\<lambda>_. None) (\<lambda>_. []) procs0 = Some ((''\<newline>'' @ rule36 @ ''\<newline>'', []) # line ''         PROCESS LIST DUMP          '' # line rule36
    # concat [b2, b1] @ [line rule36]) \<and> hd b2 = (''PID: %d \<newline>'', [PW 1])"
proof -
  have l: "proc_list procs0 [2, 1]" by (simp add: proc_list_def procs0_def proc_at_def proc0_def)
  define blk where "blk p = the (dump_process (\<lambda>_. None) (\<lambda>_. []) procs0 p (the (proc_at procs0 p)))" for p
  have name: "c_text (name_field 128 [0x53, 0x48]) = Some ''SH''" by (simp add: c_text_def text_of_def name_field_def char_of_def bit_Suc_0_iff)
  have t: "those (map (dump_task_slot s x) [0..<PROCESS_MAX_THREAD]) = Some (replicate 16 [])" if "tasks x = replicate 16 0" for s x
    using that by (simp add: dump_task_slot_def konst upt_rec numeral_eq_Suc)
  have d: "dump_process (\<lambda>_. None) (\<lambda>_. []) procs0 p x = Some (blk p) \<and> hd (blk p) = (''PID: %d \<newline>'', [PW 1])"
    if "p \<in> set [2, 1]" "proc_at procs0 p = Some x" for p x
    using that by (auto simp: blk_def dump_process_def procs0_def proc_at_def proc0_def name t)
  from process_list_dump_in_order [OF l, of "\<lambda>_. None" "\<lambda>_. []" blk] d d [of 2 "proc0\<lparr>next_proc := 1\<rparr>"]
  show ?thesis by (auto simp: procs0_def proc_at_def)
qed

context ata_device
begin

lemma dump_fat_loop_ok:
  "ready s \<Longrightarrow> sdev st = AtaDev \<Longrightarrow> even (unat (spos st)) \<Longrightarrow> unat (spos st) + 2 * n < 2 ^ 32 \<Longrightarrow>
   \<exists>s'. dump_fat_loop b n c st s = Some (concat (map (\<lambda>i. dump_fat_value (c + i) (entry_word (bytes_at (disk s) (unat (spos st) + 2 * i) 2))) [0..<n]), s')
     \<and> quiet s s'"
proof (induction n arbitrary: c st s)
  case 0
  then show ?case by (simp add: quiet_refl)
next
  case (Suc n)
  let ?st = "st\<lparr>spos := spos st + 2\<rparr>"
  from stream_read_ok [OF Suc.prems(1,2), of 2] fits_even [OF Suc.prems(3)] Suc.prems(4) obtain s1 where
    s1: "stream_read b True 2 st s = Some (0, bytes_at (disk s) (unat (spos st)) 2, ?st, s1)" "quiet s s1" by fastforce
  have p: "unat (spos st + 2) = unat (spos st) + 2" using pos_advance [of "spos st" 2] Suc.prems(4) by simp
  have e: "even (unat (spos ?st))" "unat (spos ?st) + 2 * n < 2 ^ 32" using p Suc.prems(3,4) by simp_all
  from Suc.IH [OF quiet_ready [OF s1(2)] _ e, of "c + 1"] Suc.prems(2) obtain s2 where
    s2: "dump_fat_loop b n (c + 1) ?st s1 = Some (concat (map (\<lambda>i. dump_fat_value (c + 1 + i)
      (entry_word (bytes_at (disk s1) (unat (spos ?st) + 2 * i) 2))) [0..<n]), s2)" "quiet s1 s2" by auto
  have "[0..<Suc n] = 0 # map Suc [0..<n]" by (simp add: map_Suc_upt upt_conv_Cons del: upt_Suc)
  with s1(1) s2(1) have "dump_fat_loop b (Suc n) c st s = Some (concat (map (\<lambda>i. dump_fat_value (c + i)
      (entry_word (bytes_at (disk s) (unat (spos st) + 2 * i) 2))) [0..<Suc n]), s2)"
    by (simp add: quiet_disk [OF s1(2)] p o_def add.assoc del: upt_Suc)
  with quiet_trans [OF s1(2) s2(2)] show ?case by blast
qed

lemma fat16_dump_fat_table_ok:
  assumes "ready s" "byts_per_sec (bpb_of s) = 512"
  shows "\<exists>s'. fat16_dump_fat_table b AtaDev s = Some (line ''[FAT16] Dumping FAT Table:''
      # concat (map (\<lambda>c. dump_fat_value c (fat s (of_nat (c - 2)))) [2..<FAT16_MAX_CLUSTERS]), s') \<and> quiet s s'"
proof -
  define st where "st = stream_seek (stream_init AtaDev) (fat16_get_fat_table_absolute (bpb_of s) PARTITION_OFFSET)"
  have st: "sdev st = AtaDev" "unat (spos st) = fat_pos (bpb_of s) 0"
    using fat_entry_offset_pos(1,2) [OF assms(2), of 0] by (simp_all add: st_def stream_seek_def stream_init_def)
  have z: "fat_pos (bpb_of s) 0 < 0x100000 + 512 * 2 ^ 16" using unat_bound [of "rsvd_sec (bpb_of s)"] by (simp add: fat_pos_def)
  define n where "n = FAT16_MAX_CLUSTERS - 2"
  have n: "n < 2 ^ 16" "FAT16_MAX_CLUSTERS = n + 2" by (simp_all add: n_def konst)
  have u: "[2..<FAT16_MAX_CLUSTERS] = map (\<lambda>i. i + 2) [0..<n]" unfolding n(2) by (rule map_add_upt [symmetric])
  have w: "entry_word (bytes_at (disk s) (unat (spos st) + 2 * i) 2) = fat s (of_nat i)" if "i < n" for i
  proof -
    have "unat (of_nat i :: u16) = i" using that n(1) by (simp add: unsigned_of_nat take_bit_nat_eq_self_iff)
    then show ?thesis by (simp add: entry_word_bytes_at fat_of_def fat_pos_def st(2) add.assoc)
  qed
  have e: "even (unat (spos st))" "unat (spos st) + 2 * n < 2 ^ 32" using st(2) fat_pos_even z n(1) by simp_all
  from dump_fat_loop_ok [OF assms(1) st(1) e, of 2] obtain s' where "dump_fat_loop b n 2 st s = Some (concat (map (\<lambda>i. dump_fat_value (2 + i)
      (entry_word (bytes_at (disk s) (unat (spos st) + 2 * i) 2))) [0..<n]), s')" "quiet s s'" by auto
  moreover have "map (\<lambda>i. dump_fat_value (2 + i) (entry_word (bytes_at (disk s) (unat (spos st) + 2 * i) 2))) [0..<n]
      = map (\<lambda>c. dump_fat_value c (fat s (of_nat (c - 2)))) [2..<FAT16_MAX_CLUSTERS]"
    unfolding u map_map by (rule map_cong [OF refl]) (simp add: w add.commute)
  ultimately show ?thesis by (simp add: fat16_dump_fat_table_def st_def n_def)
qed

end

text \<open>\<open>fat16_dump_fat_table\<close> prints a line for each number from 2 to 65524, but the values are those of the table from its
  entry 0 on: what is printed as cluster \<open>c\<close> is the entry of cluster \<open>c - 2\<close>.\<close>

theorem fat_dump_is_off_by_two:
  assumes "ata_device b sector idle reading writing written flushing delay" "dev_ready idle s" "byts_per_sec (bpb_of s) = 512"
  shows "\<exists>s'. fat16_dump_fat_table b AtaDev s = Some (line ''[FAT16] Dumping FAT Table:''
      # concat (map (\<lambda>c. dump_fat_value c (fat_of (bpb_of s) (disk_of sector s) (of_nat (c - 2)))) [2..<FAT16_MAX_CLUSTERS]), s')
    \<and> dev_quiet idle sector s s'"
  by (rule ata_device.fat16_dump_fat_table_ok [OF assms])

theorem fat_dump_is_off_by_two_witness:
  "\<exists>xs ys s'. fat16_dump_fat_table drive_bus AtaDev fat0 = Some (xs @ dump_fat_value 5 5 @ ys, s')
    \<and> fat_of (bpb_of fat0) (disk_of drive_sector fat0) 3 = 5"
proof -
  have f: "fat_of (bpb_of fat0) (disk_of drive_sector fat0) 3 = 5" using fat0_chain(1) by simp
  define g where "g c = dump_fat_value c (fat_of (bpb_of fat0) (disk_of drive_sector fat0) (of_nat (c - 2)))" for c
  have g: "g 5 = dump_fat_value 5 5" by (simp add: g_def f)
  have u: "[2..<FAT16_MAX_CLUSTERS] = [2..<5] @ 5 # [6..<FAT16_MAX_CLUSTERS]"
    using upt_add_eq_append [of 2 5 "FAT16_MAX_CLUSTERS - 5"] upt_conv_Cons [of 5 FAT16_MAX_CLUSTERS]
    by (simp add: FAT16_MAX_CLUSTERS_def del: upt_Suc upt_rec_numeral)
  from fat_dump_is_off_by_two [OF dr.ata_device_axioms fat0_ready fat0_bpb(1), folded g_def] obtain s' where
    "fat16_dump_fat_table drive_bus AtaDev fat0 = Some (line ''[FAT16] Dumping FAT Table:'' # concat (map g [2..<FAT16_MAX_CLUSTERS]), s')" by blast
  then have "fat16_dump_fat_table drive_bus AtaDev fat0 = Some ((line ''[FAT16] Dumping FAT Table:'' # concat (map g [2..<5]))
      @ dump_fat_value 5 5 @ concat (map g [6..<FAT16_MAX_CLUSTERS]), s')"
    by (simp only: u g map_append concat_append list.map concat.simps append_Cons append_assoc)
  with f show ?thesis by blast
qed

text \<open>Whenever the dispatcher halts with a message it has not run a handler, and after the initialisation a named call is never missing.\<close>

lemma panic_without_handler:
  "run_syscall_panic i s \<noteq> None \<Longrightarrow> run_syscall b i frame s = None"
  "run_syscall_panic i (syscall_init s) = Some (m, args) \<Longrightarrow> 0 \<le> i \<Longrightarrow> i < MAX_SYSCALL \<Longrightarrow> get_name i = ''UNKNOWN Syscall''"
  by (auto simp: run_syscall_panic_def run_syscall_def get_name_def syscall_init_def konst nth_list_update split: if_splits)

text \<open>A directory entry whose 11 bytes of the name are all in use is printed from an array without a terminator.\<close>

lemma full_name_not_terminated:
  "length (file_name entry) = 11 \<Longrightarrow> fat_16_dump_entry i entry = None \<longleftrightarrow> 0 \<notin> set (file_name entry)"
  by (simp add: fat_16_dump_entry_def c_text_def Let_def)

end
