(* ===== verification/Boot.thy ===== *)
theory Boot
  imports Complex_Main Vbe Ustring Syscall Isr Rtc
begin

text \<open>
  The start of the kernel, \<open>kernel.c\<close>: the boot information of the loader (\<open>include/multiboot2.h\<close>), the first processes, the
  message of the day and waiting for timer ticks. The boot information lies in byte memory and is read through 32-bit loads.
\<close>

unbundle bit_operations_syntax

section \<open>Boot information\<close>

definition MULTIBOOT2_BOOTLOADER_MAGIC :: u32 where [konst]: "MULTIBOOT2_BOOTLOADER_MAGIC = 0x36D76289"
definition MULTIBOOT_TAG_TYPE_END :: u32 where [konst]: "MULTIBOOT_TAG_TYPE_END = 0"
definition MULTIBOOT_TAG_TYPE_MMAP :: u32 where [konst]: "MULTIBOOT_TAG_TYPE_MMAP = 6"
definition MULTIBOOT_TAG_TYPE_FRAMEBUFFER :: u32 where [konst]: "MULTIBOOT_TAG_TYPE_FRAMEBUFFER = 8"
definition FRAMEBUFFER_VIRT_BASE :: u32 where [konst]: "FRAMEBUFFER_VIRT_BASE = 0xE0000000"

text \<open>The fields of the tags.\<close>

definition tag_type :: "umem \<Rightarrow> u32 \<Rightarrow> u32" where "tag_type m tag = ld32 m tag"
definition tag_size :: "umem \<Rightarrow> u32 \<Rightarrow> u32" where "tag_size m tag = ld32 m (tag + 4)"
definition mmap_entry_size :: "umem \<Rightarrow> u32 \<Rightarrow> u32" where "mmap_entry_size m tag = ld32 m (tag + 8)"
definition mmap_entries :: "u32 \<Rightarrow> u32" where "mmap_entries tag = tag + 16"

definition memory_type :: "u32 \<Rightarrow> mmap_type" where
  "memory_type n = (if n = 1 then MULTIBOOT_MEMORY_AVAILABLE else if n = 2 then MULTIBOOT_MEMORY_RESERVED
     else if n = 3 then MULTIBOOT_MEMORY_ACPI_RECLAIMABLE else if n = 4 then MULTIBOOT_MEMORY_NVS
     else if n = 5 then MULTIBOOT_MEMORY_BADRAM else MULTIBOOT_MEMORY_OTHER)"

definition mmap_entry_at :: "umem \<Rightarrow> u32 \<Rightarrow> multiboot_memory_map" where
  "mmap_entry_at m a = \<lparr>addr_low = ld32 m a, addr_high = ld32 m (a + 4), len_low = ld32 m (a + 8), len_high = ld32 m (a + 12),
     mtype = memory_type (ld32 m (a + 16))\<rparr>"

text \<open>The entries that the loop of \<open>_init_mmap\<close> visits, in order; with an entry size of 0 it does not end.\<close>

partial_function (option) mmap_walk :: "umem \<Rightarrow> u32 \<Rightarrow> u32 \<Rightarrow> multiboot_memory_map list option" where
  "mmap_walk m tag mmap = (if mmap < tag + tag_size m tag
     then do { es \<leftarrow> mmap_walk m tag (mmap + mmap_entry_size m tag); Some (mmap_entry_at m mmap # es) }
     else Some [])"

definition init_mmap_tag :: "umem \<Rightarrow> u32 \<Rightarrow> pfa \<Rightarrow> pfa option" where
  "init_mmap_tag m tag p = do { es \<leftarrow> mmap_walk m tag (mmap_entries tag); init_mmap es p }"

definition init_fb :: "umem \<Rightarrow> u32 \<Rightarrow> vbe \<Rightarrow> vbe" where
  "init_fb m tag v = vbe_init FRAMEBUFFER_VIRT_BASE (ld32 m (tag + 20)) (ld32 m (tag + 24)) (ld32 m (tag + 16)) (ucast (m (tag + 28))) v"

text \<open>The walk over the tags; a tag of size 0 stops it from ending.\<close>

partial_function (option) tag_walk :: "umem \<Rightarrow> u32 \<Rightarrow> pfa \<times> vbe \<Rightarrow> (pfa \<times> vbe) option" where
  "tag_walk m tag s = (if tag_type m tag = MULTIBOOT_TAG_TYPE_END then Some s
     else do {
       s' \<leftarrow> (if tag_type m tag = MULTIBOOT_TAG_TYPE_FRAMEBUFFER then Some (fst s, init_fb m tag (snd s))
         else if tag_type m tag = MULTIBOOT_TAG_TYPE_MMAP then map_option (\<lambda>p. (p, snd s)) (init_mmap_tag m tag (fst s))
         else Some s);
       tag_walk m (tag + ((tag_size m tag + 7) AND NOT 7)) s' })"

definition check_multiboot2_magic :: "u32 \<Rightarrow> klog" where
  "check_multiboot2_magic magic = (if magic \<noteq> MULTIBOOT2_BOOTLOADER_MAGIC then [(''[INFO] Invalid Magic Number: 0x%x\<newline>'', [PNum magic])] else [])"

definition check_multiboot2_alignment :: "u32 \<Rightarrow> klog" where
  "check_multiboot2_alignment addr = (if addr AND 7 \<noteq> 0 then [(''[INFO] Unaligned Mbi: 0x%x\<newline>'', [PNum addr])] else [])"

text \<open>Neither check keeps the kernel from reading the information.\<close>

definition read_multiboot2 :: "umem \<Rightarrow> u32 \<Rightarrow> u32 \<Rightarrow> pfa \<times> vbe \<Rightarrow> (klog \<times> pfa \<times> vbe) option" where
  "read_multiboot2 m magic addr s = do {
     let log = check_multiboot2_magic magic @ check_multiboot2_alignment addr;
     let vaddr = p2v addr;
     s' \<leftarrow> tag_walk m (vaddr + 8) s;
     Some (log, s') }"

section \<open>The message of the day\<close>

definition months :: "string list" where
  "months = [''January'', ''February'', ''March'', ''April'', ''May'', ''June'', ''July'', ''August'', ''September'', ''October'',
     ''November'', ''December'']"

definition days :: "string list" where
  "days = [''Sunday'', ''Monday'', ''Tuesday'', ''Wednesday'', ''Thursday'', ''Friday'', ''Saturday'']"

text \<open>An element of an array; an index outside it is undefined.\<close>

definition element_of :: "'a list \<Rightarrow> int \<Rightarrow> 'a option" where
  "element_of xs i = (if 0 \<le> i \<and> i < int (length xs) then Some (xs ! nat i) else None)"

definition motd :: "'d bus \<Rightarrow> int \<Rightarrow> 'd vfs_state \<Rightarrow> (klog \<times> 'd vfs_state) option" where
  "motd b timezone_offset s = do {
     let (dt, s1) = clock_call (cmos_date b) s;
     let (tm, s2) = rtc_now b timezone_offset s1;
     wd \<leftarrow> element_of days (rd_weekday dt - 1);
     mo \<leftarrow> element_of months (rd_month dt - 1);
     Some ([('' _             _         _____ _____ \<newline>'', []),
       (''|_|___ ___ ___|_|_ _ ___|     |   __|\<newline>'', []),
       (''| |  _| .'' @ [CHR 0x27] @ ''|  _| | | |_ -|  |  |__   |\<newline>'', []),
       (''|_|___|__,|_| |_|___|___|_____|_____|\<newline>'', []),
       (''\<newline>icariusOS is running on an x86 CPU.\<newline>'', []),
       (''Booted at %s, %d %s %d at '', [PStr wd, PNum (word_of_int (rd_day dt)), PStr mo, PNum (word_of_int (rd_year dt))]),
       (''%d:%d:%d\<newline>'', [PNum (word_of_int (rt_hour tm)), PNum (word_of_int (rt_minute tm)), PNum (word_of_int (rt_second tm))])], s2) }"

section \<open>Waiting\<close>

text \<open>\<open>reads\<close> are the values that successive reads of \<open>timer.ticks\<close> yield; the result is the number of reads. The tick counter has
  64 bits, the end of the wait 32.\<close>

partial_function (option) sleep_loop :: "(nat \<Rightarrow> u64) \<Rightarrow> u32 \<Rightarrow> nat \<Rightarrow> nat option" where
  "sleep_loop reads end_ticks n = (if reads n < ucast end_ticks then sleep_loop reads end_ticks (n + 1) else Some (n + 1))"

definition sleep :: "u32 \<Rightarrow> u32 \<Rightarrow> (nat \<Rightarrow> u64) \<Rightarrow> nat option" where
  "sleep freq ms reads = (let ticks_to_wait = (ms * freq) div 1000; end_ticks = ucast (reads 0 + ucast ticks_to_wait)
     in sleep_loop reads end_ticks 1)"

section \<open>The size of the kernel and its first processes\<close>

text \<open>The bounds of the sections come from the linker. The share is a floating-point number in the code and a rational here;
  \<open>show_f\<close> is the text of \<open>%f\<close>.\<close>

definition check_kernel_size :: "(rat \<Rightarrow> string) \<Rightarrow> (u32 \<times> u32) list \<Rightarrow> u32 \<Rightarrow> isr_result" where
  "check_kernel_size show_f sections max_kernel_size = (
     let total_size = sum_list (map (\<lambda>(s, e). e - s) sections);
         used_percentage = (of_nat (unat total_size) / of_nat (unat max_kernel_size)) * 100
     in if used_percentage \<ge> 100 then panic ''[CRITICAL] Kernel Memory > 16 MiB'' []
        else ([(''[STATUS] Kernel Memory Usage: %f \<newline>'', [PStr (show_f used_percentage)])], Returned))"

definition KIDLE :: "u8 list" where "KIDLE = [0x4B, 0x49, 0x44, 0x4C, 0x45]"

definition sizeof_scheduler :: nat where [konst]: "sizeof_scheduler = 28"

text \<open>\<open>stale\<close> is what the memory of the scheduler held before, \<open>kidle\<close> the address of the idle loop. A null process is used before
  it is tested, so that its panic is never reached.\<close>

definition bootstrap :: "'d bus \<Rightarrow> scheduler \<Rightarrow> u32 \<Rightarrow> int \<Rightarrow> vbe \<times> mem \<Rightarrow> 'd sys \<Rightarrow> (isr_result \<times> (vbe \<times> mem) \<times> 'd sys) option" where
  "bootstrap b stale kidle timezone_offset disp s = do {
     (p, h) \<leftarrow> kmalloc sizeof_scheduler (kheap_of s);
     let s1 = upd_kheap (\<lambda>_. h) s;
     let (sch, k) = scheduler_create SCHED_ROUND_ROBIN (if p = 0 then None else Some stale) (ks s1);
     let s2 = s1\<lparr>ks := scheduler_select sch k\<rparr>;
     (idle_proc, s3) \<leftarrow> process_kspawn kidle (KIDLE @ [0]) s2;
     scheduler \<leftarrow> sch;
     x \<leftarrow> proc_at (ks s3) idle_proc;
     s4 \<leftarrow> ks_call (call_add (add_cb scheduler) (tasks x ! 0)) s3;
     if idle_proc = 0 then Some (panic ''Failed to initialize KIDLE'' [], disp, s4)
     else do {
       let s5 = s4\<lparr>ks := process_set_curr idle_proc (ks s4)\<rparr>;
       (icarsh, s6) \<leftarrow> process_spawn b (ICARSH @ [0]) s5;
       if icarsh = 0 then Some (panic ''Failed to initialize ICARSH'' [], disp, s6)
       else do {
         let s7 = s6\<lparr>ks := tty_set_foreground icarsh (ks s6)\<rparr>;
         y \<leftarrow> proc_at (ks s7) icarsh;
         s8 \<leftarrow> ks_call (call_add (add_cb scheduler) (tasks y ! 0)) s7;
         (log, v) \<leftarrow> motd b timezone_offset (vfs s8);
         Some ((log, Returned), vbe_clear VBE_COLOR_BLACK disp, s8\<lparr>vfs := v\<rparr>) } } }"

section \<open>What the loader writes\<close>

datatype boot_tag = Memory_map "(multiboot_memory_map \<times> u32 \<times> u32) list"
  | Framebuffer_info u64 u32 u32 u32 u8 "u8 list" | Other_tag u32 "u8 list"

text \<open>An entry of the memory map is given with the code of its type and its reserved field.\<close>

definition mmap_entry_bytes :: "multiboot_memory_map \<times> u32 \<times> u32 \<Rightarrow> u8 list" where
  "mmap_entry_bytes = (\<lambda>(e, code, zero). le32 (addr_low e) @ le32 (addr_high e) @ le32 (len_low e) @ le32 (len_high e) @ le32 code @ le32 zero)"

fun tag_code :: "boot_tag \<Rightarrow> u32" where
  "tag_code (Memory_map es) = 6"
| "tag_code (Framebuffer_info a p w h b rest) = 8"
| "tag_code (Other_tag n bs) = n"

fun tag_payload :: "boot_tag \<Rightarrow> u8 list" where
  "tag_payload (Memory_map es) = le32 24 @ le32 0 @ concat (map mmap_entry_bytes es)"
| "tag_payload (Framebuffer_info a p w h b rest) = le32 (ucast a) @ le32 (ucast (drop_bit 32 a)) @ le32 p @ le32 w @ le32 h @ [b] @ rest"
| "tag_payload (Other_tag n bs) = bs"

definition tag_bytes :: "boot_tag \<Rightarrow> u8 list" where
  "tag_bytes t = (let n = 8 + length (tag_payload t) in
     le32 (tag_code t) @ le32 (of_nat n) @ tag_payload t @ replicate ((n + 7) div 8 * 8 - n) 0)"

definition info_bytes :: "boot_tag list \<Rightarrow> u8 list" where
  "info_bytes ts = concat (map tag_bytes ts) @ le32 0 @ le32 8"

fun tag_wf :: "boot_tag \<Rightarrow> bool" where
  "tag_wf (Memory_map es) \<longleftrightarrow> (\<forall>(e, code, z) \<in> set es. mtype e = memory_type code)"
| "tag_wf (Framebuffer_info a p w h b rest) \<longleftrightarrow> True"
| "tag_wf (Other_tag n bs) \<longleftrightarrow> n \<notin> {0, 6, 8}"

text \<open>What the kernel takes from the tags.\<close>

fun take_tag :: "boot_tag \<Rightarrow> pfa \<times> vbe \<Rightarrow> (pfa \<times> vbe) option" where
  "take_tag (Memory_map es) s = map_option (\<lambda>p. (p, snd s)) (init_mmap (map fst es) (fst s))"
| "take_tag (Framebuffer_info a p w h b rest) s = Some (fst s, vbe_init 0xE0000000 w h p (ucast b) (snd s))"
| "take_tag (Other_tag n bs) s = Some s"

fun take_tags :: "boot_tag list \<Rightarrow> pfa \<times> vbe \<Rightarrow> (pfa \<times> vbe) option" where
  "take_tags [] s = Some s"
| "take_tags (t # ts) s = do { s' \<leftarrow> take_tag t s; take_tags ts s' }"

section \<open>The walk over the tags\<close>

lemma lies_le32: "lies_at m a (le32 w @ bs) \<Longrightarrow> ld32 m a = w \<and> lies_at m (a + 4) bs"
proof -
  assume a: "lies_at m a (le32 w @ bs)"
  then have "m a = le32 w ! 0" "m (a + 1) = le32 w ! 1" "m (a + 2) = le32 w ! 2" "m (a + 3) = le32 w ! 3" "lies_at m (a + 4) bs"
    by (simp_all add: le32_def algebra_simps)
  then show ?thesis using word32_le32 [of w] by (simp add: ld32_def le32_def)
qed

lemma length_mmap_entry_bytes [simp]: "length (mmap_entry_bytes e) = 24"
  by (simp add: mmap_entry_bytes_def split: prod.splits)

lemma length_entries: "length (concat (map mmap_entry_bytes es)) = 24 * length es"
  by (induction es) auto

lemma entry_lies:
  assumes "lies_at m a (mmap_entry_bytes (e, code, z) @ bs)" "mtype e = memory_type code"
  shows "mmap_entry_at m a = e" "lies_at m (a + 24) bs"
  using assms by (auto simp: mmap_entry_bytes_def mmap_entry_at_def algebra_simps dest!: lies_le32)

lemma unat_ahead: "unat (p :: u32) + n < 2 ^ 32 \<Longrightarrow> unat (p + of_nat n) = unat p + n"
  by (simp only: unat_word_ariths) (simp add: unat_of_nat_small)

lemma mmap_walk_entries:
  "lies_at m p (concat (map mmap_entry_bytes es) @ rest) \<Longrightarrow> \<forall>(e, code, z) \<in> set es. mtype e = memory_type code \<Longrightarrow>
   mmap_entry_size m tag = 24 \<Longrightarrow> unat p + 24 * length es < 2 ^ 32 \<Longrightarrow> tag + tag_size m tag = p + of_nat (24 * length es) \<Longrightarrow>
   mmap_walk m tag p = Some (map fst es)"
proof (induction es arbitrary: p)
  case Nil
  then show ?case by (simp add: mmap_walk.simps)
next
  case (Cons x es)
  obtain e code z where x: "x = (e, code, z)" by (cases x) auto
  have l: "mmap_entry_at m p = e" "lies_at m (p + 24) (concat (map mmap_entry_bytes es) @ rest)"
    using entry_lies [of m p e code z] Cons.prems(1,2) by (auto simp: x)
  have u: "unat (p + 24) = unat p + 24" using Cons.prems(4) by (simp add: unat_word_ariths)
  have "unat (p + of_nat (24 * length (x # es))) = unat p + 24 * length (x # es)"
    by (rule unat_ahead [OF Cons.prems(4)])
  then have lt: "p < tag + tag_size m tag" by (simp only: word_less_nat_alt Cons.prems(5)) simp
  have "mmap_walk m tag (p + 24) = Some (map fst es)"
    using Cons.prems(2-4) u by (intro Cons.IH [OF l(2)]) (auto simp: Cons.prems(5))
  with lt l(1) Cons.prems(3) show ?case by (subst mmap_walk.simps) (simp add: x)
qed

lemma length_tag_bytes: "length (tag_bytes t) = (8 + length (tag_payload t) + 7) div 8 * 8"
  by (simp add: tag_bytes_def Let_def)

lemma tag_fields:
  assumes "lies_at m a (tag_bytes t @ bs)" and "length (tag_bytes t) < 2 ^ 32 - 8"
  shows "tag_type m a = tag_code t" "tag_size m a = of_nat (8 + length (tag_payload t))"
    "lies_at m (a + 8) (tag_payload t @ replicate ((15 + length (tag_payload t)) div 8 * 8 - (8 + length (tag_payload t))) 0 @ bs)"
    "(tag_size m a + 7) AND NOT 7 = of_nat (length (tag_bytes t))"
proof -
  let ?n = "8 + length (tag_payload t)"
  have l: "lies_at m a (le32 (tag_code t) @ le32 (of_nat ?n) @ tag_payload t @ replicate ((?n + 7) div 8 * 8 - ?n) 0 @ bs)"
    using assms(1) by (simp add: tag_bytes_def Let_def)
  then show t: "tag_type m a = tag_code t" using lies_le32 by (auto simp: tag_type_def)
  from lies_le32 [OF l] have l2: "lies_at m (a + 4) (le32 (of_nat ?n) @ tag_payload t @ replicate ((?n + 7) div 8 * 8 - ?n) 0 @ bs)" by simp
  then show s: "tag_size m a = of_nat ?n" using lies_le32 by (auto simp: tag_size_def)
  from lies_le32 [OF l2] show "lies_at m (a + 8) (tag_payload t @ replicate ((15 + length (tag_payload t)) div 8 * 8 - ?n) 0 @ bs)"
    by (simp add: algebra_simps)
  have "unat (of_nat ?n + 7 :: u32) = ?n + 7"
    using assms(2) by (simp add: length_tag_bytes unat_word_ariths unat_of_nat_small)
  then have "unat ((tag_size m a + 7) AND NOT 7) = ?n + 7 - (?n + 7) mod 2 ^ 3"
    using unat_and_not_mask [of "of_nat ?n + 7 :: u32" 3] by (simp add: s mask_numeral)
  also have "\<dots> = length (tag_bytes t)" by (simp add: length_tag_bytes minus_mod_eq_div_mult)
  finally have e: "unat ((tag_size m a + 7) AND NOT 7) = length (tag_bytes t)" .
  show "(tag_size m a + 7) AND NOT 7 = of_nat (length (tag_bytes t))" by (simp only: e [symmetric] of_nat_unat ucast_id)
qed

lemma init_fb_tag:
  assumes "lies_at m (a + 8) (tag_payload (Framebuffer_info fa p w h b rest) @ bs)"
  shows "init_fb m a v = vbe_init 0xE0000000 w h p (ucast b) v"
proof -
  have "ld32 m (a + 16) = p \<and> ld32 m (a + 20) = w \<and> ld32 m (a + 24) = h \<and> m (a + 28) = b"
    using assms by (auto simp: algebra_simps dest!: lies_le32)
  then show ?thesis by (simp add: init_fb_def konst)
qed

lemma init_mmap_tag_entries:
  assumes "lies_at m (a + 8) (tag_payload (Memory_map es) @ bs)" "tag_wf (Memory_map es)"
    "tag_size m a = of_nat (8 + length (tag_payload (Memory_map es)))" "unat a + 16 + 24 * length es < 2 ^ 32"
  shows "init_mmap_tag m a p = init_mmap (map fst es) p"
proof -
  have l: "mmap_entry_size m a = 24" "lies_at m (a + 16) (concat (map mmap_entry_bytes es) @ bs)"
    using assms(1) by (auto simp: mmap_entry_size_def algebra_simps dest!: lies_le32)
  have p: "unat (a + 16) = unat a + 16" using unat_ahead [of a 16] assms(4) by simp
  have e: "a + tag_size m a = a + 16 + of_nat (24 * length es)" by (simp add: assms(3) length_entries)
  have "mmap_walk m a (a + 16) = Some (map fst es)"
    using assms(2,4) by (intro mmap_walk_entries [OF l(2) _ l(1) _ e]) (simp_all add: p)
  then show ?thesis by (simp add: init_mmap_tag_def mmap_entries_def)
qed

text \<open>The walk takes what the tags say, one after the other.\<close>

lemma tag_walk_step:
  assumes "lies_at m a (tag_bytes t @ bs)" "tag_wf t" "unat a + length (tag_bytes t) < 2 ^ 32 - 8"
  shows "tag_walk m a s = do { s' \<leftarrow> take_tag t s; tag_walk m (a + of_nat (length (tag_bytes t))) s' }"
    and "lies_at m (a + of_nat (length (tag_bytes t))) bs"
proof -
  show "lies_at m (a + of_nat (length (tag_bytes t))) bs" using assms(1) by (simp add: lies_at_append)
  have len: "length (tag_bytes t) < 2 ^ 32 - 8" using assms(3) by simp
  note f = tag_fields [OF assms(1) len]
  have "(if tag_type m a = MULTIBOOT_TAG_TYPE_FRAMEBUFFER then Some (fst s, init_fb m a (snd s))
      else if tag_type m a = MULTIBOOT_TAG_TYPE_MMAP then map_option (\<lambda>p. (p, snd s)) (init_mmap_tag m a (fst s)) else Some s) = take_tag t s"
  proof (cases t)
    case (Memory_map es)
    then have "unat a + 16 + 24 * length es < 2 ^ 32" using assms(3) by (simp add: length_tag_bytes length_entries)
    then show ?thesis using init_mmap_tag_entries [of m a es] f assms(2) by (simp add: Memory_map konst)
  next
    case (Framebuffer_info x1 x2 x3 x4 x5 x6)
    then show ?thesis using init_fb_tag f(1,3) by (simp add: konst)
  next
    case (Other_tag n bs)
    then show ?thesis using f(1) assms(2) by (simp add: konst)
  qed
  moreover have "tag_type m a \<noteq> MULTIBOOT_TAG_TYPE_END" using f(1) assms(2) by (cases t) (auto simp: konst)
  ultimately show "tag_walk m a s = do { s' \<leftarrow> take_tag t s; tag_walk m (a + of_nat (length (tag_bytes t))) s' }"
    by (subst tag_walk.simps) (simp only: f(4) if_False cong: if_cong)
qed

lemma tag_walk_takes:
  "lies_at m a (info_bytes ts) \<Longrightarrow> \<forall>t \<in> set ts. tag_wf t \<Longrightarrow> unat a + length (info_bytes ts) < 2 ^ 32 \<Longrightarrow> tag_walk m a s = take_tags ts s"
proof (induction ts arbitrary: a s)
  case Nil
  then have "tag_type m a = 0" using lies_le32 [of m a 0] by (simp add: info_bytes_def tag_type_def)
  then show ?case by (subst tag_walk.simps) (simp add: konst)
next
  case (Cons t ts)
  let ?n = "length (tag_bytes t)"
  have l: "lies_at m a (tag_bytes t @ info_bytes ts)" using Cons.prems(1) by (simp add: info_bytes_def)
  have n: "unat a + ?n < 2 ^ 32 - 8" "unat a + ?n + length (info_bytes ts) < 2 ^ 32"
    using Cons.prems(3) by (simp_all add: info_bytes_def)
  have u: "unat (a + of_nat ?n) = unat a + ?n" using n(2) by (intro unat_ahead) simp
  have "tag_walk m (a + of_nat ?n) s' = take_tags ts s'" for s'
    using Cons.prems(2) n(2) tag_walk_step(2) [OF l _ n(1)] by (intro Cons.IH) (simp_all add: u)
  then show ?case using tag_walk_step(1) [OF l _ n(1)] Cons.prems(2) by simp
qed

text \<open>What the tags say is always taken, and once the frames of the kernel and the framebuffer are in use, they stay so.\<close>

definition reserved :: "pfa \<Rightarrow> bool" where [invs]:
  "reserved p \<longleftrightarrow> pfa_inv p \<and> {0..11} \<union> {1012} \<subseteq> used_frames p"

lemma take_tags_reserved: "reserved (fst s) \<Longrightarrow> \<exists>s'. take_tags ts s = Some s' \<and> reserved (fst s')"
proof (induction ts arbitrary: s)
  case Nil
  then show ?case by simp
next
  case (Cons t ts)
  have "\<exists>s'. take_tag t s = Some s' \<and> reserved (fst s')"
    using init_mmap_reserves [of "fst s"] Cons.prems unfolding reserved_def by (cases t) auto
  then show ?case using Cons.IH by fastforce
qed

lemma take_tags_total: "pfa_inv (fst s) \<Longrightarrow> \<exists>s'. take_tags ts s = Some s' \<and> pfa_inv (fst s')"
proof (induction ts arbitrary: s)
  case Nil
  then show ?case by simp
next
  case (Cons t ts)
  have "\<exists>s'. take_tag t s = Some s' \<and> pfa_inv (fst s')"
    using init_mmap_reserves [OF Cons.prems] Cons.prems by (cases t) auto
  then show ?case using Cons.IH by fastforce
qed

text \<open>C34: boot information that the loader writes is read back: the kernel takes from the bytes of any sequence of tags exactly what
  the tags say, one after the other, logs what is wrong with the magic number and the alignment, and always comes to the end.\<close>

theorem boot_information_read:
  assumes "lies_at m (p2v addr + 8) (info_bytes ts)" "\<forall>t \<in> set ts. tag_wf t"
    "unat (p2v addr + 8) + length (info_bytes ts) < 2 ^ 32" "pfa_inv p"
  shows "\<exists>p' v'. take_tags ts (p, v) = Some (p', v') \<and> pfa_inv p'
    \<and> read_multiboot2 m magic addr (p, v) = Some (check_multiboot2_magic magic @ check_multiboot2_alignment addr, p', v')"
proof -
  obtain p' v' where t: "take_tags ts (p, v) = Some (p', v')" "pfa_inv p'"
    using take_tags_total [of "(p, v)" ts] assms(4) by auto
  then show ?thesis using tag_walk_takes [OF assms(1-3)] by (simp add: read_multiboot2_def Let_def)
qed

lemma lies_at_image: "length bs < 2 ^ 32 \<Longrightarrow> lies_at (\<lambda>x. bs ! unat (x - a)) a bs"
  by (simp add: lies_at_def unat_of_nat_small)

definition info0 :: "boot_tag list" where
  "info0 = [Other_tag 1 [0x41, 0], Framebuffer_info 0xFD000000 3200 800 600 32 [1, 0, 0],
     Memory_map [(\<lparr>addr_low = 0x1000000, addr_high = 0, len_low = 0x800000, len_high = 0, mtype = MULTIBOOT_MEMORY_AVAILABLE\<rparr>, 1, 0)]]"

lemma boot_information_read_witness:
  "\<exists>p' v'. read_multiboot2 (\<lambda>x. info_bytes info0 ! unat (x - (p2v 0x9000 + 8))) 0x36D76289 0x9000 (pfa_one_free, vbe_display0) = Some ([], p', v')
    \<and> pfa_inv p' \<and> width v' = 800 \<and> height v' = 600 \<and> pitch v' = 3200 \<and> bpp v' = 32"
proof -
  let ?m = "\<lambda>x. info_bytes info0 ! unat (x - (p2v 0x9000 + 8))"
  have n: "length (info_bytes info0) = 96"
    by (simp add: info_bytes_def info0_def length_tag_bytes length_entries)
  have w: "\<forall>t \<in> set info0. tag_wf t" by (simp add: info0_def memory_type_def)
  have a: "unat (p2v 0x9000 + 8) + length (info_bytes info0) < 2 ^ 32" by (simp add: n p2v_def konst)
  obtain p' v' where t: "take_tags info0 (pfa_one_free, vbe_display0) = Some (p', v')" "pfa_inv p'"
    and r: "read_multiboot2 ?m 0x36D76289 0x9000 (pfa_one_free, vbe_display0)
      = Some (check_multiboot2_magic 0x36D76289 @ check_multiboot2_alignment 0x9000, p', v')"
    using boot_information_read [OF lies_at_image w a pfa_one_free_inv, of vbe_display0 "0x36D76289"] by (auto simp: n)
  have "check_multiboot2_magic 0x36D76289 @ check_multiboot2_alignment 0x9000 = []"
    by (simp add: check_multiboot2_magic_def check_multiboot2_alignment_def konst)
  moreover from t(1) have "v' = vbe_init 0xE0000000 800 600 3200 32 vbe_display0"
    by (auto simp: info0_def split: bind_splits)
  ultimately show ?thesis using r t(2) by (simp add: vbe_init_def)
qed

section \<open>Waiting and the first process\<close>

lemma sleep_loop_ends:
  "n \<le> k \<Longrightarrow> ucast end_ticks \<le> reads k \<Longrightarrow> \<forall>j. n \<le> j \<and> j < k \<longrightarrow> reads j < ucast end_ticks \<Longrightarrow> sleep_loop reads end_ticks n = Some (k + 1)"
proof (induction "k - n" arbitrary: n)
  case 0
  then show ?case by (subst sleep_loop.simps) (auto simp: not_less)
next
  case (Suc d)
  then have "reads n < ucast end_ticks" "sleep_loop reads end_ticks (n + 1) = Some (k + 1)" by auto
  then show ?case by (subst sleep_loop.simps) simp
qed

text \<open>The wait ends with the first reading at or behind its end, as long as neither product nor end exceeds 32 bits.\<close>

theorem sleep_waits:
  assumes "unat ms * unat freq < 2 ^ 32" "unat (reads 0) + unat ms * unat freq div 1000 < 2 ^ 32" "1 \<le> k"
    "unat (reads 0) + unat ms * unat freq div 1000 \<le> unat (reads k)"
    "\<forall>j. 1 \<le> j \<and> j < k \<longrightarrow> unat (reads j) < unat (reads 0) + unat ms * unat freq div 1000"
  shows "sleep freq ms reads = Some (k + 1)"
proof -
  let ?w = "unat ms * unat freq div 1000"
  have w: "unat ((ms * freq) div 1000) = ?w" using unat_mult_lem [THEN iffD1, of ms freq] assms(1) by (simp add: unat_div)
  have e: "unat (ucast (ucast (reads 0 + ucast ((ms * freq) div 1000)) :: u32) :: u64) = unat (reads 0) + ?w"
    using assms(1,2) by (simp add: unsigned_ucast_eq take_bit_eq_mod unat_word_ariths)
  show ?thesis unfolding sleep_def Let_def
    using assms(3-5) by (intro sleep_loop_ends) (simp_all add: word_le_nat_alt word_less_nat_alt e)
qed

text \<open>From tick \<open>2 ^ 32\<close> on it does not wait at all.\<close>

theorem sleep_ends_at_once: "2 ^ 32 \<le> reads 1 \<Longrightarrow> sleep freq ms reads = Some 2"
proof -
  assume a: "2 ^ 32 \<le> reads 1"
  have "ucast end_ticks \<le> reads 1" for end_ticks :: u32
  proof -
    have "unat end_ticks < 2 ^ 32" using unat_bound [of end_ticks] by simp
    then show ?thesis using a by (simp add: word_le_nat_alt unsigned_ucast_eq take_bit_eq_mod)
  qed
  then show ?thesis unfolding sleep_def Let_def by (subst sleep_loop_ends [where k = 1]) simp_all
qed

text \<open>When the first process cannot be created, the kernel uses the null pointer before it tests it.\<close>

lemma bootstrap_uses_null:
  assumes "kmalloc sizeof_scheduler (kheap_of s) = Some (p, h)" "p \<noteq> 0"
    "process_kspawn kidle (KIDLE @ [0]) ((upd_kheap (\<lambda>_. h) s)\<lparr>ks := scheduler_select (Some (rr_init stale)) (ks s)\<rparr>) = Some (0, s3)"
  shows "bootstrap b stale kidle timezone_offset disp s = None"
  using assms by (simp add: bootstrap_def scheduler_create_def Let_def upd_kheap_def proc_at_def)

end
