(* ===== verification/Interrupt.thy ===== *)
theory Interrupt
  imports Sched Input
begin

text \<open>
  The hardware interrupts of \<open>arch/x86/idt.c\<close>: timer, keyboard, mouse and the default handler, on the state they share: the
  scheduler, the keyboard buffers of the processes, the mouse buffer, the timer and the devices behind the ports. Interrupts
  arrive in any order, which is a step relation; the theory shows what every sequence of them keeps, and which entry of the
  interrupt table leads where after the initialisation of \<open>kmain\<close>.
\<close>

unbundle bit_operations_syntax

section \<open>Handlers\<close>

record 'd machine =
  mk :: kstate
  mtimer :: timer
  kbd_fifos :: "ptr \<rightharpoonup> fifo"
  fifo_mouse :: fifo
  mdev :: 'd

text \<open>Besides the state the timer handler delivers the registers of the task it enters, when it enters one.\<close>

definition irq0_handler :: "'d bus \<Rightarrow> interrupt_frame \<Rightarrow> 'd machine \<Rightarrow> ('d machine \<times> task_registers option) option" where
  "irq0_handler b frame m = (let
     m1 = m\<lparr>mtimer := (mtimer m)\<lparr>ticks := ticks (mtimer m) + 1\<rparr>\<rparr>;
     m2 = m1\<lparr>mdev := pic1_send_eoi b (mdev m1)\<rparr>
   in do { (k, r) \<leftarrow> scheduler_schedule (Some frame) (mk m2); Some (m2\<lparr>mk := k\<rparr>, r) })"

definition irq1_handler :: "'d bus \<Rightarrow> interrupt_frame \<Rightarrow> 'd machine \<Rightarrow> 'd machine option" where
  "irq1_handler b frame m = (let (r, d1) = ps2_wait b PS2_BUFFER_OUTPUT (mdev m) in do {
     m1 \<leftarrow> (if r = 0 then
         let (scancode, d2) = inb b (ucast PS2_DATA_PORT) d1;
             fg_proc = tty_get_foreground (mk m)
         in do {
           fifos \<leftarrow> (if fg_proc = 0 then Some (kbd_fifos m) else do {
               p \<leftarrow> proc_at (mk m) fg_proc;
               if keyboard_buffer p = 0 then Some (kbd_fifos m) else do {
                 q \<leftarrow> kbd_fifos m (keyboard_buffer p);
                 q' \<leftarrow> snd (fifo_enqueue (Some q) scancode);
                 Some ((kbd_fifos m)(keyboard_buffer p \<mapsto> q')) } });
           k \<leftarrow> wq_wakeup WAIT_KEYBOARD (mk m);
           Some (m\<lparr>mk := k, kbd_fifos := fifos, mdev := d2\<rparr>) }
       else Some (m\<lparr>mdev := d1\<rparr>));
     Some (m1\<lparr>mdev := pic1_send_eoi b (mdev m1)\<rparr>) })"

definition irq12_handler :: "'d bus \<Rightarrow> 'd machine \<Rightarrow> 'd machine" where
  "irq12_handler b m = (let (r, d1) = ps2_wait b PS2_BUFFER_OUTPUT (mdev m);
     m1 = (if r = 0 then
         let (data, d2) = inb b (ucast PS2_DATA_PORT) d1;
             q = (case snd (fifo_enqueue (Some (fifo_mouse m)) data) of Some q \<Rightarrow> q | None \<Rightarrow> fifo_mouse m)
         in m\<lparr>fifo_mouse := q, mdev := d2\<rparr>
       else m\<lparr>mdev := d1\<rparr>)
   in m1\<lparr>mdev := pic2_send_eoi b (mdev m1)\<rparr>)"

definition isr_default_handler :: "'d bus \<Rightarrow> 'd machine \<Rightarrow> 'd machine" where
  "isr_default_handler b m = m\<lparr>mdev := pic1_send_eoi b (mdev m)\<rparr>"

text \<open>One interrupt, and any number of them.\<close>

inductive irq_step :: "'d bus \<Rightarrow> 'd machine \<Rightarrow> 'd machine \<Rightarrow> bool" for b where
  timer: "irq0_handler b frame m = Some (m', r) \<Longrightarrow> irq_step b m m'"
| keyboard: "irq1_handler b frame m = Some m' \<Longrightarrow> irq_step b m m'"
| mouse: "irq_step b m (irq12_handler b m)"
| other: "irq_step b m (isr_default_handler b m)"

section \<open>What the scheduler leaves alone\<close>

definition env :: "kstate \<Rightarrow> (ptr \<rightharpoonup> process) \<times> scheduler option \<times> ptr" where
  "env s = (proc_store s, curr_scheduler s, foreground_process s)"

lemma env_upd [simp]:
  "env (s\<lparr>ready_queue := q\<rparr>) = env s" "env (s\<lparr>wait_queue := q\<rparr>) = env s" "env (s\<lparr>errno := e\<rparr>) = env s"
  "env (s\<lparr>curr_task := p\<rparr>) = env s" "env (s\<lparr>curr_process := p\<rparr>) = env s" "env (s\<lparr>cr3 := c\<rparr>) = env s"
  "env (set_task p t s) = env s"
  by (simp_all add: env_def set_task_def)

lemma enqueue_env:
  "rr_enqueue p s = Some s' \<Longrightarrow> env s' = env s \<and> curr_task s' = curr_task s \<and> task_at s' = task_at s"
  "wq_enqueue p s = Some s' \<Longrightarrow> env s' = env s \<and> curr_task s' = curr_task s \<and> task_at s' = task_at s"
  by (auto simp: rr_enqueue_def wq_enqueue_def)

lemma dequeue_env:
  "rr_dequeue s = (p, s') \<Longrightarrow> env s' = env s \<and> curr_task s' = curr_task s \<and> task_at s' = task_at s"
  "wq_dequeue s = (p, s') \<Longrightarrow> env s' = env s \<and> curr_task s' = curr_task s \<and> task_at s' = task_at s"
  by (auto simp: rr_dequeue_def wq_dequeue_def split: prod.splits)

lemma wq_wakeup_loop_env: "wq_wakeup_loop i reason s = Some s' \<Longrightarrow> env s' = env s \<and> curr_task s' = curr_task s"
proof (induction i arbitrary: s)
  case (Suc i)
  obtain p s1 where d: "wq_dequeue s = (p, s1)" by (cases "wq_dequeue s")
  have unblock: "task_set_unblock p s1 = Some k \<Longrightarrow> env k = env s1 \<and> curr_task k = curr_task s1" for k
    by (auto simp: task_set_unblock_def split: if_splits bind_splits)
  have add: "call_add f p k = Some k' \<Longrightarrow> env k' = env k \<and> curr_task k' = curr_task k" for f k k'
    using enqueue_env(1) by (auto simp: call_add_def rr_add_def split: if_splits)
  from Suc.prems d obtain s2 where "env s2 = env s1 \<and> curr_task s2 = curr_task s1" "wq_wakeup_loop i reason s2 = Some s'"
    by (auto split: bind_splits if_splits dest!: unblock add enqueue_env(2))
  with Suc.IH dequeue_env(2) [OF d] show ?case by auto
qed simp

lemma task_switch_env:
  assumes "task_switch n s = Some (s', r)"
  shows "env s' = env s" "n \<noteq> 0 \<Longrightarrow> curr_task s' = n" "p \<noteq> n \<Longrightarrow> task_at s' p = task_at s p"
  using assms by (auto simp: task_switch_def Let_def task_restore_dir_def process_set_curr_def task_set_curr_def task_at_def
      set_task_def env_def split: if_splits bind_splits)

lemma rr_yield_env:
  assumes "rr_yield (Some f) s = Some (s', r)" "curr_task s \<noteq> 0"
  shows "env s' = env s" "p \<noteq> curr_task s \<Longrightarrow> p \<noteq> curr_task s' \<Longrightarrow> task_at s' p = task_at s p"
proof -
  let ?c = "curr_task s"
  obtain t where t: "task_at s ?c = Some t"
    using assms by (auto simp: rr_yield_def task_get_curr_def task_save_def split: bind_splits)
  define s0 where "s0 st = set_task ?c (t\<lparr>registers := regs_of_frame f, state := st\<rparr>) s" for st
  have "set_task ?c (t\<lparr>registers := regs_of_frame f\<rparr>) s = s0 (state t)" by (simp add: s0_def)
  then obtain s1 where s1': "rr_enqueue ?c (s0 TASK_STATE_READY) = Some s1 \<or> s1 = s0 (state t)"
      "(let (n, s3) = rr_dequeue s1 in task_switch n s3) = Some (s', r)"
    using assms t by (auto simp: rr_yield_def task_get_curr_def task_save_def s0_def set_task_def task_at_def
        split: bind_splits if_splits)
  then have s1: "env s1 = env s" "\<And>p. p \<noteq> ?c \<Longrightarrow> task_at s1 p = task_at s p"
    using assms(2) by (auto simp: s0_def dest: enqueue_env(1))
  obtain n s3 where s3: "rr_dequeue s1 = (n, s3)" "task_switch n s3 = Some (s', r)" using s1'(2) by (auto split: prod.splits)
  note d = dequeue_env(1) [OF s3(1)]
  show "env s' = env s" using task_switch_env(1) [OF s3(2)] d s1(1) by simp
  show "task_at s' p = task_at s p" if p: "p \<noteq> ?c" "p \<noteq> curr_task s'"
  proof (cases "n = 0")
    case True
    then show ?thesis using s3(2) d s1(2) [OF p(1)] by (simp add: task_switch_def)
  next
    case False
    then show ?thesis using task_switch_env(2,3) [OF s3(2)] d s1(2) [OF p(1)] p(2) by auto
  qed
qed

section \<open>Invariant\<close>

text \<open>A running and some ready tasks and some waiting tasks, all of them of processes; round robin is the scheduler.\<close>

definition tasks_ok :: "kstate \<Rightarrow> bool" where [invs]:
  "tasks_ok k \<longleftrightarrow> sched_ok k \<and> wait_ok k
     \<and> (\<forall>p \<in> set (wait_list k). \<exists>t x. task_at k p = Some t \<and> proc_at k (parent t) = Some x)
     \<and> (\<exists>sch. curr_scheduler k = Some sch \<and> yield_cb sch = Some FN_rr_yield)"

text \<open>The process in the foreground has a keyboard buffer or none, and every buffer is a well-formed queue.\<close>

definition machine_ok :: "'d machine \<Rightarrow> bool" where [invs]:
  "machine_ok m \<longleftrightarrow> tasks_ok (mk m)
     \<and> (foreground_process (mk m) = 0 \<or> (\<exists>x. proc_at (mk m) (foreground_process (mk m)) = Some x
          \<and> (keyboard_buffer x = 0 \<or> kbd_fifos m (keyboard_buffer x) \<noteq> None)))
     \<and> (\<forall>a q. kbd_fifos m a = Some q \<longrightarrow> fifo_inv q) \<and> fifo_inv (fifo_mouse m)"

lemma env_eqD: "env s' = env s \<Longrightarrow> proc_at s' = proc_at s \<and> curr_scheduler s' = curr_scheduler s
    \<and> foreground_process s' = foreground_process s"
  by (simp add: env_def proc_at_def fun_eq_iff)

text \<open>Waiting tasks are neither current nor ready.\<close>

lemma waiting_not_ready:
  assumes "sched_ok k" "wait_ok k" "p \<in> set (wait_list k)"
  shows "p \<notin> set (curr_task k # ready_list k)"
proof
  assume "p \<in> set (curr_task k # ready_list k)"
  with assms(1) obtain t where "task_at k p = Some t" "state t \<noteq> TASK_STATE_BLOCK"
    unfolding sched_ok_def by (metis task_state.distinct)
  with assms(2,3) show False by (auto simp: wait_ok_def)
qed

lemma yield_tasks_ok:
  assumes "tasks_ok k"
  shows "\<exists>k' r. rr_yield (Some f) k = Some (k', r) \<and> tasks_ok k' \<and> env k' = env k"
proof -
  have s: "sched_ok k" "wait_ok k" using assms by (simp_all add: tasks_ok_def)
  obtain k' r where k': "rr_yield (Some f) k = Some (k', Some r)" "sched_ok k'"
      "curr_task k' # ready_list k' = take RR_MAX (ready_list k @ [curr_task k])" "wait_list k' = wait_list k"
    using rr_yield_step [OF s(1), of f] by blast
  have "task_at k (curr_task k) \<noteq> None" using s(1) by (auto simp: sched_ok_def)
  then have c: "curr_task k \<noteq> 0" by (auto simp: task_at_def split: if_splits)
  note e = rr_yield_env(1) [OF k'(1) c] and fr = rr_yield_env(2) [OF k'(1) c]
  have "curr_task k' \<in> set (take RR_MAX (ready_list k @ [curr_task k]))" by (metis k'(3) list.set_intros(1))
  then have "curr_task k' \<in> set (curr_task k # ready_list k)" by (auto dest: in_set_takeD)
  then have "task_at k' p = task_at k p" if "p \<in> set (wait_list k)" for p
    using waiting_not_ready [OF s that] fr [of p] by auto
  moreover have "queues_inv k'" using k'(2) by (simp add: sched_ok_def)
  ultimately have "tasks_ok k'"
    using assms k'(2,4) env_eqD [OF e] by (auto simp: tasks_ok_def wait_ok_def)
  then show ?thesis using k'(1) e by blast
qed

lemma wakeup_tasks_ok:
  assumes "tasks_ok k"
  shows "\<exists>k'. wq_wakeup reason k = Some k' \<and> tasks_ok k' \<and> env k' = env k"
proof -
  have s: "sched_ok k" "wait_ok k" using assms by (simp_all add: tasks_ok_def)
  let ?w = "filter (waits k reason) (wait_list k)"
  obtain k' where k': "wq_wakeup reason k = Some k'" "wait_ok k'" "wait_list k' = filter (\<lambda>p. \<not> waits k reason p) (wait_list k)"
      "ready_list k' = take RR_MAX (ready_list k @ ?w)"
      "\<And>p. task_at k' p = (if p \<in> set (wait_list k) \<and> waits k reason p then map_option woken (task_at k p) else task_at k p)"
    using wq_wakeup_result [OF s(2), of reason] by blast
  have e: "env k' = env k" "curr_task k' = curr_task k" using wq_wakeup_loop_env k'(1) by (simp_all add: wq_wakeup_def)
  note e' = env_eqD [OF e(1)]
  have sub: "set (ready_list k') \<subseteq> set (ready_list k) \<union> set ?w" unfolding k'(4) by (auto dest: in_set_takeD)
  have "distinct (curr_task k # ready_list k @ ?w)"
    using s waiting_not_ready [OF s] by (auto simp: sched_ok_def wait_ok_def)
  then have dist: "distinct (curr_task k' # ready_list k')"
    unfolding e(2) k'(4) by (metis distinct_take take_Suc_Cons)
  have good: "\<exists>t x. task_at k' p = Some t \<and> proc_at k' (parent t) = Some x
      \<and> state t = (if p = curr_task k' then TASK_STATE_RUN else TASK_STATE_READY)" if "p \<in> set (curr_task k' # ready_list k')" for p
  proof (cases "p \<in> set ?w")
    case True
    then have "p \<in> set (wait_list k)" "waits k reason p" "p \<noteq> curr_task k" using waiting_not_ready [OF s] by auto
    moreover obtain t x where "task_at k p = Some t" "proc_at k (parent t) = Some x"
      using assms calculation(1) by (auto simp: tasks_ok_def)
    ultimately show ?thesis by (simp add: k'(5) e(2) e' woken_def)
  next
    case False
    then have "p \<in> set (curr_task k # ready_list k)" "task_at k' p = task_at k p"
      using that sub by (auto simp: e(2) k'(5))
    then show ?thesis using s(1) e' unfolding sched_ok_def e(2) by metis
  qed
  have "sched_ok k'" unfolding sched_ok_def using k'(2) dist good by (auto simp: wait_ok_def)
  moreover have "\<exists>t x. task_at k' p = Some t \<and> proc_at k' (parent t) = Some x" if "p \<in> set (wait_list k')" for p
    using assms that by (auto simp: tasks_ok_def k'(3,5) e')
  ultimately have "tasks_ok k'" using assms k'(2) e' by (simp add: tasks_ok_def)
  then show ?thesis using k'(1) e(1) by blast
qed

text \<open>What a keystroke does to the keyboard buffers.\<close>

definition buffers_after :: "u8 \<Rightarrow> 'd machine \<Rightarrow> (ptr \<rightharpoonup> fifo)" where
  "buffers_after c m = (case proc_at (mk m) (foreground_process (mk m)) of None \<Rightarrow> kbd_fifos m
     | Some x \<Rightarrow> if keyboard_buffer x = 0 then kbd_fifos m
         else (kbd_fifos m)(keyboard_buffer x := map_option (fifo_put c) (kbd_fifos m (keyboard_buffer x))))"

lemma fifo_enqueue_put: "snd (fifo_enqueue (Some q) c) = Some (fifo_put c q)"
  by (auto simp: fifo_put_def fifo_enqueue_def)

lemma irq0_ok:
  assumes "machine_ok m"
  shows "\<exists>m' r. irq0_handler b f m = Some (m', r) \<and> machine_ok m'"
proof -
  obtain k r where "rr_yield (Some f) (mk m) = Some (k, r)" "tasks_ok k" "env k = env (mk m)"
    using assms yield_tasks_ok [of "mk m" f] by (auto simp: machine_ok_def)
  then show ?thesis using assms env_eqD [of k "mk m"]
    by (auto simp: irq0_handler_def scheduler_schedule_def machine_ok_def tasks_ok_def)
qed

lemma irq1_result:
  assumes "machine_ok m" "ps2_wait b PS2_BUFFER_OUTPUT (mdev m) = (0, d1)" "inb b (ucast PS2_DATA_PORT) d1 = (c, d2)"
  obtains k where "irq1_handler b f m = Some (m\<lparr>mk := k, kbd_fifos := buffers_after c m, mdev := pic1_send_eoi b d2\<rparr>)"
    "wq_wakeup WAIT_KEYBOARD (mk m) = Some k" "tasks_ok k" "env k = env (mk m)"
proof -
  obtain k where k: "wq_wakeup WAIT_KEYBOARD (mk m) = Some k" "tasks_ok k" "env k = env (mk m)"
    using assms(1) wakeup_tasks_ok [of "mk m" WAIT_KEYBOARD] by (auto simp: machine_ok_def)
  have "irq1_handler b f m = Some (m\<lparr>mk := k, kbd_fifos := buffers_after c m, mdev := pic1_send_eoi b d2\<rparr>)"
    using assms k(1) by (auto simp: irq1_handler_def machine_ok_def tty_get_foreground_def buffers_after_def fifo_enqueue_put
        proc_at_def)
  with that k show ?thesis by blast
qed

lemma buffers_after_ok:
  assumes "machine_ok m"
  shows "buffers_after c m a = Some q \<Longrightarrow> fifo_inv q" "kbd_fifos m a \<noteq> None \<Longrightarrow> buffers_after c m a \<noteq> None"
  using assms kfifo.enq_inv by (auto simp: buffers_after_def machine_ok_def split: option.splits if_splits)

lemma irq1_ok:
  assumes "machine_ok m"
  shows "\<exists>m'. irq1_handler b f m = Some m' \<and> machine_ok m'"
proof (cases "ps2_wait b PS2_BUFFER_OUTPUT (mdev m)")
  case (Pair r d1)
  obtain c d2 where i: "inb b (ucast PS2_DATA_PORT) d1 = (c, d2)" by (cases "inb b (ucast PS2_DATA_PORT) d1")
  show ?thesis
  proof (cases "r = 0")
    case True
    obtain k where k: "irq1_handler b f m = Some (m\<lparr>mk := k, kbd_fifos := buffers_after c m, mdev := pic1_send_eoi b d2\<rparr>)"
        "tasks_ok k" "env k = env (mk m)"
      using irq1_result [OF assms _ i] Pair True by metis
    then show ?thesis
      using assms buffers_after_ok [OF assms] env_eqD [OF k(3)] by (fastforce simp: machine_ok_def)
  next
    case False
    then show ?thesis using Pair assms by (simp add: irq1_handler_def machine_ok_def)
  qed
qed

lemma irq12_ok: "machine_ok m \<Longrightarrow> machine_ok (irq12_handler b m)"
  by (auto simp: irq12_handler_def machine_ok_def fifo_enqueue_put Let_def kfifo.enq_inv split: prod.splits)

lemma default_ok: "machine_ok m \<Longrightarrow> machine_ok (isr_default_handler b m)"
  by (simp add: isr_default_handler_def machine_ok_def)

lemma irq_step_ok:
  assumes "irq_step b m m'" "machine_ok m"
  shows "machine_ok m'"
  using assms(1)
proof cases
  case (timer frame r)
  then show ?thesis using irq0_ok [OF assms(2), of b frame] by auto
next
  case (keyboard frame)
  then show ?thesis using irq1_ok [OF assms(2), of b frame] by auto
qed (use assms(2) irq12_ok default_ok in auto)

section \<open>Properties\<close>

text \<open>C23: interrupts are safe in any order. From a state in which one task runs, the ready and the waiting tasks are distinct
  tasks of processes in the states their queues ask for and the buffers are well-formed, every sequence of timer, keyboard,
  mouse and other interrupts, with any device behind the ports, leads to such a state again; and there every handler has a
  defined result: no null pointer is followed and no array is left.\<close>

theorem interrupts_keep_invariant:
  assumes "machine_ok m" "(irq_step b)\<^sup>*\<^sup>* m m'"
  shows "machine_ok m' \<and> irq0_handler b f m' \<noteq> None \<and> irq1_handler b f m' \<noteq> None"
proof -
  have "machine_ok m'" using assms(2,1)
  by (induction rule: rtranclp_induct) (auto intro: irq_step_ok)
  then show ?thesis using irq0_ok [of m' b f] irq1_ok [of m' b f] by auto
qed

text \<open>C24: a keystroke. When the controller has a byte, the keyboard interrupt appends it to the keyboard buffer of the process in
  the foreground and to no other, moves exactly the tasks waiting for the keyboard to the end of the ready queue in their order,
  and acknowledges the interrupt at the end; the running task goes on.\<close>

theorem keystroke_is_delivered:
  assumes "machine_ok m" "ps2_wait b PS2_BUFFER_OUTPUT (mdev m) = (0, d1)" "inb b (ucast PS2_DATA_PORT) d1 = (c, d2)"
    "proc_at (mk m) (foreground_process (mk m)) = Some x" "keyboard_buffer x = a" "a \<noteq> 0" "kbd_fifos m a = Some q"
  shows "\<exists>m' q'. irq1_handler b f m = Some m' \<and> kbd_fifos m' = (kbd_fifos m)(a \<mapsto> q')
    \<and> fifo_list q' = take FIFO_BUFFER_SIZE (fifo_list q @ [c])
    \<and> ready_list (mk m') = take RR_MAX (ready_list (mk m) @ filter (waits (mk m) WAIT_KEYBOARD) (wait_list (mk m)))
    \<and> wait_list (mk m') = filter (\<lambda>p. \<not> waits (mk m) WAIT_KEYBOARD p) (wait_list (mk m))
    \<and> curr_task (mk m') = curr_task (mk m) \<and> mdev m' = outb b PIC_1_CTRL PIC_ACK d2"
proof -
  obtain k where k: "irq1_handler b f m = Some (m\<lparr>mk := k, kbd_fifos := buffers_after c m, mdev := pic1_send_eoi b d2\<rparr>)"
      "wq_wakeup WAIT_KEYBOARD (mk m) = Some k"
    using irq1_result [OF assms(1-3)] by metis
  have w: "wait_ok (mk m)" and q: "fifo_inv q" using assms(1,7) by (auto simp: machine_ok_def tasks_ok_def)
  have "curr_task k = curr_task (mk m)" using wq_wakeup_loop_env k(2) by (simp add: wq_wakeup_def)
  moreover have "buffers_after c m = (kbd_fifos m)(a \<mapsto> fifo_put c q)" using assms(4-7) by (simp add: buffers_after_def)
  moreover have "fifo_list (fifo_put c q) = take FIFO_BUFFER_SIZE (fifo_list q @ [c])" using kfifo.enq_take [OF q] by simp
  ultimately show ?thesis
    using k wq_wakeup_result [OF w, of WAIT_KEYBOARD] by (fastforce simp: pic1_send_eoi_def)
qed

text \<open>A machine with the tasks of the scheduler's example, process 1 in the foreground, and a controller that always has a byte.\<close>

definition ready_bus :: "u8 \<Rightarrow> unit bus" where
  "ready_bus c = \<lparr>inb = (\<lambda>p d. (if p = 0x60 then c else 1, d)), inw = (\<lambda>p d. (0, d)), inl = (\<lambda>p d. (0, d)),
     outb = (\<lambda>p v d. d), outw = (\<lambda>p v d. d), outl = (\<lambda>p v d. d)\<rparr>"

definition machine0 :: "unit machine" where
  "machine0 = \<lparr>mk = kstate0\<lparr>proc_store := map_option (\<lambda>x. x\<lparr>keyboard_buffer := 0x500\<rparr>) \<circ> proc_store kstate0\<rparr>,
     mtimer = \<lparr>ticks = 0, hz = 100\<rparr>, kbd_fifos = [0x500 \<mapsto> fifo_kbd0], fifo_mouse = fifo_kbd0, mdev = ()\<rparr>"

lemma ps2_wait_loop_ready:
  "0 < n \<Longrightarrow> inb b (ucast PS2_STATUS_COMMAND_PORT) d = (v, d1) \<Longrightarrow> v AND PS2_BUFFER_OUTPUT \<noteq> 0
    \<Longrightarrow> ps2_wait_loop n b PS2_BUFFER_OUTPUT d = (0, d1)"
  by (cases n) (simp_all add: konst)

lemma ready_bus_facts: "ps2_wait (ready_bus c) PS2_BUFFER_OUTPUT () = (0, ())" "inb (ready_bus c) (ucast PS2_DATA_PORT) () = (c, ())"
  unfolding ps2_wait_def
  by (rule ps2_wait_loop_ready [of _ _ _ 1]) (simp_all add: ready_bus_def konst)

lemma machine0_lists:
  "ready_list (mk machine0) = [2]" "wait_list (mk machine0) = [3]" "queues_inv (mk machine0)" "curr_task (mk machine0) = 1"
  using kstate0_lists by (simp_all add: machine0_def ready_list_def wait_list_def queues_inv_def kstate0_def)

lemma machine0_ok: "machine_ok machine0"
proof -
  have t: "task_at (mk machine0) 1 = Some (task0 TASK_STATE_RUN WAIT_NONE)" "task_at (mk machine0) 2 = Some (task0 TASK_STATE_READY WAIT_NONE)"
      "task_at (mk machine0) 3 = Some (task0 TASK_STATE_BLOCK WAIT_KEYBOARD)"
    by (simp_all add: machine0_def kstate0_def task_at_def)
  have p: "\<exists>x. proc_at (mk machine0) 1 = Some x \<and> keyboard_buffer x = 0x500" "foreground_process (mk machine0) = 1"
    by (simp_all add: machine0_def kstate0_def proc_at_def)
  have s: "\<exists>sch. curr_scheduler (mk machine0) = Some sch \<and> add_cb sch = Some FN_rr_add \<and> yield_cb sch = Some FN_rr_yield"
    by (simp add: machine0_def kstate0_def)
  have b: "kbd_fifos machine0 = [0x500 \<mapsto> fifo_kbd0]" "fifo_mouse machine0 = fifo_kbd0" by (simp_all add: machine0_def)
  have "tasks_ok (mk machine0)"
    unfolding tasks_ok_def sched_ok_def wait_ok_def machine0_lists using machine0_lists(3) t p s by (auto simp: task0_def)
  then show ?thesis using p b by (auto simp: machine_ok_def fifo_kbd0_empty)
qed

theorem interrupts_keep_invariant_witness:
  "machine_ok (irq12_handler (ready_bus 8) (irq12_handler (ready_bus 8) machine0))
   \<and> irq0_handler (ready_bus 8) frame0 (irq12_handler (ready_bus 8) (irq12_handler (ready_bus 8) machine0)) \<noteq> None"
proof -
  have "(irq_step (ready_bus 8))\<^sup>*\<^sup>* machine0 (irq12_handler (ready_bus 8) (irq12_handler (ready_bus 8) machine0))"
    by (meson irq_step.mouse rtranclp.rtrancl_refl rtranclp.rtrancl_into_rtrancl)
  from interrupts_keep_invariant [OF machine0_ok this, of frame0] show ?thesis by blast
qed

theorem keystroke_is_delivered_witness:
  "\<exists>m' q'. irq1_handler (ready_bus 0x1E) frame0 machine0 = Some m' \<and> kbd_fifos m' = [0x500 \<mapsto> q'] \<and> fifo_list q' = [0x1E]
     \<and> ready_list (mk m') = [2, 3] \<and> wait_list (mk m') = []"
proof -
  have p: "proc_at (mk machine0) (foreground_process (mk machine0)) = map_option (\<lambda>x. x\<lparr>keyboard_buffer := 0x500\<rparr>) (proc_store kstate0 1)"
    by (simp add: machine0_def kstate0_def proc_at_def)
  obtain x where x: "proc_at (mk machine0) (foreground_process (mk machine0)) = Some x" "keyboard_buffer x = 0x500"
    unfolding p by (auto simp: kstate0_def)
  have w: "waits (mk machine0) WAIT_KEYBOARD 3"
    by (simp add: waits_def machine0_def kstate0_def task_at_def task0_def)
  have r: "ps2_wait (ready_bus 0x1E) PS2_BUFFER_OUTPUT (mdev machine0) = (0, ())" by (simp add: ready_bus_facts)
  have q: "kbd_fifos machine0 = [0x500 \<mapsto> fifo_kbd0]" by (simp add: machine0_def)
  show ?thesis
    using keystroke_is_delivered [OF machine0_ok r ready_bus_facts(2) x, of fifo_kbd0 frame0] w q
    by (auto simp: machine0_lists fifo_kbd0_empty konst)
qed

section \<open>The interrupt table after the initialisation\<close>

text \<open>The calls of \<open>kmain\<close> that fill the table, in their order.\<close>

definition boot_idt :: "'d bus \<Rightarrow> (isr_entry \<Rightarrow> u32) \<Rightarrow> u32 \<Rightarrow> idt_desc list \<Rightarrow> 'd \<Rightarrow> (timer \<times> idt_desc list \<times> 'd) option" where
  "boot_idt b addr idt_addr t d = (let (t1, reg) = idt_init addr idt_addr t in
     timer_init b addr 100 (mouse_init b addr (kbd_init addr t1, d)))"

definition vector_entry :: "nat \<Rightarrow> isr_entry" where
  "vector_entry v = (if v = 0 then ASM_ISR0 else if v = 1 then ASM_ISR1 else if v = 2 then ASM_ISR2 else if v = 6 then ASM_ISR6
     else if v = 8 then ASM_ISR8 else if v = 12 then ASM_ISR12 else if v = 13 then ASM_ISR13 else if v = 14 then ASM_ISR14
     else if v = 0x20 then ASM_IRQ0_TIMER else if v = 0x21 then ASM_IRQ1_KEYBOARD else if v = 0x2C then ASM_IRQ12_MOUSE
     else if v = 0x80 then ASM_SYSCALL else ASM_INTERRUPT_DEFAULT)"

lemma mouse_init_table: "fst (mouse_init b addr (t, d)) = idt_set 0x2C (addr ASM_IRQ12_MOUSE) IDT_KERNEL_INT_GATE t"
  by (simp add: mouse_init_def Let_def split_beta)

text \<open>The gate a vector is to have.\<close>

definition gates_ok :: "(isr_entry \<Rightarrow> u32) \<Rightarrow> idt_desc list \<Rightarrow> bool" where [invs]:
  "gates_ok addr t \<longleftrightarrow> length t = 256 \<and> (\<forall>v < 256. gate_isr (t ! v) = addr (vector_entry v) \<and> kernel_cs (t ! v) = 0x08
     \<and> attributes (t ! v) AND 0x80 \<noteq> 0 \<and> gate_dpl (t ! v) = (if v = 0x80 then 3 else 0))"

lemma booted_gates:
  assumes "length t = 256"
  shows "gates_ok addr (idt_set 0x20 (addr ASM_IRQ0_TIMER) IDT_KERNEL_INT_GATE
    (idt_set 0x2C (addr ASM_IRQ12_MOUSE) IDT_KERNEL_INT_GATE (kbd_init addr (fst (idt_init addr idt_addr t)))))" (is "gates_ok addr ?t")
proof -
  note d = kbd_init_def idt_init_def Let_def fst_conv
  have l: "length ?t = 256" using assms init_isr_nth(4) [of t 0] by (simp add: d)
  have v: "gate_isr (?t ! v) = addr (vector_entry v)" "kernel_cs (?t ! v) = 0x08"
    "attributes (?t ! v) = (if v = 0x80 then IDT_USER_INT_GATE else IDT_KERNEL_INT_GATE)" if "v < 256" for v
    using assms that init_isr_nth [OF assms that, of addr] by (simp_all add: d idt_set_nth vector_entry_def)
  show ?thesis unfolding gates_ok_def using l v by (auto simp: gate_dpl_def konst)
qed

text \<open>C25: after the initialisation every vector of the interrupt table enters its handler, through a present gate with the
  kernel's code segment; only the system call's gate, \<open>0x80\<close>, may be used by an instruction of a user program.\<close>

theorem only_syscall_gate_is_user:
  assumes "length t = 256"
  shows "\<exists>tm t' d'. boot_idt b addr idt_addr t d = Some (tm, t', d') \<and> length t' = 256
    \<and> (\<forall>v < 256. gate_isr (t' ! v) = addr (vector_entry v) \<and> kernel_cs (t' ! v) = 0x08
          \<and> attributes (t' ! v) AND 0x80 \<noteq> 0 \<and> gate_dpl (t' ! v) = (if v = 0x80 then 3 else 0))"
proof -
  obtain t3 d3 where m: "mouse_init b addr (kbd_init addr (fst (idt_init addr idt_addr t)), d) = (t3, d3)" by fastforce
  then have "t3 = idt_set 0x2C (addr ASM_IRQ12_MOUSE) IDT_KERNEL_INT_GATE (kbd_init addr (fst (idt_init addr idt_addr t)))"
    using mouse_init_table [of b addr] by (metis fst_conv)
  then show ?thesis using booted_gates [OF assms, of addr idt_addr] m
    by (simp add: boot_idt_def timer_init_def gates_ok_def Let_def split_beta)
qed

theorem only_syscall_gate_is_user_witness:
  "\<exists>tm t' d'. boot_idt (ready_bus 0) (\<lambda>e. if e = ASM_SYSCALL then 0xC0101234 else 0xC0100000) 0xC0200000
      (replicate 256 \<lparr>isr_low = 0, kernel_cs = 0, reserved = 0, attributes = 0, isr_high = 0\<rparr>) () = Some (tm, t', d')
    \<and> gate_isr (t' ! 0x80) = 0xC0101234 \<and> gate_dpl (t' ! 0x80) = 3 \<and> gate_dpl (t' ! 0x0E) = 0"
  using only_syscall_gate_is_user [of "replicate 256 \<lparr>isr_low = 0, kernel_cs = 0, reserved = 0, attributes = 0, isr_high = 0\<rparr>"
      "ready_bus 0" "\<lambda>e. if e = ASM_SYSCALL then 0xC0101234 else 0xC0100000" "0xC0200000" "()"]
  by (fastforce simp: vector_entry_def)

end
