(* ===== verification/Kmain.thy ===== *)
theory Kmain
  imports Boot Interrupt
begin

text \<open>
  \<open>kmain\<close> of \<open>kernel.c\<close>: the initialisation of the components in the order of the code, on one state that holds all of them, and
  the invariants that it establishes for the theories of the components. The directory the loader builds is in
  \<open>arch/x86/boot/loader.asm\<close>.
\<close>

unbundle bit_operations_syntax

section \<open>State\<close>

definition GDT_TSS_SEGMENT :: u16 where [konst]: "GDT_TSS_SEGMENT = 0x28"
definition KERNEL_STACK_TOP :: u32 where [konst]: "KERNEL_STACK_TOP = 0xC2C07FFF"
definition MAX_KERNEL_SIZE :: u32 where [konst]: "MAX_KERNEL_SIZE = 0x1000000"

text \<open>What the linker decides: the entries of \<open>idt.asm\<close>, the addresses of the tables, the bounds of the sections, and the idle loop.\<close>

record linkage =
  isr_at :: "isr_entry \<Rightarrow> u32"
  gdt_at :: u32
  tss_at :: u32
  idt_at :: u32
  sections :: "(u32 \<times> u32) list"
  kidle_at :: u32

text \<open>The globals of the kernel; \<open>gdtr\<close>, \<open>idtr\<close> and \<open>task_reg\<close> are what is loaded into the processor, \<open>log\<close> the messages of
  \<open>kernel.c\<close>, \<open>stale\<close> what the memory of the scheduler held before.\<close>

record 'd kernel =
  gdt :: "gdt_entry list"
  gdtr :: table_reg
  tss_seg :: tss
  task_reg :: u16
  idt :: "idt_desc list"
  idtr :: table_reg
  timer_dev :: timer
  display :: "vbe \<times> mem"
  kbd_queue :: fifo
  mouse_queue :: fifo
  ksys :: "'d sys"
  tz_offset :: int
  stale :: scheduler
  log :: klog
  interrupts_on :: bool

abbreviation kvfs :: "'d kernel \<Rightarrow> 'd vfs_state" where "kvfs k \<equiv> vfs (ksys k)"
abbreviation khw :: "'d kernel \<Rightarrow> 'd" where "khw k \<equiv> hw (fsys (kvfs k))"
abbreviation kheap_k :: "'d kernel \<Rightarrow> kheap" where "kheap_k k \<equiv> kheap_of (ksys k)"

definition set_vfs :: "'d vfs_state \<Rightarrow> 'd kernel \<Rightarrow> 'd kernel" where
  "set_vfs v k = k\<lparr>ksys := (ksys k)\<lparr>vfs := v\<rparr>\<rparr>"

definition set_hw :: "'d \<Rightarrow> 'd kernel \<Rightarrow> 'd kernel" where
  "set_hw d k = set_vfs ((kvfs k)\<lparr>fsys := (fsys (kvfs k))\<lparr>hw := d\<rparr>\<rparr>) k"

definition set_kheap :: "kheap \<Rightarrow> 'd kernel \<Rightarrow> 'd kernel" where
  "set_kheap h k = k\<lparr>ksys := upd_kheap (\<lambda>_. h) (ksys k)\<rparr>"

definition logs :: "klog \<Rightarrow> 'd kernel \<Rightarrow> 'd kernel" where
  "logs l k = k\<lparr>log := log k @ l\<rparr>"

section \<open>Processor, memory and devices\<close>

definition page_set_dir :: "u32 \<Rightarrow> 'd sys \<Rightarrow> 'd sys" where
  "page_set_dir self s = s\<lparr>ks := (ks s)\<lparr>cr3 := self\<rparr>\<rparr>"

text \<open>\<open>tss_init\<close> and \<open>tss_load\<close> after the segments.\<close>

definition kmain_segments :: "linkage \<Rightarrow> 'd kernel \<Rightarrow> 'd kernel option" where
  "kmain_segments lk k = do {
     (g, reg) \<leftarrow> gdt_init (gdt_at lk) (tss_at lk) (gdt k);
     Some (k\<lparr>gdt := g, gdtr := reg, tss_seg := tss_init (tss_seg k) KERNEL_STACK_TOP (ucast GDT_KERNEL_DATA_SEGMENT),
       task_reg := GDT_TSS_SEGMENT\<rparr>) }"

definition kmain_interrupts :: "'d bus \<Rightarrow> linkage \<Rightarrow> 'd kernel \<Rightarrow> 'd kernel" where
  "kmain_interrupts b lk k = (let k1 = set_hw (pic_init b (khw k)) k; (t, reg) = idt_init (isr_at lk) (idt_at lk) (idt k1)
     in k1\<lparr>idt := t, idtr := reg\<rparr>)"

text \<open>The frames, the directory and the boot information; the size check may halt.\<close>

definition kmain_memory :: "linkage \<Rightarrow> (rat \<Rightarrow> string) \<Rightarrow> umem \<Rightarrow> u32 \<Rightarrow> u32 \<Rightarrow> 'd kernel \<Rightarrow> ('d kernel \<times> outcome) option" where
  "kmain_memory lk show_f m magic addr k = do {
     let k1 = set_kheap ((kheap_k k)\<lparr>kpfa := pfa_init (kpfa (kheap_k k))\<rparr>) k;
     let k2 = k1\<lparr>ksys := page_restore_kernel_dir (page_set_dir (cr3 (ks (ksys k1))) (ksys k1))\<rparr>;
     (l, p, v) \<leftarrow> read_multiboot2 m magic addr (kpfa (kheap_k k2), fst (display k2));
     let k3 = logs l (set_kheap ((kheap_k k2)\<lparr>kpfa := p\<rparr>) (k2\<lparr>display := (v, snd (display k2))\<rparr>));
     let (l', r) = check_kernel_size show_f (sections lk) MAX_KERNEL_SIZE;
     Some (logs l' k3, r) }"

text \<open>\<open>heap_dump\<close> follows the block at the start of the heap, which nothing has written yet.\<close>

definition kmain_heap :: "'d kernel \<Rightarrow> 'd kernel option" where
  "kmain_heap k = (let k1 = set_kheap (heap_init (kheap_k k)) k in
     do { n \<leftarrow> heap_dump (kheap_k k1); Some k1 })"

definition kmain_devices :: "'d bus \<Rightarrow> linkage \<Rightarrow> 'd kernel \<Rightarrow> 'd kernel option" where
  "kmain_devices b lk k = do {
     qk \<leftarrow> fifo_init (Some (kbd_queue k));
     qm \<leftarrow> fifo_init (Some (mouse_queue k));
     let k1 = k\<lparr>kbd_queue := qk, mouse_queue := qm, idt := kbd_init (isr_at lk) (idt k)\<rparr>;
     let (t, d) = mouse_init b (isr_at lk) (idt k1, khw k1);
     (tm, t', d') \<leftarrow> timer_init b (isr_at lk) 100 (t, d);
     v \<leftarrow> vfs_init (kvfs (set_hw d' k1));
     Some (set_vfs v (k1\<lparr>timer_dev := tm, idt := t'\<rparr>)) }"

text \<open>\<open>kmain\<close> up to \<open>vfs_init\<close>.\<close>

definition kmain_core :: "'d bus \<Rightarrow> linkage \<Rightarrow> (rat \<Rightarrow> string) \<Rightarrow> umem \<Rightarrow> u32 \<Rightarrow> u32 \<Rightarrow> 'd kernel \<Rightarrow> ('d kernel \<times> outcome) option" where
  "kmain_core b lk show_f m magic addr k = do {
     k1 \<leftarrow> kmain_segments lk k;
     (k2, r) \<leftarrow> kmain_memory lk show_f m magic addr (kmain_interrupts b lk k1);
     if r = Halted then Some (k2, Halted)
     else do {
       k3 \<leftarrow> kmain_heap k2;
       k4 \<leftarrow> kmain_devices b lk k3;
       Some (k4, Returned) } }"

section \<open>Disk and processes\<close>

text \<open>The directory the loader builds: the first 4 MiB at address 0, 48 MiB at the kernel's, 8 MiB of framebuffer.\<close>

definition boot_directory :: pdir where
  "boot_directory = 0x83 # replicate 767 0 @ map (\<lambda>i. of_nat i * 0x400000 OR 0x83) [0..<12] @ replicate 116 0
     @ [0xFD000083, 0xFD400083] @ replicate 126 0"

definition kmain_remove_identity :: "'d kernel \<Rightarrow> 'd kernel option" where
  "kmain_remove_identity k = do {
     d \<leftarrow> page_get_dir (ksys k);
     (d', p) \<leftarrow> remove_identity_mapping d (kpfa (kheap_k k));
     dir \<leftarrow> d';
     Some (logs [(''[INFO] Removing Identity Mapping...\<newline>'', []), (''[SUCCESS] Identity Mapping removed!\<newline>'', [])]
       (set_kheap ((kheap_k k)\<lparr>kpfa := p, kdir := dir\<rparr>) k)) }"

definition kmain_disk :: "'d bus \<Rightarrow> 'd kernel \<Rightarrow> 'd kernel option" where
  "kmain_disk b k = (if ata_get [0x41] = AtaNull then None else do {
     f \<leftarrow> ata_init b (fsys (kvfs k));
     v \<leftarrow> ata_mount_fs b ((kvfs k)\<lparr>fsys := f\<rparr>);
     (tz, v') \<leftarrow> rtc_load_timezone b (tz_offset k, v);
     k1 \<leftarrow> kmain_remove_identity (set_vfs v' (k\<lparr>tz_offset := tz\<rparr>));
     Some (k1\<lparr>ksys := syscall_init (ksys k1)\<rparr>) })"

definition kmain :: "'d bus \<Rightarrow> linkage \<Rightarrow> (rat \<Rightarrow> string) \<Rightarrow> umem \<Rightarrow> u32 \<Rightarrow> u32 \<Rightarrow> 'd kernel \<Rightarrow> ('d kernel \<times> outcome) option" where
  "kmain b lk show_f m magic addr k = do {
     (k1, r) \<leftarrow> kmain_core b lk show_f m magic addr k;
     if r = Halted then Some (k1, Halted)
     else do {
       k2 \<leftarrow> kmain_disk b k1;
       ((l, r'), disp, s) \<leftarrow> bootstrap b (stale k2) (kidle_at lk) (tz_offset k2) (display k2) (ksys k2);
       Some (logs l (k2\<lparr>display := disp, ksys := s, interrupts_on := (r' = Returned)\<rparr>), r') } }"

section \<open>What the initialisation establishes\<close>

text \<open>The globals before \<open>kmain\<close>: tables of their size, a heap without chunks on memory that is zero, no file system, queues that
  have the size of their buffers.\<close>

definition zero_block :: heap_block where
  "zero_block = \<lparr>bsize = 0, is_free = False, chunk_span = 0, bprev = 0, bnext = 0\<rparr>"

definition powered_on :: "'d kernel \<Rightarrow> bool" where [invs]:
  "powered_on k \<longleftrightarrow> length (gdt k) = 6 \<and> length (idt k) = 256 \<and> pfa_inv (kpfa (kheap_k k))
     \<and> used_chunks (kheap_k k) = 0 \<and> free_chunks (kheap_k k) = 0 \<and> blocks (kheap_k k) KERNEL_HEAP_START = Some zero_block
     \<and> filesystems (kvfs k) = replicate 8 0 \<and> length (fifo.buffer (kbd_queue k)) = FIFO_BUFFER_SIZE \<and> length (fifo.buffer (mouse_queue k)) = FIFO_BUFFER_SIZE"

text \<open>Afterwards: the invariants of the interrupt table, the frame allocator, the heap and the queues; a timer of 100 Hz; FAT16 as the
  first file system; user segments of privilege level 3 and kernel segments of level 0.\<close>

definition segments_ok :: "linkage \<Rightarrow> gdt_entry list \<Rightarrow> bool" where [invs]:
  "segments_ok lk g \<longleftrightarrow> length g = 6 \<and> map g_access g = [0x00, 0x9A, 0x92, 0xFA, 0xF2, 0x89] \<and> gdt_base (g ! 5) = tss_at lk"

definition queue_ready :: "fifo \<Rightarrow> bool" where [invs]:
  "queue_ready q \<longleftrightarrow> fifo_inv q \<and> fifo_list q = []"

definition core_ready :: "linkage \<Rightarrow> 'd kernel \<Rightarrow> bool" where [invs]:
  "core_ready lk k \<longleftrightarrow> segments_ok lk (gdt k) \<and> gates_ok (isr_at lk) (idt k) \<and> reserved (kpfa (kheap_k k)) \<and> heap_inv (kheap_k k) []
     \<and> queue_ready (kbd_queue k) \<and> queue_ready (mouse_queue k) \<and> timer_dev k = \<lparr>ticks = 0, hz = 100\<rparr>
     \<and> filesystems (kvfs k) = FAT16_FS # replicate 7 0 \<and> fat16_ready (kvfs k)"

lemma set_fields [simp]:
  "kvfs (set_vfs v k) = v" "gdt (set_vfs v k) = gdt k" "idt (set_vfs v k) = idt k" "kbd_queue (set_vfs v k) = kbd_queue k"
  "mouse_queue (set_vfs v k) = mouse_queue k" "timer_dev (set_vfs v k) = timer_dev k" "display (set_vfs v k) = display k"
  "kvfs (set_hw d k) = (kvfs k)\<lparr>fsys := (fsys (kvfs k))\<lparr>hw := d\<rparr>\<rparr>" "gdt (set_hw d k) = gdt k" "idt (set_hw d k) = idt k"
  "kbd_queue (set_hw d k) = kbd_queue k" "mouse_queue (set_hw d k) = mouse_queue k" "display (set_hw d k) = display k"
  "kheap_k (set_kheap h k) = h" "gdt (set_kheap h k) = gdt k" "idt (set_kheap h k) = idt k" "kbd_queue (set_kheap h k) = kbd_queue k"
  "mouse_queue (set_kheap h k) = mouse_queue k" "display (set_kheap h k) = display k" "filesystems (kvfs (set_kheap h k)) = filesystems (kvfs k)"
  "ksys (logs l k) = ksys k" "gdt (logs l k) = gdt k" "idt (logs l k) = idt k" "kbd_queue (logs l k) = kbd_queue k"
  "mouse_queue (logs l k) = mouse_queue k" "display (logs l k) = display k"
  by (simp_all add: set_vfs_def set_hw_def set_kheap_def logs_def upd_kheap_def)

lemma gdt_init_ok:
  assumes "length g = 6"
  obtains g' reg where "gdt_init ea ta g = Some (g', reg)" "length g' = 6" "map g_access g' = [0x00, 0x9A, 0x92, 0xFA, 0xF2, 0x89]" "gdt_base (g' ! 5) = ta"
proof -
  obtain a0 a1 a2 a3 a4 a5 where g: "g = [a0, a1, a2, a3, a4, a5]"
    using assms by (auto simp: length_Suc_conv numeral_eq_Suc)
  obtain g1 where g1: "gdt_set_entry 0 0 0 GDT_ACCESS_NULL 0 g = Some g1" "length g1 = 6" "map g_access g1 = [0x00, g_access a1, g_access a2, g_access a3, g_access a4, g_access a5]"
    by (simp add: g gdt_set_entry_def konst)
  obtain g5 where g5: "do {
     g \<leftarrow> gdt_set_entry 1 0 0xFFFFFFFF GDT_ACCESS_KERNEL_CODE GDT_FLAGS_DEFAULT g1;
     g \<leftarrow> gdt_set_entry 2 0 0xFFFFFFFF GDT_ACCESS_KERNEL_DATA GDT_FLAGS_DEFAULT g;
     g \<leftarrow> gdt_set_entry 3 0 0xFFFFFFFF GDT_ACCESS_USER_CODE GDT_FLAGS_DEFAULT g;
     gdt_set_entry 4 0 0xFFFFFFFF GDT_ACCESS_USER_DATA GDT_FLAGS_DEFAULT g } = Some g5"
    "length g5 = 6" "map g_access g5 = [0x00, 0x9A, 0x92, 0xFA, 0xF2, g_access a5]"
    using g1(2,3) by (simp add: gdt_set_entry_def konst map_update)
  obtain g' where g': "gdt_set_entry 5 ta (104 - 1) GDT_ACCESS_TSS 0 g5 = Some g'" "length g' = 6"
    "map g_access g' = [0x00, 0x9A, 0x92, 0xFA, 0xF2, 0x89]"
    using g5(2,3) by (simp add: gdt_set_entry_def konst map_update)
  have "gdt_init ea ta g = Some (g', \<lparr>t_limit = 8 * 6 - 1, t_base = ea\<rparr>)"
    using g1(1) g5(1) g'(1) by (auto simp: gdt_init_def split: bind_splits)
  then show ?thesis using that g'(2,3) gdt_entry_decodes(1) [OF g'(1)] by simp
qed

lemma kmain_interrupts_fields:
  "idt (kmain_interrupts b lk k) = fst (idt_init (isr_at lk) (idt_at lk) (idt k))" "gdt (kmain_interrupts b lk k) = gdt k"
  "kbd_queue (kmain_interrupts b lk k) = kbd_queue k" "mouse_queue (kmain_interrupts b lk k) = mouse_queue k"
  "kheap_k (kmain_interrupts b lk k) = kheap_k k" "filesystems (kvfs (kmain_interrupts b lk k)) = filesystems (kvfs k)"
  "display (kmain_interrupts b lk k) = display k"
  by (simp_all add: kmain_interrupts_def Let_def split_beta)

lemma fifo_init_ready:
  assumes "length (fifo.buffer q) = FIFO_BUFFER_SIZE"
  obtains q' where "fifo_init (Some q) = Some q'" "queue_ready q'"
  using assms by (simp add: fifo_init_def queue_ready_def fifo_inv_def fifo_list_def ring_list_def konst)

text \<open>A kernel below the limit passes the size check.\<close>

definition image_size :: "linkage \<Rightarrow> u32" where
  "image_size lk = sum_list (map (\<lambda>(s, e). e - s) (sections lk))"

lemma size_check_passes:
  assumes "image_size lk < MAX_KERNEL_SIZE"
  shows "snd (check_kernel_size show_f (sections lk) MAX_KERNEL_SIZE) = Returned"
proof -
  have "of_nat n / of_nat 0x1000000 * 100 < (100 :: rat)" if "n < 0x1000000" for n :: nat using that by simp
  moreover have "unat (image_size lk) < 0x1000000" using assms by (simp add: word_less_nat_alt konst)
  moreover have "unat MAX_KERNEL_SIZE = 0x1000000" by (simp add: konst)
  ultimately have "of_nat (unat (image_size lk)) / of_nat (unat MAX_KERNEL_SIZE) * 100 < (100 :: rat)" by metis
  then have "\<not> 100 \<le> of_nat (unat (image_size lk)) / of_nat (unat MAX_KERNEL_SIZE) * (100 :: rat)" by (simp only: not_le)
  then show ?thesis by (simp only: check_kernel_size_def image_size_def [symmetric] Let_def if_False snd_conv)
qed

text \<open>The part of the state the phases after the memory leave alone.\<close>

definition same_tables :: "'d kernel \<Rightarrow> 'd kernel \<Rightarrow> bool" where
  "same_tables k k' \<longleftrightarrow> gdt k' = gdt k \<and> idt k' = idt k \<and> kbd_queue k' = kbd_queue k \<and> mouse_queue k' = mouse_queue k
     \<and> filesystems (kvfs k') = filesystems (kvfs k)"

lemma pfa_init_reserved: "pfa_inv p \<Longrightarrow> reserved (pfa_init p)"
  by (simp add: reserved_def pfa_init_used subset_iff MAX_FRAMES_def)

lemma kmain_memory_ok:
  assumes "pfa_inv (kpfa (kheap_k k))" "image_size lk < MAX_KERNEL_SIZE"
    and info: "lies_at m (p2v addr + 8) (info_bytes ts)" "\<forall>t \<in> set ts. tag_wf t" "unat (p2v addr + 8) + length (info_bytes ts) < 2 ^ 32"
  obtains k' p where "kmain_memory lk show_f m magic addr k = Some (k', Returned)" "reserved p"
    "kheap_k k' = (kheap_k k)\<lparr>kpfa := p\<rparr>" "same_tables k k'"
proof -
  define k1 where "k1 = set_kheap ((kheap_k k)\<lparr>kpfa := pfa_init (kpfa (kheap_k k))\<rparr>) k"
  define k2 where "k2 = k1\<lparr>ksys := page_restore_kernel_dir (page_set_dir (cr3 (ks (ksys k1))) (ksys k1))\<rparr>"
  let ?l = "check_multiboot2_magic magic @ check_multiboot2_alignment addr"
  obtain p v where t: "take_tags ts (pfa_init (kpfa (kheap_k k)), fst (display k)) = Some (p, v)" "reserved p"
    using take_tags_reserved [of "(pfa_init (kpfa (kheap_k k)), fst (display k))" ts] pfa_init_reserved [OF assms(1)] by auto
  have h: "kheap_k k2 = (kheap_k k)\<lparr>kpfa := pfa_init (kpfa (kheap_k k))\<rparr>" "display k2 = display k" "same_tables k k2"
    by (simp_all add: k2_def k1_def page_restore_kernel_dir_def page_set_dir_def set_kheap_def upd_kheap_def same_tables_def)
  have "read_multiboot2 m magic addr (kpfa (kheap_k k2), fst (display k2)) = Some (?l, p, v)"
    using t(1) tag_walk_takes [OF info] by (simp add: read_multiboot2_def Let_def h(1,2))
  moreover obtain l' where "check_kernel_size show_f (sections lk) MAX_KERNEL_SIZE = (l', Returned)"
    using size_check_passes [OF assms(2)] by (metis prod.collapse)
  ultimately have "kmain_memory lk show_f m magic addr k = Some (logs l' (logs ?l (set_kheap ((kheap_k k2)\<lparr>kpfa := p\<rparr>)
      (k2\<lparr>display := (v, snd (display k2))\<rparr>))), Returned)"
    unfolding kmain_memory_def Let_def k1_def [symmetric] k2_def [symmetric] by simp
  then show ?thesis using that t(2) h by (auto simp: same_tables_def)
qed

lemma kmain_heap_ok:
  assumes "used_chunks (kheap_k k) = 0" "free_chunks (kheap_k k) = 0" "blocks (kheap_k k) KERNEL_HEAP_START = Some zero_block"
    "reserved (kpfa (kheap_k k))"
  obtains k' where "kmain_heap k = Some k'" "heap_inv (kheap_k k') []" "reserved (kpfa (kheap_k k'))" "same_tables k k'"
proof -
  have "heap_dump (heap_init (kheap_k k)) = Some (0, 0)"
    using assms(3) by (simp add: heap_dump_def heap_init_def heap_walk.simps block_at_def zero_block_def konst)
  moreover have "0 \<notin> free_frames (kpfa (kheap_k k))"
    using assms(4) frames_partition(2) [of "kpfa (kheap_k k)"] by (auto simp: reserved_def)
  then have "heap_inv (heap_init (kheap_k k)) []"
    using assms by (simp add: heap_inv_def heap_init_def reserved_def konst)
  ultimately show ?thesis using that assms(4) by (auto simp: kmain_heap_def same_tables_def heap_init_def)
qed

lemma kmain_devices_ok:
  assumes "idt k = fst (idt_init (isr_at lk) ia t)" "length t = 256" "filesystems (kvfs k) = replicate 8 0"
    "length (fifo.buffer (kbd_queue k)) = FIFO_BUFFER_SIZE" "length (fifo.buffer (mouse_queue k)) = FIFO_BUFFER_SIZE"
  obtains k' where "kmain_devices b lk k = Some k'" "gates_ok (isr_at lk) (idt k')" "queue_ready (kbd_queue k')" "queue_ready (mouse_queue k')"
    "timer_dev k' = \<lparr>ticks = 0, hz = 100\<rparr>" "filesystems (kvfs k') = FAT16_FS # replicate 7 0" "fat16_ready (kvfs k')"
    "gdt k' = gdt k" "kheap_k k' = kheap_k k"
proof -
  obtain qk qm where q: "fifo_init (Some (kbd_queue k)) = Some qk" "queue_ready qk" "fifo_init (Some (mouse_queue k)) = Some qm" "queue_ready qm"
    using fifo_init_ready [OF assms(4)] fifo_init_ready [OF assms(5)] by metis
  obtain t1 d1 where m: "mouse_init b (isr_at lk) (kbd_init (isr_at lk) (idt k), khw k) = (t1, d1)" by fastforce
  obtain d2 where tm: "timer_init b (isr_at lk) 100 (t1, d1)
      = Some (\<lparr>ticks = 0, hz = 100\<rparr>, idt_set 0x20 (isr_at lk ASM_IRQ0_TIMER) IDT_KERNEL_INT_GATE t1, d2)"
    by (simp add: timer_init_def Let_def)
  have g: "gates_ok (isr_at lk) (idt_set 0x20 (isr_at lk ASM_IRQ0_TIMER) IDT_KERNEL_INT_GATE t1)"
    using booted_gates [OF assms(2), of "isr_at lk" ia] mouse_init_table [of b "isr_at lk" "kbd_init (isr_at lk) (idt k)" "khw k"] m
    by (simp add: assms(1))
  let ?v = "kvfs (set_hw d2 (k\<lparr>kbd_queue := qk, mouse_queue := qm, idt := kbd_init (isr_at lk) (idt k)\<rparr>))"
  have "vfs_init ?v = Some (?v\<lparr>filesystems := FAT16_FS # replicate 7 0, fat16_ready := True\<rparr>)"
    using assms(3) by (simp add: vfs_init_def fat16_init_def vfs_insert_def konst numeral_eq_Suc)
  then show ?thesis using that q m tm g by (simp add: kmain_devices_def Let_def set_vfs_def set_hw_def)
qed


text \<open>A machine after a reset, with all its memory but one frame in use and one map of free memory.\<close>

definition heap_off :: kheap where
  "heap_off = \<lparr>start_addr = 0, next_addr = 0, end_addr = 0, last_block = 0, used_chunks = 0, free_chunks = 0,
     blocks = [KERNEL_HEAP_START \<mapsto> zero_block], kdata = (\<lambda>_. 0), kpfa = pfa_one_free, kdir = boot_directory\<rparr>"

definition kernel_off :: "drive kernel" where
  "kernel_off = \<lparr>gdt = replicate 6 \<lparr>g_limit = 0, base_low = 0, base_middle = 0, g_access = 0, g_flags = 0, base_high = 0\<rparr>,
     gdtr = \<lparr>t_limit = 0, t_base = 0\<rparr>, tss_seg = tss0, task_reg = 0,
     idt = replicate 256 \<lparr>isr_low = 0, kernel_cs = 0, reserved = 0, attributes = 0, isr_high = 0\<rparr>,
     idtr = \<lparr>t_limit = 0, t_base = 0\<rparr>, timer_dev = \<lparr>ticks = 0, hz = 0\<rparr>, display = (vbe_display0, \<lambda>_. 0), kbd_queue = fifo_kbd0,
     mouse_queue = fifo_kbd0, ksys = sys2\<lparr>vfs := (vfs0 0 heap_off)\<lparr>filesystems := replicate 8 0\<rparr>\<rparr>, tz_offset = 0,
     stale = \<lparr>add_cb = None, yield_cb = None, dump_cb = None, get_cb = None, sched_name = []\<rparr>, log = [], interrupts_on = False\<rparr>"

definition linkage0 :: linkage where
  "linkage0 = \<lparr>isr_at = (\<lambda>e. if e = ASM_SYSCALL then 0xC0101234 else 0xC0100000), gdt_at = 0xC0200000, tss_at = 0xC0201000,
     idt_at = 0xC0202000, sections = [(0xC0100000, 0xC0140000), (0xC0200000, 0xC0280000)], kidle_at = 0xC0100010\<rparr>"

lemma kernel_off_powered: "powered_on kernel_off"
  by (simp add: powered_on_def kernel_off_def heap_off_def vfs0_def pfa_one_free_inv fifo_kbd0_def konst)


section \<open>The identity mapping\<close>

text \<open>With the directory of the loader current, the call of \<open>kmain\<close> that is to remove the identity mapping changes nothing but the
  log: the entry of the first page maps the physical address 0.\<close>

lemma identity_mapping_stays:
  assumes "kdir (kheap_k k) = boot_directory" "cr3 (ks (ksys k)) = v2p (kdir_addr (ksys k))" "unat (v2p (kdir_addr (ksys k))) < 0x400000"
  shows "kmain_remove_identity k = Some (logs [(''[INFO] Removing Identity Mapping...\<newline>'', []), (''[SUCCESS] Identity Mapping removed!\<newline>'', [])] k)"
proof -
  let ?a = "v2p (kdir_addr (ksys k))"
  have d: "boot_directory ! 0 = 0x83" by (simp add: boot_directory_def)
  have i: "pd_index ?a = 0" using assms(3) by (simp add: pd_index_div)
  have "?a AND 0x3FFFFF = ?a"
  proof -
    have "unat (take_bit 22 ?a) = unat ?a" using assms(3) by (simp add: unsigned_take_bit_eq take_bit_nat_eq_self_iff)
    then have "take_bit 22 ?a = ?a" by (simp only: word_unat_eq_iff)
    then show ?thesis by (simp add: take_bit_eq_mask mask_numeral)
  qed
  then have "page_get_dir (ksys k) = Some boot_directory"
    using assms(1,2) by (simp add: page_get_dir_def page_get_phys_addr_def i d konst Let_def)
  moreover have "remove_identity_mapping boot_directory p = Some (Some boot_directory, p)" for p
    by (rule identity_mapping_not_removed) (simp add: d)
  moreover have "set_kheap ((kheap_k k)\<lparr>kpfa := kpfa (kheap_k k), kdir := boot_directory\<rparr>) k = k"
    using assms(1) by (simp add: set_kheap_def upd_kheap_def)
  ultimately show ?thesis by (simp add: kmain_remove_identity_def)
qed

end
