(* ===== verification/Selftest.thy ===== *)
theory Selftest
  imports Dump Kmain
begin

text \<open>
  The kernel's own test routines under \<open>test/\<close>, as clients of the components: what they print and the state they leave. Nothing of the
  kernel calls them. Two of them are proved to report success: the one of the disk on every drive that follows the ATA protocol, the one
  of the heap on every well-formed heap with memory left.
\<close>

unbundle bit_operations_syntax

section \<open>\<open>ata_test.c\<close>\<close>

definition test_data :: "u8 list" where
  "test_data = map of_char ''Hello IcariusOS!''"

definition dump_hex :: "u8 list \<Rightarrow> klog" where
  "dump_hex bs = map (\<lambda>byte. (''0x%x%x '', [PNum (ucast (drop_bit 4 byte AND 0x0F)), PNum (ucast (byte AND 0x0F))])) bs @ [line '''']"

text \<open>The flush after the write is sent whatever the result is.\<close>

definition test_ata_write :: "'d bus \<Rightarrow> ata_ptr \<Rightarrow> ('d, 'm) io_scheme \<Rightarrow> (klog \<times> ('d, 'm) io_scheme) option" where
  "test_ata_write b dev s = (if dev = AtaNull then Some ([], s) else do {
     let write_buffer = test_data @ replicate (512 - length test_data) 0;
     (res, s1) \<leftarrow> ata_write b dev 4096 1 write_buffer s;
     d \<leftarrow> wait_not_busy b (outb b ATA_COMMAND_PORT 0xE7 (hw s1));
     let l1 = dump_hex write_buffer @ [(''[KERNEL] Writing Test Data to Sector %d...\<newline>'', [PNum 4096])];
     if res < 0 then Some (l1, s1\<lparr>hw := d\<rparr>)
     else do {
       (res2, s2) \<leftarrow> ata_read b dev 4096 1 (s1\<lparr>hw := d\<rparr>);
       let l2 = l1 @ [(''[KERNEL] Reading Back from Sector %d...\<newline>'', [PNum 4096])];
       if res2 < 0 then Some (l2, s2)
       else let read_buffer = take 512 (buffer (ata_dev s2)) in
         Some (l2 @ dump_hex read_buffer
           @ [line (if take (length test_data) read_buffer = test_data then ''[KERNEL] SUCCESS: ata_write()!'' else ''[KERNEL] ERROR: ata_write()!'')], s2) } })"

section \<open>\<open>heap_test.c\<close>\<close>

abbreviation hashes :: string where "hashes \<equiv> ''############################''"
abbreviation hash_rule :: string where "hash_rule \<equiv> ''##------------------------##''"

definition test_heap :: "u32 \<Rightarrow> kheap \<Rightarrow> (klog \<times> kheap) option" where
  "test_heap n h = (let top = [line '''', line hashes, line ''##       HEAP TEST        ##'', line hash_rule] in do {
     (p, h1) \<leftarrow> kzalloc (unat n) h;
     if p = 0 then Some (top @ [(''## [ERROR] Failed to Allocate %d Bytes.\<newline>'', [PNum n]), line hashes], h1)
     else do {
       h2 \<leftarrow> kfree p h1;
       Some (top @ [line ''##    ALLOCATED MEMORY    ##'', (''##   USER:  0x%x    ##\<newline>'', [PN p]),
         (''##   BLOCK: 0x%x    ##\<newline>'', [PN (p - sizeof_heap_block)]), line hashes], h2) } })"

section \<open>\<open>page_test.c\<close>\<close>

definition test_page_dir_create :: "(u32 \<times> pdir) option \<Rightarrow> klog" where
  "test_page_dir_create pd = (case pd of None \<Rightarrow> [line ''[ERROR] Failed to create Page Directory'']
     | Some (a, d) \<Rightarrow> [(''[DEBUG INFO] New Page Directory created at Virtual Address: 0x%x\<newline>'', [PNum a]),
         (''[DEBUG INFO] First Kernel Mapping (768): 0x%x\<newline>'', [PNum (d ! 768)]),
         (''[DEBUG INFO] Last Kernel Mapping (1023): 0x%x\<newline>'', [PNum (d ! 1023)])]
       @ concat (map (\<lambda>i. if d ! i AND PAGE_PRESENT \<noteq> 0
           then [('' - Entry %d: PhysAddr=0x%x | Flags=0x%x\<newline>'', [PN i, PNum (d ! i AND 0xFFFFF000), PNum (d ! i AND 0xFFF)])] else []) [768..<1024]))"

section \<open>\<open>vfs_test.c\<close>\<close>

text \<open>The result of \<open>vfs_fread\<close> is unsigned: the test for an error takes 0 alone. The file is a string with its terminator.\<close>

definition test_read :: "'d bus \<Rightarrow> u8 list \<Rightarrow> 'd vfs_state \<Rightarrow> (klog \<times> 'd vfs_state) option" where
  "test_read b fname s = (let top = [line '''', line hashes, line ''##      VFS READ TEST     ##'', line hash_rule];
       name = PStr (text_of (takeWhile (\<lambda>c. c \<noteq> 0) fname)); failed = ''[ERROR] Failed to Read from File Descriptor: %d\<newline>'' in do {
     (fd, s1) \<leftarrow> vfs_fopen b fname [0x72, 0] s;
     if fd < 0 then Some (top @ [(''[ERROR] Failed to Open File %s\<newline>'', [name])], s1)
     else do {
       (r, s2) \<leftarrow> vfs_fseek fd 0x2300 0 s1;
       if r < 0 then do { (c, s3) \<leftarrow> vfs_fclose fd s2; Some (top @ [(''[ERROR] Failed to Seek in File Descriptor: %d\<newline>'', [PI fd])], s3) }
       else do {
         (n1, bs1, s3) \<leftarrow> vfs_fread b True 10 1 fd s2;
         if n1 = 0 then do { (c, s4) \<leftarrow> vfs_fclose fd s3; Some (top @ [(failed, [PI fd])], s4) }
         else do {
           (n2, bs2, s4) \<leftarrow> vfs_fread b True 10 1 fd s3;
           if n2 = 0 then do { (c, s5) \<leftarrow> vfs_fclose fd s4; Some (top @ [(failed, [PI fd])], s5) }
           else do {
             data \<leftarrow> c_text (bs2 @ drop (length bs2) bs1 @ replicate (1024 - max (length bs1) (length bs2)) 0);
             (c, s5) \<leftarrow> vfs_fclose fd s4;
             Some (top @ [line ''##        READ DATA:      ##'', (''##       %s\<newline>'', [PStr data]), line hashes]
               @ (if c < 0 then [(failed, [PI fd])] else []), s5) } } } } })"

definition readdir_line :: "vfs_dirent \<Rightarrow> klog" where
  "readdir_line dir = (let name = text_of (takeWhile (\<lambda>c. c \<noteq> 0) (dname dir)) in
     (if dtype dir = 1 \<and> name \<noteq> ''.'' \<and> name \<noteq> ''..'' then [(''/'', [])] else []) @ [(''%s'', [PStr name])]
     @ replicate (12 - length name) ('' '', []) @ [if dtype dir = 1 then line ''[DIR]'' else ('' %d Bytes\<newline>'', [PNum (dsize dir)])])"

text \<open>The loop ends with the first result 0; a negative result prints the last entry again.\<close>

partial_function (option) readdir_lines :: "'d bus \<Rightarrow> int \<Rightarrow> vfs_dirent \<Rightarrow> 'd vfs_state \<Rightarrow> (klog \<times> 'd vfs_state) option" where
  "readdir_lines b fd dir s = do {
     (r, e, s1) \<leftarrow> vfs_readdir b fd True s;
     if r = 0 then Some ([], s1)
     else do {
       (ls, s2) \<leftarrow> readdir_lines b fd (case e of Some x \<Rightarrow> x | None \<Rightarrow> dir) s1;
       Some (readdir_line (case e of Some x \<Rightarrow> x | None \<Rightarrow> dir) @ ls, s2) } }"

definition test_readdir :: "'d bus \<Rightarrow> u8 list \<Rightarrow> 'd vfs_state \<Rightarrow> (klog \<times> 'd vfs_state) option" where
  "test_readdir b pathname s = (let name = PStr (text_of (takeWhile (\<lambda>c. c \<noteq> 0) pathname)) in do {
     (fd, s1) \<leftarrow> vfs_fopen b pathname [0x72, 0] s;
     if fd < 0 then Some ([(''Error: Could not open %s\<newline>'', [name])], s1)
     else do {
       (ls, s2) \<leftarrow> readdir_lines b fd \<lparr>dname = [], dtype = 0, dsize = 0, dmodified = 0\<rparr> s1;
       (c, s3) \<leftarrow> vfs_fclose fd s2;
       Some ([(''\<newline>%s\<newline>'', [name]), line ''========================''] @ ls @ [line ''''], s3) } })"

text \<open>\<open>strncpy\<close> into an array of \<open>n\<close> bytes; an array of no bytes is undefined. \<open>log_file\<close> is \<open>"A:/TMP/LOG.TXT"\<close>.\<close>

definition strncpy_bytes :: "nat \<Rightarrow> u8 list \<Rightarrow> u8 list" where
  "strncpy_bytes n msg = take n (takeWhile (\<lambda>c. c \<noteq> 0) msg @ replicate n 0)"

definition log_file :: "u8 list" where
  "log_file = map of_char ''A:/TMP/LOG.TXT'' @ [0]"

definition test_write :: "'d bus \<Rightarrow> u8 list \<Rightarrow> u32 \<Rightarrow> 'd vfs_state \<Rightarrow> (klog \<times> 'd vfs_state) option" where
  "test_write b msg n s = do {
     (fd, s1) \<leftarrow> vfs_fopen b log_file [0x77, 0] s;
     if fd < 0 then Some ([], s1)
     else if n = 0 then None
     else do {
       (m, s2) \<leftarrow> vfs_fwrite b (Some (strncpy_bytes (unat n) msg)) n 1 fd s1;
       (c, s3) \<leftarrow> vfs_fclose fd s2;
       Some ([line ''[FAT16] LOG.TXT was successfully written.''], s3) } }"

section \<open>The tests pass\<close>

lemma test_data_length [simp]: "length test_data = 16" by (simp add: test_data_def)

context ata_device
begin

text \<open>The test of the disk reports success and changes sector 4096 alone.\<close>

lemma test_ata_write_passes:
  assumes "ready s"
  shows "\<exists>l s'. test_ata_write b AtaDev s = Some (l, s') \<and> last l = line ''[KERNEL] SUCCESS: ata_write()!'' \<and> ready s'
    \<and> sector (hw s') = (sector (hw s))(4096 := test_data @ replicate 496 0)"
proof -
  let ?w = "test_data @ replicate (512 - length test_data) 0"
  have "(4096 :: u32) < 2 ^ 28" "length ?w = 512" by simp_all
  from ata_write_sector [OF assms this] obtain d where
    d: "ata_write b AtaDev 4096 1 ?w s = Some (0, s\<lparr>hw := d\<rparr>)" "idle d" "sector d = (sector (hw s))(4096 := ?w)" by auto
  have "flushing (outb b ATA_COMMAND_PORT ATA_CMD_CACHE_FLUSH d)" "sector (outb b ATA_COMMAND_PORT ATA_CMD_CACHE_FLUSH d) = sector d"
    using flush [of d] d(2) by simp_all
  then obtain d2 where d2: "wait_not_busy b (outb b ATA_COMMAND_PORT 0xE7 d) = Some d2" "idle d2" "sector d2 = sector d"
    using wait_not_busy_idle [of "outb b ATA_COMMAND_PORT ATA_CMD_CACHE_FLUSH d"] by (auto simp: ATA_CMD_CACHE_FLUSH_def)
  let ?s = "s\<lparr>hw := d2\<rparr>"
  have "ready ?s" using assms d2(2) by (simp add: dev_ready_def)
  from ata_read_sector [OF this, of 4096] obtain s2 where
    s2: "ata_read b AtaDev 4096 1 ?s = Some (0, s2)" "quiet ?s s2" "buffer (ata_dev s2) = ?w" using d2(3) d(3) by auto
  have "sector (hw s2) = sector d2" using s2(2) by (simp add: dev_quiet_def)
  then show ?thesis using d(1,3) d2(1,3) s2 by (auto simp: test_ata_write_def Let_def quiet_ready)
qed

end

text \<open>The test of the heap reports an allocation and gives it back.\<close>

lemma test_heap_passes:
  assumes "heap_inv h xs" "9 \<le> card (free_frames (kpfa h))" "next_addr h + unat n + sizeof_heap_block \<le> KERNEL_HEAP_MAX"
  shows "\<exists>l p h' j. test_heap n h = Some (l, h') \<and> l ! 5 = (''##   USER:  0x%x    ##\<newline>'', [PN p]) \<and> p \<noteq> 0
    \<and> heap_inv h' (xs @ replicate (1024 * j) (1, True))"
proof -
  define t where "t = (unat n + sizeof_heap_block) mod 2 ^ 32"
  have t: "t = unat n + sizeof_heap_block" "0 < t" "next_addr h + t \<le> KERNEL_HEAP_MAX" using assms(3) by (simp_all add: t_def konst)
  define k where "k = (t + 4095) div 4096"
  obtain us vs j h1 where r: "heap_malloc (unat n) h = Some (KERNEL_HEAP_START + 4096 * spans us + sizeof_heap_block, h1)"
      "xs @ replicate (1024 * j) (1, True) = us @ replicate k (1, True) @ vs" "heap_inv h1 (us @ (k, False) # vs)"
    using heap_malloc_ok [OF assms(1,2) t_def t(2,3) k_def] by blast
  let ?p = "KERNEL_HEAP_START + 4096 * spans us + sizeof_heap_block"
  have "length (replicate (unat n) (0 :: u8)) + sizeof_heap_block \<le> 4096 * k" unfolding k_def t(1) by simp
  from heap_free_inv [OF write_data_inv [OF r(3) refl this]] obtain h2 where
    h2: "heap_free ?p (write_data ?p (replicate (unat n) 0) h1) = Some h2" "heap_inv h2 (us @ replicate k (1, True) @ vs)" by auto
  define q where "q = ?p"
  have z: "q \<noteq> 0" by (simp add: q_def konst)
  have f: "kfree q (write_data q (replicate (unat n) 0) h1) = Some h2" using h2(1) [folded q_def] z by (simp add: kfree_def)
  have "kzalloc (unat n) h = Some (q, write_data q (replicate (unat n) 0) h1)" using r(1) by (simp add: kzalloc_def q_def konst)
  with f z have "test_heap n h = Some ([line '''', line hashes, line ''##       HEAP TEST        ##'', line hash_rule] @
      [line ''##    ALLOCATED MEMORY    ##'', (''##   USER:  0x%x    ##\<newline>'', [PN q]),
         (''##   BLOCK: 0x%x    ##\<newline>'', [PN (q - sizeof_heap_block)]), line hashes], h2)"
    by (simp add: test_heap_def)
  moreover have "heap_inv h2 (xs @ replicate (1024 * j) (1, True))" using h2(2) r(2) by simp
  ultimately show ?thesis using z by (intro exI conjI) auto
qed

text \<open>The page that \<open>test_isr_14\<close> writes to for a page fault is mapped by the loader, as the second part of the framebuffer.\<close>

lemma page_fault_test_is_mapped:
  "pd_index 0xE0400000 = 897" "boot_directory ! 897 AND PAGE_PRESENT \<noteq> 0" "boot_directory ! 897 AND PAGE_WRITABLE \<noteq> 0"
  by (simp_all add: pd_index_div boot_directory_def nth_append konst)

end
