(* ===== verification/Spec2Isabelle.thy ===== *)
theory Spec2Isabelle
  imports Console Vga Cmos Rtc Shell Spinlock Port64 Dtoa Usys Path_Heap Selftest
begin

text \<open>
  \<^bold>\<open>IcariusOS: a verification library for the 32-bit kernel, its user library and shell, and the 64-bit port.\<close>

  \<^bold>\<open>The program.\<close> IcariusOS is an operating system for the i386. After the boot loader has entered \<open>kmain\<close>
  (\<open>src/src/x86/kernel.c\<close>) the kernel fills the descriptor tables, takes the memory map from the loader, sets up the frame
  allocator, paging and the kernel heap, initialises the input devices and the timer, mounts a FAT16 volume on the ATA disk and
  starts a shell. From then on it only reacts: the timer interrupt schedules tasks, the keyboard interrupt fills the buffer of the
  process in the foreground and wakes up who waits for it, and interrupt \<open>0x80\<close> carries the system calls, which use files, the
  keyboard buffer, processes and the scheduler. The shell is a user program: it reads scancodes through the system calls, edits and
  remembers lines, runs builtins and prints through a C library of its own. The 64-bit port (\<open>src/src/x86_64\<close>) so far starts, finds the
  framebuffer and writes text on it.

  \<^bold>\<open>Theories and sources\<close> (files under \<open>src/src/x86\<close> unless said otherwise).
  \<^item> \<open>Prelude\<close>: integer types, error numbers, list and word lemmas, the ring view of an array. \<open>Port_Io\<close>: the ports, that is the
    interface to the hardware, and little-endian values.
  \<^item> Memory. \<open>Frame_Alloc\<close> states what a frame allocator promises; \<open>Pfa\<close> models \<open>memory/pfa.c\<close> and the marking of frames in
    \<open>kernel.c\<close> and implements it; \<open>Paging\<close> models \<open>memory/page.c\<close>; \<open>Kheap\<close> models \<open>memory/heap.c\<close>, \<open>Kheap_Inv\<close> has its invariant
    and its properties; \<open>Umalloc\<close> models \<open>user/libc/malloc/malloc.c\<close>.
  \<^item> Queues and tasks. \<open>Bounded_Queue\<close> states what a bounded queue promises; \<open>Fifo\<close> (\<open>ds/fifo.c\<close>) and \<open>Taskq\<close> (the arrays of
    \<open>scheduler/rr.c\<close> and \<open>scheduler/wq.c\<close>) implement it. \<open>Task\<close> has the kernel's record of tasks and processes and most of
    \<open>process/task.c\<close>; \<open>Sched\<close> models \<open>scheduler/*.c\<close>.
  \<^item> Hardware. \<open>Platform\<close>: \<open>src/src/arch/x86/gdt.c\<close>, \<open>pic.c\<close>, the table of \<open>idt.c\<close>, \<open>driver/timer.c\<close>, \<open>process/tss.c\<close>. \<open>Isr\<close>: the
    exceptions of \<open>idt.c\<close> and the stack \<open>idt.asm\<close> hands to them. \<open>Input\<close>: \<open>driver/ps2.c\<close>, \<open>mouse.c\<close>, \<open>keyboard.c\<close> and
    \<open>user/libc/kbd.c\<close>. \<open>Interrupt\<close>: the hardware interrupts of \<open>idt.c\<close> on the state they share. \<open>Cmos\<close>, \<open>Rtc\<close> and \<open>Pci\<close>: the
    drivers of the same names.
  \<^item> Files. \<open>Path\<close>: \<open>fs/pathlexer.c\<close> and \<open>fs/pathparser.c\<close>. \<open>Ata\<close>: \<open>driver/ata.c\<close>; \<open>Ata_Device\<close> is what the driver relies on, as a
    locale, and a drive that provides it. \<open>Stream\<close>: \<open>fs/stream.c\<close>. \<open>Fat16_Codec\<close>, \<open>Fat16_Table\<close>, \<open>Fat16_Dir\<close>, \<open>Fat16\<close> and
    \<open>Fat16_Create\<close>: \<open>driver/fat16/fat16.c\<close>, from its structures to the operations of a file system; \<open>Fat16_File\<close> has the properties
    of open files. \<open>Vfs\<close>: \<open>fs/vfs.c\<close>.
  \<^item> Processes. \<open>Process\<close>: \<open>process/process.c\<close> and the creation of tasks, on the composed state of the kernel, with user memory as
    physical memory behind page directories; \<open>Process_Inv\<close>: the process list and \<open>process_exit\<close>. \<open>Syscall\<close>: \<open>syscall.c\<close>.
    \<open>Usys\<close>: \<open>user/libc/syscall.c\<close>, a call from the program through the interrupt to the handler and back.
  \<^item> Output. \<open>Vbe\<close>, \<open>Font\<close> and \<open>Console\<close>: \<open>driver/vbe.c\<close>, the font and \<open>lib/stdio.c\<close> on the framebuffer; \<open>Vga\<close>: the text mode console of
    \<open>driver/vga.c\<close> and \<open>cursor.c\<close>.
  \<^item> Libraries. \<open>Cstring\<close>: \<open>lib/string.c\<close>, \<open>Stdlib\<close>: \<open>lib/stdlib.c\<close> and \<open>lib/ctype.c\<close>, \<open>Dtoa\<close>: \<open>dtoa\<close> and \<open>lib/math.c\<close>. Of the user's
    library (\<open>user/libc\<close>) \<open>Ustring\<close> has \<open>string.c\<close>, \<open>Ustdio\<close> \<open>stdio.c\<close> and \<open>dirent.c\<close>, \<open>History\<close> and \<open>Readline\<close> the files of these names.
  \<^item> Programs. \<open>Shell\<close>: \<open>user/icarsh\<close>. \<open>Port64\<close>: the 64-bit port. \<open>Spinlock\<close>: \<open>src/src/arch/x86/sync\<close>.
  \<^item> Start and tests. \<open>Boot\<close>: the parts of \<open>kernel.c\<close>, with the boot information as bytes; \<open>Kmain\<close>: their composition with the
    initialisations of all components, on one state. \<open>Path_Heap\<close>: the memory of parsed paths. \<open>Dump\<close>: the routines that print the state of
    a component. \<open>Selftest\<close>: the kernel's tests under \<open>test\<close>.

  \<^bold>\<open>State and operations.\<close> A C function is a function of the same name on a record of the state it can reach; where its body can
  be undefined or fail to return, the result is an option and \<open>None\<close> stands for these executions. Static variables are fields
  of the record or arguments. Structures are records, arrays are lists, and memory whose layout matters (strings, the two heaps,
  user pages) is a function from addresses to bytes or a map from addresses to structures. Unsigned integers are words and
  wrap. The addresses the linker chooses and the hardware behind the ports are parameters; assumptions about hardware (a drive
  that keeps its sectors, a clock that keeps its registers, a configuration space) are locales, each interpreted on a concrete
  device that the witnesses use.

  \<^bold>\<open>What is shown.\<close>
  \<^item> Refinement of abstract contracts: the frame allocator, the three ring buffers (first in first out, loss of the tail on an
    overrun), the process list; \<open>find_best_fit_free_block\<close> against a reference definition.
  \<^item> Functional behaviour on every branch: mapping of pages and isolation of fresh directories, kernel allocations (disjoint,
    large enough, and they succeed while frames are free), scheduling and fairness, waking up, delivery of a keystroke, reads
    and writes of streams and files, the end of a process, \<open>read\<close> and \<open>write\<close> as a program sees them, formatted output as the text it
    means and as the picture on the screen, lines as the editing keys describe them, builtins of the shell, mouse packets, PCI search.
  \<^item> Invariants: the descriptor table of the VFS under every history of calls; tasks, queues and buffers under every order of
    interrupts, together with the absence of undefined behaviour in the handlers; the lock of any number of threads; and \<open>kmain\<close>
    establishes what the components start from.
  \<^item> Round trips: the boot information, path printing and parsing, numerals, 8.3 file names, writing and reading files and streams, \<open>kmalloc\<close> and \<open>kfree\<close>.
  \<^item> Deviations, proved as theorems about the code as it is: the identity mapping that stays, a task lost by a full ready queue,
    files created without a directory entry, descriptors that dangle or cannot be read, a terminator written into the next heap
    header, user allocations that overlap, a page fault handler that tests the wrong word, years of the wrong century, fractions
    printed without their leading zeros, a table of clusters printed with the wrong numbers, system calls that halt the kernel.

  \<^bold>\<open>Bounds and fuel.\<close> Loops with a bound in the source recurse on that bound (100000 polls of the PS/2 controller, the polls of
  the drive, 32 bytes per dispatch, the table of 512 descriptors). Walks over linked data that the code does not bound are
  \<open>partial_function (option)\<close> definitions, or recurse on a measure that is a lemma of the theory; that they return on well-formed
  data is part of the theorems (\<open>chain_length_correct\<close>, \<open>best_fit_is_best\<close>, \<open>kmalloc_allocates\<close>).

  \<^bold>\<open>Parameters.\<close> The hardware behind the ports, the addresses of the linker, the system calls behind \<open>Ustdio\<close> and \<open>Shell\<close> (the record
  \<open>calls\<close>; \<open>Usys\<close> has the calls themselves), the rounding of the processor in \<open>Dtoa\<close> and the text of a floating-point number in formatted
  output, which \<open>Dtoa\<close> describes, the memory that was never written.

  \<^bold>\<open>Not modelled.\<close> Assembly beyond the entries of \<open>idt.asm\<close>, the exchange instruction and the effect of \<open>asm_enter_task\<close>; \<open>test/isr_test.c\<close>,
  whose routines are instructions that raise exceptions; infinities, NaN and the bounds of exponents of floating-point numbers; loops that
  only wait (\<open>busy_wait\<close>, the idle loop, \<open>panic\<close> of the port); \<open>klib/string.c\<close> of the port, the routines of \<open>Cstring\<close> over again with
  64-bit counts; \<open>limine.h\<close>, the boot protocol of a third party, but for the framebuffer. Messages of the kernel are kept where they are what
  a routine is for (\<open>Isr\<close>, \<open>Boot\<close>, \<open>Kmain\<close>, \<open>Dump\<close>, \<open>Selftest\<close>) and left out elsewhere. Files and programs share no state with the console
  in the model of the kernel: its output is a list of bytes there and a picture in \<open>Console\<close>.
\<close>

end
